(* ===== verification/Asli_Prelude.thy ===== *)
theory Asli_Prelude
  imports Main "HOL-Library.Word" "HOL-Library.List_Lexorder" "HOL-Library.Product_Lexorder"
    "HOL-Library.AList"
begin

text \<open>
  What every component shares: the names of the machine types, the result monad that models
  Rust's \<open>Result\<close> and the \<open>?\<close> operator, saturating and checked integer arithmetic,
  big endian byte encodings of the fixed width integers, the association list that models a
  \<open>HashMap\<close>, and three interfaces stated as locales: a state machine with an invariant, a
  total encoder with a partial decoder, and a bounded first in first out window.
\<close>

section \<open>Machine types and results\<close>

type_synonym byte = "8 word"
type_synonym bytes = "byte list"
type_synonym u16 = "16 word"
type_synonym u32 = "32 word"
type_synonym u64 = "64 word"

named_theorems asli_const \<open>the constants of the source, unfolded to their values\<close>
named_theorems asli_wire \<open>equations that evaluate readers and writers\<close>
named_theorems asli_len \<open>lengths of encoded fields\<close>

definition ebind :: "'e + 'a \<Rightarrow> ('a \<Rightarrow> 'e + 'b) \<Rightarrow> 'e + 'b" where
  "ebind m f = (case m of Inl e \<Rightarrow> Inl e | Inr x \<Rightarrow> f x)"

lemma ebind_simps [simp]:
  "ebind (Inl e) f = Inl e" "ebind (Inr x) f = f x"
  by (simp_all add: ebind_def)

lemma ebind_Inr_iff:
  "ebind m f = Inr y \<longleftrightarrow> (\<exists>x. m = Inr x \<and> f x = Inr y)"
  by (cases m) auto

lemma ebind_Inl_iff:
  "ebind m f = Inl e \<longleftrightarrow> m = Inl e \<or> (\<exists>x. m = Inr x \<and> f x = Inl e)"
  by (cases m) auto

lemma ebind_cong [fundef_cong]:
  assumes "m = m'" "\<And>x. m' = Inr x \<Longrightarrow> f x = f' x"
  shows "ebind m f = ebind m' f'"
  using assms by (cases m') auto

text \<open>Rust's \<open>map_err\<close>, and the choice of an error where an \<open>Option\<close> is empty.\<close>

definition map_err :: "('e \<Rightarrow> 'f) \<Rightarrow> 'e + 'a \<Rightarrow> 'f + 'a" where
  "map_err g m = (case m of Inl e \<Rightarrow> Inl (g e) | Inr x \<Rightarrow> Inr x)"

lemma map_err_simps [simp]:
  "map_err g (Inl e) = Inl (g e)" "map_err g (Inr x) = Inr x"
  by (simp_all add: map_err_def)

lemma map_err_Inr_iff [simp]: "map_err g m = Inr x \<longleftrightarrow> m = Inr x"
  by (cases m) auto

definition ok_or :: "'e \<Rightarrow> 'a option \<Rightarrow> 'e + 'a" where
  "ok_or e m = (case m of None \<Rightarrow> Inl e | Some x \<Rightarrow> Inr x)"

lemma ok_or_simps [simp]:
  "ok_or e None = Inl e" "ok_or e (Some x) = Inr x"
  by (simp_all add: ok_or_def)

lemma ok_or_Inr_iff [simp]: "ok_or e m = Inr x \<longleftrightarrow> m = Some x"
  by (cases m) auto

definition guard :: "bool \<Rightarrow> 'e \<Rightarrow> 'e + unit" where
  "guard b e = (if b then Inr () else Inl e)"

lemma guard_simps [simp]:
  "guard True e = Inr ()" "guard False e = Inl e"
  by (simp_all add: guard_def)

lemma guard_Inr_iff [simp]: "guard b e = Inr u \<longleftrightarrow> b"
  by (simp add: guard_def)

section \<open>Saturating arithmetic\<close>

definition sat_add :: "'a::len word \<Rightarrow> 'a word \<Rightarrow> 'a word" where
  "sat_add a b = (if unat a + unat b < 2 ^ LENGTH('a) then a + b else - 1)"

definition sat_sub :: "'a::len word \<Rightarrow> 'a word \<Rightarrow> 'a word" where
  "sat_sub a b = (if b \<le> a then a - b else 0)"

lemma unat_max_word: "unat (- 1 :: 'a::len word) = 2 ^ LENGTH('a) - 1"
  by (simp add: unsigned_minus_1_eq_mask mask_eq_exp_minus_1)

lemma unat_bound: "unat (w :: 'a::len word) < 2 ^ LENGTH('a)"
  by (rule unsigned_less)

lemma unat_byte_bound: "unat (b :: byte) < 256"
  using unat_bound [of b] by simp

lemma unat_sat_add:
  "unat (sat_add a b :: 'a::len word) = min (unat a + unat b) (2 ^ LENGTH('a) - 1)"
proof (cases "unat a + unat b < 2 ^ LENGTH('a)")
  case True
  then have "unat (a + b) = unat a + unat b"
    by (simp add: unat_word_ariths)
  with True show ?thesis by (simp add: sat_add_def)
next
  case False
  then show ?thesis by (simp add: sat_add_def unat_max_word)
qed

lemma unat_sat_sub: "unat (sat_sub a b :: 'a::len word) = unat a - unat b"
proof (cases "b \<le> a")
  case True
  then show ?thesis by (simp add: sat_sub_def unat_sub)
next
  case False
  then show ?thesis by (simp add: sat_sub_def word_le_nat_alt)
qed

lemma sat_sub_le_iff: "sat_sub a b \<le> c \<longleftrightarrow> unat a - unat b \<le> unat c"
  by (simp add: word_le_nat_alt unat_sat_sub)

lemma sat_sub_gt_iff: "c < sat_sub a b \<longleftrightarrow> unat c < unat a - unat b"
  by (simp add: word_less_nat_alt unat_sat_sub)

lemma sat_sub_mono: "a \<le> a' \<Longrightarrow> sat_sub a b \<le> sat_sub a' b"
  by (simp add: word_le_nat_alt unat_sat_sub)

lemma le_sat_add: "(a :: 'a::len word) \<le> sat_add a b"
proof -
  have "unat a \<le> 2 ^ LENGTH('a) - 1" using unat_bound [of a] by linarith
  then show ?thesis by (simp add: word_le_nat_alt unat_sat_add)
qed

section \<open>Big endian bytes\<close>

text \<open>
  \<open>nat_be n x\<close> is \<open>x\<close> in \<open>n\<close> bytes, most significant first, and \<open>be_nat\<close> reads it back.
  Rust's \<open>to_be_bytes\<close> and \<open>from_be_bytes\<close> are the two at the width of the type.
\<close>

fun nat_be :: "nat \<Rightarrow> nat \<Rightarrow> bytes" where
  "nat_be 0 x = []"
| "nat_be (Suc n) x = nat_be n (x div 256) @ [of_nat x]"

definition be_nat :: "bytes \<Rightarrow> nat" where
  "be_nat bs = foldl (\<lambda>a b. a * 256 + unat b) 0 bs"

lemma be_nat_Nil [simp]: "be_nat [] = 0"
  by (simp add: be_nat_def)

lemma be_nat_snoc [simp]: "be_nat (bs @ [b]) = be_nat bs * 256 + unat b"
  by (simp add: be_nat_def)

lemma length_nat_be [simp, asli_len]: "length (nat_be n x) = n"
  by (induction n arbitrary: x) auto

lemma unat_of_nat_byte: "unat (of_nat x :: byte) = x mod 256"
  by (simp add: unat_of_nat)

lemma be_nat_nat_be: "be_nat (nat_be n x) = x mod 256 ^ n"
proof (induction n arbitrary: x)
  case 0
  then show ?case by simp
next
  case (Suc n)
  have "x mod (256 * 256 ^ n) = 256 * (x div 256 mod 256 ^ n) + x mod 256"
    by (rule mod_mult2_eq)
  with Suc show ?case by (simp add: unat_of_nat_byte)
qed

lemma be_nat_less: "be_nat bs < 256 ^ length bs"
proof (induction bs rule: rev_induct)
  case Nil
  then show ?case by simp
next
  case (snoc b bs)
  have "unat b < 256" by (rule unat_byte_bound)
  with snoc have "be_nat bs * 256 + unat b < (be_nat bs + 1) * 256" by simp
  also have "\<dots> \<le> 256 ^ length bs * 256" using snoc by (intro mult_le_mono1) simp
  finally show ?case by simp
qed

lemma nat_be_be_nat: "length bs = n \<Longrightarrow> nat_be n (be_nat bs) = bs"
proof (induction n arbitrary: bs)
  case 0
  then show ?case by simp
next
  case (Suc n)
  then obtain cs c where bs: "bs = cs @ [c]" and "length cs = n"
    by (metis length_Suc_conv_rev)
  have "unat c < 256" by (rule unat_byte_bound)
  then have "(be_nat cs * 256 + unat c) div 256 = be_nat cs" by simp
  moreover have "(of_nat (be_nat cs * 256 + unat c) :: byte) = c"
    by (simp only: word_unat_eq_iff unat_of_nat_byte) (simp add: \<open>unat c < 256\<close>)
  ultimately show ?case using bs Suc.IH [OF \<open>length cs = n\<close>] by simp
qed

definition u16_be :: "u16 \<Rightarrow> bytes" where "u16_be w = nat_be 2 (unat w)"
definition u32_be :: "u32 \<Rightarrow> bytes" where "u32_be w = nat_be 4 (unat w)"
definition u64_be :: "u64 \<Rightarrow> bytes" where "u64_be w = nat_be 8 (unat w)"
definition be_u16 :: "bytes \<Rightarrow> u16" where "be_u16 bs = of_nat (be_nat bs)"
definition be_u32 :: "bytes \<Rightarrow> u32" where "be_u32 bs = of_nat (be_nat bs)"
definition be_u64 :: "bytes \<Rightarrow> u64" where "be_u64 bs = of_nat (be_nat bs)"

lemma length_be_words [simp, asli_len]:
  "length (u16_be a) = 2" "length (u32_be b) = 4" "length (u64_be c) = 8"
  by (simp_all add: u16_be_def u32_be_def u64_be_def)

lemma be_words_inverse [simp, asli_wire]:
  "be_u16 (u16_be a) = a" "be_u32 (u32_be b) = b" "be_u64 (u64_be c) = c"
  using unat_bound [of a] unat_bound [of b] unat_bound [of c]
  by (simp_all add: be_u16_def be_u32_def be_u64_def u16_be_def u32_be_def u64_be_def
      be_nat_nat_be)

lemma words_be_inverse:
  "length bs = 2 \<Longrightarrow> u16_be (be_u16 bs) = bs"
  "length bs = 4 \<Longrightarrow> u32_be (be_u32 bs) = bs"
  "length bs = 8 \<Longrightarrow> u64_be (be_u64 bs) = bs"
  using be_nat_less [of bs]
  by (simp_all add: be_u16_def be_u32_def be_u64_def u16_be_def u32_be_def u64_be_def
      unat_of_nat nat_be_be_nat)

lemma be_words_inject [simp]:
  "u16_be a = u16_be a' \<longleftrightarrow> a = a'"
  "u32_be b = u32_be b' \<longleftrightarrow> b = b'"
  "u64_be c = u64_be c' \<longleftrightarrow> c = c'"
  by (metis be_words_inverse)+

text \<open>Rust's \<open>as u8\<close> on a value, and the value of a byte, as numbers.\<close>

definition byte_of :: "nat \<Rightarrow> byte" where
  "byte_of n = of_nat n"

lemma unat_byte_of: "unat (byte_of n) = n mod 256"
  by (simp only: byte_of_def unat_of_nat_byte)

lemma unat_byte_of_small [simp]: "n < 256 \<Longrightarrow> unat (byte_of n) = n"
  by (simp add: unat_byte_of)

lemma byte_of_unat [simp]: "byte_of (unat b) = b"
  by (simp add: byte_of_def)

lemma byte_of_eq_iff: "n < 256 \<Longrightarrow> byte_of n = b \<longleftrightarrow> n = unat b"
  by (metis byte_of_unat unat_byte_of_small)

text \<open>ASCII literals: \<open>b"..."\<close> of the source as bytes.\<close>

definition ascii :: "string \<Rightarrow> bytes" where
  "ascii s = map of_char s"

lemma length_ascii [simp, asli_len]: "length (ascii s) = length s"
  by (simp add: ascii_def)

section \<open>Lists\<close>

lemma append_eq_append_same_length:
  "length a = length a' \<Longrightarrow> a @ b = a' @ b' \<longleftrightarrow> a = a' \<and> b = b'"
  by simp

lemma take_append_exact [simp]: "length a = n \<Longrightarrow> take n (a @ b) = a"
  by simp

lemma drop_append_exact [simp]: "length a = n \<Longrightarrow> drop n (a @ b) = b"
  by simp

lemma nth_in_drop:
  assumes "n \<le> k" "k < length xs"
  shows "xs ! k \<in> set (drop n xs)"
proof -
  have "drop n xs ! (k - n) = xs ! k" using assms by simp
  moreover have "k - n < length (drop n xs)" using assms by simp
  ultimately show ?thesis by (metis nth_mem)
qed

lemma zeros_iff: "\<not> list_ex (\<lambda>b. b \<noteq> 0) (z :: bytes) \<longleftrightarrow> z = replicate (length z) 0"
  by (induction z) auto

section \<open>Hash maps\<close>

text \<open>
  A \<open>HashMap\<close> is an association list with distinct keys: \<open>insert\<close> is
  \<open>AList.update\<close>, \<open>remove\<close> is \<open>AList.delete\<close>, \<open>get\<close> is \<open>map_of\<close>, and \<open>len\<close> is
  the length. The iteration order, which Rust leaves unspecified, is the list's order; no
  property depends on it.
\<close>

type_synonym ('k, 'v) hmap = "('k \<times> 'v) list"

definition hkeys :: "('k, 'v) hmap \<Rightarrow> 'k list" where
  "hkeys m = map fst m"

definition hmap_ok :: "('k, 'v) hmap \<Rightarrow> bool" where
  "hmap_ok m \<longleftrightarrow> distinct (hkeys m)"

lemma hmap_ok_Nil [simp]: "hmap_ok []"
  by (simp add: hmap_ok_def hkeys_def)

lemma hmap_ok_update [simp]: "hmap_ok m \<Longrightarrow> hmap_ok (AList.update k v m)"
  by (simp add: hmap_ok_def hkeys_def AList.distinct_update)

lemma hmap_ok_delete [simp]: "hmap_ok m \<Longrightarrow> hmap_ok (AList.delete k m)"
  by (simp add: hmap_ok_def hkeys_def AList.distinct_delete)

lemma map_of_update [simp]: "map_of (AList.update k v m) = (map_of m)(k \<mapsto> v)"
  by (simp add: AList.update_conv')

lemma map_of_delete [simp]: "map_of (AList.delete k m) = (map_of m)(k := None)"
  by (simp add: AList.delete_conv')

lemma map_of_None_hkeys: "map_of m k = None \<longleftrightarrow> k \<notin> set (hkeys m)"
  by (simp add: map_of_eq_None_iff hkeys_def)

lemma set_hkeys_update [simp]: "set (hkeys (AList.update k v m)) = insert k (set (hkeys m))"
  by (simp add: hkeys_def AList.dom_update)

lemma set_hkeys_delete [simp]: "set (hkeys (AList.delete k m)) = set (hkeys m) - {k}"
  by (auto simp: hkeys_def AList.delete_keys)

lemma length_hmap: "hmap_ok m \<Longrightarrow> length m = card (set (hkeys m))"
  by (metis distinct_card hkeys_def hmap_ok_def length_map)

section \<open>Interfaces\<close>

text \<open>A state machine one of whose steps each keeps an invariant: every run keeps it.\<close>

locale machine =
  fixes step :: "'s \<Rightarrow> 'e \<Rightarrow> 's" and inv :: "'s \<Rightarrow> bool"
  assumes step_inv: "inv s \<Longrightarrow> inv (step s e)"
begin

lemma run_inv: "inv s \<Longrightarrow> inv (foldl step s es)"
  by (induction es arbitrary: s) (simp_all add: step_inv)

lemma run_prefix_inv: "inv s \<Longrightarrow> inv (foldl step s (take n es))"
  by (rule run_inv)

end

text \<open>An encoder that never fails on good values, and the decoder that inverts it.\<close>

locale codec =
  fixes ok :: "'a \<Rightarrow> bool" and enc :: "'a \<Rightarrow> 'w" and dec :: "'w \<Rightarrow> 'e + 'a"
  assumes dec_enc: "ok x \<Longrightarrow> dec (enc x) = Inr x"
begin

lemma enc_inject: "ok x \<Longrightarrow> ok y \<Longrightarrow> enc x = enc y \<longleftrightarrow> x = y"
  by (metis dec_enc sum.inject(2))

end

text \<open>A strict decoder accepts nothing but what the encoder writes.\<close>

locale canonical_codec = codec +
  assumes dec_canon: "dec w = Inr x \<Longrightarrow> ok x \<and> enc x = w"
begin

lemma dec_iff: "dec w = Inr x \<longleftrightarrow> ok x \<and> enc x = w"
  using dec_canon dec_enc by blast

lemma dec_inject: "dec w = Inr x \<Longrightarrow> dec w' = Inr x \<Longrightarrow> w = w'"
  using dec_canon by blast

end

text \<open>
  A bounded first in first out window: pushing drops the oldest entries so that at most
  \<open>cap\<close> remain. What it holds after any number of pushes is exactly the newest \<open>cap\<close>.
\<close>

locale fifo_window =
  fixes push :: "'a \<Rightarrow> 'a list \<Rightarrow> 'a list" and cap :: nat
  assumes cap_pos: "0 < cap"
    and push_drop: "length xs \<le> cap \<Longrightarrow> push x xs = drop (length xs + 1 - cap) (xs @ [x])"
begin

lemma push_length: "length xs \<le> cap \<Longrightarrow> length (push x xs) \<le> cap"
  by (simp add: push_drop)

lemma push_last: "length xs \<le> cap \<Longrightarrow> x \<in> set (push x xs)"
  using cap_pos by (simp add: push_drop)

lemma push_subset: "length xs \<le> cap \<Longrightarrow> set (push x xs) \<subseteq> insert x (set xs)"
  by (auto simp: push_drop dest: in_set_dropD)

lemma push_distinct:
  assumes "length xs \<le> cap" "distinct xs" "x \<notin> set xs"
  shows "distinct (push x xs)"
proof -
  have "distinct (xs @ [x])" using assms by simp
  then show ?thesis using assms(1) by (simp only: push_drop distinct_drop)
qed

lemma pushes_drop:
  "length xs \<le> cap \<Longrightarrow>
    foldl (\<lambda>w x. push x w) xs ys = drop (length xs + length ys - cap) (xs @ ys)"
proof (induction ys rule: rev_induct)
  case Nil
  then show ?case by simp
next
  case (snoc y ys)
  define n where "n = length xs + length ys"
  define w where "w = drop (n - cap) (xs @ ys)"
  have len: "length w = n - (n - cap)" by (simp add: w_def n_def)
  have "w @ [y] = drop (n - cap) ((xs @ ys) @ [y])"
    unfolding w_def by (subst drop_append) (simp add: n_def)
  moreover have "push y w = drop (length w + 1 - cap) (w @ [y])"
    by (rule push_drop) (simp add: len)
  ultimately have "push y w = drop (length w + 1 - cap + (n - cap)) (xs @ ys @ [y])"
    by (simp only: drop_drop append_assoc)
  also have "length w + 1 - cap + (n - cap) = length xs + length (ys @ [y]) - cap"
    using cap_pos by (simp add: len n_def)
  finally show ?case using snoc by (simp only: foldl_append foldl_Cons foldl_Nil w_def n_def)
qed

lemma remembers:
  assumes "length xs \<le> cap" and "x \<in> set (drop (length ys - cap) ys)"
  shows "x \<in> set (foldl (\<lambda>w x. push x w) xs ys)"
proof -
  have "x \<in> set (drop (length xs + length ys - cap) xs)
      \<union> set (drop (length xs + length ys - cap - length xs) ys)"
    using assms by simp
  then have "x \<in> set (drop (length xs + length ys - cap) (xs @ ys))"
    by (simp only: drop_append set_append)
  with assms(1) show ?thesis by (simp only: pushes_drop)
qed

end

end
