(* ===== verification/Replay.thy ===== *)
theory Replay
  imports Asli_Prelude "HOL-Library.Multiset"
begin

text \<open>
  The defence against an untrusted relay, \<open>crates/asli-core/src/replay.rs\<close>: the checks every
  decrypted clip passes before it is applied, what the guard remembers, and what it hands to
  storage and takes back. The invariant bounds both memories and keeps the order of devices in
  step with the map of their marks; the lemmas say which verdict each clip gets, that a refused
  clip changes nothing, that marks never go down, and that a restored guard decides as the saved
  one did.
\<close>

section \<open>State\<close>

definition DEFAULT_MSG_ID_CAPACITY :: nat where [asli_const]: "DEFAULT_MSG_ID_CAPACITY = 256"
definition DEFAULT_MAX_AGE_MS :: u64 where [asli_const]: "DEFAULT_MAX_AGE_MS = 86400000"
definition DEFAULT_FUTURE_SKEW_MS :: u64 where [asli_const]: "DEFAULT_FUTURE_SKEW_MS = 86400000"
definition MAX_SEQ_JUMP :: u64 where [asli_const]: "MAX_SEQ_JUMP = 1000000"
definition DEFAULT_DEVICE_CAPACITY :: nat where [asli_const]: "DEFAULT_DEVICE_CAPACITY = 64"

datatype verdict = Accept | OwnDevice | Duplicate | Rollback | TooOld | FromTheFuture | SeqJump

fun is_accept :: "verdict \<Rightarrow> bool" where
  "is_accept Accept = True"
| "is_accept _ = False"

fun reason :: "verdict \<Rightarrow> string" where
  "reason Accept = ''accept''"
| "reason OwnDevice = ''own_device''"
| "reason Duplicate = ''duplicate''"
| "reason Rollback = ''rollback''"
| "reason TooOld = ''too_old''"
| "reason FromTheFuture = ''future_skew''"
| "reason SeqJump = ''seq_jump''"

record incoming =
  in_msg_id :: bytes
  in_device_id :: bytes
  in_seq :: u64
  in_ts_ms :: u64
  in_retained :: bool

record memory =
  mem_highest_seq :: "(bytes \<times> u64) list"
  mem_recent :: "bytes list"

record replay_guard =
  own_device_id :: bytes
  seen :: "bytes list"
  seen_capacity :: nat
  highest_seq :: "(bytes, u64) hmap"
  device_order :: "bytes list"
  device_capacity :: nat
  max_age_ms :: u64
  retained_max_age_ms :: u64
  future_skew_ms :: u64

definition replay_new :: "bytes \<Rightarrow> u64 \<Rightarrow> replay_guard" where
  "replay_new own retained_max_age =
     \<lparr>own_device_id = own, seen = [], seen_capacity = DEFAULT_MSG_ID_CAPACITY,
      highest_seq = [], device_order = [], device_capacity = DEFAULT_DEVICE_CAPACITY,
      max_age_ms = DEFAULT_MAX_AGE_MS, retained_max_age_ms = retained_max_age,
      future_skew_ms = DEFAULT_FUTURE_SKEW_MS\<rparr>"

section \<open>Operations\<close>

definition push_seen :: "nat \<Rightarrow> bytes \<Rightarrow> bytes list \<Rightarrow> bytes list" where
  "push_seen cap m ms = (if length ms = cap then tl ms else ms) @ [m]"

text \<open>The loop that drops the oldest devices while there are too many.\<close>

fun evict_devices :: "nat \<Rightarrow> bytes list \<Rightarrow> (bytes, u64) hmap \<Rightarrow> bytes list \<times> (bytes, u64) hmap" where
  "evict_devices cap [] m = ([], m)"
| "evict_devices cap (d # ds) m =
     (if length (d # ds) > cap then evict_devices cap ds (AList.delete d m) else (d # ds, m))"

definition record_clip :: "replay_guard \<Rightarrow> incoming \<Rightarrow> replay_guard" where
  "record_clip g i =
     (let g1 = g\<lparr>seen := push_seen (seen_capacity g) (in_msg_id i) (seen g)\<rparr>;
          old = map_of (highest_seq g1) (in_device_id i);
          m = AList.update (in_device_id i) (in_seq i) (highest_seq g1)
      in if old = None then
           (let (ord, m') = evict_devices (device_capacity g1) (device_order g1 @ [in_device_id i]) m
            in g1\<lparr>highest_seq := m', device_order := ord\<rparr>)
         else g1\<lparr>highest_seq := m\<rparr>)"

definition check :: "replay_guard \<Rightarrow> incoming \<Rightarrow> u64 \<Rightarrow> verdict \<times> replay_guard" where
  "check g i now_ms =
     (if in_device_id i = own_device_id g then (OwnDevice, g)
      else if in_msg_id i \<in> set (seen g) then (Duplicate, g)
      else if in_ts_ms i > sat_add now_ms (future_skew_ms g) then (FromTheFuture, g)
      else
        let max_age = (if in_retained i then retained_max_age_ms g else max_age_ms g)
        in if sat_sub now_ms (in_ts_ms i) > max_age then (TooOld, g)
           else case map_of (highest_seq g) (in_device_id i) of
             Some highest \<Rightarrow>
               if in_seq i \<le> highest then (Rollback, g)
               else if in_seq i - highest > MAX_SEQ_JUMP then (SeqJump, g)
               else (Accept, record_clip g i)
           | None \<Rightarrow> (Accept, record_clip g i))"

definition known_devices :: "replay_guard \<Rightarrow> nat" where
  "known_devices g = length (highest_seq g)"

definition memory_of :: "replay_guard \<Rightarrow> memory" where
  "memory_of g = \<lparr>mem_highest_seq = sort (highest_seq g), mem_recent = seen g\<rparr>"

definition restore_device :: "replay_guard \<Rightarrow> bytes \<times> u64 \<Rightarrow> replay_guard" where
  "restore_device g e =
     (let (device, seq) = e
      in if length (highest_seq g) \<ge> device_capacity g \<and> map_of (highest_seq g) device = None then g
         else case map_of (highest_seq g) device of
           Some highest \<Rightarrow> g\<lparr>highest_seq := AList.update device (max highest seq) (highest_seq g)\<rparr>
         | None \<Rightarrow> g\<lparr>highest_seq := AList.update device seq (highest_seq g),
                     device_order := device_order g @ [device]\<rparr>)"

definition restore_msg :: "replay_guard \<Rightarrow> bytes \<Rightarrow> replay_guard" where
  "restore_msg g m =
     (if m \<in> set (seen g) then g
      else g\<lparr>seen := push_seen (seen_capacity g) m (seen g)\<rparr>)"

definition restore :: "replay_guard \<Rightarrow> memory \<Rightarrow> replay_guard" where
  "restore g mem = foldl restore_msg (foldl restore_device g (mem_highest_seq mem)) (mem_recent mem)"

definition replay_clear :: "replay_guard \<Rightarrow> replay_guard" where
  "replay_clear g = g\<lparr>seen := [], highest_seq := []\<rparr>"

section \<open>The invariant\<close>

definition replay_inv :: "replay_guard \<Rightarrow> bool" where
  "replay_inv g \<longleftrightarrow>
     0 < seen_capacity g \<and> length (seen g) \<le> seen_capacity g \<and> distinct (seen g)
     \<and> 0 < device_capacity g \<and> length (device_order g) \<le> device_capacity g
     \<and> distinct (device_order g) \<and> hmap_ok (highest_seq g)
     \<and> set (device_order g) = set (hkeys (highest_seq g))"

interpretation seen_window: fifo_window "push_seen 256" 256
  by unfold_locales (auto simp: push_seen_def drop_Suc)

lemma push_seen_drop:
  "0 < cap \<Longrightarrow> length ms \<le> cap \<Longrightarrow> push_seen cap m ms = drop (length ms + 1 - cap) (ms @ [m])"
  by (auto simp: push_seen_def drop_Suc)

lemma push_seen_window: "0 < cap \<Longrightarrow> fifo_window (push_seen cap) cap"
  by unfold_locales (auto simp: push_seen_drop)

lemma evict_devices_exact:
  "length ds \<le> cap \<Longrightarrow> evict_devices cap ds m = (ds, m)"
  by (cases ds) auto

lemma evict_devices_one:
  "length ds = cap \<Longrightarrow> evict_devices cap (d # ds) m = (ds, AList.delete d m)"
  by (simp add: evict_devices_exact)

text \<open>Recording under the invariant: at most one device is dropped, the one first seen.\<close>

lemma record_clip_known:
  "map_of (highest_seq g) (in_device_id i) \<noteq> None \<Longrightarrow>
    record_clip g i = g\<lparr>seen := push_seen (seen_capacity g) (in_msg_id i) (seen g),
      highest_seq := AList.update (in_device_id i) (in_seq i) (highest_seq g)\<rparr>"
  by (auto simp: record_clip_def Let_def)

lemma record_clip_room:
  "map_of (highest_seq g) (in_device_id i) = None \<Longrightarrow> length (device_order g) < device_capacity g \<Longrightarrow>
    record_clip g i = g\<lparr>seen := push_seen (seen_capacity g) (in_msg_id i) (seen g),
      highest_seq := AList.update (in_device_id i) (in_seq i) (highest_seq g),
      device_order := device_order g @ [in_device_id i]\<rparr>"
  by (simp add: record_clip_def Let_def evict_devices_exact)

lemma record_clip_full:
  "map_of (highest_seq g) (in_device_id i) = None \<Longrightarrow> device_order g = d # ds \<Longrightarrow>
    length (d # ds) = device_capacity g \<Longrightarrow>
    record_clip g i = g\<lparr>seen := push_seen (seen_capacity g) (in_msg_id i) (seen g),
      highest_seq := AList.delete d (AList.update (in_device_id i) (in_seq i) (highest_seq g)),
      device_order := ds @ [in_device_id i]\<rparr>"
  by (simp add: record_clip_def Let_def evict_devices_exact)

lemma record_clip_cases:
  assumes "replay_inv g"
  obtains (known) h where "map_of (highest_seq g) (in_device_id i) = Some h"
    | (room) "map_of (highest_seq g) (in_device_id i) = None"
        "length (device_order g) < device_capacity g"
    | (full) d ds where "map_of (highest_seq g) (in_device_id i) = None" "device_order g = d # ds"
        "length (d # ds) = device_capacity g"
proof -
  have "length (device_order g) < device_capacity g
      \<or> (\<exists>d ds. device_order g = d # ds \<and> length (d # ds) = device_capacity g)"
    using assms by (cases "device_order g") (auto simp: replay_inv_def)
  then show ?thesis using that by (cases "map_of (highest_seq g) (in_device_id i)") auto
qed

lemma push_seen_inv:
  assumes "0 < cap" "length ms \<le> cap" "distinct ms" "m \<notin> set ms"
  shows "length (push_seen cap m ms) \<le> cap" "distinct (push_seen cap m ms)"
  using fifo_window.push_length [OF push_seen_window] fifo_window.push_distinct [OF push_seen_window]
    assms by blast+

lemma record_clip_inv:
  assumes inv: "replay_inv g" and new: "in_msg_id i \<notin> set (seen g)"
  shows "replay_inv (record_clip g i)"
  using inv
proof (cases rule: record_clip_cases [where i = i])
  case (known h)
  then have "in_device_id i \<in> set (hkeys (highest_seq g))"
    by (metis map_of_None_hkeys option.distinct(1))
  then show ?thesis using inv new known push_seen_inv [of "seen_capacity g" "seen g" "in_msg_id i"]
    by (auto simp: record_clip_known replay_inv_def)
next
  case room
  then have "in_device_id i \<notin> set (device_order g)"
    using inv by (simp add: replay_inv_def map_of_None_hkeys)
  then show ?thesis using inv new room push_seen_inv [of "seen_capacity g" "seen g" "in_msg_id i"]
    by (auto simp: record_clip_room replay_inv_def)
next
  case (full d ds)
  then have "in_device_id i \<notin> set (device_order g)"
    using inv by (simp add: replay_inv_def map_of_None_hkeys)
  then show ?thesis using inv new full push_seen_inv [of "seen_capacity g" "seen g" "in_msg_id i"]
    by (auto simp: record_clip_full [OF full] replay_inv_def)
qed

lemma check_accept:
  "fst (check g i now) = Accept \<Longrightarrow>
    snd (check g i now) = record_clip g i \<and> in_msg_id i \<notin> set (seen g)
    \<and> in_device_id i \<noteq> own_device_id g"
  by (auto simp: check_def Let_def split: if_splits option.splits)

lemma check_refuse: "fst (check g i now) \<noteq> Accept \<Longrightarrow> snd (check g i now) = g"
  by (auto simp: check_def Let_def split: if_splits option.splits)

lemma check_inv: "replay_inv g \<Longrightarrow> replay_inv (snd (check g i now))"
  by (cases "fst (check g i now) = Accept") (auto simp: check_refuse check_accept record_clip_inv)

lemmas check_cases = check_def Let_def

section \<open>Restoring what was saved\<close>

lemma replay_inv_length: "replay_inv g \<Longrightarrow> length (highest_seq g) = length (device_order g)"
  by (metis distinct_card length_hmap replay_inv_def)

lemma restore_device_inv:
  assumes inv: "replay_inv g"
  shows "replay_inv (restore_device g e)"
proof (cases e)
  case (Pair d q)
  show ?thesis
  proof (cases "map_of (highest_seq g) d")
    case None
    then have "d \<notin> set (hkeys (highest_seq g))" by (simp add: map_of_None_hkeys)
    then show ?thesis using inv None Pair replay_inv_length [OF inv]
      by (simp add: restore_device_def replay_inv_def)
  next
    case (Some h)
    then have "d \<in> set (hkeys (highest_seq g))" by (metis map_of_None_hkeys option.distinct(1))
    then show ?thesis using inv Some Pair
      by (auto simp: restore_device_def replay_inv_def)
  qed
qed

lemma restore_msg_inv:
  "replay_inv g \<Longrightarrow> replay_inv (restore_msg g m)"
  using push_seen_inv [of "seen_capacity g" "seen g" m]
  by (auto simp: restore_msg_def replay_inv_def)

lemma restore_inv: "replay_inv g \<Longrightarrow> replay_inv (restore g mem)"
proof -
  assume inv: "replay_inv g"
  have "replay_inv (foldl restore_device g ds)" for ds
    using inv by (induction ds rule: rev_induct) (auto simp: restore_device_inv)
  moreover have "replay_inv h \<Longrightarrow> replay_inv (foldl restore_msg h ms)" for h ms
    by (induction ms arbitrary: h) (auto simp: restore_msg_inv)
  ultimately show ?thesis by (simp add: restore_def)
qed

section \<open>Runs\<close>

text \<open>What a running guard is asked: to check a clip at a time, or to take back a saved memory.\<close>

datatype replay_op = Op_check incoming u64 | Op_restore memory

fun replay_step :: "replay_guard \<Rightarrow> replay_op \<Rightarrow> replay_guard" where
  "replay_step g (Op_check i now) = snd (check g i now)"
| "replay_step g (Op_restore mem) = restore g mem"

lemma replay_step_inv: "replay_inv g \<Longrightarrow> replay_inv (replay_step g e)"
  by (cases e) (simp_all add: check_inv restore_inv)

interpretation replay: machine replay_step replay_inv
  by unfold_locales (rule replay_step_inv)

lemma replay_new_inv: "replay_inv (replay_new own ret)"
  by (simp add: replay_inv_def replay_new_def asli_const hkeys_def)

text \<open>The windows and the identity are fixed when the guard is made.\<close>

definition replay_config :: "replay_guard \<Rightarrow> bytes \<times> nat \<times> nat \<times> u64 \<times> u64 \<times> u64" where
  "replay_config g = (own_device_id g, seen_capacity g, device_capacity g, max_age_ms g,
     retained_max_age_ms g, future_skew_ms g)"

lemma record_clip_config: "replay_config (record_clip g i) = replay_config g"
  by (auto simp: record_clip_def replay_config_def Let_def split: prod.splits)

lemma check_config: "replay_config (snd (check g i now)) = replay_config g"
  by (cases "fst (check g i now) = Accept") (auto simp: check_refuse check_accept record_clip_config)

lemma restore_device_config: "replay_config (restore_device g e) = replay_config g"
  by (auto simp: restore_device_def replay_config_def Let_def split: prod.splits option.splits)

lemma restore_msg_config: "replay_config (restore_msg g m) = replay_config g"
  by (simp add: restore_msg_def replay_config_def)

lemma restore_config: "replay_config (restore g mem) = replay_config g"
proof -
  have "replay_config (foldl restore_device h ds) = replay_config h" for h ds
    by (induction ds arbitrary: h) (simp_all add: restore_device_config)
  moreover have "replay_config (foldl restore_msg h ms) = replay_config h" for h ms
    by (induction ms arbitrary: h) (simp_all add: restore_msg_config)
  ultimately show ?thesis by (simp add: restore_def)
qed

lemma replay_run_config: "replay_config (foldl replay_step g es) = replay_config g"
proof (induction es arbitrary: g)
  case (Cons e es)
  then show ?case by (cases e) (simp_all add: check_config restore_config)
qed simp

text \<open>The clips a guard accepts out of a sequence of deliveries, and the guard it ends as.\<close>

fun deliver :: "replay_guard \<Rightarrow> (incoming \<times> u64) list \<Rightarrow> replay_guard" where
  "deliver g [] = g"
| "deliver g ((i, now) # ds) = deliver (snd (check g i now)) ds"

fun accepted :: "replay_guard \<Rightarrow> (incoming \<times> u64) list \<Rightarrow> incoming list" where
  "accepted g [] = []"
| "accepted g ((i, now) # ds) =
     (if is_accept (fst (check g i now)) then [i] else []) @ accepted (snd (check g i now)) ds"

fun verdicts :: "replay_guard \<Rightarrow> (incoming \<times> u64) list \<Rightarrow> verdict list" where
  "verdicts g [] = []"
| "verdicts g ((i, now) # ds) = fst (check g i now) # verdicts (snd (check g i now)) ds"

lemma is_accept_iff [simp]: "is_accept v \<longleftrightarrow> v = Accept"
  by (cases v) auto

lemma deliver_inv: "replay_inv g \<Longrightarrow> replay_inv (deliver g ds)"
  by (induction g ds rule: deliver.induct) (simp_all add: check_inv)

lemma deliver_append: "deliver g (a @ b) = deliver (deliver g a) b"
  by (induction g a rule: deliver.induct) simp_all

lemma accepted_append: "accepted g (a @ b) = accepted g a @ accepted (deliver g a) b"
  by (induction g a rule: accepted.induct) simp_all

lemma deliver_config: "replay_config (deliver g ds) = replay_config g"
  by (induction g ds rule: deliver.induct) (simp_all add: check_config)

lemma seen_capacity_deliver [simp]: "seen_capacity (deliver g ds) = seen_capacity g"
  using deliver_config [of g ds] by (simp add: replay_config_def)

lemma seen_record_clip: "seen (record_clip g i) = push_seen (seen_capacity g) (in_msg_id i) (seen g)"
  by (auto simp: record_clip_def Let_def split: prod.splits)

lemma seen_deliver_pushes:
  "seen (deliver g ds) =
    foldl (\<lambda>w m. push_seen (seen_capacity g) m w) (seen g) (map in_msg_id (accepted g ds))"
proof (induction ds rule: rev_induct)
  case (snoc e ds)
  obtain i now where e: "e = (i, now)" by (cases e)
  show ?case
  proof (cases "fst (check (deliver g ds) i now) = Accept")
    case True
    then have "snd (check (deliver g ds) i now) = record_clip (deliver g ds) i"
      using check_accept by blast
    with True snoc show ?thesis
      by (simp add: e deliver_append accepted_append seen_record_clip)
  next
    case False
    with snoc show ?thesis by (simp add: e deliver_append accepted_append check_refuse)
  qed
qed simp

lemma seen_deliver:
  assumes "replay_inv g"
  shows "seen (deliver g ds) =
    drop (length (seen g) + length (accepted g ds) - seen_capacity g)
      (seen g @ map in_msg_id (accepted g ds))"
proof -
  have "fifo_window (push_seen (seen_capacity g)) (seen_capacity g)"
    using assms by (simp add: push_seen_window replay_inv_def)
  then show ?thesis using assms
    by (simp add: seen_deliver_pushes fifo_window.pushes_drop replay_inv_def)
qed

text \<open>Within the room for devices nothing is evicted, and a step moves one mark up.\<close>

lemma accept_marks:
  assumes inv: "replay_inv g" and acc: "fst (check g i now) = Accept"
    and room: "card (insert (in_device_id i) (set (device_order g))) \<le> device_capacity g"
  shows "map_of (highest_seq (snd (check g i now)))
           = (map_of (highest_seq g))(in_device_id i \<mapsto> in_seq i)"
    and "set (device_order (snd (check g i now))) = insert (in_device_id i) (set (device_order g))"
proof -
  have snd: "snd (check g i now) = record_clip g i" using check_accept [OF acc] by blast
  have dist: "distinct (device_order g)" and keys: "set (device_order g) = set (hkeys (highest_seq g))"
    using inv by (simp_all add: replay_inv_def)
  have "map_of (highest_seq (record_clip g i)) = (map_of (highest_seq g))(in_device_id i \<mapsto> in_seq i)
      \<and> set (device_order (record_clip g i)) = insert (in_device_id i) (set (device_order g))"
  proof (cases "map_of (highest_seq g) (in_device_id i)")
    case None
    then have "in_device_id i \<notin> set (device_order g)" by (simp add: keys map_of_None_hkeys)
    with room dist have "length (device_order g) < device_capacity g"
      by (simp add: distinct_card)
    with None show ?thesis by (simp add: record_clip_room)
  next
    case (Some h)
    then have "in_device_id i \<in> set (device_order g)"
      by (metis keys map_of_None_hkeys option.distinct(1))
    with Some show ?thesis by (auto simp: record_clip_known)
  qed
  with snd show "map_of (highest_seq (snd (check g i now)))
           = (map_of (highest_seq g))(in_device_id i \<mapsto> in_seq i)"
    and "set (device_order (snd (check g i now))) = insert (in_device_id i) (set (device_order g))"
    by simp_all
qed

definition run_devices :: "replay_guard \<Rightarrow> (incoming \<times> u64) list \<Rightarrow> bytes set" where
  "run_devices g ds = set (device_order g) \<union> (\<lambda>d. in_device_id (fst d)) ` set ds"

lemma run_devices_step:
  assumes "replay_inv g" and "card (run_devices g ((i, now) # ds)) \<le> device_capacity g"
  shows "card (run_devices (snd (check g i now)) ds) \<le> device_capacity (snd (check g i now))"
    and "card (insert (in_device_id i) (set (device_order g))) \<le> device_capacity g"
proof -
  have cap: "device_capacity (snd (check g i now)) = device_capacity g"
    using check_config [of g i now] by (simp add: replay_config_def)
  have "insert (in_device_id i) (set (device_order g)) \<subseteq> run_devices g ((i, now) # ds)"
    by (auto simp: run_devices_def)
  then show room: "card (insert (in_device_id i) (set (device_order g))) \<le> device_capacity g"
    by (rule order_trans [OF card_mono, rotated]) (use assms(2) in \<open>auto simp: run_devices_def\<close>)
  have "run_devices (snd (check g i now)) ds \<subseteq> run_devices g ((i, now) # ds)"
  proof (cases "fst (check g i now) = Accept")
    case True
    then show ?thesis using accept_marks(2) [OF assms(1) True room] by (auto simp: run_devices_def)
  next
    case False
    then show ?thesis by (auto simp: run_devices_def check_refuse)
  qed
  then show "card (run_devices (snd (check g i now)) ds) \<le> device_capacity (snd (check g i now))"
    unfolding cap
    by (rule order_trans [OF card_mono, rotated]) (use assms(2) in \<open>auto simp: run_devices_def\<close>)
qed

text \<open>A device's accepted numbers: each above the mark before it, and not too far above.\<close>

fun seq_chain :: "u64 option \<Rightarrow> u64 list \<Rightarrow> bool" where
  "seq_chain h [] \<longleftrightarrow> True"
| "seq_chain h (x # xs) \<longleftrightarrow>
     (case h of Some m \<Rightarrow> m < x \<and> x - m \<le> MAX_SEQ_JUMP | None \<Rightarrow> True) \<and> seq_chain (Some x) xs"

lemma seq_chain_above: "seq_chain (Some h) xs \<Longrightarrow> x \<in> set xs \<Longrightarrow> h < x"
  by (induction xs arbitrary: h) (auto intro: less_trans)

lemma seq_chain_sorted: "seq_chain h xs \<Longrightarrow> sorted_wrt (<) xs"
  by (induction xs arbitrary: h) (auto dest: seq_chain_above)

lemma accepted_chain:
  "replay_inv g \<Longrightarrow> card (run_devices g ds) \<le> device_capacity g \<Longrightarrow>
    seq_chain (map_of (highest_seq g) d)
      (map in_seq (filter (\<lambda>i. in_device_id i = d) (accepted g ds)))"
proof (induction g ds rule: accepted.induct)
  case (1 g)
  then show ?case by simp
next
  case (2 g i now ds)
  note room = run_devices_step [OF 2(2,3)]
  show ?case
  proof (cases "fst (check g i now) = Accept")
    case True
    have IH: "seq_chain (map_of (highest_seq (snd (check g i now))) d)
      (map in_seq (filter (\<lambda>i. in_device_id i = d) (accepted (snd (check g i now)) ds)))"
      by (rule 2(1)) (use 2(2) check_inv room in auto)
    have "in_device_id i = d \<Longrightarrow> map_of (highest_seq g) d = Some h \<Longrightarrow>
        h < in_seq i \<and> in_seq i - h \<le> MAX_SEQ_JUMP" for h
      using True by (auto simp: check_def Let_def not_le not_less split: if_splits)
    with True IH show ?thesis
      by (auto simp: accept_marks(1) [OF 2(2) True room(2)] split: option.splits)
  next
    case False
    then show ?thesis using 2(1) [OF check_inv [OF 2(2)] room(1)] by (simp add: check_refuse)
  qed
qed

section \<open>Two guards that agree\<close>

definition same_view :: "replay_guard \<Rightarrow> replay_guard \<Rightarrow> bool" where
  "same_view g h \<longleftrightarrow> replay_inv g \<and> replay_inv h \<and> replay_config g = replay_config h
     \<and> seen g = seen h \<and> map_of (highest_seq g) = map_of (highest_seq h)"

lemma same_view_verdict: "same_view g h \<Longrightarrow> fst (check g i now) = fst (check h i now)"
  by (auto simp: same_view_def check_def Let_def replay_config_def split: option.splits)

lemma same_view_order: "same_view g h \<Longrightarrow> set (device_order g) = set (device_order h)"
  by (metis dom_map_of_conv_image_fst hkeys_def list.set_map replay_inv_def same_view_def)

lemma same_view_step:
  assumes view: "same_view g h"
    and room: "card (insert (in_device_id i) (set (device_order g))) \<le> device_capacity g"
  shows "same_view (snd (check g i now)) (snd (check h i now))"
proof (cases "fst (check g i now) = Accept")
  case True
  then have True': "fst (check h i now) = Accept" using same_view_verdict [OF view] by simp
  have inv: "replay_inv g" "replay_inv h" "seen g = seen h" "seen_capacity g = seen_capacity h"
    "device_capacity g = device_capacity h"
    using view by (simp_all add: same_view_def replay_config_def)
  have room': "card (insert (in_device_id i) (set (device_order h))) \<le> device_capacity h"
    using room same_view_order [OF view] inv by simp
  show ?thesis
    using view check_accept [OF True] check_accept [OF True'] inv
      accept_marks(1) [OF inv(1) True room] accept_marks(1) [OF inv(2) True' room']
      check_inv [of g i now] check_inv [of h i now] check_config [of g i now] check_config [of h i now]
    by (simp add: same_view_def seen_record_clip)
next
  case False
  then show ?thesis using view same_view_verdict [OF view] by (simp add: check_refuse)
qed

lemma same_view_verdicts:
  "same_view g h \<Longrightarrow> card (run_devices g ds) \<le> device_capacity g \<Longrightarrow>
    verdicts g ds = verdicts h ds"
proof (induction g ds arbitrary: h rule: verdicts.induct)
  case (2 g i now ds)
  have inv: "replay_inv g" using 2(2) by (simp add: same_view_def)
  note room = run_devices_step [OF inv 2(3)]
  show ?case
    using 2(1) [OF same_view_step [OF 2(2) room(2)] room(1)] same_view_verdict [OF 2(2)] by simp
qed simp

lemma restore_devices_fresh:
  "replay_inv h \<Longrightarrow> distinct (map fst es) \<Longrightarrow> set (map fst es) \<inter> set (hkeys (highest_seq h)) = {} \<Longrightarrow>
    length (highest_seq h) + length es \<le> device_capacity h \<Longrightarrow>
    map_of (highest_seq (foldl restore_device h es)) = map_of (highest_seq h) ++ map_of es"
proof (induction es arbitrary: h)
  case (Cons e es)
  obtain d q where e: "e = (d, q)" by (cases e)
  have none: "map_of (highest_seq h) d = None"
    using Cons.prems(3) by (simp add: e map_of_None_hkeys)
  define h' where "h' = h\<lparr>highest_seq := AList.update d q (highest_seq h),
      device_order := device_order h @ [d]\<rparr>"
  have step: "restore_device h e = h'"
    using none Cons.prems(4) by (simp add: restore_device_def e h'_def)
  then have inv': "replay_inv h'" using restore_device_inv [OF Cons.prems(1)] by metis
  have "length (highest_seq h') = length (highest_seq h) + 1"
    using replay_inv_length [OF inv'] replay_inv_length [OF Cons.prems(1)] by (simp add: h'_def)
  then have "map_of (highest_seq (foldl restore_device h' es)) = map_of (highest_seq h') ++ map_of es"
    using Cons.prems by (intro Cons.IH [OF inv']) (auto simp: h'_def e)
  moreover have "d \<notin> dom (map_of es)"
    using Cons.prems(2) by (auto simp: e dom_map_of_conv_image_fst)
  ultimately show ?case using step
    by (auto simp: h'_def e map_add_def fun_eq_iff split: option.splits)
qed simp

lemma restore_msgs_fresh:
  "length (seen h) + length ms \<le> seen_capacity h \<Longrightarrow> distinct ms \<Longrightarrow> set ms \<inter> set (seen h) = {} \<Longrightarrow>
    foldl restore_msg h ms = h\<lparr>seen := seen h @ ms\<rparr>"
proof (induction ms arbitrary: h)
  case (Cons m ms)
  have "restore_msg h m = h\<lparr>seen := seen h @ [m]\<rparr>"
    using Cons.prems by (auto simp: restore_msg_def push_seen_def)
  then show ?case using Cons.IH [of "h\<lparr>seen := seen h @ [m]\<rparr>"] Cons.prems by auto
qed simp

lemma map_of_sort:
  assumes "distinct (map fst xs)"
  shows "map_of (sort xs) = map_of (xs :: ('a::linorder \<times> 'b::linorder) list)"
proof -
  have "mset (map fst (sort xs)) = mset (map fst xs)" by simp
  then have dist: "distinct (map fst (sort xs))"
    using assms mset_eq_imp_distinct_iff by blast
  show ?thesis
  proof (rule ext)
    fix k
    show "map_of (sort xs) k = map_of xs k"
      by (metis assms dist map_of_eq_Some_iff not_None_eq set_sort)
  qed
qed

lemma restored_view:
  assumes inv: "replay_inv g" and cfg: "replay_config g = replay_config (replay_new own ret)"
  shows "same_view (restore (replay_new own ret) (memory_of g)) g"
proof -
  define n where "n = replay_new own ret"
  have ninv: "replay_inv n" and nempty: "highest_seq n = []" "seen n = []"
    by (simp_all add: n_def replay_new_inv) (simp_all add: replay_new_def)
  have cap: "device_capacity n = device_capacity g" "seen_capacity n = seen_capacity g"
    using cfg by (simp_all add: replay_config_def n_def)
  have dist: "distinct (map fst (highest_seq g))"
    using inv by (simp add: replay_inv_def hmap_ok_def hkeys_def)
  have "mset (map fst (sort (highest_seq g))) = mset (map fst (highest_seq g))" by simp
  then have sdist: "distinct (map fst (sort (highest_seq g)))"
    using dist mset_eq_imp_distinct_iff by blast
  define h where "h = foldl restore_device n (sort (highest_seq g))"
  have marks: "map_of (highest_seq h) = map_of (highest_seq g)"
    unfolding h_def using sdist map_of_sort [OF dist] replay_inv_length [OF inv] inv
    by (subst restore_devices_fresh [OF ninv]) (auto simp: nempty cap hkeys_def replay_inv_def)
  have seen_h: "seen (foldl restore_device n es) = seen n" for es
    by (induction es rule: rev_induct)
       (auto simp: restore_device_def split: prod.splits option.splits)
  have cfg_h: "replay_config (foldl restore_device n es) = replay_config n" for es
    by (induction es rule: rev_induct) (auto simp: restore_device_config)
  have "foldl restore_msg h (seen g) = h\<lparr>seen := seen h @ seen g\<rparr>"
    by (rule restore_msgs_fresh)
       (use inv seen_h cfg_h [of "sort (highest_seq g)"] cap in
         \<open>auto simp: h_def nempty replay_inv_def replay_config_def\<close>)
  then have "restore n (memory_of g) = h\<lparr>seen := seen g\<rparr>"
    using seen_h by (simp add: restore_def memory_of_def h_def nempty)
  moreover have "replay_config (restore n (memory_of g)) = replay_config g"
    by (simp add: restore_config n_def cfg)
  moreover have "replay_inv (restore n (memory_of g))"
    by (rule restore_inv [OF ninv])
  ultimately show ?thesis using inv marks by (simp add: same_view_def n_def)
qed

section \<open>Forgetting\<close>

text \<open>
  \<open>ReplayGuard::clear\<close> empties the marks and the message ids but leaves
  \<open>device_order\<close> as it was. When the order was full, the next device recorded is pushed on it
  a second time and the overflow drops the oldest entry from both, so a device that heads the old
  order has its mark dropped in the step that recorded it.
\<close>

lemma clear_then_first_device:
  assumes inv: "replay_inv g" and order: "device_order g = d # ds"
    and full: "length (device_order g) = device_capacity g" and dev: "in_device_id i = d"
  shows "highest_seq (record_clip (replay_clear g) i) = []"
    and "seen (record_clip (replay_clear g) i) = [in_msg_id i]"
    and "length (device_order (record_clip (replay_clear g) i)) = device_capacity g"
  using assms
  by (auto simp: replay_clear_def record_clip_def Let_def evict_devices_exact push_seen_def
      replay_inv_def)

section \<open>Properties\<close>

lemma replay_inv_bounds:
  assumes "replay_inv g" "replay_config g = replay_config (replay_new own ret)"
  shows "length (seen g) \<le> 256" "known_devices g \<le> 64" "distinct (seen g)"
  using assms replay_inv_length [of g]
  by (auto simp: replay_inv_def replay_config_def replay_new_def known_devices_def asli_const)

lemma check_accept_nat:
  "fst (check g i now) = Accept \<longleftrightarrow>
     in_device_id i \<noteq> own_device_id g \<and> in_msg_id i \<notin> set (seen g)
     \<and> unat (in_ts_ms i) \<le> unat now + unat (future_skew_ms g)
     \<and> unat now \<le> unat (in_ts_ms i)
          + unat (if in_retained i then retained_max_age_ms g else max_age_ms g)
     \<and> (case map_of (highest_seq g) (in_device_id i) of None \<Rightarrow> True
        | Some h \<Rightarrow> unat h < unat (in_seq i) \<and> unat (in_seq i) \<le> unat h + 1000000)"
proof -
  have skew: "in_ts_ms i \<le> sat_add now (future_skew_ms g) \<longleftrightarrow>
      unat (in_ts_ms i) \<le> unat now + unat (future_skew_ms g)"
    using unat_bound [of "in_ts_ms i"] by (auto simp: word_le_nat_alt unat_sat_add)
  have age: "sat_sub now (in_ts_ms i) \<le> a \<longleftrightarrow> unat now \<le> unat (in_ts_ms i) + unat a" for a
    by (auto simp: sat_sub_le_iff)
  have jump: "h < in_seq i \<and> in_seq i - h \<le> MAX_SEQ_JUMP \<longleftrightarrow>
      unat h < unat (in_seq i) \<and> unat (in_seq i) \<le> unat h + 1000000" for h
    by (auto simp: word_less_nat_alt word_le_nat_alt unat_sub MAX_SEQ_JUMP_def)
  show ?thesis
    unfolding skew [symmetric] age [symmetric]
    by (auto simp: check_def Let_def not_le not_less jump [symmetric] split: option.splits)
qed

text \<open>C34: A clip is accepted exactly when it comes from another device, under a message id the
  guard does not remember, no further ahead of the clock than the skew allows and no older than the
  live or the retained window (compared without wrap-around), and numbered above the device's mark
  by at most a million. A refused clip leaves the guard as it was, so it cannot poison the state a
  later clip depends on.\<close>

theorem replay_accept_iff:
  "(fst (check g i now) = Accept \<longleftrightarrow>
     in_device_id i \<noteq> own_device_id g \<and> in_msg_id i \<notin> set (seen g)
     \<and> unat (in_ts_ms i) \<le> unat now + unat (future_skew_ms g)
     \<and> unat now \<le> unat (in_ts_ms i)
          + unat (if in_retained i then retained_max_age_ms g else max_age_ms g)
     \<and> (case map_of (highest_seq g) (in_device_id i) of None \<Rightarrow> True
        | Some h \<Rightarrow> unat h < unat (in_seq i) \<and> unat (in_seq i) \<le> unat h + 1000000))
   \<and> snd (check g i now) = (if fst (check g i now) = Accept then record_clip g i else g)"
proof (intro conjI)
  show "snd (check g i now) = (if fst (check g i now) = Accept then record_clip g i else g)"
    using check_accept check_refuse by (cases "fst (check g i now) = Accept") auto
qed (rule check_accept_nat)

text \<open>Whatever a guard is given, checks at any time and saved memories of any content, what it
  remembers stays bounded: at most 256 message ids, all different, and at most 64 devices.\<close>

theorem replay_memory_bounded:
  "length (seen (foldl replay_step (replay_new own ret) ops)) \<le> 256
   \<and> distinct (seen (foldl replay_step (replay_new own ret) ops))
   \<and> known_devices (foldl replay_step (replay_new own ret) ops) \<le> 64"
  using replay_inv_bounds [OF replay.run_inv [OF replay_new_inv] replay_run_config] by blast

text \<open>Over any sequence of deliveries no message is accepted twice within the window: two
  accepted clips no further apart than the guard's capacity, counted in accepted clips, carry
  different message ids.\<close>

theorem replay_window_distinct:
  assumes "replay_inv g" "a < b" "b < length (accepted g ds)" "b - a \<le> seen_capacity g"
  shows "in_msg_id (accepted g ds ! a) \<noteq> in_msg_id (accepted g ds ! b)"
  using assms(3)
proof (induction ds rule: rev_induct)
  case Nil
  then show ?case by simp
next
  case (snoc e ds)
  obtain i now where e: "e = (i, now)" by (cases e)
  define acc where "acc = accepted g ds"
  show ?case
  proof (cases "fst (check (deliver g ds) i now) = Accept")
    case False
    then show ?thesis using snoc by (simp add: e accepted_append acc_def [symmetric])
  next
    case True
    then have all: "accepted g (ds @ [e]) = acc @ [i]" by (simp add: e accepted_append acc_def)
    show ?thesis
    proof (cases "b < length acc")
      case True
      then show ?thesis using snoc.IH assms(2) by (simp add: all nth_append acc_def [symmetric])
    next
      case False
      then have b: "b = length acc" using snoc.prems by (simp add: all)
      have "in_msg_id i \<notin> set (seen (deliver g ds))" using check_accept [OF True] by blast
      moreover have "in_msg_id (acc ! a) \<in> set (seen (deliver g ds))"
      proof -
        let ?l = "seen g @ map in_msg_id acc" and ?n = "length (seen g) + length acc - seen_capacity g"
        have "?l ! (length (seen g) + a) \<in> set (drop ?n ?l)"
          by (rule nth_in_drop) (use assms(2,4) b in auto)
        moreover have "?l ! (length (seen g) + a) = in_msg_id (acc ! a)"
          using assms(2) b by (simp add: nth_append)
        ultimately show ?thesis by (simp only: seen_deliver [OF assms(1)] acc_def)
      qed
      ultimately show ?thesis using assms(2) b by (auto simp: all nth_append)
    qed
  qed
qed

text \<open>As long as the devices known and delivered from are at most as many as the guard holds
  marks for, the clips accepted from one device have strictly increasing numbers, all above its
  mark, and no step raises the mark by more than the jump bound, so no single clip can park it out
  of reach. A relay that reorders or replays a device's clips never gets one past the mark.\<close>

theorem replay_seq_increases:
  assumes "replay_inv g" "card (run_devices g ds) \<le> device_capacity g"
  shows "seq_chain (map_of (highest_seq g) d)
           (map in_seq (filter (\<lambda>i. in_device_id i = d) (accepted g ds)))
         \<and> sorted_wrt (<) (map in_seq (filter (\<lambda>i. in_device_id i = d) (accepted g ds)))"
  using accepted_chain [OF assms, of d] seq_chain_sorted by blast

text \<open>A restart forgets nothing: a new guard that takes back what a guard with the default
  windows saved gives every later sequence of deliveries the verdicts the old guard would have
  given, while the devices fit.\<close>

theorem replay_restart:
  assumes "replay_inv g" "replay_config g = replay_config (replay_new own ret)"
    and "card (run_devices g ds) \<le> device_capacity g"
  shows "verdicts (restore (replay_new own ret) (memory_of g)) ds = verdicts g ds"
proof -
  have view: "same_view (restore (replay_new own ret) (memory_of g)) g"
    by (rule restored_view [OF assms(1,2)])
  then have "same_view g (restore (replay_new own ret) (memory_of g))"
    by (auto simp: same_view_def)
  then show ?thesis using same_view_verdicts assms(3) by metis
qed

text \<open>After \<open>clear\<close> a guard whose device order was full does not keep the mark of the device
  that headed the order: of two fresh clips from it with different message ids the second is
  accepted whatever its number, so a rollback passes.\<close>

theorem replay_clear_loses_mark:
  assumes "replay_inv g" "device_order g = d # ds" "length (device_order g) = device_capacity g"
    and "in_device_id i = d" "in_device_id j = d" "d \<noteq> own_device_id g" "in_msg_id i \<noteq> in_msg_id j"
    and "fst (check (replay_clear g) i now) = Accept" "fst (check (replay_clear g) j now) = Accept"
  shows "fst (check (snd (check (replay_clear g) i now)) j now) = Accept"
proof -
  have snd: "snd (check (replay_clear g) i now) = record_clip (replay_clear g) i"
    using check_accept [OF assms(8)] by blast
  let ?g = "record_clip (replay_clear g) i"
  have "own_device_id ?g = own_device_id (replay_clear g)" "max_age_ms ?g = max_age_ms (replay_clear g)"
    "retained_max_age_ms ?g = retained_max_age_ms (replay_clear g)"
    "future_skew_ms ?g = future_skew_ms (replay_clear g)"
    using record_clip_config [of "replay_clear g" i] by (simp_all add: replay_config_def)
  moreover have "highest_seq ?g = []" "seen ?g = [in_msg_id i]"
    using clear_then_first_device(1,2) [OF assms(1-4)] .
  ultimately show ?thesis
    using assms(7,9) by (auto simp: snd check_accept_nat)
qed

section \<open>Concrete inputs\<close>

definition ex_dev :: "nat \<Rightarrow> bytes" where
  "ex_dev n = replicate 15 0 @ [byte_of n]"

definition ex_clip :: "nat \<Rightarrow> nat \<Rightarrow> u64 \<Rightarrow> incoming" where
  "ex_clip m d q = \<lparr>in_msg_id = ex_dev m, in_device_id = ex_dev d, in_seq = q,
     in_ts_ms = 1767225600000, in_retained = False\<rparr>"

lemma ex_clip_fields [simp]:
  "in_msg_id (ex_clip m d q) = ex_dev m" "in_device_id (ex_clip m d q) = ex_dev d"
  "in_seq (ex_clip m d q) = q" "in_ts_ms (ex_clip m d q) = 1767225600000"
  "\<not> in_retained (ex_clip m d q)"
  by (simp_all add: ex_clip_def)

definition ex_guard :: replay_guard where
  "ex_guard = replay_new (ex_dev 0) 86400000"

definition ex_full :: replay_guard where
  "ex_full = ex_guard\<lparr>highest_seq := map (\<lambda>n. (ex_dev n, 5)) [2..<66],
     device_order := map ex_dev [2..<66]\<rparr>"

definition ex_run :: "(incoming \<times> u64) list" where
  "ex_run = [(ex_clip 2 2 7, 1767225600000), (ex_clip 2 2 8, 1767225600000),
     (ex_clip 3 2 6, 1767225600000), (ex_clip 4 2 9, 1767225600000)]"

lemma ex_dev_inject: "m < 256 \<Longrightarrow> n < 256 \<Longrightarrow> ex_dev m = ex_dev n \<longleftrightarrow> m = n"
  by (auto simp: ex_dev_def byte_of_eq_iff)

lemma ex_guard_inv: "replay_inv ex_guard"
  by (simp add: ex_guard_def replay_new_inv)

lemma ex_full_inv: "replay_inv ex_full"
  by (simp add: replay_inv_def ex_full_def ex_guard_def replay_new_def asli_const hmap_ok_def
      hkeys_def comp_def ex_dev_inject)

text \<open>How one clip from a foreign device fares, as an equation the simplifier can run.\<close>

lemma ex_check:
  assumes "own_device_id g = ex_dev 0" "max_age_ms g = 86400000" "future_skew_ms g = 86400000"
    and "0 < d" "d < 256"
  shows "check g (ex_clip m d q) 1767225600000 =
    (if ex_dev m \<in> set (seen g) then (Duplicate, g)
     else case map_of (highest_seq g) (ex_dev d) of
       Some h \<Rightarrow> if q \<le> h then (Rollback, g)
         else if q - h > MAX_SEQ_JUMP then (SeqJump, g) else (Accept, record_clip g (ex_clip m d q))
     | None \<Rightarrow> (Accept, record_clip g (ex_clip m d q)))"
proof -
  have "sat_add 1767225600000 86400000 = (1767312000000 :: u64)" by (simp add: sat_add_def)
  moreover have "sat_sub 1767225600000 1767225600000 = (0 :: u64)" by (simp add: sat_sub_def)
  ultimately show ?thesis
    using assms by (simp add: check_def Let_def ex_dev_inject split: option.split)
qed

definition ex_guard1 :: replay_guard where
  "ex_guard1 = ex_guard\<lparr>seen := [ex_dev 2], highest_seq := [(ex_dev 2, 7)],
     device_order := [ex_dev 2]\<rparr>"

lemma ex_record: "record_clip ex_guard (ex_clip 2 2 7) = ex_guard1"
  by (simp add: record_clip_def ex_guard_def ex_guard1_def replay_new_def asli_const push_seen_def)

lemma ex_steps:
  "check ex_guard (ex_clip 2 2 7) 1767225600000 = (Accept, ex_guard1)"
  "check ex_guard1 (ex_clip 2 2 8) 1767225600000 = (Duplicate, ex_guard1)"
  "check ex_guard1 (ex_clip 3 2 6) 1767225600000 = (Rollback, ex_guard1)"
  "fst (check ex_guard1 (ex_clip 4 2 9) 1767225600000) = Accept"
proof -
  have g: "own_device_id ex_guard1 = ex_dev 0" "max_age_ms ex_guard1 = 86400000"
    "future_skew_ms ex_guard1 = 86400000" "seen ex_guard1 = [ex_dev 2]"
    "highest_seq ex_guard1 = [(ex_dev 2, 7)]"
    "own_device_id ex_guard = ex_dev 0" "max_age_ms ex_guard = 86400000"
    "future_skew_ms ex_guard = 86400000" "seen ex_guard = []" "highest_seq ex_guard = []"
    by (simp_all add: ex_guard1_def ex_guard_def replay_new_def asli_const)
  show "check ex_guard (ex_clip 2 2 7) 1767225600000 = (Accept, ex_guard1)"
    "check ex_guard1 (ex_clip 2 2 8) 1767225600000 = (Duplicate, ex_guard1)"
    "check ex_guard1 (ex_clip 3 2 6) 1767225600000 = (Rollback, ex_guard1)"
    "fst (check ex_guard1 (ex_clip 4 2 9) 1767225600000) = Accept"
    using ex_record by (simp_all add: ex_check g ex_dev_inject MAX_SEQ_JUMP_def)
qed

lemma ex_run_results:
  "accepted ex_guard ex_run = [ex_clip 2 2 7, ex_clip 4 2 9]"
  "verdicts ex_guard ex_run = [Accept, Duplicate, Rollback, Accept]"
  by (simp_all add: ex_run_def ex_steps)

lemma replay_window_distinct_witness:
  "in_msg_id (accepted ex_guard ex_run ! 0) \<noteq> in_msg_id (accepted ex_guard ex_run ! 1)"
  by (rule replay_window_distinct [OF ex_guard_inv])
     (simp_all add: ex_run_results, simp add: ex_guard_def replay_new_def asli_const)

lemma ex_run_devices: "card (run_devices ex_guard ex_run) \<le> device_capacity ex_guard"
  by (simp add: run_devices_def ex_guard_def replay_new_def ex_run_def ex_clip_def asli_const)

lemma replay_seq_increases_witness:
  "seq_chain None (map in_seq (filter (\<lambda>i. in_device_id i = ex_dev 2) (accepted ex_guard ex_run)))
   \<and> map in_seq (filter (\<lambda>i. in_device_id i = ex_dev 2) (accepted ex_guard ex_run)) = [7, 9]"
proof -
  have "highest_seq ex_guard = []" by (simp add: ex_guard_def replay_new_def)
  then show ?thesis
    using replay_seq_increases [OF ex_guard_inv ex_run_devices, of "ex_dev 2"]
    by (simp add: ex_run_results)
qed

lemma replay_restart_witness:
  "verdicts (restore (replay_new (ex_dev 0) 86400000) (memory_of ex_guard)) ex_run
     = [Accept, Duplicate, Rollback, Accept]"
  using replay_restart [OF ex_guard_inv _ ex_run_devices, of "ex_dev 0" 86400000]
  by (simp add: ex_run_results(2)) (simp add: ex_guard_def)

lemma replay_clear_loses_mark_witness:
  "fst (check (snd (check (replay_clear ex_full) (ex_clip 2 2 9) 1767225600000))
     (ex_clip 3 2 3) 1767225600000) = Accept"
proof (rule replay_clear_loses_mark [OF ex_full_inv])
  show "device_order ex_full = ex_dev 2 # map ex_dev [3..<66]"
    by (simp add: ex_full_def)
  show "length (device_order ex_full) = device_capacity ex_full"
    by (simp add: ex_full_def ex_guard_def replay_new_def asli_const)
  have "own_device_id (replay_clear ex_full) = ex_dev 0" "max_age_ms (replay_clear ex_full) = 86400000"
    "future_skew_ms (replay_clear ex_full) = 86400000" "seen (replay_clear ex_full) = []"
    "highest_seq (replay_clear ex_full) = []"
    by (simp_all add: replay_clear_def ex_full_def ex_guard_def replay_new_def asli_const)
  then show "fst (check (replay_clear ex_full) (ex_clip 2 2 9) 1767225600000) = Accept"
    "fst (check (replay_clear ex_full) (ex_clip 3 2 3) 1767225600000) = Accept"
    by (simp_all add: ex_check)
qed (simp_all add: ex_dev_inject, simp add: ex_full_def ex_guard_def replay_new_def ex_dev_inject)

end
