(* ===== verification/Echo.thy ===== *)
theory Echo
  imports Asli_Prelude
begin

text \<open>
  Loop prevention by content hash, \<open>crates/asli-core/src/echo.rs\<close>: a small ring of the hashes
  this device has just written to its clipboard, each with the time it was remembered. The
  invariant says the ring is bounded and holds a hash once; the lemmas say what each operation
  does to what is remembered, that an echo is swallowed at most once for each time it was
  remembered, and what the guard does when its clock runs backwards.
\<close>

section \<open>State and operations\<close>

type_synonym content_hash = bytes

definition DEFAULT_CAPACITY :: nat where [asli_const]: "DEFAULT_CAPACITY = 20"
definition DEFAULT_TTL_MS :: u64 where [asli_const]: "DEFAULT_TTL_MS = 15000"

record echo_guard =
  entries :: "(content_hash \<times> u64) list"
  capacity :: nat
  ttl_ms :: u64

text \<open>\<open>None\<close> is the panic on a capacity of zero.\<close>

definition echo_new :: "nat \<Rightarrow> u64 \<Rightarrow> echo_guard option" where
  "echo_new cap ttl =
     (if cap > 0 then Some \<lparr>entries = [], capacity = cap, ttl_ms = ttl\<rparr> else None)"

definition echo_default :: echo_guard where
  "echo_default = \<lparr>entries = [], capacity = DEFAULT_CAPACITY, ttl_ms = DEFAULT_TTL_MS\<rparr>"

definition is_expired :: "echo_guard \<Rightarrow> u64 \<Rightarrow> u64 \<Rightarrow> bool" where
  "is_expired g at_ms now_ms \<longleftrightarrow> sat_sub now_ms at_ms > ttl_ms g"

text \<open>Pops from the front while the front has expired.\<close>

fun expire_entries :: "echo_guard \<Rightarrow> u64 \<Rightarrow> (content_hash \<times> u64) list \<Rightarrow> (content_hash \<times> u64) list"
where
  "expire_entries g now_ms [] = []"
| "expire_entries g now_ms ((h, at_ms) # es) =
     (if is_expired g at_ms now_ms then expire_entries g now_ms es else (h, at_ms) # es)"

definition expire :: "echo_guard \<Rightarrow> u64 \<Rightarrow> echo_guard" where
  "expire g now_ms = g\<lparr>entries := expire_entries g now_ms (entries g)\<rparr>"

definition remember :: "echo_guard \<Rightarrow> content_hash \<Rightarrow> u64 \<Rightarrow> echo_guard" where
  "remember g h now_ms =
     (let g = expire g now_ms;
          kept = filter (\<lambda>(h', _). h' \<noteq> h) (entries g);
          kept = (if length kept = capacity g then tl kept else kept)
      in g\<lparr>entries := kept @ [(h, now_ms)]\<rparr>)"

text \<open>Removing at the position of the first entry with the hash.\<close>

fun remove_first :: "content_hash \<Rightarrow> (content_hash \<times> u64) list \<Rightarrow> (content_hash \<times> u64) list option"
where
  "remove_first h [] = None"
| "remove_first h ((h', at_ms) # es) =
     (if h' = h then Some es else map_option ((#) (h', at_ms)) (remove_first h es))"

definition take_echo :: "echo_guard \<Rightarrow> content_hash \<Rightarrow> u64 \<Rightarrow> bool \<times> echo_guard" where
  "take_echo g h now_ms =
     (let g = expire g now_ms
      in case remove_first h (entries g) of
           Some es \<Rightarrow> (True, g\<lparr>entries := es\<rparr>)
         | None \<Rightarrow> (False, g))"

definition contains :: "echo_guard \<Rightarrow> content_hash \<Rightarrow> u64 \<Rightarrow> bool" where
  "contains g h now_ms \<longleftrightarrow>
     list_ex (\<lambda>(h', at_ms). h' = h \<and> \<not> is_expired g at_ms now_ms) (entries g)"

definition echo_len :: "echo_guard \<Rightarrow> nat" where
  "echo_len g = length (entries g)"

definition echo_is_empty :: "echo_guard \<Rightarrow> bool" where
  "echo_is_empty g \<longleftrightarrow> entries g = []"

definition echo_clear :: "echo_guard \<Rightarrow> echo_guard" where
  "echo_clear g = g\<lparr>entries := []\<rparr>"

section \<open>The invariant\<close>

definition echo_inv :: "echo_guard \<Rightarrow> bool" where
  "echo_inv g \<longleftrightarrow>
     0 < capacity g \<and> length (entries g) \<le> capacity g \<and> distinct (map fst (entries g))"

lemma expire_entries_drop: "\<exists>n. expire_entries g now es = drop n es"
proof (induction es)
  case Nil
  then show ?case by simp
next
  case (Cons e es)
  obtain h at_ms where e: "e = (h, at_ms)" by (cases e)
  from Cons obtain n where n: "expire_entries g now es = drop n es" by blast
  show ?case
  proof (cases "is_expired g at_ms now")
    case True
    then show ?thesis using n e by (intro exI [of _ "Suc n"]) simp
  next
    case False
    then show ?thesis using e by (intro exI [of _ 0]) simp
  qed
qed

lemma expire_fields [simp]:
  "capacity (expire g now) = capacity g" "ttl_ms (expire g now) = ttl_ms g"
  by (simp_all add: expire_def)

lemma is_expired_expire [simp]: "is_expired (expire g now) = is_expired g"
  by (simp add: is_expired_def fun_eq_iff)

lemma expire_inv: "echo_inv g \<Longrightarrow> echo_inv (expire g now)"
proof -
  assume inv: "echo_inv g"
  obtain n where "expire_entries g now (entries g) = drop n (entries g)"
    using expire_entries_drop by blast
  with inv show ?thesis
    by (auto simp: echo_inv_def expire_def distinct_drop simp flip: drop_map)
qed

lemma expire_subset: "set (entries (expire g now)) \<subseteq> set (entries g)"
  using expire_entries_drop [of g now "entries g"]
  by (auto simp: expire_def dest: in_set_dropD)

lemma distinct_fst_filter: "distinct (map fst es) \<Longrightarrow> distinct (map fst (filter P es))"
  by (induction es) auto

lemma distinct_fst_tl: "distinct (map fst es) \<Longrightarrow> distinct (map fst (tl es))"
  by (cases es) auto

lemma remember_inv: "echo_inv g \<Longrightarrow> echo_inv (remember g h now)"
proof -
  assume inv: "echo_inv g"
  define e where "e = entries (expire g now)"
  define kept where "kept = filter (\<lambda>(h', _). h' \<noteq> h) e"
  define kept' where "kept' = (if length kept = capacity g then tl kept else kept)"
  have e: "length e \<le> capacity g" "distinct (map fst e)" "0 < capacity g"
    using expire_inv [OF inv, of now] by (simp_all add: echo_inv_def e_def)
  have k: "length kept \<le> capacity g"
    using e(1) length_filter_le le_trans unfolding kept_def by blast
  have "set kept' \<subseteq> set kept" by (cases kept) (auto simp: kept'_def)
  then have "h \<notin> fst ` set kept'" by (auto simp: kept_def)
  moreover have "distinct (map fst kept)"
    unfolding kept_def by (rule distinct_fst_filter [OF e(2)])
  then have "distinct (map fst kept')"
    using distinct_fst_tl [of kept] by (simp add: kept'_def)
  moreover have "length kept' < capacity g" using k e(3) by (auto simp: kept'_def)
  moreover have "entries (remember g h now) = kept' @ [(h, now)]"
    by (simp add: remember_def Let_def e_def kept_def kept'_def)
  ultimately show ?thesis
    using e(3) by (simp add: echo_inv_def) (simp add: remember_def Let_def)
qed

lemma remove_first_Some:
  "remove_first h es = Some es' \<Longrightarrow>
    \<exists>us at_ms vs. es = us @ (h, at_ms) # vs \<and> es' = us @ vs \<and> h \<notin> fst ` set us"
proof (induction es arbitrary: es')
  case Nil
  then show ?case by simp
next
  case (Cons e es)
  obtain h' at_ms where e: "e = (h', at_ms)" by (cases e)
  show ?case
  proof (cases "h' = h")
    case True
    then show ?thesis using Cons.prems e by (intro exI [of _ "[]"]) auto
  next
    case False
    then obtain es1 where "remove_first h es = Some es1" "es' = e # es1"
      using Cons.prems e by auto
    moreover obtain us a vs where "es = us @ (h, a) # vs" "es1 = us @ vs" "h \<notin> fst ` set us"
      using Cons.IH calculation(1) by blast
    ultimately show ?thesis using False e by (intro exI [of _ "e # us"]) auto
  qed
qed

lemma remove_first_None: "remove_first h es = None \<longleftrightarrow> h \<notin> fst ` set es"
  by (induction h es rule: remove_first.induct) auto

lemma remove_first_cases:
  obtains (absent) "remove_first h es = None" "h \<notin> fst ` set es"
  | (found) us at_ms vs where "es = us @ (h, at_ms) # vs" "remove_first h es = Some (us @ vs)"
      "h \<notin> fst ` set us"
proof (cases "remove_first h es")
  case None
  then show ?thesis using absent by (simp add: remove_first_None)
next
  case (Some es')
  from remove_first_Some [OF Some] show ?thesis using found Some by blast
qed

lemma take_echo_inv: "echo_inv g \<Longrightarrow> echo_inv (snd (take_echo g h now))"
proof -
  assume inv: "echo_inv g"
  note inv' = expire_inv [OF inv, of now]
  show ?thesis
  proof (cases "remove_first h (entries (expire g now))")
    case None
    then show ?thesis using inv' by (simp add: take_echo_def Let_def)
  next
    case (Some es)
    obtain us a vs where "entries (expire g now) = us @ (h, a) # vs" "es = us @ vs"
      using remove_first_Some [OF Some] by blast
    then show ?thesis using inv' Some by (auto simp: take_echo_def Let_def echo_inv_def)
  qed
qed

section \<open>What is remembered\<close>

definition remembered :: "echo_guard \<Rightarrow> content_hash set" where
  "remembered g = fst ` set (entries g)"

lemma take_echo_result: "fst (take_echo g h now) \<longleftrightarrow> h \<in> remembered (expire g now)"
  by (cases rule: remove_first_cases [of h "entries (expire g now)"])
    (simp_all add: take_echo_def Let_def remembered_def)

lemma take_echo_forgets:
  assumes "echo_inv g"
  shows "h \<notin> remembered (snd (take_echo g h now))"
proof -
  have d: "distinct (map fst (entries (expire g now)))"
    using expire_inv [OF assms] by (simp add: echo_inv_def)
  show ?thesis
    by (cases rule: remove_first_cases [of h "entries (expire g now)"])
      (use d in \<open>auto simp: take_echo_def Let_def remembered_def\<close>)
qed

lemma take_echo_subset: "remembered (snd (take_echo g h now)) \<subseteq> remembered g"
proof -
  have "set (entries (snd (take_echo g h now))) \<subseteq> set (entries (expire g now))"
    by (cases rule: remove_first_cases [of h "entries (expire g now)"])
      (auto simp: take_echo_def Let_def)
  then show ?thesis using expire_subset [of g now] by (auto simp: remembered_def)
qed

lemma set_tl_subset: "set (tl es) \<subseteq> set es"
  by (cases es) auto

lemma remember_entries_subset:
  "set (entries (remember g h now)) \<subseteq> insert (h, now) (set (entries (expire g now)))"
proof -
  let ?f = "filter (\<lambda>(h', _). h' \<noteq> h) (entries (expire g now))"
  have "set (tl ?f) \<subseteq> set ?f" by (rule set_tl_subset)
  then show ?thesis by (auto simp: remember_def Let_def)
qed

lemma remember_subset: "remembered (remember g h now) \<subseteq> insert h (remembered g)"
  using remember_entries_subset [of g h now] expire_subset [of g now]
  by (fastforce simp: remembered_def)

lemma remember_remembers: "(h, now) \<in> set (entries (remember g h now))"
  by (simp add: remember_def Let_def)

lemma expire_keeps_fresh:
  assumes "(h, at_ms) \<in> set (entries g)" "\<not> is_expired g at_ms now"
  shows "(h, at_ms) \<in> set (entries (expire g now))"
proof -
  have "(h, at_ms) \<in> set es \<Longrightarrow> (h, at_ms) \<in> set (expire_entries g now es)" for es
    using assms(2) by (induction es) auto
  with assms(1) show ?thesis by (simp add: expire_def)
qed

section \<open>Runs\<close>

datatype echo_op = Remember content_hash u64 | Take_Echo content_hash u64 | Clear

fun echo_step :: "echo_guard \<Rightarrow> echo_op \<Rightarrow> echo_guard" where
  "echo_step g (Remember h now) = remember g h now"
| "echo_step g (Take_Echo h now) = snd (take_echo g h now)"
| "echo_step g Clear = echo_clear g"

lemma echo_step_inv: "echo_inv g \<Longrightarrow> echo_inv (echo_step g oper)"
  by (cases oper) (auto simp: remember_inv take_echo_inv, simp add: echo_clear_def echo_inv_def)

interpretation echo: machine echo_step echo_inv
  by unfold_locales (rule echo_step_inv)

text \<open>How many changes with a hash a run swallowed, and how many times it was remembered.\<close>

fun swallowed :: "content_hash \<Rightarrow> echo_guard \<Rightarrow> echo_op list \<Rightarrow> nat" where
  "swallowed h g [] = 0"
| "swallowed h g (oper # opers) =
     (case oper of
        Take_Echo h' now \<Rightarrow> if h' = h \<and> fst (take_echo g h now) then 1 else 0
      | _ \<Rightarrow> 0) + swallowed h (echo_step g oper) opers"

fun times_remembered :: "content_hash \<Rightarrow> echo_op list \<Rightarrow> nat" where
  "times_remembered h [] = 0"
| "times_remembered h (oper # opers) =
     (case oper of Remember h' _ \<Rightarrow> if h' = h then 1 else 0 | _ \<Rightarrow> 0) + times_remembered h opers"

lemma swallowed_bound:
  "echo_inv g \<Longrightarrow>
    swallowed h g opers \<le> times_remembered h opers + (if h \<in> remembered g then 1 else 0)"
proof (induction opers arbitrary: g)
  case Nil
  then show ?case by simp
next
  case (Cons oper opers)
  let ?g = "echo_step g oper"
  have IH: "swallowed h ?g opers \<le> times_remembered h opers + (if h \<in> remembered ?g then 1 else 0)"
    by (rule Cons.IH [OF echo_step_inv [OF Cons.prems]])
  show ?case
  proof (cases oper)
    case (Remember h' now)
    have "h \<in> remembered ?g \<Longrightarrow> h' = h \<or> h \<in> remembered g"
      using remember_subset [of g h' now] Remember by auto
    then have "(if h \<in> remembered ?g then 1 else 0)
        \<le> (if h' = h then 1 else 0) + (if h \<in> remembered g then 1 else (0::nat))" by auto
    then show ?thesis using IH Remember by simp
  next
    case (Take_Echo h' now)
    have "h \<in> remembered ?g \<Longrightarrow> h \<in> remembered g"
      using take_echo_subset [of g h' now] Take_Echo by auto
    moreover have "h' = h \<Longrightarrow> h \<notin> remembered ?g"
      using take_echo_forgets [OF Cons.prems] Take_Echo by simp
    moreover have "h' = h \<Longrightarrow> fst (take_echo g h now) \<Longrightarrow> h \<in> remembered g"
      using take_echo_result [of g h now] expire_subset [of g now] by (auto simp: remembered_def)
    ultimately have "(if h' = h \<and> fst (take_echo g h now) then 1 else 0)
        + (if h \<in> remembered ?g then 1 else 0) \<le> (if h \<in> remembered g then 1 else (0::nat))" by auto
    then show ?thesis using IH Take_Echo by simp
  next
    case Clear
    then have "h \<notin> remembered ?g" by (simp add: echo_clear_def remembered_def)
    then show ?thesis using IH Clear by simp
  qed
qed

section \<open>A clock that does not run backwards\<close>

definition in_order :: "echo_guard \<Rightarrow> bool" where
  "in_order g \<longleftrightarrow> sorted (map snd (entries g))"

lemma is_expired_antimono: "a \<le> b \<Longrightarrow> is_expired g b now \<Longrightarrow> is_expired g a now"
  by (simp add: is_expired_def sat_sub_gt_iff word_le_nat_alt)

lemma expire_in_order:
  assumes "in_order g"
  shows "set (entries (expire g now)) = {e \<in> set (entries g). \<not> is_expired g (snd e) now}"
proof -
  have "sorted (map snd es) \<Longrightarrow>
      set (expire_entries g now es) = {e \<in> set es. \<not> is_expired g (snd e) now}" for es
  proof (induction es)
    case (Cons e es)
    obtain h a where e: "e = (h, a)" by (cases e)
    show ?case
    proof (cases "is_expired g a now")
      case True
      then show ?thesis using Cons e by auto
    next
      case False
      then have "\<forall>x \<in> set es. \<not> is_expired g (snd x) now"
        using Cons.prems e is_expired_antimono by fastforce
      then show ?thesis using False e by auto
    qed
  qed simp
  with assms show ?thesis by (simp add: expire_def in_order_def)
qed

lemma take_echo_contains:
  "in_order g \<Longrightarrow> fst (take_echo g h now) \<longleftrightarrow> contains g h now"
  unfolding take_echo_result remembered_def expire_in_order contains_def list_ex_iff
  by (auto simp: image_iff)

lemma sorted_snd_filter: "sorted (map snd es) \<Longrightarrow> sorted (map snd (filter P es))"
  by (induction es) auto

lemma expire_order: "in_order g \<Longrightarrow> in_order (expire g now)"
  using expire_entries_drop [of g now "entries g"]
  by (auto simp: in_order_def expire_def sorted_wrt_drop simp flip: drop_map)

lemma remember_in_order:
  assumes "in_order g" "\<forall>e \<in> set (entries g). snd e \<le> now"
  shows "in_order (remember g h now)" "\<forall>e \<in> set (entries (remember g h now)). snd e \<le> now"
proof -
  define f where "f = filter (\<lambda>(h', _). h' \<noteq> h) (entries (expire g now))"
  define k where "k = (if length f = capacity g then tl f else f)"
  have "sorted (map snd f)"
    using expire_order [OF assms(1), of now] by (simp add: in_order_def sorted_snd_filter f_def)
  then have s: "sorted (map snd k)" by (cases f) (auto simp: k_def)
  have "set k \<subseteq> set (entries g)"
    using set_tl_subset [of f] expire_subset [of g now] by (auto simp: k_def f_def)
  then have le: "\<forall>e \<in> set k. snd e \<le> now" using assms(2) by blast
  have "entries (remember g h now) = k @ [(h, now)]"
    by (simp add: remember_def Let_def f_def k_def)
  then show "in_order (remember g h now)"
    "\<forall>e \<in> set (entries (remember g h now)). snd e \<le> now"
    using s le by (auto simp: in_order_def sorted_append)
qed

section \<open>An echo that is still live is found\<close>

text \<open>Operations that leave the entry of \<open>h\<close> from time \<open>t\<close> alone: not about
  \<open>h\<close>, not a clear, and not at a time by which the entry has expired.\<close>

fun spares :: "content_hash \<Rightarrow> u64 \<Rightarrow> u64 \<Rightarrow> echo_op \<Rightarrow> bool" where
  "spares h t ttl (Remember h' now) \<longleftrightarrow> h' \<noteq> h \<and> \<not> sat_sub now t > ttl"
| "spares h t ttl (Take_Echo h' now) \<longleftrightarrow> h' \<noteq> h \<and> \<not> sat_sub now t > ttl"
| "spares h t ttl Clear \<longleftrightarrow> False"

fun is_remember :: "echo_op \<Rightarrow> bool" where
  "is_remember (Remember _ _) \<longleftrightarrow> True"
| "is_remember _ \<longleftrightarrow> False"

text \<open>The entry is held with at most \<open>n\<close> newer ones behind it.\<close>

definition held :: "content_hash \<Rightarrow> u64 \<Rightarrow> nat \<Rightarrow> echo_guard \<Rightarrow> bool" where
  "held h t n g \<longleftrightarrow> (\<exists>us vs. entries g = us @ (h, t) # vs \<and> length vs \<le> n)"

lemma held_expire:
  assumes "held h t n g" "\<not> sat_sub now t > ttl_ms g"
  shows "held h t n (expire g now)"
proof -
  obtain us vs where g: "entries g = us @ (h, t) # vs" "length vs \<le> n"
    using assms(1) by (auto simp: held_def)
  have "\<exists>us'. expire_entries g now (us @ (h, t) # vs) = us' @ (h, t) # vs"
  proof (induction us)
    case Nil
    then show ?case using assms(2) by (auto simp: is_expired_def)
  next
    case (Cons e us)
    then show ?case by (cases e) (auto intro: exI [of _ "e # us"])
  qed
  with g show ?thesis by (auto simp: held_def expire_def)
qed

lemma held_remember:
  assumes held: "held h t n g" and "h' \<noteq> h" "\<not> sat_sub now t > ttl_ms g" "Suc n < capacity g"
  shows "held h t (Suc n) (remember g h' now)"
proof -
  obtain us vs where e: "entries (expire g now) = us @ (h, t) # vs" "length vs \<le> n"
    using held_expire [OF held assms(3)] by (auto simp: held_def)
  define us' where "us' = filter (\<lambda>(x, _). x \<noteq> h') us"
  define vs' where "vs' = filter (\<lambda>(x, _). x \<noteq> h') vs"
  have f: "filter (\<lambda>(x, _). x \<noteq> h') (entries (expire g now)) = us' @ (h, t) # vs'"
    using assms(2) by (simp add: e us'_def vs'_def)
  have le: "length vs' \<le> n" using e(2) length_filter_le le_trans unfolding vs'_def by blast
  then have "us' = [] \<Longrightarrow> length (us' @ (h, t) # vs') \<noteq> capacity g" using assms(4) by simp
  moreover have "entries (remember g h' now) =
      (if length (us' @ (h, t) # vs') = capacity g then tl (us' @ (h, t) # vs')
       else us' @ (h, t) # vs') @ [(h', now)]"
    using f by (simp add: remember_def Let_def)
  ultimately obtain us'' where "entries (remember g h' now) = us'' @ (h, t) # (vs' @ [(h', now)])"
    by (cases us') (auto split: if_splits)
  moreover have "length (vs' @ [(h', now)]) \<le> Suc n" using le by simp
  ultimately show ?thesis unfolding held_def by blast
qed

lemma held_take:
  assumes held: "held h t n g" and "h' \<noteq> h" "\<not> sat_sub now t > ttl_ms g"
  shows "held h t n (snd (take_echo g h' now))"
proof -
  obtain us vs where e: "entries (expire g now) = us @ (h, t) # vs" "length vs \<le> n"
    using held_expire [OF held assms(3)] by (auto simp: held_def)
  show ?thesis
  proof (cases rule: remove_first_cases [of h' "entries (expire g now)"])
    case absent
    then show ?thesis using e by (auto simp: take_echo_def held_def)
  next
    case (found ps a qs)
    then have "us @ (h, t) # vs = ps @ (h', a) # qs" using e by simp
    then have "(\<exists>r. us = ps @ (h', a) # r \<and> qs = r @ (h, t) # vs)
        \<or> (\<exists>r. ps = us @ (h, t) # r \<and> vs = r @ (h', a) # qs)"
      using assms(2) by (auto simp: append_eq_append_conv2 Cons_eq_append_conv append_eq_Cons_conv)
    then have "\<exists>us' vs'. ps @ qs = us' @ (h, t) # vs' \<and> length vs' \<le> n"
    proof
      assume "\<exists>r. us = ps @ (h', a) # r \<and> qs = r @ (h, t) # vs"
      then obtain r where "ps @ qs = (ps @ r) @ (h, t) # vs" by auto
      with e(2) show ?thesis by blast
    next
      assume "\<exists>r. ps = us @ (h, t) # r \<and> vs = r @ (h', a) # qs"
      then obtain r where "ps @ qs = us @ (h, t) # (r @ qs)" "length (r @ qs) \<le> n"
        using e(2) by auto
      then show ?thesis by blast
    qed
    then show ?thesis using found by (auto simp: take_echo_def held_def)
  qed
qed

lemma echo_step_fields [simp]:
  "capacity (echo_step g oper) = capacity g" "ttl_ms (echo_step g oper) = ttl_ms g"
  by (cases oper; simp add: remember_def Let_def take_echo_def echo_clear_def split: option.split)+

lemma held_run:
  "held h t n g \<Longrightarrow> list_all (spares h t (ttl_ms g)) opers \<Longrightarrow>
    n + length (filter is_remember opers) < capacity g \<Longrightarrow>
    held h t (n + length (filter is_remember opers)) (foldl echo_step g opers)"
proof (induction opers arbitrary: g n)
  case (Cons oper opers)
  show ?case
  proof (cases oper)
    case (Remember h' now)
    then show ?thesis
      using Cons.IH [of "Suc n" "echo_step g oper"] Cons.prems held_remember [of h t n g h' now]
        echo_step_fields [of g oper]
      by simp
  next
    case (Take_Echo h' now)
    then show ?thesis
      using Cons.IH [of n "echo_step g oper"] Cons.prems held_take [of h t n g h' now]
        echo_step_fields [of g oper]
      by simp
  next
    case Clear
    then show ?thesis using Cons.prems by simp
  qed
qed simp

lemma held_found: "held h t n g \<Longrightarrow> \<not> sat_sub now t > ttl_ms g \<Longrightarrow> fst (take_echo g h now)"
  using held_expire [of h t n g now] by (auto simp: take_echo_result remembered_def held_def)

section \<open>Properties\<close>

fun op_times :: "echo_op list \<Rightarrow> u64 list" where
  "op_times [] = []"
| "op_times (Remember _ t # ops) = t # op_times ops"
| "op_times (Take_Echo _ t # ops) = t # op_times ops"
| "op_times (Clear # ops) = op_times ops"

definition entries_before :: "u64 \<Rightarrow> echo_guard \<Rightarrow> bool" where
  "entries_before t g \<longleftrightarrow> (\<forall>e \<in> set (entries g). snd e \<le> t)"

lemma take_echo_keeps_order: "in_order g \<Longrightarrow> in_order (snd (take_echo g h now))"
  by (cases rule: remove_first_cases [of h "entries (expire g now)"])
     (use expire_order [of g now] in \<open>auto simp: take_echo_def in_order_def sorted_append\<close>)

lemma take_echo_entries: "set (entries (snd (take_echo g h now))) \<subseteq> set (entries g)"
  by (cases rule: remove_first_cases [of h "entries (expire g now)"])
     (use expire_subset [of g now] in \<open>auto simp: take_echo_def\<close>)

lemma run_in_order:
  "in_order g \<Longrightarrow> entries_before t g \<Longrightarrow> sorted (t # op_times opers) \<Longrightarrow>
    in_order (foldl echo_step g opers)"
proof (induction opers arbitrary: g t)
  case (Cons oper opers)
  show ?case
  proof (cases oper)
    case (Remember h now)
    have "\<forall>e \<in> set (entries g). snd e \<le> now"
      using Cons.prems Remember by (fastforce simp: entries_before_def)
    then show ?thesis
      using Cons.IH [of "remember g h now" now] Cons.prems remember_in_order [of g now h] Remember
      by (auto simp: entries_before_def)
  next
    case (Take_Echo h now)
    have "entries_before now (snd (take_echo g h now))"
      using Cons.prems Take_Echo take_echo_entries [of g h now]
      by (fastforce simp: entries_before_def)
    then show ?thesis
      using Cons.IH [of "snd (take_echo g h now)" now] Cons.prems take_echo_keeps_order Take_Echo
      by simp
  next
    case Clear
    then show ?thesis
      using Cons.IH [of "echo_clear g" t] Cons.prems
      by (simp add: echo_clear_def in_order_def entries_before_def)
  qed
qed simp

text \<open>Over any sequence of operations on a new guard, a hash is swallowed at most as many times
  as it was remembered, so no user copy beyond the expected echoes is lost, and the guard never
  holds more than its twenty entries nor a hash twice.\<close>

theorem echo_swallows_at_most_once_each:
  "swallowed h echo_default opers \<le> times_remembered h opers
   \<and> echo_len (foldl echo_step echo_default opers) \<le> 20
   \<and> distinct (map fst (entries (foldl echo_step echo_default opers)))"
proof -
  have inv: "echo_inv echo_default" by (simp add: echo_inv_def echo_default_def asli_const)
  have "capacity (foldl echo_step g opers) = capacity g" for g
    by (induction opers arbitrary: g) simp_all
  moreover have "capacity echo_default = 20" by (simp add: echo_default_def asli_const)
  ultimately show ?thesis
    using echo.run_inv [OF inv, of opers] swallowed_bound [OF inv, of h opers]
    by (simp add: echo_inv_def echo_len_def echo_default_def remembered_def)
qed

text \<open>A hash remembered before a write is found when the change comes back: whatever else the
  guard was asked in between, as long as it was not about that hash, fewer hashes than the capacity
  were remembered since, and the time to live had not passed, the echo is swallowed.\<close>

theorem echo_live_swallowed:
  assumes "list_all (spares h t (ttl_ms g)) opers"
    and "length (filter is_remember opers) < capacity g"
    and "\<not> sat_sub now t > ttl_ms g"
  shows "fst (take_echo (foldl echo_step (remember g h t) opers) h now)"
proof -
  have "held h t 0 (remember g h t)" by (auto simp: held_def remember_def Let_def)
  moreover have fields: "capacity (remember g h t) = capacity g" "ttl_ms (remember g h t) = ttl_ms g"
    by (simp_all add: remember_def Let_def)
  moreover have "ttl_ms (foldl echo_step k opers) = ttl_ms k" for k
    by (induction opers arbitrary: k) simp_all
  ultimately show ?thesis
    using held_run [of h t 0 "remember g h t" opers] assms by (auto intro!: held_found)
qed

text \<open>With a clock that never steps back, swallowing agrees with asking: after any run of
  operations in time order, a change is swallowed exactly when \<open>contains\<close> reports its hash.\<close>

theorem echo_take_iff_contains:
  assumes "sorted (op_times opers)"
  shows "fst (take_echo (foldl echo_step echo_default opers) h now)
    \<longleftrightarrow> contains (foldl echo_step echo_default opers) h now"
proof (rule take_echo_contains, rule run_in_order [of _ 0])
  show "sorted (0 # op_times opers)" using assms by simp
qed (simp_all add: in_order_def entries_before_def echo_default_def)

text \<open>With a clock that steps back the two disagree: an entry stamped after the step sits behind
  one stamped before it, expiry stops at the front, and a change whose entry expired long ago is
  still swallowed.\<close>

theorem echo_clock_steps_back:
  "let g = remember (remember echo_default [1] 100000) [2] 0
   in \<not> contains g [2] 50000 \<and> fst (take_echo g [2] 50000)"
  by (simp add: echo_default_def remember_def take_echo_def contains_def expire_def is_expired_def
      sat_sub_def asli_const Let_def)

definition ex_opers :: "echo_op list" where
  "ex_opers = [Remember [2] 1005, Take_Echo [3] 1010]"

lemma echo_live_swallowed_witness:
  "fst (take_echo (foldl echo_step (remember echo_default [1] 1000) ex_opers) [1] 1020)"
  by (rule echo_live_swallowed)
     (simp_all add: ex_opers_def echo_default_def asli_const sat_sub_def)

lemma echo_take_iff_contains_witness:
  "fst (take_echo (foldl echo_step echo_default ex_opers) [2] 1020)
    \<longleftrightarrow> contains (foldl echo_step echo_default ex_opers) [2] 1020"
  by (rule echo_take_iff_contains) (simp add: ex_opers_def)

end
