(* ===== verification/Utf8.thy ===== *)
theory Utf8
  imports Asli_Prelude
begin

text \<open>
  Rust's \<open>char\<close> and \<open>str\<close> as the source uses them. A \<open>char\<close> is a Unicode scalar value, a
  natural number; a string is the list of its characters, and \<open>utf8\<close> is its bytes, so
  \<open>length (utf8 s)\<close> is what \<open>str::len\<close> returns. \<open>from_utf8\<close> is the standard library's strict
  decoder: it accepts the shortest encoding of each scalar value and nothing else. The two are
  proved to be inverse, which is what every text field of every message rests on.
\<close>

type_synonym uchar = nat
type_synonym ustr = "uchar list"

definition is_scalar :: "uchar \<Rightarrow> bool" where
  "is_scalar c \<longleftrightarrow> c < 0xD800 \<or> (0xE000 \<le> c \<and> c < 0x110000)"

definition str_ok :: "ustr \<Rightarrow> bool" where
  "str_ok s \<longleftrightarrow> list_all is_scalar s"

lemma str_ok_simps [simp]:
  "str_ok []" "str_ok (c # s) \<longleftrightarrow> is_scalar c \<and> str_ok s"
  "str_ok (s @ t) \<longleftrightarrow> str_ok s \<and> str_ok t"
  by (simp_all add: str_ok_def)

lemma str_ok_take: "str_ok s \<Longrightarrow> str_ok (take n s)"
  by (simp add: str_ok_def list_all_iff) (meson in_set_takeD)

section \<open>Encoding\<close>

definition utf8_char :: "uchar \<Rightarrow> bytes" where
  "utf8_char c =
     (if c < 0x80 then [byte_of c]
      else if c < 0x800 then [byte_of (192 + c div 64), byte_of (128 + c mod 64)]
      else if c < 0x10000 then
        [byte_of (224 + c div 4096), byte_of (128 + c div 64 mod 64), byte_of (128 + c mod 64)]
      else
        [byte_of (240 + c div 262144), byte_of (128 + c div 4096 mod 64),
         byte_of (128 + c div 64 mod 64), byte_of (128 + c mod 64)])"

definition utf8 :: "ustr \<Rightarrow> bytes" where
  "utf8 s = concat (map utf8_char s)"

definition str_len :: "ustr \<Rightarrow> nat" where
  "str_len s = length (utf8 s)"

lemma utf8_simps [simp]:
  "utf8 [] = []" "utf8 (c # s) = utf8_char c @ utf8 s" "utf8 (s @ t) = utf8 s @ utf8 t"
  by (simp_all add: utf8_def)

lemma utf8_char_length: "0 < length (utf8_char c) \<and> length (utf8_char c) \<le> 4"
  by (simp add: utf8_char_def)

lemma utf8_char_nonempty [simp]: "utf8_char c \<noteq> []"
  using utf8_char_length [of c] by auto

section \<open>Decoding\<close>

definition is_cont :: "byte \<Rightarrow> bool" where
  "is_cont b \<longleftrightarrow> 128 \<le> unat b \<and> unat b < 192"

lemma is_cont_less: "is_cont b \<Longrightarrow> unat b - 128 < 64"
  unfolding is_cont_def by linarith

text \<open>One character off the front: \<open>None\<close> where the bytes do not start with one.\<close>

fun utf8_step :: "bytes \<Rightarrow> (uchar \<times> bytes) option" where
  "utf8_step [] = None"
| "utf8_step (b # bs) =
     (if unat b < 0x80 then Some (unat b, bs)
      else if unat b < 192 then None
      else if unat b < 224 then
        (case bs of
           b1 # r \<Rightarrow>
             let c = (unat b - 192) * 64 + (unat b1 - 128)
             in if is_cont b1 \<and> 0x80 \<le> c then Some (c, r) else None
         | _ \<Rightarrow> None)
      else if unat b < 240 then
        (case bs of
           b1 # b2 # r \<Rightarrow>
             let c = (unat b - 224) * 4096 + (unat b1 - 128) * 64 + (unat b2 - 128)
             in if is_cont b1 \<and> is_cont b2 \<and> 0x800 \<le> c \<and> is_scalar c then Some (c, r) else None
         | _ \<Rightarrow> None)
      else if unat b < 248 then
        (case bs of
           b1 # b2 # b3 # r \<Rightarrow>
             let c = (unat b - 240) * 262144 + (unat b1 - 128) * 4096 + (unat b2 - 128) * 64
                   + (unat b3 - 128)
             in if is_cont b1 \<and> is_cont b2 \<and> is_cont b3 \<and> 0x10000 \<le> c \<and> is_scalar c
                then Some (c, r) else None
         | _ \<Rightarrow> None)
      else None)"

declare utf8_step.simps(2) [simp del]

lemma utf8_step_char:
  assumes "is_scalar c"
  shows "utf8_step (utf8_char c @ r) = Some (c, r)"
proof -
  have le: "c < 0x110000" using assms by (auto simp: is_scalar_def)
  have d1: "c div 64 * 64 + c mod 64 = c" by simp
  have e: "c div 4096 = c div 64 div 64" "c div 262144 = c div 4096 div 64"
    by (simp_all flip: div_mult2_eq)
  have "c div 4096 * 64 + c div 64 mod 64 = c div 64" unfolding e(1) by simp
  then have d2: "c div 4096 * 4096 + c div 64 mod 64 * 64 + c mod 64 = c" using d1 by linarith
  have "c div 262144 * 64 + c div 4096 mod 64 = c div 4096" unfolding e(2) by simp
  then have d3: "c div 262144 * 262144 + c div 4096 mod 64 * 4096
      + c div 64 mod 64 * 64 + c mod 64 = c"
    using d2 by linarith
  have s: "c mod 64 < 64" "c div 64 mod 64 < 64" "c div 4096 mod 64 < 64" by simp_all
  consider "c < 0x80" | "0x80 \<le> c" "c < 0x800" | "0x800 \<le> c" "c < 0x10000" | "0x10000 \<le> c"
    by linarith
  then show ?thesis
  proof cases
    case 1
    then show ?thesis by (simp add: utf8_char_def utf8_step.simps)
  next
    case 2
    define q m where "q = c div 64" and "m = c mod 64"
    have q: "q < 32" "2 \<le> q" using 2 by (simp_all add: q_def)
    have m: "m < 64" and c: "q * 64 + m = c" using s d1 by (simp_all add: q_def m_def)
    have "utf8_char c = [byte_of (192 + q), byte_of (128 + m)]"
      using 2 by (simp add: utf8_char_def q_def m_def)
    moreover have "128 \<le> q * 64 + m" using q(2) by linarith
    ultimately show ?thesis using q m c by (simp add: utf8_step.simps is_cont_def)
  next
    case 3
    then have "c div 4096 < 16" by simp
    with 3 s d2 assms show ?thesis
      by (simp add: utf8_char_def utf8_step.simps is_cont_def)
  next
    case 4
    then have "c div 262144 < 8" using le by simp
    with 4 s d3 assms show ?thesis
      by (simp add: utf8_char_def utf8_step.simps is_cont_def)
  qed
qed

lemma is_contE:
  assumes "is_cont b" obtains x where "x < 64" "b = byte_of (128 + x)" "unat b = 128 + x"
proof (rule that [of "unat b - 128"])
  have "128 \<le> unat b" using assms by (simp add: is_cont_def)
  then show "b = byte_of (128 + (unat b - 128))" "unat b = 128 + (unat b - 128)" by simp_all
qed (rule is_cont_less [OF assms])

lemma lead_byteE:
  assumes "k \<le> unat b" obtains x where "b = byte_of (k + x)" "unat b = k + x"
proof (rule that [of "unat b - k"])
  show "b = byte_of (k + (unat b - k))" "unat b = k + (unat b - k)" using assms by simp_all
qed

lemma div_mod_64:
  fixes q m :: nat
  shows "m < 64 \<Longrightarrow> (q * 64 + m) div 64 = q" "m < 64 \<Longrightarrow> (q * 64 + m) mod 64 = m"
  by simp_all

lemma utf8_step_sound:
  assumes "utf8_step bs = Some (c, r)"
  shows "is_scalar c \<and> bs = utf8_char c @ r"
proof -
  obtain b bs' where bs: "bs = b # bs'" using assms by (cases bs) auto
  note assms' = assms [unfolded bs utf8_step.simps]
  consider "unat b < 0x80" | "192 \<le> unat b" "unat b < 224" | "224 \<le> unat b" "unat b < 240"
    | "240 \<le> unat b" "unat b < 248"
    using assms' by (simp split: if_splits)
  then show ?thesis
  proof cases
    case 1
    then show ?thesis using assms' by (auto simp: bs is_scalar_def utf8_char_def)
  next
    case 2
    obtain x where x: "b = byte_of (192 + x)" "unat b = 192 + x" using 2(1) by (rule lead_byteE)
    then obtain b1 where b1: "bs' = b1 # r" "is_cont b1" "0x80 \<le> c"
      and c: "c = x * 64 + (unat b1 - 128)"
      using assms' 2 by (auto simp: Let_def split: list.splits if_splits)
    obtain y where y: "y < 64" "b1 = byte_of (128 + y)" "unat b1 = 128 + y"
      using b1(2) by (rule is_contE)
    have "c = x * 64 + y" "x < 32" using c x y 2 by simp_all
    then show ?thesis using b1 x y div_mod_64 [of y x]
      by (auto simp: bs utf8_char_def is_scalar_def)
  next
    case 3
    obtain x where x: "b = byte_of (224 + x)" "unat b = 224 + x" using 3(1) by (rule lead_byteE)
    then obtain b1 b2 where b: "bs' = b1 # b2 # r" "is_cont b1" "is_cont b2" "0x800 \<le> c"
        "is_scalar c"
      and c: "c = x * 4096 + (unat b1 - 128) * 64 + (unat b2 - 128)"
      using assms' 3 by (auto simp: Let_def split: list.splits if_splits)
    obtain y where y: "y < 64" "b1 = byte_of (128 + y)" "unat b1 = 128 + y"
      using b(2) by (rule is_contE)
    obtain z where z: "z < 64" "b2 = byte_of (128 + z)" "unat b2 = 128 + z"
      using b(3) by (rule is_contE)
    have c': "c = (x * 64 + y) * 64 + z" "x < 16" using c x y z 3 by simp_all
    note d = div_mod_64 [OF z(1), of "x * 64 + y"] div_mod_64 [OF y(1), of x]
    have "c div 4096 = c div 64 div 64" by (simp flip: div_mult2_eq)
    moreover have "c div 64 = x * 64 + y" "c mod 64 = z" unfolding c'(1) by (fact d)+
    ultimately have "c div 4096 = x" "c div 64 mod 64 = y" "c mod 64 = z" using d by simp_all
    moreover have "c < 0x10000" using c' y(1) z(1) by simp
    ultimately show ?thesis using b x y z by (simp add: bs utf8_char_def)
  next
    case 4
    obtain x where x: "b = byte_of (240 + x)" "unat b = 240 + x" using 4(1) by (rule lead_byteE)
    then obtain b1 b2 b3 where b: "bs' = b1 # b2 # b3 # r" "is_cont b1" "is_cont b2" "is_cont b3"
        "0x10000 \<le> c" "is_scalar c"
      and c: "c = x * 262144 + (unat b1 - 128) * 4096 + (unat b2 - 128) * 64 + (unat b3 - 128)"
      using assms' 4 by (auto simp: Let_def split: list.splits if_splits)
    obtain y where y: "y < 64" "b1 = byte_of (128 + y)" "unat b1 = 128 + y"
      using b(2) by (rule is_contE)
    obtain z where z: "z < 64" "b2 = byte_of (128 + z)" "unat b2 = 128 + z"
      using b(3) by (rule is_contE)
    obtain w where w: "w < 64" "b3 = byte_of (128 + w)" "unat b3 = 128 + w"
      using b(4) by (rule is_contE)
    have c': "c = ((x * 64 + y) * 64 + z) * 64 + w" using c x y z w by simp
    note d = div_mod_64 [OF w(1), of "(x * 64 + y) * 64 + z"]
      div_mod_64 [OF z(1), of "x * 64 + y"] div_mod_64 [OF y(1), of x]
    have e: "c div 4096 = c div 64 div 64" "c div 262144 = c div 64 div 64 div 64"
      by (simp_all flip: div_mult2_eq)
    have "c div 64 = (x * 64 + y) * 64 + z" "c mod 64 = w" unfolding c' by (fact d)+
    then have "c div 262144 = x" "c div 4096 mod 64 = y" "c div 64 mod 64 = z" "c mod 64 = w"
      using d by (simp_all only: e)
    then show ?thesis using b x y z w by (simp add: bs utf8_char_def)
  qed
qed

lemma utf8_step_shorter: "utf8_step bs = Some (c, r) \<Longrightarrow> length r < length bs"
  using utf8_step_sound [of bs c r] utf8_char_length [of c] by simp

function from_utf8 :: "bytes \<Rightarrow> ustr option" where
  "from_utf8 bs =
     (if bs = [] then Some []
      else case utf8_step bs of
        None \<Rightarrow> None
      | Some (c, r) \<Rightarrow> map_option ((#) c) (from_utf8 r))"
  by pat_completeness auto
termination
  by (relation "measure length") (auto dest: utf8_step_shorter)

declare from_utf8.simps [simp del]

lemma from_utf8_Nil [simp]: "from_utf8 [] = Some []"
  by (simp add: from_utf8.simps)

lemma from_utf8_char: "is_scalar c \<Longrightarrow> from_utf8 (utf8_char c @ r) = map_option ((#) c) (from_utf8 r)"
  by (simp add: from_utf8.simps [of "utf8_char c @ r"] utf8_step_char)

lemma from_utf8_utf8 [asli_wire]: "str_ok s \<Longrightarrow> from_utf8 (utf8 s) = Some s"
  by (induction s) (simp_all add: from_utf8_char)

lemma from_utf8_sound: "from_utf8 bs = Some s \<Longrightarrow> str_ok s \<and> utf8 s = bs"
proof (induction bs arbitrary: s rule: from_utf8.induct)
  case (1 bs)
  show ?case
  proof (cases "bs = []")
    case True
    with "1.prems" show ?thesis by simp
  next
    case False
    with "1.prems" obtain c r t where st: "utf8_step bs = Some (c, r)" "from_utf8 r = Some t"
      and s: "s = c # t"
      by (auto simp: from_utf8.simps [of bs] split: option.splits prod.splits)
    from "1.IH" [OF False st(1) refl st(2)] utf8_step_sound [OF st(1)] s
    show ?thesis by simp
  qed
qed

interpretation utf8_text: canonical_codec str_ok utf8 "\<lambda>bs. ok_or () (from_utf8 bs)"
  by unfold_locales (auto simp: from_utf8_utf8 dest: from_utf8_sound)

section \<open>Boundaries and slices\<close>

text \<open>
  \<open>str::is_char_boundary\<close>, and slicing a string up to a byte offset: \<open>None\<close> is the panic of a
  slice that would split a character.
\<close>

definition is_char_boundary :: "bytes \<Rightarrow> nat \<Rightarrow> bool" where
  "is_char_boundary bs i \<longleftrightarrow>
     i = 0 \<or> i = length bs \<or> (i < length bs \<and> \<not> is_cont (bs ! i))"

definition str_slice_to :: "ustr \<Rightarrow> nat \<Rightarrow> ustr option" where
  "str_slice_to s i =
     (if is_char_boundary (utf8 s) i then from_utf8 (take i (utf8 s)) else None)"

lemma utf8_char_bytes:
  assumes "is_scalar c"
  shows "\<exists>b r. utf8_char c = b # r \<and> \<not> is_cont b \<and> list_all is_cont r"
proof -
  have le: "c < 0x110000" using assms by (auto simp: is_scalar_def)
  consider "c < 0x80" | "0x80 \<le> c" "c < 0x800" | "0x800 \<le> c" "c < 0x10000" | "0x10000 \<le> c"
    by linarith
  then show ?thesis
  proof cases
    case 2
    then have "c div 64 < 32" by simp
    with 2 show ?thesis by (simp add: utf8_char_def is_cont_def)
  next
    case 3
    then have "c div 4096 < 16" by simp
    with 3 show ?thesis by (simp add: utf8_char_def is_cont_def)
  next
    case 4
    then have "c div 262144 < 8" using le by simp
    with 4 show ?thesis by (simp add: utf8_char_def is_cont_def)
  qed (simp add: utf8_char_def is_cont_def)
qed

lemma boundary_Cons:
  assumes "is_scalar c" "is_char_boundary (utf8_char c @ bs) i" "i \<noteq> 0"
  shows "length (utf8_char c) \<le> i"
proof (rule ccontr)
  assume lt: "\<not> ?thesis"
  obtain b r where c: "utf8_char c = b # r" "list_all is_cont r"
    using utf8_char_bytes [OF assms(1)] by blast
  from lt assms(3) c have "(utf8_char c @ bs) ! i = r ! (i - 1)" "i - 1 < length r"
    by (auto simp: nth_append nth_Cons split: nat.splits)
  then have "is_cont ((utf8_char c @ bs) ! i)" using c(2) by (simp add: list_all_length)
  with assms(2,3) lt show False by (auto simp: is_char_boundary_def)
qed

lemma boundary_iff:
  assumes "str_ok s"
  shows "is_char_boundary (utf8 s) i \<longleftrightarrow> (\<exists>n. i = length (utf8 (take n s)))"
proof
  show "is_char_boundary (utf8 s) i \<Longrightarrow> \<exists>n. i = length (utf8 (take n s))"
    using assms
  proof (induction s arbitrary: i)
    case Nil
    then show ?case by (simp add: is_char_boundary_def)
  next
    case (Cons c s)
    show ?case
    proof (cases "i = 0")
      case True
      then show ?thesis by (intro exI [of _ 0]) simp
    next
      case False
      let ?k = "length (utf8_char c)"
      have k: "?k \<le> i" using Cons.prems False boundary_Cons by simp
      have "is_char_boundary (utf8 s) (i - ?k)"
        using Cons.prems(1) k False by (auto simp: is_char_boundary_def nth_append)
      then obtain n where "i - ?k = length (utf8 (take n s))" using Cons by auto
      then have "i = length (utf8 (take (Suc n) (c # s)))" using k by simp
      then show ?thesis by blast
    qed
  qed
next
  assume "\<exists>n. i = length (utf8 (take n s))"
  then obtain n where i: "i = length (utf8 (take n s))" by blast
  have split: "utf8 s = utf8 (take n s) @ utf8 (drop n s)"
    by (metis append_take_drop_id utf8_simps(3))
  show "is_char_boundary (utf8 s) i"
  proof (cases "drop n s")
    case Nil
    then have "take n s = s" by simp
    then show ?thesis using i by (simp add: is_char_boundary_def)
  next
    case (Cons c t)
    then have "is_scalar c" using assms by (metis append_take_drop_id str_ok_simps(2,3))
    then obtain b r where "utf8_char c = b # r" "\<not> is_cont b" using utf8_char_bytes by blast
    then have u: "utf8 s = utf8 (take n s) @ b # (r @ utf8 t)"
      and b: "\<not> is_cont b" using split Cons by simp_all
    have "utf8 s ! i = b" by (simp only: u i nth_append_length)
    moreover have "i < length (utf8 s)" by (simp add: u i)
    ultimately have "utf8 s ! i = b" "i < length (utf8 s)" "\<not> is_cont b"
      using b by simp_all
    then show ?thesis by (simp add: is_char_boundary_def)
  qed
qed

lemma take_utf8_take: "take (length (utf8 (take n s))) (utf8 s) = utf8 (take n s)"
  by (metis append_eq_conv_conj append_take_drop_id utf8_simps(3))

lemma str_slice_to_take:
  "str_ok s \<Longrightarrow> str_slice_to s (length (utf8 (take n s))) = Some (take n s)"
  using boundary_iff [of s "length (utf8 (take n s))"]
  by (auto simp: str_slice_to_def take_utf8_take from_utf8_utf8 str_ok_take)

section \<open>Characters\<close>

text \<open>The \<open>White_Space\<close> property, control characters, and ASCII case.\<close>

definition is_whitespace :: "uchar \<Rightarrow> bool" where
  "is_whitespace c \<longleftrightarrow>
     (9 \<le> c \<and> c \<le> 13) \<or> c = 0x20 \<or> c = 0x85 \<or> c = 0xA0 \<or> c = 0x1680
     \<or> (0x2000 \<le> c \<and> c \<le> 0x200A) \<or> c = 0x2028 \<or> c = 0x2029 \<or> c = 0x202F
     \<or> c = 0x205F \<or> c = 0x3000"

definition is_control :: "uchar \<Rightarrow> bool" where
  "is_control c \<longleftrightarrow> c < 0x20 \<or> (0x7F \<le> c \<and> c \<le> 0x9F)"

definition to_ascii_uppercase :: "uchar \<Rightarrow> uchar" where
  "to_ascii_uppercase c = (if 97 \<le> c \<and> c \<le> 122 then c - 32 else c)"

definition eq_ignore_ascii_case :: "ustr \<Rightarrow> ustr \<Rightarrow> bool" where
  "eq_ignore_ascii_case a b \<longleftrightarrow> map to_ascii_uppercase a = map to_ascii_uppercase b"

definition trim_start :: "ustr \<Rightarrow> ustr" where
  "trim_start s = dropWhile is_whitespace s"

definition trim_end :: "ustr \<Rightarrow> ustr" where
  "trim_end s = rev (dropWhile is_whitespace (rev s))"

definition trim :: "ustr \<Rightarrow> ustr" where
  "trim s = trim_end (trim_start s)"

text \<open>String literals of the source, which are all ASCII.\<close>

definition ulit :: "string \<Rightarrow> ustr" where
  "ulit s = map of_char s"

lemma length_ulit [simp]: "length (ulit s) = length s"
  by (simp add: ulit_def)

lemma utf8_ascii: "list_all (\<lambda>c. c < 128) s \<Longrightarrow> utf8 s = map byte_of s"
  by (induction s) (simp_all add: utf8_char_def)

lemma str_len_ascii: "list_all (\<lambda>c. c < 128) s \<Longrightarrow> str_len s = length s"
  by (simp add: str_len_def utf8_ascii)

lemma str_ok_ascii: "list_all (\<lambda>c. c < 128) s \<Longrightarrow> str_ok s"
  by (induction s) (auto simp: is_scalar_def)

lemma trim_noop:
  assumes "s \<noteq> []" "\<not> is_whitespace (hd s)" "\<not> is_whitespace (last s)"
  shows "trim s = s"
proof -
  have "trim_start s = s" using assms by (cases s) (auto simp: trim_start_def)
  moreover have "dropWhile is_whitespace (rev s) = rev s"
    using assms by (cases "rev s") (auto simp: hd_rev)
  ultimately show ?thesis by (simp add: trim_def trim_end_def)
qed

lemma trim_ws_pad:
  assumes "list_all is_whitespace p" "list_all is_whitespace q"
  shows "trim (p @ s @ q) = trim s"
proof -
  have p: "dropWhile is_whitespace (p @ t) = dropWhile is_whitespace t" for t
    using assms(1) by (induction p) auto
  have q: "dropWhile is_whitespace (rev q @ t) = dropWhile is_whitespace t" for t
    using assms(2) by (induction q rule: rev_induct) auto
  show ?thesis
  proof (cases "dropWhile is_whitespace s = []")
    case True
    then have "dropWhile is_whitespace (s @ q) = []"
      using assms(2) by (auto simp: dropWhile_eq_Nil_conv list_all_iff)
    then show ?thesis
      by (simp only: trim_def trim_end_def trim_start_def p True)
  next
    case False
    then have "dropWhile is_whitespace (s @ q) = dropWhile is_whitespace s @ q"
      by (induction s) auto
    then show ?thesis by (simp add: trim_def trim_end_def trim_start_def p q)
  qed
qed

end
