(* ===== verification/Normalize.thy ===== *)
theory Normalize
  imports Utf8
begin

text \<open>
  Text normalization, \<open>crates/asli-core/src/normalize.rs\<close>: what is stripped from a clipboard
  text before it is hashed and sent, and the conversion back to a platform's line endings. The
  lemmas show that every platform's rendering of one text normalizes to that text, that no
  carriage return survives, and exactly when normalizing twice changes nothing.
\<close>

section \<open>The functions\<close>

datatype line_ending = Crlf | Lf

definition native :: "bool \<Rightarrow> line_ending" where
  "native cfg_windows = (if cfg_windows then Crlf else Lf)"

abbreviation BOM :: uchar where "BOM \<equiv> 0xFEFF"
abbreviation NUL :: uchar where "NUL \<equiv> 0"
abbreviation CR :: uchar where "CR \<equiv> 13"
abbreviation LF :: uchar where "LF \<equiv> 10"

definition strip_bom :: "ustr \<Rightarrow> ustr" where
  "strip_bom s = (case s of c # t \<Rightarrow> if c = BOM then t else s | [] \<Rightarrow> s)"

definition strip_nul :: "ustr \<Rightarrow> ustr" where
  "strip_nul s = (if s \<noteq> [] \<and> last s = NUL then butlast s else s)"

text \<open>The loop, and its look at the next character: the line feed of a pair is consumed.\<close>

definition skip_lf :: "ustr \<Rightarrow> ustr" where
  "skip_lf cs = (case cs of d # ds \<Rightarrow> if d = LF then ds else cs | [] \<Rightarrow> [])"

lemma skip_lf_length: "length (skip_lf cs) \<le> length cs"
  by (simp add: skip_lf_def split: list.split)

function fold_cr :: "ustr \<Rightarrow> ustr" where
  "fold_cr [] = []"
| "fold_cr (c # cs) = (if c = CR then LF # fold_cr (skip_lf cs) else c # fold_cr cs)"
  by pat_completeness auto
termination
  by (relation "measure length") (auto simp: le_imp_less_Suc skip_lf_length)

definition normalize :: "ustr \<Rightarrow> ustr" where
  "normalize input =
     (let text = strip_nul (strip_bom input)
      in if CR \<in> set text then fold_cr text else text)"

definition to_platform :: "ustr \<Rightarrow> line_ending \<Rightarrow> ustr" where
  "to_platform text ending =
     (case ending of
        Lf \<Rightarrow> text
      | Crlf \<Rightarrow> if LF \<in> set text then concat (map (\<lambda>c. if c = LF then [CR, LF] else [c]) text)
                else text)"

definition is_syncable :: "ustr \<Rightarrow> bool" where
  "is_syncable text \<longleftrightarrow> trim text \<noteq> []"

section \<open>Facts\<close>

lemma fold_cr_no_cr: "CR \<notin> set (fold_cr s)"
  by (induction s rule: fold_cr.induct) (simp_all split: if_splits)

lemma fold_cr_id: "CR \<notin> set s \<Longrightarrow> fold_cr s = s"
  by (induction s) auto

lemma skip_lf_ok: "str_ok cs \<Longrightarrow> str_ok (skip_lf cs)"
  by (cases cs) (simp_all add: skip_lf_def)

lemma is_scalar_LF: "is_scalar LF"
  by (simp add: is_scalar_def)

lemma fold_cr_ok: "str_ok s \<Longrightarrow> str_ok (fold_cr s)"
  by (induction s rule: fold_cr.induct) (simp_all add: is_scalar_LF skip_lf_ok split: if_splits)

lemma strip_ok: "str_ok s \<Longrightarrow> str_ok (strip_nul (strip_bom s))"
  by (auto simp: strip_nul_def strip_bom_def str_ok_def list_all_iff
      split: list.splits dest: in_set_butlastD)

lemma normalize_fold: "normalize s = fold_cr (strip_nul (strip_bom s))"
  by (simp add: normalize_def Let_def fold_cr_id)

lemma normalize_ok: "str_ok s \<Longrightarrow> str_ok (normalize s)"
  by (simp add: normalize_fold fold_cr_ok strip_ok)

lemma to_platform_crlf:
  "to_platform t Crlf = concat (map (\<lambda>c. if c = LF then [CR, LF] else [c]) t)"
proof (cases "LF \<in> set t")
  case False
  then have "concat (map (\<lambda>c. if c = LF then [CR, LF] else [c]) t) = t"
    by (induction t) auto
  with False show ?thesis by (simp add: to_platform_def)
qed (simp add: to_platform_def)

lemma fold_cr_crlf: "CR \<notin> set t \<Longrightarrow> fold_cr (to_platform t Crlf) = t"
  unfolding to_platform_crlf by (induction t) (auto simp: skip_lf_def)

lemma fold_cr_platform: "CR \<notin> set t \<Longrightarrow> fold_cr (to_platform t e) = t"
  by (cases e) (simp_all add: fold_cr_crlf fold_cr_id to_platform_def [of _ Lf])

text \<open>A reference definition: drop the carriage return of every pair, then map the lone ones.\<close>

fun drop_cr_of_pairs :: "ustr \<Rightarrow> ustr" where
  "drop_cr_of_pairs (c # d # s) =
     (if c = CR \<and> d = LF then LF # drop_cr_of_pairs s else c # drop_cr_of_pairs (d # s))"
| "drop_cr_of_pairs s = s"

lemma fold_cr_reference:
  "fold_cr s = map (\<lambda>c. if c = CR then LF else c) (drop_cr_of_pairs s)"
  by (induction s rule: drop_cr_of_pairs.induct) (auto simp: skip_lf_def)

text \<open>A text in the form the wire carries, which stripping leaves alone.\<close>

definition normal_text :: "ustr \<Rightarrow> bool" where
  "normal_text t \<longleftrightarrow> CR \<notin> set t \<and> (t = [] \<or> hd t \<noteq> BOM \<and> last t \<noteq> NUL)"

lemma normalize_normal: "normal_text t \<Longrightarrow> normalize t = t"
  by (cases t) (auto simp: normal_text_def normalize_fold strip_bom_def strip_nul_def fold_cr_id)

lemma normalize_id_iff: "normalize t = t \<longleftrightarrow> normal_text t"
proof
  assume eq: "normalize t = t"
  have nocr: "CR \<notin> set t" by (metis eq normalize_fold fold_cr_no_cr)
  have "length (fold_cr s) \<le> length s" for s
  proof (induction s rule: fold_cr.induct)
    case (2 c cs)
    then show ?case using skip_lf_length [of cs] by auto
  qed simp
  then have "length t \<le> length (strip_nul (strip_bom t))" by (metis eq normalize_fold)
  then have "t = [] \<or> hd t \<noteq> BOM \<and> last t \<noteq> NUL"
    by (cases t) (auto simp: strip_nul_def strip_bom_def split: if_splits)
  with nocr show "normal_text t" by (simp add: normal_text_def)
qed (rule normalize_normal)

lemma to_platform_ends:
  assumes "t \<noteq> []" "CR \<notin> set t"
  shows "to_platform t e \<noteq> []" "hd (to_platform t e) = BOM \<longleftrightarrow> hd t = BOM"
    "last (to_platform t e) = last t"
proof -
  show "to_platform t e \<noteq> []" using assms by (cases e) (auto simp: to_platform_def)
  show "hd (to_platform t e) = BOM \<longleftrightarrow> hd t = BOM"
    using assms by (cases e; cases t) (auto simp: to_platform_crlf to_platform_def [of _ Lf])
  show "last (to_platform t e) = last t"
  proof (cases e)
    case Crlf
    then show ?thesis using assms(1)
      by (cases t rule: rev_cases) (auto simp: to_platform_crlf)
  qed (simp add: to_platform_def)
qed

text \<open>
  Whatever a platform adds to a text it was handed, a leading mark, a trailing NUL or its own
  line endings, normalizing gives the text back.
\<close>

lemma normalize_decorated:
  assumes "normal_text t"
  shows "normalize ((if bom then [BOM] else []) @ to_platform t e @ (if nul then [NUL] else [])) = t"
proof (cases "t = []")
  case True
  then have "to_platform t e = []" by (cases e) (simp_all add: to_platform_def)
  with True show ?thesis by (auto simp: normalize_fold strip_bom_def strip_nul_def)
next
  case False
  let ?p = "to_platform t e"
  have t: "CR \<notin> set t" "hd t \<noteq> BOM" "last t \<noteq> NUL"
    using assms False by (simp_all add: normal_text_def)
  have p: "?p \<noteq> []" "hd ?p \<noteq> BOM" "last ?p \<noteq> NUL"
    using to_platform_ends [OF False t(1), of e] t by simp_all
  have "strip_bom ((if bom then [BOM] else []) @ ?p @ (if nul then [NUL] else []))
      = ?p @ (if nul then [NUL] else [])"
    using p by (cases ?p) (auto simp: strip_bom_def)
  moreover have "strip_nul (?p @ (if nul then [NUL] else [])) = ?p"
    using p by (auto simp: strip_nul_def)
  ultimately show ?thesis by (simp add: normalize_fold fold_cr_platform t)
qed

section \<open>Properties\<close>

text \<open>Two devices agree on a text whatever platform it was copied on: a text in the form the
  wire carries, written with the line endings of any platform and decorated with a byte order mark
  in front or a terminator behind, normalizes to the same text, so both hash the same bytes and an
  echo is recognised.\<close>

theorem normalize_platform_independent:
  assumes "normal_text t"
  shows "normalize ((if bom then [BOM] else []) @ to_platform t e @ (if nul then [NUL] else [])) = t"
  by (rule normalize_decorated [OF assms])

text \<open>Folding line endings in one pass is the two step definition: drop the carriage return of
  every pair, then turn the lone ones into line feeds; the result has no carriage return left, and
  a text the kernel of Rust would accept stays one.\<close>

theorem normalize_line_endings:
  "normalize s = map (\<lambda>c. if c = CR then LF else c) (drop_cr_of_pairs (strip_nul (strip_bom s)))
   \<and> CR \<notin> set (normalize s) \<and> (str_ok s \<longrightarrow> str_ok (normalize s))"
  by (simp add: normalize_fold fold_cr_reference [symmetric] fold_cr_no_cr fold_cr_ok strip_ok)

text \<open>Normalizing leaves a text alone exactly when it has no carriage return, no leading mark and
  no trailing NUL; as only one of each is stripped, normalizing twice is not normalizing once on a
  text with two marks or two terminators.\<close>

theorem normalize_fixpoints:
  "(normalize t = t \<longleftrightarrow> normal_text t)
   \<and> normalize (normalize [BOM, BOM, 97]) \<noteq> normalize [BOM, BOM, 97]
   \<and> normalize (normalize [97, NUL, NUL]) \<noteq> normalize [97, NUL, NUL]"
  using normalize_id_iff [of t] by (auto simp: normalize_def strip_bom_def strip_nul_def)

lemma normalize_platform_independent_witness:
  "normalize ([BOM] @ to_platform [97, LF, 98] Crlf @ [NUL]) = [97, LF, 98]"
  using normalize_platform_independent [of "[97, LF, 98]" True Crlf True]
  by (simp add: normal_text_def)

lemma normalize_line_endings_witness:
  "str_ok (normalize [97, CR, LF, CR, 98]) \<and> normalize [97, CR, LF, CR, 98] = [97, LF, LF, 98]"
  using normalize_line_endings [of "[97, CR, LF, CR, 98]"]
  by (simp add: str_ok_def is_scalar_def strip_bom_def strip_nul_def)

end
