(* ===== verification/Errors.thy ===== *)
theory Errors
  imports Utf8
begin

text \<open>
  The error type of the crypto crate, \<open>crates/asli-crypto/src/error.rs\<close>, with its messages.
\<close>

datatype error =
    Rng
  | TokenPrefix
  | TokenAlphabet
  | TokenLength
  | TokenVersion byte
  | TokenChecksum
  | FieldLength string nat nat
  | Seal
  | Open
  | InnerMalformed
  | InnerVersion byte
  | ContentTypeError byte
  | BadPublicKey
  | BadSignature
  | RoomBinding
  | NotUtf8
  | ChunkCount
  | ChunkMismatch
  | ChunkIncomplete
  | ChunkTooLarge
  | AnnounceField

text \<open>Decimal digits, as \<open>write!\<close> prints an unsigned integer.\<close>

fun decimal :: "nat \<Rightarrow> string" where
  "decimal n = (if n < 10 then [char_of (48 + n)] else decimal (n div 10) @ [char_of (48 + n mod 10)])"

declare decimal.simps [simp del]

fun display :: "error \<Rightarrow> string" where
  "display Rng = ''the operating system random number generator failed''"
| "display TokenPrefix = ''join token does not start with the expected prefix''"
| "display TokenAlphabet = ''join token contains invalid characters''"
| "display TokenLength = ''join token has the wrong length, it looks cut off''"
| "display (TokenVersion v) =
     ''join token format version '' @ decimal (unat v) @ '' is not supported''"
| "display TokenChecksum =
     ''join token checksum does not match, it looks mistyped or truncated''"
| "display (FieldLength field expected got) =
     ''field '' @ field @ '' expected '' @ decimal expected @ '' bytes, got '' @ decimal got"
| "display Seal = ''encryption failed''"
| "display Open = ''decryption failed''"
| "display InnerMalformed = ''decrypted payload is malformed''"
| "display (InnerVersion v) = ''payload version '' @ decimal (unat v) @ '' is not supported''"
| "display (ContentTypeError t) = ''content type '' @ decimal (unat t) @ '' is not supported''"
| "display BadPublicKey = ''invalid public key''"
| "display BadSignature = ''invalid signature''"
| "display RoomBinding = ''room id does not match the public key''"
| "display NotUtf8 = ''content is not valid UTF-8''"
| "display ChunkCount = ''chunk count is zero or beyond the supported maximum''"
| "display ChunkMismatch = ''a chunk did not belong to this message''"
| "display ChunkIncomplete = ''a chunk is missing, so nothing was reassembled''"
| "display ChunkTooLarge = ''the chunked payload exceeded the size cap''"
| "display AnnounceField =
     ''a device name or operating system is longer than an announcement allows''"

end
