(* ===== verification/Primitives.thy ===== *)
theory Primitives
  imports Errors
begin

text \<open>
  The cryptography the program calls and does not implement, as a record of functions that every
  definition using it takes as an argument: SHA-256, HKDF, XChaCha20-Poly1305, Ed25519 and X25519.
  What the program relies on of them is stated here as named predicates, which properties take as
  hypotheses, and a concrete record satisfies them, for the witnesses. Fresh random bytes are an
  argument too, \<open>None\<close> where the operating system's generator fails.
\<close>

record prims =
  p_sha256 :: "bytes \<Rightarrow> bytes"
  p_hkdf_extract :: "bytes \<Rightarrow> bytes \<Rightarrow> bytes"
  p_hkdf_expand :: "bytes \<Rightarrow> bytes \<Rightarrow> nat \<Rightarrow> bytes"
  p_aead_seal :: "bytes \<Rightarrow> bytes \<Rightarrow> bytes \<Rightarrow> bytes \<Rightarrow> bytes option"
  p_aead_open :: "bytes \<Rightarrow> bytes \<Rightarrow> bytes \<Rightarrow> bytes \<Rightarrow> bytes option"
  p_ed_pub :: "bytes \<Rightarrow> bytes"
  p_ed_sign :: "bytes \<Rightarrow> bytes \<Rightarrow> bytes"
  p_ed_key_ok :: "bytes \<Rightarrow> bool"
  p_ed_verify_strict :: "bytes \<Rightarrow> bytes \<Rightarrow> bytes \<Rightarrow> bool"
  p_x_pub :: "bytes \<Rightarrow> bytes"
  p_x_dh :: "bytes \<Rightarrow> bytes \<Rightarrow> bytes"
  p_x_contributory :: "bytes \<Rightarrow> bytes \<Rightarrow> bool"

type_synonym rand = "bytes option"

section \<open>What is relied on\<close>

text \<open>Opening what was sealed, under the same key, nonce and associated data, gives it back.\<close>

definition aead_ok :: "prims \<Rightarrow> bool" where
  "aead_ok P \<longleftrightarrow> (\<forall>k n a p c. p_aead_seal P k n a p = Some c \<longrightarrow> p_aead_open P k n a c = Some p)"

text \<open>Sealing appends a sixteen byte tag.\<close>

definition aead_tagged :: "prims \<Rightarrow> bool" where
  "aead_tagged P \<longleftrightarrow> (\<forall>k n a p c. p_aead_seal P k n a p = Some c \<longrightarrow> length c = length p + 16)"

text \<open>Encryption fails only for messages longer than 256 GiB.\<close>

definition always_seals :: "prims \<Rightarrow> bool" where
  "always_seals P \<longleftrightarrow> (\<forall>k n a p. length p < 2 ^ 32 \<longrightarrow> p_aead_seal P k n a p \<noteq> None)"

text \<open>A ciphertext opens under nothing but the key, nonce and associated data it was made with.\<close>

definition aead_bound :: "prims \<Rightarrow> bytes \<Rightarrow> bytes \<Rightarrow> bytes \<Rightarrow> bytes \<Rightarrow> bool" where
  "aead_bound P c k n a \<longleftrightarrow>
     (\<forall>k' n' a' p. p_aead_open P k' n' a' c = Some p \<longrightarrow> k' = k \<and> n' = n \<and> a' = a)"

text \<open>A public key made from a seed is a valid encoding of 32 bytes, a signature has 64 bytes, and
  a signature made with a seed verifies under its public key.\<close>

definition sig_ok :: "prims \<Rightarrow> bool" where
  "sig_ok P \<longleftrightarrow>
     (\<forall>s. length (p_ed_pub P s) = 32 \<and> p_ed_key_ok P (p_ed_pub P s))
     \<and> (\<forall>s m. length (p_ed_sign P s m) = 64
          \<and> p_ed_verify_strict P (p_ed_pub P s) m (p_ed_sign P s m))"

text \<open>A signature verifies under no key and for no message but those it was made with.\<close>

definition sig_bound :: "prims \<Rightarrow> bytes \<Rightarrow> bytes \<Rightarrow> bytes \<Rightarrow> bool" where
  "sig_bound P g k m \<longleftrightarrow> (\<forall>k' m'. p_ed_verify_strict P k' m' g \<longrightarrow> k' = k \<and> m' = m)"

text \<open>The two sides of a key agreement compute the same value.\<close>

definition dh_ok :: "prims \<Rightarrow> bool" where
  "dh_ok P \<longleftrightarrow>
     (\<forall>a b. p_x_dh P a (p_x_pub P b) = p_x_dh P b (p_x_pub P a)
       \<and> length (p_x_pub P a) = 32
       \<and> p_x_contributory P a (p_x_pub P b))"

definition hash_ok :: "prims \<Rightarrow> bool" where
  "hash_ok P \<longleftrightarrow> (\<forall>m. length (p_sha256 P m) = 32)
     \<and> (\<forall>s k. length (p_hkdf_extract P s k) = 32)
     \<and> (\<forall>k i n. length (p_hkdf_expand P k i n) = n)"

lemma aead_okD: "aead_ok P \<Longrightarrow> p_aead_seal P k n a p = Some c \<Longrightarrow> p_aead_open P k n a c = Some p"
  by (simp add: aead_ok_def)

lemma aead_taggedD: "aead_tagged P \<Longrightarrow> p_aead_seal P k n a p = Some c \<Longrightarrow> length c = length p + 16"
  by (simp add: aead_tagged_def)

lemma aead_boundD:
  "aead_bound P c k n a \<Longrightarrow> p_aead_open P k' n' a' c = Some p \<Longrightarrow> k' = k \<and> n' = n \<and> a' = a"
  unfolding aead_bound_def by blast

lemma sig_boundD: "sig_bound P g k m \<Longrightarrow> p_ed_verify_strict P k' m' g \<Longrightarrow> k' = k \<and> m' = m"
  unfolding sig_bound_def by blast

lemma sig_okD:
  assumes "sig_ok P"
  shows "length (p_ed_pub P s) = 32" "p_ed_key_ok P (p_ed_pub P s)"
    "length (p_ed_sign P s m) = 64" "p_ed_verify_strict P (p_ed_pub P s) m (p_ed_sign P s m)"
  using assms by (simp_all add: sig_ok_def)

lemma dh_okD:
  assumes "dh_ok P"
  shows "p_x_dh P a (p_x_pub P b) = p_x_dh P b (p_x_pub P a)" "length (p_x_pub P a) = 32"
    "p_x_contributory P a (p_x_pub P b)"
  using assms unfolding dh_ok_def by blast+

lemma hash_okD:
  assumes "hash_ok P"
  shows "length (p_sha256 P m) = 32" "length (p_hkdf_extract P s k) = 32"
    "length (p_hkdf_expand P k i n) = n"
  using assms by (simp_all add: hash_ok_def)

section \<open>Random bytes\<close>

text \<open>\<open>random::bytes\<close>: the bytes drawn, or the error.\<close>

definition random_bytes :: "rand \<Rightarrow> error + bytes" where
  "random_bytes r = ok_or Rng r"

lemma random_bytes_simps [simp]:
  "random_bytes None = Inl Rng" "random_bytes (Some b) = Inr b"
  by (simp_all add: random_bytes_def)

lemma random_bytes_Inr_iff [simp]: "random_bytes r = Inr b \<longleftrightarrow> r = Some b"
  by (simp add: random_bytes_def)

section \<open>A concrete instance\<close>

text \<open>
  Functions with the laws and no security: they show the hypotheses can hold together, and give
  the witnesses something to compute with. The tag is a checksum of the key, the nonce and the
  associated data; a public key is its seed; both sides of an agreement add their bytes.
\<close>

definition pad_to :: "nat \<Rightarrow> bytes \<Rightarrow> bytes" where
  "pad_to n bs = take n (bs @ replicate n 0)"

lemma length_pad_to [simp]: "length (pad_to n bs) = n"
  by (simp add: pad_to_def)

definition toy_tag :: "bytes \<Rightarrow> bytes \<Rightarrow> bytes \<Rightarrow> bytes" where
  "toy_tag k n a = replicate 15 0 @ [sum_list k + 3 * sum_list n + 5 * sum_list a]"

definition toy_prims :: prims where
  "toy_prims =
     \<lparr>p_sha256 = (\<lambda>m. pad_to 32 [sum_list m, byte_of (length m)]),
      p_hkdf_extract = (\<lambda>s k. pad_to 32 k),
      p_hkdf_expand = (\<lambda>k i n. pad_to n (sum_list i # k)),
      p_aead_seal = (\<lambda>k n a p. Some (p @ toy_tag k n a)),
      p_aead_open = (\<lambda>k n a c.
        if length c \<ge> 16 \<and> drop (length c - 16) c = toy_tag k n a
        then Some (take (length c - 16) c) else None),
      p_ed_pub = pad_to 32,
      p_ed_sign = (\<lambda>s m. pad_to 64 (sum_list m # pad_to 32 s)),
      p_ed_key_ok = (\<lambda>k. True),
      p_ed_verify_strict = (\<lambda>k m g. g = pad_to 64 (sum_list m # pad_to 32 k)),
      p_x_pub = pad_to 32,
      p_x_dh = (\<lambda>a b. map2 (+) (pad_to 32 a) (pad_to 32 b)),
      p_x_contributory = (\<lambda>a b. True)\<rparr>"

text \<open>A verifier that accepts one signature only, for one key and message.\<close>

definition one_sig :: "bytes \<Rightarrow> bytes \<Rightarrow> bytes \<Rightarrow> prims" where
  "one_sig k m g = toy_prims\<lparr>p_ed_verify_strict := \<lambda>k' m' g'. k' = k \<and> m' = m \<and> g' = g\<rparr>"

lemma one_sig_bound: "sig_bound (one_sig k m g) g k m"
  by (simp add: sig_bound_def one_sig_def)

lemma length_toy_tag [simp]: "length (toy_tag k n a) = 16"
  by (simp add: toy_tag_def)

lemma pad_to_pad_to [simp]: "pad_to n (pad_to n bs) = pad_to n bs"
  by (simp add: pad_to_def)

lemma map2_add_commute: "map2 (+) xs ys = map2 (+) ys (xs :: 'a::ab_semigroup_add list)"
proof (induction xs arbitrary: ys)
  case Nil
  then show ?case by simp
next
  case (Cons x xs)
  show ?case using Cons.IH by (cases ys) (simp_all add: add.commute)
qed

lemma toy_ok:
  "aead_ok toy_prims" "aead_tagged toy_prims" "sig_ok toy_prims" "dh_ok toy_prims"
  "hash_ok toy_prims"
  by (simp_all add: aead_ok_def aead_tagged_def sig_ok_def dh_ok_def hash_ok_def toy_prims_def)
     (metis map2_add_commute)

end
