(* ===== verification/Base32.thy ===== *)
theory Base32
  imports Errors
begin

text \<open>
  Crockford base32, \<open>crates/asli-crypto/src/base32.rs\<close>: the encoder and the tolerant decoder,
  with the sixteen bit buffer and the bit counter of the source. The lemmas read both as
  rearrangements of one stream of bits: the encoder cuts the bits of the bytes into fives and pads
  with zeros, the decoder cuts the bits of the symbols into eights and demands that what is left
  over is zero.
\<close>

unbundle bit_operations_syntax

section \<open>Encoding\<close>

definition ALPHABET :: ustr where
  "ALPHABET = ulit ''0123456789ABCDEFGHJKMNPQRSTVWXYZ''"

definition symbol :: "u16 \<Rightarrow> uchar" where
  "symbol index = ALPHABET ! unat index"

text \<open>The inner loop: symbols are taken off the top of the buffer while five bits are there.\<close>

function enc_drain :: "u16 \<Rightarrow> nat \<Rightarrow> ustr \<times> nat" where
  "enc_drain buffer bits =
     (if 5 \<le> bits then
        (let bits' = bits - 5; (out, left) = enc_drain buffer bits'
         in (symbol (drop_bit bits' buffer AND 0x1f) # out, left))
      else ([], bits))"
  by pat_completeness auto
termination
  by (relation "measure snd") auto

declare enc_drain.simps [simp del]

fun enc_loop :: "u16 \<Rightarrow> nat \<Rightarrow> bytes \<Rightarrow> ustr" where
  "enc_loop buffer bits [] =
     (if 0 < bits then [symbol (push_bit (5 - bits) buffer AND 0x1f)] else [])"
| "enc_loop buffer bits (b # bs) =
     (let buffer' = push_bit 8 buffer OR ucast b;
          (out, bits') = enc_drain buffer' (bits + 8)
      in out @ enc_loop buffer' bits' bs)"

definition base32_encode :: "bytes \<Rightarrow> ustr" where
  "base32_encode input = enc_loop 0 0 input"

section \<open>Decoding\<close>

definition symbol_value :: "uchar \<Rightarrow> error + byte" where
  "symbol_value ch =
     (let upper = to_ascii_uppercase ch
      in if upper = 48 \<or> upper = 79 then Inr 0
         else if upper = 49 \<or> upper = 73 \<or> upper = 76 then Inr 1
         else if 50 \<le> upper \<and> upper \<le> 57 then Inr (byte_of (upper - 48))
         else if 65 \<le> upper \<and> upper \<le> 72 then Inr (byte_of (upper - 65 + 10))
         else if upper = 74 \<or> upper = 75 then Inr (byte_of (upper - 74 + 18))
         else if upper = 77 \<or> upper = 78 then Inr (byte_of (upper - 77 + 20))
         else if 80 \<le> upper \<and> upper \<le> 84 then Inr (byte_of (upper - 80 + 22))
         else if 86 \<le> upper \<and> upper \<le> 90 then Inr (byte_of (upper - 86 + 27))
         else Inl TokenAlphabet)"

fun dec_loop :: "u16 \<Rightarrow> nat \<Rightarrow> ustr \<Rightarrow> error + bytes" where
  "dec_loop buffer bits [] =
     (if 0 < bits \<and> buffer AND (push_bit bits 1 - 1) \<noteq> 0 then Inl TokenLength else Inr [])"
| "dec_loop buffer bits (ch # chs) =
     (if ch = 45 then dec_loop buffer bits chs
      else ebind (symbol_value ch) (\<lambda>v.
        let buffer' = push_bit 5 buffer OR ucast v; bits' = bits + 5
        in if 8 \<le> bits' then
             ebind (dec_loop buffer' (bits' - 8) chs) (\<lambda>out.
               Inr (ucast (drop_bit (bits' - 8) buffer' AND 0xff) # out))
           else dec_loop buffer' bits' chs))"

definition base32_decode :: "ustr \<Rightarrow> error + bytes" where
  "base32_decode input = dec_loop 0 0 input"

section \<open>Streams of bits\<close>

definition wbits :: "nat \<Rightarrow> 'a::len word \<Rightarrow> bool list" where
  "wbits n w = map (bit w) (rev [0..<n])"

lemma length_wbits [simp]: "length (wbits n w) = n"
  by (simp add: wbits_def)

lemma wbits_0 [simp]: "wbits 0 w = []"
  by (simp add: wbits_def)

lemma nth_wbits: "i < n \<Longrightarrow> wbits n w ! i = bit w (n - 1 - i)"
  by (simp add: wbits_def rev_nth)

lemma wbits_eqI: "(\<And>i. i < n \<Longrightarrow> bit v i = bit w i) \<Longrightarrow> wbits n v = wbits n w"
  by (simp add: wbits_def)

lemma wbits_split: "wbits (m + n) w = wbits m (drop_bit n w) @ wbits n w"
  by (rule nth_equalityI) (auto simp: nth_wbits nth_append bit_drop_bit_eq algebra_simps)

lemma wbits_mask5 [simp]: "wbits 5 ((w :: u16) AND 0x1f) = wbits 5 w"
proof (rule wbits_eqI)
  fix i :: nat assume "i < 5"
  then have "i \<in> {0,1,2,3,4}" by auto
  then show "bit (w AND 0x1f) i = bit w i" by (auto simp: bit_simps)
qed

lemma wbits_mask8 [simp]: "wbits 8 ((w :: u16) AND 0xff) = wbits 8 w"
proof (rule wbits_eqI)
  fix i :: nat assume "i < 8"
  then have "i \<in> {0,1,2,3,4,5,6,7}" by auto
  then show "bit (w AND 0xff) i = bit w i" by (auto simp: bit_simps)
qed

lemma wbits_shift_or:
  fixes buffer :: u16 and v :: byte
  assumes "k + n \<le> 16" "n \<le> 8"
    and "\<And>i. n \<le> i \<Longrightarrow> \<not> bit v i"
  shows "wbits (k + n) (push_bit n buffer OR ucast v) = wbits k buffer @ wbits n v"
  by (rule nth_equalityI)
     (use assms in \<open>auto simp: nth_wbits nth_append bit_simps algebra_simps\<close>)

lemma wbits_ucast_byte: "wbits 8 (ucast (w :: u16) :: byte) = wbits 8 w"
  by (rule wbits_eqI) (simp add: bit_simps)

lemma wbits8_inject: "wbits 8 v = wbits 8 w \<longleftrightarrow> v = (w :: byte)"
proof
  assume eq: "wbits 8 v = wbits 8 w"
  show "v = w"
  proof (rule bit_word_eqI)
    fix i assume "i < LENGTH(8)"
    then have "i < 8" by simp
    then show "bit v i = bit w i"
      using arg_cong [OF eq, of "\<lambda>l. l ! (7 - i)"] by (simp add: nth_wbits)
  qed
qed simp

lemma byte_stream_inject:
  "concat (map (wbits 8) bs) @ u = concat (map (wbits 8) cs) @ v \<Longrightarrow> length bs = length cs \<Longrightarrow>
    bs = (cs :: bytes) \<and> u = v"
proof (induction bs arbitrary: cs)
  case (Cons b bs)
  then obtain c ds where cs: "cs = c # ds" by (cases cs) auto
  with Cons.prems have "wbits 8 b = wbits 8 c"
    "concat (map (wbits 8) bs) @ u = concat (map (wbits 8) ds) @ v" by auto
  then show ?case using Cons.IH [of ds] Cons.prems(2) cs by (simp add: wbits8_inject)
qed simp

lemma length_stream [simp]: "length (concat (map (wbits n) ws)) = n * length ws"
  by (induction ws) simp_all

section \<open>The alphabet\<close>

text \<open>The value a symbol has, where it has one, as a number below 32.\<close>

lemma alphabet_values:
  "\<forall>n\<in>set [0..<32]. symbol_value (ALPHABET ! n) = Inr (byte_of n) \<and> ALPHABET ! n \<noteq> 45"
  unfolding ALPHABET_def ulit_def
  by (simp add: upt_rec symbol_value_def to_ascii_uppercase_def byte_of_def)

lemma symbol_value_symbol:
  assumes "unat i < 32"
  shows "symbol_value (symbol i) = Inr (ucast i)" "symbol i \<noteq> 45"
proof -
  have "ucast i = byte_of (unat i)"
    by (simp add: byte_of_def)
  then show "symbol_value (symbol i) = Inr (ucast i)" "symbol i \<noteq> 45"
    using alphabet_values assms unfolding symbol_def by auto
qed

lemma symbol_value_small: "symbol_value ch = Inr v \<Longrightarrow> unat v < 32"
  by (auto simp: symbol_value_def Let_def split: if_splits)

lemma small_no_high_bits:
  assumes "unat (v :: byte) < 32" "5 \<le> i"
  shows "\<not> bit v i"
proof -
  have "(32::nat) \<le> 2 ^ i" using assms(2) power_increasing [of 5 i "2::nat"] by simp
  then have "unat v < 2 ^ i" using assms(1) by linarith
  then have "\<not> bit (unat v) i" by (simp add: bit_iff_odd)
  then show ?thesis by (simp add: bit_unsigned_iff)
qed

section \<open>The encoder cuts the bits into fives\<close>

definition fives :: "u16 list \<Rightarrow> bool list" where
  "fives is = concat (map (wbits 5) is)"

definition eights :: "bytes \<Rightarrow> bool list" where
  "eights bs = concat (map (wbits 8) bs)"

lemma unat_mask5: "unat ((w :: u16) AND 0x1f) < 32"
proof -
  have "w AND 0x1f = take_bit 5 w" by (simp add: take_bit_eq_mask mask_numeral)
  then show ?thesis using take_bit_nat_less_exp [of 5 "unat w"] by (simp add: unsigned_take_bit_eq)
qed

lemma enc_drain_fives:
  "\<exists>is. enc_drain buffer bits = (map symbol is, bits mod 5) \<and> (\<forall>i \<in> set is. unat i < 32)
    \<and> fives is @ wbits (bits mod 5) buffer = wbits bits buffer"
proof (induction buffer bits rule: enc_drain.induct)
  case (1 buffer bits)
  show ?case
  proof (cases "5 \<le> bits")
    case False
    then show ?thesis
      by (intro exI [of _ "[]"]) (simp add: enc_drain.simps [of buffer bits] fives_def)
  next
    case True
    then obtain "is" where IH: "enc_drain buffer (bits - 5) = (map symbol is, (bits - 5) mod 5)"
      "\<forall>i \<in> set is. unat i < 32"
      "fives is @ wbits ((bits - 5) mod 5) buffer = wbits (bits - 5) buffer"
      using 1 [OF True refl] by blast
    have "(bits - 5) mod 5 = bits mod 5" using True by (metis le_mod_geq)
    moreover have "wbits bits buffer = wbits 5 (drop_bit (bits - 5) buffer) @ wbits (bits - 5) buffer"
      using True wbits_split [of 5 "bits - 5" buffer] by simp
    ultimately show ?thesis using True IH unat_mask5 [of "drop_bit (bits - 5) buffer"]
      by (intro exI [of _ "(drop_bit (bits - 5) buffer AND 0x1f) # is"])
         (simp add: enc_drain.simps [of buffer bits] fives_def)
  qed
qed

lemma enc_loop_fives:
  "bits < 5 \<Longrightarrow> \<exists>is p. enc_loop buffer bits bs = map symbol is \<and> (\<forall>i \<in> set is. unat i < 32) \<and> p < 5
    \<and> fives is = wbits bits buffer @ eights bs @ replicate p False"
proof (induction bs arbitrary: buffer bits)
  case Nil
  show ?case
  proof (cases "0 < bits")
    case True
    have "wbits 5 (push_bit (5 - bits) buffer) = wbits bits buffer @ replicate (5 - bits) False"
      by (rule nth_equalityI)
         (use Nil True in \<open>auto simp: nth_wbits nth_append bit_simps algebra_simps\<close>)
    then show ?thesis using Nil True unat_mask5
      by (intro exI [of _ "[push_bit (5 - bits) buffer AND 0x1f]"] exI [of _ "5 - bits"])
         (simp add: fives_def eights_def)
  qed (simp add: fives_def eights_def)
next
  case (Cons b bs)
  define buffer' where "buffer' = push_bit 8 buffer OR ucast b"
  obtain "is" where d: "enc_drain buffer' (bits + 8) = (map symbol is, (bits + 8) mod 5)"
    "\<forall>i \<in> set is. unat i < 32" "fives is @ wbits ((bits + 8) mod 5) buffer' = wbits (bits + 8) buffer'"
    using enc_drain_fives by blast
  obtain js p where r: "enc_loop buffer' ((bits + 8) mod 5) bs = map symbol js"
    "\<forall>i \<in> set js. unat i < 32" "p < 5"
    "fives js = wbits ((bits + 8) mod 5) buffer' @ eights bs @ replicate p False"
    using Cons.IH [of "(bits + 8) mod 5" buffer'] by auto
  have "\<not> bit b i" if "8 \<le> i" for i
    using that bit_imp_le_length [of b i] by auto
  then have "wbits (bits + 8) buffer' = wbits bits buffer @ wbits 8 b"
    unfolding buffer'_def using Cons.prems by (intro wbits_shift_or) auto
  then show ?case using d r
    by (intro exI [of _ "is @ js"] exI [of _ p])
       (auto simp: buffer'_def [symmetric] fives_def eights_def)
qed

section \<open>The decoder cuts the bits into eights\<close>

text \<open>The values of the symbols of a text, hyphens left out.\<close>

fun symbols :: "ustr \<Rightarrow> error + bytes" where
  "symbols [] = Inr []"
| "symbols (ch # chs) =
     (if ch = 45 then symbols chs
      else ebind (symbol_value ch) (\<lambda>v. ebind (symbols chs) (\<lambda>vs. Inr (v # vs))))"

definition fives8 :: "bytes \<Rightarrow> bool list" where
  "fives8 vs = concat (map (wbits 5) vs)"

lemma low_bits_zero:
  "n \<le> 16 \<Longrightarrow> (buffer :: u16) AND (push_bit n 1 - 1) = 0 \<longleftrightarrow> wbits n buffer = replicate n False"
proof -
  assume "n \<le> 16"
  have "push_bit n 1 - 1 = (mask n :: u16)" by (simp add: mask_eq_exp_minus_1 push_bit_eq_mult)
  then have "buffer AND (push_bit n 1 - 1) = 0 \<longleftrightarrow> take_bit n buffer = 0"
    by (simp add: take_bit_eq_mask)
  also have "\<dots> \<longleftrightarrow> (\<forall>i<n. \<not> bit buffer i)"
  proof
    assume z: "take_bit n buffer = 0"
    show "\<forall>i<n. \<not> bit buffer i"
    proof (intro allI impI)
      fix i assume "i < n"
      have "bit (take_bit n buffer) i \<longleftrightarrow> i < n \<and> bit buffer i" by (simp add: bit_take_bit_iff)
      then show "\<not> bit buffer i" using z \<open>i < n\<close> by simp
    qed
  next
    assume "\<forall>i<n. \<not> bit buffer i"
    then show "take_bit n buffer = 0" by (intro bit_word_eqI) (auto simp: bit_take_bit_iff)
  qed
  also have "\<dots> \<longleftrightarrow> wbits n buffer = replicate n False"
  proof
    assume "\<forall>i<n. \<not> bit buffer i"
    then show "wbits n buffer = replicate n False"
      by (intro nth_equalityI) (auto simp: nth_wbits)
  next
    assume eq: "wbits n buffer = replicate n False"
    show "\<forall>i<n. \<not> bit buffer i"
    proof (intro allI impI)
      fix i assume "i < n"
      then show "\<not> bit buffer i"
        using arg_cong [OF eq, of "\<lambda>l. l ! (n - 1 - i)"] by (simp add: nth_wbits)
    qed
  qed
  finally show ?thesis .
qed

lemma dec_loop_eights:
  "bits < 8 \<Longrightarrow> dec_loop buffer bits chs = Inr out \<longleftrightarrow>
    (\<exists>vs p. symbols chs = Inr vs \<and> p < 8
      \<and> wbits bits buffer @ fives8 vs = eights out @ replicate p False)"
proof (induction chs arbitrary: buffer bits out)
  case Nil
  have "wbits bits buffer = eights out @ replicate p False \<longleftrightarrow>
      out = [] \<and> p = bits \<and> wbits bits buffer = replicate bits False" if "p < 8" for p
  proof
    assume eq: "wbits bits buffer = eights out @ replicate p False"
    have len: "bits = 8 * length out + p" using arg_cong [OF eq, of length] by (simp add: eights_def)
    then have "length out = 0" using Nil by linarith
    with len have "out = []" "p = bits" by simp_all
    with eq show "out = [] \<and> p = bits \<and> wbits bits buffer = replicate bits False"
      by (simp add: eights_def)
  qed (simp add: eights_def)
  then have "(\<exists>p<8. wbits bits buffer = eights out @ replicate p False) \<longleftrightarrow>
      out = [] \<and> wbits bits buffer = replicate bits False" using Nil by blast
  moreover have "dec_loop buffer bits [] = Inr out \<longleftrightarrow>
      out = [] \<and> wbits bits buffer = replicate bits False"
    using low_bits_zero [of bits buffer] Nil by (cases "bits = 0") (auto simp del: push_bit_of_1)
  ultimately show ?case by (simp add: fives8_def del: dec_loop.simps)
next
  case (Cons ch chs)
  show ?case
  proof (cases "ch = 45")
    case True
    then show ?thesis using Cons by simp
  next
    case False
    show ?thesis
    proof (cases "symbol_value ch")
      case (Inl e)
      then show ?thesis using False by simp
    next
      case (Inr v)
      define buffer' where "buffer' = push_bit 5 buffer OR ucast v"
      have wb: "wbits (bits + 5) buffer' = wbits bits buffer @ wbits 5 v"
        unfolding buffer'_def using Cons.prems small_no_high_bits [OF symbol_value_small [OF Inr]]
        by (intro wbits_shift_or) auto
      show ?thesis
      proof (cases "8 \<le> bits + 5")
        case False
        have "dec_loop buffer' (bits + 5) chs = Inr out \<longleftrightarrow> (\<exists>vs p. symbols chs = Inr vs \<and> p < 8
            \<and> wbits (bits + 5) buffer' @ fives8 vs = eights out @ replicate p False)"
          using False by (intro Cons.IH) auto
        then show ?thesis using Inr \<open>ch \<noteq> 45\<close> False wb
          by (auto simp: buffer'_def [symmetric] ebind_Inr_iff fives8_def)
      next
        case True
        define w where "w = (ucast (drop_bit (bits + 5 - 8) buffer' AND 0xff) :: byte)"
        have w: "wbits 8 w = wbits 8 (drop_bit (bits + 5 - 8) buffer')"
          by (simp add: w_def wbits_ucast_byte)
        have split: "wbits (bits + 5) buffer' = wbits 8 w @ wbits (bits + 5 - 8) buffer'"
          using True wbits_split [of 8 "bits + 5 - 8" buffer'] w by (simp add: add.commute)
        have IH: "dec_loop buffer' (bits + 5 - 8) chs = Inr o' \<longleftrightarrow> (\<exists>vs p. symbols chs = Inr vs \<and> p < 8
            \<and> wbits (bits + 5 - 8) buffer' @ fives8 vs = eights o' @ replicate p False)" for o'
          using Cons.prems by (intro Cons.IH) auto
        have *: "wbits 8 w @ (wbits (bits + 5 - 8) buffer' @ fives8 vs) = eights out @ replicate p False
            \<longleftrightarrow> (\<exists>o'. out = w # o' \<and> wbits (bits + 5 - 8) buffer' @ fives8 vs = eights o' @ replicate p False)"
          if "p < 8" for vs p
        proof
          assume eq: "wbits 8 w @ (wbits (bits + 5 - 8) buffer' @ fives8 vs) = eights out @ replicate p False"
          have "out \<noteq> []"
          proof
            assume "out = []"
            then have "8 + length (wbits (bits + 5 - 8) buffer' @ fives8 vs) = p"
              using arg_cong [OF eq, of length] by (simp add: eights_def)
            with that show False by simp
          qed
          then obtain x o' where out: "out = x # o'" by (cases out) auto
          then have "wbits 8 w = wbits 8 x"
            "wbits (bits + 5 - 8) buffer' @ fives8 vs = eights o' @ replicate p False"
            using eq by (auto simp: eights_def)
          with out show "\<exists>o'. out = w # o' \<and> wbits (bits + 5 - 8) buffer' @ fives8 vs = eights o' @ replicate p False"
            by (auto simp: wbits8_inject)
        qed (auto simp: eights_def)
        have "dec_loop buffer bits (ch # chs) =
            ebind (dec_loop buffer' (bits + 5 - 8) chs) (\<lambda>out. Inr (w # out))"
          using True \<open>ch \<noteq> 45\<close>
          by (simp only: dec_loop.simps Inr ebind_simps Let_def if_True if_False refl
              buffer'_def w_def)
        then have "dec_loop buffer bits (ch # chs) = Inr out \<longleftrightarrow>
            (\<exists>o'. dec_loop buffer' (bits + 5 - 8) chs = Inr o' \<and> out = w # o')"
          by (auto simp: ebind_Inr_iff)
        also have "\<dots> \<longleftrightarrow> (\<exists>vs p. symbols chs = Inr vs \<and> p < 8
            \<and> wbits 8 w @ (wbits (bits + 5 - 8) buffer' @ fives8 vs) = eights out @ replicate p False)"
          unfolding IH using * by blast
        also have "\<dots> \<longleftrightarrow> (\<exists>vs p. symbols (ch # chs) = Inr vs \<and> p < 8
            \<and> wbits bits buffer @ fives8 vs = eights out @ replicate p False)"
        proof -
          have "wbits 8 w @ (wbits (bits + 5 - 8) buffer' @ fives8 vs) = wbits bits buffer @ fives8 (v # vs)" for vs
            using split wb by (simp add: fives8_def)
          then show ?thesis using Inr \<open>ch \<noteq> 45\<close> by (auto simp: ebind_Inr_iff)
        qed
        finally show ?thesis .
      qed
    qed
  qed
qed

section \<open>The two together\<close>

lemma symbols_map_symbol:
  "\<forall>i \<in> set is. unat i < 32 \<Longrightarrow> symbols (map symbol is) = Inr (map ucast is)"
  by (induction "is") (simp_all add: symbol_value_symbol)

lemma fives8_ucast: "\<forall>i \<in> set is. unat i < 32 \<Longrightarrow> fives8 (map ucast is) = fives is"
proof (induction "is")
  case (Cons i "is")
  have "wbits 5 (ucast i :: byte) = wbits 5 i" by (rule wbits_eqI) (simp add: bit_simps)
  with Cons show ?case by (simp add: fives8_def fives_def)
qed (simp add: fives8_def fives_def)

lemma base32_encode_fives:
  "\<exists>is p. base32_encode bs = map symbol is \<and> (\<forall>i \<in> set is. unat i < 32) \<and> p < 5
    \<and> fives is = eights bs @ replicate p False"
  using enc_loop_fives [of 0 0 bs] by (simp add: base32_encode_def)

lemma base32_decode_iff:
  "base32_decode s = Inr bs \<longleftrightarrow>
    (\<exists>vs p. symbols s = Inr vs \<and> p < 8 \<and> fives8 vs = eights bs @ replicate p False)"
  using dec_loop_eights [of 0 0 s bs] by (simp add: base32_decode_def)

lemma base32_decode_encode: "base32_decode (base32_encode bs) = Inr bs"
proof -
  obtain "is" p where "base32_encode bs = map symbol is" "\<forall>i \<in> set is. unat i < 32" "p < 5"
    "fives is = eights bs @ replicate p False"
    using base32_encode_fives by blast
  then show ?thesis
    unfolding base32_decode_iff using symbols_map_symbol fives8_ucast
    by (intro exI [of _ "map ucast is"] exI [of _ p]) simp
qed

lemma length_base32_encode: "length (base32_encode bs) = (8 * length bs + 4) div 5"
proof -
  obtain "is" p where e: "base32_encode bs = map symbol is" "p < 5"
    "fives is = eights bs @ replicate p False"
    using base32_encode_fives by blast
  have "5 * length is = 8 * length bs + p"
    using arg_cong [OF e(3), of length] by (simp add: fives_def eights_def)
  with e show ?thesis by simp
qed

interpretation base32: codec "\<lambda>_. True" base32_encode base32_decode
  by unfold_locales (rule base32_decode_encode)

lemma base32_encode_no_hyphen: "45 \<notin> set (base32_encode bs)"
  using base32_encode_fives [of bs] symbol_value_symbol(2) by fastforce

text \<open>Only letter case, hyphens and the folded letters may differ: texts with the same symbols
  decode alike.\<close>

lemma symbols_append_hyphen: "symbols (xs @ 45 # ys) = symbols (xs @ ys)"
  by (induction xs) simp_all

lemma dec_loop_symbols:
  "symbols s = symbols t \<Longrightarrow> base32_decode s = Inr bs \<longleftrightarrow> base32_decode t = Inr bs"
  by (simp add: base32_decode_iff)

lemma dec_loop_error:
  "dec_loop buffer bits s = Inl e \<Longrightarrow>
    e = TokenAlphabet \<and> (\<exists>e'. symbols s = Inl e') \<or> e = TokenLength \<and> (\<exists>vs. symbols s = Inr vs)"
proof (induction buffer bits s rule: dec_loop.induct)
  case (1 buffer bits)
  then show ?case by (simp split: if_splits)
next
  case (2 buffer bits ch chs)
  show ?case
  proof (cases "ch = 45")
    case True
    then show ?thesis using 2 by simp
  next
    case False
    show ?thesis
    proof (cases "symbol_value ch")
      case (Inl e')
      then have "e' = TokenAlphabet" by (auto simp: symbol_value_def Let_def split: if_splits)
      then show ?thesis using 2(4) False Inl by simp
    next
      case (Inr v)
      then show ?thesis using 2(2,3) [OF False Inr refl refl] 2(4) False
        by (auto simp: Let_def ebind_Inl_iff split: if_splits)
    qed
  qed
qed

section \<open>Properties\<close>

text \<open>Decoding what was encoded gives the bytes back, and the text has one symbol for every five
  bits, rounded up.\<close>

theorem base32_roundtrip:
  "base32_decode (base32_encode bs) = Inr bs
   \<and> length (base32_encode bs) = (8 * length bs + 4) div 5"
  by (simp add: base32_decode_encode length_base32_encode)

text \<open>What the decoder accepts, exactly: with hyphens left out, letters of either case and the
  confusable letters folded, the text is one of symbols whose five bit values, put together, are the
  bits of the bytes and at most seven zero bits; it fails with the alphabet error exactly when some
  symbol has no value, and with the length error exactly when what is left over is not zero.\<close>

theorem base32_decode_exact:
  "(base32_decode s = Inr bs \<longleftrightarrow>
      (\<exists>vs p. symbols s = Inr vs \<and> p < 8 \<and> fives8 vs = eights bs @ replicate p False))
   \<and> (base32_decode s = Inl TokenAlphabet \<longleftrightarrow> (\<exists>e. symbols s = Inl e))
   \<and> (base32_decode s = Inl TokenLength \<longleftrightarrow>
      (\<exists>vs. symbols s = Inr vs) \<and> (\<forall>out. base32_decode s \<noteq> Inr out))"
proof (intro conjI)
  have ok: "base32_decode s = Inr out \<Longrightarrow> \<exists>vs. symbols s = Inr vs" for out
    by (auto simp: base32_decode_iff)
  have err: "base32_decode s = Inl e \<Longrightarrow>
      e = TokenAlphabet \<and> (\<exists>e'. symbols s = Inl e') \<or> e = TokenLength \<and> (\<exists>vs. symbols s = Inr vs)" for e
    using dec_loop_error [of 0 0 s e] by (simp add: base32_decode_def)
  show "base32_decode s = Inl TokenAlphabet \<longleftrightarrow> (\<exists>e. symbols s = Inl e)"
  proof (cases "base32_decode s")
    case (Inl e)
    then show ?thesis using err [OF Inl] by auto
  next
    case (Inr out)
    then show ?thesis using ok [OF Inr] by auto
  qed
  show "base32_decode s = Inl TokenLength \<longleftrightarrow>
      (\<exists>vs. symbols s = Inr vs) \<and> (\<forall>out. base32_decode s \<noteq> Inr out)"
  proof (cases "base32_decode s")
    case (Inl e)
    then show ?thesis using err [OF Inl] by auto
  qed auto
qed (rule base32_decode_iff)

lemma base32_decode_exact_witness:
  "base32_decode (ulit ''oi-l'') = Inl TokenLength \<and> base32_decode (ulit ''u'') = Inl TokenAlphabet"
  using base32_decode_exact [of "ulit ''oi-l''" "[]"] base32_decode_exact [of "ulit ''u''" "[]"]
  by (simp add: base32_decode_def ulit_def symbol_value_def to_ascii_uppercase_def)

end
