(* ===== verification/Kdf_Identity.thy ===== *)
theory Kdf_Identity
  imports Primitives Base32
begin

text \<open>
  Key derivation and the account identity, \<open>crates/asli-crypto/src/kdf.rs\<close> and
  \<open>identity.rs\<close>: every key comes from the root secret through HKDF with a label of its own,
  and the room id is a hash of the signing key's public half. The lemmas show that the labels
  never meet, that every epoch has its own label, and what the binding check accepts.
\<close>

section \<open>Key derivation\<close>

definition LABEL_ROOT_SALT :: bytes where [asli_const]: "LABEL_ROOT_SALT = ascii ''asli/v1/root-salt''"
definition LABEL_DEVICE_SIGN :: bytes where [asli_const]: "LABEL_DEVICE_SIGN = ascii ''asli/v1/device-sign''"
definition LABEL_CLIP_ENC :: bytes where [asli_const]: "LABEL_CLIP_ENC = ascii ''asli/v1/clip-enc''"
definition KEY_LEN :: nat where [asli_const]: "KEY_LEN = 32"

type_synonym prk = bytes

definition prk_extract :: "prims \<Rightarrow> bytes \<Rightarrow> prk" where
  "prk_extract P secret = p_hkdf_extract P LABEL_ROOT_SALT secret"

definition prk_expand :: "prims \<Rightarrow> prk \<Rightarrow> bytes \<Rightarrow> bytes" where
  "prk_expand P prk info = p_hkdf_expand P prk info KEY_LEN"

definition sign_seed :: "prims \<Rightarrow> prk \<Rightarrow> bytes" where
  "sign_seed P prk = prk_expand P prk LABEL_DEVICE_SIGN"

definition clip_enc_info :: "u32 \<Rightarrow> bytes" where
  "clip_enc_info epoch = LABEL_CLIP_ENC @ u32_be epoch"

definition prk_enc_key :: "prims \<Rightarrow> prk \<Rightarrow> u32 \<Rightarrow> bytes" where
  "prk_enc_key P prk epoch = prk_expand P prk (clip_enc_info epoch)"

definition key_from_slice :: "string \<Rightarrow> bytes \<Rightarrow> error + bytes" where
  "key_from_slice field bs =
     (if length bs \<noteq> KEY_LEN then Inl (FieldLength field KEY_LEN (length bs)) else Inr bs)"

lemma clip_enc_info_inject [simp]: "clip_enc_info a = clip_enc_info b \<longleftrightarrow> a = b"
  by (simp add: clip_enc_info_def)

lemma labels_apart: "clip_enc_info epoch \<noteq> LABEL_DEVICE_SIGN"
proof
  assume "clip_enc_info epoch = LABEL_DEVICE_SIGN"
  then have "length (clip_enc_info epoch) = length LABEL_DEVICE_SIGN" by simp
  then show False by (simp add: clip_enc_info_def asli_const)
qed

lemma key_from_slice_iff:
  "key_from_slice f bs = Inr k \<longleftrightarrow> length bs = 32 \<and> k = bs"
  by (auto simp: key_from_slice_def asli_const)

section \<open>The identity\<close>

definition LABEL_ROOM :: bytes where [asli_const]: "LABEL_ROOM = ascii ''asli/v1/room''"
definition ROOM_ID_LEN :: nat where [asli_const]: "ROOM_ID_LEN = 16"
definition ROOM_ID_CHARS :: nat where [asli_const]: "ROOM_ID_CHARS = 26"
definition PUB_KEY_LEN :: nat where [asli_const]: "PUB_KEY_LEN = 32"
definition SIGNATURE_LEN :: nat where [asli_const]: "SIGNATURE_LEN = 64"

text \<open>The signing key is its seed.\<close>

record identity =
  id_secret :: bytes
  id_prk :: prk
  id_signing_key :: bytes
  id_room_id_bytes :: bytes

definition room_id_for_public_key :: "prims \<Rightarrow> bytes \<Rightarrow> bytes" where
  "room_id_for_public_key P public_key = take ROOM_ID_LEN (p_sha256 P (LABEL_ROOM @ public_key))"

definition from_secret :: "prims \<Rightarrow> bytes \<Rightarrow> identity" where
  "from_secret P secret =
     (let prk = prk_extract P secret;
          seed = sign_seed P prk
      in \<lparr>id_secret = secret, id_prk = prk, id_signing_key = seed,
          id_room_id_bytes = room_id_for_public_key P (p_ed_pub P seed)\<rparr>)"

definition identity_generate :: "prims \<Rightarrow> rand \<Rightarrow> error + identity" where
  "identity_generate P r = ebind (random_bytes r) (\<lambda>secret. Inr (from_secret P secret))"

definition from_secret_slice :: "prims \<Rightarrow> bytes \<Rightarrow> error + identity" where
  "from_secret_slice P secret =
     ebind (key_from_slice ''secret'' secret) (\<lambda>secret. Inr (from_secret P secret))"

definition id_enc_key :: "prims \<Rightarrow> identity \<Rightarrow> u32 \<Rightarrow> bytes" where
  "id_enc_key P i epoch = prk_enc_key P (id_prk i) epoch"

definition id_public_key :: "prims \<Rightarrow> identity \<Rightarrow> bytes" where
  "id_public_key P i = p_ed_pub P (id_signing_key i)"

definition id_room_id :: "identity \<Rightarrow> ustr" where
  "id_room_id i = base32_encode (id_room_id_bytes i)"

definition id_sign :: "prims \<Rightarrow> identity \<Rightarrow> bytes \<Rightarrow> bytes" where
  "id_sign P i message = p_ed_sign P (id_signing_key i) message"

definition verify_room_binding :: "prims \<Rightarrow> bytes \<Rightarrow> bytes \<Rightarrow> error + unit" where
  "verify_room_binding P room_id_bytes public_key =
     (let expected = room_id_for_public_key P public_key
      in if expected = room_id_bytes then Inr () else Inl RoomBinding)"

definition parse_public_key :: "prims \<Rightarrow> bytes \<Rightarrow> error + bytes" where
  "parse_public_key P bs =
     (if length bs = PUB_KEY_LEN then (if p_ed_key_ok P bs then Inr bs else Inl BadPublicKey)
      else Inl BadPublicKey)"

definition verify_signature :: "prims \<Rightarrow> bytes \<Rightarrow> bytes \<Rightarrow> bytes \<Rightarrow> error + unit" where
  "verify_signature P public_key message sig =
     (if p_ed_key_ok P public_key then
        (if p_ed_verify_strict P public_key message sig then Inr () else Inl BadSignature)
      else Inl BadPublicKey)"

lemma verify_signature_iff [simp]:
  "verify_signature P k m g = Inr u \<longleftrightarrow> p_ed_key_ok P k \<and> p_ed_verify_strict P k m g"
  by (auto simp: verify_signature_def)

lemma verify_room_binding_iff [simp]:
  "verify_room_binding P r k = Inr u \<longleftrightarrow> room_id_for_public_key P k = r"
  by (simp add: verify_room_binding_def Let_def)

lemma length_room_id: "hash_ok P \<Longrightarrow> length (room_id_for_public_key P k) = 16"
  by (simp add: room_id_for_public_key_def hash_okD asli_const)

section \<open>Properties\<close>

text \<open>An account made from a secret passes its own relay checks: its room id is bound to its
  public key and is the only one that is, the public key parses, and what it signs verifies. The
  room id has 16 bytes and prints as 26 characters that decode to it.\<close>

theorem identity_self_consistent:
  assumes "sig_ok P" "hash_ok P"
  shows "(verify_room_binding P room (id_public_key P (from_secret P secret)) = Inr ()
            \<longleftrightarrow> room = id_room_id_bytes (from_secret P secret))
    \<and> parse_public_key P (id_public_key P (from_secret P secret))
        = Inr (id_public_key P (from_secret P secret))
    \<and> verify_signature P (id_public_key P (from_secret P secret)) m
        (id_sign P (from_secret P secret) m) = Inr ()
    \<and> length (id_room_id (from_secret P secret)) = ROOM_ID_CHARS
    \<and> base32_decode (id_room_id (from_secret P secret))
        = Inr (id_room_id_bytes (from_secret P secret))"
  using sig_okD [OF assms(1)] length_room_id [OF assms(2)]
  by (auto simp: id_public_key_def from_secret_def Let_def parse_public_key_def id_sign_def
      id_room_id_def base32_decode_encode length_base32_encode asli_const)

text \<open>The labels under which keys are derived are never the same: each epoch has its own, and
  none of them is the one of the signing seed, so with a derivation that tells labels apart no two
  epochs share a key and no content key is the signing seed.\<close>

theorem derived_keys_apart:
  assumes "inj_on (\<lambda>info. p_hkdf_expand P prk info KEY_LEN) (insert LABEL_DEVICE_SIGN (range clip_enc_info))"
  shows "(prk_enc_key P prk a = prk_enc_key P prk b \<longleftrightarrow> a = b) \<and> prk_enc_key P prk a \<noteq> sign_seed P prk"
  using inj_onD [OF assms, of "clip_enc_info a" "clip_enc_info b"]
    inj_onD [OF assms, of "clip_enc_info a" LABEL_DEVICE_SIGN] labels_apart [of a]
  by (auto simp: prk_enc_key_def sign_seed_def prk_expand_def)

lemma identity_self_consistent_witness:
  "verify_room_binding toy_prims room (id_public_key toy_prims (from_secret toy_prims [1, 2])) = Inr ()
    \<longleftrightarrow> room = id_room_id_bytes (from_secret toy_prims [1, 2])"
  using identity_self_consistent [OF toy_ok(3) toy_ok(5)] by blast

lemma derived_keys_apart_witness:
  "prk_enc_key (toy_prims\<lparr>p_hkdf_expand := \<lambda>k i n. pad_to n i\<rparr>) [] 0 \<noteq>
    prk_enc_key (toy_prims\<lparr>p_hkdf_expand := \<lambda>k i n. pad_to n i\<rparr>) [] 1"
proof -
  have "clip_enc_info a = clip_enc_info b" if "pad_to 32 (clip_enc_info a) = pad_to 32 (clip_enc_info b)" for a b
    using that by (simp add: pad_to_def clip_enc_info_def asli_const)
  moreover have "pad_to 32 (clip_enc_info a) \<noteq> pad_to 32 LABEL_DEVICE_SIGN" for a
  proof -
    have "pad_to 32 (clip_enc_info a) ! 8 \<noteq> pad_to 32 LABEL_DEVICE_SIGN ! 8"
      by (simp add: pad_to_def clip_enc_info_def asli_const ascii_def nth_append)
    then show ?thesis by auto
  qed
  ultimately have "inj_on (\<lambda>info. p_hkdf_expand (toy_prims\<lparr>p_hkdf_expand := \<lambda>k i n. pad_to n i\<rparr>) [] info KEY_LEN)
      (insert LABEL_DEVICE_SIGN (range clip_enc_info))"
    by (auto simp: inj_on_def KEY_LEN_def) metis+
  from derived_keys_apart [OF this, of 0 1] show ?thesis by simp
qed

end
