(* ===== verification/Wire.thy ===== *)
theory Wire
  imports Primitives Kdf_Identity
begin

text \<open>
  The field reader and writer of \<open>crates/asli-crypto/src/msg.rs\<close>, which every signed message
  body is written and read with. A writer is the bytes written so far. The interface of a field is
  a locale: reading a field succeeds exactly on the bytes that writing it produces, and leaves the
  reader after them. It is interpreted for each kind of field, so that a decoder, which is a chain
  of reads, is inverted by rewriting.
\<close>

definition MAX_TEXT_BYTES :: nat where [asli_const]: "MAX_TEXT_BYTES = 64"

section \<open>Writing\<close>

type_synonym writer = bytes

definition w_bytes :: "bytes \<Rightarrow> writer \<Rightarrow> writer" where
  "w_bytes bs w = w @ bs"

definition w_u8 :: "byte \<Rightarrow> writer \<Rightarrow> writer" where
  "w_u8 v w = w @ [v]"

definition w_u64 :: "u64 \<Rightarrow> writer \<Rightarrow> writer" where
  "w_u64 v w = w @ u64_be v"

definition w_text :: "ustr \<Rightarrow> writer \<Rightarrow> error + writer" where
  "w_text t w =
     (if \<not> str_len t < 256 then Inl AnnounceField
      else if str_len t > MAX_TEXT_BYTES then Inl AnnounceField
      else Inr ((w @ [byte_of (str_len t)]) @ utf8 t))"

definition w_blob :: "bytes \<Rightarrow> writer \<Rightarrow> error + writer" where
  "w_blob bs w =
     (if \<not> length bs < 2 ^ 32 then Inl InnerMalformed
      else Inr ((w @ u32_be (of_nat (length bs))) @ bs))"

section \<open>Reading\<close>

record reader =
  r_buf :: bytes
  r_at :: nat

definition r_new :: "bytes \<Rightarrow> reader" where
  "r_new buf = \<lparr>r_buf = buf, r_at = 0\<rparr>"

definition r_bytes :: "nat \<Rightarrow> reader \<Rightarrow> error + (bytes \<times> reader)" where
  "r_bytes len r =
     (let end = r_at r + len
      in if r_at r \<le> end \<and> end \<le> length (r_buf r)
         then Inr (take len (drop (r_at r) (r_buf r)), r\<lparr>r_at := end\<rparr>)
         else Inl InnerMalformed)"

text \<open>The array's length is the type's in the source.\<close>

definition r_array :: "nat \<Rightarrow> reader \<Rightarrow> error + (bytes \<times> reader)" where
  "r_array n r = ebind (r_bytes n r) (\<lambda>(bs, r). if length bs = n then Inr (bs, r) else Inl InnerMalformed)"

definition r_u8 :: "reader \<Rightarrow> error + (byte \<times> reader)" where
  "r_u8 r = ebind (r_array 1 r) (\<lambda>(bs, r). Inr (bs ! 0, r))"

definition r_u64 :: "reader \<Rightarrow> error + (u64 \<times> reader)" where
  "r_u64 r = ebind (r_array 8 r) (\<lambda>(bs, r). Inr (be_u64 bs, r))"

definition r_text :: "reader \<Rightarrow> error + (ustr \<times> reader)" where
  "r_text r =
     ebind (r_u8 r) (\<lambda>(n, r).
       let len = unat n in
       if len > MAX_TEXT_BYTES then Inl AnnounceField
       else ebind (r_bytes len r) (\<lambda>(bs, r).
         ebind (ok_or NotUtf8 (from_utf8 bs)) (\<lambda>t. Inr (t, r))))"

definition r_blob :: "reader \<Rightarrow> error + (bytes \<times> reader)" where
  "r_blob r = ebind (r_array 4 r) (\<lambda>(n, r). r_bytes (unat (be_u32 n)) r)"

definition r_position :: "reader \<Rightarrow> nat" where
  "r_position r = r_at r"

definition r_done :: "reader \<Rightarrow> error + unit" where
  "r_done r = (if r_at r = length (r_buf r) then Inr () else Inl InnerMalformed)"

section \<open>Fields\<close>

text \<open>A reader that has passed \<open>pre\<close> and has \<open>rest\<close> before it.\<close>

definition rd :: "bytes \<Rightarrow> bytes \<Rightarrow> reader" where
  "rd pre rest = \<lparr>r_buf = pre @ rest, r_at = length pre\<rparr>"

lemma r_new_rd [asli_wire]: "r_new buf = rd [] buf"
  by (simp add: r_new_def rd_def)

lemma r_position_rd [asli_wire]: "r_position (rd pre s) = length pre"
  by (simp add: r_position_def rd_def)

lemma r_done_rd [asli_wire]: "r_done (rd pre s) = Inr u \<longleftrightarrow> s = []"
  by (simp add: r_done_def rd_def)

lemma r_done_nil: "r_done (rd pre []) = Inr ()"
  by (simp add: r_done_def rd_def)

locale field =
  fixes ok :: "'a \<Rightarrow> bool" and put :: "'a \<Rightarrow> bytes" and get :: "reader \<Rightarrow> error + ('a \<times> reader)"
  assumes get_iff: "get (rd pre w) = Inr (x, r) \<longleftrightarrow>
      ok x \<and> (\<exists>s. w = put x @ s \<and> r = rd (pre @ put x) s)"
begin

lemma get_put: "ok x \<Longrightarrow> get (rd pre (put x @ s)) = Inr (x, rd (pre @ put x) s)"
  by (simp add: get_iff)

lemma get_end: "ok x \<Longrightarrow> get (rd pre (put x)) = Inr (x, rd (pre @ put x) [])"
  by (simp add: get_iff)

lemma get_bind:
  "ebind (get (rd pre w)) f = Inr y \<longleftrightarrow>
    (\<exists>x s. ok x \<and> w = put x @ s \<and> f (x, rd (pre @ put x) s) = Inr y)"
  by (auto simp: ebind_Inr_iff get_iff)

lemma put_prefix: "ok x \<Longrightarrow> ok y \<Longrightarrow> put x @ s = put y @ t \<Longrightarrow> x = y \<and> s = t"
  using get_put [of x "[]" s] get_put [of y "[]" t] by (auto simp: rd_def)

end

definition put_array :: "bytes \<Rightarrow> bytes" where "put_array bs = bs"
definition put_u8 :: "byte \<Rightarrow> bytes" where "put_u8 v = [v]"
definition put_text :: "ustr \<Rightarrow> bytes" where "put_text t = byte_of (str_len t) # utf8 t"
definition put_blob :: "bytes \<Rightarrow> bytes" where "put_blob bs = u32_be (of_nat (length bs)) @ bs"
definition text_ok :: "ustr \<Rightarrow> bool" where
  "text_ok t \<longleftrightarrow> str_ok t \<and> str_len t \<le> MAX_TEXT_BYTES"
definition blob_ok :: "bytes \<Rightarrow> bool" where "blob_ok bs \<longleftrightarrow> length bs < 2 ^ 32"

lemma r_bytes_iff:
  "r_bytes n (rd pre w) = Inr (x, r) \<longleftrightarrow> length x = n \<and> (\<exists>s. w = x @ s \<and> r = rd (pre @ x) s)"
proof
  assume a: "r_bytes n (rd pre w) = Inr (x, r)"
  then have "n \<le> length w" "x = take n w" "r = \<lparr>r_buf = pre @ w, r_at = length pre + n\<rparr>"
    by (auto simp: r_bytes_def rd_def Let_def split: if_splits)
  then show "length x = n \<and> (\<exists>s. w = x @ s \<and> r = rd (pre @ x) s)"
    by (auto simp: rd_def intro!: exI [of _ "drop n w"])
next
  assume "length x = n \<and> (\<exists>s. w = x @ s \<and> r = rd (pre @ x) s)"
  then show "r_bytes n (rd pre w) = Inr (x, r)"
    by (auto simp: r_bytes_def rd_def Let_def)
qed

lemma r_array_iff:
  "r_array n (rd pre w) = Inr (x, r) \<longleftrightarrow> length x = n \<and> (\<exists>s. w = x @ s \<and> r = rd (pre @ x) s)"
  by (auto simp: r_array_def ebind_Inr_iff r_bytes_iff split: if_splits)

lemma r_bytes_put: "length x = n \<Longrightarrow> r_bytes n (rd pre (x @ s)) = Inr (x, rd (pre @ x) s)"
  by (simp add: r_bytes_iff)

lemma r_array_put: "length x = n \<Longrightarrow> r_array n (rd pre (x @ s)) = Inr (x, rd (pre @ x) s)"
  by (simp add: r_array_iff)

lemma r_bytes_all: "length x = n \<Longrightarrow> r_bytes n (rd pre x) = Inr (x, rd (pre @ x) [])"
  by (simp add: r_bytes_iff)

interpretation array_field: field "\<lambda>x. length x = n" put_array "r_array n" for n
  by unfold_locales (simp add: r_array_iff put_array_def)

interpretation bytes_field: field "\<lambda>x. length x = n" put_array "r_bytes n" for n
  by unfold_locales (simp add: r_bytes_iff put_array_def)

interpretation u8_field: field "\<lambda>_. True" put_u8 r_u8
proof
  fix pre w x r
  show "r_u8 (rd pre w) = Inr (x, r) \<longleftrightarrow>
      True \<and> (\<exists>s. w = put_u8 x @ s \<and> r = rd (pre @ put_u8 x) s)"
    by (auto simp: r_u8_def ebind_Inr_iff r_array_iff put_u8_def length_Suc_conv)
qed

interpretation u64_field: field "\<lambda>_. True" u64_be r_u64
proof
  fix pre w x r
  show "r_u64 (rd pre w) = Inr (x, r) \<longleftrightarrow> True \<and> (\<exists>s. w = u64_be x @ s \<and> r = rd (pre @ u64_be x) s)"
    by (auto simp: r_u64_def ebind_Inr_iff r_array_iff words_be_inverse intro: exI [of _ "u64_be x"])
qed

interpretation text_field: field text_ok put_text r_text
proof
  fix pre w x r
  show "r_text (rd pre w) = Inr (x, r) \<longleftrightarrow>
      text_ok x \<and> (\<exists>s. w = put_text x @ s \<and> r = rd (pre @ put_text x) s)"
  proof
    assume "r_text (rd pre w) = Inr (x, r)"
    then obtain n bs s where w: "w = n # bs @ s" "unat n \<le> MAX_TEXT_BYTES" "length bs = unat n"
      "from_utf8 bs = Some x" "r = rd (pre @ n # bs) s"
      unfolding r_text_def u8_field.get_bind
      by (auto simp: r_bytes_iff ebind_Inr_iff put_u8_def Let_def split: if_splits)
    then have "utf8 x = bs" "str_ok x" using from_utf8_sound by blast+
    moreover from this have "str_len x = unat n" using w(3) by (simp add: str_len_def)
    ultimately show "text_ok x \<and> (\<exists>s. w = put_text x @ s \<and> r = rd (pre @ put_text x) s)"
      using w by (simp add: text_ok_def put_text_def)
  next
    assume a: "text_ok x \<and> (\<exists>s. w = put_text x @ s \<and> r = rd (pre @ put_text x) s)"
    then obtain s where s: "w = put_u8 (byte_of (str_len x)) @ utf8 x @ s"
      "r = rd ((pre @ put_u8 (byte_of (str_len x))) @ utf8 x) s"
      by (auto simp: put_text_def put_u8_def)
    have "unat (byte_of (str_len x)) = str_len x" "length (utf8 x) = str_len x"
      "str_len x \<le> MAX_TEXT_BYTES" "str_ok x"
      using a by (simp_all add: text_ok_def MAX_TEXT_BYTES_def str_len_def)
    then show "r_text (rd pre w) = Inr (x, r)"
      by (simp add: r_text_def s u8_field.get_put r_bytes_put from_utf8_utf8)
  qed
qed

interpretation blob_field: field blob_ok put_blob r_blob
proof
  fix pre w x r
  show "r_blob (rd pre w) = Inr (x, r) \<longleftrightarrow>
      blob_ok x \<and> (\<exists>s. w = put_blob x @ s \<and> r = rd (pre @ put_blob x) s)"
  proof
    assume "r_blob (rd pre w) = Inr (x, r)"
    then obtain n s where n: "w = n @ x @ s" "length n = 4" "length x = unat (be_u32 n)"
      "r = rd (pre @ n @ x) s"
      by (auto simp: r_blob_def array_field.get_bind put_array_def r_bytes_iff)
    then have "u32_be (of_nat (length x)) = n" by (simp add: words_be_inverse)
    moreover have "length x < 2 ^ 32" using n(3) unat_bound [of "be_u32 n"] by simp
    ultimately show "blob_ok x \<and> (\<exists>s. w = put_blob x @ s \<and> r = rd (pre @ put_blob x) s)"
      using n by (simp add: blob_ok_def put_blob_def)
  next
    assume a: "blob_ok x \<and> (\<exists>s. w = put_blob x @ s \<and> r = rd (pre @ put_blob x) s)"
    then obtain s where "w = u32_be (of_nat (length x)) @ x @ s"
      "r = rd ((pre @ u32_be (of_nat (length x))) @ x) s" by (auto simp: put_blob_def)
    then show "r_blob (rd pre w) = Inr (x, r)"
      using a by (simp add: r_blob_def r_array_put r_bytes_put blob_ok_def unat_of_nat)
  qed
qed

lemmas field_binds = array_field.get_bind bytes_field.get_bind u8_field.get_bind
  u64_field.get_bind text_field.get_bind blob_field.get_bind

lemma r_done_bind: "ebind (r_done (rd pre s)) f = Inr y \<longleftrightarrow> s = [] \<and> f () = Inr y"
  by (auto simp: r_done_def rd_def)

lemma if_Inl_Inr:
  "(if b then Inl e else x) = Inr y \<longleftrightarrow> \<not> b \<and> x = Inr y"
  "(if b then x else Inl e) = Inr y \<longleftrightarrow> b \<and> x = Inr y"
  by auto

text \<open>A chain of reads that succeeds, as the fields it read.\<close>

lemmas field_chain = field_binds r_done_bind if_Inl_Inr put_array_def

lemmas field_puts = array_field.get_put bytes_field.get_put u8_field.get_put
  u64_field.get_put text_field.get_put blob_field.get_put

text \<open>The same chain run on bytes that the fields wrote.\<close>

lemmas field_run = r_new_rd u8_field.get_put u64_field.get_put text_field.get_put
  blob_field.get_put r_array_put r_bytes_put r_bytes_all r_done_nil
  u8_field.get_end u64_field.get_end text_field.get_end blob_field.get_end

lemma w_text_iff: "str_ok t \<Longrightarrow> w_text t w = Inr w' \<longleftrightarrow> text_ok t \<and> w' = w @ put_text t"
  by (auto simp: w_text_def text_ok_def put_text_def MAX_TEXT_BYTES_def)

lemma w_text_ok: "text_ok t \<Longrightarrow> w_text t w = Inr (w @ put_text t)"
  by (simp add: w_text_def text_ok_def put_text_def MAX_TEXT_BYTES_def)

lemma w_blob_iff: "w_blob t w = Inr w' \<longleftrightarrow> blob_ok t \<and> w' = w @ put_blob t"
  by (auto simp: w_blob_def blob_ok_def put_blob_def)

end
