(* ===== verification/Clip.thy ===== *)
theory Clip
  imports Wire
begin

text \<open>
  Sealing and opening clipboard events, \<open>crates/asli-crypto/src/clip.rs\<close>: the 51 byte associated
  data, the padding of the plaintext, the inner layout with its parser, and the typed sealing that
  announcements and messages share. The lemmas show that the associated data determine every field
  they bind, how much padding adds, and that a clip comes back from its layout and its seal.
\<close>

section \<open>Constants and types\<close>

definition PROTOCOL_VERSION :: byte where [asli_const]: "PROTOCOL_VERSION = 1"
definition TYPE_CLIP :: byte where [asli_const]: "TYPE_CLIP = 1"
definition MSG_ID_LEN :: nat where [asli_const]: "MSG_ID_LEN = 16"
definition DEVICE_ID_LEN :: nat where [asli_const]: "DEVICE_ID_LEN = 16"
definition NONCE_LEN :: nat where [asli_const]: "NONCE_LEN = 24"
definition TAG_LEN :: nat where [asli_const]: "TAG_LEN = 16"
definition AAD_LEN :: nat where [asli_const]: "AAD_LEN = 51"
definition LABEL_AAD :: bytes where [asli_const]: "LABEL_AAD = ascii ''asli/v1/aad''"
definition INNER_VERSION :: byte where [asli_const]: "INNER_VERSION = 1"
definition INNER_HEADER_LEN :: nat where
  [asli_const]: "INNER_HEADER_LEN = 1 + 1 + 1 + DEVICE_ID_LEN + 8 + 8 + 4"

datatype content_type = Text | ImagePng

fun content_code :: "content_type \<Rightarrow> byte" where
  "content_code Text = 1"
| "content_code ImagePng = 2"

definition content_from_code :: "byte \<Rightarrow> error + content_type" where
  "content_from_code code =
     (if code = 1 then Inr Text else if code = 2 then Inr ImagePng else Inl (ContentTypeError code))"

record inner =
  i_content_type :: content_type
  i_device_id :: bytes
  i_seq :: u64
  i_ts_ms :: u64
  i_content :: bytes

definition take_content :: "inner \<Rightarrow> bytes \<times> inner" where
  "take_content i = (i_content i, i\<lparr>i_content := []\<rparr>)"

section \<open>Associated data\<close>

definition build_aad :: "byte \<Rightarrow> byte \<Rightarrow> u32 \<Rightarrow> bytes \<Rightarrow> bytes \<Rightarrow> bytes" where
  "build_aad version type_code epoch room_id_bytes msg_id =
     LABEL_AAD @ [version] @ [type_code] @ u32_be epoch @ [16] @ room_id_bytes @ [16] @ msg_id"

section \<open>Padding\<close>

text \<open>Doubling the bucket until the length fits. It starts at 256, so it ends.\<close>

function bucket_loop :: "nat \<Rightarrow> nat \<Rightarrow> nat" where
  "bucket_loop len bucket =
     (if 0 < bucket \<and> bucket < len then bucket_loop len (bucket * 2) else bucket)"
  by pat_completeness auto
termination
  by (relation "measure (\<lambda>(len, bucket). len - bucket)") auto

declare bucket_loop.simps [simp del]

definition div_ceil :: "nat \<Rightarrow> nat \<Rightarrow> nat" where
  "div_ceil a b = (a + b - 1) div b"

definition padded_len :: "nat \<Rightarrow> nat" where
  "padded_len len =
     (let small_max = 64 * 1024
      in if len \<le> small_max then bucket_loop len 256 else div_ceil len small_max * small_max)"

section \<open>The inner layout\<close>

definition content_len_field :: "nat \<Rightarrow> u32" where
  "content_len_field n = (if n < 2 ^ 32 then of_nat n else - 1)"

definition encode_inner :: "inner \<Rightarrow> bytes" where
  "encode_inner i =
     (let body_len = INNER_HEADER_LEN + length (i_content i);
          total = padded_len body_len;
          body = [INNER_VERSION] @ [content_code (i_content_type i)] @ [16] @ i_device_id i
            @ u64_be (i_seq i) @ u64_be (i_ts_ms i)
            @ u32_be (content_len_field (length (i_content i))) @ i_content i
      in body @ replicate (total - length body) 0)"

definition slice :: "nat \<Rightarrow> nat \<Rightarrow> bytes \<Rightarrow> bytes" where
  "slice at n buf = take n (drop at buf)"

definition decode_inner :: "bytes \<Rightarrow> error + inner" where
  "decode_inner buf =
     (if length buf < INNER_HEADER_LEN then Inl InnerMalformed
      else if buf ! 0 \<noteq> INNER_VERSION then Inl (InnerVersion (buf ! 0))
      else ebind (content_from_code (buf ! 1)) (\<lambda>content_type.
        if unat (buf ! 2) \<noteq> DEVICE_ID_LEN then Inl InnerMalformed
        else
          let device_id = slice 3 DEVICE_ID_LEN buf;
              seq = be_u64 (slice 19 8 buf);
              ts_ms = be_u64 (slice 27 8 buf);
              content_len = unat (be_u32 (slice 35 4 buf))
          in if length buf < 39 + content_len then Inl InnerMalformed
             else Inr \<lparr>i_content_type = content_type, i_device_id = device_id, i_seq = seq,
                    i_ts_ms = ts_ms, i_content = slice 39 content_len buf\<rparr>))"

section \<open>Sealing\<close>

record sealed =
  s_nonce :: bytes
  s_ciphertext :: bytes

definition seal_typed ::
    "prims \<Rightarrow> byte \<Rightarrow> bytes \<Rightarrow> u32 \<Rightarrow> bytes \<Rightarrow> bytes \<Rightarrow> bytes \<Rightarrow> bytes \<Rightarrow> error + bytes" where
  "seal_typed P type_code enc_key epoch room_id_bytes msg_id nonce plaintext =
     (let aad = build_aad PROTOCOL_VERSION type_code epoch room_id_bytes msg_id
      in ok_or Seal (p_aead_seal P enc_key nonce aad plaintext))"

definition open_typed ::
    "prims \<Rightarrow> byte \<Rightarrow> bytes \<Rightarrow> u32 \<Rightarrow> bytes \<Rightarrow> bytes \<Rightarrow> bytes \<Rightarrow> bytes \<Rightarrow> error + bytes" where
  "open_typed P type_code enc_key epoch room_id_bytes msg_id nonce ciphertext =
     (let aad = build_aad PROTOCOL_VERSION type_code epoch room_id_bytes msg_id
      in ok_or Open (p_aead_open P enc_key nonce aad ciphertext))"

definition seal_with_nonce ::
    "prims \<Rightarrow> bytes \<Rightarrow> u32 \<Rightarrow> bytes \<Rightarrow> bytes \<Rightarrow> bytes \<Rightarrow> bytes \<Rightarrow> error + bytes" where
  "seal_with_nonce P enc_key epoch room_id_bytes msg_id nonce plaintext =
     seal_typed P TYPE_CLIP enc_key epoch room_id_bytes msg_id nonce plaintext"

definition clip_seal :: "prims \<Rightarrow> rand \<Rightarrow> bytes \<Rightarrow> u32 \<Rightarrow> bytes \<Rightarrow> bytes \<Rightarrow> inner \<Rightarrow> error + sealed" where
  "clip_seal P rnd enc_key epoch room_id_bytes msg_id i =
     ebind (random_bytes rnd) (\<lambda>nonce.
       let plaintext = encode_inner i in
       ebind (seal_with_nonce P enc_key epoch room_id_bytes msg_id nonce plaintext) (\<lambda>ciphertext.
         Inr \<lparr>s_nonce = nonce, s_ciphertext = ciphertext\<rparr>))"

definition clip_open ::
    "prims \<Rightarrow> bytes \<Rightarrow> u32 \<Rightarrow> bytes \<Rightarrow> bytes \<Rightarrow> bytes \<Rightarrow> bytes \<Rightarrow> error + inner" where
  "clip_open P enc_key epoch room_id_bytes msg_id nonce ciphertext =
     ebind (open_typed P TYPE_CLIP enc_key epoch room_id_bytes msg_id nonce ciphertext) decode_inner"

section \<open>Facts\<close>

lemma build_aad_inject:
  assumes "length r = 16" "length r' = 16" "length m = 16" "length m' = 16"
  shows "build_aad v t e r m = build_aad v' t' e' r' m' \<longleftrightarrow>
    v = v' \<and> t = t' \<and> e = e' \<and> r = r' \<and> m = m'"
  using assms by (simp add: build_aad_def)

lemma length_build_aad:
  "length r = 16 \<Longrightarrow> length m = 16 \<Longrightarrow> length (build_aad v t e r m) = AAD_LEN"
  by (simp add: build_aad_def asli_const)

lemma bucket_loop_props:
  "0 < bucket \<Longrightarrow> len \<le> bucket_loop len bucket \<and> bucket \<le> bucket_loop len bucket
    \<and> (bucket < len \<longrightarrow> bucket_loop len bucket < 2 * len)
    \<and> (\<exists>k. bucket_loop len bucket = bucket * 2 ^ k)"
proof (induction len bucket rule: bucket_loop.induct)
  case (1 len bucket)
  show ?case
  proof (cases "bucket < len")
    case True
    then have step: "bucket_loop len bucket = bucket_loop len (bucket * 2)"
      using 1(2) by (subst bucket_loop.simps) simp
    have IH: "len \<le> bucket_loop len (bucket * 2)" "bucket * 2 \<le> bucket_loop len (bucket * 2)"
      "bucket * 2 < len \<longrightarrow> bucket_loop len (bucket * 2) < 2 * len"
      "\<exists>k. bucket_loop len (bucket * 2) = bucket * 2 * 2 ^ k"
      using 1 True by auto
    have "bucket_loop len (bucket * 2) < 2 * len"
    proof (cases "bucket * 2 < len")
      case False
      then have "bucket_loop len (bucket * 2) = bucket * 2" by (subst bucket_loop.simps) simp
      then show ?thesis using True by simp
    qed (use IH in blast)
    moreover obtain k where "bucket_loop len (bucket * 2) = bucket * 2 ^ Suc k"
      using IH(4) by (auto simp: mult.assoc)
    ultimately show ?thesis using IH(1,2) step by (metis le_add_same_cancel1 le_trans mult_2_right zero_le)
  next
    case False
    then have "bucket_loop len bucket = bucket" by (subst bucket_loop.simps) simp
    then show ?thesis using False by (auto intro: exI [of _ 0])
  qed
qed

lemma div_ceil_bounds:
  assumes "0 < b" shows "a \<le> div_ceil a b * b" "div_ceil a b * b < a + b"
proof -
  have "(a + b - 1) div b * b + (a + b - 1) mod b = a + b - 1" by (rule div_mult_mod_eq)
  moreover have "(a + b - 1) mod b < b" using assms by simp
  ultimately show "a \<le> div_ceil a b * b" "div_ceil a b * b < a + b"
    unfolding div_ceil_def using assms by linarith+
qed

lemma padded_len_ge: "len \<le> padded_len len"
  using bucket_loop_props [of 256 len] div_ceil_bounds(1) [of "64 * 1024" len]
  by (simp add: padded_len_def Let_def)

lemma padded_len_small: "padded_len n = (if n \<le> 256 then 256 else padded_len n)"
  by (simp add: padded_len_def bucket_loop.simps [of n 256])

lemma content_from_code_code [simp]: "content_from_code (content_code t) = Inr t"
  by (cases t) (simp_all add: content_from_code_def)

lemma decode_inner_body:
  assumes "length d = 16" "length c < 2 ^ 32"
  shows "decode_inner ([INNER_VERSION, content_code t, 16] @ d @ u64_be q @ u64_be ts
      @ u32_be (of_nat (length c)) @ c @ z)
    = Inr \<lparr>i_content_type = t, i_device_id = d, i_seq = q, i_ts_ms = ts, i_content = c\<rparr>"
proof -
  define b where "b = [INNER_VERSION, content_code t, 16] @ d @ u64_be q @ u64_be ts
      @ u32_be (of_nat (length c)) @ c @ z"
  have n: "unat (of_nat (length c) :: u32) = length c" using assms(2) by (simp add: unat_of_nat)
  have s: "slice 3 16 b = d" "slice 19 8 b = u64_be q" "slice 27 8 b = u64_be ts"
    "slice 35 4 b = u32_be (of_nat (length c))" "slice 39 (length c) b = c"
    using assms(1) by (simp_all add: slice_def b_def)
  have "length b = 39 + length c + length z" using assms(1) by (simp add: b_def)
  moreover have "b ! 0 = INNER_VERSION" "b ! 1 = content_code t" "b ! 2 = 16"
    by (simp_all add: b_def)
  ultimately have "decode_inner b
      = Inr \<lparr>i_content_type = t, i_device_id = d, i_seq = q, i_ts_ms = ts, i_content = c\<rparr>"
    by (simp add: decode_inner_def n s INNER_HEADER_LEN_def DEVICE_ID_LEN_def)
  then show ?thesis by (simp only: b_def)
qed

text \<open>The layout before the padding, for a content whose length fits its field.\<close>

definition inner_body :: "inner \<Rightarrow> bytes" where
  "inner_body i = [INNER_VERSION, content_code (i_content_type i), 16] @ i_device_id i
     @ u64_be (i_seq i) @ u64_be (i_ts_ms i) @ u32_be (of_nat (length (i_content i))) @ i_content i"

definition inner_ok :: "inner \<Rightarrow> bool" where
  "inner_ok i \<longleftrightarrow> length (i_device_id i) = DEVICE_ID_LEN \<and> length (i_content i) < 2 ^ 32"

lemma encode_inner_body:
  "inner_ok i \<Longrightarrow> encode_inner i = inner_body i
    @ replicate (padded_len (INNER_HEADER_LEN + length (i_content i)) - length (inner_body i)) 0"
  by (simp add: encode_inner_def inner_body_def inner_ok_def content_len_field_def Let_def)

lemma length_inner_body: "inner_ok i \<Longrightarrow> length (inner_body i) = INNER_HEADER_LEN + length (i_content i)"
  by (simp add: inner_body_def inner_ok_def asli_const)

lemma length_encode_inner:
  "inner_ok i \<Longrightarrow> length (encode_inner i) = padded_len (INNER_HEADER_LEN + length (i_content i))"
  using padded_len_ge [of "INNER_HEADER_LEN + length (i_content i)"]
  by (simp add: encode_inner_body length_inner_body)

lemma content_code_of: "content_from_code c = Inr t \<longleftrightarrow> content_code t = c"
  by (cases t) (auto simp: content_from_code_def)

lemma list_of_three: "3 \<le> length b \<Longrightarrow> b = [b ! 0, b ! 1, b ! 2] @ drop 3 b"
  by (cases b; cases "tl b"; cases "tl (tl b)") (auto simp: numeral_eq_Suc)

lemma drop_slice: "drop at b = slice at n b @ drop (at + n) b"
  by (simp add: slice_def) (metis add.commute append_take_drop_id drop_drop)

lemma decode_inner_iff:
  "decode_inner buf = Inr i \<longleftrightarrow> inner_ok i \<and> (\<exists>z. buf = inner_body i @ z)"
proof
  assume dec: "decode_inner buf = Inr i"
  define n where "n = unat (be_u32 (slice 35 4 buf))"
  from dec have f: "39 + n \<le> length buf" "buf ! 0 = INNER_VERSION" "unat (buf ! 2) = 16"
    "content_code (i_content_type i) = buf ! 1" "i_device_id i = slice 3 16 buf"
    "i_seq i = be_u64 (slice 19 8 buf)" "i_ts_ms i = be_u64 (slice 27 8 buf)"
    "i_content i = slice 39 n buf"
    by (auto simp: decode_inner_def n_def ebind_Inr_iff content_code_of Let_def
        DEVICE_ID_LEN_def not_less split: if_splits)
  have len: "length (slice 3 16 buf) = 16" "length (slice 19 8 buf) = 8"
    "length (slice 27 8 buf) = 8" "length (slice 35 4 buf) = 4" "length (slice 39 n buf) = n"
    using f(1) by (simp_all add: slice_def)
  have "buf ! 2 = 16" using f(3) by (simp add: word_unat_eq_iff)
  moreover have "3 \<le> length buf" using f(1) by simp
  ultimately have "buf = [INNER_VERSION, content_code (i_content_type i), 16] @ drop 3 buf"
    using list_of_three [of buf] f(2,4) by simp
  also have "drop 3 buf = slice 3 16 buf @ slice 19 8 buf @ slice 27 8 buf @ slice 35 4 buf
      @ slice 39 n buf @ drop (39 + n) buf"
    using drop_slice [of 3 buf 16] drop_slice [of 19 buf 8] drop_slice [of 27 buf 8]
      drop_slice [of 35 buf 4] drop_slice [of 39 buf n] by simp
  finally have "buf = inner_body i @ drop (39 + n) buf"
    using len f by (simp add: inner_body_def words_be_inverse n_def)
  moreover have "n < 2 ^ 32" using unat_bound [of "be_u32 (slice 35 4 buf)"] by (simp add: n_def)
  ultimately show "inner_ok i \<and> (\<exists>z. buf = inner_body i @ z)"
    using len f by (auto simp: inner_ok_def DEVICE_ID_LEN_def)
next
  assume "inner_ok i \<and> (\<exists>z. buf = inner_body i @ z)"
  then show "decode_inner buf = Inr i"
    using decode_inner_body [of "i_device_id i" "i_content i" "i_content_type i"]
    by (auto simp: inner_body_def inner_ok_def DEVICE_ID_LEN_def)
qed

lemma decode_encode_inner: "inner_ok i \<Longrightarrow> decode_inner (encode_inner i) = Inr i"
  by (auto simp: decode_inner_iff encode_inner_body)

interpretation inner_layout: codec inner_ok encode_inner decode_inner
  by unfold_locales (rule decode_encode_inner)

lemma open_seal_typed:
  "aead_ok P \<Longrightarrow> seal_typed P t k e r m n p = Inr c \<Longrightarrow> open_typed P t k e r m n c = Inr p"
  by (simp add: seal_typed_def open_typed_def Let_def aead_okD)

lemma open_typed_bound:
  assumes "aead_bound P c k n (build_aad PROTOCOL_VERSION t e r m)"
    and "length r = 16" "length m = 16" "length r' = 16" "length m' = 16"
    and "open_typed P t' k' e' r' m' n' c = Inr p"
  shows "t' = t \<and> k' = k \<and> e' = e \<and> r' = r \<and> m' = m \<and> n' = n"
  using aead_boundD [OF assms(1), of k' n' "build_aad PROTOCOL_VERSION t' e' r' m'" p] assms(2-)
  by (auto simp: open_typed_def Let_def build_aad_inject)

lemma bucket_loop_mono:
  "0 < bucket \<Longrightarrow> a \<le> b \<Longrightarrow> bucket_loop a bucket \<le> bucket_loop b bucket"
proof (induction b bucket rule: bucket_loop.induct)
  case (1 b bucket)
  show ?case
  proof (cases "bucket < a")
    case True
    then show ?thesis using 1
      by (simp add: bucket_loop.simps [of a bucket] bucket_loop.simps [of b bucket])
  next
    case False
    then have "bucket_loop a bucket = bucket" by (simp add: bucket_loop.simps [of a bucket])
    then show ?thesis using bucket_loop_props [of bucket b] 1(2) by simp
  qed
qed

lemma bucket_loop_set:
  "len \<le> 65536 \<Longrightarrow> bucket \<in> {256, 512, 1024, 2048, 4096, 8192, 16384, 32768, 65536} \<Longrightarrow>
    bucket_loop len bucket \<in> {256, 512, 1024, 2048, 4096, 8192, 16384, 32768, 65536}"
proof (induction len bucket rule: bucket_loop.induct)
  case (1 len bucket)
  then show ?case
    by (cases "0 < bucket \<and> bucket < len") (auto simp: bucket_loop.simps [of len bucket])
qed

lemma padded_len_mono: "a \<le> b \<Longrightarrow> padded_len a \<le> padded_len b"
proof -
  assume le: "a \<le> b"
  consider "b \<le> 65536" | "a \<le> 65536" "65536 < b" | "65536 < a" by linarith
  then show ?thesis
  proof cases
    case 1
    then show ?thesis using le bucket_loop_mono [of 256 a b] by (simp add: padded_len_def)
  next
    case 2
    have "padded_len a \<le> 65536"
      using 2 bucket_loop_set [of a 256] by (auto simp: padded_len_def)
    then show ?thesis using 2 padded_len_ge [of b] by linarith
  next
    case 3
    then show ?thesis using le by (simp add: padded_len_def div_ceil_def div_le_mono)
  qed
qed

section \<open>Properties\<close>

text \<open>What a device seals another device of the account opens: with the nonce and the ciphertext
  of the seal, under the same key, epoch, room and message id, the clip comes back whole, and the
  size of the ciphertext tells the padded length alone.\<close>

theorem clip_roundtrip:
  assumes "aead_ok P" "aead_tagged P" "inner_ok i" "clip_seal P rnd k e r m i = Inr s"
  shows "clip_open P k e r m (s_nonce s) (s_ciphertext s) = Inr i
    \<and> length (s_ciphertext s) = padded_len (39 + length (i_content i)) + 16
    \<and> rnd = Some (s_nonce s)"
proof -
  obtain n c where c: "rnd = Some n" "seal_typed P TYPE_CLIP k e r m n (encode_inner i) = Inr c"
    "s = \<lparr>s_nonce = n, s_ciphertext = c\<rparr>"
    using assms(4) by (auto simp: clip_seal_def ebind_Inr_iff seal_with_nonce_def Let_def)
  have "length c = length (encode_inner i) + 16"
    using c(2) aead_taggedD [OF assms(2)] by (auto simp: seal_typed_def Let_def)
  then show ?thesis
    using c open_seal_typed [OF assms(1) c(2)] decode_encode_inner [OF assms(3)]
    by (simp add: clip_open_def length_encode_inner [OF assms(3)] INNER_HEADER_LEN_def DEVICE_ID_LEN_def)
qed

text \<open>C16: The relay cannot move a clip: a ciphertext that opens only under what it was sealed with
  opens as a message of no other type, epoch, room or message id, since the associated data
  determine each of them.\<close>

theorem clip_binding:
  assumes "aead_bound P c k n (build_aad PROTOCOL_VERSION t e r m)"
    and "length r = 16" "length m = 16" "length r' = 16" "length m' = 16"
  shows "open_typed P t' k' e' r' m' n' c = Inl Open \<or>
    (t' = t \<and> k' = k \<and> e' = e \<and> r' = r \<and> m' = m \<and> n' = n)"
proof (cases "open_typed P t' k' e' r' m' n' c")
  case (Inl err)
  then show ?thesis by (cases "p_aead_open P k' n' (build_aad PROTOCOL_VERSION t' e' r' m') c")
      (auto simp: open_typed_def Let_def)
next
  case (Inr p)
  then show ?thesis using open_typed_bound [OF assms Inr] by blast
qed

text \<open>Parsing the inner plaintext accepts exactly the layout the encoder writes, followed by
  anything: every field is the one written, and no other buffer decodes.\<close>

theorem inner_layout_exact:
  "decode_inner buf = Inr i \<longleftrightarrow> inner_ok i \<and> (\<exists>z. buf = inner_body i @ z)"
  by (rule decode_inner_iff)

text \<open>Padding never shortens, is monotone, at most doubles a small plaintext, adds less than 64 KiB
  to a large one, and leaves only nine lengths up to 64 KiB and multiples of it beyond.\<close>

theorem padding_bounds:
  "len \<le> padded_len len
   \<and> (len \<le> len' \<longrightarrow> padded_len len \<le> padded_len len')
   \<and> (256 < len \<and> len \<le> 65536 \<longrightarrow> padded_len len < 2 * len)
   \<and> (len \<le> 65536 \<longrightarrow> padded_len len \<in> {256, 512, 1024, 2048, 4096, 8192, 16384, 32768, 65536})
   \<and> (65536 < len \<longrightarrow> padded_len len < len + 65536 \<and> 65536 dvd padded_len len)"
  using padded_len_ge [of len] padded_len_mono [of len len'] bucket_loop_props [of 256 len]
    bucket_loop_set [of len 256] div_ceil_bounds(2) [of 65536 len]
  by (auto simp: padded_len_def)

definition ex_inner :: inner where
  "ex_inner = \<lparr>i_content_type = Text, i_device_id = replicate 16 1, i_seq = 1, i_ts_ms = 1767225600000,
     i_content = ascii ''copied on the laptop''\<rparr>"

lemma ex_inner_ok: "inner_ok ex_inner"
  by (simp add: inner_ok_def ex_inner_def DEVICE_ID_LEN_def)

lemma clip_roundtrip_witness:
  "\<exists>s. clip_seal toy_prims (Some (replicate 24 7)) [1] 0 (replicate 16 2) (replicate 16 3) ex_inner = Inr s
    \<and> clip_open toy_prims [1] 0 (replicate 16 2) (replicate 16 3) (s_nonce s) (s_ciphertext s) = Inr ex_inner"
proof -
  obtain s where s: "clip_seal toy_prims (Some (replicate 24 7)) [1] 0 (replicate 16 2) (replicate 16 3) ex_inner = Inr s"
    by (simp add: clip_seal_def seal_with_nonce_def seal_typed_def toy_prims_def Let_def)
  then show ?thesis using clip_roundtrip [OF toy_ok(1) toy_ok(2) ex_inner_ok s] by blast
qed

text \<open>An AEAD that opens one ciphertext only, the way it was made.\<close>

definition one_open :: "bytes \<Rightarrow> bytes \<Rightarrow> bytes \<Rightarrow> bytes \<Rightarrow> bytes \<Rightarrow> prims" where
  "one_open k n a c p = toy_prims\<lparr>p_aead_open :=
     \<lambda>k' n' a' c'. if k' = k \<and> n' = n \<and> a' = a \<and> c' = c then Some p else None\<rparr>"

lemma one_open_bound: "aead_bound (one_open k n a c p) c k n a"
  by (simp add: aead_bound_def one_open_def)

lemma clip_binding_witness:
  "open_typed (one_open [1] [2] (build_aad PROTOCOL_VERSION TYPE_CLIP 0 (replicate 16 2) (replicate 16 3)) [9] [4])
     TYPE_CLIP [1] 1 (replicate 16 2) (replicate 16 3) [2] [9] = Inl Open"
  using clip_binding [OF one_open_bound, of "replicate 16 2" "replicate 16 3" "replicate 16 2" "replicate 16 3"
      "[1]" "[2]" TYPE_CLIP 0 "[9]" "[4]" TYPE_CLIP "[1]" 1 "[2]"]
  by simp

lemma padding_bounds_witness: "padded_len 300 < 600 \<and> padded_len 300 \<le> padded_len 70000"
  using padding_bounds [of 300 70000] by simp

end
