(* ===== verification/Chunk.thy ===== *)
theory Chunk
  imports Clip
begin

text \<open>
  Chunked transfer, \<open>crates/asli-crypto/src/chunk.rs\<close>: the position that each chunk's associated
  data bind, the splitting and sealing of a plaintext, and the assembly that takes opened chunks in
  any order. The lemmas show that a position is determined by its associated data, that the
  assembly counts exactly what it holds and stays within its cap, and that the pieces of a plaintext
  accepted in any order give the plaintext back.
\<close>

section \<open>Positions\<close>

definition CHUNK_PROTOCOL_VERSION :: byte where [asli_const]: "CHUNK_PROTOCOL_VERSION = 1"
definition TYPE_CLIP_BEGIN :: byte where [asli_const]: "TYPE_CLIP_BEGIN = 2"
definition TYPE_CLIP_CHUNK :: byte where [asli_const]: "TYPE_CLIP_CHUNK = 3"
definition TYPE_CLIP_END :: byte where [asli_const]: "TYPE_CLIP_END = 4"
definition LABEL_CHUNK_AAD :: bytes where [asli_const]: "LABEL_CHUNK_AAD = ascii ''asli/v1/caad''"
definition CHUNK_AAD_LEN :: nat where [asli_const]: "CHUNK_AAD_LEN = 61"
definition DEFAULT_CHUNK_BYTES :: nat where [asli_const]: "DEFAULT_CHUNK_BYTES = 256 * 1024"
definition MAX_CHUNKS :: u32 where [asli_const]: "MAX_CHUNKS = 4096"
definition MIN_SEALED_CHUNK_LEN :: nat where [asli_const]: "MIN_SEALED_CHUNK_LEN = TAG_LEN + 1"

record chunk_pos =
  pos_idx :: u32
  pos_chunk_count :: u32
  pos_final :: bool

definition chunk_type_code :: "u32 \<Rightarrow> bool \<Rightarrow> byte" where
  "chunk_type_code idx final_chunk =
     (if final_chunk then TYPE_CLIP_END else if idx = 0 then TYPE_CLIP_BEGIN else TYPE_CLIP_CHUNK)"

definition pos_type_code :: "chunk_pos \<Rightarrow> byte" where
  "pos_type_code pos = chunk_type_code (pos_idx pos) (pos_final pos)"

definition build_chunk_aad :: "byte \<Rightarrow> byte \<Rightarrow> u32 \<Rightarrow> bytes \<Rightarrow> bytes \<Rightarrow> chunk_pos \<Rightarrow> bytes" where
  "build_chunk_aad version type_code epoch room_id_bytes msg_id pos =
     LABEL_CHUNK_AAD @ [version] @ [type_code] @ u32_be epoch @ [16] @ room_id_bytes @ [16] @ msg_id
       @ u32_be (pos_idx pos) @ u32_be (pos_chunk_count pos) @ [if pos_final pos then 1 else 0]"

section \<open>Sealing\<close>

record sealed_chunk =
  sc_idx :: u32
  sc_chunk_count :: u32
  sc_final :: bool
  sc_nonce :: bytes
  sc_ciphertext :: bytes

definition seal_chunk_with_nonce ::
    "prims \<Rightarrow> bytes \<Rightarrow> u32 \<Rightarrow> bytes \<Rightarrow> bytes \<Rightarrow> bytes \<Rightarrow> chunk_pos \<Rightarrow> bytes \<Rightarrow> error + bytes" where
  "seal_chunk_with_nonce P enc_key epoch room_id_bytes msg_id nonce pos piece =
     (let aad = build_chunk_aad CHUNK_PROTOCOL_VERSION (pos_type_code pos) epoch room_id_bytes msg_id pos
      in ok_or Seal (p_aead_seal P enc_key nonce aad piece))"

definition open_chunk ::
    "prims \<Rightarrow> bytes \<Rightarrow> u32 \<Rightarrow> bytes \<Rightarrow> bytes \<Rightarrow> bytes \<Rightarrow> chunk_pos \<Rightarrow> bytes \<Rightarrow> error + bytes" where
  "open_chunk P enc_key epoch room_id_bytes msg_id nonce pos ciphertext =
     (let aad = build_chunk_aad CHUNK_PROTOCOL_VERSION (pos_type_code pos) epoch room_id_bytes msg_id pos
      in ok_or Open (p_aead_open P enc_key nonce aad ciphertext))"

text \<open>\<open>slice::chunks\<close>: pieces of \<open>n\<close> bytes, the last one shorter, for \<open>n\<close> above zero.\<close>

function chunks :: "nat \<Rightarrow> bytes \<Rightarrow> bytes list" where
  "chunks n xs = (if xs = [] \<or> n = 0 then [] else take n xs # chunks n (drop n xs))"
  by pat_completeness auto
termination
  by (relation "measure (\<lambda>(n, xs). length xs)") (auto simp: neq_Nil_conv)

declare chunks.simps [simp del]

text \<open>The loop over the pieces, with the number of the next one and the nonce drawn for each.\<close>

fun seal_pieces ::
    "prims \<Rightarrow> (nat \<Rightarrow> rand) \<Rightarrow> bytes \<Rightarrow> u32 \<Rightarrow> bytes \<Rightarrow> bytes \<Rightarrow> u32 \<Rightarrow> nat \<Rightarrow> bytes list
      \<Rightarrow> error + sealed_chunk list" where
  "seal_pieces P rnd enc_key epoch room_id_bytes msg_id chunk_count index [] = Inr []"
| "seal_pieces P rnd enc_key epoch room_id_bytes msg_id chunk_count index (piece # pieces) =
     (if \<not> index < 2 ^ 32 then Inl ChunkCount
      else
        let idx = of_nat index;
            pos = \<lparr>pos_idx = idx, pos_chunk_count = chunk_count,
                   pos_final = (index + 1 < 2 ^ 32 \<and> idx + 1 = chunk_count)\<rparr>
        in ebind (random_bytes (rnd index)) (\<lambda>nonce.
           ebind (seal_chunk_with_nonce P enc_key epoch room_id_bytes msg_id nonce pos piece) (\<lambda>ciphertext.
           ebind (seal_pieces P rnd enc_key epoch room_id_bytes msg_id chunk_count (index + 1) pieces) (\<lambda>out.
             Inr (\<lparr>sc_idx = idx, sc_chunk_count = chunk_count, sc_final = pos_final pos,
                   sc_nonce = nonce, sc_ciphertext = ciphertext\<rparr> # out)))))"

definition seal_plaintext_chunks ::
    "prims \<Rightarrow> (nat \<Rightarrow> rand) \<Rightarrow> bytes \<Rightarrow> u32 \<Rightarrow> bytes \<Rightarrow> bytes \<Rightarrow> bytes \<Rightarrow> nat
      \<Rightarrow> error + sealed_chunk list" where
  "seal_plaintext_chunks P rnd enc_key epoch room_id_bytes msg_id plaintext chunk_bytes =
     (let chunk_bytes = max chunk_bytes 1;
          total = max (div_ceil (length plaintext) chunk_bytes) 1
      in if \<not> total < 2 ^ 32 then Inl ChunkCount
         else let chunk_count = of_nat total in
           if chunk_count > MAX_CHUNKS then Inl ChunkCount
           else seal_pieces P rnd enc_key epoch room_id_bytes msg_id chunk_count 0
                  (chunks chunk_bytes plaintext))"

definition seal_chunks ::
    "prims \<Rightarrow> (nat \<Rightarrow> rand) \<Rightarrow> bytes \<Rightarrow> u32 \<Rightarrow> bytes \<Rightarrow> bytes \<Rightarrow> inner \<Rightarrow> nat
      \<Rightarrow> error + sealed_chunk list" where
  "seal_chunks P rnd enc_key epoch room_id_bytes msg_id i chunk_bytes =
     (let plaintext = encode_inner i
      in seal_plaintext_chunks P rnd enc_key epoch room_id_bytes msg_id plaintext chunk_bytes)"

definition may_chunk :: "content_type \<Rightarrow> bool" where
  "may_chunk t \<longleftrightarrow> (case t of ImagePng \<Rightarrow> True | _ \<Rightarrow> False)"

definition chunk_count_for :: "nat \<Rightarrow> nat \<Rightarrow> u32" where
  "chunk_count_for payload_len chunk_bytes =
     (let chunk_bytes = max chunk_bytes 1;
          total = max (div_ceil payload_len chunk_bytes) 1
      in if total < 2 ^ 32 then of_nat total else - 1)"

section \<open>Assembly\<close>

record assembly =
  a_msg_id :: bytes
  a_epoch :: u32
  a_chunk_count :: u32
  a_pieces :: "bytes option list"
  a_received :: u32
  a_bytes :: nat
  a_max_bytes :: nat

definition assembly_new :: "bytes \<Rightarrow> u32 \<Rightarrow> u32 \<Rightarrow> nat \<Rightarrow> error + assembly" where
  "assembly_new msg_id epoch chunk_count max_bytes =
     (if chunk_count = 0 \<or> chunk_count > MAX_CHUNKS then Inl ChunkCount
      else Inr \<lparr>a_msg_id = msg_id, a_epoch = epoch, a_chunk_count = chunk_count,
             a_pieces = replicate (unat chunk_count) None, a_received = 0, a_bytes = 0,
             a_max_bytes = max_bytes\<rparr>)"

definition is_complete :: "assembly \<Rightarrow> bool" where
  "is_complete a \<longleftrightarrow> a_received a = a_chunk_count a"

text \<open>Sizes are machine words of 64 bits.\<close>

definition accept_chunk :: "assembly \<Rightarrow> bytes \<Rightarrow> u32 \<Rightarrow> u32 \<Rightarrow> u32 \<Rightarrow> bytes \<Rightarrow> error + assembly" where
  "accept_chunk a msg_id epoch idx chunk_count piece =
     (if msg_id \<noteq> a_msg_id a \<or> epoch \<noteq> a_epoch a \<or> chunk_count \<noteq> a_chunk_count a then Inl ChunkMismatch
      else let slot = unat idx in
        if \<not> slot < length (a_pieces a) then Inl ChunkMismatch
        else if a_pieces a ! slot \<noteq> None then Inl ChunkMismatch
        else let next = min (a_bytes a + length piece) (2 ^ 64 - 1) in
          if next > a_max_bytes a then Inl ChunkTooLarge
          else Inr (a\<lparr>a_bytes := next, a_pieces := (a_pieces a)[slot := Some piece],
                     a_received := a_received a + 1\<rparr>))"

text \<open>The loop that joins the pieces.\<close>

fun join_pieces :: "bytes option list \<Rightarrow> error + bytes" where
  "join_pieces [] = Inr []"
| "join_pieces (None # ps) = Inl ChunkIncomplete"
| "join_pieces (Some p # ps) = ebind (join_pieces ps) (\<lambda>rest. Inr (p @ rest))"

definition finish :: "assembly \<Rightarrow> error + inner" where
  "finish a =
     (if \<not> is_complete a then Inl ChunkIncomplete
      else ebind (join_pieces (a_pieces a)) (\<lambda>joined.
        if length joined < INNER_HEADER_LEN then Inl InnerMalformed else decode_inner joined))"

section \<open>Positions are bound\<close>

lemma build_chunk_aad_inject:
  assumes "length r = 16" "length r' = 16" "length m = 16" "length m' = 16"
  shows "build_chunk_aad v t e r m p = build_chunk_aad v' t' e' r' m' p' \<longleftrightarrow>
    v = v' \<and> t = t' \<and> e = e' \<and> r = r' \<and> m = m' \<and> p = p'"
  using assms by (cases p; cases p') (auto simp: build_chunk_aad_def)

lemma chunk_aad_not_clip_aad:
  assumes "length r = 16" "length r' = 16" "length m = 16" "length m' = 16"
  shows "build_chunk_aad v t e r m p \<noteq> build_aad v' t' e' r' m'"
proof
  assume "build_chunk_aad v t e r m p = build_aad v' t' e' r' m'"
  then have "length (build_chunk_aad v t e r m p) = length (build_aad v' t' e' r' m')" by simp
  then show False using assms by (simp add: build_chunk_aad_def build_aad_def asli_const)
qed

section \<open>Splitting\<close>

lemma chunks_Nil [simp]: "chunks n [] = []"
  by (simp add: chunks.simps [of n "[]"])

lemma concat_chunks: "0 < n \<Longrightarrow> concat (chunks n xs) = xs"
proof (induction n xs rule: chunks.induct)
  case (1 n xs)
  then show ?case by (simp add: chunks.simps [of n xs])
qed

lemma length_chunks: "0 < n \<Longrightarrow> length (chunks n xs) = div_ceil (length xs) n"
proof (induction n xs rule: chunks.induct)
  case (1 n xs)
  show ?case
  proof (cases "xs = []")
    case True
    then show ?thesis using 1(2) by (simp add: chunks.simps [of n xs] div_ceil_def)
  next
    case False
    then have "length (chunks n (drop n xs)) = div_ceil (length xs - n) n" using 1 by simp
    moreover have "div_ceil (length xs) n = Suc (div_ceil (length xs - n) n)"
    proof (cases "n \<le> length xs")
      case True
      then have "length xs + n - 1 = (length xs - n + n - 1) + n" using 1(2) by simp
      then have "div_ceil (length xs) n = ((length xs - n + n - 1) + n) div n"
        by (simp only: div_ceil_def)
      also have "\<dots> = Suc ((length xs - n + n - 1) div n)"
        using 1(2) by (simp only: div_add_self2)
      finally show ?thesis by (simp only: div_ceil_def)
    next
      case small: False
      then have "length xs + n - 1 = (length xs - 1) + n" using False by (cases xs) auto
      then have "(length xs + n - 1) div n = Suc ((length xs - 1) div n)"
        using 1(2) by (simp only: div_add_self2)
      moreover have "(length xs - 1) div n = 0" "(n - 1) div n = 0" using small by simp_all
      ultimately have "(length xs + n - 1) div n = 1" "(n - 1) div n = 0" by simp_all
      then show ?thesis using small by (simp add: div_ceil_def)
    qed
    ultimately show ?thesis using False 1(2) by (simp add: chunks.simps [of n xs])
  qed
qed

section \<open>The assembly\<close>

definition held_sizes :: "bytes option list \<Rightarrow> nat list" where
  "held_sizes ps = map (\<lambda>p. case p of Some b \<Rightarrow> length b | None \<Rightarrow> 0) ps"

definition asm_inv :: "assembly \<Rightarrow> bool" where
  "asm_inv a \<longleftrightarrow>
     0 < a_chunk_count a \<and> a_chunk_count a \<le> MAX_CHUNKS
     \<and> length (a_pieces a) = unat (a_chunk_count a)
     \<and> unat (a_received a) = length (filter (\<lambda>p. p \<noteq> None) (a_pieces a))
     \<and> a_bytes a = sum_list (held_sizes (a_pieces a)) \<and> a_bytes a \<le> a_max_bytes a
     \<and> a_max_bytes a < 2 ^ 64 - 1"

lemma assembly_new_inv:
  "assembly_new m e c mx = Inr a \<Longrightarrow> mx < 2 ^ 64 - 1 \<Longrightarrow> asm_inv a"
  by (auto simp: assembly_new_def asm_inv_def held_sizes_def word_neq_0_conv not_less filter_replicate
      split: if_splits)

lemma filter_update_None:
  "i < length ps \<Longrightarrow> ps ! i = None \<Longrightarrow>
    length (filter (\<lambda>p. p \<noteq> None) (ps[i := Some b])) = Suc (length (filter (\<lambda>p. p \<noteq> None) ps))"
proof (induction ps arbitrary: i)
  case (Cons p ps)
  then show ?case by (cases i) auto
qed simp

lemma held_sizes_update:
  "i < length ps \<Longrightarrow> ps ! i = None \<Longrightarrow>
    sum_list (held_sizes (ps[i := Some b])) = sum_list (held_sizes ps) + length b"
proof (induction ps arbitrary: i)
  case (Cons p ps)
  then show ?case by (cases i) (auto simp: held_sizes_def)
qed simp

lemma accept_chunk_Inr:
  "accept_chunk a m e idx c piece = Inr a' \<longleftrightarrow>
    m = a_msg_id a \<and> e = a_epoch a \<and> c = a_chunk_count a \<and> unat idx < length (a_pieces a)
    \<and> a_pieces a ! unat idx = None
    \<and> min (a_bytes a + length piece) (2 ^ 64 - 1) \<le> a_max_bytes a
    \<and> a' = a\<lparr>a_bytes := min (a_bytes a + length piece) (2 ^ 64 - 1),
             a_pieces := (a_pieces a)[unat idx := Some piece], a_received := a_received a + 1\<rparr>"
  by (auto simp: accept_chunk_def Let_def not_less split: if_splits)

lemma received_small:
  assumes "asm_inv a"
  shows "unat (a_received a) \<le> unat (a_chunk_count a)" "unat (a_chunk_count a) \<le> 4096"
  using assms length_filter_le [of "\<lambda>p. p \<noteq> None" "a_pieces a"]
  by (auto simp: asm_inv_def MAX_CHUNKS_def word_le_nat_alt)

lemma accept_chunk_inv:
  assumes inv: "asm_inv a" and acc: "accept_chunk a m e idx c piece = Inr a'"
  shows "asm_inv a'"
proof -
  from acc have a: "unat idx < length (a_pieces a)" "a_pieces a ! unat idx = None"
    "min (a_bytes a + length piece) (2 ^ 64 - 1) \<le> a_max_bytes a"
    "a' = a\<lparr>a_bytes := min (a_bytes a + length piece) (2 ^ 64 - 1),
        a_pieces := (a_pieces a)[unat idx := Some piece], a_received := a_received a + 1\<rparr>"
    by (simp_all add: accept_chunk_Inr)
  have small: "a_bytes a + length piece \<le> a_max_bytes a" using a(3) inv by (auto simp: asm_inv_def)
  have "unat (a_received a) < 2 ^ 32 - 1"
    using received_small [OF inv] by simp
  then have "unat (a_received a + 1) = unat (a_received a) + 1"
    by (simp add: unat_word_ariths)
  then show ?thesis
    using inv a small filter_update_None [OF a(1,2)] held_sizes_update [OF a(1,2)]
    by (simp add: asm_inv_def)
qed

text \<open>Whether the assembly is complete, read off its slots.\<close>

lemma complete_iff:
  assumes "asm_inv a"
  shows "is_complete a \<longleftrightarrow> (\<forall>p \<in> set (a_pieces a). p \<noteq> None)"
proof -
  have "is_complete a \<longleftrightarrow> length (filter (\<lambda>p. p \<noteq> None) (a_pieces a)) = length (a_pieces a)"
    using assms by (simp add: is_complete_def asm_inv_def word_unat_eq_iff)
  also have "\<dots> \<longleftrightarrow> (\<forall>p \<in> set (a_pieces a). p \<noteq> None)"
  proof
    assume eq: "length (filter (\<lambda>p. p \<noteq> None) (a_pieces a)) = length (a_pieces a)"
    show "\<forall>p \<in> set (a_pieces a). p \<noteq> None"
    proof (rule ballI, rule ccontr)
      fix p assume "p \<in> set (a_pieces a)" "\<not> p \<noteq> None"
      then show False using length_filter_less [of p "a_pieces a" "\<lambda>p. p \<noteq> None"] eq by linarith
    qed
  qed (simp only: filter_True)
  finally show ?thesis .
qed

lemma join_pieces_Some: "join_pieces (map Some ps) = Inr (concat ps)"
  by (induction ps) simp_all

lemma join_pieces_None: "None \<in> set ps \<Longrightarrow> join_pieces ps = Inl ChunkIncomplete"
proof (induction ps)
  case (Cons p ps)
  then show ?case by (cases p) auto
qed simp

section \<open>Any order\<close>

text \<open>Accepting chunks one after the other, each with its number.\<close>

fun accept_all :: "assembly \<Rightarrow> bytes \<Rightarrow> u32 \<Rightarrow> u32 \<Rightarrow> (u32 \<times> bytes) list \<Rightarrow> error + assembly" where
  "accept_all a m e c [] = Inr a"
| "accept_all a m e c ((idx, piece) # xs) =
     ebind (accept_chunk a m e idx c piece) (\<lambda>a. accept_all a m e c xs)"

lemma accept_all_inv: "asm_inv a \<Longrightarrow> accept_all a m e c xs = Inr a' \<Longrightarrow> asm_inv a'"
proof (induction xs arbitrary: a)
  case (Cons x xs)
  then show ?case by (cases x) (auto simp: ebind_Inr_iff dest: accept_chunk_inv)
qed simp

text \<open>The slots after the pieces numbered in \<open>D\<close> have arrived.\<close>

definition slots :: "bytes list \<Rightarrow> nat set \<Rightarrow> bytes option list" where
  "slots ps D = map (\<lambda>i. if i \<in> D then Some (ps ! i) else None) [0..<length ps]"

lemma slots_update:
  "i < length ps \<Longrightarrow> (slots ps D)[i := Some (ps ! i)] = slots ps (insert i D)"
  by (rule nth_equalityI) (auto simp: slots_def nth_list_update)

lemma slots_all: "{..<length ps} \<subseteq> D \<Longrightarrow> slots ps D = map Some ps"
  by (rule nth_equalityI) (auto simp: slots_def)

lemma held_slots: "sum_list (held_sizes (slots ps D)) = (\<Sum>i \<in> D \<inter> {..<length ps}. length (ps ! i))"
proof -
  have "sum_list (held_sizes (slots ps D)) = (\<Sum>i = 0..<length ps. if i \<in> D then length (ps ! i) else 0)"
    by (simp add: held_sizes_def slots_def comp_def if_distrib [of "case_option _ _"] interv_sum_list_conv_sum_set_nat
        cong: if_cong)
  also have "\<dots> = (\<Sum>i \<in> {0..<length ps} \<inter> D. length (ps ! i))"
    by (simp add: sum.inter_restrict)
  finally show ?thesis by (simp add: Int_commute lessThan_atLeast0)
qed

lemma sum_lengths: "(\<Sum>i<length ps. length (ps ! i)) = length (concat ps)"
  by (simp add: length_concat sum_list_sum_nth lessThan_atLeast0)

lemma accept_all_order:
  assumes "asm_inv a" "a_msg_id a = m" "a_epoch a = e" "unat (a_chunk_count a) = length ps"
    and "a_pieces a = slots ps D" "length (concat ps) \<le> a_max_bytes a"
    and "distinct order" "set order \<inter> D = {}" "set order \<subseteq> {..<length ps}" "D \<subseteq> {..<length ps}"
  shows "\<exists>a'. accept_all a m e (a_chunk_count a) (map (\<lambda>i. (of_nat i, ps ! i)) order) = Inr a'
    \<and> asm_inv a' \<and> a_pieces a' = slots ps (D \<union> set order) \<and> a_chunk_count a' = a_chunk_count a"
  using assms
proof (induction order arbitrary: a D)
  case (Cons i order)
  have i: "i < length ps" "i \<notin> D" using Cons.prems by auto
  have n: "unat (of_nat i :: u32) = i"
    using i(1) Cons.prems(4) unat_bound [of "a_chunk_count a"] by (simp add: unat_of_nat)
  have free: "a_pieces a ! i = None" "i < length (a_pieces a)"
    using i Cons.prems(5) by (simp_all add: slots_def)
  have "a_bytes a + length (ps ! i) = (\<Sum>j \<in> insert i D. length (ps ! j))"
  proof -
    have "a_bytes a = (\<Sum>j \<in> D. length (ps ! j))"
      using Cons.prems(1,5,10) by (simp add: asm_inv_def held_slots Int_absorb2)
    moreover have "finite D" using Cons.prems(10) finite_subset by blast
    ultimately show ?thesis using i(2) by simp
  qed
  also have "\<dots> \<le> (\<Sum>j<length ps. length (ps ! j))"
    using i(1) Cons.prems(10) by (intro sum_mono2) auto
  finally have fits: "a_bytes a + length (ps ! i) \<le> a_max_bytes a"
    using Cons.prems(6) by (simp add: sum_lengths)
  define a1 where "a1 = a\<lparr>a_bytes := min (a_bytes a + length (ps ! i)) (2 ^ 64 - 1),
      a_pieces := (a_pieces a)[i := Some (ps ! i)], a_received := a_received a + 1\<rparr>"
  have step: "accept_chunk a m e (of_nat i) (a_chunk_count a) (ps ! i) = Inr a1"
    unfolding accept_chunk_Inr n a1_def using Cons.prems(2,3) free fits by simp
  have "\<exists>a'. accept_all a1 m e (a_chunk_count a1) (map (\<lambda>i. (of_nat i, ps ! i)) order) = Inr a'
      \<and> asm_inv a' \<and> a_pieces a' = slots ps (insert i D \<union> set order)
      \<and> a_chunk_count a' = a_chunk_count a1"
  proof (rule Cons.IH)
    show "asm_inv a1" by (rule accept_chunk_inv [OF Cons.prems(1) step])
    show "a_pieces a1 = slots ps (insert i D)"
      using i(1) Cons.prems(5) by (simp add: a1_def slots_update)
  qed (use Cons.prems i in \<open>auto simp: a1_def\<close>)
  then show ?case using step by (simp add: a1_def)
qed simp

lemma assembly_any_order:
  assumes "assembly_new m e c mx = Inr a" "mx < 2 ^ 64 - 1"
    and "unat c = length ps" "length (concat ps) \<le> mx"
    and "distinct order" "set order = {..<length ps}"
  shows "\<exists>a'. accept_all a m e c (map (\<lambda>i. (of_nat i, ps ! i)) order) = Inr a' \<and> is_complete a'
    \<and> join_pieces (a_pieces a') = Inr (concat ps)"
proof -
  have inv: "asm_inv a" by (rule assembly_new_inv [OF assms(1,2)])
  have f: "a_msg_id a = m" "a_epoch a = e" "a_chunk_count a = c" "a_max_bytes a = mx"
    "a_pieces a = replicate (unat c) None"
    using assms(1) by (auto simp: assembly_new_def split: if_splits)
  have "replicate (unat c) None = slots ps {}"
    using assms(3) by (intro nth_equalityI) (auto simp: slots_def)
  then obtain a' where a': "accept_all a m e c (map (\<lambda>i. (of_nat i, ps ! i)) order) = Inr a'"
    "asm_inv a'" "a_pieces a' = slots ps (set order)"
    using accept_all_order [OF inv, of m e ps "{}" order] assms f by auto
  then have "a_pieces a' = map Some ps" using assms(6) by (simp add: slots_all)
  then show ?thesis using a' complete_iff [OF a'(2)] by (simp add: join_pieces_Some)
qed

section \<open>From the sender to the receiver\<close>

text \<open>The position a chunk's header claims, and a receiver that opens each chunk there and hands it
  to the assembly.\<close>

definition header_pos :: "sealed_chunk \<Rightarrow> chunk_pos" where
  "header_pos c = \<lparr>pos_idx = sc_idx c, pos_chunk_count = sc_chunk_count c, pos_final = sc_final c\<rparr>"

fun receive_all ::
    "prims \<Rightarrow> bytes \<Rightarrow> u32 \<Rightarrow> bytes \<Rightarrow> bytes \<Rightarrow> assembly \<Rightarrow> sealed_chunk list \<Rightarrow> error + assembly" where
  "receive_all P k e r m a [] = Inr a"
| "receive_all P k e r m a (c # cs) =
     ebind (open_chunk P k e r m (sc_nonce c) (header_pos c) (sc_ciphertext c)) (\<lambda>piece.
     ebind (accept_chunk a m e (sc_idx c) (sc_chunk_count c) piece) (\<lambda>a.
       receive_all P k e r m a cs))"

lemma seal_pieces_spec:
  "seal_pieces P rnd k e r m cnt index ps = Inr out \<Longrightarrow> length out = length ps \<and>
    (\<forall>j < length ps. sc_idx (out ! j) = of_nat (index + j) \<and> sc_chunk_count (out ! j) = cnt
      \<and> (sc_final (out ! j) \<longleftrightarrow> index + j + 1 < 2 ^ 32 \<and> of_nat (index + j) + 1 = cnt)
      \<and> rnd (index + j) = Some (sc_nonce (out ! j))
      \<and> seal_chunk_with_nonce P k e r m (sc_nonce (out ! j)) (header_pos (out ! j)) (ps ! j)
          = Inr (sc_ciphertext (out ! j)))"
proof (induction ps arbitrary: index out)
  case (Cons p ps)
  then obtain n ct rest where o: "out = \<lparr>sc_idx = of_nat index, sc_chunk_count = cnt,
      sc_final = (index + 1 < 2 ^ 32 \<and> of_nat index + 1 = cnt), sc_nonce = n, sc_ciphertext = ct\<rparr> # rest"
    and s: "rnd index = Some n" "seal_chunk_with_nonce P k e r m n
      \<lparr>pos_idx = of_nat index, pos_chunk_count = cnt,
       pos_final = (index + 1 < 2 ^ 32 \<and> of_nat index + 1 = cnt)\<rparr> p = Inr ct"
    and rest: "seal_pieces P rnd k e r m cnt (index + 1) ps = Inr rest"
    by (auto simp: ebind_Inr_iff Let_def split: if_splits)
  note IH = Cons.IH [OF rest]
  show ?case
  proof (intro conjI allI impI)
    show "length out = length (p # ps)" using o IH by simp
  next
    fix j assume "j < length (p # ps)"
    then show "sc_idx (out ! j) = of_nat (index + j)" "sc_chunk_count (out ! j) = cnt"
      "sc_final (out ! j) \<longleftrightarrow> index + j + 1 < 2 ^ 32 \<and> of_nat (index + j) + 1 = cnt"
      "rnd (index + j) = Some (sc_nonce (out ! j))"
      "seal_chunk_with_nonce P k e r m (sc_nonce (out ! j)) (header_pos (out ! j)) ((p # ps) ! j)
          = Inr (sc_ciphertext (out ! j))"
      using IH s by (cases j; simp add: o header_pos_def add.assoc [symmetric])+
  qed
qed simp

lemma open_seal_chunk:
  "aead_ok P \<Longrightarrow> seal_chunk_with_nonce P k e r m n pos p = Inr c \<Longrightarrow>
    open_chunk P k e r m n pos c = Inr p"
  by (simp add: seal_chunk_with_nonce_def open_chunk_def Let_def aead_okD)

lemma receive_accept:
  assumes "\<forall>i \<in> set order. open_chunk P k e r m (sc_nonce (cs ! i)) (header_pos (cs ! i))
      (sc_ciphertext (cs ! i)) = Inr (ps ! i) \<and> sc_idx (cs ! i) = of_nat i \<and> sc_chunk_count (cs ! i) = c"
  shows "receive_all P k e r m a (map ((!) cs) order)
    = accept_all a m e c (map (\<lambda>i. (of_nat i, ps ! i)) order)"
  using assms by (induction order arbitrary: a) (auto intro: ebind_cong)

lemma seal_plaintext_chunks_Inr:
  assumes "seal_plaintext_chunks P rnd k e r m pt cb = Inr cs" "pt \<noteq> []"
  shows "seal_pieces P rnd k e r m (of_nat (length cs)) 0 (chunks (max cb 1) pt) = Inr cs"
    and "length cs = length (chunks (max cb 1) pt)" "0 < length cs" "length cs \<le> 4096"
proof -
  define n where "n = div_ceil (length pt) (max cb 1)"
  have len: "length (chunks (max cb 1) pt) = n" by (simp add: n_def length_chunks)
  have pos: "0 < n"
  proof -
    have "chunks (max cb 1) pt \<noteq> []" using assms(2) by (subst chunks.simps) simp
    then show ?thesis using len by (cases "chunks (max cb 1) pt") auto
  qed
  then have mx: "max n 1 = n" by simp
  have s: "seal_pieces P rnd k e r m (of_nat n) 0 (chunks (max cb 1) pt) = Inr cs"
    and small: "n < 2 ^ 32" "\<not> (of_nat n :: u32) > MAX_CHUNKS"
    using assms(1) [unfolded seal_plaintext_chunks_def Let_def, folded n_def, unfolded mx]
    by (auto split: if_splits)
  have cs: "length cs = n" using seal_pieces_spec [OF s] len by simp
  have "unat (of_nat n :: u32) = n" using small(1) by (simp add: unat_of_nat)
  then have "n \<le> 4096" using small(2) by (simp add: MAX_CHUNKS_def word_less_nat_alt)
  then show "seal_pieces P rnd k e r m (of_nat (length cs)) 0 (chunks (max cb 1) pt) = Inr cs"
    "length cs = length (chunks (max cb 1) pt)" "0 < length cs" "length cs \<le> 4096"
    using s cs len pos by simp_all
qed

section \<open>Properties\<close>


text \<open>A chunk verifies only where it was sealed: its associated data determine the message, the
  index, the total and the final flag, and are never those of a single clip, so a ciphertext that
  opens only under what it was sealed with cannot be reordered, moved to another message, or
  presented as the last one or as a whole clip.\<close>

theorem chunk_position_bound:
  assumes "aead_bound P ct k n (build_chunk_aad CHUNK_PROTOCOL_VERSION (pos_type_code pos) e r m pos)"
    and "length r = 16" "length m = 16" "length r' = 16" "length m' = 16"
  shows "(open_chunk P k' e' r' m' n' pos' ct = Inl Open
      \<or> k' = k \<and> e' = e \<and> r' = r \<and> m' = m \<and> n' = n \<and> pos' = pos)
    \<and> open_typed P t k' e' r' m' n' ct = Inl Open"
proof
  show "open_chunk P k' e' r' m' n' pos' ct = Inl Open
      \<or> k' = k \<and> e' = e \<and> r' = r \<and> m' = m \<and> n' = n \<and> pos' = pos"
  proof (cases "p_aead_open P k' n' (build_chunk_aad CHUNK_PROTOCOL_VERSION (pos_type_code pos') e' r' m' pos') ct")
    case None
    then show ?thesis by (simp add: open_chunk_def Let_def)
  next
    case (Some p)
    then show ?thesis
      using aead_boundD [OF assms(1) Some] build_chunk_aad_inject [of r' r m' m] assms(2-5) by blast
  qed
  show "open_typed P t k' e' r' m' n' ct = Inl Open"
  proof (cases "p_aead_open P k' n' (build_aad PROTOCOL_VERSION t e' r' m') ct")
    case None
    then show ?thesis by (simp add: open_typed_def Let_def)
  next
    case (Some p)
    then show ?thesis
      using aead_boundD [OF assms(1) Some] chunk_aad_not_clip_aad [of r r' m m'] assms(2-5) by metis
  qed
qed

text \<open>Whatever arrives, an assembly holds at most its cap of bytes and 4096 slots, counts exactly
  the slots that are filled, and refuses without change a chunk of another message, epoch or total,
  outside the range, or already held; it finishes only when every slot is filled.\<close>

theorem assembly_bounded:
  assumes "assembly_new m e c mx = Inr a" "mx < 2 ^ 64 - 1"
    and "accept_all a m' e' c' xs = Inr a'"
  shows "a_bytes a' \<le> mx \<and> length (a_pieces a') \<le> 4096
    \<and> a_bytes a' = sum_list (held_sizes (a_pieces a'))
    \<and> unat (a_received a') = length (filter (\<lambda>p. p \<noteq> None) (a_pieces a'))
    \<and> (finish a' = Inl ChunkIncomplete \<or> None \<notin> set (a_pieces a'))"
proof -
  have inv: "asm_inv a'" by (rule accept_all_inv [OF assembly_new_inv [OF assms(1,2)] assms(3)])
  have "a_max_bytes a' = a_max_bytes a"
    using assms(3)
  proof (induction xs arbitrary: a)
    case (Cons x xs)
    then show ?case by (cases x) (auto simp: ebind_Inr_iff accept_chunk_Inr)
  qed simp
  also have "a_max_bytes a = mx" using assms(1) by (auto simp: assembly_new_def split: if_splits)
  finally show ?thesis
    using inv received_small(2) [OF inv] complete_iff [OF inv]
    by (auto simp: asm_inv_def finish_def)
qed


lemma chunk_position_bound_witness:
  "open_chunk (one_open [1] [2] (build_chunk_aad CHUNK_PROTOCOL_VERSION TYPE_CLIP_BEGIN 0 (replicate 16 2)
       (replicate 16 3) \<lparr>pos_idx = 0, pos_chunk_count = 2, pos_final = False\<rparr>) [9] [4])
     [1] 0 (replicate 16 2) (replicate 16 3) [2]
     \<lparr>pos_idx = 0, pos_chunk_count = 2, pos_final = True\<rparr> [9] = Inl Open"
  using chunk_position_bound [of "one_open [1] [2] (build_chunk_aad CHUNK_PROTOCOL_VERSION TYPE_CLIP_BEGIN 0
      (replicate 16 2) (replicate 16 3) \<lparr>pos_idx = 0, pos_chunk_count = 2, pos_final = False\<rparr>) [9] [4]"
      "[9]" "[1]" "[2]" "\<lparr>pos_idx = 0, pos_chunk_count = 2, pos_final = False\<rparr>" 0 "replicate 16 2" "replicate 16 3"
      "replicate 16 2" "replicate 16 3" "[1]" 0 "[2]" "\<lparr>pos_idx = 0, pos_chunk_count = 2, pos_final = True\<rparr>"]
  by (simp add: pos_type_code_def chunk_type_code_def one_open_bound)

definition ex_assembly :: assembly where
  "ex_assembly = \<lparr>a_msg_id = [7], a_epoch = 0, a_chunk_count = 2, a_pieces = [None, None],
     a_received = 0, a_bytes = 0, a_max_bytes = 100\<rparr>"

lemma assembly_bounded_witness:
  "finish (ex_assembly\<lparr>a_bytes := 3, a_pieces := [None, Some [1, 2, 3]], a_received := 1\<rparr>)
    = Inl ChunkIncomplete"
proof -
  have "unat (2 :: u32) = Suc (Suc 0)" by simp
  then have "replicate (unat (2 :: u32)) (None :: bytes option) = [None, None]"
    by (simp only: replicate.simps)
  then have a: "assembly_new [7] 0 2 100 = Inr ex_assembly"
    by (simp add: assembly_new_def MAX_CHUNKS_def ex_assembly_def)
  have "accept_all ex_assembly [7] 0 2 [(1, [1, 2, 3])]
      = Inr (ex_assembly\<lparr>a_bytes := 3, a_pieces := [None, Some [1, 2, 3]], a_received := 1\<rparr>)"
    by (simp add: accept_chunk_def ex_assembly_def)
  from assembly_bounded [OF a _ this] show ?thesis by simp
qed

end
