(* ===== verification/Announce.thy ===== *)
theory Announce
  imports Clip
begin

text \<open>
  Device announcements, \<open>crates/asli-crypto/src/announce.rs\<close>: the fixed size plaintext that hides
  the length of a name, its strict parser, shortening a name on a character boundary, and the seal
  under a type code of its own. The layout is a canonical codec: the parser accepts nothing but what
  the encoder writes.
\<close>

definition TYPE_ANNOUNCE :: byte where [asli_const]: "TYPE_ANNOUNCE = 5"
definition ANNOUNCE_VERSION :: byte where [asli_const]: "ANNOUNCE_VERSION = 1"
definition MAX_FIELD_BYTES :: nat where [asli_const]: "MAX_FIELD_BYTES = 64"
definition PLAINTEXT_LEN :: nat where [asli_const]: "PLAINTEXT_LEN = 256"

record announce =
  an_device_id :: bytes
  an_ts_ms :: u64
  an_name :: ustr
  an_os :: ustr

section \<open>Shortening\<close>

text \<open>Stepping back to a boundary; position zero always is one.\<close>

fun back_to_boundary :: "bytes \<Rightarrow> nat \<Rightarrow> nat" where
  "back_to_boundary bs 0 = 0"
| "back_to_boundary bs (Suc n) =
     (if is_char_boundary bs (Suc n) then Suc n else back_to_boundary bs n)"

definition truncate_utf8 :: "ustr \<Rightarrow> nat \<Rightarrow> ustr option" where
  "truncate_utf8 t mx =
     (if str_len t \<le> mx then Some t else str_slice_to t (back_to_boundary (utf8 t) mx))"

section \<open>The layout\<close>

definition announce_encode :: "announce \<Rightarrow> error + bytes" where
  "announce_encode a =
     (let name = utf8 (an_name a); os = utf8 (an_os a)
      in if \<not> (length name < 256 \<and> length os < 256) then Inl AnnounceField
         else if length name > MAX_FIELD_BYTES \<or> length os > MAX_FIELD_BYTES then Inl AnnounceField
         else
           let body = [ANNOUNCE_VERSION] @ [16] @ an_device_id a @ u64_be (an_ts_ms a)
                @ [byte_of (length name)] @ name @ [byte_of (length os)] @ os
           in Inr (body @ replicate (PLAINTEXT_LEN - length body) 0))"

definition announce_field :: "bytes \<Rightarrow> nat \<Rightarrow> error + (ustr \<times> nat)" where
  "announce_field buf at =
     (if \<not> at < length buf then Inl InnerMalformed
      else let len = unat (buf ! at) in
        if len > MAX_FIELD_BYTES then Inl AnnounceField
        else let start = at + 1 in
          if \<not> start + len \<le> length buf then Inl InnerMalformed
          else ebind (ok_or NotUtf8 (from_utf8 (slice start len buf))) (\<lambda>t. Inr (t, start + len)))"

definition announce_decode :: "bytes \<Rightarrow> error + announce" where
  "announce_decode buf =
     (if length buf \<noteq> PLAINTEXT_LEN then Inl InnerMalformed
      else if buf ! 0 \<noteq> ANNOUNCE_VERSION then Inl (InnerVersion (buf ! 0))
      else if buf ! 1 \<noteq> 16 then Inl InnerMalformed
      else
        let device_id = slice 2 DEVICE_ID_LEN buf;
            ts_ms = be_u64 (slice 18 8 buf)
        in ebind (announce_field buf 26) (\<lambda>(name, next).
           ebind (announce_field buf next) (\<lambda>(os, next).
             if list_ex (\<lambda>b. b \<noteq> 0) (drop next buf) then Inl InnerMalformed
             else Inr \<lparr>an_device_id = device_id, an_ts_ms = ts_ms, an_name = name, an_os = os\<rparr>)))"

section \<open>Sealing\<close>

definition announce_seal_with_nonce ::
    "prims \<Rightarrow> bytes \<Rightarrow> u32 \<Rightarrow> bytes \<Rightarrow> bytes \<Rightarrow> bytes \<Rightarrow> announce \<Rightarrow> error + bytes" where
  "announce_seal_with_nonce P enc_key epoch room_id_bytes msg_id nonce a =
     ebind (announce_encode a) (\<lambda>plaintext.
       seal_typed P TYPE_ANNOUNCE enc_key epoch room_id_bytes msg_id nonce plaintext)"

definition announce_seal ::
    "prims \<Rightarrow> rand \<Rightarrow> bytes \<Rightarrow> u32 \<Rightarrow> bytes \<Rightarrow> bytes \<Rightarrow> announce \<Rightarrow> error + sealed" where
  "announce_seal P rnd enc_key epoch room_id_bytes msg_id a =
     ebind (random_bytes rnd) (\<lambda>nonce.
     ebind (announce_seal_with_nonce P enc_key epoch room_id_bytes msg_id nonce a) (\<lambda>ciphertext.
       Inr \<lparr>s_nonce = nonce, s_ciphertext = ciphertext\<rparr>))"

definition announce_open ::
    "prims \<Rightarrow> bytes \<Rightarrow> u32 \<Rightarrow> bytes \<Rightarrow> bytes \<Rightarrow> bytes \<Rightarrow> bytes \<Rightarrow> error + announce" where
  "announce_open P enc_key epoch room_id_bytes msg_id nonce ciphertext =
     ebind (open_typed P TYPE_ANNOUNCE enc_key epoch room_id_bytes msg_id nonce ciphertext)
       announce_decode"

section \<open>Facts\<close>

lemma back_to_boundary_props:
  "back_to_boundary bs n \<le> n \<and> is_char_boundary bs (back_to_boundary bs n)
    \<and> (\<forall>j. back_to_boundary bs n < j \<and> j \<le> n \<longrightarrow> \<not> is_char_boundary bs j)"
proof (induction n)
  case 0
  then show ?case by (auto simp: is_char_boundary_def)
next
  case (Suc n)
  then show ?case by (auto simp: le_Suc_eq)
qed

lemma str_len_take_Suc:
  "n < length t \<Longrightarrow> str_len (take n t) < str_len (take (Suc n) t)"
  by (simp add: str_len_def take_Suc_conv_app_nth)

definition announce_ok :: "announce \<Rightarrow> bool" where
  "announce_ok a \<longleftrightarrow> length (an_device_id a) = DEVICE_ID_LEN \<and> text_ok (an_name a) \<and> text_ok (an_os a)"

definition announce_body :: "announce \<Rightarrow> bytes" where
  "announce_body a = [ANNOUNCE_VERSION, 16] @ an_device_id a @ u64_be (an_ts_ms a)
     @ put_text (an_name a) @ put_text (an_os a)"

definition announce_bytes :: "announce \<Rightarrow> bytes" where
  "announce_bytes a = announce_body a @ replicate (PLAINTEXT_LEN - length (announce_body a)) 0"

lemma announce_encode_ok: "announce_ok a \<Longrightarrow> announce_encode a = Inr (announce_bytes a)"
  by (simp add: announce_encode_def announce_ok_def announce_bytes_def announce_body_def Let_def
      text_ok_def put_text_def str_len_def asli_const)

lemma length_announce_body:
  "announce_ok a \<Longrightarrow> length (announce_body a) = 28 + str_len (an_name a) + str_len (an_os a)"
  by (simp add: announce_body_def announce_ok_def put_text_def str_len_def DEVICE_ID_LEN_def)

lemma length_announce_bytes: "announce_ok a \<Longrightarrow> length (announce_bytes a) = PLAINTEXT_LEN"
  using length_announce_body [of a]
  by (simp add: announce_bytes_def announce_ok_def text_ok_def asli_const)

lemma announce_field_iff:
  "announce_field buf at = Inr (t, n) \<longleftrightarrow>
    text_ok t \<and> n = at + 1 + str_len t \<and> (\<exists>z. drop at buf = put_text t @ z)"
proof
  assume f: "announce_field buf at = Inr (t, n)"
  then have at: "at < length buf" "unat (buf ! at) \<le> 64" "at + 1 + unat (buf ! at) \<le> length buf"
    "from_utf8 (slice (at + 1) (unat (buf ! at)) buf) = Some t" "n = at + 1 + unat (buf ! at)"
    by (auto simp: announce_field_def MAX_FIELD_BYTES_def Let_def ebind_Inr_iff not_less
        split: if_splits)
  from from_utf8_sound [OF at(4)] have t: "str_ok t" "utf8 t = slice (at + 1) (unat (buf ! at)) buf"
    by blast+
  then have len: "str_len t = unat (buf ! at)" using at(3) by (simp add: str_len_def slice_def)
  have "drop at buf = buf ! at # drop (at + 1) buf" using at(1) by (simp add: Cons_nth_drop_Suc)
  also have "drop (at + 1) buf = utf8 t @ drop (at + 1 + unat (buf ! at)) buf"
    using drop_slice [of "at + 1" buf "unat (buf ! at)"] t(2) by simp
  finally have "drop at buf = put_text t @ drop (at + 1 + unat (buf ! at)) buf"
    by (simp add: put_text_def len)
  then show "text_ok t \<and> n = at + 1 + str_len t \<and> (\<exists>z. drop at buf = put_text t @ z)"
    using t len at by (auto simp: text_ok_def MAX_TEXT_BYTES_def)
next
  assume a: "text_ok t \<and> n = at + 1 + str_len t \<and> (\<exists>z. drop at buf = put_text t @ z)"
  then obtain z where z: "drop at buf = byte_of (str_len t) # utf8 t @ z" by (auto simp: put_text_def)
  have ok: "str_ok t" "str_len t \<le> 64" "length (utf8 t) = str_len t"
    using a by (simp_all add: text_ok_def MAX_TEXT_BYTES_def str_len_def)
  have at: "at < length buf" using z by (metis drop_eq_Nil list.distinct(1) not_le)
  have b: "buf ! at = byte_of (str_len t)" "drop (Suc at) buf = utf8 t @ z"
    using z at by (metis hd_drop_conv_nth list.sel(1), metis drop_Suc drop_tl list.sel(3) tl_drop)
  have "length buf - Suc at = str_len t + length z" using b(2) ok(3) by (metis length_append length_drop)
  then have "Suc at + str_len t \<le> length buf" using at by linarith
  then show "announce_field buf at = Inr (t, n)"
    using a at b ok by (simp add: announce_field_def MAX_FIELD_BYTES_def Let_def slice_def from_utf8_utf8)
qed

lemma announce_decode_iff:
  "announce_decode buf = Inr a \<longleftrightarrow> announce_ok a \<and> buf = announce_bytes a"
proof
  assume d: "announce_decode buf = Inr a"
  then obtain n1 n2 where f: "length buf = 256" "buf ! 0 = ANNOUNCE_VERSION" "buf ! 1 = 16"
    "an_device_id a = slice 2 16 buf" "an_ts_ms a = be_u64 (slice 18 8 buf)"
    "announce_field buf 26 = Inr (an_name a, n1)" "announce_field buf n1 = Inr (an_os a, n2)"
    "\<not> list_ex (\<lambda>b. b \<noteq> 0) (drop n2 buf)"
    by (auto simp: announce_decode_def PLAINTEXT_LEN_def DEVICE_ID_LEN_def Let_def ebind_Inr_iff
        split: if_splits)
  have n: "text_ok (an_name a)" "n1 = 26 + length (put_text (an_name a))"
    "text_ok (an_os a)" "n2 = n1 + length (put_text (an_os a))"
    using f(6,7) by (simp_all add: announce_field_iff put_text_def str_len_def)
  obtain z1 z2 where z: "drop 26 buf = put_text (an_name a) @ z1" "drop n1 buf = put_text (an_os a) @ z2"
    using f(6,7) unfolding announce_field_iff by blast
  have "z1 = drop n1 buf" using z(1) n(2) by (metis add.commute append_eq_conv_conj drop_drop)
  moreover have "z2 = drop n2 buf" using z(2) n(4) by (metis add.commute append_eq_conv_conj drop_drop)
  ultimately have tail: "drop 26 buf = put_text (an_name a) @ put_text (an_os a) @ drop n2 buf"
    using z by simp
  have len: "length (slice 2 16 buf) = 16" "length (slice 18 8 buf) = 8"
    using f(1) by (simp_all add: slice_def)
  have "drop 2 buf = slice 2 16 buf @ slice 18 8 buf @ drop 26 buf"
    using drop_slice [of 2 buf 16] drop_slice [of 18 buf 8] by simp
  then have "buf = [ANNOUNCE_VERSION, 16] @ an_device_id a @ u64_be (an_ts_ms a) @ drop 26 buf"
    using f(1-5) len by (cases buf; cases "tl buf") (auto simp: words_be_inverse)
  then have "buf = announce_body a @ drop n2 buf"
    unfolding announce_body_def using tail by (metis append.assoc)
  moreover have "drop n2 buf = replicate (length (drop n2 buf)) 0" using f(8) zeros_iff by blast
  moreover have ok: "announce_ok a" using n f(4) len by (simp add: announce_ok_def DEVICE_ID_LEN_def)
  moreover from calculation(1) have "length (drop n2 buf) = 256 - length (announce_body a)"
    using f(1) by (metis add_diff_cancel_left' length_append)
  ultimately show "announce_ok a \<and> buf = announce_bytes a"
    unfolding announce_bytes_def PLAINTEXT_LEN_def by metis
next
  assume a: "announce_ok a \<and> buf = announce_bytes a"
  define z where "z = replicate (PLAINTEXT_LEN - length (announce_body a)) (0::byte)"
  have buf: "buf = [ANNOUNCE_VERSION, 16] @ an_device_id a @ u64_be (an_ts_ms a)
     @ put_text (an_name a) @ put_text (an_os a) @ z"
    using a by (simp add: announce_bytes_def announce_body_def z_def)
  have id: "length (an_device_id a) = 16" "text_ok (an_name a)" "text_ok (an_os a)"
    using a by (simp_all add: announce_ok_def DEVICE_ID_LEN_def)
  have d1: "drop 26 buf = put_text (an_name a) @ put_text (an_os a) @ z"
    using id(1) by (simp add: buf)
  then have d2: "drop (26 + length (put_text (an_name a))) buf = put_text (an_os a) @ z"
    by (simp add: add.commute flip: drop_drop)
  then have d3: "drop (26 + length (put_text (an_name a)) + length (put_text (an_os a))) buf = z"
    by (metis add.commute append_eq_conv_conj drop_drop)
  have "length buf = 256" using a length_announce_bytes [of a] by (simp add: PLAINTEXT_LEN_def)
  moreover have "announce_field buf 26 = Inr (an_name a, 26 + length (put_text (an_name a)))"
    unfolding announce_field_iff using id d1 by (simp add: put_text_def str_len_def)
  moreover have "announce_field buf (26 + length (put_text (an_name a)))
      = Inr (an_os a, 26 + length (put_text (an_name a)) + length (put_text (an_os a)))"
    unfolding announce_field_iff using id d2 by (simp add: put_text_def str_len_def)
  moreover note d3
  moreover have "slice 2 16 buf = an_device_id a" "slice 18 8 buf = u64_be (an_ts_ms a)"
    "buf ! 0 = ANNOUNCE_VERSION" "buf ! 1 = 16"
    using id by (simp_all add: buf slice_def)
  moreover have "\<not> list_ex (\<lambda>b. b \<noteq> 0) z" by (simp add: z_def list_ex_iff)
  ultimately show "announce_decode buf = Inr a"
    by (simp add: announce_decode_def PLAINTEXT_LEN_def DEVICE_ID_LEN_def)
qed

interpretation announce_layout: canonical_codec announce_ok announce_bytes announce_decode
  by unfold_locales (simp_all add: announce_decode_iff)

section \<open>Properties\<close>

text \<open>Shortening a name never splits a character, never fails, and drops no more than it must: the
  result is a prefix of whole characters that fits the bound, and one character more would not.\<close>

theorem truncate_utf8_maximal:
  assumes "str_ok t"
  shows "\<exists>n. truncate_utf8 t mx = Some (take n t) \<and> str_len (take n t) \<le> mx
    \<and> (n < length t \<longrightarrow> mx < str_len (take (Suc n) t))"
proof (cases "str_len t \<le> mx")
  case True
  then show ?thesis by (intro exI [of _ "length t"]) (simp add: truncate_utf8_def)
next
  case False
  define e where "e = back_to_boundary (utf8 t) mx"
  have e: "e \<le> mx" "is_char_boundary (utf8 t) e"
    "\<And>j. e < j \<Longrightarrow> j \<le> mx \<Longrightarrow> \<not> is_char_boundary (utf8 t) j"
    using back_to_boundary_props [of "utf8 t" mx] by (auto simp: e_def)
  obtain n where n: "e = length (utf8 (take n t))"
    using e(2) boundary_iff [OF assms] by blast
  have "truncate_utf8 t mx = Some (take n t)"
    using False str_slice_to_take [OF assms, of n] by (simp add: truncate_utf8_def e_def [symmetric] n)
  moreover have "mx < str_len (take (Suc n) t)" if "n < length t"
  proof (rule ccontr)
    assume "\<not> mx < str_len (take (Suc n) t)"
    moreover have "e < str_len (take (Suc n) t)"
      using str_len_take_Suc [OF that] by (simp add: n str_len_def)
    ultimately have "\<not> is_char_boundary (utf8 t) (str_len (take (Suc n) t))" using e(3) by simp
    then show False using boundary_iff [OF assms] by (auto simp: str_len_def)
  qed
  ultimately show ?thesis using e(1) n by (auto simp: str_len_def)
qed

text \<open>The announcement parser is strict: it accepts exactly what the encoder writes for a device id
  of sixteen bytes and two texts within the bound, so every field, both lengths and every byte of the
  padding are checked, and one announcement has one plaintext.\<close>

theorem announce_strict:
  "announce_decode buf = Inr a \<longleftrightarrow> announce_ok a \<and> announce_encode a = Inr buf"
  using announce_layout.dec_iff [of buf a] announce_encode_ok [of a] by auto

text \<open>A sealed announcement opens to itself under the key, room and message id it was sealed for,
  and every one has the same length, whatever the names in it.\<close>

theorem announce_roundtrip:
  assumes "aead_ok P" "aead_tagged P" "announce_ok a" "announce_seal P rnd k e r m a = Inr s"
  shows "announce_open P k e r m (s_nonce s) (s_ciphertext s) = Inr a \<and> length (s_ciphertext s) = 272"
proof -
  obtain n c where c: "seal_typed P TYPE_ANNOUNCE k e r m n (announce_bytes a) = Inr c"
    "s = \<lparr>s_nonce = n, s_ciphertext = c\<rparr>"
    using assms(4) by (auto simp: announce_seal_def announce_seal_with_nonce_def ebind_Inr_iff
        announce_encode_ok [OF assms(3)])
  have "length c = PLAINTEXT_LEN + 16"
    using c(1) aead_taggedD [OF assms(2)] length_announce_bytes [OF assms(3)]
    by (auto simp: seal_typed_def Let_def)
  then show ?thesis
    using c open_seal_typed [OF assms(1) c(1)] announce_layout.dec_enc [OF assms(3)]
    by (simp add: announce_open_def PLAINTEXT_LEN_def)
qed

definition ex_announce :: announce where
  "ex_announce = \<lparr>an_device_id = replicate 16 1, an_ts_ms = 5, an_name = ulit ''laptop'',
     an_os = ulit ''Linux''\<rparr>"

lemma ex_announce_ok: "announce_ok ex_announce"
  by (simp add: announce_ok_def ex_announce_def DEVICE_ID_LEN_def text_ok_def MAX_TEXT_BYTES_def
      str_len_ascii str_ok_ascii ulit_def is_scalar_def)

lemma truncate_utf8_maximal_witness:
  "\<exists>n. truncate_utf8 [0xE9, 0x1F600, 97] 5 = Some (take n [0xE9, 0x1F600, 97])
    \<and> str_len (take n [0xE9, 0x1F600, 97]) \<le> 5"
  using truncate_utf8_maximal [of "[0xE9, 0x1F600, 97]" 5] by (auto simp: is_scalar_def)

lemma announce_roundtrip_witness:
  "\<exists>s. announce_seal toy_prims (Some (replicate 24 7)) [1] 0 (replicate 16 2) (replicate 16 3) ex_announce = Inr s
    \<and> length (s_ciphertext s) = 272"
proof -
  obtain s where s: "announce_seal toy_prims (Some (replicate 24 7)) [1] 0 (replicate 16 2) (replicate 16 3) ex_announce = Inr s"
    by (simp add: announce_seal_def announce_seal_with_nonce_def announce_encode_ok [OF ex_announce_ok]
        seal_typed_def toy_prims_def Let_def)
  then show ?thesis using announce_roundtrip [OF toy_ok(1) toy_ok(2) ex_announce_ok s] by blast
qed

end
