(* ===== verification/Device.thy ===== *)
theory Device
  imports Clip
begin

text \<open>
  A device's own keys and the sealed box, \<open>crates/asli-crypto/src/device.rs\<close>: an anonymous sender
  to one recipient, for one named purpose. The lemmas show that the recipient opens what was sealed
  to it and that a box is opened only by the key that its two public keys, the shared secret and the
  purpose determine.
\<close>

definition LABEL_DEVICE_SALT :: bytes where [asli_const]: "LABEL_DEVICE_SALT = ascii ''asli/v2/device-salt''"
definition LABEL_DEVICE_SIGN2 :: bytes where [asli_const]: "LABEL_DEVICE_SIGN2 = ascii ''asli/v2/device-sign''"
definition LABEL_DEVICE_BOX :: bytes where [asli_const]: "LABEL_DEVICE_BOX = ascii ''asli/v2/device-box''"
definition BOX_PUB_LEN :: nat where [asli_const]: "BOX_PUB_LEN = 32"
definition SEALED_BOX_OVERHEAD :: nat where
  [asli_const]: "SEALED_BOX_OVERHEAD = BOX_PUB_LEN + NONCE_LEN + TAG_LEN"

record device_keys =
  dk_secret :: bytes
  dk_signing_key :: bytes
  dk_box_secret :: bytes

definition keys_from_secret :: "prims \<Rightarrow> bytes \<Rightarrow> device_keys" where
  "keys_from_secret P secret =
     (let hk = p_hkdf_extract P LABEL_DEVICE_SALT secret
      in \<lparr>dk_secret = secret,
          dk_signing_key = p_hkdf_expand P hk LABEL_DEVICE_SIGN2 KEY_LEN,
          dk_box_secret = p_hkdf_expand P hk LABEL_DEVICE_BOX KEY_LEN\<rparr>)"

definition keys_generate :: "prims \<Rightarrow> rand \<Rightarrow> error + device_keys" where
  "keys_generate P r = ebind (random_bytes r) (\<lambda>secret. Inr (keys_from_secret P secret))"

definition sign_pub :: "prims \<Rightarrow> device_keys \<Rightarrow> bytes" where
  "sign_pub P keys = p_ed_pub P (dk_signing_key keys)"

definition box_pub :: "prims \<Rightarrow> device_keys \<Rightarrow> bytes" where
  "box_pub P keys = p_x_pub P (dk_box_secret keys)"

definition dk_sign :: "prims \<Rightarrow> device_keys \<Rightarrow> bytes \<Rightarrow> bytes" where
  "dk_sign P keys message = p_ed_sign P (dk_signing_key keys) message"

definition box_key :: "prims \<Rightarrow> bytes \<Rightarrow> bytes \<Rightarrow> bytes \<Rightarrow> bytes \<Rightarrow> bytes" where
  "box_key P shared eph_pub recipient label =
     p_hkdf_expand P (p_hkdf_extract P (eph_pub @ recipient) shared) label KEY_LEN"

definition seal_box_with :: "prims \<Rightarrow> bytes \<Rightarrow> bytes \<Rightarrow> bytes \<Rightarrow> bytes \<Rightarrow> bytes \<Rightarrow> error + bytes" where
  "seal_box_with P eph_secret nonce recipient label plaintext =
     (let eph_pub = p_x_pub P eph_secret;
          shared = p_x_dh P eph_secret recipient
      in if \<not> p_x_contributory P eph_secret recipient then Inl BadPublicKey
         else
           let key = box_key P shared eph_pub recipient label
           in ebind (ok_or Seal (p_aead_seal P key nonce label plaintext)) (\<lambda>ciphertext.
                Inr (eph_pub @ nonce @ ciphertext)))"

definition seal_box :: "prims \<Rightarrow> rand \<Rightarrow> rand \<Rightarrow> bytes \<Rightarrow> bytes \<Rightarrow> bytes \<Rightarrow> error + bytes" where
  "seal_box P r1 r2 recipient label plaintext =
     ebind (random_bytes r1) (\<lambda>eph_secret.
     ebind (random_bytes r2) (\<lambda>nonce.
       seal_box_with P eph_secret nonce recipient label plaintext))"

definition open_box :: "prims \<Rightarrow> device_keys \<Rightarrow> bytes \<Rightarrow> bytes \<Rightarrow> error + bytes" where
  "open_box P keys label sealed =
     (if length sealed < SEALED_BOX_OVERHEAD then Inl Open
      else
        let eph_pub = slice 0 BOX_PUB_LEN sealed;
            nonce = slice BOX_PUB_LEN NONCE_LEN sealed;
            shared = p_x_dh P (dk_box_secret keys) eph_pub
        in if \<not> p_x_contributory P (dk_box_secret keys) eph_pub then Inl Open
           else
             let key = box_key P shared eph_pub (box_pub P keys) label
             in ok_or Open (p_aead_open P key nonce label (drop (BOX_PUB_LEN + NONCE_LEN) sealed)))"

section \<open>Facts\<close>

lemma seal_box_open:
  assumes P: "aead_ok P" "aead_tagged P" "dh_ok P" and n: "length nonce = 24"
    and s: "seal_box_with P eph nonce (box_pub P keys) label plaintext = Inr b"
  shows "open_box P keys label b = Inr plaintext" "length b = length plaintext + SEALED_BOX_OVERHEAD"
proof -
  let ?e = "p_x_pub P eph"
  obtain c where c: "p_aead_seal P (box_key P (p_x_dh P eph (box_pub P keys)) ?e (box_pub P keys) label)
      nonce label plaintext = Some c" "b = ?e @ nonce @ c"
    using s by (auto simp: seal_box_with_def Let_def ebind_Inr_iff split: if_splits)
  have e: "length ?e = 32" using dh_okD [OF P(3)] by blast
  have l: "length c = length plaintext + 16" by (rule aead_taggedD [OF P(2) c(1)])
  have dh: "p_x_dh P (dk_box_secret keys) ?e = p_x_dh P eph (box_pub P keys)"
    "p_x_contributory P (dk_box_secret keys) ?e"
    using dh_okD [OF P(3)] by (simp_all add: box_pub_def)
  have sl: "slice 0 32 b = ?e" "slice 32 24 b = nonce" "drop 56 b = c"
    using e n by (simp_all add: c(2) slice_def)
  show "length b = length plaintext + SEALED_BOX_OVERHEAD"
    using e n l by (simp add: c(2) asli_const)
  then show "open_box P keys label b = Inr plaintext"
    using sl dh aead_okD [OF P(1) c(1)]
    by (simp add: open_box_def SEALED_BOX_OVERHEAD_def BOX_PUB_LEN_def NONCE_LEN_def TAG_LEN_def)
qed

lemma seal_box_Inr:
  "seal_box P r1 r2 k label pt = Inr b \<longleftrightarrow>
    (\<exists>eph nonce. r1 = Some eph \<and> r2 = Some nonce \<and> seal_box_with P eph nonce k label pt = Inr b)"
  by (auto simp: seal_box_def ebind_Inr_iff)

text \<open>The key, nonce and associated data a box opens under, if at all.\<close>

lemma open_box_Inr:
  "open_box P keys label b = Inr pt \<Longrightarrow>
    p_aead_open P (box_key P (p_x_dh P (dk_box_secret keys) (take 32 b)) (take 32 b) (box_pub P keys) label)
      (slice 32 24 b) label (drop 56 b) = Some pt"
  by (auto simp: open_box_def Let_def asli_const slice_def split: if_splits)

section \<open>Properties\<close>

text \<open>A box sealed to a device opens on that device, for the purpose it names, to what was sealed,
  and adds 72 bytes to it.\<close>

theorem sealed_box_opens:
  assumes "aead_ok P" "aead_tagged P" "dh_ok P" "r2 = Some nonce" "length nonce = 24"
    and "seal_box P r1 r2 (box_pub P keys) label plaintext = Inr b"
  shows "open_box P keys label b = Inr plaintext \<and> length b = length plaintext + 72"
proof -
  obtain eph where "seal_box_with P eph nonce (box_pub P keys) label plaintext = Inr b"
    using assms(4,6) by (auto simp: seal_box_Inr)
  from seal_box_open [OF assms(1-3,5) this] show ?thesis by (simp add: asli_const)
qed

text \<open>A box serves one purpose and one key: a ciphertext that opens only under what it was sealed
  with opens, behind any ephemeral key and nonce, on no device under another label, and only where
  the device derives the very key of the seal.\<close>

theorem sealed_box_bound:
  assumes "aead_bound P c key nonce label" "length e = 32" "length n = 24"
  shows "open_box P keys label' (e @ n @ c) = Inl Open
    \<or> label' = label \<and> n = nonce
      \<and> key = box_key P (p_x_dh P (dk_box_secret keys) e) e (box_pub P keys) label"
proof (cases "open_box P keys label' (e @ n @ c)")
  case (Inl err)
  have "err = Open"
  proof -
    have "ok_or Open x = Inl err \<Longrightarrow> err = Open" for x :: "bytes option" by (cases x) simp_all
    then show ?thesis using Inl by (auto simp: open_box_def Let_def split: if_splits)
  qed
  then show ?thesis using Inl by simp
next
  case (Inr pt)
  have "take 32 (e @ n @ c) = e" "slice 32 24 (e @ n @ c) = n" "drop 56 (e @ n @ c) = c"
    using assms(2,3) by (simp_all add: slice_def)
  then have "p_aead_open P (box_key P (p_x_dh P (dk_box_secret keys) e) e (box_pub P keys) label')
      n label' c = Some pt"
    using open_box_Inr [OF Inr] by simp
  then show ?thesis using aead_boundD [OF assms(1)] by metis
qed

definition ex_keys :: device_keys where "ex_keys = keys_from_secret toy_prims (replicate 32 9)"

lemma sealed_box_opens_witness:
  "\<exists>b. seal_box toy_prims (Some [4]) (Some (replicate 24 7)) (box_pub toy_prims ex_keys) [1] [2, 3] = Inr b
    \<and> open_box toy_prims ex_keys [1] b = Inr [2, 3]"
proof -
  obtain b where b: "seal_box toy_prims (Some [4]) (Some (replicate 24 7)) (box_pub toy_prims ex_keys) [1] [2, 3] = Inr b"
    by (simp add: seal_box_def seal_box_with_def toy_prims_def Let_def)
  then show ?thesis using sealed_box_opens [OF toy_ok(1,2,4) refl _ b] by auto
qed

lemma sealed_box_bound_witness:
  "open_box (one_open [5] (replicate 24 7) [1] (replicate 16 8) [6]) ex_keys [2]
     (replicate 32 3 @ replicate 24 7 @ replicate 16 8) = Inl Open"
  using sealed_box_bound [OF one_open_bound, of "replicate 32 3" "replicate 24 7" "[5]" "replicate 24 7" "[1]"
      "replicate 16 8" "[6]" ex_keys "[2]"] by simp

end
