(* ===== verification/Msg.thy ===== *)
theory Msg
  imports Device
begin

text \<open>
  Messages between devices, \<open>crates/asli-crypto/src/msg.rs\<close>: the kinds and their codes, the padded
  framing under the type code of messages, signatures over a label, a room and a body, and the device
  card. Decoding a signed message is characterised exactly: it succeeds on the bytes that encoding
  the value writes, followed by a signature that verifies, and on nothing else.
\<close>

definition TYPE_MSG :: byte where [asli_const]: "TYPE_MSG = 6"
definition MSG_VERSION :: byte where [asli_const]: "MSG_VERSION = 1"
definition PAD_TO :: nat where [asli_const]: "PAD_TO = 256"

section \<open>Kinds\<close>

datatype kind =
    Card | JoinRequest | JoinGrant | JoinDecline | Rekey | JoinWhere | About | Leave
  | FileOffer | FileAnswer | FileChunk | FileAck | FileCancel | Other byte

fun kind_code :: "kind \<Rightarrow> byte" where
  "kind_code Card = 1"
| "kind_code JoinRequest = 2"
| "kind_code JoinGrant = 3"
| "kind_code JoinDecline = 4"
| "kind_code Rekey = 5"
| "kind_code JoinWhere = 6"
| "kind_code About = 7"
| "kind_code Leave = 8"
| "kind_code FileOffer = 16"
| "kind_code FileAnswer = 17"
| "kind_code FileChunk = 18"
| "kind_code FileAck = 19"
| "kind_code FileCancel = 20"
| "kind_code (Other code) = code"

definition kind_from_code :: "byte \<Rightarrow> kind" where
  "kind_from_code code =
     (if code = 1 then Card else if code = 2 then JoinRequest else if code = 3 then JoinGrant
      else if code = 4 then JoinDecline else if code = 5 then Rekey else if code = 6 then JoinWhere
      else if code = 7 then About else if code = 8 then Leave else if code = 16 then FileOffer
      else if code = 17 then FileAnswer else if code = 18 then FileChunk else if code = 19 then FileAck
      else if code = 20 then FileCancel else Other code)"

section \<open>Framing\<close>

definition msg_plaintext :: "kind \<Rightarrow> bytes \<Rightarrow> bytes" where
  "msg_plaintext k body =
     (let used = 2 + 4 + length body;
          out = [MSG_VERSION] @ [kind_code k] @ u32_be (of_nat (length body)) @ body
      in out @ replicate (div_ceil used PAD_TO * PAD_TO - length out) 0)"

definition msg_seal ::
    "prims \<Rightarrow> rand \<Rightarrow> bytes \<Rightarrow> u32 \<Rightarrow> bytes \<Rightarrow> bytes \<Rightarrow> kind \<Rightarrow> bytes \<Rightarrow> error + sealed" where
  "msg_seal P rnd enc_key epoch room_id_bytes msg_id k body =
     (if \<not> length body < 2 ^ 32 then Inl InnerMalformed
      else
        let plaintext = msg_plaintext k body
        in ebind (random_bytes rnd) (\<lambda>nonce.
           ebind (seal_typed P TYPE_MSG enc_key epoch room_id_bytes msg_id nonce plaintext) (\<lambda>ciphertext.
             Inr \<lparr>s_nonce = nonce, s_ciphertext = ciphertext\<rparr>)))"

definition msg_parse :: "bytes \<Rightarrow> error + (kind \<times> bytes)" where
  "msg_parse plaintext =
     (if length plaintext < 6 \<or> length plaintext mod PAD_TO \<noteq> 0 then Inl InnerMalformed
      else if plaintext ! 0 \<noteq> MSG_VERSION then Inl (InnerVersion (plaintext ! 0))
      else
        let k = kind_from_code (plaintext ! 1);
            len = unat (be_u32 [plaintext ! 2, plaintext ! 3, plaintext ! 4, plaintext ! 5]);
            end = 6 + len
        in if \<not> end \<le> length plaintext then Inl InnerMalformed
           else
             let body = slice 6 len plaintext
             in if list_ex (\<lambda>b. b \<noteq> 0) (drop end plaintext) then Inl InnerMalformed
                else Inr (k, body))"

definition msg_open ::
    "prims \<Rightarrow> bytes \<Rightarrow> u32 \<Rightarrow> bytes \<Rightarrow> bytes \<Rightarrow> bytes \<Rightarrow> bytes \<Rightarrow> error + (kind \<times> bytes)" where
  "msg_open P enc_key epoch room_id_bytes msg_id nonce ciphertext =
     ebind (open_typed P TYPE_MSG enc_key epoch room_id_bytes msg_id nonce ciphertext) msg_parse"

section \<open>Signatures\<close>

definition signed_bytes :: "bytes \<Rightarrow> bytes \<Rightarrow> bytes \<Rightarrow> bytes" where
  "signed_bytes label room_id_bytes body = label @ room_id_bytes @ body"

definition sign_into :: "prims \<Rightarrow> device_keys \<Rightarrow> bytes \<Rightarrow> bytes \<Rightarrow> writer \<Rightarrow> bytes" where
  "sign_into P keys label room_id_bytes body =
     (let sig = dk_sign P keys (signed_bytes label room_id_bytes body) in w_bytes sig body)"

definition verify_tail :: "prims \<Rightarrow> bytes \<Rightarrow> bytes \<Rightarrow> bytes \<Rightarrow> bytes \<Rightarrow> error + bytes" where
  "verify_tail P label room_id_bytes body spub =
     (if length body < SIGNATURE_LEN then Inl InnerMalformed
      else
        let split = length body - SIGNATURE_LEN;
            covered = take split body;
            sig = drop split body
        in ebind (verify_signature P spub (signed_bytes label room_id_bytes covered) sig) (\<lambda>_.
             Inr covered))"

section \<open>The device card\<close>

definition LABEL_CARD :: bytes where [asli_const]: "LABEL_CARD = ascii ''asli/v2/card''"

record card =
  c_device_id :: bytes
  c_sign_pub :: bytes
  c_box_pub :: bytes
  c_ts_ms :: u64
  c_conn_id :: ustr
  c_name :: ustr
  c_os :: ustr

definition card_encode :: "prims \<Rightarrow> card \<Rightarrow> device_keys \<Rightarrow> bytes \<Rightarrow> error + bytes" where
  "card_encode P c keys room_id_bytes =
     (if sign_pub P keys \<noteq> c_sign_pub c \<or> box_pub P keys \<noteq> c_box_pub c then Inl BadPublicKey
      else
        let body = w_u64 (c_ts_ms c) (w_bytes (c_box_pub c) (w_bytes (c_sign_pub c)
              (w_bytes (c_device_id c) (w_u8 1 []))))
        in ebind (w_text (c_conn_id c) body) (\<lambda>body.
           ebind (w_text (c_name c) body) (\<lambda>body.
           ebind (w_text (c_os c) body) (\<lambda>body.
             Inr (sign_into P keys LABEL_CARD room_id_bytes body)))))"

definition card_decode :: "prims \<Rightarrow> bytes \<Rightarrow> bytes \<Rightarrow> error + card" where
  "card_decode P body room_id_bytes =
     ebind (r_u8 (r_new body)) (\<lambda>(v, r).
     if v \<noteq> 1 then Inl (InnerVersion (body ! 0)) else
     ebind (r_array DEVICE_ID_LEN r) (\<lambda>(device_id, r).
     ebind (r_array PUB_KEY_LEN r) (\<lambda>(spub, r).
     ebind (r_array BOX_PUB_LEN r) (\<lambda>(bpub, r).
     ebind (r_u64 r) (\<lambda>(ts_ms, r).
     ebind (r_text r) (\<lambda>(conn_id, r).
     ebind (r_text r) (\<lambda>(name, r).
     ebind (r_text r) (\<lambda>(os, r).
     ebind (r_bytes SIGNATURE_LEN r) (\<lambda>(_, r).
     ebind (r_done r) (\<lambda>_.
     ebind (verify_tail P LABEL_CARD room_id_bytes body spub) (\<lambda>_.
       Inr \<lparr>c_device_id = device_id, c_sign_pub = spub, c_box_pub = bpub, c_ts_ms = ts_ms,
            c_conn_id = conn_id, c_name = name, c_os = os\<rparr>)))))))))))"

section \<open>Facts\<close>

lemma kind_code_from_code [simp]: "kind_code (kind_from_code b) = b"
  by (simp add: kind_from_code_def)

text \<open>A kind this version knows, or one that names a code it does not.\<close>

definition kind_ok :: "kind \<Rightarrow> bool" where
  "kind_ok k \<longleftrightarrow> kind_from_code (kind_code k) = k"

lemma kind_ok_simps [simp]:
  "kind_ok Card" "kind_ok JoinRequest" "kind_ok JoinGrant" "kind_ok JoinDecline" "kind_ok Rekey"
  "kind_ok JoinWhere" "kind_ok About" "kind_ok Leave" "kind_ok FileOffer" "kind_ok FileAnswer"
  "kind_ok FileChunk" "kind_ok FileAck" "kind_ok FileCancel"
  "kind_ok (Other b) \<longleftrightarrow> b \<notin> {1, 2, 3, 4, 5, 6, 7, 8, 16, 17, 18, 19, 20}"
  by (auto simp: kind_ok_def kind_from_code_def)

definition frame_bytes :: "kind \<times> bytes \<Rightarrow> bytes" where
  "frame_bytes kb = [MSG_VERSION, kind_code (fst kb)] @ u32_be (of_nat (length (snd kb))) @ snd kb"

lemma drop_one: "i < length p \<Longrightarrow> drop i p = p ! i # drop (Suc i) p"
  by (simp add: Cons_nth_drop_Suc)

lemma list_of_six:
  assumes "6 \<le> length p"
  shows "p = [p ! 0, p ! 1, p ! 2, p ! 3, p ! 4, p ! 5] @ drop 6 p"
proof -
  have ne: "0 < length p" using assms by linarith
  have "p = drop 0 p" by simp
  also have "drop 0 p = p ! 0 # drop 1 p" by (simp only: drop_one [OF ne] One_nat_def)
  also have "drop 1 p = p ! 1 # drop 2 p" using drop_one [of 1 p] assms by (simp add: numeral_2_eq_2)
  also have "drop 2 p = p ! 2 # drop 3 p" using drop_one [of 2 p] assms by simp
  also have "drop 3 p = p ! 3 # drop 4 p" using drop_one [of 3 p] assms by simp
  also have "drop 4 p = p ! 4 # drop 5 p" using drop_one [of 4 p] assms by simp
  also have "drop 5 p = p ! 5 # drop 6 p" using drop_one [of 5 p] assms by simp
  finally show ?thesis by simp
qed

lemma msg_parse_iff:
  "msg_parse p = Inr (k, body) \<longleftrightarrow>
    kind_ok k \<and> length body < 2 ^ 32 \<and> 0 < length p \<and> length p mod 256 = 0
    \<and> (\<exists>n. p = frame_bytes (k, body) @ replicate n 0)"
proof
  assume m: "msg_parse p = Inr (k, body)"
  define q where "q = [p ! 2, p ! 3, p ! 4, p ! 5]"
  from m have f: "6 \<le> length p" "length p mod 256 = 0" "p ! 0 = MSG_VERSION" "k = kind_from_code (p ! 1)"
    "6 + unat (be_u32 q) \<le> length p" "body = slice 6 (unat (be_u32 q)) p"
    "\<not> list_ex (\<lambda>b. b \<noteq> 0) (drop (6 + unat (be_u32 q)) p)"
    by (auto simp: msg_parse_def PAD_TO_def Let_def q_def split: if_splits)
  have len: "length body = unat (be_u32 q)" using f(5,6) by (simp add: slice_def)
  have q: "length q = 4" by (simp add: q_def)
  have fb: "frame_bytes (k, body) = [p ! 0, p ! 1] @ q @ body"
    using f(3,4) len q by (simp add: frame_bytes_def words_be_inverse)
  have "p = [p ! 0, p ! 1, p ! 2, p ! 3, p ! 4, p ! 5] @ drop 6 p" by (rule list_of_six [OF f(1)])
  also have "\<dots> = [p ! 0, p ! 1] @ q @ drop 6 p" by (simp add: q_def)
  also have "drop 6 p = body @ drop (6 + unat (be_u32 q)) p"
    unfolding f(6) by (rule drop_slice)
  also have "drop (6 + unat (be_u32 q)) p = replicate (length (drop (6 + unat (be_u32 q)) p)) 0"
    using f(7) zeros_iff by blast
  finally have "p = frame_bytes (k, body) @ replicate (length (drop (6 + unat (be_u32 q)) p)) 0"
    by (simp only: fb append_assoc)
  moreover have "kind_ok k" using f(4) by (simp add: kind_ok_def)
  moreover have "length body < 2 ^ 32" using len unat_bound [of "be_u32 q"] by simp
  ultimately show "kind_ok k \<and> length body < 2 ^ 32 \<and> 0 < length p \<and> length p mod 256 = 0
      \<and> (\<exists>n. p = frame_bytes (k, body) @ replicate n 0)" using f(1,2) by auto
next
  assume a: "kind_ok k \<and> length body < 2 ^ 32 \<and> 0 < length p \<and> length p mod 256 = 0
    \<and> (\<exists>n. p = frame_bytes (k, body) @ replicate n 0)"
  then obtain n where p: "p = [MSG_VERSION, kind_code k] @ u32_be (of_nat (length body)) @ body @ replicate n 0"
    by (auto simp: frame_bytes_def)
  obtain b0 b1 b2 b3 where b: "u32_be (of_nat (length body)) = [b0, b1, b2, b3]"
    using length_be_words(2) [of "of_nat (length body)"]
    by (cases "u32_be (of_nat (length body))" rule: list.exhaust)
       (auto simp: length_Suc_conv numeral_eq_Suc)
  then have q: "be_u32 [b0, b1, b2, b3] = of_nat (length body)" by (metis be_words_inverse(2))
  have n: "unat (of_nat (length body) :: u32) = length body" using a by (simp add: unat_of_nat)
  have d6: "drop 6 p = body @ replicate n 0" by (simp add: p b)
  have "drop (6 + length body) p = drop (length body) (drop 6 p)" by (simp add: add.commute)
  then have d: "drop (6 + length body) p = replicate n 0" using d6 by simp
  have "6 + length body \<le> length p" "p ! 0 = MSG_VERSION" "p ! 1 = kind_code k"
    "be_u32 [p ! 2, p ! 3, p ! 4, p ! 5] = of_nat (length body)"
    by (simp_all add: p b q)
  then show "msg_parse p = Inr (k, body)"
    using a n d d6 by (simp add: msg_parse_def PAD_TO_def slice_def kind_ok_def list_ex_iff Let_def)
qed

lemma msg_plaintext_frame:
  "msg_plaintext k body = frame_bytes (k, body)
    @ replicate (div_ceil (6 + length body) 256 * 256 - (6 + length body)) 0"
  by (simp add: msg_plaintext_def frame_bytes_def PAD_TO_def Let_def)

lemma length_msg_plaintext: "length (msg_plaintext k body) = div_ceil (6 + length body) 256 * 256"
  using div_ceil_bounds(1) [of 256 "6 + length body"]
  by (simp add: msg_plaintext_frame frame_bytes_def)

lemma msg_parse_plaintext:
  "kind_ok k \<Longrightarrow> length body < 2 ^ 32 \<Longrightarrow> msg_parse (msg_plaintext k body) = Inr (k, body)"
  unfolding msg_parse_iff length_msg_plaintext
  by (auto simp: msg_plaintext_frame div_ceil_def)

interpretation framing: codec "\<lambda>(k, body). kind_ok k \<and> length body < 2 ^ 32"
    "\<lambda>(k, body). msg_plaintext k body" msg_parse
  by unfold_locales (auto simp: msg_parse_plaintext)

section \<open>Signed bodies\<close>

text \<open>What a signature that ends a body says: its label, its room and everything before it.\<close>

definition signed_by :: "prims \<Rightarrow> bytes \<Rightarrow> bytes \<Rightarrow> bytes \<Rightarrow> bytes \<Rightarrow> bytes \<Rightarrow> bool" where
  "signed_by P spub label room covered sig \<longleftrightarrow>
     length sig = SIGNATURE_LEN \<and> p_ed_key_ok P spub
     \<and> p_ed_verify_strict P spub (signed_bytes label room covered) sig"

lemma verify_tail_iff:
  "verify_tail P label room body spub = Inr covered \<longleftrightarrow>
    (\<exists>sig. body = covered @ sig \<and> signed_by P spub label room covered sig)"
proof
  assume "verify_tail P label room body spub = Inr covered"
  then have "64 \<le> length body" "covered = take (length body - 64) body"
    "signed_by P spub label room covered (drop (length body - 64) body)"
    by (auto simp: verify_tail_def signed_by_def SIGNATURE_LEN_def Let_def ebind_Inr_iff not_less
        split: if_splits)
  then show "\<exists>sig. body = covered @ sig \<and> signed_by P spub label room covered sig"
    by (metis append_take_drop_id)
next
  assume "\<exists>sig. body = covered @ sig \<and> signed_by P spub label room covered sig"
  then show "verify_tail P label room body spub = Inr covered"
    by (auto simp: verify_tail_def signed_by_def Let_def ebind_Inr_iff)
qed

lemma verify_tail_append:
  "length sig = SIGNATURE_LEN \<Longrightarrow>
    verify_tail P label room (covered @ sig) spub = Inr y \<longleftrightarrow>
      y = covered \<and> signed_by P spub label room covered sig"
  by (auto simp: verify_tail_iff signed_by_def)

lemma sign_into_signed:
  assumes "sig_ok P"
  shows "\<exists>sig. sign_into P keys label room body = body @ sig
    \<and> signed_by P (sign_pub P keys) label room body sig"
  using sig_okD [OF assms]
  by (simp add: sign_into_def Let_def w_bytes_def signed_by_def dk_sign_def sign_pub_def SIGNATURE_LEN_def)

text \<open>Labels none of which starts another keep signatures of different purposes apart.\<close>

definition prefix_free :: "bytes list \<Rightarrow> bool" where
  "prefix_free ls \<longleftrightarrow> (\<forall>a \<in> set ls. \<forall>b \<in> set ls. take (length a) b = a \<longrightarrow> a = b)"

lemma signed_bytes_inject:
  assumes "prefix_free ls" "a \<in> set ls" "b \<in> set ls" "length r = length r'"
  shows "signed_bytes a r x = signed_bytes b r' y \<longleftrightarrow> a = b \<and> r = r' \<and> x = y"
proof
  assume eq: "signed_bytes a r x = signed_bytes b r' y"
  have "take (length a) b = a \<or> take (length b) a = b"
  proof (cases "length a \<le> length b")
    case True
    have "take (length a) (a @ r @ x) = take (length a) (b @ r' @ y)"
      using eq by (simp only: signed_bytes_def)
    then show ?thesis using True by simp
  next
    case False
    have "take (length b) (a @ r @ x) = take (length b) (b @ r' @ y)"
      using eq by (simp only: signed_bytes_def)
    then show ?thesis using False by simp
  qed
  then have "a = b" using assms(1-3) unfolding prefix_free_def by metis
  then show "a = b \<and> r = r' \<and> x = y" using eq assms(4) by (simp add: signed_bytes_def)
qed simp

section \<open>Cards, exactly\<close>

definition card_ok :: "card \<Rightarrow> bool" where
  "card_ok c \<longleftrightarrow> length (c_device_id c) = DEVICE_ID_LEN \<and> length (c_sign_pub c) = PUB_KEY_LEN
     \<and> length (c_box_pub c) = BOX_PUB_LEN \<and> text_ok (c_conn_id c) \<and> text_ok (c_name c) \<and> text_ok (c_os c)"

definition card_body :: "card \<Rightarrow> bytes" where
  "card_body c = put_u8 1 @ c_device_id c @ c_sign_pub c @ c_box_pub c @ u64_be (c_ts_ms c)
     @ put_text (c_conn_id c) @ put_text (c_name c) @ put_text (c_os c)"

lemma card_encode_ok:
  assumes "card_ok c" "c_sign_pub c = sign_pub P keys" "c_box_pub c = box_pub P keys"
  shows "card_encode P c keys room = Inr (sign_into P keys LABEL_CARD room (card_body c))"
  using assms
  by (simp add: card_encode_def card_ok_def card_body_def Let_def w_u8_def w_bytes_def w_u64_def
      w_text_ok put_u8_def)

lemma card_decode_iff:
  "card_decode P body room = Inr c \<longleftrightarrow>
    card_ok c \<and> (\<exists>sig. body = card_body c @ sig
      \<and> signed_by P (c_sign_pub c) LABEL_CARD room (card_body c) sig)"
proof
  assume d: "card_decode P body room = Inr c"
  note d [unfolded card_decode_def r_new_rd field_binds, simplified field_chain prod.case]
  then obtain sig y where f: "card_ok c" "body = card_body c @ sig" "length sig = SIGNATURE_LEN"
    "verify_tail P LABEL_CARD room body (c_sign_pub c) = Inr y"
    by (auto simp: ebind_Inr_iff card_ok_def card_body_def)
  then show "card_ok c \<and> (\<exists>sig. body = card_body c @ sig
      \<and> signed_by P (c_sign_pub c) LABEL_CARD room (card_body c) sig)"
    using verify_tail_append [of sig P LABEL_CARD room "card_body c" "c_sign_pub c" y] by auto
next
  assume "card_ok c \<and> (\<exists>sig. body = card_body c @ sig
      \<and> signed_by P (c_sign_pub c) LABEL_CARD room (card_body c) sig)"
  then obtain sig where c: "card_ok c" and b: "body = card_body c @ sig"
    and s: "signed_by P (c_sign_pub c) LABEL_CARD room (card_body c) sig" by blast
  have l: "length sig = SIGNATURE_LEN" using s by (simp add: signed_by_def)
  have v: "verify_tail P LABEL_CARD room body (c_sign_pub c) = Inr (card_body c)"
    using verify_tail_append [OF l] s b by blast
  have b': "body = put_u8 1 @ c_device_id c @ c_sign_pub c @ c_box_pub c @ u64_be (c_ts_ms c)
     @ put_text (c_conn_id c) @ put_text (c_name c) @ put_text (c_os c) @ sig"
    by (simp add: b card_body_def)
  show "card_decode P body room = Inr c"
    unfolding card_decode_def b' using c l v [unfolded b']
    by (simp add: card_ok_def field_run)
qed

section \<open>Properties\<close>

text \<open>A message sealed by one device opens on another with its kind and body, a kind this version
  does not know included, and the ciphertext's length is a multiple of 256 and the tag, so it tells
  the body's length to 256 bytes only.\<close>

theorem msg_roundtrip:
  assumes "aead_ok P" "aead_tagged P" "kind_ok k"
    and "msg_seal P rnd key e r m k body = Inr s"
  shows "msg_open P key e r m (s_nonce s) (s_ciphertext s) = Inr (k, body)
    \<and> length (s_ciphertext s) = div_ceil (6 + length body) 256 * 256 + 16"
proof -
  obtain n c where c: "length body < 2 ^ 32"
    "seal_typed P TYPE_MSG key e r m n (msg_plaintext k body) = Inr c"
    "s = \<lparr>s_nonce = n, s_ciphertext = c\<rparr>"
    using assms(4) by (auto simp: msg_seal_def ebind_Inr_iff Let_def split: if_splits)
  have "length c = length (msg_plaintext k body) + 16"
    using c(2) aead_taggedD [OF assms(2)] by (auto simp: seal_typed_def Let_def)
  then show ?thesis
    using c open_seal_typed [OF assms(1) c(2)] msg_parse_plaintext [OF assms(3) c(1)]
    by (simp add: msg_open_def length_msg_plaintext)
qed

text \<open>Parsing a message plaintext accepts exactly what sealing frames: the version, the code of the
  kind, the length, the body and nothing but zeros up to a multiple of 256 bytes.\<close>

theorem msg_framing_exact:
  "msg_parse p = Inr (k, body) \<longleftrightarrow>
     kind_ok k \<and> length body < 2 ^ 32 \<and> 0 < length p \<and> length p mod 256 = 0
     \<and> (\<exists>n. p = [MSG_VERSION, kind_code k] @ u32_be (of_nat (length body)) @ body @ replicate n 0)"
  unfolding msg_parse_iff frame_bytes_def by simp

text \<open>A device card is believed exactly when it is the encoding of the card it decodes to followed
  by a signature, by the very key the card names, over the card label, the room and all of it; and a
  card is issued only for the two public keys of the device that signs it.\<close>

theorem card_exact:
  "(card_decode P body room = Inr c \<longleftrightarrow>
      card_ok c \<and> (\<exists>sig. body = card_body c @ sig
        \<and> signed_by P (c_sign_pub c) LABEL_CARD room (card_body c) sig))
   \<and> (card_ok c \<longrightarrow> card_encode P c keys room =
       (if c_sign_pub c = sign_pub P keys \<and> c_box_pub c = box_pub P keys
        then Inr (sign_into P keys LABEL_CARD room (card_body c)) else Inl BadPublicKey))"
  using card_decode_iff card_encode_ok by (auto simp: card_encode_def)

definition ex_card :: card where
  "ex_card = \<lparr>c_device_id = replicate 16 1, c_sign_pub = sign_pub toy_prims ex_keys,
     c_box_pub = box_pub toy_prims ex_keys, c_ts_ms = 5, c_conn_id = [99], c_name = [97], c_os = []\<rparr>"

lemma ex_card_ok: "card_ok ex_card"
  by (simp add: ex_card_def card_ok_def asli_const text_ok_def str_len_ascii is_scalar_def
      sign_pub_def box_pub_def toy_prims_def)

lemma card_exact_witness:
  "\<exists>w. card_encode toy_prims ex_card ex_keys [7] = Inr w \<and> card_decode toy_prims w [7] = Inr ex_card"
proof -
  have e: "card_encode toy_prims ex_card ex_keys [7] = Inr (sign_into toy_prims ex_keys LABEL_CARD [7] (card_body ex_card))"
    using card_exact [of toy_prims "[]" "[7]" ex_card ex_keys] ex_card_ok by (simp add: ex_card_def)
  obtain sig where "sign_into toy_prims ex_keys LABEL_CARD [7] (card_body ex_card) = card_body ex_card @ sig"
    "signed_by toy_prims (sign_pub toy_prims ex_keys) LABEL_CARD [7] (card_body ex_card) sig"
    using sign_into_signed [OF toy_ok(3)] by blast
  then have "card_decode toy_prims (sign_into toy_prims ex_keys LABEL_CARD [7] (card_body ex_card)) [7] = Inr ex_card"
    using card_exact [of toy_prims _ "[7]" ex_card ex_keys] ex_card_ok by (auto simp: ex_card_def)
  with e show ?thesis by blast
qed

lemma msg_roundtrip_witness:
  "\<exists>s. msg_seal toy_prims (Some (replicate 24 7)) [1] 0 (replicate 16 2) (replicate 16 3) Rekey [9, 9] = Inr s
    \<and> msg_open toy_prims [1] 0 (replicate 16 2) (replicate 16 3) (s_nonce s) (s_ciphertext s) = Inr (Rekey, [9, 9])"
proof -
  obtain s where s: "msg_seal toy_prims (Some (replicate 24 7)) [1] 0 (replicate 16 2) (replicate 16 3) Rekey [9, 9] = Inr s"
    by (simp add: msg_seal_def seal_typed_def toy_prims_def Let_def)
  then show ?thesis using msg_roundtrip [OF toy_ok(1,2) kind_ok_simps(5) s] by blast
qed

end
