(* ===== verification/File_Msg.thy ===== *)
theory File_Msg
  imports Msg
begin

text \<open>
  Sending a file to one device, \<open>crates/asli-crypto/src/file.rs\<close>: the offer, the answer, the pieces,
  the acknowledgements and the cancellation. Each decoder is shown to be canonical: it accepts exactly
  the bytes that encoding the value it returns writes. The signed ones go through one lemma on
  \<open>verify\<close>, which the messages of \<open>about.rs\<close> share.
\<close>

definition OFFER_ID_LEN :: nat where [asli_const]: "OFFER_ID_LEN = 16"
definition HASH_LEN :: nat where [asli_const]: "HASH_LEN = 32"
definition CHUNK_BYTES :: u32 where [asli_const]: "CHUNK_BYTES = 256 * 1024"
definition MAX_NAME_BYTES :: nat where [asli_const]: "MAX_NAME_BYTES = 255"
definition MAX_DIRECT_ADDRS :: nat where [asli_const]: "MAX_DIRECT_ADDRS = 4"

definition LABEL_OFFER :: bytes where [asli_const]: "LABEL_OFFER = ascii ''asli/v2/file-offer''"
definition LABEL_DIRECT_KEY :: bytes where [asli_const]: "LABEL_DIRECT_KEY = ascii ''asli/v2/file-direct-key''"
definition LABEL_ANSWER :: bytes where [asli_const]: "LABEL_ANSWER = ascii ''asli/v2/file-answer''"

section \<open>Shared pieces\<close>

definition file_version :: "reader \<Rightarrow> error + reader" where
  "file_version r = ebind (r_u8 r) (\<lambda>(v, r). if v = 1 then Inr r else Inl (InnerVersion v))"

definition file_sign :: "prims \<Rightarrow> device_keys \<Rightarrow> bytes \<Rightarrow> bytes \<Rightarrow> writer \<Rightarrow> bytes" where
  "file_sign P keys label room body =
     (let covered = label @ room @ body;
          sig = dk_sign P keys covered
      in w_bytes sig body)"

definition file_verify :: "prims \<Rightarrow> bytes \<Rightarrow> bytes \<Rightarrow> bytes \<Rightarrow> bytes \<Rightarrow> error + unit" where
  "file_verify P label room body spub =
     (if length body < SIGNATURE_LEN then Inl InnerMalformed
      else
        let split = length body - SIGNATURE_LEN;
            covered = label @ room @ take split body;
            sig = drop split body
        in if length sig = SIGNATURE_LEN then verify_signature P spub covered sig
           else Inl InnerMalformed)"

text \<open>A big endian number read out of an array, as \<open>u32::from_be_bytes(r.array()?)\<close>.\<close>

definition r_u32 :: "reader \<Rightarrow> error + (u32 \<times> reader)" where
  "r_u32 r = ebind (r_array 4 r) (\<lambda>(bs, r). Inr (be_u32 bs, r))"

definition r_u16 :: "reader \<Rightarrow> error + (u16 \<times> reader)" where
  "r_u16 r = ebind (r_array 2 r) (\<lambda>(bs, r). Inr (be_u16 bs, r))"

text \<open>A byte that is zero or one, as the flags of an answer and of an announcement of a version.\<close>

definition r_flag :: "reader \<Rightarrow> error + (bool \<times> reader)" where
  "r_flag r = ebind (r_u8 r) (\<lambda>(b, r).
     if b = 0 then Inr (False, r) else if b = 1 then Inr (True, r) else Inl InnerMalformed)"

definition flag_byte :: "bool \<Rightarrow> byte" where
  "flag_byte b = (if b then 1 else 0)"

section \<open>Where to fetch a file directly\<close>

record direct =
  dr_addrs :: "ustr list"
  dr_sealed_key :: bytes

definition direct_new ::
    "prims \<Rightarrow> rand \<Rightarrow> rand \<Rightarrow> ustr list \<Rightarrow> bytes \<Rightarrow> bytes \<Rightarrow> error + direct" where
  "direct_new P r1 r2 addrs to_box_pub key =
     (if addrs = [] \<or> length addrs > MAX_DIRECT_ADDRS then Inl AnnounceField
      else ebind (seal_box P r1 r2 to_box_pub LABEL_DIRECT_KEY key) (\<lambda>sealed_key.
        Inr \<lparr>dr_addrs = addrs, dr_sealed_key = sealed_key\<rparr>))"

definition direct_open_key :: "prims \<Rightarrow> direct \<Rightarrow> device_keys \<Rightarrow> error + bytes" where
  "direct_open_key P d keys =
     ebind (open_box P keys LABEL_DIRECT_KEY (dr_sealed_key d)) (\<lambda>opened.
       if length opened \<noteq> KEY_LEN then Inl InnerMalformed else Inr opened)"

section \<open>Offers\<close>

record offer =
  o_offer_id :: bytes
  o_from_device_id :: bytes
  o_to_device_id :: bytes
  o_size :: u64
  o_sha256 :: bytes
  o_chunk_bytes :: u32
  o_ts_ms :: u64
  o_reply_to :: ustr
  o_name :: ustr
  o_direct :: "direct option"

definition chunk_count :: "offer \<Rightarrow> u64" where
  "chunk_count f =
     (if o_chunk_bytes f = 0 then 0
      else
        let n = ucast (o_chunk_bytes f);
            whole = o_size f div n
        in max (if o_size f mod n > 0 then whole + 1 else whole) 1)"

fun w_texts :: "ustr list \<Rightarrow> writer \<Rightarrow> error + writer" where
  "w_texts [] w = Inr w"
| "w_texts (t # ts) w = ebind (w_text t w) (\<lambda>w. w_texts ts w)"

definition direct_encode :: "direct option \<Rightarrow> writer \<Rightarrow> error + writer" where
  "direct_encode d body =
     (case d of
        None \<Rightarrow> Inr (w_u8 0 body)
      | Some d \<Rightarrow>
          if dr_addrs d = [] \<or> length (dr_addrs d) > MAX_DIRECT_ADDRS then Inl AnnounceField
          else ebind (w_texts (dr_addrs d) (w_u8 (byte_of (length (dr_addrs d))) body)) (\<lambda>body.
            w_blob (dr_sealed_key d) body))"

definition offer_encode :: "prims \<Rightarrow> offer \<Rightarrow> device_keys \<Rightarrow> bytes \<Rightarrow> error + bytes" where
  "offer_encode P f keys room =
     (let name = utf8 (o_name f)
      in if \<not> length name < 2 ^ 16 then Inl AnnounceField
         else if length name > MAX_NAME_BYTES then Inl AnnounceField
         else
           let name_len = of_nat (length name);
               body = w_u64 (o_ts_ms f) (w_bytes (u32_be (o_chunk_bytes f)) (w_bytes (o_sha256 f)
                 (w_u64 (o_size f) (w_bytes (o_to_device_id f) (w_bytes (o_from_device_id f)
                 (w_bytes (o_offer_id f) (w_u8 1 [])))))))
           in ebind (w_text (o_reply_to f) body) (\<lambda>body.
              let body = w_bytes name (w_bytes (u16_be name_len) body) in
              ebind (direct_encode (o_direct f) body) (\<lambda>body.
                Inr (file_sign P keys LABEL_OFFER room body))))"

definition r_name :: "reader \<Rightarrow> error + (ustr \<times> reader)" where
  "r_name r = ebind (r_u16 r) (\<lambda>(n, r).
     let len = unat n in
     if len > MAX_NAME_BYTES then Inl AnnounceField
     else ebind (r_bytes len r) (\<lambda>(bs, r).
       ebind (ok_or NotUtf8 (from_utf8 bs)) (\<lambda>t. Inr (t, r))))"

fun r_texts :: "nat \<Rightarrow> reader \<Rightarrow> error + (ustr list \<times> reader)" where
  "r_texts 0 r = Inr ([], r)"
| "r_texts (Suc n) r = ebind (r_text r) (\<lambda>(t, r). ebind (r_texts n r) (\<lambda>(ts, r). Inr (t # ts, r)))"

definition r_direct :: "reader \<Rightarrow> error + (direct option \<times> reader)" where
  "r_direct r = ebind (r_u8 r) (\<lambda>(c, r).
     let count = unat c in
     if count > MAX_DIRECT_ADDRS then Inl AnnounceField
     else if count = 0 then Inr (None, r)
     else ebind (r_texts count r) (\<lambda>(addrs, r).
       ebind (r_blob r) (\<lambda>(sealed_key, r).
         Inr (Some \<lparr>dr_addrs = addrs, dr_sealed_key = sealed_key\<rparr>, r))))"

definition offer_read :: "bytes \<Rightarrow> error + offer" where
  "offer_read buf =
     ebind (file_version (r_new buf)) (\<lambda>r.
     ebind (r_array OFFER_ID_LEN r) (\<lambda>(offer_id, r).
     ebind (r_array DEVICE_ID_LEN r) (\<lambda>(from_device_id, r).
     ebind (r_array DEVICE_ID_LEN r) (\<lambda>(to_device_id, r).
     ebind (r_u64 r) (\<lambda>(size, r).
     ebind (r_array HASH_LEN r) (\<lambda>(sha256, r).
     ebind (r_u32 r) (\<lambda>(chunk_bytes, r).
     ebind (r_u64 r) (\<lambda>(ts_ms, r).
     ebind (r_text r) (\<lambda>(reply_to, r).
     ebind (r_name r) (\<lambda>(name, r).
     ebind (r_direct r) (\<lambda>(direct, r).
     ebind (r_done r) (\<lambda>_.
       if chunk_bytes = 0 \<or> chunk_bytes > CHUNK_BYTES then Inl InnerMalformed
       else Inr \<lparr>o_offer_id = offer_id, o_from_device_id = from_device_id,
                 o_to_device_id = to_device_id, o_size = size, o_sha256 = sha256,
                 o_chunk_bytes = chunk_bytes, o_ts_ms = ts_ms, o_reply_to = reply_to,
                 o_name = name, o_direct = direct\<rparr>))))))))))))"

definition offer_decode :: "prims \<Rightarrow> bytes \<Rightarrow> bytes \<Rightarrow> bytes \<Rightarrow> error + offer" where
  "offer_decode P body room spub =
     ebind (file_verify P LABEL_OFFER room body spub) (\<lambda>_.
       offer_read (take (length body - SIGNATURE_LEN) body))"

definition offer_claimed_sender :: "bytes \<Rightarrow> error + bytes" where
  "offer_claimed_sender body =
     ebind (file_version (r_new body)) (\<lambda>r.
     ebind (r_bytes OFFER_ID_LEN r) (\<lambda>(_, r).
     ebind (r_array DEVICE_ID_LEN r) (\<lambda>(id, _). Inr id)))"

section \<open>Answers\<close>

record answer =
  a_offer_id :: bytes
  a_from_device_id :: bytes
  a_accepted :: bool
  a_reply_to :: ustr

definition answer_encode :: "prims \<Rightarrow> answer \<Rightarrow> device_keys \<Rightarrow> bytes \<Rightarrow> error + bytes" where
  "answer_encode P a keys room =
     (let body = w_u8 (flag_byte (a_accepted a)) (w_bytes (a_from_device_id a)
            (w_bytes (a_offer_id a) (w_u8 1 [])))
      in ebind (w_text (a_reply_to a) body) (\<lambda>body.
           Inr (file_sign P keys LABEL_ANSWER room body)))"

definition answer_read :: "bytes \<Rightarrow> error + answer" where
  "answer_read buf =
     ebind (file_version (r_new buf)) (\<lambda>r.
     ebind (r_array OFFER_ID_LEN r) (\<lambda>(offer_id, r).
     ebind (r_array DEVICE_ID_LEN r) (\<lambda>(from_device_id, r).
     ebind (r_flag r) (\<lambda>(accepted, r).
     ebind (r_text r) (\<lambda>(reply_to, r).
     ebind (r_done r) (\<lambda>_.
       Inr \<lparr>a_offer_id = offer_id, a_from_device_id = from_device_id, a_accepted = accepted,
            a_reply_to = reply_to\<rparr>))))))"

definition answer_decode :: "prims \<Rightarrow> bytes \<Rightarrow> bytes \<Rightarrow> bytes \<Rightarrow> error + answer" where
  "answer_decode P body room spub =
     ebind (file_verify P LABEL_ANSWER room body spub) (\<lambda>_.
       answer_read (take (length body - SIGNATURE_LEN) body))"

definition answer_claimed_sender :: "bytes \<Rightarrow> error + bytes" where
  "answer_claimed_sender body =
     ebind (file_version (r_new body)) (\<lambda>r.
     ebind (r_bytes OFFER_ID_LEN r) (\<lambda>(_, r).
     ebind (r_array DEVICE_ID_LEN r) (\<lambda>(id, _). Inr id)))"

section \<open>Pieces, acknowledgements, cancellations\<close>

record file_chunk =
  fc_offer_id :: bytes
  fc_index :: u32
  fc_data :: bytes

definition file_chunk_encode :: "file_chunk \<Rightarrow> error + bytes" where
  "file_chunk_encode c =
     (if \<not> length (fc_data c) < 2 ^ 32 then Inl ChunkTooLarge
      else
        let len = of_nat (length (fc_data c))
        in if len > CHUNK_BYTES then Inl ChunkTooLarge
           else Inr (w_bytes (fc_data c) (w_bytes (u32_be len) (w_bytes (u32_be (fc_index c))
                  (w_bytes (fc_offer_id c) (w_u8 1 []))))))"

definition file_chunk_decode :: "bytes \<Rightarrow> error + file_chunk" where
  "file_chunk_decode body =
     ebind (file_version (r_new body)) (\<lambda>r.
     ebind (r_array OFFER_ID_LEN r) (\<lambda>(offer_id, r).
     ebind (r_u32 r) (\<lambda>(index, r).
     ebind (r_u32 r) (\<lambda>(len, r).
     if len > CHUNK_BYTES then Inl ChunkTooLarge else
     ebind (r_bytes (unat len) r) (\<lambda>(data, r).
     ebind (r_done r) (\<lambda>_.
       Inr \<lparr>fc_offer_id = offer_id, fc_index = index, fc_data = data\<rparr>))))))"

datatype ack_state = Receiving | Done | Corrupt

record ack =
  k_offer_id :: bytes
  k_received :: u32
  k_state :: ack_state

fun ack_state_byte :: "ack_state \<Rightarrow> byte" where
  "ack_state_byte Receiving = 0"
| "ack_state_byte Done = 1"
| "ack_state_byte Corrupt = 2"

definition ack_encode :: "ack \<Rightarrow> bytes" where
  "ack_encode k =
     w_u8 (ack_state_byte (k_state k)) (w_bytes (u32_be (k_received k))
       (w_bytes (k_offer_id k) (w_u8 1 [])))"

definition r_ack_state :: "reader \<Rightarrow> error + (ack_state \<times> reader)" where
  "r_ack_state r = ebind (r_u8 r) (\<lambda>(b, r).
     if b = 0 then Inr (Receiving, r) else if b = 1 then Inr (Done, r)
     else if b = 2 then Inr (Corrupt, r) else Inl InnerMalformed)"

definition ack_decode :: "bytes \<Rightarrow> error + ack" where
  "ack_decode body =
     ebind (file_version (r_new body)) (\<lambda>r.
     ebind (r_array OFFER_ID_LEN r) (\<lambda>(offer_id, r).
     ebind (r_u32 r) (\<lambda>(received, r).
     ebind (r_ack_state r) (\<lambda>(state, r).
     ebind (r_done r) (\<lambda>_.
       Inr \<lparr>k_offer_id = offer_id, k_received = received, k_state = state\<rparr>)))))"

record cancel =
  x_offer_id :: bytes

definition cancel_encode :: "cancel \<Rightarrow> bytes" where
  "cancel_encode c = w_bytes (x_offer_id c) (w_u8 1 [])"

definition cancel_decode :: "bytes \<Rightarrow> error + cancel" where
  "cancel_decode body =
     ebind (file_version (r_new body)) (\<lambda>r.
     ebind (r_array OFFER_ID_LEN r) (\<lambda>(offer_id, r).
     ebind (r_done r) (\<lambda>_. Inr \<lparr>x_offer_id = offer_id\<rparr>)))"

section \<open>The fields of these messages\<close>

lemma file_version_bind:
  "ebind (file_version (rd pre w)) f = Inr y \<longleftrightarrow>
    (\<exists>s. w = put_u8 1 @ s \<and> f (rd (pre @ put_u8 1) s) = Inr y)"
  by (auto simp: file_version_def u8_field.get_iff ebind_Inr_iff if_Inl_Inr put_u8_def)

lemma file_version_put: "file_version (rd pre (put_u8 1 @ s)) = Inr (rd (pre @ put_u8 1) s)"
  by (simp add: file_version_def u8_field.get_put)

interpretation u32_field: field "\<lambda>_. True" u32_be r_u32
proof
  fix pre w x r
  show "r_u32 (rd pre w) = Inr (x, r) \<longleftrightarrow> True \<and> (\<exists>s. w = u32_be x @ s \<and> r = rd (pre @ u32_be x) s)"
    by (auto simp: r_u32_def ebind_Inr_iff r_array_iff words_be_inverse intro: exI [of _ "u32_be x"])
qed

interpretation u16_field: field "\<lambda>_. True" u16_be r_u16
proof
  fix pre w x r
  show "r_u16 (rd pre w) = Inr (x, r) \<longleftrightarrow> True \<and> (\<exists>s. w = u16_be x @ s \<and> r = rd (pre @ u16_be x) s)"
    by (auto simp: r_u16_def ebind_Inr_iff r_array_iff words_be_inverse intro: exI [of _ "u16_be x"])
qed

interpretation flag_field: field "\<lambda>_. True" "\<lambda>b. put_u8 (flag_byte b)" r_flag
proof
  fix pre w x r
  show "r_flag (rd pre w) = Inr (x, r) \<longleftrightarrow>
      True \<and> (\<exists>s. w = put_u8 (flag_byte x) @ s \<and> r = rd (pre @ put_u8 (flag_byte x)) s)"
    (is "?l \<longleftrightarrow> ?r")
  proof
    assume ?l then show ?r
      by (auto simp: r_flag_def u8_field.get_bind flag_byte_def split: if_splits)
  next
    assume ?r then show ?l by (auto simp: r_flag_def flag_byte_def u8_field.get_put)
  qed
qed

interpretation ack_state_field: field "\<lambda>_. True" "\<lambda>k. put_u8 (ack_state_byte k)" r_ack_state
proof
  fix pre w x r
  show "r_ack_state (rd pre w) = Inr (x, r) \<longleftrightarrow>
      True \<and> (\<exists>s. w = put_u8 (ack_state_byte x) @ s \<and> r = rd (pre @ put_u8 (ack_state_byte x)) s)"
    (is "?l \<longleftrightarrow> ?r")
  proof
    assume ?l then show ?r
      by (auto simp: r_ack_state_def u8_field.get_bind split: if_splits)
  next
    assume ?r then show ?l by (cases x) (auto simp: r_ack_state_def u8_field.get_put)
  qed
qed

definition name_ok :: "ustr \<Rightarrow> bool" where
  "name_ok t \<longleftrightarrow> str_ok t \<and> str_len t \<le> MAX_NAME_BYTES"

definition put_name :: "ustr \<Rightarrow> bytes" where
  "put_name t = u16_be (of_nat (str_len t)) @ utf8 t"

interpretation name_field: field name_ok put_name r_name
proof
  fix pre w x r
  show "r_name (rd pre w) = Inr (x, r) \<longleftrightarrow>
      name_ok x \<and> (\<exists>s. w = put_name x @ s \<and> r = rd (pre @ put_name x) s)"
  proof
    assume "r_name (rd pre w) = Inr (x, r)"
    then obtain n bs s where w: "w = u16_be n @ bs @ s" "unat n \<le> MAX_NAME_BYTES"
      "length bs = unat n" "from_utf8 bs = Some x" "r = rd (pre @ u16_be n @ bs) s"
      unfolding r_name_def u16_field.get_bind
      by (auto simp: r_bytes_iff ebind_Inr_iff Let_def split: if_splits)
    then have u: "utf8 x = bs" "str_ok x" using from_utf8_sound by blast+
    then have l: "str_len x = unat n" using w(3) by (simp add: str_len_def)
    then have "put_name x = u16_be n @ bs" using u by (simp add: put_name_def)
    then show "name_ok x \<and> (\<exists>s. w = put_name x @ s \<and> r = rd (pre @ put_name x) s)"
      using w u l by (simp add: name_ok_def)
  next
    assume a: "name_ok x \<and> (\<exists>s. w = put_name x @ s \<and> r = rd (pre @ put_name x) s)"
    then obtain s where s: "w = u16_be (of_nat (str_len x)) @ utf8 x @ s"
      "r = rd ((pre @ u16_be (of_nat (str_len x))) @ utf8 x) s" by (auto simp: put_name_def)
    have "unat (of_nat (str_len x) :: u16) = str_len x" "length (utf8 x) = str_len x"
      "str_len x \<le> MAX_NAME_BYTES" "str_ok x"
      using a by (simp_all add: name_ok_def MAX_NAME_BYTES_def str_len_def unat_of_nat)
    then show "r_name (rd pre w) = Inr (x, r)"
      by (simp add: r_name_def s u16_field.get_put r_bytes_put from_utf8_utf8)
  qed
qed

definition texts_ok :: "nat \<Rightarrow> ustr list \<Rightarrow> bool" where
  "texts_ok n ts \<longleftrightarrow> length ts = n \<and> list_all text_ok ts"

definition put_texts :: "ustr list \<Rightarrow> bytes" where
  "put_texts ts = concat (map put_text ts)"

lemma r_texts_iff:
  "r_texts n (rd pre w) = Inr (ts, r) \<longleftrightarrow>
    texts_ok n ts \<and> (\<exists>s. w = put_texts ts @ s \<and> r = rd (pre @ put_texts ts) s)"
proof (induction n arbitrary: pre w ts)
  case 0
  then show ?case by (auto simp: texts_ok_def put_texts_def)
next
  case (Suc n)
  show ?case (is "?l \<longleftrightarrow> ?r")
  proof
    assume ?l then show ?r
      by (auto simp: text_field.get_iff ebind_Inr_iff Suc texts_ok_def put_texts_def)
  next
    assume ?r
    then obtain t us s where t: "ts = t # us" "text_ok t" "texts_ok n us"
      "w = put_text t @ put_texts us @ s" "r = rd ((pre @ put_text t) @ put_texts us) s"
      by (cases ts) (auto simp: texts_ok_def put_texts_def)
    have "r_texts n (rd (pre @ put_text t) (put_texts us @ s)) = Inr (us, r)"
      unfolding Suc using t(3,5) by blast
    then show ?l using t(1,2,4) by (simp add: text_field.get_put)
  qed
qed

interpretation texts_field: field "texts_ok n" put_texts "r_texts n" for n
  by unfold_locales (rule r_texts_iff)

definition direct_ok :: "direct option \<Rightarrow> bool" where
  "direct_ok d = (case d of None \<Rightarrow> True
     | Some d \<Rightarrow> dr_addrs d \<noteq> [] \<and> length (dr_addrs d) \<le> MAX_DIRECT_ADDRS
         \<and> list_all text_ok (dr_addrs d) \<and> blob_ok (dr_sealed_key d))"

definition put_direct :: "direct option \<Rightarrow> bytes" where
  "put_direct d = (case d of None \<Rightarrow> put_u8 0
     | Some d \<Rightarrow> put_u8 (byte_of (length (dr_addrs d))) @ put_texts (dr_addrs d)
         @ put_blob (dr_sealed_key d))"

interpretation direct_field: field direct_ok put_direct r_direct
proof
  fix pre w x r
  show "r_direct (rd pre w) = Inr (x, r) \<longleftrightarrow>
      direct_ok x \<and> (\<exists>s. w = put_direct x @ s \<and> r = rd (pre @ put_direct x) s)"
  proof
    assume "r_direct (rd pre w) = Inr (x, r)"
    then obtain c s where c: "w = put_u8 c @ s" "unat c \<le> MAX_DIRECT_ADDRS"
      and e: "unat c = 0 \<and> x = None \<and> r = rd (pre @ put_u8 c) s
        \<or> unat c \<noteq> 0 \<and> ebind (r_texts (unat c) (rd (pre @ put_u8 c) s)) (\<lambda>(addrs, r).
       ebind (r_blob r) (\<lambda>(sealed_key, r).
         Inr (Some \<lparr>dr_addrs = addrs, dr_sealed_key = sealed_key\<rparr>, r))) = Inr (x, r)"
      unfolding r_direct_def u8_field.get_bind by (auto simp: Let_def split: if_splits)
    from e show "direct_ok x \<and> (\<exists>s. w = put_direct x @ s \<and> r = rd (pre @ put_direct x) s)"
    proof
      assume "unat c = 0 \<and> x = None \<and> r = rd (pre @ put_u8 c) s"
      then show ?thesis using c(1) by (simp add: direct_ok_def put_direct_def unat_eq_0)
    next
      assume "unat c \<noteq> 0 \<and> ebind (r_texts (unat c) (rd (pre @ put_u8 c) s)) (\<lambda>(addrs, r).
       ebind (r_blob r) (\<lambda>(sealed_key, r).
         Inr (Some \<lparr>dr_addrs = addrs, dr_sealed_key = sealed_key\<rparr>, r))) = Inr (x, r)"
      then obtain ts b s' where x: "unat c \<noteq> 0" "texts_ok (unat c) ts" "blob_ok b"
        "s = put_texts ts @ put_blob b @ s'" "x = Some \<lparr>dr_addrs = ts, dr_sealed_key = b\<rparr>"
        "r = rd (pre @ put_u8 c @ put_texts ts @ put_blob b) s'"
        by (auto simp: texts_field.get_bind blob_field.get_bind)
      moreover have "length ts = unat c" "list_all text_ok ts" using x(2) by (simp_all add: texts_ok_def)
      moreover from this have "byte_of (length ts) = c" "ts \<noteq> []" using x(1) by auto
      ultimately show ?thesis using c by (simp add: direct_ok_def put_direct_def)
    qed
  next
    assume a: "direct_ok x \<and> (\<exists>s. w = put_direct x @ s \<and> r = rd (pre @ put_direct x) s)"
    then obtain s where s: "w = put_direct x @ s" "r = rd (pre @ put_direct x) s" by blast
    show "r_direct (rd pre w) = Inr (x, r)"
    proof (cases x)
      case None
      then show ?thesis by (simp add: s put_direct_def r_direct_def u8_field.get_put)
    next
      case (Some d)
      have l: "unat (byte_of (length (dr_addrs d))) = length (dr_addrs d)"
        "length (dr_addrs d) \<le> MAX_DIRECT_ADDRS" "dr_addrs d \<noteq> []"
        using a Some by (simp_all add: direct_ok_def MAX_DIRECT_ADDRS_def)
      have t: "texts_ok (length (dr_addrs d)) (dr_addrs d)" "blob_ok (dr_sealed_key d)"
        using a Some by (simp_all add: direct_ok_def texts_ok_def)
      show ?thesis using l
        by (simp add: s Some put_direct_def r_direct_def u8_field.get_put texts_field.get_put [OF t(1)]
            blob_field.get_put [OF t(2)] Let_def)
    qed
  qed
qed

lemmas file_chain = field_chain file_version_bind u32_field.get_bind flag_field.get_bind
  ack_state_field.get_bind name_field.get_bind direct_field.get_bind

lemmas file_run = field_run file_version_put u32_field.get_put flag_field.get_put
  ack_state_field.get_put name_field.get_put direct_field.get_put
  u32_field.get_end flag_field.get_end ack_state_field.get_end direct_field.get_end

section \<open>Signed messages\<close>

lemma file_verify_iff:
  "file_verify P label room body spub = Inr u \<longleftrightarrow>
    (\<exists>covered sig. body = covered @ sig \<and> signed_by P spub label room covered sig)"
proof
  assume "file_verify P label room body spub = Inr u"
  then have "signed_by P spub label room (take (length body - 64) body) (drop (length body - 64) body)"
    by (auto simp: file_verify_def signed_by_def signed_bytes_def SIGNATURE_LEN_def Let_def not_less
        split: if_splits)
  then show "\<exists>covered sig. body = covered @ sig \<and> signed_by P spub label room covered sig"
    by (metis append_take_drop_id)
next
  assume "\<exists>covered sig. body = covered @ sig \<and> signed_by P spub label room covered sig"
  then show "file_verify P label room body spub = Inr u"
    by (auto simp: file_verify_def signed_by_def signed_bytes_def Let_def)
qed

lemma file_sign_signed:
  assumes "sig_ok P"
  shows "\<exists>sig. file_sign P keys label room body = body @ sig
    \<and> signed_by P (sign_pub P keys) label room body sig"
  using sig_okD [OF assms]
  by (simp add: file_sign_def Let_def w_bytes_def signed_by_def signed_bytes_def dk_sign_def
      sign_pub_def SIGNATURE_LEN_def)

text \<open>A signed message: a strict body, the signature of the label, the room and the body after it.\<close>

locale signed_codec = canonical_codec ok enc dec
  for ok :: "'a \<Rightarrow> bool" and enc :: "'a \<Rightarrow> bytes" and dec :: "bytes \<Rightarrow> error + 'a" +
  fixes label :: bytes
begin

lemma decode_iff:
  "ebind (file_verify P label room body spub) (\<lambda>_. dec (take (length body - SIGNATURE_LEN) body)) = Inr x
    \<longleftrightarrow> ok x \<and> (\<exists>sig. body = enc x @ sig \<and> signed_by P spub label room (enc x) sig)"
    (is "?l \<longleftrightarrow> ?r")
proof
  assume ?l
  then obtain covered sig where "body = covered @ sig" "signed_by P spub label room covered sig"
    "dec (take (length body - SIGNATURE_LEN) body) = Inr x"
    by (auto simp: ebind_Inr_iff file_verify_iff)
  moreover from this have "take (length body - SIGNATURE_LEN) body = covered"
    by (simp add: signed_by_def)
  ultimately show ?r by (auto simp: dec_iff)
next
  assume ?r
  then obtain sig where s: "ok x" "body = enc x @ sig" "signed_by P spub label room (enc x) sig" by blast
  then have "file_verify P label room body spub = Inr ()" by (auto simp: file_verify_iff)
  moreover have "take (length body - SIGNATURE_LEN) body = enc x" using s by (simp add: signed_by_def)
  ultimately show ?l using s(1) by (simp add: dec_iff)
qed

lemma decode_signed:
  assumes "sig_ok P" "ok x" and "body = file_sign P keys label room (enc x)"
  shows "ebind (file_verify P label room body (sign_pub P keys))
    (\<lambda>_. dec (take (length body - SIGNATURE_LEN) body)) = Inr x"
  unfolding decode_iff using file_sign_signed [OF assms(1), of keys label room "enc x"] assms(2,3) by auto

end

definition offer_ok :: "offer \<Rightarrow> bool" where
  "offer_ok f \<longleftrightarrow> length (o_offer_id f) = OFFER_ID_LEN \<and> length (o_from_device_id f) = DEVICE_ID_LEN
     \<and> length (o_to_device_id f) = DEVICE_ID_LEN \<and> length (o_sha256 f) = HASH_LEN
     \<and> o_chunk_bytes f \<noteq> 0 \<and> o_chunk_bytes f \<le> CHUNK_BYTES \<and> text_ok (o_reply_to f)
     \<and> name_ok (o_name f) \<and> direct_ok (o_direct f)"

definition put_offer :: "offer \<Rightarrow> bytes" where
  "put_offer f = put_u8 1 @ o_offer_id f @ o_from_device_id f @ o_to_device_id f @ u64_be (o_size f)
     @ o_sha256 f @ u32_be (o_chunk_bytes f) @ u64_be (o_ts_ms f) @ put_text (o_reply_to f)
     @ put_name (o_name f) @ put_direct (o_direct f)"

interpretation offer_codec: signed_codec offer_ok put_offer offer_read LABEL_OFFER
proof
  fix x :: offer
  assume "offer_ok x"
  then show "offer_read (put_offer x) = Inr x"
    by (simp add: offer_ok_def put_offer_def offer_read_def file_run not_less)
next
  fix w x
  assume "offer_read w = Inr x"
  note this [unfolded offer_read_def r_new_rd, simplified file_chain prod.case]
  then show "offer_ok x \<and> put_offer x = w" by (auto simp: offer_ok_def put_offer_def)
qed

definition answer_ok :: "answer \<Rightarrow> bool" where
  "answer_ok a \<longleftrightarrow> length (a_offer_id a) = OFFER_ID_LEN \<and> length (a_from_device_id a) = DEVICE_ID_LEN
     \<and> text_ok (a_reply_to a)"

definition put_answer :: "answer \<Rightarrow> bytes" where
  "put_answer a = put_u8 1 @ a_offer_id a @ a_from_device_id a @ put_u8 (flag_byte (a_accepted a))
     @ put_text (a_reply_to a)"

interpretation answer_codec: signed_codec answer_ok put_answer answer_read LABEL_ANSWER
proof
  fix x
  assume "answer_ok x"
  then show "answer_read (put_answer x) = Inr x"
    by (simp add: answer_ok_def put_answer_def answer_read_def file_run)
next
  fix w x
  assume "answer_read w = Inr x"
  note this [unfolded answer_read_def r_new_rd, simplified file_chain prod.case]
  then show "answer_ok x \<and> put_answer x = w" by (auto simp: answer_ok_def put_answer_def)
qed

definition file_chunk_ok :: "file_chunk \<Rightarrow> bool" where
  "file_chunk_ok c \<longleftrightarrow> length (fc_offer_id c) = OFFER_ID_LEN \<and> length (fc_data c) \<le> unat CHUNK_BYTES"

definition put_file_chunk :: "file_chunk \<Rightarrow> bytes" where
  "put_file_chunk c = put_u8 1 @ fc_offer_id c @ u32_be (fc_index c)
     @ u32_be (of_nat (length (fc_data c))) @ fc_data c"

lemma unat_CHUNK_BYTES: "unat CHUNK_BYTES = 262144"
  by (simp add: CHUNK_BYTES_def)

interpretation file_chunk_codec: canonical_codec file_chunk_ok put_file_chunk file_chunk_decode
proof
  fix x
  assume x: "file_chunk_ok x"
  then have "unat (of_nat (length (fc_data x)) :: u32) = length (fc_data x)"
    by (simp add: file_chunk_ok_def unat_CHUNK_BYTES unat_of_nat)
  then show "file_chunk_decode (put_file_chunk x) = Inr x"
    using x by (simp add: file_chunk_ok_def put_file_chunk_def file_chunk_decode_def file_run
      word_less_nat_alt not_less)
next
  fix w x
  assume "file_chunk_decode w = Inr x"
  note this [unfolded file_chunk_decode_def r_new_rd, simplified file_chain prod.case]
  then show "file_chunk_ok x \<and> put_file_chunk x = w"
    by (auto simp: file_chunk_ok_def put_file_chunk_def word_less_nat_alt not_less)
qed

definition ack_ok :: "ack \<Rightarrow> bool" where
  "ack_ok k \<longleftrightarrow> length (k_offer_id k) = OFFER_ID_LEN"

lemma ack_encode_put:
  "ack_encode k = put_u8 1 @ k_offer_id k @ u32_be (k_received k) @ put_u8 (ack_state_byte (k_state k))"
  by (simp add: ack_encode_def w_u8_def w_bytes_def put_u8_def)

interpretation ack_codec: canonical_codec ack_ok ack_encode ack_decode
proof
  fix x
  assume "ack_ok x"
  then show "ack_decode (ack_encode x) = Inr x"
    by (simp add: ack_ok_def ack_encode_put ack_decode_def file_run)
next
  fix w x
  assume "ack_decode w = Inr x"
  note this [unfolded ack_decode_def r_new_rd, simplified file_chain prod.case]
  then show "ack_ok x \<and> ack_encode x = w" by (auto simp: ack_ok_def ack_encode_put)
qed

definition cancel_ok :: "cancel \<Rightarrow> bool" where
  "cancel_ok c \<longleftrightarrow> length (x_offer_id c) = OFFER_ID_LEN"

lemma cancel_encode_put: "cancel_encode c = put_u8 1 @ x_offer_id c"
  by (simp add: cancel_encode_def w_u8_def w_bytes_def put_u8_def)

interpretation cancel_codec: canonical_codec cancel_ok cancel_encode cancel_decode
proof
  fix x
  assume "cancel_ok x"
  then show "cancel_decode (cancel_encode x) = Inr x"
    using r_array_put [of "x_offer_id x" OFFER_ID_LEN "put_u8 1" "[]"]
    by (simp add: cancel_ok_def cancel_encode_put cancel_decode_def file_run)
next
  fix w x
  assume "cancel_decode w = Inr x"
  note this [unfolded cancel_decode_def r_new_rd, simplified file_chain prod.case]
  then show "cancel_ok x \<and> cancel_encode x = w" by (auto simp: cancel_ok_def cancel_encode_put)
qed

section \<open>Encoding\<close>

lemmas w_defs = w_u8_def w_u64_def w_bytes_def

lemma w_texts_ok: "list_all text_ok ts \<Longrightarrow> w_texts ts w = Inr (w @ put_texts ts)"
  by (induction ts arbitrary: w) (simp_all add: w_text_ok put_texts_def)

lemma direct_encode_ok: "direct_ok d \<Longrightarrow> direct_encode d w = Inr (w @ put_direct d)"
  by (auto simp: direct_encode_def direct_ok_def put_direct_def w_texts_ok w_blob_iff w_u8_def put_u8_def
      not_less split: option.splits)

lemma offer_encode_ok:
  "offer_ok f \<Longrightarrow> offer_encode P f keys room = Inr (file_sign P keys LABEL_OFFER room (put_offer f))"
  by (simp add: offer_encode_def offer_ok_def put_offer_def put_name_def name_ok_def MAX_NAME_BYTES_def
      str_len_def Let_def w_defs w_text_ok direct_encode_ok put_u8_def)

lemma answer_encode_ok:
  "answer_ok a \<Longrightarrow> answer_encode P a keys room = Inr (file_sign P keys LABEL_ANSWER room (put_answer a))"
  by (simp add: answer_encode_def answer_ok_def put_answer_def Let_def w_defs w_text_ok put_u8_def)

lemma file_chunk_encode_iff:
  "length (fc_offer_id c) = OFFER_ID_LEN \<Longrightarrow>
    file_chunk_encode c = Inr w \<longleftrightarrow> file_chunk_ok c \<and> w = put_file_chunk c"
  by (auto simp: file_chunk_encode_def file_chunk_ok_def put_file_chunk_def Let_def w_defs put_u8_def
      word_less_nat_alt unat_of_nat unat_CHUNK_BYTES)

section \<open>Counting the pieces\<close>

lemma ceil_no_overflow:
  fixes s n :: nat
  assumes "s < m" "0 < s mod n"
  shows "s div n + 1 < m"
proof -
  have "s div n + s mod n \<le> s div n * n + s mod n" using assms(2) by (cases n) simp_all
  then show ?thesis using assms by (simp add: div_mult_mod_eq)
qed

lemma ceil_covers:
  fixes s n :: nat
  assumes "0 < n" and "q = max (if 0 < s mod n then s div n + 1 else s div n) 1"
  shows "1 \<le> q \<and> s \<le> q * n \<and> (0 < s \<longrightarrow> (q - 1) * n < s)"
proof -
  define a r where "a = s div n" and "r = s mod n"
  have s: "s = a * n + r" "r < n" using assms(1) by (simp_all add: a_def r_def)
  then have q: "q = max (if 0 < r then a + 1 else a) 1" using assms(2) by (simp only: a_def r_def)
  show ?thesis using s by (cases "0 < r"; cases a) (auto simp: q)
qed

lemma unat_ucast_chunk: "unat (ucast (c :: u32) :: u64) = unat c"
  using unat_bound [of c] by (simp add: unsigned_ucast_eq take_bit_nat_eq_self)

lemma unat_max_one: "unat (max (w :: u64) 1) = max (unat w) 1"
  by (simp add: max_def word_le_nat_alt)

lemma unat_chunk_count:
  assumes "o_chunk_bytes f \<noteq> 0"
  shows "unat (chunk_count f) =
    (let s = unat (o_size f); n = unat (o_chunk_bytes f)
     in max (if 0 < s mod n then s div n + 1 else s div n) 1)"
proof -
  let ?n = "ucast (o_chunk_bytes f) :: u64"
  have n: "unat ?n = unat (o_chunk_bytes f)" by (simp add: unat_ucast_chunk)
  have "unat (o_size f div ?n + 1) = unat (o_size f) div unat (o_chunk_bytes f) + 1"
    if "0 < unat (o_size f) mod unat (o_chunk_bytes f)"
    using ceil_no_overflow [OF unat_bound [of "o_size f"] that] by (simp add: unat_word_ariths n)
  then show ?thesis using assms
    by (simp add: chunk_count_def Let_def word_less_nat_alt n unat_div_distrib unat_mod_distrib
       unat_max_one)
qed

section \<open>Properties\<close>

text \<open>An offer is believed exactly when it is a well formed offer followed by a signature, by the
  pinned key, over the offer label, the room and every byte of the offer; the device it claims to be
  from, read before the check, is then the one in the offer.\<close>

theorem offer_exact:
  "offer_decode P body room spub = Inr f \<longleftrightarrow>
     offer_ok f \<and> offer_claimed_sender body = Inr (o_from_device_id f)
     \<and> (\<exists>sig. body = put_offer f @ sig \<and> signed_by P spub LABEL_OFFER room (put_offer f) sig)"
proof -
  have "offer_claimed_sender (put_offer f @ sig) = Inr (o_from_device_id f)" if "offer_ok f" for sig
    using that by (simp add: offer_claimed_sender_def put_offer_def offer_ok_def file_run)
  then show ?thesis unfolding offer_decode_def offer_codec.decode_iff by blast
qed

text \<open>Encoding a well formed offer or answer always succeeds, and what it gives decodes, under the
  signer's public key, to the same offer or answer.\<close>

theorem offer_answer_roundtrip:
  assumes "sig_ok P" "offer_ok f" "answer_ok a"
  shows "\<exists>w v. offer_encode P f keys room = Inr w
    \<and> offer_decode P w room (sign_pub P keys) = Inr f
    \<and> answer_encode P a keys room = Inr v
    \<and> answer_decode P v room (sign_pub P keys) = Inr a"
  using assms offer_codec.decode_signed [OF assms(1,2) refl]
    answer_codec.decode_signed [OF assms(1,3) refl]
  by (simp add: offer_encode_ok answer_encode_ok offer_decode_def answer_decode_def)

text \<open>The pieces an offer counts are at least one, cover the whole file, and one fewer would not;
  the count never overflows.\<close>

theorem chunk_count_covers:
  assumes "o_chunk_bytes f \<noteq> 0"
  shows "1 \<le> unat (chunk_count f)
    \<and> unat (o_size f) \<le> unat (chunk_count f) * unat (o_chunk_bytes f)
    \<and> (o_size f \<noteq> 0 \<longrightarrow> (unat (chunk_count f) - 1) * unat (o_chunk_bytes f) < unat (o_size f))"
proof -
  have "0 < unat (o_chunk_bytes f)" using assms by (simp add: unat_gt_0)
  from ceil_covers [OF this, of "unat (chunk_count f)" "unat (o_size f)"]
  show ?thesis using unat_chunk_count [OF assms] by (simp add: Let_def unat_gt_0)
qed

text \<open>A piece is accepted exactly when it is what encoding it writes, at most 262144 bytes of data;
  encoding refuses exactly the larger ones, and acknowledgements and cancellations are as strict.\<close>

theorem file_pieces_strict:
  "(file_chunk_decode w = Inr c \<longleftrightarrow>
      length (fc_offer_id c) = OFFER_ID_LEN \<and> length (fc_data c) \<le> 262144 \<and> file_chunk_encode c = Inr w)
   \<and> (ack_decode w = Inr k \<longleftrightarrow> length (k_offer_id k) = OFFER_ID_LEN \<and> ack_encode k = w)
   \<and> (cancel_decode w = Inr x \<longleftrightarrow> length (x_offer_id x) = OFFER_ID_LEN \<and> cancel_encode x = w)"
  using file_chunk_codec.dec_iff [of w c] ack_codec.dec_iff [of w k] cancel_codec.dec_iff [of w x]
    file_chunk_encode_iff [of c w]
  by (auto simp: file_chunk_ok_def ack_ok_def cancel_ok_def unat_CHUNK_BYTES)

definition ex_offer :: offer where
  "ex_offer = \<lparr>o_offer_id = replicate 16 1, o_from_device_id = replicate 16 2,
     o_to_device_id = replicate 16 3, o_size = 600000, o_sha256 = replicate 32 4,
     o_chunk_bytes = 262144, o_ts_ms = 5, o_reply_to = [99], o_name = [97],
     o_direct = Some \<lparr>dr_addrs = [[49]], dr_sealed_key = [1, 2]\<rparr>\<rparr>"

definition ex_answer :: answer where
  "ex_answer = \<lparr>a_offer_id = replicate 16 1, a_from_device_id = replicate 16 3, a_accepted = True,
     a_reply_to = [99]\<rparr>"

lemma ex_file_ok: "offer_ok ex_offer" "answer_ok ex_answer"
  by (simp_all add: ex_offer_def ex_answer_def offer_ok_def answer_ok_def asli_const text_ok_def name_ok_def
      direct_ok_def blob_ok_def str_len_ascii is_scalar_def)

lemma offer_answer_roundtrip_witness:
  "\<exists>w v. offer_encode toy_prims ex_offer ex_keys [7] = Inr w
    \<and> offer_decode toy_prims w [7] (sign_pub toy_prims ex_keys) = Inr ex_offer
    \<and> answer_encode toy_prims ex_answer ex_keys [7] = Inr v
    \<and> answer_decode toy_prims v [7] (sign_pub toy_prims ex_keys) = Inr ex_answer"
  by (rule offer_answer_roundtrip [OF toy_ok(3) ex_file_ok])

lemma chunk_count_covers_witness:
  "unat (chunk_count ex_offer) = 3 \<and> unat (o_size ex_offer) \<le> unat (chunk_count ex_offer) * 262144"
proof -
  have c: "chunk_count ex_offer = 3" "o_chunk_bytes ex_offer = 262144" "unat (262144 :: u32) = 262144"
    by (simp_all add: ex_offer_def chunk_count_def Let_def)
  then show ?thesis using chunk_count_covers [of ex_offer] by simp
qed

end
