(* ===== verification/About.thy ===== *)
theory About
  imports File_Msg
begin

text \<open>
  What a device says of itself, \<open>crates/asli-crypto/src/about.rs\<close>: the version it runs, and that it
  leaves the account. Both are signed messages, instances of the interface of \<open>File_Msg\<close>.
\<close>

definition LABEL_ABOUT :: bytes where [asli_const]: "LABEL_ABOUT = ascii ''asli/v2/about''"
definition LABEL_LEAVE :: bytes where [asli_const]: "LABEL_LEAVE = ascii ''asli/v2/leave''"

record about =
  ab_from_device_id :: bytes
  ab_ask :: bool
  ab_reply_to :: ustr
  ab_build :: u32
  ab_version :: ustr

definition about_encode :: "prims \<Rightarrow> about \<Rightarrow> device_keys \<Rightarrow> bytes \<Rightarrow> error + bytes" where
  "about_encode P a keys room =
     (let body = w_u8 (flag_byte (ab_ask a)) (w_bytes (ab_from_device_id a) (w_u8 1 []))
      in ebind (w_text (ab_reply_to a) body) (\<lambda>body.
         let body = w_bytes (u32_be (ab_build a)) body in
         ebind (w_text (ab_version a) body) (\<lambda>body.
           Inr (file_sign P keys LABEL_ABOUT room body))))"

definition about_read :: "bytes \<Rightarrow> error + about" where
  "about_read buf =
     ebind (file_version (r_new buf)) (\<lambda>r.
     ebind (r_array DEVICE_ID_LEN r) (\<lambda>(from_device_id, r).
     ebind (r_flag r) (\<lambda>(ask, r).
     ebind (r_text r) (\<lambda>(reply_to, r).
     ebind (r_u32 r) (\<lambda>(build, r).
     ebind (r_text r) (\<lambda>(version, r).
     ebind (r_done r) (\<lambda>_.
       Inr \<lparr>ab_from_device_id = from_device_id, ab_ask = ask, ab_reply_to = reply_to,
            ab_build = build, ab_version = version\<rparr>)))))))"

definition about_decode :: "prims \<Rightarrow> bytes \<Rightarrow> bytes \<Rightarrow> bytes \<Rightarrow> error + about" where
  "about_decode P body room spub =
     ebind (file_verify P LABEL_ABOUT room body spub) (\<lambda>_.
       about_read (take (length body - SIGNATURE_LEN) body))"

definition about_claimed_sender :: "bytes \<Rightarrow> error + bytes" where
  "about_claimed_sender body =
     ebind (file_version (r_new body)) (\<lambda>r.
     ebind (r_array DEVICE_ID_LEN r) (\<lambda>(id, _). Inr id))"

record leave =
  lv_from_device_id :: bytes
  lv_ts_ms :: u64

definition leave_encode :: "prims \<Rightarrow> leave \<Rightarrow> device_keys \<Rightarrow> bytes \<Rightarrow> bytes" where
  "leave_encode P l keys room =
     file_sign P keys LABEL_LEAVE room (w_u64 (lv_ts_ms l) (w_bytes (lv_from_device_id l) (w_u8 1 [])))"

definition leave_read :: "bytes \<Rightarrow> error + leave" where
  "leave_read buf =
     ebind (file_version (r_new buf)) (\<lambda>r.
     ebind (r_array DEVICE_ID_LEN r) (\<lambda>(from_device_id, r).
     ebind (r_u64 r) (\<lambda>(ts_ms, r).
     ebind (r_done r) (\<lambda>_.
       Inr \<lparr>lv_from_device_id = from_device_id, lv_ts_ms = ts_ms\<rparr>))))"

definition leave_decode :: "prims \<Rightarrow> bytes \<Rightarrow> bytes \<Rightarrow> bytes \<Rightarrow> error + leave" where
  "leave_decode P body room spub =
     ebind (file_verify P LABEL_LEAVE room body spub) (\<lambda>_.
       leave_read (take (length body - SIGNATURE_LEN) body))"

section \<open>The bodies\<close>

definition about_ok :: "about \<Rightarrow> bool" where
  "about_ok a \<longleftrightarrow> length (ab_from_device_id a) = DEVICE_ID_LEN \<and> text_ok (ab_reply_to a) \<and> text_ok (ab_version a)"

definition put_about :: "about \<Rightarrow> bytes" where
  "put_about a = put_u8 1 @ ab_from_device_id a @ put_u8 (flag_byte (ab_ask a)) @ put_text (ab_reply_to a)
     @ u32_be (ab_build a) @ put_text (ab_version a)"

interpretation about_codec: signed_codec about_ok put_about about_read LABEL_ABOUT
proof
  fix x
  assume "about_ok x"
  then show "about_read (put_about x) = Inr x"
    by (simp add: about_ok_def put_about_def about_read_def file_run)
next
  fix w x
  assume "about_read w = Inr x"
  note this [unfolded about_read_def r_new_rd, simplified file_chain prod.case]
  then show "about_ok x \<and> put_about x = w" by (auto simp: about_ok_def put_about_def)
qed

definition leave_ok :: "leave \<Rightarrow> bool" where
  "leave_ok l \<longleftrightarrow> length (lv_from_device_id l) = DEVICE_ID_LEN"

definition put_leave :: "leave \<Rightarrow> bytes" where
  "put_leave l = put_u8 1 @ lv_from_device_id l @ u64_be (lv_ts_ms l)"

interpretation leave_codec: signed_codec leave_ok put_leave leave_read LABEL_LEAVE
proof
  fix x
  assume "leave_ok x"
  then show "leave_read (put_leave x) = Inr x"
    by (simp add: leave_ok_def put_leave_def leave_read_def file_run)
next
  fix w x
  assume "leave_read w = Inr x"
  note this [unfolded leave_read_def r_new_rd, simplified file_chain prod.case]
  then show "leave_ok x \<and> put_leave x = w" by (auto simp: leave_ok_def put_leave_def)
qed

lemma about_encode_ok:
  "about_ok a \<Longrightarrow> about_encode P a keys room = Inr (file_sign P keys LABEL_ABOUT room (put_about a))"
  by (simp add: about_encode_def about_ok_def put_about_def Let_def w_defs w_text_ok put_u8_def)

lemma leave_encode_put: "leave_encode P l keys room = file_sign P keys LABEL_LEAVE room (put_leave l)"
  by (simp add: leave_encode_def put_leave_def w_defs put_u8_def)

section \<open>Properties\<close>

text \<open>What a device says of its version, and that it leaves, is believed exactly when the body is the
  encoding of what it decodes to, followed by a signature by the pinned key over the label of that
  message, the room and the whole body; the claimed sender is then the one in the message.\<close>

theorem about_leave_exact:
  "(about_decode P body room spub = Inr a \<longleftrightarrow>
      about_ok a \<and> about_claimed_sender body = Inr (ab_from_device_id a)
      \<and> (\<exists>sig. body = put_about a @ sig \<and> signed_by P spub LABEL_ABOUT room (put_about a) sig))
   \<and> (leave_decode P body room spub = Inr l \<longleftrightarrow>
      leave_ok l \<and> (\<exists>sig. body = put_leave l @ sig \<and> signed_by P spub LABEL_LEAVE room (put_leave l) sig))"
proof -
  have "about_claimed_sender (put_about a @ sig) = Inr (ab_from_device_id a)" if "about_ok a" for sig
    using that by (simp add: about_claimed_sender_def put_about_def about_ok_def file_run)
  then show ?thesis
    unfolding about_decode_def leave_decode_def about_codec.decode_iff leave_codec.decode_iff by blast
qed

end
