(* ===== verification/Rekey.thy ===== *)
theory Rekey
  imports File_Msg
begin

text \<open>
  Replacing the account key, \<open>crates/asli-crypto/src/rekey.rs\<close>: one device makes the new key, seals it
  to every device that stays and signs the bundle; each opens its own entry. A removed device finds a
  genuine bundle with no entry for it.
\<close>

definition LABEL_REKEY :: bytes where [asli_const]: "LABEL_REKEY = ascii ''asli/v2/rekey''"
definition MAX_RECIPIENTS :: nat where [asli_const]: "MAX_RECIPIENTS = 64"

record recipient =
  rc_device_id :: bytes
  rc_box_pub :: bytes

text \<open>The loop over the recipients; \<open>rnd i\<close> are the two draws for the \<open>i\<close>-th box.\<close>

fun w_recipients ::
    "prims \<Rightarrow> (nat \<Rightarrow> rand \<times> rand) \<Rightarrow> nat \<Rightarrow> bytes \<Rightarrow> recipient list \<Rightarrow> writer \<Rightarrow> error + writer" where
  "w_recipients P rnd i inner [] body = Inr body"
| "w_recipients P rnd i inner (x # xs) body =
     (let body = w_bytes (rc_device_id x) body in
      ebind (seal_box P (fst (rnd i)) (snd (rnd i)) (rc_box_pub x) LABEL_REKEY inner) (\<lambda>b.
      ebind (w_blob b body) (\<lambda>body.
        w_recipients P rnd (Suc i) inner xs body)))"

definition rekey_bundle ::
    "prims \<Rightarrow> (nat \<Rightarrow> rand \<times> rand) \<Rightarrow> device_keys \<Rightarrow> bytes \<Rightarrow> bytes \<Rightarrow> u64 \<Rightarrow> recipient list \<Rightarrow> bytes
     \<Rightarrow> error + bytes" where
  "rekey_bundle P rnd sender from_device_id old_room ts_ms recipients new_secret =
     (if \<not> length recipients < 256 then Inl InnerMalformed
      else if length recipients > MAX_RECIPIENTS then Inl InnerMalformed
      else
        let count = byte_of (length recipients);
            inner = 1 # new_secret;
            body = w_u8 count (w_u64 ts_ms (w_bytes from_device_id (w_u8 1 [])))
        in ebind (w_recipients P rnd 0 inner recipients body) (\<lambda>body.
             let covered = LABEL_REKEY @ old_room @ body;
                 sig = dk_sign P sender covered
             in Inr (w_bytes sig body)))"

definition rekey_sender :: "bytes \<Rightarrow> error + bytes" where
  "rekey_sender body =
     ebind (r_u8 (r_new body)) (\<lambda>(v, r).
       if v = 1 then ebind (r_array DEVICE_ID_LEN r) (\<lambda>(id, _). Inr id) else Inl (InnerVersion v))"

record rekeyed =
  rk_from_device_id :: bytes
  rk_ts_ms :: u64
  rk_secret :: bytes
  rk_recipients :: "bytes list"

text \<open>The loop over the entries: an entry for this device replaces an earlier one.\<close>

fun rekey_entries ::
    "nat \<Rightarrow> bytes \<Rightarrow> reader \<Rightarrow> bytes option \<Rightarrow> bytes list \<Rightarrow> error + (bytes option \<times> bytes list \<times> reader)" where
  "rekey_entries 0 device_id r mine recipients = Inr (mine, recipients, r)"
| "rekey_entries (Suc n) device_id r mine recipients =
     ebind (r_array DEVICE_ID_LEN r) (\<lambda>(to, r).
     ebind (r_blob r) (\<lambda>(sealed, r).
       rekey_entries n device_id r (if to = device_id then Some sealed else mine) (recipients @ [to])))"

definition rekey_open ::
    "prims \<Rightarrow> device_keys \<Rightarrow> bytes \<Rightarrow> bytes \<Rightarrow> bytes \<Rightarrow> bytes \<Rightarrow> error + rekeyed option" where
  "rekey_open P keys device_id old_room from_sign_pub body =
     (if length body < SIGNATURE_LEN then Inl InnerMalformed
      else
        let split = length body - SIGNATURE_LEN;
            covered = LABEL_REKEY @ old_room @ take split body;
            sig = drop split body
        in if length sig \<noteq> SIGNATURE_LEN then Inl InnerMalformed
           else
             ebind (verify_signature P from_sign_pub covered sig) (\<lambda>_.
             ebind (r_u8 (r_new (take split body))) (\<lambda>(v, r).
             if v \<noteq> 1 then Inl (InnerVersion (body ! 0)) else
             ebind (r_array DEVICE_ID_LEN r) (\<lambda>(from_device_id, r).
             ebind (r_u64 r) (\<lambda>(ts_ms, r).
             ebind (r_u8 r) (\<lambda>(count, r).
             ebind (rekey_entries (unat count) device_id r None []) (\<lambda>(mine, recipients, r).
             ebind (r_done r) (\<lambda>_.
               case mine of
                 None \<Rightarrow> Inr None
               | Some sealed \<Rightarrow>
                   ebind (open_box P keys LABEL_REKEY sealed) (\<lambda>inner.
                   if length inner \<noteq> 1 + KEY_LEN \<or> inner ! 0 \<noteq> 1 then Inl InnerMalformed
                   else Inr (Some \<lparr>rk_from_device_id = from_device_id, rk_ts_ms = ts_ms,
                           rk_secret = drop 1 inner, rk_recipients = recipients\<rparr>))))))))))"

section \<open>Bundles as data\<close>

definition entry_ok :: "bytes \<times> bytes \<Rightarrow> bool" where
  "entry_ok e \<longleftrightarrow> length (fst e) = DEVICE_ID_LEN \<and> blob_ok (snd e)"

lemma entry_ok_pair [simp]: "entry_ok (to, b) \<longleftrightarrow> length to = DEVICE_ID_LEN \<and> blob_ok b"
  by (simp add: entry_ok_def)

definition put_entries :: "(bytes \<times> bytes) list \<Rightarrow> bytes" where
  "put_entries es = concat (map (\<lambda>(to, b). to @ put_blob b) es)"

definition last_entry :: "bytes \<Rightarrow> (bytes \<times> bytes) list \<Rightarrow> bytes option" where
  "last_entry d es = map_of (rev es) d"

lemma put_entries_simps [simp]:
  "put_entries [] = []" "put_entries ((to, b) # es) = to @ put_blob b @ put_entries es"
  by (simp_all add: put_entries_def)

lemma last_entry_Cons:
  "last_entry d ((to, b) # es) =
    (case last_entry d es of None \<Rightarrow> if to = d then Some b else None | Some x \<Rightarrow> Some x)"
  by (auto simp: last_entry_def map_add_def split: option.splits)

lemma rekey_entries_iff:
  "rekey_entries n d (rd pre w) mine rs = Inr (m, rs', r) \<longleftrightarrow>
    (\<exists>es s. length es = n \<and> list_all entry_ok es \<and> w = put_entries es @ s
      \<and> r = rd (pre @ put_entries es) s \<and> rs' = rs @ map fst es
      \<and> m = (case last_entry d es of None \<Rightarrow> mine | Some b \<Rightarrow> Some b))"
proof (induction n arbitrary: pre w mine rs)
  case 0
  then show ?case by (auto simp: last_entry_def)
next
  case (Suc n)
  show ?case (is "?l \<longleftrightarrow> ?r")
  proof
    assume ?l
    then obtain to b es s where e: "length to = DEVICE_ID_LEN" "blob_ok b" "length es = n"
      "list_all entry_ok es" "w = to @ put_blob b @ put_entries es @ s"
      "r = rd (pre @ to @ put_blob b @ put_entries es) s" "rs' = rs @ to # map fst es"
      "m = (case last_entry d es of None \<Rightarrow> if to = d then Some b else mine | Some b \<Rightarrow> Some b)"
      by (auto simp: array_field.get_bind blob_field.get_bind put_array_def Suc)
    then show ?r
      by (intro exI [of _ "(to, b) # es"] exI [of _ s])
        (auto simp: last_entry_Cons split: option.splits)
  next
    assume ?r
    then obtain to b es s where e: "length to = DEVICE_ID_LEN" "blob_ok b" "length es = n"
      "list_all entry_ok es" "w = to @ put_blob b @ put_entries es @ s"
      "r = rd (((pre @ to) @ put_blob b) @ put_entries es) s" "rs' = (rs @ [to]) @ map fst es"
      "m = (case last_entry d ((to, b) # es) of None \<Rightarrow> mine | Some b \<Rightarrow> Some b)"
      by (auto simp: length_Suc_conv)
    have "rekey_entries n d (rd ((pre @ to) @ put_blob b) (put_entries es @ s))
        (if to = d then Some b else mine) (rs @ [to]) = Inr (m, rs', r)"
      unfolding Suc using e(3,4,6,7,8)
      by (intro exI [of _ es] exI [of _ s]) (simp add: last_entry_Cons split: option.splits)
    then show ?l using e(1,2,5) by (simp add: r_array_put blob_field.get_put)
  qed
qed

text \<open>The body of a bundle, before its signature.\<close>

definition put_bundle :: "bytes \<Rightarrow> u64 \<Rightarrow> (bytes \<times> bytes) list \<Rightarrow> bytes" where
  "put_bundle frm ts es = put_u8 1 @ frm @ u64_be ts @ put_u8 (byte_of (length es)) @ put_entries es"

text \<open>What a device makes of the entries of a genuine bundle.\<close>

definition opened ::
    "prims \<Rightarrow> device_keys \<Rightarrow> bytes \<Rightarrow> bytes \<Rightarrow> u64 \<Rightarrow> (bytes \<times> bytes) list \<Rightarrow> error + rekeyed option" where
  "opened P keys d frm ts es =
     (case last_entry d es of
        None \<Rightarrow> Inr None
      | Some sealed \<Rightarrow> ebind (open_box P keys LABEL_REKEY sealed) (\<lambda>inner.
          if length inner \<noteq> 1 + KEY_LEN \<or> inner ! 0 \<noteq> 1 then Inl InnerMalformed
          else Inr (Some \<lparr>rk_from_device_id = frm, rk_ts_ms = ts, rk_secret = drop 1 inner,
                 rk_recipients = map fst es\<rparr>)))"

text \<open>Opening a bundle succeeds exactly on a genuine one, and then says what its entries say.\<close>

lemma rekey_open_verify:
  "rekey_open P keys d room spub body = Inr res \<longleftrightarrow>
    file_verify P LABEL_REKEY room body spub = Inr () \<and>
    (\<exists>frm ts es. length frm = DEVICE_ID_LEN \<and> length es < 256 \<and> list_all entry_ok es
      \<and> take (length body - SIGNATURE_LEN) body = put_bundle frm ts es
      \<and> opened P keys d frm ts es = Inr res)" (is "?l \<longleftrightarrow> ?v \<and> ?r")
proof -
  let ?w = "take (length body - SIGNATURE_LEN) body"
  define g where "g = (\<lambda>(frm, ts, mine, recipients).
    case mine of None \<Rightarrow> Inr None
     | Some sealed \<Rightarrow> ebind (open_box P keys LABEL_REKEY sealed) (\<lambda>inner.
          if length inner \<noteq> 1 + KEY_LEN \<or> inner ! 0 \<noteq> 1 then Inl InnerMalformed
          else Inr (Some \<lparr>rk_from_device_id = frm, rk_ts_ms = ts, rk_secret = drop 1 inner,
                 rk_recipients = recipients\<rparr>)))"
  have "?l \<longleftrightarrow> ?v \<and> ebind (r_u8 (rd [] ?w)) (\<lambda>(v, r).
      if v \<noteq> 1 then Inl (InnerVersion (body ! 0)) else
      ebind (r_array DEVICE_ID_LEN r) (\<lambda>(frm, r).
      ebind (r_u64 r) (\<lambda>(ts, r).
      ebind (r_u8 r) (\<lambda>(count, r).
      ebind (rekey_entries (unat count) d r None []) (\<lambda>(mine, recipients, r).
      ebind (r_done r) (\<lambda>_. g (frm, ts, mine, recipients))))))) = Inr res" (is "_ \<longleftrightarrow> _ \<and> ?c")
    by (auto simp: rekey_open_def file_verify_def g_def Let_def r_new_rd ebind_Inr_iff)
  moreover have "?c \<longleftrightarrow> ?r"
  proof
    assume ?c
    then obtain frm ts count es where "?w = put_u8 1 @ frm @ u64_be ts @ put_u8 count @ put_entries es"
      "length frm = DEVICE_ID_LEN" "length es = unat count" "list_all entry_ok es"
      "g (frm, ts, last_entry d es, map fst es) = Inr res"
      by (auto simp: u8_field.get_bind u64_field.get_bind array_field.get_bind put_array_def if_Inl_Inr
          ebind_Inr_iff [of "rekey_entries n d' r m rs" for n d' r m rs] rekey_entries_iff r_done_bind
          split: option.splits)
    moreover from this have "length es < 256" "byte_of (length es) = count" using unat_byte_bound by simp_all
    ultimately show ?r by (intro exI [of _ frm] exI [of _ ts] exI [of _ es])
        (simp add: put_bundle_def opened_def g_def)
  next
    assume ?r
    then obtain frm ts es where e: "length frm = DEVICE_ID_LEN" "length es < 256" "list_all entry_ok es"
      "?w = put_u8 1 @ frm @ u64_be ts @ put_u8 (byte_of (length es)) @ put_entries es"
      "g (frm, ts, last_entry d es, map fst es) = Inr res"
      by (auto simp: put_bundle_def opened_def g_def)
    have "rekey_entries (length es) d (rd pre (put_entries es)) None []
      = Inr (last_entry d es, map fst es, rd (pre @ put_entries es) [])" for pre
      unfolding rekey_entries_iff using e(3)
      by (intro exI [of _ es] exI [of _ "[]"]) (auto split: option.splits)
    then show ?c using e(1,2,5) by (simp add: e(4) field_run)
  qed
  ultimately show ?thesis by blast
qed

lemma rekey_open_iff:
  "rekey_open P keys d room spub body = Inr res \<longleftrightarrow>
    (\<exists>frm ts es sig. body = put_bundle frm ts es @ sig
      \<and> signed_by P spub LABEL_REKEY room (put_bundle frm ts es) sig
      \<and> length frm = DEVICE_ID_LEN \<and> length es < 256 \<and> list_all entry_ok es
      \<and> opened P keys d frm ts es = Inr res)"
    (is "?l \<longleftrightarrow> ?r")
proof -
  have t: "take (length (c @ sig) - SIGNATURE_LEN) (c @ sig) = c" if "signed_by P spub l r c sig"
    for c sig l r using that by (simp add: signed_by_def)
  show ?thesis
  proof
    assume ?l
    then obtain c sig frm ts es where "body = c @ sig" "signed_by P spub LABEL_REKEY room c sig"
      "length frm = DEVICE_ID_LEN" "length es < 256" "list_all entry_ok es"
      "take (length body - SIGNATURE_LEN) body = put_bundle frm ts es"
      "opened P keys d frm ts es = Inr res"
      unfolding rekey_open_verify file_verify_iff by blast
    moreover from this have "c = put_bundle frm ts es" using t by simp
    ultimately show ?r by blast
  next
    assume ?r
    then obtain frm ts es sig where b: "body = put_bundle frm ts es @ sig"
      "signed_by P spub LABEL_REKEY room (put_bundle frm ts es) sig"
      "length frm = DEVICE_ID_LEN" "length es < 256" "list_all entry_ok es"
      "opened P keys d frm ts es = Inr res" by blast
    show ?l unfolding rekey_open_verify file_verify_iff
      using b t [OF b(2)] by blast
  qed
qed

lemma inner_shape:
  "length inner \<noteq> 1 + KEY_LEN \<or> inner ! 0 \<noteq> 1 \<longleftrightarrow> \<not> (\<exists>secret. inner = 1 # secret \<and> length secret = 32)"
  by (cases inner) (auto simp: KEY_LEN_def)

section \<open>Making a bundle\<close>

lemma w_recipients_Inr:
  "w_recipients P rnd i inner rs body = Inr w \<Longrightarrow>
    \<exists>bs. length bs = length rs \<and> w = body @ put_entries (zip (map rc_device_id rs) bs)
      \<and> list_all blob_ok bs
      \<and> (\<forall>j < length rs. seal_box P (fst (rnd (i + j))) (snd (rnd (i + j))) (rc_box_pub (rs ! j))
            LABEL_REKEY inner = Inr (bs ! j))"
proof (induction rs arbitrary: i body)
  case Nil
  then show ?case by simp
next
  case (Cons x xs)
  then obtain b where b: "seal_box P (fst (rnd i)) (snd (rnd i)) (rc_box_pub x) LABEL_REKEY inner = Inr b"
    "blob_ok b"
    "w_recipients P rnd (Suc i) inner xs ((body @ rc_device_id x) @ put_blob b) = Inr w"
    by (auto simp: ebind_Inr_iff w_blob_iff w_bytes_def Let_def)
  from Cons.IH [OF b(3)] obtain bs where bs: "length bs = length xs"
    "w = ((body @ rc_device_id x) @ put_blob b) @ put_entries (zip (map rc_device_id xs) bs)"
    "list_all blob_ok bs"
    "\<forall>j < length xs. seal_box P (fst (rnd (Suc i + j))) (snd (rnd (Suc i + j))) (rc_box_pub (xs ! j))
            LABEL_REKEY inner = Inr (bs ! j)" by blast
  show ?case
  proof (intro exI [of _ "b # bs"] conjI allI impI)
    fix j assume "j < length (x # xs)"
    then show "seal_box P (fst (rnd (i + j))) (snd (rnd (i + j))) (rc_box_pub ((x # xs) ! j))
            LABEL_REKEY inner = Inr ((b # bs) ! j)"
      using b(1) bs(4) by (cases j) simp_all
  qed (use b(2) bs(1-3) in simp_all)
qed

lemma rekey_bundle_Inr:
  assumes "rekey_bundle P rnd keys frm room ts rs secret = Inr body"
  shows "\<exists>bs. length bs = length rs \<and> length rs \<le> MAX_RECIPIENTS \<and> list_all blob_ok bs
    \<and> body = file_sign P keys LABEL_REKEY room (put_bundle frm ts (zip (map rc_device_id rs) bs))
    \<and> (\<forall>j < length rs. seal_box P (fst (rnd j)) (snd (rnd j)) (rc_box_pub (rs ! j))
            LABEL_REKEY (1 # secret) = Inr (bs ! j))"
proof -
  obtain w where w: "length rs \<le> MAX_RECIPIENTS"
    "w_recipients P rnd 0 (1 # secret) rs
       (put_u8 1 @ frm @ u64_be ts @ put_u8 (byte_of (length rs))) = Inr w"
    "body = file_sign P keys LABEL_REKEY room w"
    using assms by (auto simp: rekey_bundle_def w_defs put_u8_def file_sign_def ebind_Inr_iff Let_def
        split: if_splits)
  then show ?thesis using w_recipients_Inr [OF w(2)] by (auto simp: put_bundle_def)
qed

lemma last_entry_zip:
  assumes "length bs = length ids" "distinct ids"
  shows "j < length ids \<Longrightarrow> last_entry (ids ! j) (zip ids bs) = Some (bs ! j)"
    "d \<notin> set ids \<Longrightarrow> last_entry d (zip ids bs) = None"
proof -
  assume "j < length ids"
  then have "(ids ! j, bs ! j) \<in> set (rev (zip ids bs))" using assms(1) by (auto simp: in_set_zip)
  moreover have "distinct (map fst (rev (zip ids bs)))" using assms by (simp add: rev_map [symmetric])
  ultimately show "last_entry (ids ! j) (zip ids bs) = Some (bs ! j)"
    unfolding last_entry_def by (rule map_of_is_SomeI [rotated])
next
  assume "d \<notin> set ids"
  then show "last_entry d (zip ids bs) = None"
    by (auto simp: last_entry_def map_of_eq_None_iff dest: set_zip_leftD)
qed

section \<open>Properties\<close>

text \<open>C19: Every device a bundle names opens it, with its own keys and the sender's pinned key, to the new
  secret, the sender, the time and the whole list of devices; a device it does not name, the one being
  removed, learns that it was left out and nothing else.\<close>

theorem rekey_reaches_exactly_recipients:
  assumes P: "aead_ok P" "aead_tagged P" "dh_ok P" "sig_ok P"
    and b: "rekey_bundle P rnd sender frm room ts rs secret = Inr body"
    and l: "length frm = 16" "length secret = 32" "list_all (\<lambda>r. length (rc_device_id r) = 16) rs"
    and n: "\<forall>i nonce. snd (rnd i) = Some nonce \<longrightarrow> length nonce = 24"
    and d: "distinct (map rc_device_id rs)"
  shows "rekey_sender body = Inr frm
    \<and> (\<forall>r \<in> set rs. \<forall>keys. rc_box_pub r = box_pub P keys \<longrightarrow>
        rekey_open P keys (rc_device_id r) room (sign_pub P sender) body =
          Inr (Some \<lparr>rk_from_device_id = frm, rk_ts_ms = ts, rk_secret = secret,
                 rk_recipients = map rc_device_id rs\<rparr>))
    \<and> (\<forall>keys d. d \<notin> set (map rc_device_id rs) \<longrightarrow>
        rekey_open P keys d room (sign_pub P sender) body = Inr None)"
proof -
  let ?ids = "map rc_device_id rs"
  obtain bs where bs: "length bs = length ?ids" "length rs \<le> MAX_RECIPIENTS" "list_all blob_ok bs"
    "body = file_sign P sender LABEL_REKEY room (put_bundle frm ts (zip ?ids bs))"
    "\<And>j. j < length rs \<Longrightarrow> seal_box P (fst (rnd j)) (snd (rnd j)) (rc_box_pub (rs ! j))
            LABEL_REKEY (1 # secret) = Inr (bs ! j)"
    using rekey_bundle_Inr [OF b] by auto
  have es: "list_all entry_ok (zip ?ids bs)"
    using l(3) bs(1,3) by (simp add: list_all_length entry_ok_def DEVICE_ID_LEN_def)
  have fst: "map fst (zip ?ids bs) = ?ids" using bs(1) by simp
  have op: "rekey_open P keys d room (sign_pub P sender) body = Inr res"
    if "opened P keys d frm ts (zip ?ids bs) = Inr res" for keys d res
    unfolding rekey_open_iff
    using that file_sign_signed [OF P(4), of sender LABEL_REKEY room "put_bundle frm ts (zip ?ids bs)"]
      bs(1,2,4) es l(1) by (fastforce simp: DEVICE_ID_LEN_def MAX_RECIPIENTS_def)
  have "rekey_sender body = Inr frm"
    using file_sign_signed [OF P(4), of sender LABEL_REKEY room "put_bundle frm ts (zip ?ids bs)"] l(1)
    by (auto simp: rekey_sender_def bs(4) put_bundle_def field_run DEVICE_ID_LEN_def)
  moreover have "rekey_open P keys d room (sign_pub P sender) body = Inr None" if "d \<notin> set ?ids" for keys d
    using last_entry_zip(2) [OF bs(1) d that] by (intro op) (simp add: opened_def)
  moreover have "rekey_open P keys (rc_device_id r) room (sign_pub P sender) body =
      Inr (Some \<lparr>rk_from_device_id = frm, rk_ts_ms = ts, rk_secret = secret, rk_recipients = ?ids\<rparr>)"
    if r: "r \<in> set rs" "rc_box_pub r = box_pub P keys" for r keys
  proof -
    obtain j where j: "j < length rs" "r = rs ! j" using r(1) by (auto simp: in_set_conv_nth)
    obtain eph nonce where s: "snd (rnd j) = Some nonce"
      "seal_box_with P eph nonce (box_pub P keys) LABEL_REKEY (1 # secret) = Inr (bs ! j)"
      using bs(5) [OF j(1)] r(2) j(2) by (auto simp: seal_box_Inr)
    have "open_box P keys LABEL_REKEY (bs ! j) = Inr (1 # secret)"
      by (rule seal_box_open(1) [OF P(1-3) _ s(2)]) (use n s(1) in blast)
    moreover have "last_entry (rc_device_id r) (zip ?ids bs) = Some (bs ! j)"
      using last_entry_zip(1) [OF bs(1) d] j by simp
    ultimately show ?thesis using l(2) fst by (intro op) (simp add: opened_def KEY_LEN_def)
  qed
  ultimately show ?thesis by blast
qed

text \<open>A bundle moves a device only when the pinned key signed it for the room the device is in: what
  it opens to is determined by the signed bytes, the new key comes out of the last entry for this
  device, opened with its own keys, and altering anything makes it fail.\<close>

theorem rekey_open_exact:
  "rekey_open P keys d room spub body = Inr res \<longleftrightarrow>
    (\<exists>frm ts es sig. body = put_bundle frm ts es @ sig
      \<and> signed_by P spub LABEL_REKEY room (put_bundle frm ts es) sig
      \<and> length frm = 16 \<and> length es < 256 \<and> list_all entry_ok es
      \<and> (case last_entry d es of
           None \<Rightarrow> res = None
         | Some sealed \<Rightarrow> (\<exists>secret. length secret = 32
             \<and> open_box P keys LABEL_REKEY sealed = Inr (1 # secret)
             \<and> res = Some \<lparr>rk_from_device_id = frm, rk_ts_ms = ts, rk_secret = secret,
                   rk_recipients = map fst es\<rparr>)))"
proof -
  have "opened P keys d frm ts es = Inr res \<longleftrightarrow>
    (case last_entry d es of
       None \<Rightarrow> res = None
     | Some sealed \<Rightarrow> (\<exists>secret. length secret = 32 \<and> open_box P keys LABEL_REKEY sealed = Inr (1 # secret)
          \<and> res = Some \<lparr>rk_from_device_id = frm, rk_ts_ms = ts, rk_secret = secret,
                   rk_recipients = map fst es\<rparr>))" for frm ts es
    unfolding opened_def inner_shape
    by (auto simp: ebind_Inr_iff if_Inl_Inr split: option.splits)
  then show ?thesis unfolding rekey_open_iff by (simp add: DEVICE_ID_LEN_def)
qed

lemma rekey_reaches_exactly_recipients_witness:
  "\<exists>body. rekey_bundle toy_prims (\<lambda>i. (Some [4], Some (replicate 24 7))) ex_keys (replicate 16 1) [8] 5
       [\<lparr>rc_device_id = replicate 16 2, rc_box_pub = box_pub toy_prims ex_keys\<rparr>] (replicate 32 6) = Inr body
    \<and> rekey_open toy_prims ex_keys (replicate 16 2) [8] (sign_pub toy_prims ex_keys) body =
       Inr (Some \<lparr>rk_from_device_id = replicate 16 1, rk_ts_ms = 5, rk_secret = replicate 32 6,
              rk_recipients = [replicate 16 2]\<rparr>)
    \<and> rekey_open toy_prims ex_keys (replicate 16 3) [8] (sign_pub toy_prims ex_keys) body = Inr None"
proof -
  let ?rs = "[\<lparr>rc_device_id = replicate 16 2, rc_box_pub = box_pub toy_prims ex_keys\<rparr>]"
  obtain body where b: "rekey_bundle toy_prims (\<lambda>i. (Some [4], Some (replicate 24 7))) ex_keys (replicate 16 1) [8] 5
       ?rs (replicate 32 6) = Inr body"
    by (simp add: rekey_bundle_def seal_box_def seal_box_with_def toy_prims_def Let_def MAX_RECIPIENTS_def
      w_blob_def)
  have d: "distinct (map rc_device_id ?rs)" by simp
  show ?thesis
    using rekey_reaches_exactly_recipients [OF toy_ok(1,2,4,3) b _ _ _ _ d] b by (simp add: replicate_eq_replicate)
qed

end
