(* ===== verification/Token.thy ===== *)
theory Token
  imports Kdf_Identity
begin

text \<open>
  The join token, \<open>crates/asli-crypto/src/token.rs\<close>: a version byte, the root secret and a
  checksum in base32 behind a prefix, and the parser that is strict about structure and tolerant
  about presentation. The lemmas show that a token survives what retyping does to it, and what each
  error means.
\<close>

definition TOKEN_PREFIX :: ustr where "TOKEN_PREFIX = ulit ''asli1_''"
definition TOKEN_VERSION :: byte where [asli_const]: "TOKEN_VERSION = 1"
definition LABEL_JOIN_CHECK :: bytes where [asli_const]: "LABEL_JOIN_CHECK = ascii ''asli/v1/join-check''"
definition CHECKSUM_LEN :: nat where [asli_const]: "CHECKSUM_LEN = 3"
definition TOKEN_BODY_CHARS :: nat where [asli_const]: "TOKEN_BODY_CHARS = 58"
definition TOKEN_CHARS :: nat where "TOKEN_CHARS = length TOKEN_PREFIX + TOKEN_BODY_CHARS"

definition token_checksum :: "prims \<Rightarrow> bytes \<Rightarrow> bytes" where
  "token_checksum P payload = take CHECKSUM_LEN (p_sha256 P (LABEL_JOIN_CHECK @ payload))"

definition token_encode :: "prims \<Rightarrow> bytes \<Rightarrow> ustr" where
  "token_encode P secret =
     (let payload = [TOKEN_VERSION] @ secret;
          sum = token_checksum P payload
      in TOKEN_PREFIX @ base32_encode (payload @ sum))"

definition strip_prefix_ignore_ascii_case :: "ustr \<Rightarrow> ustr \<Rightarrow> ustr option" where
  "strip_prefix_ignore_ascii_case input pre =
     (let cut = (if length pre < length input then length pre else length input);
          head = take cut input
      in if eq_ignore_ascii_case head pre then Some (drop cut input) else None)"

definition token_parse :: "prims \<Rightarrow> ustr \<Rightarrow> error + bytes" where
  "token_parse P input =
     (case strip_prefix_ignore_ascii_case (trim input) TOKEN_PREFIX of
        None \<Rightarrow> Inl TokenPrefix
      | Some body \<Rightarrow>
          ebind (base32_decode body) (\<lambda>decoded.
            if length decoded \<noteq> 1 + KEY_LEN + CHECKSUM_LEN then Inl TokenLength
            else let version = decoded ! 0 in
              if version \<noteq> TOKEN_VERSION then Inl (TokenVersion version)
              else let payload = take (1 + KEY_LEN) decoded; sum = drop (1 + KEY_LEN) decoded in
                if token_checksum P payload \<noteq> sum then Inl TokenChecksum
                else Inr (drop 1 payload)))"

section \<open>Facts\<close>

lemma eq_ignore_length: "eq_ignore_ascii_case a b \<Longrightarrow> length a = length b"
  unfolding eq_ignore_ascii_case_def by (metis length_map)

lemma strip_prefix_iff:
  "strip_prefix_ignore_ascii_case input pre = Some rest \<longleftrightarrow>
    (\<exists>head. input = head @ rest \<and> eq_ignore_ascii_case head pre)"
proof
  assume "strip_prefix_ignore_ascii_case input pre = Some rest"
  then show "\<exists>head. input = head @ rest \<and> eq_ignore_ascii_case head pre"
    by (auto simp: strip_prefix_ignore_ascii_case_def Let_def split: if_splits
        intro!: exI [of _ "take (length pre) input"])
next
  assume "\<exists>head. input = head @ rest \<and> eq_ignore_ascii_case head pre"
  then obtain head where h: "input = head @ rest" "eq_ignore_ascii_case head pre" by blast
  then have "length head = length pre" by (simp add: eq_ignore_length)
  then have "take (if length pre < length input then length pre else length input) input = head"
    "drop (if length pre < length input then length pre else length input) input = rest"
    using h(1) by (cases rest; simp)+
  then show "strip_prefix_ignore_ascii_case input pre = Some rest"
    using h(2) by (simp add: strip_prefix_ignore_ascii_case_def Let_def)
qed

text \<open>The base32 body a parser accepts, and what it reads in it.\<close>

lemma token_parse_iff:
  "token_parse P s = Inr secret \<longleftrightarrow>
    (\<exists>head body. trim s = head @ body \<and> eq_ignore_ascii_case head TOKEN_PREFIX
      \<and> length secret = KEY_LEN \<and> length (token_checksum P (TOKEN_VERSION # secret)) = CHECKSUM_LEN
      \<and> base32_decode body
          = Inr (TOKEN_VERSION # secret @ token_checksum P (TOKEN_VERSION # secret)))"
proof
  assume "token_parse P s = Inr secret"
  then obtain body d where b: "strip_prefix_ignore_ascii_case (trim s) TOKEN_PREFIX = Some body"
    and d: "base32_decode body = Inr d" "length d = 1 + KEY_LEN + CHECKSUM_LEN" "d ! 0 = TOKEN_VERSION"
      "token_checksum P (take (1 + KEY_LEN) d) = drop (1 + KEY_LEN) d"
      "secret = drop 1 (take (1 + KEY_LEN) d)"
    by (auto simp: token_parse_def Let_def ebind_Inr_iff split: option.splits if_splits)
  then have pay: "take (1 + KEY_LEN) d = TOKEN_VERSION # secret" by (cases d) auto
  have "d = TOKEN_VERSION # secret @ token_checksum P (TOKEN_VERSION # secret)"
    using pay d(4) by (metis append_Cons append_take_drop_id)
  moreover have "length (token_checksum P (TOKEN_VERSION # secret)) = CHECKSUM_LEN"
    using d(2,4) pay by (metis add_diff_cancel_left' length_drop)
  moreover have "length secret = KEY_LEN" using d(2,5) by (simp add: min_def)
  ultimately show "\<exists>head body. trim s = head @ body \<and> eq_ignore_ascii_case head TOKEN_PREFIX
      \<and> length secret = KEY_LEN \<and> length (token_checksum P (TOKEN_VERSION # secret)) = CHECKSUM_LEN
      \<and> base32_decode body
          = Inr (TOKEN_VERSION # secret @ token_checksum P (TOKEN_VERSION # secret))"
    using b d(1) unfolding strip_prefix_iff by blast
next
  assume "\<exists>head body. trim s = head @ body \<and> eq_ignore_ascii_case head TOKEN_PREFIX
      \<and> length secret = KEY_LEN \<and> length (token_checksum P (TOKEN_VERSION # secret)) = CHECKSUM_LEN
      \<and> base32_decode body
          = Inr (TOKEN_VERSION # secret @ token_checksum P (TOKEN_VERSION # secret))"
  then obtain body where "strip_prefix_ignore_ascii_case (trim s) TOKEN_PREFIX = Some body"
    "length secret = KEY_LEN" "length (token_checksum P (TOKEN_VERSION # secret)) = CHECKSUM_LEN"
    "base32_decode body = Inr (TOKEN_VERSION # secret @ token_checksum P (TOKEN_VERSION # secret))"
    unfolding strip_prefix_iff by blast
  then show "token_parse P s = Inr secret"
    by (simp add: token_parse_def Let_def)
qed

lemma symbol_value_range: "symbol_value ch = Inr v \<Longrightarrow> 48 \<le> ch \<and> ch \<le> 122"
proof (rule ccontr)
  assume some: "symbol_value ch = Inr v" and "\<not> (48 \<le> ch \<and> ch \<le> 122)"
  then consider "ch < 48" | "122 < ch" by linarith
  then have "symbol_value ch = Inl TokenAlphabet"
    by cases (auto simp: symbol_value_def to_ascii_uppercase_def)
  with some show False by simp
qed

lemma whitespace_range: "is_whitespace c \<Longrightarrow> c < 45 \<or> 122 < c"
  by (auto simp: is_whitespace_def)

lemma symbols_no_space:
  assumes "symbols body = Inr vs" "c \<in> set body"
  shows "\<not> is_whitespace c"
  using assms
proof (induction body arbitrary: vs)
  case (Cons ch chs)
  have *: "symbol_value ch = Inr v \<Longrightarrow> \<not> is_whitespace ch" for v
    using symbol_value_range [of ch v] whitespace_range [of ch] by auto
  show ?case
  proof (cases "ch = 45")
    case True
    then show ?thesis using Cons by (auto simp: is_whitespace_def)
  next
    case False
    then show ?thesis using Cons * by (auto simp: ebind_Inr_iff)
  qed
qed simp

lemma prefix_no_space:
  assumes "eq_ignore_ascii_case head TOKEN_PREFIX" "c \<in> set head"
  shows "\<not> is_whitespace c"
proof -
  have "to_ascii_uppercase c \<in> set (map to_ascii_uppercase TOKEN_PREFIX)"
    using assms unfolding eq_ignore_ascii_case_def by (metis imageI list.set_map)
  then show ?thesis
    by (auto simp: TOKEN_PREFIX_def ulit_def to_ascii_uppercase_def is_whitespace_def split: if_splits)
qed

lemma trim_token:
  assumes "eq_ignore_ascii_case head TOKEN_PREFIX" "symbols body = Inr vs"
  shows "trim (head @ body) = head @ body"
proof (rule trim_noop)
  have "length head = 6" using eq_ignore_length [OF assms(1)] by (simp add: TOKEN_PREFIX_def)
  then show ne: "head @ body \<noteq> []" by auto
  have "\<not> is_whitespace c" if "c \<in> set (head @ body)" for c
    using that prefix_no_space [OF assms(1)] symbols_no_space [OF assms(2)] by auto
  then show "\<not> is_whitespace (hd (head @ body))" "\<not> is_whitespace (last (head @ body))"
    using hd_in_set [OF ne] last_in_set [OF ne] by blast+
qed

text \<open>A join token survives retyping: with white space around it, the prefix in any letter case,
  and a body that differs in hyphens, letter case or the confusable letters only, it parses to the
  secret it was made from; the token itself is the case where nothing differs.\<close>

theorem token_retyped:
  assumes "hash_ok P" "length secret = 32"
    and "list_all is_whitespace before" "list_all is_whitespace after"
    and "eq_ignore_ascii_case head (take 6 (token_encode P secret))"
    and "symbols body = symbols (drop 6 (token_encode P secret))"
  shows "token_parse P (before @ head @ body @ after) = Inr secret"
proof -
  define sum where "sum = token_checksum P (TOKEN_VERSION # secret)"
  have six: "length TOKEN_PREFIX = 6" by (simp add: TOKEN_PREFIX_def)
  have tok: "token_encode P secret = TOKEN_PREFIX @ base32_encode (TOKEN_VERSION # secret @ sum)"
    by (simp add: token_encode_def Let_def sum_def)
  then have head: "eq_ignore_ascii_case head TOKEN_PREFIX"
    and body: "symbols body = symbols (base32_encode (TOKEN_VERSION # secret @ sum))"
    using assms(5,6) six by simp_all
  obtain vs where vs: "symbols body = Inr vs"
    using body base32_decode_encode [of "TOKEN_VERSION # secret @ sum"] base32_decode_iff by metis
  have "base32_decode body = Inr (TOKEN_VERSION # secret @ sum)"
    using dec_loop_symbols [OF body] base32_decode_encode by blast
  moreover have "trim (before @ (head @ body) @ after) = head @ body"
    using trim_ws_pad [OF assms(3,4)] trim_token [OF head vs] by metis
  moreover have "length sum = CHECKSUM_LEN"
    using assms(1) by (simp add: sum_def token_checksum_def hash_okD CHECKSUM_LEN_def)
  ultimately show ?thesis
    unfolding token_parse_iff using head assms(2)
    by (intro exI [of _ head] exI [of _ body]) (simp add: sum_def [symmetric] KEY_LEN_def)
qed

text \<open>A parsed secret is vouched for: the trimmed text starts with the prefix, and its body
  decodes to the version byte, the 32 secret bytes and the checksum of both, nothing more or less.\<close>

theorem token_parse_exact:
  "token_parse P s = Inr secret \<longleftrightarrow>
    (\<exists>head body. trim s = head @ body \<and> eq_ignore_ascii_case head TOKEN_PREFIX
      \<and> length secret = KEY_LEN \<and> length (token_checksum P (TOKEN_VERSION # secret)) = CHECKSUM_LEN
      \<and> base32_decode body
          = Inr (TOKEN_VERSION # secret @ token_checksum P (TOKEN_VERSION # secret)))"
  by (rule token_parse_iff)

lemma token_retyped_witness:
  "token_parse toy_prims ([32] @ map (\<lambda>c. if c = 97 then 65 else c) (take 6 (token_encode toy_prims (replicate 32 7)))
      @ (45 # drop 6 (token_encode toy_prims (replicate 32 7))) @ [10]) = Inr (replicate 32 7)"
proof (rule token_retyped [OF toy_ok(5)])
  have "take 6 (token_encode toy_prims (replicate 32 7)) = TOKEN_PREFIX"
    by (simp add: token_encode_def Let_def TOKEN_PREFIX_def)
  then show "eq_ignore_ascii_case (map (\<lambda>c. if c = 97 then 65 else c)
      (take 6 (token_encode toy_prims (replicate 32 7)))) (take 6 (token_encode toy_prims (replicate 32 7)))"
    by (simp add: TOKEN_PREFIX_def ulit_def eq_ignore_ascii_case_def to_ascii_uppercase_def)
qed (simp_all add: is_whitespace_def)

end
