(* ===== verification/Enroll.thy ===== *)
theory Enroll
  imports File_Msg Token
begin

text \<open>
  Joining a device to an account, \<open>crates/asli-crypto/src/enroll.rs\<close>: the join code, the request, the
  grant that hands the account key over, the decline, and the addresses of an invitation on the local
  network. A grant is accepted only from the device whose fingerprint the code carries, for the
  request and the key it answers, signed for the meeting room.
\<close>

definition CODE_PREFIX :: ustr where "CODE_PREFIX = ulit ''asli2_''"
definition CODE_VERSION :: byte where [asli_const]: "CODE_VERSION = 2"
definition MEETING_SECRET_LEN :: nat where [asli_const]: "MEETING_SECRET_LEN = 12"
definition FINGERPRINT_LEN :: nat where [asli_const]: "FINGERPRINT_LEN = 6"
definition CODE_CHECKSUM_LEN :: nat where [asli_const]: "CODE_CHECKSUM_LEN = 3"
definition CODE_BODY_CHARS :: nat where [asli_const]: "CODE_BODY_CHARS = 36"
definition REQUEST_ID_LEN :: nat where [asli_const]: "REQUEST_ID_LEN = 16"
definition MAX_WHERE_ADDRS :: nat where [asli_const]: "MAX_WHERE_ADDRS = 4"

definition LABEL_FINGERPRINT :: bytes where [asli_const]: "LABEL_FINGERPRINT = ascii ''asli/v2/approver''"
definition LABEL_CHECK :: bytes where [asli_const]: "LABEL_CHECK = ascii ''asli/v2/join-check''"
definition LABEL_ENROLL_SALT :: bytes where [asli_const]: "LABEL_ENROLL_SALT = ascii ''asli/v2/enroll-salt''"
definition LABEL_ENROLL :: bytes where [asli_const]: "LABEL_ENROLL = ascii ''asli/v2/enroll''"
definition LABEL_COMPARE :: bytes where [asli_const]: "LABEL_COMPARE = ascii ''asli/v2/compare''"
definition LABEL_JOIN_DIRECT :: bytes where [asli_const]: "LABEL_JOIN_DIRECT = ascii ''asli/v2/join-direct''"
definition LABEL_REQUEST :: bytes where [asli_const]: "LABEL_REQUEST = ascii ''asli/v2/join-request''"
definition LABEL_GRANT :: bytes where [asli_const]: "LABEL_GRANT = ascii ''asli/v2/join-grant''"
definition LABEL_DECLINE :: bytes where [asli_const]: "LABEL_DECLINE = ascii ''asli/v2/join-decline''"

section \<open>The join code\<close>

record join_code =
  meeting_secret :: bytes
  code_fingerprint :: bytes

definition fingerprint :: "prims \<Rightarrow> bytes \<Rightarrow> bytes" where
  "fingerprint P spub = take FINGERPRINT_LEN (p_sha256 P (LABEL_FINGERPRINT @ spub))"

definition code_checksum :: "prims \<Rightarrow> bytes \<Rightarrow> bytes" where
  "code_checksum P payload = take CODE_CHECKSUM_LEN (p_sha256 P (LABEL_CHECK @ payload))"

definition join_generate :: "prims \<Rightarrow> rand \<Rightarrow> device_keys \<Rightarrow> error + join_code" where
  "join_generate P rnd approver =
     ebind (random_bytes rnd) (\<lambda>secret.
       Inr \<lparr>meeting_secret = secret, code_fingerprint = fingerprint P (sign_pub P approver)\<rparr>)"

definition join_encode :: "prims \<Rightarrow> join_code \<Rightarrow> ustr" where
  "join_encode P code =
     (let payload = CODE_VERSION # meeting_secret code @ code_fingerprint code;
          sum = code_checksum P payload
      in CODE_PREFIX @ base32_encode (payload @ sum))"

definition join_compact :: "ustr \<Rightarrow> ustr" where
  "join_compact input = filter (\<lambda>c. \<not> is_whitespace c \<and> c \<noteq> 45) input"

definition join_parse :: "prims \<Rightarrow> ustr \<Rightarrow> error + join_code" where
  "join_parse P input =
     (let compact = join_compact input in
      if str_len compact < str_len CODE_PREFIX then Inl TokenPrefix
      else case str_slice_to compact (str_len CODE_PREFIX) of
        None \<Rightarrow> Inl TokenPrefix
      | Some head \<Rightarrow>
          if \<not> eq_ignore_ascii_case head CODE_PREFIX then Inl TokenPrefix
          else
            let body = drop (length head) compact in
            if str_len body \<noteq> CODE_BODY_CHARS then Inl TokenLength
            else ebind (map_err (\<lambda>_. TokenAlphabet) (base32_decode body)) (\<lambda>decoded.
              if length decoded \<noteq> 1 + MEETING_SECRET_LEN + FINGERPRINT_LEN + CODE_CHECKSUM_LEN
              then Inl TokenLength
              else if decoded ! 0 \<noteq> CODE_VERSION then Inl (TokenVersion (decoded ! 0))
              else
                let split = length decoded - CODE_CHECKSUM_LEN in
                if code_checksum P (take split decoded) \<noteq> drop split decoded then Inl TokenChecksum
                else Inr \<lparr>meeting_secret = slice 1 MEETING_SECRET_LEN decoded,
                       code_fingerprint = drop (1 + MEETING_SECRET_LEN) (take split decoded)\<rparr>))"

definition meeting :: "prims \<Rightarrow> join_code \<Rightarrow> identity" where
  "meeting P code =
     from_secret P (p_hkdf_expand P (p_hkdf_extract P LABEL_ENROLL_SALT (meeting_secret code))
       LABEL_ENROLL KEY_LEN)"

definition join_direct_key :: "prims \<Rightarrow> join_code \<Rightarrow> bytes" where
  "join_direct_key P code =
     p_hkdf_expand P (p_hkdf_extract P LABEL_ENROLL_SALT (meeting_secret code)) LABEL_JOIN_DIRECT KEY_LEN"

definition made_by :: "prims \<Rightarrow> join_code \<Rightarrow> bytes \<Rightarrow> bool" where
  "made_by P code spub \<longleftrightarrow> fingerprint P spub = code_fingerprint code"

section \<open>The request\<close>

record join_request =
  q_request_id :: bytes
  q_device_id :: bytes
  q_sign_pub :: bytes
  q_box_pub :: bytes
  q_ts_ms :: u64
  q_name :: ustr
  q_os :: ustr

text \<open>Six decimal digits, zero padded, in two groups of three.\<close>

definition comparison_code :: "prims \<Rightarrow> join_code \<Rightarrow> join_request \<Rightarrow> string" where
  "comparison_code P code q =
     (let digest = p_sha256 P (LABEL_COMPARE @ meeting_secret code @ q_request_id q @ q_sign_pub q @ q_box_pub q);
          value = unat (be_u32 [digest ! 0, digest ! 1, digest ! 2, digest ! 3]) mod 1000000;
          d = decimal value;
          digits = replicate (6 - length d) (CHR ''0'') @ d
      in take 3 digits @ '' '' @ drop 3 digits)"

definition enroll_version :: "reader \<Rightarrow> error + reader" where
  "enroll_version r = ebind (r_u8 r) (\<lambda>(v, r). if v = 1 then Inr r else Inl (InnerVersion v))"

definition signature_ends :: "reader \<Rightarrow> error + unit" where
  "signature_ends r = ebind (r_bytes SIGNATURE_LEN r) (\<lambda>(_, r). r_done r)"

definition enroll_sign :: "prims \<Rightarrow> device_keys \<Rightarrow> bytes \<Rightarrow> bytes \<Rightarrow> writer \<Rightarrow> bytes" where
  "enroll_sign P keys label room body =
     (let covered = label @ room @ body;
          sig = dk_sign P keys covered
      in w_bytes sig body)"

definition enroll_verify :: "prims \<Rightarrow> bytes \<Rightarrow> bytes \<Rightarrow> bytes \<Rightarrow> bytes \<Rightarrow> error + unit" where
  "enroll_verify P label room body spub =
     (if length body < SIGNATURE_LEN then Inl InnerMalformed
      else
        let split = length body - SIGNATURE_LEN;
            covered = label @ room @ take split body;
            sig = drop split body
        in if length sig = SIGNATURE_LEN then verify_signature P spub covered sig
           else Inl InnerMalformed)"

definition request_encode :: "prims \<Rightarrow> join_request \<Rightarrow> device_keys \<Rightarrow> bytes \<Rightarrow> error + bytes" where
  "request_encode P q keys meeting_room =
     (if sign_pub P keys \<noteq> q_sign_pub q \<or> box_pub P keys \<noteq> q_box_pub q then Inl BadPublicKey
      else
        let body = w_u64 (q_ts_ms q) (w_bytes (q_box_pub q) (w_bytes (q_sign_pub q)
              (w_bytes (q_device_id q) (w_bytes (q_request_id q) (w_u8 1 [])))))
        in ebind (w_text (q_name q) body) (\<lambda>body.
           ebind (w_text (q_os q) body) (\<lambda>body.
             Inr (enroll_sign P keys LABEL_REQUEST meeting_room body))))"

definition request_decode :: "prims \<Rightarrow> bytes \<Rightarrow> bytes \<Rightarrow> error + join_request" where
  "request_decode P body meeting_room =
     ebind (enroll_version (r_new body)) (\<lambda>r.
     ebind (r_array REQUEST_ID_LEN r) (\<lambda>(request_id, r).
     ebind (r_array DEVICE_ID_LEN r) (\<lambda>(device_id, r).
     ebind (r_array PUB_KEY_LEN r) (\<lambda>(spub, r).
     ebind (r_array BOX_PUB_LEN r) (\<lambda>(bpub, r).
     ebind (r_u64 r) (\<lambda>(ts_ms, r).
     ebind (r_text r) (\<lambda>(name, r).
     ebind (r_text r) (\<lambda>(os, r).
     ebind (signature_ends r) (\<lambda>_.
     ebind (enroll_verify P LABEL_REQUEST meeting_room body spub) (\<lambda>_.
       Inr \<lparr>q_request_id = request_id, q_device_id = device_id, q_sign_pub = spub, q_box_pub = bpub,
            q_ts_ms = ts_ms, q_name = name, q_os = os\<rparr>))))))))))"

section \<open>The grant\<close>

record granted =
  g_secret :: bytes
  never_exported :: bool

definition grant ::
    "prims \<Rightarrow> rand \<Rightarrow> rand \<Rightarrow> device_keys \<Rightarrow> bytes \<Rightarrow> join_request \<Rightarrow> bytes \<Rightarrow> bool \<Rightarrow> error + bytes" where
  "grant P r1 r2 approver meeting_room q account_secret exported =
     (let inner = 1 # account_secret @ [flag_byte exported]
      in ebind (seal_box P r1 r2 (q_box_pub q) LABEL_GRANT inner) (\<lambda>sealed.
         let body = w_bytes (sign_pub P approver) (w_bytes (q_sign_pub q) (w_bytes (q_request_id q) (w_u8 1 [])))
         in ebind (w_blob sealed body) (\<lambda>body.
              Inr (enroll_sign P approver LABEL_GRANT meeting_room body))))"

definition read_granted :: "bytes \<Rightarrow> error + granted" where
  "read_granted inner =
     (if length inner \<noteq> 2 + KEY_LEN \<or> inner ! 0 \<noteq> 1 \<or> inner ! (1 + KEY_LEN) > 1
      then Inl InnerMalformed
      else Inr \<lparr>g_secret = slice 1 KEY_LEN inner, never_exported = (inner ! (1 + KEY_LEN) = 1)\<rparr>)"

definition open_grant ::
    "prims \<Rightarrow> join_code \<Rightarrow> bytes \<Rightarrow> device_keys \<Rightarrow> bytes \<Rightarrow> bytes \<Rightarrow> error + granted" where
  "open_grant P code meeting_room keys request_id body =
     ebind (enroll_version (r_new body)) (\<lambda>r.
     ebind (r_array REQUEST_ID_LEN r) (\<lambda>(for_request, r).
     ebind (r_array PUB_KEY_LEN r) (\<lambda>(for_key, r).
     ebind (r_array PUB_KEY_LEN r) (\<lambda>(approver, r).
     ebind (r_blob r) (\<lambda>(sealed, r).
     ebind (signature_ends r) (\<lambda>_.
     if \<not> made_by P code approver \<or> for_request \<noteq> request_id \<or> for_key \<noteq> sign_pub P keys
     then Inl BadSignature
     else
       ebind (enroll_verify P LABEL_GRANT meeting_room body approver) (\<lambda>_.
       ebind (open_box P keys LABEL_GRANT sealed) (\<lambda>inner.
         read_granted inner))))))))"

section \<open>The decline\<close>

definition decline :: "prims \<Rightarrow> device_keys \<Rightarrow> bytes \<Rightarrow> bytes \<Rightarrow> error + bytes" where
  "decline P approver meeting_room request_id =
     Inr (enroll_sign P approver LABEL_DECLINE meeting_room
       (w_bytes (sign_pub P approver) (w_bytes request_id (w_u8 1 []))))"

definition decline_check :: "prims \<Rightarrow> join_code \<Rightarrow> bytes \<Rightarrow> bytes \<Rightarrow> bytes \<Rightarrow> error + bool" where
  "decline_check P code meeting_room request_id body =
     ebind (enroll_version (r_new body)) (\<lambda>r.
     ebind (r_array REQUEST_ID_LEN r) (\<lambda>(for_request, r).
     ebind (r_array PUB_KEY_LEN r) (\<lambda>(approver, r).
     ebind (signature_ends r) (\<lambda>_.
     ebind (enroll_verify P LABEL_DECLINE meeting_room body approver) (\<lambda>_.
       Inr (made_by P code approver \<and> for_request = request_id))))))"

definition is_decline_for :: "prims \<Rightarrow> join_code \<Rightarrow> bytes \<Rightarrow> bytes \<Rightarrow> bytes \<Rightarrow> bool" where
  "is_decline_for P code meeting_room request_id body =
     (case decline_check P code meeting_room request_id body of Inl _ \<Rightarrow> False | Inr b \<Rightarrow> b)"

section \<open>Where the approving device listens\<close>

definition where_body :: "ustr list \<Rightarrow> error + bytes" where
  "where_body addrs =
     (if addrs = [] \<or> length addrs > MAX_WHERE_ADDRS then Inl AnnounceField
      else w_texts addrs (w_u8 (byte_of (length addrs)) (w_u8 1 [])))"

definition read_where :: "bytes \<Rightarrow> error + ustr list" where
  "read_where body =
     ebind (r_u8 (r_new body)) (\<lambda>(v, r).
     if v \<noteq> 1 then Inl (InnerVersion v) else
     ebind (r_u8 r) (\<lambda>(c, r).
     let count = unat c in
     if count = 0 \<or> count > MAX_WHERE_ADDRS then Inl AnnounceField
     else ebind (r_texts count r) (\<lambda>(addrs, r).
       ebind (r_done r) (\<lambda>_. Inr addrs))))"

section \<open>The shared pieces are those of file transfer\<close>

lemma enroll_shared [simp]:
  "enroll_version = file_version" "enroll_sign = file_sign" "enroll_verify = file_verify"
  by (intro ext; simp add: enroll_version_def file_version_def enroll_sign_def file_sign_def
      enroll_verify_def file_verify_def)+

lemma signature_ends_bind:
  "ebind (signature_ends (rd pre w)) f = Inr y \<longleftrightarrow> length w = SIGNATURE_LEN \<and> f () = Inr y"
  by (auto simp: signature_ends_def bytes_field.get_iff ebind_Inr_iff put_array_def r_done_rd)

lemma signature_ends_run: "length w = SIGNATURE_LEN \<Longrightarrow> signature_ends (rd pre w) = Inr ()"
  by (simp add: signature_ends_def r_bytes_all r_done_nil)

lemma file_verify_append:
  "length sig = SIGNATURE_LEN \<Longrightarrow>
    file_verify P label room (covered @ sig) spub = Inr u \<longleftrightarrow> signed_by P spub label room covered sig"
  by (simp add: file_verify_def signed_by_def signed_bytes_def Let_def)

lemmas enroll_chain = file_chain signature_ends_bind

lemmas enroll_run = file_run signature_ends_run

section \<open>Requests, exactly\<close>

definition request_ok :: "join_request \<Rightarrow> bool" where
  "request_ok q \<longleftrightarrow> length (q_request_id q) = REQUEST_ID_LEN \<and> length (q_device_id q) = DEVICE_ID_LEN
     \<and> length (q_sign_pub q) = PUB_KEY_LEN \<and> length (q_box_pub q) = BOX_PUB_LEN
     \<and> text_ok (q_name q) \<and> text_ok (q_os q)"

definition put_request :: "join_request \<Rightarrow> bytes" where
  "put_request q = put_u8 1 @ q_request_id q @ q_device_id q @ q_sign_pub q @ q_box_pub q
     @ u64_be (q_ts_ms q) @ put_text (q_name q) @ put_text (q_os q)"

lemma request_encode_ok:
  assumes "request_ok q" "q_sign_pub q = sign_pub P keys" "q_box_pub q = box_pub P keys"
  shows "request_encode P q keys room = Inr (file_sign P keys LABEL_REQUEST room (put_request q))"
  using assms
  by (simp add: request_encode_def request_ok_def put_request_def Let_def w_defs w_text_ok put_u8_def)

lemma request_decode_iff:
  "request_decode P body room = Inr q \<longleftrightarrow>
    request_ok q \<and> (\<exists>sig. body = put_request q @ sig
      \<and> signed_by P (q_sign_pub q) LABEL_REQUEST room (put_request q) sig)"
proof
  assume d: "request_decode P body room = Inr q"
  note d [unfolded request_decode_def enroll_shared r_new_rd, simplified enroll_chain prod.case]
  then obtain sig where "request_ok q" "body = put_request q @ sig" "length sig = SIGNATURE_LEN"
    "file_verify P LABEL_REQUEST room body (q_sign_pub q) = Inr ()"
    by (auto simp: ebind_Inr_iff request_ok_def put_request_def)
  then show "request_ok q \<and> (\<exists>sig. body = put_request q @ sig
      \<and> signed_by P (q_sign_pub q) LABEL_REQUEST room (put_request q) sig)"
    using file_verify_append [of sig] by auto
next
  assume "request_ok q \<and> (\<exists>sig. body = put_request q @ sig
      \<and> signed_by P (q_sign_pub q) LABEL_REQUEST room (put_request q) sig)"
  then obtain sig where c: "request_ok q" and b: "body = put_request q @ sig"
    and s: "signed_by P (q_sign_pub q) LABEL_REQUEST room (put_request q) sig" by blast
  have l: "length sig = SIGNATURE_LEN" using s by (simp add: signed_by_def)
  have v: "file_verify P LABEL_REQUEST room body (q_sign_pub q) = Inr ()"
    using file_verify_append [OF l] s b by blast
  have b': "body = put_u8 1 @ q_request_id q @ q_device_id q @ q_sign_pub q @ q_box_pub q
     @ u64_be (q_ts_ms q) @ put_text (q_name q) @ put_text (q_os q) @ sig"
    by (simp add: b put_request_def)
  show "request_decode P body room = Inr q"
    unfolding request_decode_def b' using c l v [unfolded b']
    by (simp add: request_ok_def enroll_run)
qed

section \<open>Grants and declines, exactly\<close>

definition put_grant :: "bytes \<Rightarrow> bytes \<Rightarrow> bytes \<Rightarrow> bytes \<Rightarrow> bytes" where
  "put_grant request_id spub approver sealed =
     put_u8 1 @ request_id @ spub @ approver @ put_blob sealed"

lemma grant_inner_shape:
  "length inner \<noteq> 2 + KEY_LEN \<or> inner ! 0 \<noteq> 1 \<or> inner ! (1 + KEY_LEN) > 1 \<longleftrightarrow>
    \<not> (\<exists>s b. length s = 32 \<and> inner = 1 # s @ [flag_byte b])"
proof
  assume "length inner \<noteq> 2 + KEY_LEN \<or> inner ! 0 \<noteq> 1 \<or> inner ! (1 + KEY_LEN) > 1"
  then show "\<not> (\<exists>s b. length s = 32 \<and> inner = 1 # s @ [flag_byte b])"
    by (auto simp: KEY_LEN_def flag_byte_def nth_append split: if_splits)
next
  assume n: "\<not> (\<exists>s b. length s = 32 \<and> inner = 1 # s @ [flag_byte b])"
  show "length inner \<noteq> 2 + KEY_LEN \<or> inner ! 0 \<noteq> 1 \<or> inner ! (1 + KEY_LEN) > 1"
  proof (rule ccontr)
    assume c: "\<not> ?thesis"
    then obtain t where t: "inner = 1 # t" "length t = 33"
      by (cases inner) (auto simp: KEY_LEN_def)
    then obtain s l where s: "t = s @ [l]" "length s = 32" by (cases t rule: rev_cases) auto
    have "l \<le> 1" using c t s by (simp add: KEY_LEN_def nth_append not_less)
    then have "l = flag_byte (l = 1)" unfolding flag_byte_def
      by (metis word_le_nat_alt unat_1 le_less_Suc_eq less_Suc_eq_le One_nat_def less_one le_neq_implies_less
          unat_eq_0 word_unat_eq_iff)
    then show False using n s t by blast
  qed
qed

lemma read_granted_iff:
  "read_granted inner = Inr g \<longleftrightarrow>
    length (g_secret g) = 32 \<and> inner = 1 # g_secret g @ [flag_byte (never_exported g)]"
proof -
  have i: "read_granted (1 # s @ [flag_byte b]) = Inr \<lparr>g_secret = s, never_exported = b\<rparr>"
    if "length s = 32" for s b
    using that by (simp add: read_granted_def KEY_LEN_def nth_append slice_def flag_byte_def)
  show ?thesis
  proof
    assume r: "read_granted inner = Inr g"
    then have "\<exists>s b. length s = 32 \<and> inner = 1 # s @ [flag_byte b]"
      unfolding read_granted_def grant_inner_shape by (metis Inl_Inr_False)
    then show "length (g_secret g) = 32 \<and> inner = 1 # g_secret g @ [flag_byte (never_exported g)]"
      using r i by force
  next
    assume "length (g_secret g) = 32 \<and> inner = 1 # g_secret g @ [flag_byte (never_exported g)]"
    then show "read_granted inner = Inr g" using i [of "g_secret g" "never_exported g"] by simp
  qed
qed

lemma open_grant_iff:
  "open_grant P code room keys rid body = Inr g \<longleftrightarrow>
    (\<exists>approver sealed sig. body = put_grant rid (sign_pub P keys) approver sealed @ sig
      \<and> signed_by P approver LABEL_GRANT room (put_grant rid (sign_pub P keys) approver sealed) sig
      \<and> made_by P code approver \<and> length rid = 16 \<and> length (sign_pub P keys) = 32
      \<and> length approver = 32 \<and> blob_ok sealed \<and> length (g_secret g) = 32
      \<and> open_box P keys LABEL_GRANT sealed = Inr (1 # g_secret g @ [flag_byte (never_exported g)]))"
    (is "?l \<longleftrightarrow> ?r")
proof
  assume ?l
  note this [unfolded open_grant_def enroll_shared r_new_rd, simplified enroll_chain prod.case]
  then obtain approver sealed sig where b: "body = put_grant rid (sign_pub P keys) approver sealed @ sig"
    "length sig = SIGNATURE_LEN" "made_by P code approver" "length rid = 16"
    "length (sign_pub P keys) = 32" "length approver = 32" "blob_ok sealed"
    "file_verify P LABEL_GRANT room body approver = Inr ()"
    "ebind (open_box P keys LABEL_GRANT sealed) read_granted = Inr g"
    by (auto simp: ebind_Inr_iff put_grant_def REQUEST_ID_LEN_def PUB_KEY_LEN_def)
  then show ?r using file_verify_append [OF b(2)]
    by (auto simp: ebind_Inr_iff read_granted_iff)
next
  assume ?r
  then obtain approver sealed sig where b:
    "body = put_u8 1 @ rid @ sign_pub P keys @ approver @ put_blob sealed @ sig"
    "signed_by P approver LABEL_GRANT room (put_grant rid (sign_pub P keys) approver sealed) sig"
    "made_by P code approver" "length rid = 16" "length (sign_pub P keys) = 32"
    "length approver = 32" "blob_ok sealed"
    "ebind (open_box P keys LABEL_GRANT sealed) read_granted = Inr g"
    by (auto simp: put_grant_def ebind_Inr_iff read_granted_iff)
  have l: "length sig = SIGNATURE_LEN" using b(2) by (simp add: signed_by_def)
  have v: "file_verify P LABEL_GRANT room body approver = Inr ()"
    using file_verify_append [OF l, of P LABEL_GRANT room "put_grant rid (sign_pub P keys) approver sealed"
        approver "()"] b(1,2) by (simp add: put_grant_def)
  show ?l
    unfolding open_grant_def b(1) using b(3-8) l v [unfolded b(1)]
    by (simp add: enroll_run REQUEST_ID_LEN_def PUB_KEY_LEN_def)
qed

definition put_decline :: "bytes \<Rightarrow> bytes \<Rightarrow> bytes" where
  "put_decline request_id approver = put_u8 1 @ request_id @ approver"

lemma is_decline_for_iff:
  "is_decline_for P code room rid body \<longleftrightarrow>
    (\<exists>approver sig. body = put_decline rid approver @ sig
      \<and> signed_by P approver LABEL_DECLINE room (put_decline rid approver) sig
      \<and> made_by P code approver \<and> length rid = 16 \<and> length approver = 32)"
    (is "?l \<longleftrightarrow> ?r")
proof
  assume ?l
  then have "decline_check P code room rid body = Inr True"
    by (auto simp: is_decline_for_def split: sum.splits)
  note this [unfolded decline_check_def enroll_shared r_new_rd, simplified enroll_chain prod.case]
  then obtain approver sig where "body = put_decline rid approver @ sig" "length sig = SIGNATURE_LEN"
    "made_by P code approver" "length rid = 16" "length approver = 32"
    "file_verify P LABEL_DECLINE room body approver = Inr ()"
    by (auto simp: ebind_Inr_iff put_decline_def REQUEST_ID_LEN_def PUB_KEY_LEN_def)
  then show ?r using file_verify_append [of sig] by blast
next
  assume ?r
  then obtain approver sig where b: "body = put_u8 1 @ rid @ approver @ sig"
    "signed_by P approver LABEL_DECLINE room (put_decline rid approver) sig"
    "made_by P code approver" "length rid = 16" "length approver = 32"
    by (auto simp: put_decline_def)
  have l: "length sig = SIGNATURE_LEN" using b(2) by (simp add: signed_by_def)
  have v: "file_verify P LABEL_DECLINE room body approver = Inr ()"
    using file_verify_append [OF l, of P LABEL_DECLINE room "put_decline rid approver"
        approver "()"] b(1,2) by (simp add: put_decline_def)
  have "decline_check P code room rid body = Inr True"
    unfolding decline_check_def b(1) using b(3-5) l v [unfolded b(1)]
    by (simp add: enroll_run REQUEST_ID_LEN_def PUB_KEY_LEN_def)
  then show ?l by (simp add: is_decline_for_def)
qed

definition where_ok :: "ustr list \<Rightarrow> bool" where
  "where_ok ts \<longleftrightarrow> ts \<noteq> [] \<and> length ts \<le> MAX_WHERE_ADDRS \<and> list_all text_ok ts"

definition put_where :: "ustr list \<Rightarrow> bytes" where
  "put_where ts = put_u8 1 @ put_u8 (byte_of (length ts)) @ put_texts ts"

interpretation where_codec: canonical_codec where_ok put_where read_where
proof
  fix x
  assume x: "where_ok x"
  then have "texts_ok (length x) x" "unat (byte_of (length x)) = length x"
    by (simp_all add: where_ok_def texts_ok_def MAX_WHERE_ADDRS_def)
  then show "read_where (put_where x) = Inr x"
    using x by (simp add: read_where_def put_where_def file_run texts_field.get_end where_ok_def Let_def)
next
  fix w x
  assume "read_where w = Inr x"
  note this [unfolded read_where_def r_new_rd Let_def, simplified file_chain prod.case texts_field.get_bind]
  then show "where_ok x \<and> put_where x = w"
    by (auto simp: where_ok_def put_where_def texts_ok_def)
qed

lemma where_body_ok: "where_ok ts \<Longrightarrow> where_body ts = Inr (put_where ts)"
  by (simp add: where_ok_def where_body_def put_where_def w_texts_ok w_defs put_u8_def)

section \<open>Codes, exactly\<close>

lemma eq_ignore_ascii:
  assumes "eq_ignore_ascii_case head pre" "list_all (\<lambda>c. c < 128) pre"
  shows "list_all (\<lambda>c. c < 128) head"
proof -
  have "to_ascii_uppercase c < 128 \<longleftrightarrow> c < 128" for c by (auto simp: to_ascii_uppercase_def)
  then have "list_all (\<lambda>c. c < 128) xs = list_all (\<lambda>c. c < 128) (map to_ascii_uppercase xs)" for xs
    by (simp add: list.pred_map comp_def)
  then show ?thesis using assms unfolding eq_ignore_ascii_case_def by metis
qed

lemma CODE_PREFIX_ascii: "list_all (\<lambda>c. c < 128) CODE_PREFIX" "length CODE_PREFIX = 6" "str_len CODE_PREFIX = 6"
  using str_len_ascii [of CODE_PREFIX] by (simp_all add: CODE_PREFIX_def ulit_def)

lemma str_slice_head:
  assumes "str_ok s"
  shows "str_slice_to s 6 = Some head \<and> eq_ignore_ascii_case head CODE_PREFIX \<longleftrightarrow>
    (\<exists>body. s = head @ body \<and> eq_ignore_ascii_case head CODE_PREFIX)"
proof
  assume a: "str_slice_to s 6 = Some head \<and> eq_ignore_ascii_case head CODE_PREFIX"
  then have "is_char_boundary (utf8 s) 6" by (simp add: str_slice_to_def split: if_splits)
  then obtain n where "6 = length (utf8 (take n s))" using boundary_iff [OF assms] by blast
  then have "head = take n s" using str_slice_to_take [OF assms, of n] a by simp
  then show "\<exists>body. s = head @ body \<and> eq_ignore_ascii_case head CODE_PREFIX" using a by (metis append_take_drop_id)
next
  assume "\<exists>body. s = head @ body \<and> eq_ignore_ascii_case head CODE_PREFIX"
  then obtain body where b: "s = head @ body" "eq_ignore_ascii_case head CODE_PREFIX" by blast
  have "length head = 6" "str_len head = length head"
    using eq_ignore_length [OF b(2)] eq_ignore_ascii [OF b(2)] CODE_PREFIX_ascii by (simp_all add: str_len_ascii)
  then show "str_slice_to s 6 = Some head \<and> eq_ignore_ascii_case head CODE_PREFIX"
    using str_slice_to_take [OF assms, of "length head"] b by (simp add: str_len_def)
qed

lemma str_ok_compact: "str_ok s \<Longrightarrow> str_ok (join_compact s)"
  by (auto simp: join_compact_def str_ok_def list_all_iff)

lemma join_parse_iff:
  assumes "str_ok s"
  shows "join_parse P s = Inr code \<longleftrightarrow>
    (\<exists>head body. join_compact s = head @ body \<and> eq_ignore_ascii_case head CODE_PREFIX
      \<and> str_len body = 36 \<and> length (meeting_secret code) = 12 \<and> length (code_fingerprint code) = 6
      \<and> length (code_checksum P (CODE_VERSION # meeting_secret code @ code_fingerprint code)) = 3
      \<and> base32_decode body = Inr (CODE_VERSION # meeting_secret code @ code_fingerprint code
          @ code_checksum P (CODE_VERSION # meeting_secret code @ code_fingerprint code)))"
    (is "?l \<longleftrightarrow> ?r")
proof
  assume ?l
  then obtain head d where h: "str_slice_to (join_compact s) 6 = Some head"
      "eq_ignore_ascii_case head CODE_PREFIX" "str_len (drop (length head) (join_compact s)) = 36"
    and d: "base32_decode (drop (length head) (join_compact s)) = Inr d" "length d = 22" "d ! 0 = CODE_VERSION"
      "code_checksum P (take 19 d) = drop 19 d"
      "code = \<lparr>meeting_secret = slice 1 12 d, code_fingerprint = drop 13 (take 19 d)\<rparr>"
    by (auto simp: join_parse_def Let_def CODE_PREFIX_ascii asli_const ebind_Inr_iff
        split: option.splits if_splits)
  obtain t where t: "d = CODE_VERSION # t" using d(2,3) by (cases d) auto
  have pay: "take 19 d = CODE_VERSION # meeting_secret code @ code_fingerprint code"
    using d(2) append_take_drop_id [of 12 "take 18 t"] by (simp add: d(5) t slice_def)
  then have "d = CODE_VERSION # meeting_secret code @ code_fingerprint code @ code_checksum P (take 19 d)"
    using append_take_drop_id [of 19 d] d(4) by simp
  moreover have "length (code_checksum P (take 19 d)) = 3" using d(2,4) by simp
  moreover have "length (meeting_secret code) = 12" "length (code_fingerprint code) = 6"
    using d(2,5) by (simp_all add: slice_def)
  moreover obtain body where "join_compact s = head @ body"
    using str_slice_head [OF str_ok_compact [OF assms], of head] h by blast
  ultimately show ?r using h(2,3) d(1) unfolding pay by force
next
  assume ?r
  then obtain head body where h: "join_compact s = head @ body" "eq_ignore_ascii_case head CODE_PREFIX"
      "str_len body = 36" "length (meeting_secret code) = 12" "length (code_fingerprint code) = 6"
      "length (code_checksum P (CODE_VERSION # meeting_secret code @ code_fingerprint code)) = 3"
      "base32_decode body = Inr (CODE_VERSION # meeting_secret code @ code_fingerprint code
          @ code_checksum P (CODE_VERSION # meeting_secret code @ code_fingerprint code))" by blast
  have "str_slice_to (join_compact s) 6 = Some head"
    using str_slice_head [OF str_ok_compact [OF assms], of head] h(1,2) by blast
  moreover have "6 \<le> str_len (join_compact s)"
  proof -
    have "str_len head = 6" using eq_ignore_length [OF h(2)] eq_ignore_ascii [OF h(2)] CODE_PREFIX_ascii
      by (simp add: str_len_ascii)
    then show ?thesis by (simp add: h(1) str_len_def)
  qed
  ultimately show ?l using h
    by (simp add: join_parse_def Let_def CODE_PREFIX_ascii asli_const slice_def)
qed

lemma symbols_plain:
  assumes "symbols s = Inr vs" "45 \<notin> set s"
  shows "length vs = length s \<and> list_all (\<lambda>c. c < 128) s"
  using assms
proof (induction s arbitrary: vs)
  case (Cons ch chs)
  then obtain v us where "symbol_value ch = Inr v" "symbols chs = Inr us" "vs = v # us"
    by (auto simp: ebind_Inr_iff)
  then show ?case using Cons symbol_value_range [of ch v] by auto
qed simp

section \<open>Properties\<close>

text \<open>A join code survives being read aloud and retyped: with white space and dashes anywhere, any
  letter case in the prefix, and a body that differs in letter case and the confusable letters only,
  it parses to the code it was made from.\<close>

theorem join_code_retyped:
  assumes "hash_ok P" "length (meeting_secret code) = 12" "length (code_fingerprint code) = 6" "str_ok s"
    and "join_compact s = head @ body"
    and "eq_ignore_ascii_case head (take 6 (join_encode P code))"
    and "symbols body = symbols (drop 6 (join_encode P code))"
  shows "join_parse P s = Inr code"
proof -
  define sum where "sum = code_checksum P (CODE_VERSION # meeting_secret code @ code_fingerprint code)"
  define d where "d = CODE_VERSION # meeting_secret code @ code_fingerprint code @ sum"
  have enc: "join_encode P code = CODE_PREFIX @ base32_encode d"
    by (simp add: join_encode_def Let_def sum_def d_def)
  have sum: "length sum = 3"
    using assms(1) by (simp add: sum_def code_checksum_def hash_okD CODE_CHECKSUM_LEN_def)
  then have len: "length (base32_encode d) = 36"
    using assms(2,3) by (simp add: length_base32_encode d_def)
  have head: "eq_ignore_ascii_case head CODE_PREFIX" and body: "symbols body = symbols (base32_encode d)"
    using assms(6,7) enc CODE_PREFIX_ascii(2) by simp_all
  obtain vs where vs: "symbols (base32_encode d) = Inr vs"
    using base32_decode_encode [of d] base32_decode_iff by metis
  have "45 \<notin> set (join_compact s)" by (simp add: join_compact_def)
  then have "45 \<notin> set body" by (simp add: assms(5))
  then have "str_len body = 36"
    using symbols_plain [of body vs] symbols_plain [OF vs base32_encode_no_hyphen] body vs len
    by (simp add: str_len_ascii)
  moreover have "base32_decode body = Inr d"
    using dec_loop_symbols [OF body] base32_decode_encode by blast
  ultimately show ?thesis unfolding join_parse_iff [OF assms(4)]
    using assms(2,3,5) head sum by (auto simp: d_def sum_def)
qed

text \<open>A grant and a decline, read by the device they are for.\<close>

lemma grant_opens:
  assumes P: "aead_ok P" "aead_tagged P" "dh_ok P" "sig_ok P"
    and code: "code_fingerprint code = fingerprint P (sign_pub P approver)"
    and q: "q_sign_pub q = sign_pub P keys" "q_box_pub q = box_pub P keys" "length (q_request_id q) = 16"
    and n: "r2 = Some nonce" "length nonce = 24" and s: "length secret = 32"
    and g: "grant P r1 r2 approver room q secret exported = Inr body"
  shows "open_grant P code room keys (q_request_id q) body
      = Inr \<lparr>g_secret = secret, never_exported = exported\<rparr>
    \<and> (\<exists>w. decline P approver room (q_request_id q) = Inr w
        \<and> is_decline_for P code room (q_request_id q) w)"
proof -
  let ?a = "sign_pub P approver"
  have m: "made_by P code ?a" by (simp add: made_by_def code)
  have len: "length ?a = 32" "length (sign_pub P keys) = 32"
    using sig_okD(1) [OF P(4)] by (simp_all add: sign_pub_def)
  obtain eph sealed where b: "seal_box_with P eph nonce (box_pub P keys) LABEL_GRANT
        (1 # secret @ [flag_byte exported]) = Inr sealed" "blob_ok sealed"
      "body = file_sign P approver LABEL_GRANT room (put_grant (q_request_id q) (sign_pub P keys) ?a sealed)"
    using g n(1) q(1,2) by (auto simp: grant_def Let_def ebind_Inr_iff seal_box_Inr w_blob_iff w_defs
        put_grant_def put_u8_def)
  have "open_box P keys LABEL_GRANT sealed = Inr (1 # secret @ [flag_byte exported])"
    by (rule seal_box_open(1) [OF P(1-3) n(2) b(1)])
  then have "open_grant P code room keys (q_request_id q) body
      = Inr \<lparr>g_secret = secret, never_exported = exported\<rparr>"
    unfolding open_grant_iff
    using file_sign_signed [OF P(4), of approver LABEL_GRANT room
        "put_grant (q_request_id q) (sign_pub P keys) ?a sealed"] b(2,3) m len q(3) s by auto
  moreover have "decline P approver room (q_request_id q)
      = Inr (file_sign P approver LABEL_DECLINE room (put_decline (q_request_id q) ?a))"
    by (simp add: decline_def put_decline_def w_defs put_u8_def)
  moreover have "is_decline_for P code room (q_request_id q)
      (file_sign P approver LABEL_DECLINE room (put_decline (q_request_id q) ?a))"
    unfolding is_decline_for_iff
    using file_sign_signed [OF P(4), of approver LABEL_DECLINE room "put_decline (q_request_id q) ?a"]
      m len q(3) by auto
  ultimately show ?thesis by blast
qed

text \<open>What the approving device grants, the new device gets: with the code of the approver, the
  meeting room, its own keys and its own request, the grant opens to the account secret and the flag;
  a decline made for the same request is recognised.\<close>

theorem grant_reaches_requester:
  assumes P: "aead_ok P" "aead_tagged P" "dh_ok P" "sig_ok P"
    and code: "code_fingerprint code = fingerprint P (sign_pub P approver)"
    and q: "q_sign_pub q = sign_pub P keys" "q_box_pub q = box_pub P keys" "length (q_request_id q) = 16"
    and n: "r2 = Some nonce" "length nonce = 24" and s: "length secret = 32"
    and g: "grant P r1 r2 approver room q secret exported = Inr body"
  shows "open_grant P code room keys (q_request_id q) body
      = Inr \<lparr>g_secret = secret, never_exported = exported\<rparr>
    \<and> (\<exists>w. decline P approver room (q_request_id q) = Inr w
        \<and> is_decline_for P code room (q_request_id q) w)"
  by (rule grant_opens [OF assms])

text \<open>C18: A device joins an account only by the word of the device that made its code: a grant is
  accepted exactly when it answers this request and this signing key, is signed for the meeting room by
  a key with the code's fingerprint, and holds a box that opens with this device's keys; a decline
  exactly when such a key signed it for this request.\<close>

theorem grant_only_from_code_maker:
  "(open_grant P code room keys rid body = Inr g \<longleftrightarrow>
    (\<exists>approver sealed sig. body = put_grant rid (sign_pub P keys) approver sealed @ sig
      \<and> signed_by P approver LABEL_GRANT room (put_grant rid (sign_pub P keys) approver sealed) sig
      \<and> made_by P code approver \<and> length rid = 16 \<and> length (sign_pub P keys) = 32
      \<and> length approver = 32 \<and> blob_ok sealed \<and> length (g_secret g) = 32
      \<and> open_box P keys LABEL_GRANT sealed = Inr (1 # g_secret g @ [flag_byte (never_exported g)])))
   \<and> (is_decline_for P code room rid body \<longleftrightarrow>
    (\<exists>approver sig. body = put_decline rid approver @ sig
      \<and> signed_by P approver LABEL_DECLINE room (put_decline rid approver) sig
      \<and> made_by P code approver \<and> length rid = 16 \<and> length approver = 32))"
  using open_grant_iff is_decline_for_iff by blast

text \<open>A join request is believed exactly when it is the encoding of the request it decodes to,
  signed for the meeting room by the very key it asks to enrol; the new device's own request decodes
  on the approving device.\<close>

theorem request_exact:
  "(request_decode P body room = Inr q \<longleftrightarrow>
      request_ok q \<and> (\<exists>sig. body = put_request q @ sig
        \<and> signed_by P (q_sign_pub q) LABEL_REQUEST room (put_request q) sig))
   \<and> (sig_ok P \<and> request_ok q \<and> q_sign_pub q = sign_pub P keys \<and> q_box_pub q = box_pub P keys \<longrightarrow>
      (\<exists>w. request_encode P q keys room = Inr w \<and> request_decode P w room = Inr q))"
  using request_decode_iff request_encode_ok file_sign_signed by (metis (no_types, lifting))

definition ex_code :: join_code where
  "ex_code = \<lparr>meeting_secret = replicate 12 5,
     code_fingerprint = fingerprint toy_prims (sign_pub toy_prims ex_keys)\<rparr>"

definition ex_request :: join_request where
  "ex_request = \<lparr>q_request_id = replicate 16 1, q_device_id = replicate 16 2,
     q_sign_pub = sign_pub toy_prims ex_keys, q_box_pub = box_pub toy_prims ex_keys, q_ts_ms = 5,
     q_name = [97], q_os = []\<rparr>"

lemma ex_request_ok: "request_ok ex_request"
  by (simp add: ex_request_def request_ok_def asli_const text_ok_def str_len_ascii is_scalar_def
      sign_pub_def box_pub_def toy_prims_def)

lemma base32_plain: "c \<in> set (base32_encode bs) \<Longrightarrow> 48 \<le> c \<and> c \<le> 122"
proof -
  assume c: "c \<in> set (base32_encode bs)"
  obtain "is" where e: "base32_encode bs = map symbol is" "\<forall>i \<in> set is. unat i < 32"
    using base32_encode_fives [of bs] by blast
  then obtain i where "c = symbol i" "unat i < 32" using c by auto
  then show ?thesis using symbol_value_symbol(1) symbol_value_range by blast
qed

lemma join_code_retyped_witness:
  "join_parse toy_prims ([32] @ take 6 (join_encode toy_prims ex_code) @ [45] @ drop 6 (join_encode toy_prims ex_code))
    = Inr ex_code"
proof -
  obtain d where d: "join_encode toy_prims ex_code = CODE_PREFIX @ base32_encode d"
    by (simp add: join_encode_def Let_def)
  have t: "take 6 (join_encode toy_prims ex_code) = CODE_PREFIX" "drop 6 (join_encode toy_prims ex_code) = base32_encode d"
    by (simp_all add: d CODE_PREFIX_ascii)
  have b: "c \<in> set (base32_encode d) \<Longrightarrow> \<not> is_whitespace c \<and> c \<noteq> 45 \<and> c < 128" for c
    using base32_plain [of c d] whitespace_range [of c] by auto
  have p: "join_compact CODE_PREFIX = CODE_PREFIX" "join_compact (base32_encode d) = base32_encode d"
    using b by (simp_all add: join_compact_def CODE_PREFIX_def ulit_def is_whitespace_def filter_id_conv)
  have "join_compact ([32] @ CODE_PREFIX @ [45] @ base32_encode d)
      = join_compact CODE_PREFIX @ join_compact (base32_encode d)"
    by (simp add: join_compact_def is_whitespace_def)
  then have c: "join_compact ([32] @ CODE_PREFIX @ [45] @ base32_encode d) = CODE_PREFIX @ base32_encode d"
    by (simp only: p)
  have "list_all (\<lambda>c. c < 128) (base32_encode d)" using b by (simp add: list_all_iff)
  then have ok: "str_ok ([32] @ CODE_PREFIX @ [45] @ base32_encode d)"
    by (intro str_ok_ascii) (simp add: CODE_PREFIX_ascii)
  have l: "length (meeting_secret ex_code) = 12" "length (code_fingerprint ex_code) = 6"
    by (simp_all add: ex_code_def fingerprint_def hash_okD [OF toy_ok(5)] FINGERPRINT_LEN_def)
  show ?thesis unfolding t
    by (rule join_code_retyped [OF toy_ok(5) l ok c]) (simp_all add: t eq_ignore_ascii_case_def)
qed

lemma grant_reaches_requester_witness:
  "\<exists>body. grant toy_prims (Some [4]) (Some (replicate 24 7)) ex_keys [8] ex_request (replicate 32 6) True = Inr body
    \<and> open_grant toy_prims ex_code [8] ex_keys (q_request_id ex_request) body
        = Inr \<lparr>g_secret = replicate 32 6, never_exported = True\<rparr>"
proof -
  obtain body where b: "grant toy_prims (Some [4]) (Some (replicate 24 7)) ex_keys [8] ex_request (replicate 32 6) True = Inr body"
    by (simp add: grant_def seal_box_def seal_box_with_def toy_prims_def Let_def w_blob_def)
  have c: "code_fingerprint ex_code = fingerprint toy_prims (sign_pub toy_prims ex_keys)"
    by (simp add: ex_code_def)
  have q: "q_sign_pub ex_request = sign_pub toy_prims ex_keys" "q_box_pub ex_request = box_pub toy_prims ex_keys"
    "length (q_request_id ex_request) = 16" by (simp_all add: ex_request_def)
  show ?thesis
    using grant_reaches_requester [OF toy_ok(1,2,4,3) c q refl _ _ b] b by simp
qed

lemma request_exact_witness:
  "\<exists>w. request_encode toy_prims ex_request ex_keys [8] = Inr w \<and> request_decode toy_prims w [8] = Inr ex_request"
  using request_exact [of toy_prims "[]" "[8]" ex_request ex_keys] toy_ok(3) ex_request_ok
  by (simp add: ex_request_def)

end
