(* ===== verification/Direct.thy ===== *)
theory Direct
  imports File_Msg
begin

text \<open>
  A file sent straight to a device on the same network, \<open>crates/asli-crypto/src/direct.rs\<close>: the two
  ends of a connection, each counting what it sends and what it receives. The connection is a step
  relation over both ends and the frames under way; the lemmas show that what one end hears is, in
  order, what the other said, and that no frame is accepted out of its turn.
\<close>

definition LABEL_DIRECT :: bytes where [asli_const]: "LABEL_DIRECT = ascii ''asli/v2/file-direct''"
definition SALT_LEN :: nat where [asli_const]: "SALT_LEN = 16"
definition FRAME_OVERHEAD :: nat where [asli_const]: "FRAME_OVERHEAD = TAG_LEN"

datatype side = Receiver | Sender

fun side_code :: "side \<Rightarrow> byte" where
  "side_code Receiver = 0"
| "side_code Sender = 1"

fun other :: "side \<Rightarrow> side" where
  "other Receiver = Sender"
| "other Sender = Receiver"

record stream =
  st_cipher :: bytes
  st_aad :: bytes
  st_me :: side
  st_sent :: u64
  st_received :: u64

definition stream_new :: "prims \<Rightarrow> bytes \<Rightarrow> bytes \<Rightarrow> bytes \<Rightarrow> side \<Rightarrow> stream" where
  "stream_new P transfer_key salt offer_id me =
     (let key = p_hkdf_expand P (p_hkdf_extract P salt transfer_key) LABEL_DIRECT KEY_LEN;
          aad = LABEL_DIRECT @ offer_id
      in \<lparr>st_cipher = key, st_aad = aad, st_me = me, st_sent = 0, st_received = 0\<rparr>)"

definition direct_nonce :: "side \<Rightarrow> u64 \<Rightarrow> bytes" where
  "direct_nonce s counter = [side_code s] @ u64_be counter @ replicate (NONCE_LEN - 9) 0"

text \<open>Sealing counts the frame whether or not encryption succeeds; opening counts it only when it opens.\<close>

definition stream_seal :: "prims \<Rightarrow> stream \<Rightarrow> bytes \<Rightarrow> (error + bytes) \<times> stream" where
  "stream_seal P s plaintext =
     (let nonce = direct_nonce (st_me s) (st_sent s);
          s = s\<lparr>st_sent := st_sent s + 1\<rparr>
      in (ok_or Seal (p_aead_seal P (st_cipher s) nonce (st_aad s) plaintext), s))"

definition stream_open :: "prims \<Rightarrow> stream \<Rightarrow> bytes \<Rightarrow> (error + bytes) \<times> stream" where
  "stream_open P s sealed =
     (let nonce = direct_nonce (other (st_me s)) (st_received s)
      in case p_aead_open P (st_cipher s) nonce (st_aad s) sealed of
           None \<Rightarrow> (Inl Open, s)
         | Some plaintext \<Rightarrow> (Inr plaintext, s\<lparr>st_received := st_received s + 1\<rparr>))"

definition hello :: "bytes \<Rightarrow> bytes" where
  "hello offer_id = 1 # offer_id"

definition is_hello :: "bytes \<Rightarrow> bytes \<Rightarrow> bool" where
  "is_hello plaintext offer_id \<longleftrightarrow>
     length plaintext = 1 + OFFER_ID_LEN \<and> plaintext ! 0 = 1 \<and> drop 1 plaintext = offer_id"

section \<open>Nonces\<close>

lemma other_other [simp]: "other (other s) = s"
  by (cases s) simp_all

lemma other_neq [simp]: "other s \<noteq> s" "s \<noteq> other s"
  by (cases s; simp)+

lemma other_only [simp]: "other t = s \<longleftrightarrow> t = other s"
  by (cases s; cases t) simp_all

lemma side_code_inject [simp]: "side_code a = side_code b \<longleftrightarrow> a = b"
  by (cases a; cases b) simp_all

lemma direct_nonce_inject [simp]: "direct_nonce a m = direct_nonce b n \<longleftrightarrow> a = b \<and> m = n"
  by (simp add: direct_nonce_def)

section \<open>A connection\<close>

text \<open>Both ends, the frames each has under way to the other, and what each has said and heard.\<close>

record link =
  ends :: "side \<Rightarrow> stream"
  queue :: "side \<Rightarrow> bytes list"
  said :: "side \<Rightarrow> bytes list"
  heard :: "side \<Rightarrow> bytes list"

definition link_new :: "prims \<Rightarrow> bytes \<Rightarrow> bytes \<Rightarrow> bytes \<Rightarrow> link" where
  "link_new P transfer_key salt offer_id =
     \<lparr>ends = stream_new P transfer_key salt offer_id, queue = (\<lambda>_. []), said = (\<lambda>_. []), heard = (\<lambda>_. [])\<rparr>"

text \<open>An end says something, hears the next frame of the other end, or refuses a frame the network made.\<close>

inductive link_step :: "prims \<Rightarrow> link \<Rightarrow> link \<Rightarrow> bool" for P where
  say: "stream_seal P (ends l s) p = (Inr c, e) \<Longrightarrow>
    link_step P l (l\<lparr>ends := (ends l)(s := e), queue := (queue l)(s := queue l s @ [c]),
      said := (said l)(s := said l s @ [p])\<rparr>)"
| hear: "queue l (other s) = c # cs \<Longrightarrow> stream_open P (ends l s) c = (Inr p, e) \<Longrightarrow>
    link_step P l (l\<lparr>ends := (ends l)(s := e), queue := (queue l)(other s := cs),
      heard := (heard l)(s := heard l s @ [p])\<rparr>)"
| refuse: "stream_open P (ends l s) c = (Inl err, e) \<Longrightarrow>
    link_step P l (l\<lparr>ends := (ends l)(s := e)\<rparr>)"

inductive_cases link_stepE: "link_step P l l'"

text \<open>Each end counts what was said and heard; the frames under way are what was said and not heard yet.\<close>

definition link_inv :: "prims \<Rightarrow> bytes \<Rightarrow> bytes \<Rightarrow> link \<Rightarrow> bool" where
  "link_inv P key aad l \<longleftrightarrow> (\<forall>s.
     ends l s = \<lparr>st_cipher = key, st_aad = aad, st_me = s, st_sent = of_nat (length (said l s)),
       st_received = of_nat (length (heard l s))\<rparr>
     \<and> length (said l s) = length (heard l (other s)) + length (queue l s)
     \<and> heard l (other s) = take (length (heard l (other s))) (said l s)
     \<and> (\<forall>j < length (queue l s). p_aead_seal P key (direct_nonce s (of_nat (length (heard l (other s)) + j))) aad
           (said l s ! (length (heard l (other s)) + j)) = Some (queue l s ! j)))"

lemma link_invD:
  assumes "link_inv P key aad l"
  shows "ends l s = \<lparr>st_cipher = key, st_aad = aad, st_me = s, st_sent = of_nat (length (said l s)),
       st_received = of_nat (length (heard l s))\<rparr>"
    "length (said l s) = length (heard l (other s)) + length (queue l s)"
    "heard l (other s) = take (length (heard l (other s))) (said l s)"
    "j < length (queue l s) \<Longrightarrow> p_aead_seal P key (direct_nonce s (of_nat (length (heard l (other s)) + j))) aad
           (said l s ! (length (heard l (other s)) + j)) = Some (queue l s ! j)"
  using assms unfolding link_inv_def by blast+

lemma link_inv_new:
  "link_inv P (p_hkdf_expand P (p_hkdf_extract P salt transfer_key) LABEL_DIRECT KEY_LEN)
     (LABEL_DIRECT @ offer_id) (link_new P transfer_key salt offer_id)"
  by (simp add: link_inv_def link_new_def stream_new_def Let_def)

text \<open>The frame at the head of a queue opens to the next thing said.\<close>

lemma head_opens:
  assumes P: "aead_ok P" and i: "link_inv P key aad l" and q: "queue l (other s) = c # cs"
  shows "stream_open P (ends l s) c =
    (Inr (said l (other s) ! length (heard l s)), (ends l s)\<lparr>st_received := st_received (ends l s) + 1\<rparr>)"
proof -
  have "p_aead_seal P key (direct_nonce (other s) (of_nat (length (heard l s)))) aad
      (said l (other s) ! length (heard l s)) = Some c"
    using link_invD(4) [OF i, of 0 "other s"] q by simp
  then show ?thesis using aead_okD [OF P] link_invD(1) [OF i, of s]
    by (simp add: stream_open_def)
qed

lemma link_inv_say:
  assumes i: "link_inv P key aad l" and c: "stream_seal P (ends l s) p = (Inr c, e)"
  shows "link_inv P key aad (l\<lparr>ends := (ends l)(s := e), queue := (queue l)(s := queue l s @ [c]),
      said := (said l)(s := said l s @ [p])\<rparr>)"
proof -
  have sealed: "p_aead_seal P key (direct_nonce s (of_nat (length (said l s)))) aad p = Some c"
    and e: "e = (ends l s)\<lparr>st_sent := st_sent (ends l s) + 1\<rparr>"
    using c link_invD(1) [OF i, of s] by (auto simp: stream_seal_def Let_def)
  show ?thesis unfolding link_inv_def
  proof (intro allI conjI impI, goal_cases)
    case (1 t)
    then show ?case using link_invD(1) [OF i, of t] link_invD(1) [OF i, of s] by (simp add: e)
  next
    case (2 t)
    then show ?case using link_invD(2) [OF i, of t] by auto
  next
    case (3 t)
    then show ?case using link_invD(2,3) [OF i, of t] by auto
  next
    case (4 t j)
    then show ?case using link_invD(2) [OF i, of t] link_invD(4) [OF i, of j t] sealed
      by (auto simp: nth_append less_Suc_eq)
  qed
qed

lemma link_inv_hear:
  assumes P: "aead_ok P" and i: "link_inv P key aad l" and q: "queue l (other s) = c # cs"
    and o: "stream_open P (ends l s) c = (Inr p, e)"
  shows "link_inv P key aad (l\<lparr>ends := (ends l)(s := e), queue := (queue l)(other s := cs),
      heard := (heard l)(s := heard l s @ [p])\<rparr>)"
proof -
  have p: "p = said l (other s) ! length (heard l s)"
    and e: "e = (ends l s)\<lparr>st_received := st_received (ends l s) + 1\<rparr>"
    using head_opens [OF P i q] o by simp_all
  have len: "length (said l (other s)) = Suc (length (heard l s) + length cs)"
    using link_invD(2) [OF i, of "other s"] q by simp
  have pre: "take (length (heard l s)) (said l (other s)) = heard l s"
    using link_invD(3) [OF i, of "other s"] by simp
  show ?thesis unfolding link_inv_def
  proof (intro allI conjI impI, goal_cases)
    case (1 t)
    then show ?case using link_invD(1) [OF i, of t] link_invD(1) [OF i, of s] by (simp add: e)
  next
    case (2 t)
    then show ?case using link_invD(2) [OF i, of t] len by (cases "t = other s") simp_all
  next
    case (3 t)
    then show ?case using link_invD(3) [OF i, of t] len pre p
      by (cases "t = other s") (simp_all add: take_Suc_conv_app_nth)
  next
    case (4 t j)
    then show ?case using link_invD(4) [OF i, of j t] link_invD(4) [OF i, of "Suc j" "other s"] q
      by (cases "t = other s") simp_all
  qed
qed

lemma link_inv_step:
  assumes "aead_ok P" "link_inv P key aad l" "link_step P l l'"
  shows "link_inv P key aad l'"
  using assms(3)
proof cases
  case (say s p c e)
  then show ?thesis using link_inv_say [OF assms(2)] by simp
next
  case (hear s c cs p e)
  then show ?thesis using link_inv_hear [OF assms(1,2)] by simp
next
  case (refuse s c err e)
  then have "e = ends l s" by (auto simp: stream_open_def Let_def split: option.splits)
  then have "l' = l" using refuse by simp
  then show ?thesis using assms(2) by simp
qed

lemma link_inv_reachable:
  assumes "aead_ok P" "(link_step P)\<^sup>*\<^sup>* (link_new P transfer_key salt offer_id) l"
  shows "\<exists>key aad. link_inv P key aad l"
  using assms(2)
proof (induction rule: rtranclp_induct)
  case base
  show ?case using link_inv_new by blast
next
  case (step l l')
  then show ?case using link_inv_step [OF assms(1)] by blast
qed

section \<open>Properties\<close>

text \<open>On a direct connection, however the two ends' frames and the network's forgeries interleave,
  what an end has heard is a prefix of what the other said, the next frame under way opens to the next
  thing said, and until an end has sealed 2^64 frames the nonce of its next frame is new under the key.\<close>

theorem direct_in_order:
  assumes "aead_ok P" "(link_step P)\<^sup>*\<^sup>* (link_new P transfer_key salt offer_id) l"
  shows "(\<exists>rest. said l s = heard l (other s) @ rest \<and> length rest = length (queue l s))
    \<and> (\<forall>c cs. queue l s = c # cs \<longrightarrow>
        fst (stream_open P (ends l (other s)) c) = Inr (said l s ! length (heard l (other s))))
    \<and> (\<forall>t i. i < length (said l t) \<and> length (said l t) < 2 ^ 64 \<and> length (said l s) < 2 ^ 64 \<longrightarrow>
        direct_nonce (st_me (ends l s)) (st_sent (ends l s)) \<noteq> direct_nonce t (of_nat i))"
proof -
  obtain key aad where i: "link_inv P key aad l" using link_inv_reachable [OF assms] by blast
  have "said l s = heard l (other s) @ drop (length (heard l (other s))) (said l s)"
    using link_invD(3) [OF i, of s] by (metis append_take_drop_id)
  moreover have "length (drop (length (heard l (other s))) (said l s)) = length (queue l s)"
    using link_invD(2) [OF i, of s] by simp
  moreover have "queue l s = c # cs \<Longrightarrow>
      fst (stream_open P (ends l (other s)) c) = Inr (said l s ! length (heard l (other s)))" for c cs
    using head_opens [OF assms(1) i, of "other s" c cs] by simp
  moreover have "direct_nonce (st_me (ends l s)) (st_sent (ends l s)) \<noteq> direct_nonce t (of_nat j)"
    if "j < length (said l t)" "length (said l t) < 2 ^ 64" "length (said l s) < 2 ^ 64" for t j
    using that link_invD(1) [OF i, of s] by (auto simp: word_unat_eq_iff unat_of_nat)
  ultimately show ?thesis by blast
qed

text \<open>A frame that opens only the way it was sealed is accepted at its own turn and by the other end
  only: an end that is elsewhere in the count refuses it and does not move, and once heard it is not
  heard again.\<close>

theorem direct_no_replay:
  assumes "aead_bound P c (st_cipher e) (direct_nonce s n) (st_aad e)"
  shows "stream_open P e c = (Inl Open, e)
    \<or> st_me e = other s \<and> st_received e = n
      \<and> stream_open P (snd (stream_open P e c)) c = (Inl Open, snd (stream_open P e c))"
proof (cases "stream_open P e c = (Inl Open, e)")
  case False
  then obtain p where p: "p_aead_open P (st_cipher e) (direct_nonce (other (st_me e)) (st_received e)) (st_aad e) c
      = Some p" by (auto simp: stream_open_def Let_def split: option.splits)
  then have me: "st_me e = other s" "st_received e = n" using aead_boundD [OF assms p] by simp_all
  let ?e = "e\<lparr>st_received := n + 1\<rparr>"
  have e: "snd (stream_open P e c) = ?e" using p me by (simp add: stream_open_def)
  have "p_aead_open P (st_cipher e) (direct_nonce s (n + 1)) (st_aad e) c = None"
    using aead_boundD [OF assms, of "st_cipher e" "direct_nonce s (n + 1)" "st_aad e"]
    by (cases "p_aead_open P (st_cipher e) (direct_nonce s (n + 1)) (st_aad e) c") auto
  then show ?thesis using me e by (simp add: stream_open_def)
qed simp

definition ex_link :: link where
  "ex_link = link_new toy_prims [1] [2] (replicate 16 3)"

lemma direct_in_order_witness:
  "\<exists>l. (link_step toy_prims)\<^sup>*\<^sup>* ex_link l \<and> said l Receiver = [[9]] \<and> length (queue l Receiver) = 1
    \<and> (\<exists>rest. said l Receiver = heard l (other Receiver) @ rest \<and> length rest = 1)"
proof -
  obtain c e where c: "stream_seal toy_prims (ends ex_link Receiver) [9] = (Inr c, e)"
    by (simp add: stream_seal_def toy_prims_def Let_def)
  let ?l = "ex_link\<lparr>ends := (ends ex_link)(Receiver := e), queue := (queue ex_link)(Receiver := queue ex_link Receiver @ [c]),
      said := (said ex_link)(Receiver := said ex_link Receiver @ [[9]])\<rparr>"
  have "link_step toy_prims ex_link ?l" by (rule say [OF c])
  then have r: "(link_step toy_prims)\<^sup>*\<^sup>* ex_link ?l" by blast
  moreover have "said ?l Receiver = [[9]]" "length (queue ?l Receiver) = 1"
    by (simp_all add: ex_link_def link_new_def)
  ultimately show ?thesis
    using direct_in_order [OF toy_ok(1) r [unfolded ex_link_def], of Receiver] unfolding ex_link_def
    by (metis (no_types, lifting))
qed

lemma direct_no_replay_witness:
  "stream_open (one_open [1] (direct_nonce Sender 0) [2] [9] [4])
     \<lparr>st_cipher = [1], st_aad = [2], st_me = Receiver, st_sent = 0, st_received = 1\<rparr> [9] =
   (Inl Open, \<lparr>st_cipher = [1], st_aad = [2], st_me = Receiver, st_sent = 0, st_received = 1\<rparr>)"
  using direct_no_replay [of "one_open [1] (direct_nonce Sender 0) [2] [9] [4]" "[9]"
      "\<lparr>st_cipher = [1], st_aad = [2], st_me = Receiver, st_sent = 0, st_received = 1\<rparr>" Sender 0]
    one_open_bound [of "[1]" "direct_nonce Sender 0" "[2]" "[9]" "[4]"]
  by simp

end
