(* ===== verification/Auth.thy ===== *)
theory Auth
  imports Clip
begin

text \<open>
  The relay handshake, \<open>crates/asli-crypto/src/auth.rs\<close>: the fixed byte string a client signs, signing
  it and verifying it as the relay would. The signed input determines every field, so a signature for
  one challenge answers no other.
\<close>

definition LABEL_AUTH :: bytes where [asli_const]: "LABEL_AUTH = ascii ''asli/v1/auth''"
definition SERVER_NONCE_LEN :: nat where [asli_const]: "SERVER_NONCE_LEN = 32"
definition CLIENT_NONCE_LEN :: nat where [asli_const]: "CLIENT_NONCE_LEN = 16"
definition ROOM_ID_LEN_U8 :: byte where [asli_const]: "ROOM_ID_LEN_U8 = 16"
definition PUB_KEY_LEN_U8 :: byte where [asli_const]: "PUB_KEY_LEN_U8 = 32"
definition SERVER_NONCE_LEN_U8 :: byte where [asli_const]: "SERVER_NONCE_LEN_U8 = 32"
definition CLIENT_NONCE_LEN_U8 :: byte where [asli_const]: "CLIENT_NONCE_LEN_U8 = 16"

definition SIG_INPUT_LEN :: nat where
  [asli_const]: "SIG_INPUT_LEN =
     12 + 1 + 1 + ROOM_ID_LEN + 1 + PUB_KEY_LEN + 1 + SERVER_NONCE_LEN + 1 + CLIENT_NONCE_LEN + 8"

definition build_sig_input :: "byte \<Rightarrow> bytes \<Rightarrow> bytes \<Rightarrow> bytes \<Rightarrow> bytes \<Rightarrow> u64 \<Rightarrow> bytes" where
  "build_sig_input version room_id_bytes public_key server_nonce client_nonce client_time_ms =
     LABEL_AUTH @ [version]
     @ [ROOM_ID_LEN_U8] @ room_id_bytes
     @ [PUB_KEY_LEN_U8] @ public_key
     @ [SERVER_NONCE_LEN_U8] @ server_nonce
     @ [CLIENT_NONCE_LEN_U8] @ client_nonce
     @ u64_be client_time_ms"

definition sign_auth :: "prims \<Rightarrow> identity \<Rightarrow> bytes \<Rightarrow> bytes \<Rightarrow> u64 \<Rightarrow> bytes" where
  "sign_auth P i server_nonce client_nonce client_time_ms =
     id_sign P i (build_sig_input PROTOCOL_VERSION (id_room_id_bytes i) (id_public_key P i)
       server_nonce client_nonce client_time_ms)"

definition verify_auth ::
    "prims \<Rightarrow> bytes \<Rightarrow> bytes \<Rightarrow> bytes \<Rightarrow> bytes \<Rightarrow> u64 \<Rightarrow> bytes \<Rightarrow> error + unit" where
  "verify_auth P room_id_bytes public_key server_nonce client_nonce client_time_ms signature =
     ebind (verify_room_binding P room_id_bytes public_key) (\<lambda>_.
       verify_signature P public_key
         (build_sig_input PROTOCOL_VERSION room_id_bytes public_key server_nonce client_nonce client_time_ms)
         signature)"

lemma length_build_sig_input:
  assumes "length r = ROOM_ID_LEN" "length k = PUB_KEY_LEN" "length ns = SERVER_NONCE_LEN"
    "length nc = CLIENT_NONCE_LEN"
  shows "length (build_sig_input v r k ns nc t) = SIG_INPUT_LEN"
  using assms by (simp add: build_sig_input_def asli_const)

lemma build_sig_input_inject:
  assumes "length r = length r'" "length k = length k'" "length ns = length ns'" "length nc = length nc'"
  shows "build_sig_input v r k ns nc t = build_sig_input v' r' k' ns' nc' t' \<longleftrightarrow>
    v = v' \<and> r = r' \<and> k = k' \<and> ns = ns' \<and> nc = nc' \<and> t = t'"
  using assms by (auto simp: build_sig_input_def)

section \<open>Properties\<close>

text \<open>A client proves its account to the relay: what an identity signs for a challenge verifies for
  its room and its public key, over exactly 121 bytes.\<close>

theorem auth_accepts_owner:
  assumes "sig_ok P" "hash_ok P" "length ns = 32" "length nc = 16"
  shows "verify_auth P (id_room_id_bytes (from_secret P secret)) (id_public_key P (from_secret P secret)) ns nc t
      (sign_auth P (from_secret P secret) ns nc t) = Inr ()
    \<and> length (build_sig_input PROTOCOL_VERSION (id_room_id_bytes (from_secret P secret))
        (id_public_key P (from_secret P secret)) ns nc t) = 121"
  using sig_okD [OF assms(1)] length_room_id [OF assms(2)] assms(3,4)
    length_build_sig_input [of "id_room_id_bytes (from_secret P secret)" "id_public_key P (from_secret P secret)" ns nc]
  by (simp add: verify_auth_def sign_auth_def id_sign_def id_public_key_def from_secret_def Let_def ebind_Inr_iff asli_const)

text \<open>A handshake is accepted only for the room that is the hash of the key and only for the challenge
  that was signed: a signature that verifies for one key and message only is refused for every other
  room, key, server nonce, client nonce or time.\<close>

theorem auth_answers_one_challenge:
  assumes "sig_bound P g k (build_sig_input PROTOCOL_VERSION r k ns nc t)"
    and "length r = 16" "length r' = 16" "length ns = 32" "length ns' = 32" "length nc = 16" "length nc' = 16"
    and "verify_auth P r' k' ns' nc' t' g = Inr u"
  shows "k' = k \<and> r' = r \<and> ns' = ns \<and> nc' = nc \<and> t' = t \<and> r = room_id_for_public_key P k"
proof -
  have b: "room_id_for_public_key P k' = r'"
    and v: "p_ed_verify_strict P k' (build_sig_input PROTOCOL_VERSION r' k' ns' nc' t') g"
    using assms(8) by (auto simp: verify_auth_def ebind_Inr_iff)
  have "k' = k" "build_sig_input PROTOCOL_VERSION r' k' ns' nc' t' = build_sig_input PROTOCOL_VERSION r k ns nc t"
    using sig_boundD [OF assms(1) v] by blast+
  then show ?thesis using assms(2-7) b by (simp add: build_sig_input_inject)
qed

lemma auth_accepts_owner_witness:
  "verify_auth toy_prims (id_room_id_bytes (from_secret toy_prims [1])) (id_public_key toy_prims (from_secret toy_prims [1]))
     (replicate 32 4) (replicate 16 5) 6 (sign_auth toy_prims (from_secret toy_prims [1]) (replicate 32 4) (replicate 16 5) 6)
   = Inr ()"
  using auth_accepts_owner [OF toy_ok(3) toy_ok(5), of "replicate 32 4" "replicate 16 5"] by simp

definition ex_room :: bytes where "ex_room = room_id_for_public_key toy_prims [1]"

lemma auth_answers_one_challenge_witness:
  "verify_auth (one_sig [1] (build_sig_input PROTOCOL_VERSION ex_room [1] (replicate 32 4) (replicate 16 5) 6) [9])
     ex_room [1] (replicate 32 4) (replicate 16 5) 6 [9] = Inr ()
   \<and> ex_room = room_id_for_public_key
       (one_sig [1] (build_sig_input PROTOCOL_VERSION ex_room [1] (replicate 32 4) (replicate 16 5) 6) [9]) [1]"
proof -
  let ?P = "one_sig [1] (build_sig_input PROTOCOL_VERSION ex_room [1] (replicate 32 4) (replicate 16 5) 6) [9]"
  have r: "length ex_room = 16" by (simp add: ex_room_def length_room_id [OF toy_ok(5)])
  have "room_id_for_public_key ?P [1] = ex_room"
    by (simp add: ex_room_def room_id_for_public_key_def one_sig_def)
  then have v: "verify_auth ?P ex_room [1] (replicate 32 4) (replicate 16 5) 6 [9] = Inr ()"
    by (simp add: verify_auth_def ebind_Inr_iff) (simp add: one_sig_def toy_prims_def)
  from auth_answers_one_challenge [OF one_sig_bound r r _ _ _ _ v] v show ?thesis by simp
qed

end
