(* ===== verification/Envelope.thy ===== *)
theory Envelope
  imports Clip
begin

text \<open>
  The wire messages and the transport errors, \<open>crates/asli-net/src/envelope.rs\<close> and \<open>error.rs\<close>.
  JSON and base64 are libraries the program calls: turning a message into text and back is a record of
  functions that the definitions take, and what the program makes of a text it cannot read is modelled
  on top of them.
\<close>

definition NET_PROTOCOL_VERSION :: byte where [asli_const]: "NET_PROTOCOL_VERSION = 1"

section \<open>Codes\<close>

datatype auth_fail_code =
    AF_UnsupportedVersion | AF_BadSignature | AF_RoomMismatch | AF_MalformedAuth | AF_StaleNonce
  | AF_AuthTimeout

fun is_permanent :: "auth_fail_code \<Rightarrow> bool" where
  "is_permanent AF_UnsupportedVersion = True"
| "is_permanent AF_BadSignature = True"
| "is_permanent AF_RoomMismatch = True"
| "is_permanent _ = False"

fun auth_fail_str :: "auth_fail_code \<Rightarrow> string" where
  "auth_fail_str AF_UnsupportedVersion = ''UNSUPPORTED_VERSION''"
| "auth_fail_str AF_BadSignature = ''BAD_SIGNATURE''"
| "auth_fail_str AF_RoomMismatch = ''ROOM_MISMATCH''"
| "auth_fail_str AF_MalformedAuth = ''MALFORMED_AUTH''"
| "auth_fail_str AF_StaleNonce = ''STALE_NONCE''"
| "auth_fail_str AF_AuthTimeout = ''AUTH_TIMEOUT''"

datatype error_code =
    EC_RateLimited | EC_QuotaExceeded | EC_MessageTooLarge | EC_Malformed | EC_UnknownType
  | EC_NotAuthenticated | EC_NoRetained | EC_NoSuchPeer | EC_Other

fun error_code_str :: "error_code \<Rightarrow> string" where
  "error_code_str EC_RateLimited = ''RATE_LIMITED''"
| "error_code_str EC_QuotaExceeded = ''QUOTA_EXCEEDED''"
| "error_code_str EC_MessageTooLarge = ''MESSAGE_TOO_LARGE''"
| "error_code_str EC_Malformed = ''MALFORMED''"
| "error_code_str EC_UnknownType = ''UNKNOWN_TYPE''"
| "error_code_str EC_NotAuthenticated = ''NOT_AUTHENTICATED''"
| "error_code_str EC_NoRetained = ''NO_RETAINED''"
| "error_code_str EC_NoSuchPeer = ''NO_SUCH_PEER''"
| "error_code_str EC_Other = ''OTHER''"

section \<open>Transport errors\<close>

datatype net_error =
    NetMalformed string
  | NetFieldLength string nat nat
  | NetBadBase64 string
  | NetUnsupported string
  | NetOutOfOrder string
  | NetContentTooLarge nat nat
  | NetAuthFailed auth_fail_code
  | NetCrypto error
  | NetTransport string
  | NetUnknownType

fun net_display :: "net_error \<Rightarrow> string" where
  "net_display (NetMalformed what) = ''malformed message: '' @ what"
| "net_display (NetFieldLength fld expected got) =
     ''field '' @ fld @ '' expected '' @ decimal expected @ '' bytes, got '' @ decimal got"
| "net_display (NetBadBase64 fld) = ''field '' @ fld @ '' is not valid base64''"
| "net_display (NetUnsupported what) = ''the relay is not compatible: '' @ what"
| "net_display (NetOutOfOrder what) = ''message arrived out of order: '' @ what"
| "net_display (NetContentTooLarge got limit) =
     ''this clipboard item is '' @ decimal got @ '' bytes and the relay accepts at most '' @ decimal limit"
| "net_display (NetAuthFailed code) = ''the relay rejected authentication: '' @ auth_fail_str code"
| "net_display (NetCrypto err) = ''cryptographic failure: '' @ display err"
| "net_display (NetTransport detail) = ''connection problem: '' @ detail"
| "net_display NetUnknownType = ''a message of a type this version does not know''"

section \<open>Messages\<close>

record m_hello =
  hello_v :: byte
  hello_suites :: "string list"
  hello_enc :: "string list"
  hello_client :: "string option"

record limits =
  max_frame_bytes :: u64
  max_content_bytes :: u64
  retain_max_bytes :: u64
  msgs_per_sec :: u64
  room_bytes_per_day :: u64

record m_challenge =
  ch_v :: byte
  ch_suite :: string
  ch_enc :: string
  ch_nonce_s :: bytes
  ch_server_time_ms :: u64
  ch_limits :: limits

record m_auth =
  au_v :: byte
  au_room :: ustr
  au_pub_key :: bytes
  au_nonce_c :: bytes
  au_client_time_ms :: u64
  au_sig :: bytes

record m_auth_ok =
  ok_v :: byte
  ok_conn_id :: ustr
  ok_peers :: u32
  ok_has_retained :: bool
  ok_stored_at :: "u64 option"

record m_auth_fail =
  af_v :: byte
  af_code :: auth_fail_code
  af_message :: "ustr option"

record m_clip =
  cl_v :: byte
  cl_room :: ustr
  cl_epoch :: u32
  cl_msg_id :: bytes
  cl_n :: bytes
  cl_ct :: bytes
  cl_retained :: "bool option"
  cl_stored_at :: "u64 option"

definition is_retained :: "m_clip \<Rightarrow> bool" where
  "is_retained c = (case cl_retained c of None \<Rightarrow> False | Some b \<Rightarrow> b)"

record m_announce =
  an_v :: byte
  an_room :: ustr
  an_epoch :: u32
  an_msg_id :: bytes
  an_n :: bytes
  an_ct :: bytes

record m_chunk =
  ck_v :: byte
  ck_room :: ustr
  ck_epoch :: u32
  ck_msg_id :: bytes
  ck_idx :: u32
  ck_chunk_count :: u32
  ck_n :: bytes
  ck_ct :: bytes

record m_fetch_last =
  fl_v :: byte

record m_presence =
  pr_v :: byte
  pr_peers :: u32

record m_ping =
  pi_v :: byte
  pi_t :: "u64 option"

record m_pong =
  po_v :: byte
  po_t :: "u64 option"

record m_msg =
  ms_v :: byte
  ms_room :: ustr
  ms_epoch :: u32
  ms_msg_id :: bytes
  ms_n :: bytes
  ms_ct :: bytes
  ms_to :: "ustr option"

record m_error =
  er_v :: byte
  er_code :: error_code
  er_message :: "ustr option"
  er_retry_after_ms :: "u64 option"

datatype message =
    MHello m_hello
  | MChallenge m_challenge
  | MAuth m_auth
  | MAuthOk m_auth_ok
  | MAuthFail m_auth_fail
  | MClip m_clip
  | MFetchLast m_fetch_last
  | MPresence m_presence
  | MPing m_ping
  | MPong m_pong
  | MError m_error
  | MClipBegin m_chunk
  | MClipChunk m_chunk
  | MClipEnd m_chunk
  | MAnnounce m_announce
  | MMsg m_msg

fun msg_version :: "message \<Rightarrow> byte" where
  "msg_version (MHello m) = hello_v m"
| "msg_version (MChallenge m) = ch_v m"
| "msg_version (MAuth m) = au_v m"
| "msg_version (MAuthOk m) = ok_v m"
| "msg_version (MAuthFail m) = af_v m"
| "msg_version (MClip m) = cl_v m"
| "msg_version (MFetchLast m) = fl_v m"
| "msg_version (MPresence m) = pr_v m"
| "msg_version (MPing m) = pi_v m"
| "msg_version (MPong m) = po_v m"
| "msg_version (MError m) = er_v m"
| "msg_version (MClipBegin m) = ck_v m"
| "msg_version (MClipChunk m) = ck_v m"
| "msg_version (MClipEnd m) = ck_v m"
| "msg_version (MAnnounce m) = an_v m"
| "msg_version (MMsg m) = ms_v m"

definition KNOWN_TYPES :: "string list" where
  "KNOWN_TYPES =
     [''hello'', ''challenge'', ''auth'', ''auth_ok'', ''auth_fail'', ''clip'', ''fetch_last'', ''presence'',
      ''ping'', ''pong'', ''error'', ''clip_begin'', ''clip_chunk'', ''clip_end'', ''announce'', ''msg'']"

text \<open>
  The JSON library on these types: reading a message, reading the type field alone, and writing a
  message. A frame is text.
\<close>

type_synonym frame = string

record json =
  j_message :: "frame \<Rightarrow> message option"
  j_kind :: "frame \<Rightarrow> string option"
  j_write :: "message \<Rightarrow> frame option"

definition msg_parse_frame :: "json \<Rightarrow> frame \<Rightarrow> net_error + message" where
  "msg_parse_frame J frame =
     (case j_message J frame of
        Some m \<Rightarrow> Inr m
      | None \<Rightarrow>
          (case j_kind J frame of
             Some kind \<Rightarrow>
               if kind \<notin> set KNOWN_TYPES then Inl NetUnknownType
               else Inl (NetMalformed ''frame did not match any type'')
           | None \<Rightarrow> Inl (NetMalformed ''frame did not match any type'')))"

definition to_frame :: "json \<Rightarrow> message \<Rightarrow> net_error + frame" where
  "to_frame J m = ok_or (NetMalformed ''could not serialize'') (j_write J m)"

text \<open>A binary field of a fixed length.\<close>

definition fixed :: "nat \<Rightarrow> string \<Rightarrow> bytes \<Rightarrow> net_error + bytes" where
  "fixed n fld bs = (if length bs = n then Inr bs else Inl (NetFieldLength fld n (length bs)))"

lemma fixed_Inr_iff [simp]: "fixed n fld bs = Inr x \<longleftrightarrow> length bs = n \<and> x = bs"
  by (auto simp: fixed_def)

text \<open>What is relied on of JSON: what was written reads back as the message it was.\<close>

definition json_ok :: "json \<Rightarrow> bool" where
  "json_ok J \<longleftrightarrow> (\<forall>m f. j_write J m = Some f \<longrightarrow> j_message J f = Some m)"

lemma parse_to_frame: "json_ok J \<Longrightarrow> to_frame J m = Inr f \<Longrightarrow> msg_parse_frame J f = Inr m"
  by (simp add: json_ok_def to_frame_def msg_parse_frame_def)

end
