(* ===== verification/Conn_State.thy ===== *)
theory Conn_State
  imports Envelope
begin

text \<open>
  The connection state machine, \<open>crates/asli-net/src/state.rs\<close>: a total function from a state and an
  input to a state. The lemmas cover every run: permanent failures and pauses hold until the person
  acts, and a connection counts as synced only after the relay accepted it.
\<close>

datatype fatal = F_BadSignature | F_RoomMismatch | F_UnsupportedVersion

fun user_message :: "fatal \<Rightarrow> string" where
  "user_message F_BadSignature =
     ''This device's key was rejected. Leave the account here and join it again with a code from another device.''"
| "user_message F_RoomMismatch =
     ''The stored account is inconsistent. Leave the account here and join it again with a code from another device.''"
| "user_message F_UnsupportedVersion = ''The relay is newer than this app. Please update Asli.''"

definition from_close_code :: "u16 \<Rightarrow> fatal option" where
  "from_close_code code =
     (if code = 4002 then Some F_BadSignature else if code = 4003 then Some F_RoomMismatch
      else if code = 4004 then Some F_UnsupportedVersion else None)"

fun from_auth_fail :: "auth_fail_code \<Rightarrow> fatal option" where
  "from_auth_fail AF_BadSignature = Some F_BadSignature"
| "from_auth_fail AF_RoomMismatch = Some F_RoomMismatch"
| "from_auth_fail AF_UnsupportedVersion = Some F_UnsupportedVersion"
| "from_auth_fail _ = None"

datatype state =
    Disconnected | Connecting | Authenticating | Synced | Paused | RateLimited | Fatal fatal

definition can_send :: "state \<Rightarrow> bool" where
  "can_send s \<longleftrightarrow> s = Synced"

definition wants_connection :: "state \<Rightarrow> bool" where
  "wants_connection s \<longleftrightarrow> s = Disconnected \<or> s = RateLimited"

fun state_label :: "state \<Rightarrow> string" where
  "state_label Disconnected = ''Offline, Retrying''"
| "state_label Connecting = ''Connecting''"
| "state_label Authenticating = ''Connecting''"
| "state_label Synced = ''Synced''"
| "state_label Paused = ''Paused''"
| "state_label RateLimited = ''Rate Limited, Retrying''"
| "state_label (Fatal _) = ''Stopped''"

datatype input =
    Dial | SocketOpen | AuthOk | AuthFail auth_fail_code | RelayError error_code | Closed u16
  | Pause | Resume | Reset

text \<open>The arms in the order of the source; a later one applies only where no earlier one does.\<close>

fun next_state :: "state \<Rightarrow> input \<Rightarrow> state" where
  "next_state (Fatal reason) i = (if i = Reset then Disconnected else Fatal reason)"
| "next_state Paused i = (if i = Resume then Disconnected else Paused)"
| "next_state s Pause = Paused"
| "next_state s (AuthFail code) =
     (case from_auth_fail code of Some reason \<Rightarrow> Fatal reason | None \<Rightarrow> Disconnected)"
| "next_state s (Closed code) =
     (case from_close_code code of
        Some reason \<Rightarrow> Fatal reason
      | None \<Rightarrow> if code = 4007 \<or> code = 4008 then RateLimited else Disconnected)"
| "next_state Disconnected Dial = Connecting"
| "next_state RateLimited Dial = Connecting"
| "next_state Connecting SocketOpen = Authenticating"
| "next_state Authenticating AuthOk = Synced"
| "next_state RateLimited AuthOk = Synced"
| "next_state Synced (RelayError EC_RateLimited) = RateLimited"
| "next_state Synced (RelayError EC_QuotaExceeded) = RateLimited"
| "next_state s i = s"

definition run_state :: "state \<Rightarrow> input list \<Rightarrow> state" where
  "run_state s is = foldl next_state s is"

lemma run_state_simps [simp]:
  "run_state s [] = s" "run_state s (i # is) = run_state (next_state s i) is"
  "run_state s (is @ js) = run_state (run_state s is) js"
  by (simp_all add: run_state_def)

interpretation stopped: machine "\<lambda>s i. if i = Reset then s else next_state s i" "\<lambda>s. s = Fatal r" for r
  by unfold_locales auto

lemma next_Synced: "next_state s i = Synced \<Longrightarrow> s = Synced \<and> i \<noteq> AuthOk \<or> i = AuthOk"
  by (cases "(s, i)" rule: next_state.cases) (auto split: option.splits if_splits)

lemma next_Fatal_new:
  assumes "next_state s i = Fatal r" "s \<noteq> Fatal r"
  shows "(\<exists>c. i = AuthFail c \<and> from_auth_fail c = Some r) \<or> (\<exists>c. i = Closed c \<and> from_close_code c = Some r)"
  using assms by (cases "(s, i)" rule: next_state.cases) (auto split: option.splits if_splits)

lemma run_Fatal: "Reset \<notin> set is \<Longrightarrow> run_state (Fatal r) is = Fatal r"
  by (induction "is") auto

lemma run_Paused: "Resume \<notin> set is \<Longrightarrow> run_state Paused is = Paused"
  by (induction "is") auto

lemma run_no_auth: "AuthOk \<notin> set is \<Longrightarrow> s \<noteq> Synced \<Longrightarrow> run_state s is \<noteq> Synced"
  by (induction "is" rule: rev_induct) (auto dest: next_Synced)

section \<open>Properties\<close>

text \<open>A permanent failure is terminal: the relay's refusals of the key, the room and the version
  reach it from every state but a pause or another permanent failure, and then no sequence of inputs
  without the person's reset leaves it, dials again or sends.\<close>

theorem fatal_is_terminal:
  "(s \<noteq> Paused \<and> (\<forall>r. s \<noteq> Fatal r) \<longrightarrow>
      next_state s (Closed 4002) = Fatal F_BadSignature
      \<and> next_state s (Closed 4003) = Fatal F_RoomMismatch
      \<and> next_state s (Closed 4004) = Fatal F_UnsupportedVersion
      \<and> (is_permanent code \<longleftrightarrow> (\<exists>r. next_state s (AuthFail code) = Fatal r)))
   \<and> (Reset \<notin> set is \<longrightarrow> run_state (Fatal r) is = Fatal r
      \<and> \<not> wants_connection (run_state (Fatal r) is) \<and> \<not> can_send (run_state (Fatal r) is))"
proof -
  have "next_state s (AuthFail code) =
      (case from_auth_fail code of Some reason \<Rightarrow> Fatal reason | None \<Rightarrow> Disconnected)"
    "next_state s (Closed c) = (case from_close_code c of Some reason \<Rightarrow> Fatal reason
      | None \<Rightarrow> if c = 4007 \<or> c = 4008 then RateLimited else Disconnected)"
    if "s \<noteq> Paused" "\<forall>r. s \<noteq> Fatal r" for c
    using that by (cases s; simp)+
  then show ?thesis
    by (cases code) (auto simp: from_close_code_def run_Fatal wants_connection_def can_send_def)
qed

text \<open>A device counts as synced only while the relay has accepted it: a run that starts elsewhere and
  ends synced contains the relay's acceptance, and everything after the last one kept it synced, so no
  refusal, close, pause or rate limit came after.\<close>

theorem synced_only_after_auth_ok:
  assumes "s \<noteq> Synced" and "can_send (run_state s is)"
  shows "\<exists>before after. is = before @ AuthOk # after
    \<and> run_state s before \<in> {Authenticating, RateLimited, Synced}
    \<and> (\<forall>i \<in> set after. next_state Synced i = Synced \<and> i \<noteq> AuthOk)"
  using assms(2)
proof (induction "is" rule: rev_induct)
  case Nil
  then show ?case using assms(1) by (simp add: can_send_def)
next
  case (snoc i js)
  have n: "next_state (run_state s js) i = Synced" using snoc.prems by (simp add: can_send_def)
  show ?case
  proof (cases "i = AuthOk")
    case True
    have "run_state s js \<in> {Authenticating, RateLimited, Synced}"
      using n True by (cases "run_state s js") auto
    then show ?thesis using True by (intro exI [of _ js] exI [of _ "[]"]) simp
  next
    case False
    then have y: "run_state s js = Synced" using next_Synced [OF n] by blast
    then obtain before after where "js = before @ AuthOk # after"
      "run_state s before \<in> {Authenticating, RateLimited, Synced}"
      "\<forall>i \<in> set after. next_state Synced i = Synced \<and> i \<noteq> AuthOk"
      using snoc.IH by (auto simp: can_send_def)
    then show ?thesis using False n y by (intro exI [of _ before] exI [of _ "after @ [i]"]) auto
  qed
qed

lemma fatal_is_terminal_witness:
  "run_state (Fatal F_BadSignature) [Dial, AuthOk, Resume, Closed 1000] = Fatal F_BadSignature"
  using fatal_is_terminal [of Synced AF_BadSignature "[Dial, AuthOk, Resume, Closed 1000]" F_BadSignature]
  by simp

lemma synced_only_after_auth_ok_witness:
  "\<exists>before after. [Dial, SocketOpen, AuthOk, RelayError EC_NoRetained] = before @ AuthOk # after"
  using synced_only_after_auth_ok [of Disconnected "[Dial, SocketOpen, AuthOk, RelayError EC_NoRetained]"]
  by (auto simp: can_send_def)

end
