(* ===== verification/Backoff.thy ===== *)
theory Backoff
  imports Asli_Prelude
begin

text \<open>
  Reconnect pacing, \<open>crates/asli-net/src/backoff.rs\<close>, at the widths of the source. The lemmas bound
  every delay from both sides, whatever the history, and show when the pacing resets.
\<close>

definition BASE_MS :: u64 where [asli_const]: "BASE_MS = 500"
definition CAP_MS :: u64 where [asli_const]: "CAP_MS = 30000"
definition RATE_LIMITED_CAP_MS :: u64 where [asli_const]: "RATE_LIMITED_CAP_MS = 60000"
definition QUOTA_CAP_MS :: u64 where [asli_const]: "QUOTA_CAP_MS = 3600000"
definition STABLE_MS :: u64 where [asli_const]: "STABLE_MS = 60000"

record backoff =
  attempt :: u32
  cap_ms :: u64
  floor_ms :: u64
  bypass_once :: bool
  authenticated_at_ms :: "u64 option"

definition backoff_new :: backoff where
  "backoff_new = \<lparr>attempt = 0, cap_ms = CAP_MS, floor_ms = 0, bypass_once = False,
     authenticated_at_ms = None\<rparr>"

definition on_close :: "u16 \<Rightarrow> backoff \<Rightarrow> backoff" where
  "on_close code b =
     (let b = (if code = 4007 then b\<lparr>cap_ms := RATE_LIMITED_CAP_MS, floor_ms := RATE_LIMITED_CAP_MS\<rparr>
               else if code = 4008 then b\<lparr>cap_ms := QUOTA_CAP_MS, floor_ms := QUOTA_CAP_MS\<rparr>
               else b)
      in b\<lparr>authenticated_at_ms := None\<rparr>)"

definition on_retry_after :: "u64 \<Rightarrow> backoff \<Rightarrow> backoff" where
  "on_retry_after ms b = (if ms > floor_ms b then b\<lparr>floor_ms := ms\<rparr> else b)"

definition on_authenticated :: "u64 \<Rightarrow> backoff \<Rightarrow> backoff" where
  "on_authenticated now_ms b = b\<lparr>authenticated_at_ms := Some now_ms\<rparr>"

definition note_stable :: "u64 \<Rightarrow> backoff \<Rightarrow> bool \<times> backoff" where
  "note_stable now_ms b =
     (case authenticated_at_ms b of
        Some since \<Rightarrow>
          if sat_sub now_ms since \<ge> STABLE_MS
          then (True, b\<lparr>attempt := 0, cap_ms := CAP_MS, floor_ms := 0\<rparr>)
          else (False, b)
      | None \<Rightarrow> (False, b))"

definition on_network_change :: "backoff \<Rightarrow> backoff" where
  "on_network_change b = b\<lparr>bypass_once := True\<rparr>"

definition sat_mul :: "u64 \<Rightarrow> u64 \<Rightarrow> u64" where
  "sat_mul a b = (if unat a * unat b < 2 ^ 64 then a * b else - 1)"

definition backoff_interval :: "backoff \<Rightarrow> u64" where
  "backoff_interval b =
     (let shift = (if attempt b > 31 then 31 else attempt b);
          exponential = sat_mul BASE_MS (push_bit (unat shift) 1)
      in if exponential < cap_ms b then exponential else cap_ms b)"

definition next_delay_ms :: "u64 \<Rightarrow> backoff \<Rightarrow> u64 \<times> backoff" where
  "next_delay_ms random b =
     (if bypass_once b then (0, b\<lparr>bypass_once := False\<rparr>)
      else
        let interval = backoff_interval b;
            jitter = random mod (interval + 1)
        in (sat_add (floor_ms b) jitter, b\<lparr>attempt := sat_add (attempt b) 1\<rparr>))"

section \<open>Facts\<close>

lemma unat_backoff_interval:
  "unat (backoff_interval b) = min (500 * 2 ^ min 31 (unat (attempt b))) (unat (cap_ms b))"
proof -
  define n where "n = min 31 (unat (attempt b))"
  have n: "n \<le> 31" by (simp add: n_def)
  then have le: "(2::nat) ^ n \<le> 2 ^ 31" by (rule power_increasing) simp
  have shift: "unat (if attempt b > 31 then 31 else attempt b) = n"
    by (auto simp: n_def word_less_nat_alt)
  have p: "unat (2 ^ n :: u64) = 2 ^ n"
  proof -
    have "(2 ^ n :: u64) = of_nat (2 ^ n)" by simp
    then show ?thesis using le by (simp only: unat_of_nat) simp
  qed
  have "unat (sat_mul 500 (push_bit n 1)) = 500 * 2 ^ n"
    using le by (simp add: sat_mul_def push_bit_eq_mult p unat_word_ariths)
  then show ?thesis
    by (auto simp: backoff_interval_def Let_def shift BASE_MS_def word_less_nat_alt n_def min_def)
qed

section \<open>Any history\<close>

datatype pacing =
    Close u16 | RetryAfter u64 | Authenticated u64 | Stable u64 | NetworkChange | Delay u64

fun pace :: "backoff \<Rightarrow> pacing \<Rightarrow> backoff" where
  "pace b (Close code) = on_close code b"
| "pace b (RetryAfter ms) = on_retry_after ms b"
| "pace b (Authenticated now) = on_authenticated now b"
| "pace b (Stable now) = snd (note_stable now b)"
| "pace b NetworkChange = on_network_change b"
| "pace b (Delay random) = snd (next_delay_ms random b)"

text \<open>The ceiling is one of three, and a raised one comes with at least its floor.\<close>

definition pace_inv :: "backoff \<Rightarrow> bool" where
  "pace_inv b \<longleftrightarrow> cap_ms b \<in> {CAP_MS, RATE_LIMITED_CAP_MS, QUOTA_CAP_MS}
     \<and> (cap_ms b \<noteq> CAP_MS \<longrightarrow> cap_ms b \<le> floor_ms b)"

lemma pace_inv_step: "pace_inv b \<Longrightarrow> pace_inv (pace b e)"
  by (cases e) (auto simp: pace_inv_def on_close_def on_retry_after_def on_authenticated_def note_stable_def
      on_network_change_def next_delay_ms_def Let_def split: option.splits)

interpretation pacing: machine pace pace_inv
  by unfold_locales (rule pace_inv_step)

lemma pace_inv_new: "pace_inv backoff_new"
  by (simp add: pace_inv_def backoff_new_def)

lemma next_delay_bounds:
  assumes "\<not> bypass_once b" "unat (cap_ms b) < 2 ^ 64 - 1"
  shows "unat (floor_ms b) \<le> unat (fst (next_delay_ms random b))"
    "unat (fst (next_delay_ms random b)) \<le> unat (floor_ms b) + unat (backoff_interval b)"
proof -
  have "unat (backoff_interval b) \<le> unat (cap_ms b)" by (simp add: unat_backoff_interval)
  then have "unat (backoff_interval b + 1) = unat (backoff_interval b) + 1"
    using assms(2) by (simp add: unat_word_ariths)
  then have j: "unat (random mod (backoff_interval b + 1)) \<le> unat (backoff_interval b)"
    using mod_less_divisor [of "unat (backoff_interval b) + 1" "unat random"]
    by (simp add: unat_mod_distrib)
  have "unat (fst (next_delay_ms random b)) =
      min (2 ^ 64 - 1) (unat (floor_ms b) + unat (random mod (backoff_interval b + 1)))"
    using assms(1) by (simp add: next_delay_ms_def Let_def unat_sat_add)
  then show "unat (floor_ms b) \<le> unat (fst (next_delay_ms random b))"
    "unat (fst (next_delay_ms random b)) \<le> unat (floor_ms b) + unat (backoff_interval b)"
    using j unat_bound [of "floor_ms b"] by (simp_all add: min_def)
qed

section \<open>Properties\<close>

text \<open>After any history of closes, floors, connections and delays, the next delay is zero only once
  per network change, and otherwise lies between the floor in force and the floor plus a jitter of at
  most 500 ms doubled per attempt and the ceiling; after a rate limit or a quota close it is at least a
  minute or an hour until the pacing resets.\<close>

theorem backoff_delay_bounds:
  assumes "b = foldl pace backoff_new es" and "\<not> bypass_once b"
  shows "unat (floor_ms b) \<le> unat (fst (next_delay_ms random b))
    \<and> unat (fst (next_delay_ms random b)) \<le>
        unat (floor_ms b) + min (500 * 2 ^ min 31 (unat (attempt b))) (unat (cap_ms b))
    \<and> cap_ms b \<in> {30000, 60000, 3600000}
    \<and> (cap_ms b \<noteq> 30000 \<longrightarrow> unat (cap_ms b) \<le> unat (fst (next_delay_ms random b)))"
proof -
  have i: "pace_inv b" using pacing.run_inv [OF pace_inv_new] assms(1) by simp
  then have c: "cap_ms b \<in> {30000, 60000, 3600000}" by (auto simp: pace_inv_def asli_const)
  then have "unat (cap_ms b) < 2 ^ 64 - 1" by auto
  note d = next_delay_bounds [OF assms(2) this, of random, unfolded unat_backoff_interval]
  have "cap_ms b \<noteq> 30000 \<Longrightarrow> unat (cap_ms b) \<le> unat (floor_ms b)"
    using i by (simp add: pace_inv_def CAP_MS_def word_le_nat_alt)
  then show ?thesis using c d by auto
qed

text \<open>A connection that authenticates and is closed at once does not reset the pacing: without a
  stable minute or a network change, whatever else happens, every delay handed out counts as an
  attempt, up to the largest the counter holds.\<close>

theorem backoff_no_tight_loop:
  assumes "\<not> bypass_once b" and "\<forall>e \<in> set es. e \<noteq> NetworkChange \<and> (\<forall>t. e \<noteq> Stable t)"
  shows "unat (attempt (foldl pace b es)) =
    min (2 ^ 32 - 1) (unat (attempt b) + length (filter (\<lambda>e. \<exists>r. e = Delay r) es))"
  using assms
proof (induction es arbitrary: b)
  case Nil
  then show ?case using unat_bound [of "attempt b"] by simp
next
  case (Cons e es)
  have b: "\<not> bypass_once (pace b e)" "unat (attempt (pace b e)) =
      min (2 ^ 32 - 1) (unat (attempt b) + (if \<exists>r. e = Delay r then 1 else 0))"
    using Cons.prems unat_bound [of "attempt b"]
    by (cases e; simp add: on_close_def on_retry_after_def on_authenticated_def next_delay_ms_def Let_def
        unat_sat_add)+
  show ?case using Cons.IH [OF b(1)] Cons.prems(2) b(2) by (auto simp: min_def)
qed

definition ex_pacing :: "pacing list" where
  "ex_pacing = [Delay 7, Authenticated 5, Close 4007, Delay 9]"

lemma backoff_delay_bounds_witness:
  "\<not> bypass_once (foldl pace backoff_new ex_pacing) \<and> cap_ms (foldl pace backoff_new ex_pacing) = 60000
    \<and> 60000 \<le> unat (fst (next_delay_ms 11 (foldl pace backoff_new ex_pacing)))"
proof -
  have b: "\<not> bypass_once (foldl pace backoff_new ex_pacing)" "cap_ms (foldl pace backoff_new ex_pacing) = 60000"
    by (simp_all add: ex_pacing_def backoff_new_def next_delay_ms_def on_authenticated_def on_close_def
      RATE_LIMITED_CAP_MS_def Let_def)
  then show ?thesis using backoff_delay_bounds [OF refl b(1), of 11] by simp
qed

lemma backoff_no_tight_loop_witness:
  "unat (attempt (foldl pace backoff_new ex_pacing)) = 2"
  using backoff_no_tight_loop [of backoff_new ex_pacing] by (simp add: backoff_new_def ex_pacing_def)

end
