(* ===== verification/Session.thy ===== *)
theory Session
  imports Envelope Auth Chunk Announce Rekey Echo Replay Normalize
begin

text \<open>
  The protocol driver, \<open>crates/asli-net/src/session.rs\<close>: the state of one connection, every frame it
  builds, and what it does with every frame it receives. A handler returns its result, which may be an
  error, and the session after it, since changes made before an error stay. Random bytes are draws that
  the handler takes in a fixed order, the clock is an argument as in the source, and a frame is text
  that the JSON library reads and writes.
\<close>

section \<open>Constants and types\<close>

definition MAX_IMAGE_BYTES :: nat where "MAX_IMAGE_BYTES = 32 * 1024 * 1024"
definition DEFAULT_RETENTION_MS :: u64 where [asli_const]: "DEFAULT_RETENTION_MS = 24 * 60 * 60 * 1000"
definition SUITE :: string where "SUITE = ''asli-v1''"
definition CLIENT_ID :: string where "CLIENT_ID = ''asli/1.0.1''"
definition ANNOUNCE_SEEN_CAPACITY :: nat where [asli_const]: "ANNOUNCE_SEEN_CAPACITY = 64"
definition MSG_SEEN_CAPACITY :: nat where [asli_const]: "MSG_SEEN_CAPACITY = 256"
definition CLOCK_SKEW_WARN_MS :: int where [asli_const]: "CLOCK_SKEW_WARN_MS = 12 * 60 * 60 * 1000"

record device_info =
  di_name :: ustr
  di_os :: ustr

record peer_info =
  pe_device_id :: bytes
  pe_name :: ustr
  pe_os :: ustr
  pe_ts_ms :: u64

datatype probe = Untried | Sent | Refused

record known_device =
  kd_device_id :: bytes
  kd_sign_pub :: bytes
  kd_box_pub :: bytes
  kd_conn_id :: "ustr option"
  kd_name :: ustr
  kd_os :: ustr
  kd_ts_ms :: u64

datatype phase = PhaseNew | HelloSent | PhaseAuthenticating | Ready

text \<open>Something originating on this device, \<open>LocalEvent\<close> of \<open>client.rs\<close>.\<close>

datatype local_event =
    LText ustr
  | LImage bytes
  | LFetchRetained
  | LDeviceInfo device_info
  | LMessage kind bytes "ustr option" "u64 option"
  | LRekey "bytes list" bytes u64

datatype action =
    ASend frame
  | AAuthenticated ustr u32 bool "u64 option"
  | AClip ustr u64 bool bytes
  | AImage bytes u64 bytes
  | APeer peer_info
  | APresence u32
  | ARelayError error_code "u64 option"
  | AAuthFailed auth_fail_code
  | ADropped string bool
  | ADevice known_device
  | AMessage kind bytes
  | ARekeyed bytes bytes "bytes list"
  | ARemovedBy bytes
  | AClockSkew int

definition dropped :: "string \<Rightarrow> bool \<Rightarrow> action list" where
  "dropped why retained = [ADropped why retained]"

record session =
  ss_identity :: identity
  ss_device_id :: bytes
  ss_seq :: u64
  ss_epoch :: u32
  ss_phase :: phase
  ss_limits :: "limits option"
  ss_echo :: echo_guard
  ss_replay :: replay_guard
  ss_replay_sink :: "memory option"
  ss_echo_guard :: bool
  ss_resend :: "local_event option"
  ss_peers :: u32
  ss_pinned_auth :: "(bytes \<times> u64) option"
  ss_assembly :: "assembly option"
  ss_device_info :: "device_info option"
  ss_announce_probe :: probe
  ss_announce_seen :: "bytes list"
  ss_device_keys :: "device_keys option"
  ss_conn_id :: "ustr option"
  ss_known :: "(bytes, known_device) hmap"
  ss_msg_probe :: probe
  ss_msg_seen :: "bytes list"

definition session_new :: "identity \<Rightarrow> bytes \<Rightarrow> u64 \<Rightarrow> session" where
  "session_new i device_id seq =
     \<lparr>ss_identity = i, ss_device_id = device_id, ss_seq = seq, ss_epoch = 0, ss_phase = PhaseNew,
      ss_limits = None, ss_echo = echo_default, ss_replay = replay_new device_id DEFAULT_RETENTION_MS,
      ss_replay_sink = None, ss_echo_guard = True, ss_resend = None, ss_peers = 0, ss_pinned_auth = None,
      ss_assembly = None, ss_device_info = None, ss_announce_probe = Untried, ss_announce_seen = [],
      ss_device_keys = None, ss_conn_id = None, ss_known = [], ss_msg_probe = Untried, ss_msg_seen = []\<rparr>"

section \<open>Steps that may fail and keep their state\<close>

type_synonym 'a outcome = "(net_error + 'a) \<times> session"
type_synonym draws = "nat \<Rightarrow> rand"

definition sbind :: "'a outcome \<Rightarrow> ('a \<Rightarrow> session \<Rightarrow> 'b outcome) \<Rightarrow> 'b outcome" where
  "sbind m f = (case m of (Inl e, s) \<Rightarrow> (Inl e, s) | (Inr x, s) \<Rightarrow> f x s)"

definition crypto :: "session \<Rightarrow> error + 'a \<Rightarrow> 'a outcome" where
  "crypto s m = (map_err NetCrypto m, s)"

section \<open>What the caller sets and reads\<close>

definition set_device_keys :: "device_keys \<Rightarrow> session \<Rightarrow> session" where
  "set_device_keys keys s = s\<lparr>ss_device_keys := Some keys\<rparr>"

definition restore_known :: "known_device list \<Rightarrow> session \<Rightarrow> session" where
  "restore_known devices s =
     s\<lparr>ss_known := foldl (\<lambda>m d. AList.update (kd_device_id d) (d\<lparr>kd_conn_id := None\<rparr>) m) (ss_known s) devices\<rparr>"

definition session_known_devices :: "session \<Rightarrow> known_device list" where
  "session_known_devices s = map snd (ss_known s)"

definition relay_forwards_messages :: "session \<Rightarrow> bool" where
  "relay_forwards_messages s \<longleftrightarrow> ss_msg_probe s \<noteq> Refused"

text \<open>Truncating to a length that \<open>truncate_utf8\<close> found; it always is a boundary.\<close>

definition shorten :: "ustr \<Rightarrow> ustr" where
  "shorten t = (case truncate_utf8 t MAX_FIELD_BYTES of Some u \<Rightarrow> u | None \<Rightarrow> t)"

definition set_device_info :: "device_info \<Rightarrow> session \<Rightarrow> session" where
  "set_device_info info s =
     s\<lparr>ss_device_info := Some \<lparr>di_name = shorten (di_name info), di_os = shorten (di_os info)\<rparr>\<rparr>"

definition stash_resend :: "local_event \<Rightarrow> session \<Rightarrow> session" where
  "stash_resend e s = s\<lparr>ss_resend := Some e\<rparr>"

definition take_resend :: "session \<Rightarrow> local_event option \<times> session" where
  "take_resend s = (ss_resend s, s\<lparr>ss_resend := None\<rparr>)"

definition leave_echoes_to_caller :: "session \<Rightarrow> session" where
  "leave_echoes_to_caller s = s\<lparr>ss_echo_guard := False\<rparr>"

definition restore_replay :: "memory \<Rightarrow> session \<Rightarrow> session" where
  "restore_replay m s = s\<lparr>ss_replay := restore (ss_replay s) m\<rparr>"

definition share_replay_memory :: "memory \<Rightarrow> session \<Rightarrow> session" where
  "share_replay_memory sink s = s\<lparr>ss_replay_sink := Some sink\<rparr>"

text \<open>The sink is shared with the caller; here it holds what was published last.\<close>

definition publish_replay :: "session \<Rightarrow> session" where
  "publish_replay s =
     (case ss_replay_sink s of
        Some _ \<Rightarrow> s\<lparr>ss_replay_sink := Some (memory_of (ss_replay s))\<rparr>
      | None \<Rightarrow> s)"

definition is_ready :: "session \<Rightarrow> bool" where
  "is_ready s \<longleftrightarrow> ss_phase s = Ready"

definition pin_auth_inputs :: "bytes \<Rightarrow> u64 \<Rightarrow> session \<Rightarrow> session" where
  "pin_auth_inputs nonce_c client_time_ms s = s\<lparr>ss_pinned_auth := Some (nonce_c, client_time_ms)\<rparr>"

section \<open>Frames to send\<close>

definition room :: "session \<Rightarrow> ustr" where "room s = id_room_id (ss_identity s)"
definition room_bytes :: "session \<Rightarrow> bytes" where "room_bytes s = id_room_id_bytes (ss_identity s)"
definition key_of :: "prims \<Rightarrow> session \<Rightarrow> u32 \<Rightarrow> bytes" where "key_of P s e = id_enc_key P (ss_identity s) e"

definition hello_frame :: "json \<Rightarrow> session \<Rightarrow> frame outcome" where
  "hello_frame J s =
     (let s = s\<lparr>ss_phase := HelloSent, ss_assembly := None, ss_announce_probe := Untried,
              ss_msg_probe := Untried\<rparr>
      in (to_frame J (MHello \<lparr>hello_v = NET_PROTOCOL_VERSION, hello_suites = [SUITE],
            hello_enc = [''json''], hello_client = Some CLIENT_ID\<rparr>), s))"

definition fetch_last_frame :: "json \<Rightarrow> session \<Rightarrow> net_error + frame" where
  "fetch_last_frame J s =
     (if ss_phase s \<noteq> Ready then Inl (NetOutOfOrder ''fetch_last before auth_ok'')
      else to_frame J (MFetchLast \<lparr>fl_v = NET_PROTOCOL_VERSION\<rparr>))"

text \<open>The draws of a message are its id and its nonce.\<close>

definition msg_frame ::
    "json \<Rightarrow> prims \<Rightarrow> rand \<Rightarrow> rand \<Rightarrow> kind \<Rightarrow> bytes \<Rightarrow> ustr option \<Rightarrow> session \<Rightarrow> frame outcome" where
  "msg_frame J P r_id r_nonce k body to s =
     (if ss_phase s \<noteq> Ready then (Inl (NetOutOfOrder ''msg before auth_ok''), s)
      else if ss_msg_probe s = Refused
      then (Inl (NetUnsupported ''this relay does not forward device messages''), s)
      else
        sbind (crypto s (random_bytes r_id)) (\<lambda>msg_id s.
        sbind (crypto s (msg_seal P r_nonce (key_of P s (ss_epoch s)) (ss_epoch s) (room_bytes s) msg_id k body))
          (\<lambda>sealed s.
        let s = s\<lparr>ss_msg_probe := Sent\<rparr> in
          (to_frame J (MMsg \<lparr>ms_v = NET_PROTOCOL_VERSION, ms_room = room s, ms_epoch = ss_epoch s,
             ms_msg_id = msg_id, ms_n = s_nonce sealed, ms_ct = s_ciphertext sealed, ms_to = to\<rparr>), s))))"

definition card_frame ::
    "json \<Rightarrow> prims \<Rightarrow> rand \<Rightarrow> rand \<Rightarrow> u64 \<Rightarrow> session \<Rightarrow> frame option outcome" where
  "card_frame J P r_id r_nonce now_ms s =
     (if ss_phase s \<noteq> Ready \<or> ss_msg_probe s = Refused then (Inr None, s)
      else case (ss_device_keys s, ss_conn_id s) of
        (Some keys, Some conn_id) \<Rightarrow>
          let (name, os) = (case ss_device_info s of
                 Some info \<Rightarrow> (di_name info, di_os info) | None \<Rightarrow> ([], [])) in
          sbind (crypto s (card_encode P \<lparr>c_device_id = ss_device_id s, c_sign_pub = sign_pub P keys,
              c_box_pub = box_pub P keys, c_ts_ms = now_ms, c_conn_id = conn_id, c_name = name,
              c_os = os\<rparr> keys (room_bytes s))) (\<lambda>body s.
          sbind (msg_frame J P r_id r_nonce Card body None s) (\<lambda>f s. (Inr (Some f), s)))
      | _ \<Rightarrow> (Inr None, s))"

text \<open>The recipients of a new account key, each of which must have been seen with a card.\<close>

fun rekey_recipients :: "(bytes, known_device) hmap \<Rightarrow> bytes list \<Rightarrow> net_error + recipient list" where
  "rekey_recipients known [] = Inr []"
| "rekey_recipients known (dev # devs) =
     (case map_of known dev of
        None \<Rightarrow> Inl (NetUnsupported ''a device to keep has never been seen'')
      | Some d \<Rightarrow> ebind (rekey_recipients known devs) (\<lambda>rs.
          Inr (\<lparr>rc_device_id = dev, rc_box_pub = kd_box_pub d\<rparr> # rs)))"

definition rekey_frame ::
    "json \<Rightarrow> prims \<Rightarrow> (nat \<Rightarrow> rand \<times> rand) \<Rightarrow> rand \<Rightarrow> rand \<Rightarrow> bytes list \<Rightarrow> bytes \<Rightarrow> u64 \<Rightarrow> session
      \<Rightarrow> frame outcome" where
  "rekey_frame J P rnd r_id r_nonce keep new_secret now_ms s =
     (case ss_device_keys s of
        None \<Rightarrow> (Inl (NetUnsupported ''this device has no keys of its own yet''), s)
      | Some keys \<Rightarrow>
          sbind (rekey_recipients (ss_known s) keep, s) (\<lambda>recipients s.
          sbind (crypto s (rekey_bundle P rnd keys (ss_device_id s) (room_bytes s) now_ms recipients new_secret))
            (\<lambda>body s. msg_frame J P r_id r_nonce Rekey body None s)))"

definition announce_frame ::
    "json \<Rightarrow> prims \<Rightarrow> rand \<Rightarrow> rand \<Rightarrow> u64 \<Rightarrow> session \<Rightarrow> frame option outcome" where
  "announce_frame J P r_id r_nonce now_ms s =
     (if ss_phase s \<noteq> Ready \<or> ss_announce_probe s = Refused then (Inr None, s)
      else case ss_device_info s of
        None \<Rightarrow> (Inr None, s)
      | Some info \<Rightarrow>
          sbind (crypto s (random_bytes r_id)) (\<lambda>msg_id s.
          sbind (crypto s (announce_seal P r_nonce (key_of P s (ss_epoch s)) (ss_epoch s) (room_bytes s) msg_id
              \<lparr>an_device_id = ss_device_id s, an_ts_ms = now_ms, an_name = di_name info, an_os = di_os info\<rparr>))
            (\<lambda>sealed s.
          let s = s\<lparr>ss_announce_probe := Sent\<rparr> in
          sbind (to_frame J (MAnnounce \<lparr>an_v = NET_PROTOCOL_VERSION, an_room = room s, an_epoch = ss_epoch s,
              an_msg_id = msg_id, an_n = s_nonce sealed, an_ct = s_ciphertext sealed\<rparr>), s)
            (\<lambda>f s. (Inr (Some f), s)))))"

text \<open>Appending a frame to the actions, where there is one.\<close>

definition push_frame :: "action list \<Rightarrow> frame option outcome \<Rightarrow> action list outcome" where
  "push_frame actions m =
     sbind m (\<lambda>f s. (Inr (case f of Some f \<Rightarrow> actions @ [ASend f] | None \<Rightarrow> actions), s))"

definition push_announce ::
    "json \<Rightarrow> prims \<Rightarrow> draws \<Rightarrow> u64 \<Rightarrow> action list \<Rightarrow> session \<Rightarrow> action list outcome" where
  "push_announce J P rnd now_ms actions s = push_frame actions (announce_frame J P (rnd 0) (rnd 1) now_ms s)"

definition push_card ::
    "json \<Rightarrow> prims \<Rightarrow> draws \<Rightarrow> u64 \<Rightarrow> action list \<Rightarrow> session \<Rightarrow> action list outcome" where
  "push_card J P rnd now_ms actions s = push_frame actions (card_frame J P (rnd 2) (rnd 3) now_ms s)"

definition epoch_is_acceptable :: "session \<Rightarrow> u32 \<Rightarrow> bool" where
  "epoch_is_acceptable s e \<longleftrightarrow> e \<ge> sat_sub (ss_epoch s) 1 \<and> e \<le> sat_add (ss_epoch s) 1"

definition fresh :: "u64 \<Rightarrow> u64 \<Rightarrow> bool" where
  "fresh now_ms ts_ms \<longleftrightarrow>
     sat_sub now_ms ts_ms \<le> DEFAULT_MAX_AGE_MS \<and> sat_sub ts_ms now_ms \<le> DEFAULT_FUTURE_SKEW_MS"

section \<open>Frames received\<close>

text \<open>\<open>i64\<close> arithmetic of the clock comparison: the conversion and the subtraction saturate.\<close>

definition to_i64 :: "u64 \<Rightarrow> int" where
  "to_i64 t = min (uint t) (2 ^ 63 - 1)"

definition sat_i64 :: "int \<Rightarrow> int" where
  "sat_i64 x = max (- (2 ^ 63)) (min (2 ^ 63 - 1) x)"

definition clock_skew :: "u64 \<Rightarrow> u64 \<Rightarrow> int" where
  "clock_skew server_time_ms now_ms = sat_i64 (to_i64 server_time_ms - to_i64 now_ms)"

definition saturating_abs :: "int \<Rightarrow> int" where
  "saturating_abs x = sat_i64 \<bar>x\<bar>"

definition auth_inputs :: "rand \<Rightarrow> u64 \<Rightarrow> session \<Rightarrow> (bytes \<times> u64) outcome" where
  "auth_inputs r now_ms s =
     (case ss_pinned_auth s of
        Some pinned \<Rightarrow> (Inr pinned, s)
      | None \<Rightarrow> sbind (crypto s (random_bytes r)) (\<lambda>nonce_c s. (Inr (nonce_c, now_ms), s)))"

definition on_challenge ::
    "json \<Rightarrow> prims \<Rightarrow> rand \<Rightarrow> m_challenge \<Rightarrow> u64 \<Rightarrow> session \<Rightarrow> action list outcome" where
  "on_challenge J P r c now_ms s =
     (if ss_phase s \<noteq> HelloSent then (Inl (NetOutOfOrder ''challenge outside the handshake''), s)
      else if ch_suite c \<noteq> SUITE then (Inl (NetUnsupported ''cryptographic suite''), s)
      else if ch_enc c \<noteq> ''json'' then (Inl (NetUnsupported ''envelope encoding''), s)
      else
        sbind (fixed 32 ''nonce_s'' (ch_nonce_s c), s) (\<lambda>nonce_s s.
        let s = s\<lparr>ss_limits := Some (ch_limits c)\<rparr> in
        sbind (auth_inputs r now_ms s) (\<lambda>(nonce_c, client_time_ms) s.
        let skew_ms = clock_skew (ch_server_time_ms c) now_ms;
            actions = (if ss_pinned_auth s = None \<and> saturating_abs skew_ms > CLOCK_SKEW_WARN_MS
                       then [AClockSkew skew_ms] else []);
            sig = sign_auth P (ss_identity s) nonce_s nonce_c client_time_ms;
            s = s\<lparr>ss_phase := PhaseAuthenticating\<rparr> in
        sbind (to_frame J (MAuth \<lparr>au_v = NET_PROTOCOL_VERSION, au_room = room s,
            au_pub_key = id_public_key P (ss_identity s), au_nonce_c = nonce_c,
            au_client_time_ms = client_time_ms, au_sig = sig\<rparr>), s)
          (\<lambda>f s. (Inr (actions @ [ASend f]), s)))))"

text \<open>The checks on the binary fields that four handlers share: the identifier, the nonce, and a
  ciphertext longer than its tag.\<close>

definition structural :: "bytes \<Rightarrow> bytes \<Rightarrow> bytes \<Rightarrow> net_error + (bytes \<times> bytes)" where
  "structural msg_id n ct =
     ebind (fixed MSG_ID_LEN ''msg_id'' msg_id) (\<lambda>msg_id.
     ebind (fixed NONCE_LEN ''n'' n) (\<lambda>nonce.
       if length ct \<le> TAG_LEN then Inl (NetFieldLength ''ct'' (TAG_LEN + 1) (length ct))
       else Inr (msg_id, nonce)))"

text \<open>What an opened payload looks like to the replay guard.\<close>

definition incoming_of :: "bytes \<Rightarrow> bool \<Rightarrow> inner \<Rightarrow> incoming" where
  "incoming_of msg_id retained i =
     \<lparr>in_msg_id = msg_id, in_device_id = i_device_id i, in_seq = i_seq i, in_ts_ms = i_ts_ms i,
      in_retained = retained\<rparr>"

definition content_hash_of :: "prims \<Rightarrow> bytes \<Rightarrow> content_hash" where
  "content_hash_of P normalized = p_sha256 P normalized"

definition deliver_clip :: "prims \<Rightarrow> bool \<Rightarrow> inner \<Rightarrow> u64 \<Rightarrow> session \<Rightarrow> action list \<times> session" where
  "deliver_clip P retained i now_ms s =
     (if i_content_type i \<noteq> Text then ([], s)
      else case from_utf8 (fst (take_content i)) of
        None \<Rightarrow> ([], s)
      | Some text \<Rightarrow>
          ([AClip text (i_ts_ms i) retained (i_device_id i)],
           if ss_echo_guard s
           then s\<lparr>ss_echo := remember (ss_echo s) (content_hash_of P (utf8 text)) now_ms\<rparr>
           else s))"

definition on_clip :: "prims \<Rightarrow> m_clip \<Rightarrow> u64 \<Rightarrow> session \<Rightarrow> action list outcome" where
  "on_clip P c now_ms s =
     (if ss_phase s \<noteq> Ready then (Inl (NetOutOfOrder ''clip before auth_ok''), s)
      else
        sbind (structural (cl_msg_id c) (cl_n c) (cl_ct c), s) (\<lambda>(msg_id, nonce) s.
        let retained = is_retained c in
        if cl_room c \<noteq> room s then (Inr (dropped ''wrong_room'' retained), s)
        else if \<not> epoch_is_acceptable s (cl_epoch c) then (Inr (dropped ''unknown_epoch'' retained), s)
        else case clip_open P (key_of P s (cl_epoch c)) (cl_epoch c) (room_bytes s) msg_id nonce (cl_ct c) of
          Inl _ \<Rightarrow> (Inr (dropped ''could_not_decrypt'' retained), s)
        | Inr i \<Rightarrow>
            let (verdict, g) = check (ss_replay s) (incoming_of msg_id retained i) now_ms;
                s = s\<lparr>ss_replay := g\<rparr> in
            if verdict \<noteq> Accept then (Inr (dropped (reason verdict) retained), s)
            else
              let (actions, s) = deliver_clip P retained i now_ms (publish_replay s)
              in (Inr actions, s)))"

definition on_card :: "prims \<Rightarrow> bytes \<Rightarrow> u64 \<Rightarrow> session \<Rightarrow> action list \<times> session" where
  "on_card P body now_ms s =
     (case card_decode P body (room_bytes s) of
        Inl _ \<Rightarrow> (dropped ''card_invalid'' False, s)
      | Inr c \<Rightarrow>
          if c_device_id c = ss_device_id s \<or> \<not> fresh now_ms (c_ts_ms c) then ([], s)
          else
            let device = \<lparr>kd_device_id = c_device_id c, kd_sign_pub = c_sign_pub c,
                  kd_box_pub = c_box_pub c, kd_conn_id = Some (c_conn_id c), kd_name = c_name c,
                  kd_os = c_os c, kd_ts_ms = c_ts_ms c\<rparr>;
                store = ([ADevice device],
                         s\<lparr>ss_known := AList.update (kd_device_id device) device (ss_known s)\<rparr>) in
            case map_of (ss_known s) (c_device_id c) of
              None \<Rightarrow> store
            | Some pinned \<Rightarrow>
                if kd_sign_pub pinned \<noteq> c_sign_pub c then (dropped ''card_key_changed'' False, s)
                else if c_ts_ms c < kd_ts_ms pinned then ([], s)
                else store)"

definition on_rekey :: "prims \<Rightarrow> bytes \<Rightarrow> u64 \<Rightarrow> session \<Rightarrow> action list" where
  "on_rekey P body now_ms s =
     (case ss_device_keys s of
        None \<Rightarrow> []
      | Some keys \<Rightarrow>
          (case rekey_sender body of
             Inl _ \<Rightarrow> dropped ''rekey_invalid'' False
           | Inr sender \<Rightarrow>
               (case map_of (ss_known s) sender of
                  None \<Rightarrow> dropped ''rekey_unknown_sender'' False
                | Some pinned \<Rightarrow>
                    (case rekey_open P keys (ss_device_id s) (room_bytes s) (kd_sign_pub pinned) body of
                       Inr (Some r) \<Rightarrow>
                         if fresh now_ms (rk_ts_ms r)
                         then [ARekeyed (rk_secret r) sender (rk_recipients r)]
                         else dropped ''rekey_stale'' False
                     | Inr None \<Rightarrow> [ARemovedBy sender]
                     | Inl _ \<Rightarrow> dropped ''rekey_invalid'' False))))"

text \<open>The pushes onto the two queues of message identifiers.\<close>

definition push_bounded :: "nat \<Rightarrow> bytes \<Rightarrow> bytes list \<Rightarrow> bytes list" where
  "push_bounded cap m q = (if length q \<ge> cap then tl q else q) @ [m]"

definition on_msg :: "prims \<Rightarrow> m_msg \<Rightarrow> u64 \<Rightarrow> session \<Rightarrow> action list outcome" where
  "on_msg P m now_ms s =
     (if ss_phase s \<noteq> Ready then (Inl (NetOutOfOrder ''msg before auth_ok''), s)
      else
        sbind (structural (ms_msg_id m) (ms_n m) (ms_ct m), s) (\<lambda>(msg_id, nonce) s.
        if ms_room m \<noteq> room s \<or> \<not> epoch_is_acceptable s (ms_epoch m) then (Inr [], s)
        else if msg_id \<in> set (ss_msg_seen s) then (Inr [], s)
        else case msg_open P (key_of P s (ms_epoch m)) (ms_epoch m) (room_bytes s) msg_id nonce (ms_ct m) of
          Inl _ \<Rightarrow> (Inr (dropped ''msg_open_failed'' False), s)
        | Inr (k, body) \<Rightarrow>
            let s = s\<lparr>ss_msg_seen := push_bounded MSG_SEEN_CAPACITY msg_id (ss_msg_seen s)\<rparr> in
            (case k of
               Card \<Rightarrow> (let (actions, s) = on_card P body now_ms s in (Inr actions, s))
             | Rekey \<Rightarrow> (Inr (on_rekey P body now_ms s), s)
             | _ \<Rightarrow> (Inr [AMessage k body], s))))"

definition on_announce :: "prims \<Rightarrow> m_announce \<Rightarrow> u64 \<Rightarrow> session \<Rightarrow> action list outcome" where
  "on_announce P m now_ms s =
     (if ss_phase s \<noteq> Ready then (Inl (NetOutOfOrder ''announce before auth_ok''), s)
      else
        sbind (structural (an_msg_id m) (an_n m) (an_ct m), s) (\<lambda>(msg_id, nonce) s.
        if an_room m \<noteq> room s \<or> \<not> epoch_is_acceptable s (an_epoch m) then (Inr [], s)
        else if msg_id \<in> set (ss_announce_seen s) then (Inr [], s)
        else case announce_open P (key_of P s (an_epoch m)) (an_epoch m) (room_bytes s) msg_id nonce (an_ct m) of
          Inl _ \<Rightarrow> (Inr [], s)
        | Inr ann \<Rightarrow>
            if an_device_id ann = ss_device_id s then (Inr [], s)
            else
              let too_old = sat_sub now_ms (an_ts_ms ann) > DEFAULT_MAX_AGE_MS;
                  too_new = sat_sub (an_ts_ms ann) now_ms > DEFAULT_FUTURE_SKEW_MS in
              if too_old \<or> too_new then (Inr [], s)
              else (Inr [APeer \<lparr>pe_device_id = an_device_id ann, pe_name = an_name ann,
                           pe_os = an_os ann, pe_ts_ms = an_ts_ms ann\<rparr>],
                    s\<lparr>ss_announce_seen := push_bounded ANNOUNCE_SEEN_CAPACITY msg_id (ss_announce_seen s)\<rparr>)))"

definition max_content_bytes_of :: "session \<Rightarrow> nat" where
  "max_content_bytes_of s =
     (case ss_limits s of None \<Rightarrow> 8 * 1024 * 1024 | Some l \<Rightarrow> unat (max_content_bytes l))"

definition assembly_cap :: "session \<Rightarrow> nat" where
  "assembly_cap s =
     (let content = max (max_content_bytes_of s) MAX_IMAGE_BYTES
      in min (min (content + INNER_HEADER_LEN) (2 ^ 64 - 1) + 64 * 1024) (2 ^ 64 - 1))"

text \<open>The assembly that a chunk goes to: the one in progress, or a new one for a first chunk.\<close>

definition assembly_for :: "bytes \<Rightarrow> m_chunk \<Rightarrow> session \<Rightarrow> assembly option" where
  "assembly_for msg_id c s =
     (let starting_over = (case ss_assembly s of None \<Rightarrow> True | Some a \<Rightarrow> a_msg_id a \<noteq> msg_id)
      in if \<not> starting_over then ss_assembly s
         else if ck_idx c \<noteq> 0 then None
         else case assembly_new msg_id (ck_epoch c) (ck_chunk_count c) (assembly_cap s) of
           Inl _ \<Rightarrow> None | Inr a \<Rightarrow> Some a)"

definition deliver_image :: "bytes \<Rightarrow> inner \<Rightarrow> u64 \<Rightarrow> session \<Rightarrow> action list \<times> session" where
  "deliver_image msg_id i now_ms s =
     (let (verdict, g) = check (ss_replay s) (incoming_of msg_id False i) now_ms;
          s = s\<lparr>ss_replay := g\<rparr>
      in if verdict \<noteq> Accept then (dropped (reason verdict) False, s)
         else
           let s = publish_replay s in
           case i_content_type i of
             ImagePng \<Rightarrow> ([AImage (fst (take_content i)) (i_ts_ms i) (i_device_id i)], s)
           | _ \<Rightarrow> ([], s))"

definition on_chunk :: "prims \<Rightarrow> m_chunk \<Rightarrow> u64 \<Rightarrow> session \<Rightarrow> action list outcome" where
  "on_chunk P c now_ms s =
     (if ss_phase s \<noteq> Ready then (Inl (NetOutOfOrder ''chunk before auth_ok''), s)
      else
        sbind (structural (ck_msg_id c) (ck_n c) (ck_ct c), s) (\<lambda>(msg_id, nonce) s.
        if ck_room c \<noteq> room s \<or> \<not> epoch_is_acceptable s (ck_epoch c) then (Inr [], s)
        else
          let final_chunk = (ck_idx c \<noteq> - 1 \<and> ck_idx c + 1 = ck_chunk_count c);
              pos = \<lparr>pos_idx = ck_idx c, pos_chunk_count = ck_chunk_count c, pos_final = final_chunk\<rparr> in
          case assembly_for msg_id c s of
            None \<Rightarrow> (Inr [], s)
          | Some a \<Rightarrow>
             (case open_chunk P (key_of P s (ck_epoch c)) (ck_epoch c) (room_bytes s) msg_id nonce pos (ck_ct c) of
                Inl _ \<Rightarrow> (Inr [], s\<lparr>ss_assembly := None\<rparr>)
              | Inr piece \<Rightarrow>
                 (case accept_chunk a msg_id (ck_epoch c) (ck_idx c) (ck_chunk_count c) piece of
                    Inl _ \<Rightarrow> (Inr [], s\<lparr>ss_assembly := None\<rparr>)
                  | Inr a \<Rightarrow>
                      if \<not> final_chunk \<or> \<not> is_complete a then (Inr [], s\<lparr>ss_assembly := Some a\<rparr>)
                      else
                        let s = s\<lparr>ss_assembly := None\<rparr> in
                        case finish a of
                          Inl _ \<Rightarrow> (Inr (dropped ''could_not_decrypt'' False), s)
                        | Inr i \<Rightarrow> (let (actions, s) = deliver_image msg_id i now_ms s in (Inr actions, s))))))"

section \<open>The dispatch\<close>

text \<open>Announcing oneself and sending one's card, in that order.\<close>

definition introduce ::
    "json \<Rightarrow> prims \<Rightarrow> draws \<Rightarrow> u64 \<Rightarrow> action list \<Rightarrow> session \<Rightarrow> action list outcome" where
  "introduce J P rnd now_ms actions s =
     sbind (push_announce J P rnd now_ms actions s) (\<lambda>actions s. push_card J P rnd now_ms actions s)"

fun on_message ::
    "json \<Rightarrow> prims \<Rightarrow> draws \<Rightarrow> message \<Rightarrow> u64 \<Rightarrow> session \<Rightarrow> action list outcome" where
  "on_message J P rnd (MChallenge c) now_ms s = on_challenge J P (rnd 4) c now_ms s"
| "on_message J P rnd (MAuthOk ok) now_ms s =
     introduce J P rnd now_ms
       [AAuthenticated (ok_conn_id ok) (ok_peers ok) (ok_has_retained ok) (ok_stored_at ok)]
       (s\<lparr>ss_phase := Ready, ss_peers := ok_peers ok, ss_conn_id := Some (ok_conn_id ok)\<rparr>)"
| "on_message J P rnd (MAuthFail f) now_ms s = (Inr [AAuthFailed (af_code f)], s)"
| "on_message J P rnd (MClip c) now_ms s = on_clip P c now_ms s"
| "on_message J P rnd (MClipBegin c) now_ms s = on_chunk P c now_ms s"
| "on_message J P rnd (MClipChunk c) now_ms s = on_chunk P c now_ms s"
| "on_message J P rnd (MClipEnd c) now_ms s = on_chunk P c now_ms s"
| "on_message J P rnd (MPresence p) now_ms s =
     (let changed = (pr_peers p \<noteq> ss_peers s);
          s = s\<lparr>ss_peers := pr_peers p\<rparr>;
          actions = [APresence (pr_peers p)]
      in if changed then introduce J P rnd now_ms actions s else (Inr actions, s))"
| "on_message J P rnd (MAnnounce a) now_ms s = on_announce P a now_ms s"
| "on_message J P rnd (MMsg m) now_ms s = on_msg P m now_ms s"
| "on_message J P rnd (MPing p) now_ms s =
     sbind (to_frame J (MPong \<lparr>po_v = NET_PROTOCOL_VERSION, po_t = pi_t p\<rparr>), s)
       (\<lambda>f s. (Inr [ASend f], s))"
| "on_message J P rnd (MPong p) now_ms s = (Inr [], s)"
| "on_message J P rnd (MError err) now_ms s =
     (if er_code err = EC_UnknownType \<and> ss_msg_probe s = Sent
      then (Inr [], s\<lparr>ss_msg_probe := Refused\<rparr>)
      else if er_code err = EC_UnknownType \<and> ss_announce_probe s = Sent
      then (Inr [], s\<lparr>ss_announce_probe := Refused\<rparr>)
      else (Inr [ARelayError (er_code err) (er_retry_after_ms err)], s))"
| "on_message J P rnd (MHello h) now_ms s =
     (Inl (NetOutOfOrder ''relay sent a client only message''), s)"
| "on_message J P rnd (MAuth a) now_ms s =
     (Inl (NetOutOfOrder ''relay sent a client only message''), s)"
| "on_message J P rnd (MFetchLast f) now_ms s =
     (Inl (NetOutOfOrder ''relay sent a client only message''), s)"

definition handle_frame ::
    "json \<Rightarrow> prims \<Rightarrow> draws \<Rightarrow> frame \<Rightarrow> u64 \<Rightarrow> session \<Rightarrow> action list outcome" where
  "handle_frame J P rnd f now_ms s =
     sbind (msg_parse_frame J f, s) (\<lambda>m s.
       if msg_version m \<noteq> NET_PROTOCOL_VERSION then (Inl (NetUnsupported ''protocol version''), s)
       else on_message J P rnd m now_ms s)"

section \<open>Local changes\<close>

text \<open>The sequence number is taken, and then the clip is sealed.\<close>

definition send_clip :: "json \<Rightarrow> prims \<Rightarrow> rand \<Rightarrow> rand \<Rightarrow> ustr \<Rightarrow> u64 \<Rightarrow> session \<Rightarrow> frame option outcome" where
  "send_clip J P r_id r_nonce normalized now_ms s =
     (let s = s\<lparr>ss_seq := sat_add (ss_seq s) 1\<rparr> in
      sbind (crypto s (random_bytes r_id)) (\<lambda>msg_id s.
      sbind (crypto s (clip_seal P r_nonce (key_of P s (ss_epoch s)) (ss_epoch s) (room_bytes s) msg_id
          \<lparr>i_content_type = Text, i_device_id = ss_device_id s, i_seq = ss_seq s, i_ts_ms = now_ms,
           i_content = utf8 normalized\<rparr>)) (\<lambda>sealed s.
      sbind (to_frame J (MClip \<lparr>cl_v = NET_PROTOCOL_VERSION, cl_room = room s, cl_epoch = ss_epoch s,
          cl_msg_id = msg_id, cl_n = s_nonce sealed, cl_ct = s_ciphertext sealed, cl_retained = None,
          cl_stored_at = None\<rparr>), s) (\<lambda>f s. (Inr (Some f), s)))))"

definition observe_local ::
    "json \<Rightarrow> prims \<Rightarrow> rand \<Rightarrow> rand \<Rightarrow> ustr \<Rightarrow> u64 \<Rightarrow> session \<Rightarrow> frame option outcome" where
  "observe_local J P r_id r_nonce text now_ms s =
     (if ss_phase s \<noteq> Ready then (Inl (NetOutOfOrder ''clip before auth_ok''), s)
      else
        let normalized = normalize text in
        if \<not> is_syncable normalized then (Inr None, s)
        else
          let (echoed, g) = take_echo (ss_echo s) (content_hash_of P (utf8 normalized)) now_ms;
              s = s\<lparr>ss_echo := g\<rparr> in
          if echoed then (Inr None, s)
          else case ss_limits s of
            Some l \<Rightarrow>
              if length (utf8 normalized) > unat (max_content_bytes l)
              then (Inl (NetContentTooLarge (length (utf8 normalized)) (unat (max_content_bytes l))), s)
              else send_clip J P r_id r_nonce normalized now_ms s
          | None \<Rightarrow> send_clip J P r_id r_nonce normalized now_ms s)"

text \<open>The loop that turns sealed pieces into frames.\<close>

definition chunk_message :: "session \<Rightarrow> bytes \<Rightarrow> sealed_chunk \<Rightarrow> message" where
  "chunk_message s msg_id piece =
     (let payload = \<lparr>ck_v = NET_PROTOCOL_VERSION, ck_room = room s, ck_epoch = ss_epoch s,
            ck_msg_id = msg_id, ck_idx = sc_idx piece, ck_chunk_count = sc_chunk_count piece,
            ck_n = sc_nonce piece, ck_ct = sc_ciphertext piece\<rparr>
      in if sc_final piece then MClipEnd payload
         else if sc_idx piece = 0 then MClipBegin payload else MClipChunk payload)"

fun to_frames :: "json \<Rightarrow> message list \<Rightarrow> net_error + frame list" where
  "to_frames J [] = Inr []"
| "to_frames J (m # ms) = ebind (to_frame J m) (\<lambda>f. ebind (to_frames J ms) (\<lambda>fs. Inr (f # fs)))"

definition observe_local_image ::
    "json \<Rightarrow> prims \<Rightarrow> rand \<Rightarrow> draws \<Rightarrow> bytes \<Rightarrow> u64 \<Rightarrow> session \<Rightarrow> frame list outcome" where
  "observe_local_image J P r_id rnd png now_ms s =
     (if ss_phase s \<noteq> Ready then (Inl (NetOutOfOrder ''image before auth_ok''), s)
      else if png = [] then (Inr [], s)
      else if length png > MAX_IMAGE_BYTES
      then (Inl (NetContentTooLarge (length png) MAX_IMAGE_BYTES), s)
      else
        let s = s\<lparr>ss_seq := sat_add (ss_seq s) 1\<rparr> in
        sbind (crypto s (random_bytes r_id)) (\<lambda>msg_id s.
        sbind (crypto s (seal_chunks P rnd (key_of P s (ss_epoch s)) (ss_epoch s) (room_bytes s) msg_id
            \<lparr>i_content_type = ImagePng, i_device_id = ss_device_id s, i_seq = ss_seq s, i_ts_ms = now_ms,
             i_content = png\<rparr> DEFAULT_CHUNK_BYTES)) (\<lambda>sealed s.
          (to_frames J (map (chunk_message s msg_id) sealed), s))))"

section \<open>The pump\<close>

text \<open>The loop over a transport, on the two queues of the one the source provides in memory.\<close>

fun is_send :: "action \<Rightarrow> bool" where
  "is_send (ASend f) = True"
| "is_send _ = False"

definition sent_frames :: "action list \<Rightarrow> frame list" where
  "sent_frames actions = concat (map (\<lambda>a. case a of ASend f \<Rightarrow> [f] | _ \<Rightarrow> []) actions)"

record transport =
  tr_sent :: "frame list"
  tr_inbox :: "frame list"

definition tr_deliver :: "frame \<Rightarrow> transport \<Rightarrow> transport" where
  "tr_deliver f t = t\<lparr>tr_inbox := tr_inbox t @ [f]\<rparr>"

fun pump_frames ::
    "json \<Rightarrow> prims \<Rightarrow> (nat \<Rightarrow> draws) \<Rightarrow> nat \<Rightarrow> u64 \<Rightarrow> action list \<Rightarrow> frame list \<Rightarrow> frame list \<Rightarrow> session
      \<Rightarrow> (net_error + action list) \<times> session \<times> transport" where
  "pump_frames J P rnd n now_ms out sent [] s = (Inr out, s, \<lparr>tr_sent = sent, tr_inbox = []\<rparr>)"
| "pump_frames J P rnd n now_ms out sent (f # fs) s =
     (case handle_frame J P (rnd n) f now_ms s of
        (Inl e, s) \<Rightarrow> (Inl e, s, \<lparr>tr_sent = sent, tr_inbox = fs\<rparr>)
      | (Inr actions, s) \<Rightarrow>
          pump_frames J P rnd (Suc n) now_ms (out @ filter (\<lambda>a. \<not> is_send a) actions)
            (sent @ sent_frames actions) fs s)"

definition pump ::
    "json \<Rightarrow> prims \<Rightarrow> (nat \<Rightarrow> draws) \<Rightarrow> u64 \<Rightarrow> session \<Rightarrow> transport
      \<Rightarrow> (net_error + action list) \<times> session \<times> transport" where
  "pump J P rnd now_ms s t = pump_frames J P rnd 0 now_ms [] (tr_sent t) (tr_inbox t) s"

end
