(* ===== verification/Session_Inv.thy ===== *)
theory Session_Inv
  imports Session
begin

text \<open>
  What every session keeps, whatever it receives and whatever its user copies: the windows and maps it
  holds are bounded and without duplicates, the guards keep their own invariants, and a device's pinned
  signing key never changes. Frames, local copies and the caller's settings are the events of one state
  machine, of which the invariant is an instance of the \<open>machine\<close> interface.
\<close>

section \<open>Rewriting outcomes\<close>

lemma sbind_simps [simp]:
  "sbind (Inl e, s) f = (Inl e, s)" "sbind (Inr x, s) f = f x s"
  by (simp_all add: sbind_def)

lemma sbind_cases:
  obtains (fails) e s where "m = (Inl e, s)" "sbind m f = (Inl e, s)"
    | (runs) x s where "m = (Inr x, s)" "sbind m f = f x s"
  by (cases m; cases "fst m") auto

lemma sbind_Inr:
  "sbind m f = (Inr y, s') \<longleftrightarrow> (\<exists>x s. m = (Inr x, s) \<and> f x s = (Inr y, s'))"
  by (cases m; cases "fst m") auto

lemma crypto_Inr [simp]: "crypto s m = (Inr x, s') \<longleftrightarrow> m = Inr x \<and> s' = s"
  by (auto simp: crypto_def)

lemma snd_crypto [simp]: "snd (crypto s m) = s"
  by (simp add: crypto_def)

lemma structural_Inr:
  "structural m n ct = Inr p \<longleftrightarrow>
    length m = MSG_ID_LEN \<and> length n = NONCE_LEN \<and> TAG_LEN < length ct \<and> p = (m, n)"
  by (auto simp: structural_def ebind_Inr_iff)

text \<open>A relation between the session before and after that is reflexive and transitive passes through
  a bind.\<close>

lemma sbind_rel:
  assumes "R s (snd m)" "\<And>x t. m = (Inr x, t) \<Longrightarrow> R t (snd (f x t))"
    "\<And>a b c. R a b \<Longrightarrow> R b c \<Longrightarrow> R a c"
  shows "R s (snd (sbind m f))"
proof (cases rule: sbind_cases [of m f])
  case (runs x t)
  then show ?thesis using assms(1) assms(2) [of x t] assms(3) [of s t] by simp
qed (use assms(1) in simp)

section \<open>What sending changes\<close>

text \<open>Building a frame changes nothing but the two probes.\<close>

definition quiet :: "session \<Rightarrow> session \<Rightarrow> bool" where
  "quiet s s' \<longleftrightarrow> (\<exists>mp ap. s' = s\<lparr>ss_msg_probe := mp, ss_announce_probe := ap\<rparr>)"

lemma quiet_refl [simp]: "quiet s s"
  unfolding quiet_def by (intro exI [of _ "ss_msg_probe s"] exI [of _ "ss_announce_probe s"]) simp

lemma quiet_trans: "quiet a b \<Longrightarrow> quiet b c \<Longrightarrow> quiet a c"
proof -
  assume "quiet a b" "quiet b c"
  then obtain mp ap mp' ap' where "b = a\<lparr>ss_msg_probe := mp, ss_announce_probe := ap\<rparr>"
    "c = b\<lparr>ss_msg_probe := mp', ss_announce_probe := ap'\<rparr>"
    unfolding quiet_def by blast
  then have "c = a\<lparr>ss_msg_probe := mp', ss_announce_probe := ap'\<rparr>" by simp
  then show ?thesis unfolding quiet_def by blast
qed

lemma quiet_probe [simp]:
  "quiet s (s\<lparr>ss_msg_probe := p\<rparr>)" "quiet s (s\<lparr>ss_announce_probe := p\<rparr>)"
  unfolding quiet_def
  by (intro exI [of _ p] exI [of _ "ss_announce_probe s"], simp)
    (intro exI [of _ p] exI [of _ "ss_msg_probe s"], simp)

lemma quiet_fields:
  assumes "quiet s s'"
  shows "ss_replay s' = ss_replay s" "ss_device_id s' = ss_device_id s" "ss_echo s' = ss_echo s"
    "ss_assembly s' = ss_assembly s" "ss_msg_seen s' = ss_msg_seen s"
    "ss_announce_seen s' = ss_announce_seen s" "ss_known s' = ss_known s" "ss_phase s' = ss_phase s"
    "ss_identity s' = ss_identity s" "ss_epoch s' = ss_epoch s" "ss_seq s' = ss_seq s"
    "ss_conn_id s' = ss_conn_id s" "ss_limits s' = ss_limits s" "ss_echo_guard s' = ss_echo_guard s"
  using assms by (auto simp: quiet_def)

lemma quiet_sbind:
  "quiet s (snd m) \<Longrightarrow> (\<And>x t. m = (Inr x, t) \<Longrightarrow> quiet t (snd (f x t))) \<Longrightarrow> quiet s (snd (sbind m f))"
  by (rule sbind_rel [where R = quiet]) (auto intro: quiet_trans)

lemma msg_frame_quiet: "quiet s (snd (msg_frame J P r1 r2 k body to s))"
  by (auto simp: msg_frame_def Let_def intro!: quiet_sbind)

lemma card_frame_quiet: "quiet s (snd (card_frame J P r1 r2 now s))"
  by (auto simp: card_frame_def msg_frame_quiet Let_def intro!: quiet_sbind
      split: option.split prod.split)

lemma rekey_frame_quiet: "quiet s (snd (rekey_frame J P rnd r1 r2 keep secret now s))"
  by (auto simp: rekey_frame_def msg_frame_quiet intro!: quiet_sbind split: option.split)

lemma announce_frame_quiet: "quiet s (snd (announce_frame J P r1 r2 now s))"
  by (auto simp: announce_frame_def Let_def intro!: quiet_sbind split: option.split)

lemma introduce_quiet: "quiet s (snd (introduce J P rnd now acts s))"
  by (auto simp: introduce_def push_announce_def push_card_def push_frame_def announce_frame_quiet
      card_frame_quiet intro!: quiet_sbind)

text \<open>What is appended to the actions is frames to send only.\<close>

lemma push_frame_actions:
  "push_frame acts m = (Inr acts', s') \<Longrightarrow> \<exists>fs. acts' = acts @ map ASend fs"
  by (auto simp: push_frame_def sbind_Inr split: option.splits
      intro: exI [of _ "[]"] exI [of _ "[f]" for f])

lemma introduce_actions:
  assumes "introduce J P rnd now acts s = (Inr acts', s')"
  shows "\<exists>fs. acts' = acts @ map ASend fs"
proof -
  obtain a t where "push_frame acts (announce_frame J P (rnd 0) (rnd 1) now s) = (Inr a, t)"
    "push_frame a (card_frame J P (rnd 2) (rnd 3) now t) = (Inr acts', s')"
    using assms by (auto simp: introduce_def push_announce_def push_card_def sbind_Inr)
  then obtain fs gs where "a = acts @ map ASend fs" "acts' = a @ map ASend gs"
    by (blast dest: push_frame_actions)
  then show ?thesis by (intro exI [of _ "fs @ gs"]) simp
qed

section \<open>The invariant\<close>

interpretation msg_window: fifo_window "push_bounded 256" 256
  by unfold_locales (auto simp: push_bounded_def drop_Suc)

interpretation announce_window: fifo_window "push_bounded 64" 64
  by unfold_locales (auto simp: push_bounded_def drop_Suc)

text \<open>An assembly keeps its own invariant whenever its cap leaves room for the saturating count, that
  is unless a relay announces a content limit of nearly all 64 bits.\<close>

definition assembly_kept :: "assembly option \<Rightarrow> bool" where
  "assembly_kept a \<longleftrightarrow> (case a of None \<Rightarrow> True | Some a \<Rightarrow> a_max_bytes a < 2 ^ 64 - 1 \<longrightarrow> asm_inv a)"

definition known_ok :: "(bytes, known_device) hmap \<Rightarrow> bool" where
  "known_ok m \<longleftrightarrow> hmap_ok m \<and> (\<forall>k d. map_of m k = Some d \<longrightarrow> kd_device_id d = k)"

lemma known_ok_update: "known_ok m \<Longrightarrow> kd_device_id d = k \<Longrightarrow> known_ok (AList.update k d m)"
  by (auto simp: known_ok_def)

definition window_ok :: "nat \<Rightarrow> bytes list \<Rightarrow> bool" where
  "window_ok cap q \<longleftrightarrow> length q \<le> cap \<and> distinct q"

lemma window_ok_push:
  "window_ok 256 q \<Longrightarrow> m \<notin> set q \<Longrightarrow> window_ok 256 (push_bounded 256 m q)"
  "window_ok 64 q \<Longrightarrow> m \<notin> set q \<Longrightarrow> window_ok 64 (push_bounded 64 m q)"
  by (simp_all add: window_ok_def msg_window.push_length msg_window.push_distinct
      announce_window.push_length announce_window.push_distinct)

definition echo_kept :: "echo_guard \<Rightarrow> bool" where
  "echo_kept g \<longleftrightarrow> echo_inv g \<and> capacity g = DEFAULT_CAPACITY"

lemma echo_kept_steps:
  "echo_kept g \<Longrightarrow> echo_kept (remember g h now)" "echo_kept g \<Longrightarrow> echo_kept (snd (take_echo g h now))"
  by (simp_all add: echo_kept_def remember_inv take_echo_inv)
    (simp_all add: remember_def take_echo_def Let_def split: option.split)

definition replay_kept :: "bytes \<Rightarrow> replay_guard \<Rightarrow> bool" where
  "replay_kept own g \<longleftrightarrow>
     replay_inv g \<and> replay_config g = replay_config (replay_new own DEFAULT_RETENTION_MS)"

lemma replay_kept_steps:
  "replay_kept own g \<Longrightarrow> replay_kept own (snd (check g i now))"
  "replay_kept own g \<Longrightarrow> replay_kept own (restore g mem)"
  by (simp_all add: replay_kept_def check_inv check_config restore_inv restore_config)

lemma replay_kept_own: "replay_kept own g \<Longrightarrow> own_device_id g = own"
  by (simp add: replay_kept_def replay_config_def replay_new_def)

definition session_inv :: "session \<Rightarrow> bool" where
  "session_inv s \<longleftrightarrow>
     replay_kept (ss_device_id s) (ss_replay s)
     \<and> echo_kept (ss_echo s) \<and> assembly_kept (ss_assembly s) \<and> known_ok (ss_known s)
     \<and> window_ok 256 (ss_msg_seen s) \<and> window_ok 64 (ss_announce_seen s)"

lemma session_inv_quiet: "quiet s s' \<Longrightarrow> session_inv s' \<longleftrightarrow> session_inv s"
  by (simp add: session_inv_def quiet_fields)

lemma session_inv_update [simp]:
  "session_inv (s\<lparr>ss_phase := ph\<rparr>) = session_inv s" "session_inv (s\<lparr>ss_peers := n\<rparr>) = session_inv s"
  "session_inv (s\<lparr>ss_conn_id := c\<rparr>) = session_inv s" "session_inv (s\<lparr>ss_limits := l\<rparr>) = session_inv s"
  "session_inv (s\<lparr>ss_msg_probe := mp\<rparr>) = session_inv s" "session_inv (s\<lparr>ss_seq := q\<rparr>) = session_inv s"
  "session_inv (s\<lparr>ss_announce_probe := mp\<rparr>) = session_inv s"
  "session_inv (s\<lparr>ss_replay_sink := k\<rparr>) = session_inv s"
  "session_inv (s\<lparr>ss_device_info := di\<rparr>) = session_inv s" "session_inv (s\<lparr>ss_resend := re\<rparr>) = session_inv s"
  "session_inv (s\<lparr>ss_device_keys := dk\<rparr>) = session_inv s" "session_inv (s\<lparr>ss_echo_guard := b\<rparr>) = session_inv s"
  "session_inv (s\<lparr>ss_pinned_auth := pa\<rparr>) = session_inv s"
  by (simp_all add: session_inv_def)

lemma publish_replay_inv [simp]: "session_inv (publish_replay s) = session_inv s"
  by (simp add: publish_replay_def split: option.split)

lemma session_inv_replay: "session_inv s \<Longrightarrow> session_inv (s\<lparr>ss_replay := snd (check (ss_replay s) i now)\<rparr>)"
  by (simp add: session_inv_def replay_kept_steps)

lemma session_inv_echo: "session_inv s \<Longrightarrow> echo_kept g \<Longrightarrow> session_inv (s\<lparr>ss_echo := g\<rparr>)"
  by (simp add: session_inv_def)

lemma session_inv_assembly: "session_inv s \<Longrightarrow> assembly_kept a \<Longrightarrow> session_inv (s\<lparr>ss_assembly := a\<rparr>)"
  by (simp add: session_inv_def)

lemma on_challenge_inv: "session_inv s \<Longrightarrow> session_inv (snd (on_challenge J P r c now s))"
  by (auto simp: on_challenge_def auth_inputs_def Let_def sbind_def crypto_def split: sum.splits option.splits
      if_splits prod.splits)

lemma deliver_clip_inv: "session_inv s \<Longrightarrow> session_inv (snd (deliver_clip P b i now s))"
  by (auto simp: deliver_clip_def session_inv_def echo_kept_steps split: option.split)

lemma on_clip_inv: "session_inv s \<Longrightarrow> session_inv (snd (on_clip P c now s))"
  using session_inv_replay [of s] deliver_clip_inv [of "publish_replay (s\<lparr>ss_replay := g\<rparr>)" for g]
  by (auto simp: on_clip_def Let_def sbind_def split: sum.splits prod.splits) (metis snd_conv)+

lemma on_card_inv: "session_inv s \<Longrightarrow> session_inv (snd (on_card P body now s))"
  by (auto simp: on_card_def Let_def session_inv_def known_ok_update split: sum.splits option.splits)

lemma on_msg_inv:
  assumes "session_inv s"
  shows "session_inv (snd (on_msg P m now s))"
proof -
  have push: "session_inv (s\<lparr>ss_msg_seen := push_bounded MSG_SEEN_CAPACITY i (ss_msg_seen s)\<rparr>)"
    if "i \<notin> set (ss_msg_seen s)" for i
    using assms that by (simp add: session_inv_def MSG_SEEN_CAPACITY_def window_ok_push)
  then show ?thesis
    using assms on_card_inv [OF push]
    by (auto simp: on_msg_def Let_def sbind_def split: sum.splits kind.splits prod.splits)
      (metis snd_conv)
qed

lemma on_announce_inv: "session_inv s \<Longrightarrow> session_inv (snd (on_announce P m now s))"
  by (auto simp: on_announce_def Let_def sbind_def session_inv_def ANNOUNCE_SEEN_CAPACITY_def window_ok_push
      split: sum.splits)

lemma deliver_image_inv: "session_inv s \<Longrightarrow> session_inv (snd (deliver_image m i now s))"
  using session_inv_replay [of s]
  by (auto simp: deliver_image_def Let_def split: prod.splits content_type.splits) (metis snd_conv)+

text \<open>The assembly a chunk goes to is kept, and so is what accepting the chunk makes of it.\<close>

lemma assembly_for_kept:
  "assembly_kept (ss_assembly s) \<Longrightarrow> assembly_kept (assembly_for m c s)"
  by (auto simp: assembly_for_def assembly_kept_def Let_def assembly_new_def split: option.splits sum.splits
      intro!: assembly_new_inv simp: assembly_new_def)

lemma accept_kept:
  "assembly_kept (Some a) \<Longrightarrow> accept_chunk a m e i c p = Inr a' \<Longrightarrow> assembly_kept (Some a')"
  using accept_chunk_inv [of a m e i c p a'] by (auto simp: assembly_kept_def accept_chunk_Inr)

lemma on_chunk_inv:
  assumes "session_inv s"
  shows "session_inv (snd (on_chunk P c now s))"
proof -
  have kept: "assembly_kept (Some a')"
    if "assembly_for m c s = Some a" "accept_chunk a m' e i n p = Inr a'" for m a m' e i n p a'
    using assembly_for_kept [of s m c] accept_kept that assms by (metis session_inv_def)
  have none: "session_inv (s\<lparr>ss_assembly := None\<rparr>)"
    using session_inv_assembly [OF assms] by (simp add: assembly_kept_def)
  show ?thesis
    using assms none session_inv_assembly [OF assms] kept deliver_image_inv [OF none]
    by (auto simp: on_chunk_def Let_def sbind_def split: sum.splits option.splits prod.splits)
      (metis snd_conv)+
qed

lemma on_message_inv: "session_inv s \<Longrightarrow> session_inv (snd (on_message J P rnd m now s))"
  using session_inv_quiet [OF introduce_quiet]
  by (cases m) (auto simp: on_challenge_inv on_clip_inv on_chunk_inv on_announce_inv on_msg_inv Let_def
      sbind_def split: sum.split)

lemma handle_frame_inv: "session_inv s \<Longrightarrow> session_inv (snd (handle_frame J P rnd f now s))"
  by (auto simp: handle_frame_def sbind_def on_message_inv split: sum.split)

lemma send_clip_inv: "session_inv s \<Longrightarrow> session_inv (snd (send_clip J P r1 r2 t now s))"
  by (auto simp: send_clip_def Let_def sbind_def crypto_def split: sum.splits)

lemma observe_local_inv: "session_inv s \<Longrightarrow> session_inv (snd (observe_local J P r1 r2 t now s))"
proof -
  assume inv: "session_inv s"
  have "session_inv (s\<lparr>ss_echo := snd (take_echo (ss_echo s) h now)\<rparr>)" for h
    using inv session_inv_echo [OF inv echo_kept_steps(2)] by (simp add: session_inv_def)
  then show ?thesis
    using inv send_clip_inv
    by (auto simp: observe_local_def Let_def split: option.splits prod.splits) (metis snd_conv)+
qed

lemma observe_local_image_inv:
  "session_inv s \<Longrightarrow> session_inv (snd (observe_local_image J P r rnd png now s))"
  by (auto simp: observe_local_image_def Let_def sbind_def crypto_def split: sum.splits)

lemma hello_frame_inv: "session_inv s \<Longrightarrow> session_inv (snd (hello_frame J s))"
  by (simp add: hello_frame_def session_inv_def assembly_kept_def)

section \<open>A session as a machine\<close>

text \<open>Everything a caller does to a session: frames from the relay, local copies, frames it asks for and
  settings.\<close>

datatype session_event =
    EvFrame draws frame u64
  | EvLocal rand rand ustr u64
  | EvImage rand draws bytes u64
  | EvHello
  | EvAnnounce rand rand u64
  | EvCard rand rand u64
  | EvMsg rand rand kind bytes "ustr option"
  | EvRekey "nat \<Rightarrow> rand \<times> rand" rand rand "bytes list" bytes u64
  | EvInfo device_info
  | EvKeys device_keys
  | EvRestore memory
  | EvResend "local_event option"

fun session_step :: "json \<Rightarrow> prims \<Rightarrow> session \<Rightarrow> session_event \<Rightarrow> session" where
  "session_step J P s (EvFrame rnd f now) = snd (handle_frame J P rnd f now s)"
| "session_step J P s (EvLocal r1 r2 t now) = snd (observe_local J P r1 r2 t now s)"
| "session_step J P s (EvImage r rnd png now) = snd (observe_local_image J P r rnd png now s)"
| "session_step J P s EvHello = snd (hello_frame J s)"
| "session_step J P s (EvAnnounce r1 r2 now) = snd (announce_frame J P r1 r2 now s)"
| "session_step J P s (EvCard r1 r2 now) = snd (card_frame J P r1 r2 now s)"
| "session_step J P s (EvMsg r1 r2 k body to) = snd (msg_frame J P r1 r2 k body to s)"
| "session_step J P s (EvRekey rnd r1 r2 keep secret now) = snd (rekey_frame J P rnd r1 r2 keep secret now s)"
| "session_step J P s (EvInfo info) = set_device_info info s"
| "session_step J P s (EvKeys keys) = set_device_keys keys s"
| "session_step J P s (EvRestore mem) = restore_replay mem s"
| "session_step J P s (EvResend (Some e)) = stash_resend e s"
| "session_step J P s (EvResend None) = snd (take_resend s)"

lemma restore_replay_inv: "session_inv s \<Longrightarrow> session_inv (restore_replay mem s)"
  by (simp add: session_inv_def restore_replay_def replay_kept_steps)

lemma session_step_inv: "session_inv s \<Longrightarrow> session_inv (session_step J P s e)"
proof (cases e)
  case (EvResend x)
  then show "session_inv s \<Longrightarrow> ?thesis" by (cases x) (simp_all add: stash_resend_def take_resend_def)
qed (simp_all add: handle_frame_inv observe_local_inv observe_local_image_inv hello_frame_inv restore_replay_inv
    session_inv_quiet [OF announce_frame_quiet] session_inv_quiet [OF card_frame_quiet]
    session_inv_quiet [OF msg_frame_quiet] session_inv_quiet [OF rekey_frame_quiet]
    set_device_info_def set_device_keys_def)

interpretation session: machine "session_step J P" session_inv
  by unfold_locales (rule session_step_inv)

lemma session_new_inv: "session_inv (session_new i device_id seq)"
  by (simp add: session_inv_def session_new_def replay_kept_def replay_new_inv assembly_kept_def known_ok_def
      window_ok_def echo_kept_def echo_inv_def echo_default_def DEFAULT_CAPACITY_def)

end
