(* ===== verification/Session_Handlers.thy ===== *)
theory Session_Handlers
  imports Session_Inv "HOL-Library.Sublist"
begin

text \<open>
  What each handler of the driver does, case by case: when a clip, a chunk, a message, a card and a new
  account key are an error, are discarded, or are acted on; what has to have arrived for each action the
  caller is asked for; and the sequence of deliveries to the replay guard that a run of frames makes.
\<close>

section \<open>Pinned keys\<close>

text \<open>The later list of devices knows every device of the earlier one, by the same key and by a card that
  is no older.\<close>

definition pins_kept :: "(bytes, known_device) hmap \<Rightarrow> (bytes, known_device) hmap \<Rightarrow> bool" where
  "pins_kept m m' \<longleftrightarrow>
     (\<forall>d k. map_of m d = Some k \<longrightarrow>
        (\<exists>k'. map_of m' d = Some k' \<and> kd_sign_pub k' = kd_sign_pub k \<and> kd_ts_ms k \<le> kd_ts_ms k'))"

lemma pins_kept_refl [simp]: "pins_kept m m"
  by (simp add: pins_kept_def)

lemma pins_kept_trans: "pins_kept a b \<Longrightarrow> pins_kept b c \<Longrightarrow> pins_kept a c"
  unfolding pins_kept_def
proof (intro allI impI)
  fix d k
  assume ab: "\<forall>d k. map_of a d = Some k \<longrightarrow>
      (\<exists>k'. map_of b d = Some k' \<and> kd_sign_pub k' = kd_sign_pub k \<and> kd_ts_ms k \<le> kd_ts_ms k')"
    and bc: "\<forall>d k. map_of b d = Some k \<longrightarrow>
      (\<exists>k'. map_of c d = Some k' \<and> kd_sign_pub k' = kd_sign_pub k \<and> kd_ts_ms k \<le> kd_ts_ms k')"
    and "map_of a d = Some k"
  then obtain k' where "map_of b d = Some k'" "kd_sign_pub k' = kd_sign_pub k" "kd_ts_ms k \<le> kd_ts_ms k'"
    by blast
  moreover from this bc obtain k'' where "map_of c d = Some k''" "kd_sign_pub k'' = kd_sign_pub k'"
    "kd_ts_ms k' \<le> kd_ts_ms k''" by blast
  ultimately show "\<exists>k'. map_of c d = Some k' \<and> kd_sign_pub k' = kd_sign_pub k \<and> kd_ts_ms k \<le> kd_ts_ms k'"
    by (metis order_trans)
qed

lemma pins_kept_update:
  assumes "\<And>k. map_of m i = Some k \<Longrightarrow> kd_sign_pub d = kd_sign_pub k \<and> kd_ts_ms k \<le> kd_ts_ms d"
  shows "pins_kept m (AList.update i d m)"
  unfolding pins_kept_def
proof (intro allI impI)
  fix j k assume j: "map_of m j = Some k"
  show "\<exists>k'. map_of (AList.update i d m) j = Some k' \<and> kd_sign_pub k' = kd_sign_pub k \<and> kd_ts_ms k \<le> kd_ts_ms k'"
    using assms [of k] j by (cases "j = i") auto
qed

text \<open>A card either changes no device, or stores what it says of a device that was not known or that is
  pinned to the card's key by a card no newer.\<close>

lemma on_card_cases:
  obtains (same) "snd (on_card P body now s) = s" "\<forall>k. ADevice k \<notin> set (fst (on_card P body now s))"
  | (stored) c d where "card_decode P body (room_bytes s) = Inr c" "fst (on_card P body now s) = [ADevice d]"
      "snd (on_card P body now s) = s\<lparr>ss_known := AList.update (kd_device_id d) d (ss_known s)\<rparr>"
      "kd_device_id d = c_device_id c" "kd_sign_pub d = c_sign_pub c" "kd_ts_ms d = c_ts_ms c"
      "c_device_id c \<noteq> ss_device_id s" "fresh now (c_ts_ms c)"
      "map_of (ss_known s) (kd_device_id d) = None
       \<or> (\<exists>k. map_of (ss_known s) (kd_device_id d) = Some k \<and> kd_sign_pub d = kd_sign_pub k \<and> kd_ts_ms k \<le> kd_ts_ms d)"
proof (cases "card_decode P body (room_bytes s)")
  case (Inl e)
  then show ?thesis using same by (simp add: on_card_def dropped_def)
next
  case (Inr c)
  consider "c_device_id c = ss_device_id s \<or> \<not> fresh now (c_ts_ms c)"
    | k where "map_of (ss_known s) (c_device_id c) = Some k" "kd_sign_pub k \<noteq> c_sign_pub c \<or> c_ts_ms c < kd_ts_ms k"
    | "\<not> (c_device_id c = ss_device_id s \<or> \<not> fresh now (c_ts_ms c))"
      "map_of (ss_known s) (c_device_id c) = None
       \<or> (\<exists>k. map_of (ss_known s) (c_device_id c) = Some k \<and> c_sign_pub c = kd_sign_pub k \<and> kd_ts_ms k \<le> c_ts_ms c)"
    by (metis not_less option.exhaust)
  then show ?thesis
  proof cases
    case 1
    then show ?thesis using same Inr by (simp add: on_card_def)
  next
    case 2
    then show ?thesis using same Inr by (simp add: on_card_def dropped_def Let_def)
  next
    case 3
    define d where "d = \<lparr>kd_device_id = c_device_id c, kd_sign_pub = c_sign_pub c,
        kd_box_pub = c_box_pub c, kd_conn_id = Some (c_conn_id c), kd_name = c_name c, kd_os = c_os c,
        kd_ts_ms = c_ts_ms c\<rparr>"
    have fields: "kd_device_id d = c_device_id c" "kd_sign_pub d = c_sign_pub c" "kd_ts_ms d = c_ts_ms c"
      by (simp_all add: d_def)
    have "on_card P body now s =
        ([ADevice d], s\<lparr>ss_known := AList.update (kd_device_id d) d (ss_known s)\<rparr>)"
      using 3 Inr by (auto simp: on_card_def Let_def d_def)
    then show ?thesis using stored [of c d] Inr 3 fields by simp
  qed
qed

lemma on_card_pins: "pins_kept (ss_known s) (ss_known (snd (on_card P body now s)))"
  by (cases rule: on_card_cases [of P body now s]) (auto intro!: pins_kept_update)

text \<open>No other handler touches the devices seen.\<close>

lemma on_challenge_known [simp]: "ss_known (snd (on_challenge J P r c now s)) = ss_known s"
  by (auto simp: on_challenge_def auth_inputs_def Let_def sbind_def crypto_def
      split: sum.splits option.splits if_splits prod.splits)

lemma publish_replay_known [simp]: "ss_known (publish_replay s) = ss_known s"
  by (simp add: publish_replay_def split: option.split)

lemma snd_case_Inr [simp]: "snd (case p of (a, s) \<Rightarrow> (Inr a, s)) = snd p"
  by (cases p) simp

lemma deliver_clip_known [simp]: "ss_known (snd (deliver_clip P b i now s)) = ss_known s"
  by (auto simp: deliver_clip_def split: option.split)

lemma deliver_image_known [simp]: "ss_known (snd (deliver_image m i now s)) = ss_known s"
  by (auto simp: deliver_image_def Let_def split: prod.split content_type.split)

lemma on_clip_known [simp]: "ss_known (snd (on_clip P c now s)) = ss_known s"
  by (simp add: on_clip_def Let_def sbind_def split: sum.split prod.split option.split)

lemma on_announce_known [simp]: "ss_known (snd (on_announce P m now s)) = ss_known s"
  by (auto simp: on_announce_def Let_def sbind_def split: sum.splits)

lemma on_chunk_known [simp]: "ss_known (snd (on_chunk P c now s)) = ss_known s"
  by (simp add: on_chunk_def Let_def sbind_def split: sum.split option.split)

lemma observe_local_known [simp]: "ss_known (snd (observe_local J P r1 r2 t now s)) = ss_known s"
  by (auto simp: observe_local_def send_clip_def Let_def sbind_def crypto_def
      split: option.splits prod.splits sum.splits)

lemma observe_local_image_known [simp]: "ss_known (snd (observe_local_image J P r rnd png now s)) = ss_known s"
  by (auto simp: observe_local_image_def Let_def sbind_def crypto_def split: sum.splits)

lemma on_msg_pins: "pins_kept (ss_known s) (ss_known (snd (on_msg P m now s)))"
proof -
  have "pins_kept (ss_known s) (ss_known (snd (on_card P body now (s\<lparr>ss_msg_seen := q\<rparr>))))" for body q
    using on_card_pins [of "s\<lparr>ss_msg_seen := q\<rparr>" P body now] by simp
  then show ?thesis
    by (simp add: on_msg_def Let_def sbind_def split: sum.split kind.split prod.split)
qed

lemma handle_frame_pins: "pins_kept (ss_known s) (ss_known (snd (handle_frame J P rnd f now s)))"
proof -
  have "pins_kept (ss_known s) (ss_known (snd (on_message J P rnd m now s)))" for m
    using quiet_fields(7) [OF introduce_quiet]
    by (cases m) (auto simp: on_msg_pins Let_def sbind_def split: sum.split)
  then show ?thesis by (auto simp: handle_frame_def sbind_def split: sum.split)
qed

lemma session_step_pins: "pins_kept (ss_known s) (ss_known (session_step J P s e))"
proof (cases e)
  case (EvResend x)
  then show ?thesis by (cases x) (simp_all add: stash_resend_def take_resend_def)
qed (simp_all add: handle_frame_pins hello_frame_def restore_replay_def quiet_fields(7) [OF announce_frame_quiet]
    quiet_fields(7) [OF card_frame_quiet] quiet_fields(7) [OF msg_frame_quiet]
    quiet_fields(7) [OF rekey_frame_quiet] set_device_info_def set_device_keys_def)

section \<open>What a frame makes the caller do\<close>

text \<open>A clip that passed every check: what was opened, and that the replay guard accepted it.\<close>

definition clip_admitted :: "prims \<Rightarrow> session \<Rightarrow> u64 \<Rightarrow> m_clip \<Rightarrow> inner \<Rightarrow> bool" where
  "clip_admitted P s now c i \<longleftrightarrow>
     ss_phase s = Ready \<and> length (cl_msg_id c) = MSG_ID_LEN \<and> length (cl_n c) = NONCE_LEN
     \<and> TAG_LEN < length (cl_ct c) \<and> cl_room c = room s \<and> epoch_is_acceptable s (cl_epoch c)
     \<and> clip_open P (key_of P s (cl_epoch c)) (cl_epoch c) (room_bytes s) (cl_msg_id c) (cl_n c) (cl_ct c) = Inr i
     \<and> fst (check (ss_replay s) (incoming_of (cl_msg_id c) (is_retained c) i) now) = Accept"

lemma deliver_clip_AClip:
  "AClip t ts ret dev \<in> set (fst (deliver_clip P b i now s)) \<longleftrightarrow>
    i_content_type i = Text \<and> from_utf8 (i_content i) = Some t \<and> ts = i_ts_ms i \<and> ret = b \<and> dev = i_device_id i"
  by (auto simp: deliver_clip_def take_content_def split: option.split)

lemma structural_cases:
  obtains (bad) e where "structural m n ct = Inl e"
    "\<not> (length m = MSG_ID_LEN \<and> length n = NONCE_LEN \<and> TAG_LEN < length ct)"
  | (good) "structural m n ct = Inr (m, n)" "length m = MSG_ID_LEN" "length n = NONCE_LEN" "TAG_LEN < length ct"
proof (cases "structural m n ct")
  case (Inl e)
  then show ?thesis using bad [of e] structural_Inr [of m n ct "(m, n)"] by auto
next
  case (Inr p)
  then show ?thesis using good structural_Inr [of m n ct p] by simp
qed

lemma structural_ok [simp]:
  "length m = MSG_ID_LEN \<Longrightarrow> length n = NONCE_LEN \<Longrightarrow> TAG_LEN < length ct \<Longrightarrow> structural m n ct = Inr (m, n)"
  by (simp add: structural_Inr)

text \<open>A clip is an error without effect, is dropped without effect, or is admitted.\<close>

lemma on_clip_cases:
  obtains (error) e where "on_clip P c now s = (Inl e, s)" "\<forall>i. \<not> clip_admitted P s now c i"
  | (discard) why where "on_clip P c now s = (Inr (dropped why (is_retained c)), s)"
      "\<forall>i. \<not> clip_admitted P s now c i"
  | (admitted) i where "clip_admitted P s now c i" "on_clip P c now s =
      (let (actions, s) = deliver_clip P (is_retained c) i now (publish_replay
        (s\<lparr>ss_replay := record_clip (ss_replay s) (incoming_of (cl_msg_id c) (is_retained c) i)\<rparr>))
       in (Inr actions, s))"
proof (cases "ss_phase s = Ready")
  case False
  then show ?thesis using error by (simp add: on_clip_def clip_admitted_def)
next
  case ready: True
  show ?thesis
  proof (cases rule: structural_cases [of "cl_msg_id c" "cl_n c" "cl_ct c"])
    case (bad e)
    then show ?thesis using error [of e] ready by (auto simp: on_clip_def clip_admitted_def)
  next
    case good
    consider "cl_room c \<noteq> room s" | "cl_room c = room s" "\<not> epoch_is_acceptable s (cl_epoch c)"
      | "cl_room c = room s" "epoch_is_acceptable s (cl_epoch c)" by blast
    then show ?thesis
    proof cases
      case 1
      then show ?thesis using discard good ready by (simp add: on_clip_def clip_admitted_def)
    next
      case 2
      then show ?thesis using discard good ready by (simp add: on_clip_def clip_admitted_def)
    next
      case 3
      show ?thesis
      proof (cases "clip_open P (key_of P s (cl_epoch c)) (cl_epoch c) (room_bytes s) (cl_msg_id c) (cl_n c) (cl_ct c)")
        case (Inl e)
        then show ?thesis using discard good ready 3 by (simp add: on_clip_def clip_admitted_def)
      next
        case (Inr i)
        let ?x = "incoming_of (cl_msg_id c) (is_retained c) i"
        obtain v g where v: "check (ss_replay s) ?x now = (v, g)" by fastforce
        show ?thesis
        proof (cases "v = Accept")
          case True
          then have "g = record_clip (ss_replay s) ?x" using check_accept [of "ss_replay s" ?x now] v by simp
          then show ?thesis using admitted [of i] v True good ready 3 Inr
            by (simp add: on_clip_def clip_admitted_def Let_def)
        next
          case False
          then have "g = ss_replay s" using check_refuse [of "ss_replay s" ?x now] v by simp
          then show ?thesis using discard [of "reason v"] v False good ready 3 Inr
            by (simp add: on_clip_def clip_admitted_def Let_def)
        qed
      qed
    qed
  qed
qed

lemma on_clip_admitted:
  assumes "clip_admitted P s now c i"
  shows "on_clip P c now s = (let (actions, s) = deliver_clip P (is_retained c) i now (publish_replay
        (s\<lparr>ss_replay := record_clip (ss_replay s) (incoming_of (cl_msg_id c) (is_retained c) i)\<rparr>))
       in (Inr actions, s))"
proof (cases rule: on_clip_cases [of P c now s])
  case (admitted j)
  then have "j = i" using assms by (simp add: clip_admitted_def)
  then show ?thesis using admitted(2) by simp
qed (use assms in auto)

lemma clip_admitted_unique: "clip_admitted P s now c i \<Longrightarrow> clip_admitted P s now c j \<Longrightarrow> j = i"
  by (simp add: clip_admitted_def)

lemma on_clip_AClip:
  assumes "on_clip P c now s = (Inr acts, s')"
  shows "AClip t ts ret dev \<in> set acts \<longleftrightarrow> (\<exists>i. clip_admitted P s now c i \<and> i_content_type i = Text
    \<and> from_utf8 (i_content i) = Some t \<and> ts = i_ts_ms i \<and> ret = is_retained c \<and> dev = i_device_id i)"
proof (cases rule: on_clip_cases [of P c now s])
  case (admitted i)
  let ?d = "deliver_clip P (is_retained c) i now (publish_replay
        (s\<lparr>ss_replay := record_clip (ss_replay s) (incoming_of (cl_msg_id c) (is_retained c) i)\<rparr>))"
  have "acts = fst ?d" using admitted(2) assms by (simp add: Let_def split: prod.splits)
  then have "AClip t ts ret dev \<in> set acts \<longleftrightarrow> i_content_type i = Text
    \<and> from_utf8 (i_content i) = Some t \<and> ts = i_ts_ms i \<and> ret = is_retained c \<and> dev = i_device_id i"
    by (simp only: deliver_clip_AClip)
  then show ?thesis using admitted(1) clip_admitted_unique [of P s now c] by metis
qed (use assms in \<open>auto simp: dropped_def\<close>)

lemma last_entry_None: "last_entry d es = None \<longleftrightarrow> d \<notin> set (map fst es)"
  by (simp add: last_entry_def map_of_eq_None_iff)

text \<open>The actions of the other handlers.\<close>

lemma deliver_image_actions:
  "fst (deliver_image m i now s) = []
   \<or> fst (deliver_image m i now s) = [AImage (i_content i) (i_ts_ms i) (i_device_id i)]
   \<or> (\<exists>why. fst (deliver_image m i now s) = dropped why False)"
  by (auto simp: deliver_image_def Let_def take_content_def split: prod.split content_type.split)

lemma fst_case_Inr [simp]: "fst (case p of (a, s) \<Rightarrow> (Inr a, s)) = Inr (fst p)"
  by (cases p) simp

definition chunk_actions :: "action list \<Rightarrow> bool" where
  "chunk_actions acts \<longleftrightarrow>
     acts = [] \<or> (\<exists>why. acts = dropped why False) \<or> (\<exists>png ts dev. acts = [AImage png ts dev])"

lemma chunk_actions_simps [simp]: "chunk_actions []" "chunk_actions (dropped why False)"
  by (auto simp: chunk_actions_def)

lemma chunk_actions_image [simp]: "chunk_actions (fst (deliver_image m i now s))"
  using deliver_image_actions [of m i now s] by (auto simp: chunk_actions_def)

lemma on_chunk_actions:
  "fst (on_chunk P c now s) = Inr acts \<Longrightarrow> ss_phase s = Ready \<and> chunk_actions acts"
  by (cases rule: structural_cases [of "ck_msg_id c" "ck_n c" "ck_ct c"])
    (auto simp: on_chunk_def Let_def split: if_splits sum.splits option.splits)

text \<open>Dropping, announcing, and what devices say of themselves.\<close>

lemma on_announce_actions:
  "fst (on_announce P m now s) = Inr acts \<Longrightarrow> ss_phase s = Ready \<and> (acts = [] \<or> (\<exists>p. acts = [APeer p]))"
  by (cases rule: structural_cases [of "an_msg_id m" "an_n m" "an_ct m"])
    (auto simp: on_announce_def Let_def split: if_splits sum.splits)

lemma on_rekey_cases:
  obtains (ignored) "on_rekey P body now s = []"
  | (discard) why where "on_rekey P body now s = dropped why False"
  | (removed) keys sdr k where "ss_device_keys s = Some keys" "rekey_sender body = Inr sdr"
      "map_of (ss_known s) sdr = Some k"
      "rekey_open P keys (ss_device_id s) (room_bytes s) (kd_sign_pub k) body = Inr None"
      "on_rekey P body now s = [ARemovedBy sdr]"
  | (rekeyed) keys sdr k r where "ss_device_keys s = Some keys" "rekey_sender body = Inr sdr"
      "map_of (ss_known s) sdr = Some k"
      "rekey_open P keys (ss_device_id s) (room_bytes s) (kd_sign_pub k) body = Inr (Some r)"
      "fresh now (rk_ts_ms r)" "on_rekey P body now s = [ARekeyed (rk_secret r) sdr (rk_recipients r)]"
proof (cases "ss_device_keys s")
  case (Some keys)
  show ?thesis
  proof (cases "rekey_sender body")
    case (Inr sender)
    show ?thesis
    proof (cases "map_of (ss_known s) sender")
      case (Some k)
      note facts = \<open>ss_device_keys s = Some keys\<close> Inr Some
      show ?thesis
      proof (cases "rekey_open P keys (ss_device_id s) (room_bytes s) (kd_sign_pub k) body")
        case (Inl e)
        then show ?thesis using discard facts by (simp add: on_rekey_def)
      next
        case (Inr ro)
        then show ?thesis
          using discard removed [OF facts] rekeyed [OF facts] facts
          by (cases ro; cases "fresh now (rk_ts_ms (the ro))") (auto simp: on_rekey_def)
      qed
    qed (use discard Inr \<open>ss_device_keys s = Some keys\<close> in \<open>simp add: on_rekey_def\<close>)
  qed (use discard Some in \<open>simp add: on_rekey_def\<close>)
qed (use ignored in \<open>simp add: on_rekey_def\<close>)

text \<open>What a message between devices is, once opened, for the first time, in this room.\<close>

definition msg_opened :: "prims \<Rightarrow> session \<Rightarrow> m_msg \<Rightarrow> kind \<Rightarrow> bytes \<Rightarrow> bool" where
  "msg_opened P s m k body \<longleftrightarrow>
     ss_phase s = Ready \<and> length (ms_msg_id m) = MSG_ID_LEN \<and> length (ms_n m) = NONCE_LEN
     \<and> TAG_LEN < length (ms_ct m) \<and> ms_room m = room s \<and> epoch_is_acceptable s (ms_epoch m)
     \<and> ms_msg_id m \<notin> set (ss_msg_seen s)
     \<and> msg_open P (key_of P s (ms_epoch m)) (ms_epoch m) (room_bytes s) (ms_msg_id m) (ms_n m) (ms_ct m)
         = Inr (k, body)"

definition msg_noted :: "m_msg \<Rightarrow> session \<Rightarrow> session" where
  "msg_noted m s = s\<lparr>ss_msg_seen := push_bounded MSG_SEEN_CAPACITY (ms_msg_id m) (ss_msg_seen s)\<rparr>"

lemma on_msg_cases:
  obtains (error) e where "on_msg P m now s = (Inl e, s)" "\<forall>k b. \<not> msg_opened P s m k b"
  | (discard) acts where "on_msg P m now s = (Inr acts, s)" "acts = [] \<or> acts = dropped ''msg_open_failed'' False"
      "\<forall>k b. \<not> msg_opened P s m k b"
  | (card) body where "msg_opened P s m Card body"
      "on_msg P m now s = (Inr (fst (on_card P body now (msg_noted m s))), snd (on_card P body now (msg_noted m s)))"
  | (rekey) body where "msg_opened P s m Rekey body"
      "on_msg P m now s = (Inr (on_rekey P body now (msg_noted m s)), msg_noted m s)"
  | (other) k body where "msg_opened P s m k body" "k \<noteq> Card" "k \<noteq> Rekey"
      "on_msg P m now s = (Inr [AMessage k body], msg_noted m s)"
proof (cases "ss_phase s = Ready")
  case False
  then show ?thesis using error by (simp add: on_msg_def msg_opened_def)
next
  case ready: True
  show ?thesis
  proof (cases rule: structural_cases [of "ms_msg_id m" "ms_n m" "ms_ct m"])
    case (bad e)
    then show ?thesis using error [of e] ready by (auto simp: on_msg_def msg_opened_def)
  next
    case good
    show ?thesis
    proof (cases "ms_room m = room s \<and> epoch_is_acceptable s (ms_epoch m) \<and> ms_msg_id m \<notin> set (ss_msg_seen s)")
      case False
      then show ?thesis using discard [of "[]"] good ready by (auto simp: on_msg_def msg_opened_def)
    next
      case True
      show ?thesis
      proof (cases "msg_open P (key_of P s (ms_epoch m)) (ms_epoch m) (room_bytes s) (ms_msg_id m) (ms_n m) (ms_ct m)")
        case (Inl e)
        then show ?thesis using discard good ready True by (simp add: on_msg_def msg_opened_def)
      next
        case (Inr kb)
        obtain k body where kb: "kb = (k, body)" by fastforce
        have o: "msg_opened P s m k body" using good ready True Inr kb by (simp add: msg_opened_def)
        have eq: "on_msg P m now s = (case k of
               Card \<Rightarrow> (let (actions, s) = on_card P body now (msg_noted m s) in (Inr actions, s))
             | Rekey \<Rightarrow> (Inr (on_rekey P body now (msg_noted m s)), msg_noted m s)
             | _ \<Rightarrow> (Inr [AMessage k body], msg_noted m s))"
          using good ready True Inr kb by (cases k) (simp_all add: on_msg_def msg_noted_def Let_def)
        show ?thesis
        proof (cases "k = Card \<or> k = Rekey")
          case True
          then show ?thesis using card [of body] rekey [of body] o eq by (auto simp: Let_def split: prod.splits)
        next
          case False
          then show ?thesis using other [of k body] o eq by (cases k) auto
        qed
      qed
    qed
  qed
qed

lemma on_msg_rekey:
  assumes "msg_opened P s m Rekey body"
  shows "on_msg P m now s = (Inr (on_rekey P body now (msg_noted m s)), msg_noted m s)"
proof (cases rule: on_msg_cases [of P m now s])
  case (rekey body')
  then show ?thesis using assms by (simp add: msg_opened_def)
qed (use assms in \<open>auto simp: msg_opened_def\<close>)

text \<open>What has to have arrived for an action to be asked of the caller.\<close>

fun caused :: "prims \<Rightarrow> session \<Rightarrow> u64 \<Rightarrow> message \<Rightarrow> action \<Rightarrow> bool" where
  "caused P s now m (AClip t ts ret dev) \<longleftrightarrow> (\<exists>c i. m = MClip c \<and> clip_admitted P s now c i
     \<and> i_content_type i = Text \<and> from_utf8 (i_content i) = Some t \<and> ts = i_ts_ms i
     \<and> ret = is_retained c \<and> dev = i_device_id i)"
| "caused P s now m (AImage png ts dev) \<longleftrightarrow> ss_phase s = Ready"
| "caused P s now m (APeer p) \<longleftrightarrow> ss_phase s = Ready"
| "caused P s now m (ADropped why ret) \<longleftrightarrow> ss_phase s = Ready"
| "caused P s now m (ADevice d) \<longleftrightarrow> (\<exists>x body c. m = MMsg x \<and> msg_opened P s x Card body
     \<and> card_decode P body (room_bytes s) = Inr c \<and> kd_device_id d = c_device_id c
     \<and> kd_sign_pub d = c_sign_pub c \<and> c_device_id c \<noteq> ss_device_id s)"
| "caused P s now m (AMessage k body) \<longleftrightarrow> (\<exists>x. m = MMsg x \<and> msg_opened P s x k body)"
| "caused P s now m (ARekeyed secret sdr kept) \<longleftrightarrow> (\<exists>x body keys k r. m = MMsg x
     \<and> msg_opened P s x Rekey body \<and> ss_device_keys s = Some keys \<and> rekey_sender body = Inr sdr
     \<and> map_of (ss_known s) sdr = Some k
     \<and> rekey_open P keys (ss_device_id s) (room_bytes s) (kd_sign_pub k) body = Inr (Some r)
     \<and> fresh now (rk_ts_ms r) \<and> secret = rk_secret r \<and> kept = rk_recipients r)"
| "caused P s now m (ARemovedBy sdr) \<longleftrightarrow> (\<exists>x body keys k. m = MMsg x
     \<and> msg_opened P s x Rekey body \<and> ss_device_keys s = Some keys \<and> rekey_sender body = Inr sdr
     \<and> map_of (ss_known s) sdr = Some k
     \<and> rekey_open P keys (ss_device_id s) (room_bytes s) (kd_sign_pub k) body = Inr None)"
| "caused P s now m (AAuthenticated conn n ret at) \<longleftrightarrow> (\<exists>ok. m = MAuthOk ok \<and> ok_conn_id ok = conn)"
| "caused P s now m _ \<longleftrightarrow> True"

lemma msg_noted_fields [simp]:
  "ss_known (msg_noted m s) = ss_known s" "ss_device_keys (msg_noted m s) = ss_device_keys s"
  "ss_device_id (msg_noted m s) = ss_device_id s" "room_bytes (msg_noted m s) = room_bytes s"
  by (simp_all add: msg_noted_def room_bytes_def)

lemma msg_opened_ready: "msg_opened P s m k b \<Longrightarrow> ss_phase s = Ready"
  by (simp add: msg_opened_def)

lemma on_card_actions:
  "a \<in> set (fst (on_card P body now s)) \<Longrightarrow> (\<exists>why. a = ADropped why False)
    \<or> (\<exists>c d. a = ADevice d \<and> card_decode P body (room_bytes s) = Inr c \<and> kd_device_id d = c_device_id c
        \<and> kd_sign_pub d = c_sign_pub c \<and> c_device_id c \<noteq> ss_device_id s)"
  by (auto simp: on_card_def dropped_def Let_def split: sum.splits option.splits if_splits)

lemma on_msg_caused:
  assumes "on_msg P x now s = (Inr acts, s')" "a \<in> set acts"
  shows "caused P s now (MMsg x) a"
proof (cases rule: on_msg_cases [of P x now s])
  case (discard acts')
  then have "ss_phase s = Ready" using assms(1) by (auto simp: on_msg_def split: if_splits)
  then show ?thesis using discard assms by (auto simp: dropped_def)
next
  case (card body)
  then show ?thesis using assms on_card_actions [of a P body now "msg_noted x s"]
    by (auto dest: msg_opened_ready) metis
next
  case (rekey body)
  then have a: "a \<in> set (on_rekey P body now (msg_noted x s))" using assms by simp
  show ?thesis
  proof (cases rule: on_rekey_cases [of P body now "msg_noted x s"])
    case (removed keys sdr k)
    then show ?thesis using a rekey(1) by auto
  next
    case (rekeyed keys sdr k r)
    then show ?thesis using a rekey(1) by auto
  qed (use a rekey(1) in \<open>auto simp: dropped_def dest: msg_opened_ready\<close>)
qed (use assms in auto)

lemma on_clip_caused:
  assumes "on_clip P c now s = (Inr acts, s')" "a \<in> set acts"
  shows "caused P s now (MClip c) a"
proof (cases a)
  case (AClip t ts ret dev)
  then show ?thesis using on_clip_AClip [OF assms(1)] assms(2) by auto
next
  case (ADropped why ret)
  then show ?thesis using assms(1) by (auto simp: on_clip_def split: if_splits)
qed (use assms in \<open>cases rule: on_clip_cases [of P c now s];
    fastforce simp: dropped_def deliver_clip_def Let_def split: prod.splits option.splits if_splits\<close>)+

lemma on_chunk_caused:
  "on_chunk P c now s = (Inr acts, s') \<Longrightarrow> a \<in> set acts \<Longrightarrow> caused P s now m a"
  using on_chunk_actions [of P c now s acts] by (auto simp: chunk_actions_def dropped_def)

lemma on_message_caused:
  assumes "on_message J P rnd m now s = (Inr acts, s')" "a \<in> set acts"
  shows "caused P s now m a"
proof (cases m)
  case (MAuthOk x)
  then show ?thesis using introduce_actions assms by fastforce
next
  case (MPresence x)
  then show ?thesis using introduce_actions assms by (fastforce simp: Let_def split: if_splits)
next
  case (MChallenge x)
  then show ?thesis using assms by (auto simp: on_challenge_def Let_def sbind_Inr split: if_splits)
next
  case (MAnnounce x)
  then show ?thesis using assms on_announce_actions [of P x now s acts] by auto
qed (use assms on_clip_caused on_msg_caused on_chunk_caused in \<open>auto simp: sbind_Inr split: if_splits\<close>)

lemma handle_frame_Inr:
  "handle_frame J P rnd f now s = (Inr acts, s') \<longleftrightarrow>
    (\<exists>m. msg_parse_frame J f = Inr m \<and> msg_version m = NET_PROTOCOL_VERSION
      \<and> on_message J P rnd m now s = (Inr acts, s'))"
  by (auto simp: handle_frame_def sbind_Inr)

section \<open>The session as deliveries to its replay guard\<close>

text \<open>Content handed to the caller, by the device that copied it and its time.\<close>

definition contents :: "action list \<Rightarrow> (bytes \<times> u64) list" where
  "contents acts = concat (map (\<lambda>a. case a of
     AClip t ts ret dev \<Rightarrow> [(dev, ts)] | AImage png ts dev \<Rightarrow> [(dev, ts)] | _ \<Rightarrow> []) acts)"

lemma contents_simps [simp]:
  "contents [] = []" "contents (a @ b) = contents a @ contents b" "contents (map ASend fs) = []"
  "contents (dropped why ret) = []"
  by (induction fs) (simp_all add: contents_def dropped_def)

definition origin :: "incoming \<Rightarrow> bytes \<times> u64" where
  "origin i = (in_device_id i, in_ts_ms i)"

text \<open>One step: at most one delivery, and content only for an accepted one.\<close>

definition delivers :: "session \<Rightarrow> action list \<Rightarrow> session \<Rightarrow> bool" where
  "delivers s acts s' \<longleftrightarrow> (\<exists>ds. ss_replay s' = deliver (ss_replay s) ds
     \<and> subseq (contents acts) (map origin (accepted (ss_replay s) ds)))"

lemma delivers_none: "ss_replay s' = ss_replay s \<Longrightarrow> contents acts = [] \<Longrightarrow> delivers s acts s'"
  unfolding delivers_def by (intro exI [of _ "[]"]) simp

lemma delivers_trans:
  assumes "delivers s a t" "delivers t b u"
  shows "delivers s (a @ b) u"
proof -
  obtain ds es where "ss_replay t = deliver (ss_replay s) ds"
    "subseq (contents a) (map origin (accepted (ss_replay s) ds))"
    "ss_replay u = deliver (ss_replay t) es"
    "subseq (contents b) (map origin (accepted (ss_replay t) es))"
    using assms unfolding delivers_def by blast
  then show ?thesis
    unfolding delivers_def
    by (intro exI [of _ "ds @ es"]) (simp add: deliver_append accepted_append list_emb_append_mono)
qed

lemma delivers_one:
  assumes "ss_replay s' = snd (check (ss_replay s) i now)"
    and "contents acts = [] \<or> fst (check (ss_replay s) i now) = Accept \<and> contents acts = [origin i]"
  shows "delivers s acts s'"
  unfolding delivers_def using assms by (intro exI [of _ "[(i, now)]"]) auto

lemma origin_incoming_of [simp]: "origin (incoming_of m r i) = (i_device_id i, i_ts_ms i)"
  by (simp add: origin_def incoming_of_def)

lemma publish_replay_replay [simp]: "ss_replay (publish_replay s) = ss_replay s"
  by (simp add: publish_replay_def split: option.split)

lemma deliver_clip_contents:
  "ss_replay (snd (deliver_clip P b i now s)) = ss_replay s
   \<and> contents (fst (deliver_clip P b i now s)) \<in> {[], [(i_device_id i, i_ts_ms i)]}"
  by (auto simp: deliver_clip_def contents_def split: option.split)

lemma on_clip_delivers:
  assumes "on_clip P c now s = (Inr acts, s')"
  shows "delivers s acts s'"
proof (cases rule: on_clip_cases [of P c now s])
  case (admitted i)
  let ?i = "incoming_of (cl_msg_id c) (is_retained c) i"
  let ?s = "publish_replay (s\<lparr>ss_replay := record_clip (ss_replay s) ?i\<rparr>)"
  have "(acts, s') = deliver_clip P (is_retained c) i now ?s"
    using admitted(2) assms by (simp add: Let_def split: prod.splits)
  moreover have acc: "fst (check (ss_replay s) ?i now) = Accept" using admitted(1) by (simp add: clip_admitted_def)
  moreover have "ss_replay ?s = snd (check (ss_replay s) ?i now)" using check_accept [OF acc] by simp
  ultimately show ?thesis
    using deliver_clip_contents [of P "is_retained c" i now ?s]
    by (intro delivers_one [where i = ?i and now = now]) (auto simp: prod_eq_iff)
qed (use assms delivers_none in auto)

lemma deliver_image_delivers:
  "delivers s (fst (deliver_image m i now s)) (snd (deliver_image m i now s))"
  by (rule delivers_one [where i = "incoming_of m False i" and now = now])
    (auto simp: deliver_image_def Let_def contents_def dropped_def split: prod.split content_type.split)

lemma delivers_assembly: "delivers (s\<lparr>ss_assembly := a\<rparr>) acts s' \<longleftrightarrow> delivers s acts s'"
  by (simp add: delivers_def)

lemma on_chunk_cases:
  assumes "on_chunk P c now s = (r, s')"
  shows "(\<exists>m i. r = Inr (fst (deliver_image m i now (s\<lparr>ss_assembly := None\<rparr>)))
      \<and> s' = snd (deliver_image m i now (s\<lparr>ss_assembly := None\<rparr>)))
    \<or> ss_replay s' = ss_replay s \<and> (\<forall>acts. r = Inr acts \<longrightarrow> contents acts = [])"
proof (cases rule: structural_cases [of "ck_msg_id c" "ck_n c" "ck_ct c"])
  case (bad e)
  then show ?thesis using assms by (auto simp: on_chunk_def split: if_split_asm)
next
  case good
  then show ?thesis
    using assms by (auto simp: on_chunk_def Let_def split: if_split_asm sum.split_asm option.split_asm prod.split_asm)
      (metis fst_conv snd_conv)+
qed

lemma on_chunk_delivers:
  assumes "on_chunk P c now s = (Inr acts, s')"
  shows "delivers s acts s'"
  using on_chunk_cases [OF assms] deliver_image_delivers [of "s\<lparr>ss_assembly := None\<rparr>" _ _ now]
  by (auto simp: delivers_assembly intro: delivers_none)

lemma msg_noted_replay [simp]: "ss_replay (msg_noted m s) = ss_replay s"
  by (simp add: msg_noted_def)

lemma on_card_replay [simp]: "ss_replay (snd (on_card P body now s)) = ss_replay s"
  by (cases rule: on_card_cases [of P body now s]) auto

lemma on_msg_delivers:
  assumes "on_msg P m now s = (Inr acts, s')"
  shows "delivers s acts s'"
proof (cases rule: on_msg_cases [of P m now s])
  case (card body)
  have "contents (fst (on_card P body now (msg_noted m s))) = []"
    by (cases rule: on_card_cases [of P body now "msg_noted m s"])
      (auto simp: on_card_def contents_def dropped_def Let_def split: sum.splits option.splits)
  then show ?thesis using card assms by (intro delivers_none) auto
next
  case (rekey body)
  have "contents (on_rekey P body now (msg_noted m s)) = []"
    by (cases rule: on_rekey_cases [of P body now "msg_noted m s"]) (simp_all add: contents_def dropped_def)
  then show ?thesis using rekey assms by (intro delivers_none) auto
qed (use assms in \<open>auto intro!: delivers_none simp: contents_def dropped_def\<close>)

lemma introduce_delivers:
  assumes "introduce J P rnd now acts t = (Inr acts', s')" "ss_replay t = ss_replay s" "contents acts = []"
  shows "delivers s acts' s'"
proof (rule delivers_none)
  show "ss_replay s' = ss_replay s"
    using quiet_fields(1) [OF introduce_quiet, of J P rnd now acts t] assms by simp
  show "contents acts' = []" using introduce_actions [OF assms(1)] assms(3) by auto
qed

lemma on_message_delivers:
  assumes "on_message J P rnd m now s = (Inr acts, s')"
  shows "delivers s acts s'"
proof (cases m)
  case (MAuthOk x)
  then show ?thesis using assms by (auto intro: introduce_delivers simp: contents_def)
next
  case (MPresence x)
  then show ?thesis using assms
    by (auto simp: Let_def contents_def split: if_split_asm intro: introduce_delivers delivers_none)
next
  case (MChallenge x)
  then show ?thesis using assms
    by (intro delivers_none) (auto simp: on_challenge_def auth_inputs_def contents_def Let_def sbind_Inr
        split: if_splits option.splits)
next
  case (MAnnounce x)
  then have "on_announce P x now s = (Inr acts, s')" using assms by simp
  then have "ss_replay s' = ss_replay s \<and> contents acts = []"
    by (cases rule: structural_cases [of "an_msg_id x" "an_n x" "an_ct x"])
      (auto simp: on_announce_def Let_def contents_def split: if_splits sum.splits)
  then show ?thesis by (simp add: delivers_none)
qed (use assms on_clip_delivers on_chunk_delivers on_msg_delivers in
    \<open>auto simp: sbind_Inr contents_def intro!: delivers_none split: if_splits\<close>)

text \<open>Frames handled one after the other; a frame that is refused with an error asks for nothing.\<close>

fun frames_run ::
    "json \<Rightarrow> prims \<Rightarrow> session \<Rightarrow> (draws \<times> frame \<times> u64) list \<Rightarrow> action list \<times> session" where
  "frames_run J P s [] = ([], s)"
| "frames_run J P s ((rnd, f, now) # fs) =
     (let (r, t) = handle_frame J P rnd f now s;
          (acts, u) = frames_run J P t fs
      in ((case r of Inl _ \<Rightarrow> [] | Inr a \<Rightarrow> a) @ acts, u))"

lemma introduce_replay: "introduce J P rnd now acts t = (r, s') \<Longrightarrow> ss_replay s' = ss_replay t"
  using quiet_fields(1) [OF introduce_quiet, of J P rnd now acts t] by simp

lemma on_message_error_replay:
  "on_message J P rnd m now s = (Inl e, s') \<Longrightarrow> ss_replay s' = ss_replay s"
proof (cases m)
  case (MClip c)
  then show "on_message J P rnd m now s = (Inl e, s') \<Longrightarrow> ?thesis"
    by (cases rule: on_clip_cases [of P c now s]) (auto split: prod.splits)
next
  case (MMsg x)
  then show "on_message J P rnd m now s = (Inl e, s') \<Longrightarrow> ?thesis"
    by (cases rule: on_msg_cases [of P x now s]) auto
next
  case (MAuthOk x)
  then show "on_message J P rnd m now s = (Inl e, s') \<Longrightarrow> ?thesis"
    by (auto dest: introduce_replay)
next
  case (MPresence x)
  then show "on_message J P rnd m now s = (Inl e, s') \<Longrightarrow> ?thesis"
    by (auto simp: Let_def dest: introduce_replay split: if_split_asm)
next
  case (MChallenge c)
  then show "on_message J P rnd m now s = (Inl e, s') \<Longrightarrow> ?thesis"
    by (auto simp: on_challenge_def auth_inputs_def Let_def sbind_def crypto_def
        split: if_split_asm option.split_asm sum.split_asm prod.split_asm)
next
  case (MAnnounce x)
  then show "on_message J P rnd m now s = (Inl e, s') \<Longrightarrow> ?thesis"
    by (auto simp: on_announce_def Let_def sbind_def split: if_split_asm sum.split_asm prod.split_asm)
qed (use on_chunk_cases [of P _ now s "Inl e" s'] in \<open>auto simp: sbind_def split: if_split_asm sum.split_asm\<close>)

lemma handle_frame_delivers:
  assumes "handle_frame J P rnd f now s = (r, s')"
  shows "delivers s (case r of Inl _ \<Rightarrow> [] | Inr a \<Rightarrow> a) s'"
proof (cases r)
  case (Inl e)
  then show ?thesis using assms on_message_error_replay
    by (fastforce simp: handle_frame_def sbind_def split: sum.splits if_split_asm intro: delivers_none)
next
  case (Inr acts)
  then show ?thesis using assms on_message_delivers by (auto simp: handle_frame_Inr)
qed

lemma frames_run_delivers: "delivers s (fst (frames_run J P s fs)) (snd (frames_run J P s fs))"
proof (induction J P s fs rule: frames_run.induct)
  case (1 J P s)
  then show ?case by (simp add: delivers_none)
next
  case (2 J P s rnd f now fs)
  obtain r t where h: "handle_frame J P rnd f now s = (r, t)" by fastforce
  show ?case
    using delivers_trans [OF handle_frame_delivers [OF h] "2.IH" [OF h [symmetric] refl]] h
    by (simp add: Let_def split_beta)
qed

text \<open>What a frame asks of the caller; one refused with an error asks for nothing.\<close>

definition asked :: "action list outcome \<Rightarrow> action list" where
  "asked m = (case fst m of Inl _ \<Rightarrow> [] | Inr acts \<Rightarrow> acts)"

lemma in_asked: "a \<in> set (asked m) \<longleftrightarrow> (\<exists>acts s'. m = (Inr acts, s') \<and> a \<in> set acts)"
  by (cases m; cases "fst m") (auto simp: asked_def)

lemma in_asked_frame:
  "a \<in> set (asked (handle_frame J P rnd f now s)) \<longleftrightarrow>
    (\<exists>m. msg_parse_frame J f = Inr m \<and> msg_version m = NET_PROTOCOL_VERSION
      \<and> a \<in> set (asked (on_message J P rnd m now s)))"
  by (auto simp: in_asked handle_frame_Inr)

lemma asked_caused: "a \<in> set (asked (on_message J P rnd m now s)) \<Longrightarrow> caused P s now m a"
  using on_message_caused by (auto simp: in_asked)

text \<open>A bundle that says its sender's word to this session: signed by the key pinned for the sender, for
  this room, and opened with this device's keys.\<close>

definition bundle_word ::
    "prims \<Rightarrow> session \<Rightarrow> m_msg \<Rightarrow> bytes \<Rightarrow> u64 \<Rightarrow> (bytes \<times> bytes) list \<Rightarrow> rekeyed option \<Rightarrow> bool" where
  "bundle_word P s x sdr ts es res \<longleftrightarrow> (\<exists>keys k sig.
     msg_opened P s x Rekey (put_bundle sdr ts es @ sig) \<and> ss_device_keys s = Some keys
     \<and> map_of (ss_known s) sdr = Some k
     \<and> signed_by P (kd_sign_pub k) LABEL_REKEY (room_bytes s) (put_bundle sdr ts es) sig
     \<and> length sdr = DEVICE_ID_LEN \<and> length es < 256 \<and> list_all entry_ok es
     \<and> opened P keys (ss_device_id s) sdr ts es = Inr res)"

lemma rekey_sender_bundle:
  "length sdr = DEVICE_ID_LEN \<Longrightarrow> rekey_sender (put_bundle sdr ts es @ sig) = Inr sdr"
  by (simp add: rekey_sender_def put_bundle_def field_run r_new_rd)

lemma bundle_word_iff:
  "(\<exists>body keys k. msg_opened P s x Rekey body \<and> ss_device_keys s = Some keys \<and> rekey_sender body = Inr sdr
      \<and> map_of (ss_known s) sdr = Some k
      \<and> rekey_open P keys (ss_device_id s) (room_bytes s) (kd_sign_pub k) body = Inr res)
    \<longleftrightarrow> (\<exists>ts es. bundle_word P s x sdr ts es res)" (is "?l \<longleftrightarrow> ?r")
proof
  assume ?l
  then obtain body keys k where b: "msg_opened P s x Rekey body" "ss_device_keys s = Some keys"
    "rekey_sender body = Inr sdr" "map_of (ss_known s) sdr = Some k"
    "rekey_open P keys (ss_device_id s) (room_bytes s) (kd_sign_pub k) body = Inr res" by blast
  then obtain frm ts es sig where o: "body = put_bundle frm ts es @ sig"
    "signed_by P (kd_sign_pub k) LABEL_REKEY (room_bytes s) (put_bundle frm ts es) sig"
    "length frm = DEVICE_ID_LEN" "length es < 256" "list_all entry_ok es"
    "opened P keys (ss_device_id s) frm ts es = Inr res"
    unfolding rekey_open_iff by blast
  then have "frm = sdr" using rekey_sender_bundle [of frm ts es sig] b(3) by simp
  then show ?r using b o unfolding bundle_word_def by blast
next
  assume ?r
  then show ?l unfolding bundle_word_def rekey_open_iff using rekey_sender_bundle by blast
qed

lemma opened_ts: "opened P keys d frm ts es = Inr (Some r) \<Longrightarrow> rk_ts_ms r = ts \<and> rk_recipients r = map fst es
    \<and> d \<in> set (map fst es)"
  using last_entry_None [of d es] by (auto simp: opened_def ebind_Inr_iff if_Inl_Inr split: option.splits)

lemma opened_None: "opened P keys d frm ts es = Inr None \<Longrightarrow> d \<notin> set (map fst es)"
  using last_entry_None [of d es] by (auto simp: opened_def ebind_Inr_iff if_Inl_Inr split: option.splits)

lemma asked_rekeyed:
  "ARekeyed secret sdr kept \<in> set (asked (on_message J P rnd m now s)) \<longleftrightarrow>
    (\<exists>x ts es r. m = MMsg x \<and> bundle_word P s x sdr ts es (Some r) \<and> fresh now ts \<and> secret = rk_secret r
      \<and> kept = map fst es)" (is "?l \<longleftrightarrow> ?r")
proof
  assume ?l
  then obtain x body keys k r where o: "m = MMsg x" "fresh now (rk_ts_ms r)" "secret = rk_secret r"
    "kept = rk_recipients r" "msg_opened P s x Rekey body" "ss_device_keys s = Some keys"
    "rekey_sender body = Inr sdr" "map_of (ss_known s) sdr = Some k"
    "rekey_open P keys (ss_device_id s) (room_bytes s) (kd_sign_pub k) body = Inr (Some r)"
    using asked_caused [of "ARekeyed secret sdr kept" J P rnd m now s] by auto
  then obtain ts es where w: "bundle_word P s x sdr ts es (Some r)" using bundle_word_iff by blast
  then have "rk_ts_ms r = ts" "rk_recipients r = map fst es" using opened_ts unfolding bundle_word_def by blast+
  then show ?r using o w by blast
next
  assume ?r
  then obtain x ts es r where m: "m = MMsg x" "bundle_word P s x sdr ts es (Some r)" "fresh now ts"
    "secret = rk_secret r" "kept = map fst es" by blast
  then obtain body keys k where b: "msg_opened P s x Rekey body" "ss_device_keys s = Some keys"
    "rekey_sender body = Inr sdr" "map_of (ss_known s) sdr = Some k"
    "rekey_open P keys (ss_device_id s) (room_bytes s) (kd_sign_pub k) body = Inr (Some r)"
    using bundle_word_iff by blast
  have "rk_ts_ms r = ts" "rk_recipients r = kept" using m(2,5) opened_ts unfolding bundle_word_def by blast+
  then have "on_rekey P body now (msg_noted x s) = [ARekeyed secret sdr kept]"
    using b m by (simp add: on_rekey_def)
  then show ?l using on_msg_rekey [OF b(1)] m(1) by (simp add: asked_def)
qed

lemma asked_removed:
  "ARemovedBy sdr \<in> set (asked (on_message J P rnd m now s)) \<longleftrightarrow>
    (\<exists>x ts es. m = MMsg x \<and> bundle_word P s x sdr ts es None)" (is "?l \<longleftrightarrow> ?r")
proof
  assume ?l
  then obtain x body keys k where o: "m = MMsg x" "msg_opened P s x Rekey body" "ss_device_keys s = Some keys"
    "rekey_sender body = Inr sdr" "map_of (ss_known s) sdr = Some k"
    "rekey_open P keys (ss_device_id s) (room_bytes s) (kd_sign_pub k) body = Inr None"
    using asked_caused [of "ARemovedBy sdr" J P rnd m now s] by auto
  then show ?r using bundle_word_iff by blast
next
  assume ?r
  then obtain x ts es where m: "m = MMsg x" "bundle_word P s x sdr ts es None" by blast
  then obtain body keys k where b: "msg_opened P s x Rekey body" "ss_device_keys s = Some keys"
    "rekey_sender body = Inr sdr" "map_of (ss_known s) sdr = Some k"
    "rekey_open P keys (ss_device_id s) (room_bytes s) (kd_sign_pub k) body = Inr None"
    using bundle_word_iff by blast
  then have "on_rekey P body now (msg_noted x s) = [ARemovedBy sdr]" by (simp add: on_rekey_def)
  then show ?l using on_msg_rekey [OF b(1)] m(1) by (simp add: asked_def)
qed

end
