(* ===== verification/Session_Props.thy ===== *)
theory Session_Props
  imports Session_Handlers
begin

text \<open>
  What the driver promises: which clips reach the clipboard, what a relay can and cannot make it do, that
  a device's pinned key never changes, and that a copy on one device is what the other device is told to
  write, once.
\<close>

section \<open>Properties\<close>


text \<open>Whatever is received and done, a session remembers at most 256 message identifiers, 64
  announcements, 256 clips, 64 clip senders and 20 of its own writes, each once, and its replay guard
  always judges by this device's own identifier.\<close>

theorem session_stays_bounded:
  "let s = foldl (session_step J P) (session_new i device_id q) es in
    length (ss_msg_seen s) \<le> 256 \<and> distinct (ss_msg_seen s)
    \<and> length (ss_announce_seen s) \<le> 64 \<and> distinct (ss_announce_seen s)
    \<and> length (seen (ss_replay s)) \<le> 256 \<and> known_devices (ss_replay s) \<le> 64
    \<and> length (entries (ss_echo s)) \<le> 20
    \<and> own_device_id (ss_replay s) = ss_device_id s"
proof -
  define s where "s = foldl (session_step J P) (session_new i device_id q) es"
  have inv: "session_inv s" unfolding s_def by (rule session.run_inv [OF session_new_inv])
  have g: "replay_inv (ss_replay s)"
    "replay_config (ss_replay s) = replay_config (replay_new (ss_device_id s) DEFAULT_RETENTION_MS)"
    using inv by (simp_all add: session_inv_def replay_kept_def)
  have "own_device_id (ss_replay s) = ss_device_id s"
    using inv by (simp add: session_inv_def replay_kept_own)
  moreover have "length (entries (ss_echo s)) \<le> 20"
    using inv by (simp add: session_inv_def echo_kept_def echo_inv_def DEFAULT_CAPACITY_def)
  ultimately show ?thesis
    using inv replay_inv_bounds(1,2) [OF g] unfolding s_def [symmetric] Let_def
    by (simp add: session_inv_def window_ok_def)
qed

text \<open>C3: Text reaches the clipboard exactly for a clip of this version that, once this connection is
  authenticated, is for this room and an acceptable epoch, opens under the account key with the
  message it claims to be, and is accepted by the replay guard; and what is written is the text, the
  time and the device that were sealed.\<close>

theorem session_writes_only_admitted:
  "AClip t ts ret dev \<in> set (asked (handle_frame J P rnd f now s)) \<longleftrightarrow>
    (\<exists>c i. msg_parse_frame J f = Inr (MClip c) \<and> cl_v c = NET_PROTOCOL_VERSION \<and> clip_admitted P s now c i
      \<and> i_content_type i = Text \<and> from_utf8 (i_content i) = Some t \<and> ts = i_ts_ms i
      \<and> ret = is_retained c \<and> dev = i_device_id i)"
proof -
  have "AClip t ts ret dev \<in> set (asked (on_message J P rnd m now s)) \<longleftrightarrow>
    (\<exists>c i. m = MClip c \<and> clip_admitted P s now c i \<and> i_content_type i = Text
      \<and> from_utf8 (i_content i) = Some t \<and> ts = i_ts_ms i \<and> ret = is_retained c \<and> dev = i_device_id i)" for m
  proof
    assume "\<exists>c i. m = MClip c \<and> clip_admitted P s now c i \<and> i_content_type i = Text
      \<and> from_utf8 (i_content i) = Some t \<and> ts = i_ts_ms i \<and> ret = is_retained c \<and> dev = i_device_id i"
    then obtain c i where c: "m = MClip c" "clip_admitted P s now c i" "i_content_type i = Text"
      "from_utf8 (i_content i) = Some t" "ts = i_ts_ms i" "ret = is_retained c" "dev = i_device_id i" by blast
    obtain acts s' where o: "on_clip P c now s = (Inr acts, s')"
      using on_clip_admitted [OF c(2)] by (auto simp: Let_def split: prod.splits)
    then show "AClip t ts ret dev \<in> set (asked (on_message J P rnd m now s))"
      using on_clip_AClip [OF o, of t ts ret dev] c by (auto simp: asked_def)
  qed (use asked_caused [of "AClip t ts ret dev"] in auto)
  then show ?thesis unfolding in_asked_frame by fastforce
qed

text \<open>C6: A device moves to a new account key, or leaves, only on the word of a device it knows: the pinned
  key of the sender named in the bundle signed it for this room, the new key came with a fresh time and
  this device among the recipients, and the device is removed only by a bundle that does not list it.\<close>

theorem session_moves_on_pinned_word:
  "(ARekeyed secret sdr kept \<in> set (asked (handle_frame J P rnd f now s)) \<longleftrightarrow>
      (\<exists>x ts es r. msg_parse_frame J f = Inr (MMsg x) \<and> ms_v x = NET_PROTOCOL_VERSION
        \<and> bundle_word P s x sdr ts es (Some r) \<and> fresh now ts \<and> secret = rk_secret r
        \<and> kept = map fst es \<and> ss_device_id s \<in> set kept))
   \<and> (ARemovedBy sdr \<in> set (asked (handle_frame J P rnd f now s)) \<longleftrightarrow>
      (\<exists>x ts es. msg_parse_frame J f = Inr (MMsg x) \<and> ms_v x = NET_PROTOCOL_VERSION
        \<and> bundle_word P s x sdr ts es None \<and> ss_device_id s \<notin> set (map fst es)))"
proof -
  have "ss_device_id s \<in> set (map fst es)" if "bundle_word P s x sdr ts es (Some r)" for x ts es r
    using that opened_ts unfolding bundle_word_def by blast
  moreover have "ss_device_id s \<notin> set (map fst es)" if "bundle_word P s x sdr ts es None" for x ts es
    using that opened_None unfolding bundle_word_def by blast
  ultimately show ?thesis unfolding in_asked_frame asked_rekeyed asked_removed by fastforce
qed

text \<open>C9: Until the relay has said that it accepted this device, nothing it sends is written, listed, acted
  on or remembered: a frame that is not that answer leaves the guards, the devices, the assembly and
  the windows as they were, and asks the caller at most to answer and to report.\<close>

theorem session_inert_before_auth:
  assumes "ss_phase s \<noteq> Ready" and "\<forall>ok. msg_parse_frame J f \<noteq> Inr (MAuthOk ok)"
    and "handle_frame J P rnd f now s = (r, s')"
  shows "ss_phase s' \<noteq> Ready \<and> ss_replay s' = ss_replay s \<and> ss_echo s' = ss_echo s \<and> ss_known s' = ss_known s
    \<and> ss_assembly s' = ss_assembly s \<and> ss_msg_seen s' = ss_msg_seen s
    \<and> ss_announce_seen s' = ss_announce_seen s
    \<and> (\<forall>acts a. r = Inr acts \<longrightarrow> a \<in> set acts \<longrightarrow> (case a of
         ASend _ \<Rightarrow> True | AAuthFailed _ \<Rightarrow> True | APresence _ \<Rightarrow> True | ARelayError _ _ \<Rightarrow> True
       | AClockSkew _ \<Rightarrow> True | _ \<Rightarrow> False))"
proof -
  define same where "same t \<longleftrightarrow> ss_phase t \<noteq> Ready \<and> ss_replay t = ss_replay s \<and> ss_echo t = ss_echo s
    \<and> ss_known t = ss_known s \<and> ss_assembly t = ss_assembly s \<and> ss_msg_seen t = ss_msg_seen s
    \<and> ss_announce_seen t = ss_announce_seen s" for t :: session
  have msg: "same t" if "on_message J P rnd m now s = (q, t)" "\<forall>ok. m \<noteq> MAuthOk ok" for m q t
  proof (cases m)
    case (MPresence x)
    then show ?thesis
      using that assms(1) quiet_fields [OF introduce_quiet, of J P rnd now "[APresence (pr_peers x)]" "s\<lparr>ss_peers := pr_peers x\<rparr>"]
      by (auto simp: same_def Let_def split: if_split_asm)
  next
    case (MChallenge c)
    then show ?thesis using that assms(1)
      by (auto simp: same_def on_challenge_def auth_inputs_def Let_def sbind_def crypto_def
          split: if_split_asm option.split_asm sum.split_asm prod.split_asm)
  qed (use that assms(1) in \<open>auto simp: same_def on_clip_def on_chunk_def on_msg_def on_announce_def
      sbind_def split: if_split_asm sum.split_asm\<close>)
  have "same s'"
    using assms(2,3) msg assms(1)
    by (auto simp: handle_frame_def sbind_def same_def split: sum.split_asm if_split_asm)
  moreover have "case a of ASend _ \<Rightarrow> True | AAuthFailed _ \<Rightarrow> True | APresence _ \<Rightarrow> True
      | ARelayError _ _ \<Rightarrow> True | AClockSkew _ \<Rightarrow> True | _ \<Rightarrow> False"
    if racts: "r = Inr acts" and acts: "a \<in> set acts" for acts a
  proof -
    obtain m where m: "msg_parse_frame J f = Inr m" "on_message J P rnd m now s = (Inr acts, s')"
      using assms(3) racts by (auto simp: handle_frame_Inr)
    then have "caused P s now m a" using on_message_caused acts by blast
    then show ?thesis using assms(1,2) m(1)
      by (cases a) (auto simp: clip_admitted_def dest: msg_opened_ready)
  qed
  ultimately show ?thesis by (simp add: same_def)
qed


section \<open>From one clipboard to the other\<close>

lemma observe_local_sent:
  assumes "observe_local J P (Some m) (Some n) text now a = (Inr (Some f), a')"
  shows "ss_phase a = Ready" "is_syncable (normalize text)" "ss_seq a' = sat_add (ss_seq a) 1"
    "\<exists>sealed. clip_seal P (Some n) (key_of P a (ss_epoch a)) (ss_epoch a) (room_bytes a) m
        \<lparr>i_content_type = Text, i_device_id = ss_device_id a, i_seq = sat_add (ss_seq a) 1, i_ts_ms = now,
         i_content = utf8 (normalize text)\<rparr> = Inr sealed
      \<and> to_frame J (MClip \<lparr>cl_v = NET_PROTOCOL_VERSION, cl_room = room a, cl_epoch = ss_epoch a, cl_msg_id = m,
          cl_n = s_nonce sealed, cl_ct = s_ciphertext sealed, cl_retained = None, cl_stored_at = None\<rparr>) = Inr f"
proof -
  obtain b where "send_clip J P (Some m) (Some n) (normalize text) now b = (Inr (Some f), a')"
    "\<exists>g. b = a\<lparr>ss_echo := g\<rparr>" "ss_phase a = Ready" "is_syncable (normalize text)"
    using assms by (auto simp: observe_local_def Let_def split: if_split_asm option.split_asm prod.split_asm)
  then show "ss_phase a = Ready" "is_syncable (normalize text)" "ss_seq a' = sat_add (ss_seq a) 1"
    "\<exists>sealed. clip_seal P (Some n) (key_of P a (ss_epoch a)) (ss_epoch a) (room_bytes a) m
        \<lparr>i_content_type = Text, i_device_id = ss_device_id a, i_seq = sat_add (ss_seq a) 1, i_ts_ms = now,
         i_content = utf8 (normalize text)\<rparr> = Inr sealed
      \<and> to_frame J (MClip \<lparr>cl_v = NET_PROTOCOL_VERSION, cl_room = room a, cl_epoch = ss_epoch a, cl_msg_id = m,
          cl_n = s_nonce sealed, cl_ct = s_ciphertext sealed, cl_retained = None, cl_stored_at = None\<rparr>) = Inr f"
    by (auto simp: send_clip_def Let_def sbind_Inr key_of_def room_bytes_def room_def)
qed

lemma remembered_swallowed:
  assumes "\<not> is_expired g now t"
  shows "fst (take_echo (remember g h now) h t)"
proof -
  have "(h, now) \<in> set (entries (expire (remember g h now) t))"
    by (rule expire_keeps_fresh [OF remember_remembers])
      (use assms in \<open>simp add: is_expired_def remember_def Let_def\<close>)
  then show ?thesis by (force simp: take_echo_result remembered_def)
qed


section \<open>Witnesses\<close>

text \<open>A JSON library that knows one message.\<close>

definition one_json :: "message \<Rightarrow> json" where
  "one_json m = \<lparr>j_message = (\<lambda>f. if f = ''f'' then Some m else None), j_kind = (\<lambda>f. None),
     j_write = (\<lambda>m'. if m' = m then Some ''f'' else None)\<rparr>"

lemma one_json_ok: "json_ok (one_json m)"
  by (simp add: json_ok_def one_json_def)

lemma one_json_parse [simp]:
  "msg_parse_frame (one_json m) ''f'' = Inr m" "to_frame (one_json m) m = Inr ''f''"
  by (simp_all add: msg_parse_frame_def to_frame_def one_json_def)

definition ex_session :: "nat \<Rightarrow> session" where
  "ex_session d = (session_new (from_secret toy_prims [1]) (ex_dev d) 0)\<lparr>ss_phase := Ready\<rparr>"

definition ex_known :: known_device where
  "ex_known = \<lparr>kd_device_id = ex_dev 2, kd_sign_pub = [4], kd_box_pub = [5], kd_conn_id = None, kd_name = [],
     kd_os = [], kd_ts_ms = 9\<rparr>"


lemma session_inert_before_auth_witness:
  "ss_replay (snd (handle_frame (one_json (MPresence \<lparr>pr_v = 1, pr_peers = 3\<rparr>)) toy_prims (\<lambda>_. None) ''f'' 5
      (session_new (from_secret toy_prims [1]) (ex_dev 1) 0)))
    = replay_new (ex_dev 1) DEFAULT_RETENTION_MS"
  using session_inert_before_auth [of "session_new (from_secret toy_prims [1]) (ex_dev 1) 0"
      "one_json (MPresence \<lparr>pr_v = 1, pr_peers = 3\<rparr>)" "''f''" toy_prims "\<lambda>_. None" 5]
  by (simp add: session_new_def prod_eq_iff)

lemma ex_texts:
  "normalize [104, 10, 105] = [104, 10, 105]" "normalize [104, 13, 10, 105] = [104, 10, 105]"
  "is_syncable [104, 10, 105]" "str_ok [104, 10, 105]" "length (utf8 [104, 10, 105]) = 3"
  by (simp_all add: normalize_def strip_bom_def strip_nul_def skip_lf_def Let_def is_syncable_def trim_def
      trim_start_def trim_end_def is_whitespace_def str_ok_def is_scalar_def utf8_char_def)

text \<open>A copy that makes a frame.\<close>

definition ex_json :: "sealed \<Rightarrow> json" where
  "ex_json sealed = one_json (MClip \<lparr>cl_v = NET_PROTOCOL_VERSION, cl_room = room (ex_session 1),
     cl_epoch = ss_epoch (ex_session 1), cl_msg_id = ex_dev 7, cl_n = s_nonce sealed, cl_ct = s_ciphertext sealed,
     cl_retained = None, cl_stored_at = None\<rparr>)"

lemma ex_observed:
  obtains J where "json_ok J" "observe_local J toy_prims (Some (ex_dev 7)) (Some (replicate 24 7)) [104, 10, 105] 5 (ex_session 1)
    = (Inr (Some ''f''), (ex_session 1)\<lparr>ss_seq := 1\<rparr>)"
proof -
  let ?a = "ex_session 1" and ?m = "ex_dev 7" and ?n = "replicate 24 7 :: bytes"
  obtain sealed where s: "clip_seal toy_prims (Some ?n) (key_of toy_prims ?a (ss_epoch ?a)) (ss_epoch ?a)
      (room_bytes ?a) ?m \<lparr>i_content_type = Text, i_device_id = ss_device_id ?a, i_seq = 1, i_ts_ms = 5,
        i_content = utf8 [104, 10, 105]\<rparr> = Inr sealed"
    by (simp add: clip_seal_def seal_with_nonce_def seal_typed_def Let_def) (simp add: toy_prims_def)
  have one: "sat_add (0 :: u64) 1 = 1" by (simp add: sat_add_def)
  have "observe_local (ex_json sealed) toy_prims (Some ?m) (Some ?n) [104, 10, 105] 5 ?a
      = (Inr (Some ''f''), ?a\<lparr>ss_seq := 1\<rparr>)"
    using s one
    by (simp add: observe_local_def ex_texts Let_def take_echo_def expire_def ex_session_def session_new_def
        echo_default_def send_clip_def crypto_def ex_json_def key_of_def room_bytes_def room_def)
  moreover have "json_ok (ex_json sealed)" by (simp add: ex_json_def one_json_ok)
  ultimately show thesis by (rule that [rotated])
qed


end
