(* ===== verification/History.thy ===== *)
theory History
  imports Clip
begin

text \<open>
  The encrypted clipboard history, \<open>crates/asli-history/src/lib.rs\<close>, \<open>key.rs\<close> and \<open>error.rs\<close>: the store
  in memory and the file it keeps, recording, moving, evicting and deleting entries, the file's framing,
  and the one line preview of a list row. The file system is an outcome that each operation takes: a
  write through a temporary file either replaces the file or leaves it, and overwriting before removal
  either removes it or leaves what the failure left. The nonces of the records are draws.
\<close>

section \<open>Errors\<close>

datatype hist_error =
    HistIo string
  | HistCrypto error
  | HistMalformed
  | HistUnsupportedVersion byte
  | HistNotFound
  | HistBadConfig string

fun hist_display :: "hist_error \<Rightarrow> string" where
  "hist_display (HistIo err) = ''history file error: '' @ err"
| "hist_display (HistCrypto err) = ''history could not be decrypted: '' @ display err"
| "hist_display HistMalformed = ''the history file is malformed''"
| "hist_display (HistUnsupportedVersion v) =
     ''history format version '' @ decimal (unat v) @ '' is from a newer build''"
| "hist_display HistNotFound = ''no such history entry''"
| "hist_display (HistBadConfig what) = ''invalid history configuration: '' @ what"

section \<open>The key\<close>

definition LABEL_HIST_SALT :: bytes where [asli_const]: "LABEL_HIST_SALT = ascii ''asli/v1/root-salt''"
definition LABEL_HISTORY :: bytes where [asli_const]: "LABEL_HISTORY = ascii ''asli/v1/history''"
definition HIST_KEY_LEN :: nat where [asli_const]: "HIST_KEY_LEN = 32"

definition history_key :: "prims \<Rightarrow> bytes \<Rightarrow> bytes" where
  "history_key P secret =
     (let prk = p_hkdf_extract P LABEL_HIST_SALT secret in p_hkdf_expand P prk LABEL_HISTORY HIST_KEY_LEN)"

section \<open>Constants\<close>

definition MAGIC :: bytes where [asli_const]: "MAGIC = ascii ''ASLIHIST''"
definition FORMAT_VERSION :: byte where [asli_const]: "FORMAT_VERSION = 1"
definition HEADER_LEN :: nat where [asli_const]: "HEADER_LEN = 8 + 1"
definition ID_LEN :: nat where [asli_const]: "ID_LEN = 16"
definition MAX_RECORD_BYTES :: nat where "MAX_RECORD_BYTES = 64 * 1024 * 1024"
definition MIN_RECORD_BYTES :: nat where [asli_const]: "MIN_RECORD_BYTES = ID_LEN + NONCE_LEN + TAG_LEN"
definition PREVIEW_CHARS :: nat where [asli_const]: "PREVIEW_CHARS = 120"
definition HIST_ROOM :: bytes where [asli_const]: "HIST_ROOM = ascii ''asli/history/v1'' @ [0]"

section \<open>Previews\<close>

abbreviation ELLIPSIS :: uchar where "ELLIPSIS \<equiv> 0x2026"
abbreviation SPACE :: uchar where "SPACE \<equiv> 0x20"

text \<open>Dropping what the ellipsis displaces, and any space left at the end.\<close>

function shrink :: "ustr \<Rightarrow> nat \<Rightarrow> ustr" where
  "shrink out count =
     (if count + 1 > PREVIEW_CHARS \<or> (out \<noteq> [] \<and> last out = SPACE)
      then shrink (butlast out) (count - 1) else out)"
  by pat_completeness auto
termination
  by (relation "measure (\<lambda>(out, count). length out + count)") (auto simp: PREVIEW_CHARS_def neq_Nil_conv)

declare shrink.simps [simp del]

fun preview_loop :: "ustr \<Rightarrow> ustr \<Rightarrow> nat \<Rightarrow> bool \<Rightarrow> ustr" where
  "preview_loop [] out count gap = out"
| "preview_loop (c # cs) out count gap =
     (if is_whitespace c \<or> is_control c then preview_loop cs out count (count > 0)
      else
        let needed = (if gap then 1 else 0) + 1 in
        if count + needed > PREVIEW_CHARS then shrink out count @ [ELLIPSIS]
        else preview_loop cs ((if gap then out @ [SPACE] else out) @ [c]) (count + needed) False)"

definition preview :: "ustr \<Rightarrow> ustr" where
  "preview text = preview_loop text [] 0 False"

text \<open>\<open>str::lines\<close>: the pieces between line feeds, the last one only when it is not empty, each without the
  carriage return before its line feed.\<close>

definition strip_cr :: "ustr \<Rightarrow> ustr" where
  "strip_cr l = (if l \<noteq> [] \<and> last l = 13 then butlast l else l)"

lemma dropWhile_shorter: "dropWhile p s = x # r \<Longrightarrow> length r < length s"
  by (metis Suc_le_lessD length_Cons length_dropWhile_le)

function str_lines :: "ustr \<Rightarrow> ustr list" where
  "str_lines s =
     (if s = [] then []
      else case dropWhile (\<lambda>c. c \<noteq> 10) s of
        [] \<Rightarrow> [s]
      | _ # rest \<Rightarrow> strip_cr (takeWhile (\<lambda>c. c \<noteq> 10) s) # str_lines rest)"
  by pat_completeness auto
termination
  by (relation "measure length") (auto dest: dropWhile_shorter)

declare str_lines.simps [simp del]

definition line_count :: "ustr \<Rightarrow> nat" where
  "line_count text = length (str_lines (trim text))"

section \<open>Contents and entries\<close>

datatype content = CText ustr | CImage bytes

fun content_len :: "content \<Rightarrow> nat" where
  "content_len (CText text) = str_len text"
| "content_len (CImage bs) = length bs"

definition content_empty :: "content \<Rightarrow> bool" where
  "content_empty c \<longleftrightarrow> content_len c = 0"

fun is_image :: "content \<Rightarrow> bool" where
  "is_image (CImage _) = True"
| "is_image (CText _) = False"

fun kind_label :: "content \<Rightarrow> string" where
  "kind_label (CText _) = ''text''"
| "kind_label (CImage _) = ''image/png''"

fun type_of_content :: "content \<Rightarrow> content_type" where
  "type_of_content (CText _) = Text"
| "type_of_content (CImage _) = ImagePng"

fun content_bytes :: "content \<Rightarrow> bytes" where
  "content_bytes (CText text) = utf8 text"
| "content_bytes (CImage bs) = bs"

fun content_from_parts :: "content_type \<Rightarrow> bytes \<Rightarrow> hist_error + content" where
  "content_from_parts Text bs = map_err (\<lambda>_. HistMalformed) (ok_or () (map_option CText (from_utf8 bs)))"
| "content_from_parts ImagePng bs = Inr (CImage bs)"

datatype appended =
    Stored bytes
  | AlreadyNewest bytes
  | MovedToTop bytes
  | RefusedSensitive
  | RefusedEmpty
  | RefusedTooLarge nat nat

fun appended_id :: "appended \<Rightarrow> bytes option" where
  "appended_id (Stored i) = Some i"
| "appended_id (AlreadyNewest i) = Some i"
| "appended_id (MovedToTop i) = Some i"
| "appended_id _ = None"

fun appended_changed :: "appended \<Rightarrow> bool" where
  "appended_changed (Stored i) = True"
| "appended_changed (MovedToTop i) = True"
| "appended_changed _ = False"

datatype entry_kind = KText | KImage

record summary =
  su_id :: bytes
  su_ts_ms :: u64
  su_kind :: entry_kind
  su_bytes :: nat
  su_preview :: ustr
  su_lines :: nat
  su_device_id :: bytes

record hist_limits =
  max_entries :: nat
  max_text_bytes :: nat
  max_image_bytes :: nat
  max_entry_bytes :: nat

definition hist_limits_default :: hist_limits where
  "hist_limits_default = \<lparr>max_entries = 100, max_text_bytes = 2 * 1024 * 1024,
     max_image_bytes = 16 * 1024 * 1024, max_entry_bytes = 8 * 1024 * 1024\<rparr>"

definition validate_limits :: "hist_limits \<Rightarrow> hist_error + hist_limits" where
  "validate_limits l =
     (if max_entries l = 0 then Inl (HistBadConfig ''max_entries must be at least 1'')
      else if max_entry_bytes l = 0 then Inl (HistBadConfig ''max_entry_bytes must be at least 1'')
      else Inr l)"

record entry =
  e_id :: bytes
  e_ts_ms :: u64
  e_content :: content
  e_device_id :: bytes

definition entry_summary :: "entry \<Rightarrow> summary" where
  "entry_summary e =
     (let (k, p, n) = (case e_content e of
            CText text \<Rightarrow> (KText, preview text, line_count text)
          | CImage _ \<Rightarrow> (KImage, [], 0))
      in \<lparr>su_id = e_id e, su_ts_ms = e_ts_ms e, su_kind = k, su_bytes = content_len (e_content e),
          su_preview = p, su_lines = n, su_device_id = e_device_id e\<rparr>)"

section \<open>The file\<close>

definition entry_inner :: "entry \<Rightarrow> inner" where
  "entry_inner e = \<lparr>i_content_type = type_of_content (e_content e), i_device_id = e_device_id e, i_seq = 0,
     i_ts_ms = e_ts_ms e, i_content = content_bytes (e_content e)\<rparr>"

definition encode_record :: "prims \<Rightarrow> bytes \<Rightarrow> rand \<Rightarrow> entry \<Rightarrow> hist_error + bytes" where
  "encode_record P key r e =
     ebind (map_err HistCrypto (clip_seal P r key 0 HIST_ROOM (e_id e) (entry_inner e))) (\<lambda>s.
       let len = ID_LEN + NONCE_LEN + length (s_ciphertext s) in
       if \<not> len < 2 ^ 32 then Inl HistMalformed
       else Inr (u32_be (of_nat len) @ e_id e @ s_nonce s @ s_ciphertext s))"

text \<open>The loop over the entries; \<open>rnd i\<close> is the nonce of the \<open>i\<close>-th.\<close>

fun encode_records :: "prims \<Rightarrow> bytes \<Rightarrow> (nat \<Rightarrow> rand) \<Rightarrow> nat \<Rightarrow> entry list \<Rightarrow> hist_error + bytes" where
  "encode_records P key rnd n [] = Inr []"
| "encode_records P key rnd n (e # es) =
     ebind (encode_record P key (rnd n) e) (\<lambda>r.
     ebind (encode_records P key rnd (Suc n) es) (\<lambda>rs. Inr (r @ rs)))"

definition encode_all :: "prims \<Rightarrow> bytes \<Rightarrow> (nat \<Rightarrow> rand) \<Rightarrow> entry list \<Rightarrow> hist_error + bytes" where
  "encode_all P key rnd es =
     ebind (encode_records P key rnd 0 es) (\<lambda>rs. Inr (MAGIC @ [FORMAT_VERSION] @ rs))"

definition decode_record :: "prims \<Rightarrow> bytes \<Rightarrow> bytes \<Rightarrow> hist_error + entry" where
  "decode_record P key record =
     (let i = take ID_LEN record;
          nonce = slice ID_LEN NONCE_LEN record;
          ciphertext = drop (ID_LEN + NONCE_LEN) record
      in ebind (map_err HistCrypto (clip_open P key 0 HIST_ROOM i nonce ciphertext)) (\<lambda>x.
         ebind (content_from_parts (i_content_type x) (fst (take_content x))) (\<lambda>c.
           Inr \<lparr>e_id = i, e_ts_ms = i_ts_ms x, e_content = c, e_device_id = i_device_id x\<rparr>)))"

text \<open>The loop over the rest of the file.\<close>

function decode_records :: "prims \<Rightarrow> bytes \<Rightarrow> bytes \<Rightarrow> hist_error + entry list" where
  "decode_records P key rest =
     (if length rest < 4 then Inr []
      else
        let len = unat (be_u32 (take 4 rest)); rest = drop 4 rest in
        if \<not> (MIN_RECORD_BYTES \<le> len \<and> len \<le> MAX_RECORD_BYTES) then Inl HistMalformed
        else if length rest < len then Inr []
        else
          ebind (decode_record P key (take len rest)) (\<lambda>e.
          ebind (decode_records P key (drop len rest)) (\<lambda>es. Inr (e # es))))"
  by pat_completeness auto
termination
  by (relation "measure (\<lambda>(P, key, rest). length rest)") auto

declare decode_records.simps [simp del]

definition decode_all :: "prims \<Rightarrow> bytes \<Rightarrow> bytes \<Rightarrow> hist_error + entry list" where
  "decode_all P raw key =
     (if raw = [] then Inr []
      else if length raw < HEADER_LEN \<or> take (length MAGIC) raw \<noteq> MAGIC then Inl HistMalformed
      else
        let version = raw ! length MAGIC in
        if version \<noteq> FORMAT_VERSION then Inl (HistUnsupportedVersion version)
        else decode_records P key (drop HEADER_LEN raw))"

section \<open>The store\<close>

record store =
  st_key :: bytes
  st_limits :: hist_limits
  st_entries :: "entry list"
  st_file :: "bytes option"

text \<open>How a write ends: the rename went through, or an error with the old file in place.\<close>

datatype io_write = Written | WriteFailed string

text \<open>How overwriting and removing a file ends: it is gone, or an error with what is left of it.\<close>

datatype io_shred = Removed | ShredFailed string "bytes option"

type_synonym 'a st_outcome = "(hist_error + 'a) \<times> store"

definition persist :: "prims \<Rightarrow> (nat \<Rightarrow> rand) \<Rightarrow> io_write \<Rightarrow> store \<Rightarrow> unit st_outcome" where
  "persist P rnd io st =
     (case encode_all P (st_key st) rnd (st_entries st) of
        Inl e \<Rightarrow> (Inl e, st)
      | Inr buf \<Rightarrow>
          (case io of
             Written \<Rightarrow> (Inr (), st\<lparr>st_file := Some buf\<rparr>)
           | WriteFailed msg \<Rightarrow> (Inl (HistIo msg), st)))"

text \<open>The writes of the overwriting loop, each at most 64 KiB of zeros.\<close>

function shred_chunks :: "nat \<Rightarrow> nat \<Rightarrow> nat list" where
  "shred_chunks len written =
     (if written < len
      then let chunk = min (len - written) (64 * 1024) in chunk # shred_chunks len (written + chunk)
      else [])"
  by pat_completeness auto
termination
  by (relation "measure (\<lambda>(len, written). len - written)") auto

declare shred_chunks.simps [simp del]

text \<open>What the file holds after the writes, before it is removed.\<close>

definition overwrite :: "bytes \<Rightarrow> nat list \<Rightarrow> bytes" where
  "overwrite content chunks =
     (let z = concat (map (\<lambda>n. replicate n 0) chunks) in z @ drop (length z) content)"

definition shred :: "io_shred \<Rightarrow> store \<Rightarrow> unit st_outcome" where
  "shred io st =
     (case io of
        Removed \<Rightarrow> (Inr (), st\<lparr>st_file := None\<rparr>)
      | ShredFailed msg left \<Rightarrow> (Inl (HistIo msg), st\<lparr>st_file := left\<rparr>))"

definition wipe_file :: "io_shred \<Rightarrow> store \<Rightarrow> unit st_outcome" where
  "wipe_file io st = (if st_file st \<noteq> None then shred io st else (Inr (), st))"

text \<open>Opening reads the file that is there; \<open>read\<close> is the error of reading it, if any.\<close>

definition store_open ::
    "prims \<Rightarrow> string option \<Rightarrow> bytes option \<Rightarrow> bytes \<Rightarrow> hist_limits \<Rightarrow> hist_error + store" where
  "store_open P read file secret limits =
     ebind (validate_limits limits) (\<lambda>limits.
     let key = history_key P secret in
     ebind (case file of
         Some raw \<Rightarrow> (case read of Some msg \<Rightarrow> Inl (HistIo msg) | None \<Rightarrow> decode_all P raw key)
       | None \<Rightarrow> Inr []) (\<lambda>entries.
       Inr \<lparr>st_key = key, st_limits = limits, st_entries = entries, st_file = file\<rparr>))"

text \<open>Opening, discarding a file that cannot be read. The error is with what was left of the file.\<close>

definition discardable :: "hist_error \<Rightarrow> bool" where
  "discardable e \<longleftrightarrow> (case e of HistCrypto _ \<Rightarrow> True | HistMalformed \<Rightarrow> True
     | HistUnsupportedVersion _ \<Rightarrow> True | _ \<Rightarrow> False)"

definition open_or_reset ::
    "prims \<Rightarrow> string option \<Rightarrow> io_shred \<Rightarrow> bytes option \<Rightarrow> bytes \<Rightarrow> hist_limits
      \<Rightarrow> hist_error + store \<times> hist_error option" where
  "open_or_reset P read io file secret limits =
     (case store_open P read file secret limits of
        Inr st \<Rightarrow> Inr (st, None)
      | Inl err \<Rightarrow>
          if \<not> discardable err then Inl err
          else
            ebind (case (file, io) of (Some _, ShredFailed msg _) \<Rightarrow> Inl (HistIo msg) | _ \<Rightarrow> Inr ()) (\<lambda>_.
            ebind (store_open P read None secret limits) (\<lambda>st. Inr (st, Some err))))"

definition st_len :: "store \<Rightarrow> nat" where "st_len st = length (st_entries st)"
definition st_is_empty :: "store \<Rightarrow> bool" where "st_is_empty st \<longleftrightarrow> st_entries st = []"

section \<open>Eviction\<close>

definition kind_total :: "bool \<Rightarrow> entry list \<Rightarrow> nat" where
  "kind_total images es =
     sum_list (map (\<lambda>e. content_len (e_content e)) (filter (\<lambda>e. is_image (e_content e) = images) es))"

text \<open>Removing the last entry of a kind, \<open>rposition\<close> and \<open>remove\<close>; \<open>None\<close> where there is none.\<close>

fun remove_last_kind :: "bool \<Rightarrow> entry list \<Rightarrow> entry list option" where
  "remove_last_kind images [] = None"
| "remove_last_kind images (e # es) =
     (case remove_last_kind images es of
        Some es' \<Rightarrow> Some (e # es')
      | None \<Rightarrow> if is_image (e_content e) = images then Some es else None)"

lemma remove_last_kind_length: "remove_last_kind images es = Some es' \<Longrightarrow> length es = Suc (length es')"
  by (induction es arbitrary: es') (auto split: option.splits if_splits)

function evict_by_budget :: "bool \<Rightarrow> nat \<Rightarrow> entry list \<Rightarrow> entry list" where
  "evict_by_budget images budget es =
     (if kind_total images es > budget
      then case remove_last_kind images es of None \<Rightarrow> es | Some es' \<Rightarrow> evict_by_budget images budget es'
      else es)"
  by pat_completeness auto
termination
  by (relation "measure (\<lambda>(images, budget, es). length es)") (auto dest: remove_last_kind_length)

declare evict_by_budget.simps [simp del]

text \<open>The loop that pops while there are too many entries leaves the first of them.\<close>

function evict_count :: "nat \<Rightarrow> entry list \<Rightarrow> entry list" where
  "evict_count cap es = (if length es > cap then evict_count cap (butlast es) else es)"
  by pat_completeness auto
termination
  by (relation "measure (\<lambda>(cap, es). length es)") auto

declare evict_count.simps [simp del]

definition evict :: "hist_limits \<Rightarrow> entry list \<Rightarrow> entry list" where
  "evict l es =
     (let es = evict_count (max_entries l) es;
          es = evict_by_budget False (max_text_bytes l) es
      in evict_by_budget True (max_image_bytes l) es)"

section \<open>Operations\<close>

text \<open>The first entry with this content, and the others.\<close>

fun take_content_entry :: "content \<Rightarrow> entry list \<Rightarrow> (entry \<times> entry list) option" where
  "take_content_entry c [] = None"
| "take_content_entry c (e # es) =
     (if e_content e = c then Some (e, es)
      else map_option (\<lambda>(x, xs). (x, e # xs)) (take_content_entry c es))"

definition append_from ::
    "prims \<Rightarrow> rand \<Rightarrow> (nat \<Rightarrow> rand) \<Rightarrow> io_write \<Rightarrow> content \<Rightarrow> bool \<Rightarrow> u64 \<Rightarrow> bytes \<Rightarrow> store
      \<Rightarrow> appended st_outcome" where
  "append_from P r_id rnd io c sensitive ts_ms device_id st =
     (if sensitive then (Inr RefusedSensitive, st)
      else if content_empty c then (Inr RefusedEmpty, st)
      else if content_len c > max_entry_bytes (st_limits st)
      then (Inr (RefusedTooLarge (content_len c) (max_entry_bytes (st_limits st))), st)
      else case take_content_entry c (st_entries st) of
        Some (e, others) \<Rightarrow>
          if e_content (hd (st_entries st)) = c then (Inr (AlreadyNewest (e_id (hd (st_entries st)))), st)
          else
            let st = st\<lparr>st_entries := e\<lparr>e_ts_ms := ts_ms, e_device_id := device_id\<rparr> # others\<rparr> in
            (case persist P rnd io st of
               (Inl err, st) \<Rightarrow> (Inl err, st)
             | (Inr _, st) \<Rightarrow> (Inr (MovedToTop (e_id e)), st))
      | None \<Rightarrow>
          (case random_bytes r_id of
             Inl err \<Rightarrow> (Inl (HistCrypto err), st)
           | Inr new_id \<Rightarrow>
               let st = st\<lparr>st_entries := evict (st_limits st)
                     (\<lparr>e_id = new_id, e_ts_ms = ts_ms, e_content = c, e_device_id = device_id\<rparr> # st_entries st)\<rparr> in
               (case persist P rnd io st of
                  (Inl err, st) \<Rightarrow> (Inl err, st)
                | (Inr _, st) \<Rightarrow> (Inr (Stored new_id), st))))"

definition hist_append ::
    "prims \<Rightarrow> rand \<Rightarrow> (nat \<Rightarrow> rand) \<Rightarrow> io_write \<Rightarrow> content \<Rightarrow> bool \<Rightarrow> u64 \<Rightarrow> store \<Rightarrow> appended st_outcome" where
  "hist_append P r_id rnd io c sensitive ts_ms st =
     append_from P r_id rnd io c sensitive ts_ms (replicate DEVICE_ID_LEN 0) st"

definition hist_list :: "store \<Rightarrow> summary list" where
  "hist_list st = map entry_summary (st_entries st)"

definition list_recent :: "nat \<Rightarrow> store \<Rightarrow> summary list" where
  "list_recent limit st = map entry_summary (take limit (st_entries st))"

definition hist_get :: "bytes \<Rightarrow> store \<Rightarrow> hist_error + content" where
  "hist_get i st = ok_or HistNotFound (map_option e_content (find (\<lambda>e. e_id e = i) (st_entries st)))"

fun remove_entry :: "bytes \<Rightarrow> entry list \<Rightarrow> entry list option" where
  "remove_entry i [] = None"
| "remove_entry i (e # es) = (if e_id e = i then Some es else map_option ((#) e) (remove_entry i es))"

definition hist_remove ::
    "prims \<Rightarrow> (nat \<Rightarrow> rand) \<Rightarrow> io_write \<Rightarrow> bytes \<Rightarrow> store \<Rightarrow> unit st_outcome" where
  "hist_remove P rnd io i st =
     (case remove_entry i (st_entries st) of
        None \<Rightarrow> (Inl HistNotFound, st)
      | Some es \<Rightarrow> persist P rnd io (st\<lparr>st_entries := es\<rparr>))"

definition hist_clear :: "io_shred \<Rightarrow> store \<Rightarrow> unit st_outcome" where
  "hist_clear io st =
     (let st = st\<lparr>st_entries := []\<rparr> in if st_file st \<noteq> None then shred io st else (Inr (), st))"

definition hist_rekey :: "prims \<Rightarrow> (nat \<Rightarrow> rand) \<Rightarrow> io_write \<Rightarrow> bytes \<Rightarrow> store \<Rightarrow> unit st_outcome" where
  "hist_rekey P rnd io secret st =
     (let old = st_key st in
      case persist P rnd io (st\<lparr>st_key := history_key P secret\<rparr>) of
        (Inl err, st) \<Rightarrow> (Inl err, st\<lparr>st_key := old\<rparr>)
      | (Inr u, st) \<Rightarrow> (Inr u, st))"

end
