(* ===== verification/History_Props.thy ===== *)
theory History_Props
  imports History "HOL-Library.Sublist"
begin

text \<open>
  What the history promises: a file reads back as the entries it was written from, a torn one as the
  first of them; eviction keeps the newest of each kind within its own budget; the store never holds a
  content twice, nor more than its caps, nor anything marked sensitive; and a preview is one line.
\<close>

section \<open>Previews against a reference\<close>

abbreviation blank :: "uchar \<Rightarrow> bool" where "blank c \<equiv> is_whitespace c \<or> is_control c"

text \<open>The text with every run of blank characters inside it as one space and none around it.\<close>

fun squeeze :: "ustr \<Rightarrow> ustr" where
  "squeeze [] = []"
| "squeeze (c # cs) =
     (if blank c then squeeze cs
      else c # (if cs \<noteq> [] \<and> blank (hd cs) \<and> squeeze cs \<noteq> [] then SPACE # squeeze cs else squeeze cs))"

definition rtrim_space :: "ustr \<Rightarrow> ustr" where
  "rtrim_space s = rev (dropWhile (\<lambda>c. c = SPACE) (rev s))"

lemma rtrim_space_simps [simp]:
  "rtrim_space [] = []" "rtrim_space (s @ [c]) = (if c = SPACE then rtrim_space s else s @ [c])"
  by (simp_all add: rtrim_space_def)

lemma shrink_rtrim: "length out < 120 \<Longrightarrow> shrink out (length out) = rtrim_space out"
proof (induction out rule: rev_induct)
  case Nil
  then show ?case by (subst shrink.simps) (simp add: PREVIEW_CHARS_def)
next
  case (snoc c out)
  then show ?case by (subst shrink.simps) (simp add: PREVIEW_CHARS_def)
qed

lemma shrink_full: "length out \<le> 120 \<Longrightarrow> shrink out (length out) = rtrim_space (take 119 out)"
proof (cases "length out = 120")
  case True
  then have "shrink out (length out) = shrink (butlast out) (length (butlast out))"
    by (subst shrink.simps) (simp add: PREVIEW_CHARS_def)
  then show ?thesis using shrink_rtrim [of "butlast out"] True by (simp add: butlast_conv_take)
qed (simp add: shrink_rtrim)

text \<open>What the loop still has to add, when something has been written and a gap may be pending.\<close>

definition pending :: "bool \<Rightarrow> ustr \<Rightarrow> ustr" where
  "pending gap cs =
     (if squeeze cs = [] then [] else if gap \<or> blank (hd cs) then SPACE # squeeze cs else squeeze cs)"

lemma squeeze_nonblank: "\<not> blank c \<Longrightarrow> squeeze (c # cs) = c # pending False cs"
  by (cases cs) (auto simp: pending_def)

lemma preview_loop_started:
  "out \<noteq> [] \<Longrightarrow> length out \<le> 120 \<Longrightarrow> preview_loop cs out (length out) gap =
    (let s = out @ pending gap cs in if length s \<le> 120 then s else rtrim_space (take 119 s) @ [ELLIPSIS])"
proof (induction cs arbitrary: out gap)
  case Nil
  then show ?case by (simp add: pending_def)
next
  case (Cons c cs)
  show ?case
  proof (cases "blank c")
    case True
    have "pending gap (c # cs) = pending True cs" using True by (auto simp: pending_def)
    then show ?thesis using Cons True by auto
  next
    case False
    define out' where "out' = (if gap then out @ [SPACE] else out) @ [c]"
    have p: "out @ pending gap (c # cs) = out' @ pending False cs"
      using False by (simp add: out'_def pending_def [of gap "c # cs"] squeeze_nonblank del: squeeze.simps)
    have len: "length out' = length out + ((if gap then 1 else 0) + 1)" by (simp add: out'_def)
    show ?thesis
    proof (cases "length out' > 120")
      case True
      have "preview_loop (c # cs) out (length out) gap = shrink out (length out) @ [ELLIPSIS]"
        using False True len by (simp add: PREVIEW_CHARS_def Let_def)
      moreover have "take 119 (out' @ pending False cs) = take 119 out"
        using True len Cons.prems(2) by (cases gap) (auto simp: out'_def)
      ultimately show ?thesis using True p shrink_full [OF Cons.prems(2)] by (simp add: Let_def)
    next
      case small: False
      have "preview_loop (c # cs) out (length out) gap = preview_loop cs out' (length out') False"
        using False small len by (simp add: PREVIEW_CHARS_def Let_def out'_def)
      then show ?thesis using Cons.IH [of out' False] small p by (simp add: out'_def)
    qed
  qed
qed

lemma preview_reference_eq:
  "preview t = (if length (squeeze t) \<le> 120 then squeeze t
     else rtrim_space (take 119 (squeeze t)) @ [ELLIPSIS])"
  unfolding preview_def
proof (induction t)
  case Nil
  then show ?case by simp
next
  case (Cons c cs)
  show ?case
  proof (cases "blank c")
    case True
    then show ?thesis using Cons by auto
  next
    case False
    have "preview_loop (c # cs) [] 0 False = preview_loop cs [c] (length [c]) False"
      using False by (simp add: PREVIEW_CHARS_def)
    then show ?thesis using preview_loop_started [of "[c]" cs False] squeeze_nonblank [OF False, of cs]
      by (simp add: Let_def del: squeeze.simps)
  qed
qed

lemma squeeze_chars: "c \<in> set (squeeze s) \<Longrightarrow> c = SPACE \<or> \<not> blank c \<and> c \<in> set s"
  by (induction s) (auto split: if_splits)

lemma squeeze_ends: "squeeze s \<noteq> [] \<Longrightarrow> \<not> blank (hd (squeeze s)) \<and> \<not> blank (last (squeeze s))"
  by (induction s) auto

section \<open>The file read back\<close>

text \<open>An entry that the file can hold: fixed identifiers, text that is text, and a record under the cap.\<close>

definition entry_ok :: "entry \<Rightarrow> bool" where
  "entry_ok e \<longleftrightarrow> length (e_id e) = ID_LEN \<and> length (e_device_id e) = DEVICE_ID_LEN
     \<and> (case e_content e of CText t \<Rightarrow> str_ok t | CImage _ \<Rightarrow> True)
     \<and> padded_len (39 + content_len (e_content e)) + 56 \<le> MAX_RECORD_BYTES"

definition nonces_ok :: "(nat \<Rightarrow> rand) \<Rightarrow> bool" where
  "nonces_ok rnd \<longleftrightarrow> (\<forall>i n. rnd i = Some n \<longrightarrow> length n = NONCE_LEN)"

lemma length_content_bytes: "length (content_bytes c) = content_len c"
  by (cases c) (simp_all add: str_len_def)

lemma content_from_parts_of:
  "(case c of CText t \<Rightarrow> str_ok t | CImage _ \<Rightarrow> True) \<Longrightarrow>
    content_from_parts (type_of_content c) (content_bytes c) = Inr c"
  by (cases c) (simp_all add: from_utf8_utf8)

lemma encode_record_decodes:
  assumes "aead_ok P" "aead_tagged P" "entry_ok e" "nonces_ok rnd" "encode_record P key (rnd i) e = Inr r"
  obtains body where "r = u32_be (of_nat (length body)) @ body" "MIN_RECORD_BYTES \<le> length body"
    "length body \<le> MAX_RECORD_BYTES" "unat (of_nat (length body) :: u32) = length body"
    "decode_record P key body = Inr e"
proof -
  have max: "padded_len (39 + content_len (e_content e)) + 56 \<le> 67108864"
    using assms(3) by (simp add: entry_ok_def MAX_RECORD_BYTES_def)
  obtain s where s: "clip_seal P (rnd i) key 0 HIST_ROOM (e_id e) (entry_inner e) = Inr s"
    "r = u32_be (of_nat (ID_LEN + NONCE_LEN + length (s_ciphertext s))) @ e_id e @ s_nonce s @ s_ciphertext s"
    using assms(5) by (auto simp: encode_record_def ebind_Inr_iff Let_def split: if_split_asm)
  have iok: "inner_ok (entry_inner e)"
    using assms(3) max padded_len_ge [of "39 + content_len (e_content e)"]
    by (simp add: inner_ok_def entry_inner_def entry_ok_def length_content_bytes)
  obtain n ct where c: "rnd i = Some n" "s = \<lparr>s_nonce = n, s_ciphertext = ct\<rparr>"
    "seal_typed P TYPE_CLIP key 0 HIST_ROOM (e_id e) n (encode_inner (entry_inner e)) = Inr ct"
    using s(1) by (auto simp: clip_seal_def ebind_Inr_iff seal_with_nonce_def Let_def)
  have n: "length n = NONCE_LEN" using assms(4) c(1) by (simp add: nonces_ok_def)
  have i: "length (e_id e) = ID_LEN" using assms(3) by (simp add: entry_ok_def)
  have ct: "length ct = padded_len (39 + content_len (e_content e)) + 16"
    using c(3) aead_taggedD [OF assms(2)] length_encode_inner [OF iok]
    by (auto simp: seal_typed_def Let_def entry_inner_def length_content_bytes INNER_HEADER_LEN_def DEVICE_ID_LEN_def)
  define body where "body = e_id e @ n @ ct"
  have len: "length body = ID_LEN + NONCE_LEN + length ct" using i n by (simp add: body_def)
  have op: "clip_open P key 0 HIST_ROOM (e_id e) n ct = Inr (entry_inner e)"
    using open_seal_typed [OF assms(1) c(3)] decode_encode_inner [OF iok] by (simp add: clip_open_def)
  have parts: "content_from_parts (type_of_content (e_content e)) (content_bytes (e_content e)) = Inr (e_content e)"
    using assms(3) content_from_parts_of by (simp add: entry_ok_def)
  have "take ID_LEN body = e_id e" "slice ID_LEN NONCE_LEN body = n" "drop (ID_LEN + NONCE_LEN) body = ct"
    using i n by (simp_all add: body_def slice_def)
  then have "decode_record P key body = Inr e"
    using op parts by (simp add: decode_record_def entry_inner_def take_content_def)
  moreover have "length body \<le> 67108864" "56 \<le> length body"
    using len ct max by (simp_all add: ID_LEN_def NONCE_LEN_def)
  moreover have "r = u32_be (of_nat (ID_LEN + NONCE_LEN + length ct)) @ body"
    using s(2) c(2) by (simp add: body_def)
  then have "r = u32_be (of_nat (length body)) @ body" by (simp only: len)
  moreover have "unat (of_nat (length body) :: u32) = length body"
    using calculation(2) by (simp only: unat_of_nat) simp
  ultimately show ?thesis
    using that [of body] by (simp add: MIN_RECORD_BYTES_def MAX_RECORD_BYTES_def ID_LEN_def NONCE_LEN_def TAG_LEN_def)
qed

lemma decode_records_take:
  assumes "aead_ok P" "aead_tagged P" "nonces_ok rnd"
  shows "encode_records P key rnd i es = Inr rs \<Longrightarrow> list_all entry_ok es \<Longrightarrow>
    \<exists>k. decode_records P key (take n rs) = Inr (take k es) \<and> (length rs \<le> n \<longrightarrow> length es \<le> k)"
proof (induction es arbitrary: i rs n)
  case Nil
  then show ?case by (subst decode_records.simps) simp
next
  case (Cons e es)
  then obtain r rs' where r: "encode_record P key (rnd i) e = Inr r"
    "encode_records P key rnd (Suc i) es = Inr rs'" "rs = r @ rs'"
    by (auto simp: ebind_Inr_iff)
  have "entry_ok e" using Cons.prems(2) by simp
  obtain body where b: "r = u32_be (of_nat (length body)) @ body" "MIN_RECORD_BYTES \<le> length body"
    "length body \<le> MAX_RECORD_BYTES" "unat (of_nat (length body) :: u32) = length body"
    "decode_record P key body = Inr e"
    by (rule encode_record_decodes [OF assms(1,2) \<open>entry_ok e\<close> assms(3) r(1)])
  have lr: "length r = 4 + length body" using b(1) by simp
  have head: "take 4 (take n rs) = u32_be (of_nat (length body))" if "4 \<le> n"
    using that r(3) b(1) by (simp add: min_def)
  show ?case
  proof (cases "n < length r")
    case True
    have "decode_records P key (take n rs) = Inr []"
    proof (cases "n < 4")
      case True
      then have "length (take n rs) < 4" by simp
      then show ?thesis by (subst decode_records.simps) (simp only: if_True)
    next
      case False
      have "n - 4 < length body" using \<open>n < length r\<close> lr False by linarith
      then show ?thesis
        using False head b(2-4) \<open>n < length r\<close> lr r(3)
        by (subst decode_records.simps) (simp add: Let_def min_def)
    qed
    then show ?thesis using True r(3) by (intro exI [of _ 0]) simp
  next
    case False
    define t where "t = take (n - length r) rs'"
    have tk: "take n rs = u32_be (of_nat (length body)) @ body @ t"
      using False r(3) b(1) by (simp add: t_def)
    obtain k where k: "decode_records P key t = Inr (take k es)" "length rs' \<le> n - length r \<longrightarrow> length es \<le> k"
      using Cons.IH [OF r(2)] Cons.prems(2) by (auto simp: t_def)
    have "decode_records P key (take n rs) = Inr (e # take k es)"
      using b(2-5) k(1) unfolding tk
      by (subst decode_records.simps) (simp add: Let_def)
    then show ?thesis using k(2) r(3) by (intro exI [of _ "Suc k"]) auto
  qed
qed

section \<open>Eviction against a reference\<close>

text \<open>The longest prefix within a budget.\<close>

fun budget_prefix :: "nat \<Rightarrow> entry list \<Rightarrow> entry list" where
  "budget_prefix b [] = []"
| "budget_prefix b (e # es) =
     (if content_len (e_content e) \<le> b then e # budget_prefix (b - content_len (e_content e)) es else [])"

abbreviation of_kind :: "bool \<Rightarrow> entry list \<Rightarrow> entry list" where
  "of_kind images \<equiv> filter (\<lambda>e. is_image (e_content e) = images)"

definition sizes :: "entry list \<Rightarrow> nat" where
  "sizes es = sum_list (map (\<lambda>e. content_len (e_content e)) es)"

lemma sizes_simps [simp]:
  "sizes [] = 0" "sizes (e # es) = content_len (e_content e) + sizes es" "sizes (a @ b) = sizes a + sizes b"
  by (simp_all add: sizes_def)

lemma kind_total_sizes: "kind_total images es = sizes (of_kind images es)"
  by (simp add: kind_total_def sizes_def)

lemma budget_prefix_all: "sizes es \<le> b \<Longrightarrow> budget_prefix b es = es"
  by (induction b es rule: budget_prefix.induct) auto

lemma budget_prefix_butlast:
  "b < sizes (es @ [e]) \<Longrightarrow> budget_prefix b (es @ [e]) = budget_prefix b es"
  by (induction b es rule: budget_prefix.induct) auto

lemma budget_prefix_sizes: "sizes (budget_prefix b es) \<le> b"
  by (induction b es rule: budget_prefix.induct) auto

lemma evict_count_take: "evict_count cap es = take cap es"
proof (induction cap es rule: evict_count.induct)
  case (1 cap es)
  then show ?case
    by (subst evict_count.simps) (auto simp: butlast_conv_take min_def)
qed

text \<open>Removing the last of a kind shortens that kind and leaves the other.\<close>

lemma remove_last_kind_None: "remove_last_kind images es = None \<longleftrightarrow> of_kind images es = []"
  by (induction es) (auto split: option.splits)

lemma remove_last_kind_Some:
  "remove_last_kind images es = Some es' \<Longrightarrow>
    (\<exists>e. of_kind images es = of_kind images es' @ [e]) \<and> of_kind (\<not> images) es' = of_kind (\<not> images) es"
proof (induction es arbitrary: es')
  case (Cons x es)
  show ?case
  proof (cases "remove_last_kind images es")
    case None
    then have "of_kind images es = []" by (simp add: remove_last_kind_None)
    then show ?thesis using Cons.prems None by (auto split: if_splits)
  next
    case (Some ys)
    then show ?thesis using Cons by auto
  qed
qed simp

lemma remove_last_kind_subseq: "remove_last_kind images es = Some es' \<Longrightarrow> subseq es' es"
  by (induction es arbitrary: es') (auto split: option.splits if_splits)

lemma evict_by_budget_kinds:
  "of_kind images (evict_by_budget images b es) = budget_prefix b (of_kind images es)
   \<and> of_kind (\<not> images) (evict_by_budget images b es) = of_kind (\<not> images) es"
proof (induction images b es rule: evict_by_budget.induct)
  case (1 images b es)
  show ?case
  proof (cases "kind_total images es > b")
    case False
    then show ?thesis
      by (subst (1 2) evict_by_budget.simps) (simp add: kind_total_sizes budget_prefix_all)
  next
    case True
    show ?thesis
    proof (cases "remove_last_kind images es")
      case None
      then have "kind_total images es = 0" by (simp add: remove_last_kind_None kind_total_sizes)
      then show ?thesis using True by simp
    next
      case (Some es')
      note k = remove_last_kind_Some [OF Some]
      then obtain e where e: "of_kind images es = of_kind images es' @ [e]" by blast
      have "evict_by_budget images b es = evict_by_budget images b es'"
        using True Some by (subst evict_by_budget.simps) simp
      moreover have "budget_prefix b (of_kind images es) = budget_prefix b (of_kind images es')"
        using True e budget_prefix_butlast by (simp add: kind_total_sizes)
      ultimately show ?thesis using 1 True Some k by simp
    qed
  qed
qed

lemma evict_by_budget_subseq: "subseq (evict_by_budget images b es) es"
proof (induction images b es rule: evict_by_budget.induct)
  case (1 images b es)
  then show ?case
    by (subst evict_by_budget.simps)
      (auto split: option.split dest: remove_last_kind_subseq intro: subseq_order.order_trans)
qed

lemma evict_kinds:
  "of_kind False (evict l es) = budget_prefix (max_text_bytes l) (of_kind False (take (max_entries l) es))"
  "of_kind True (evict l es) = budget_prefix (max_image_bytes l) (of_kind True (take (max_entries l) es))"
  using evict_by_budget_kinds [of True] evict_by_budget_kinds [of False]
  by (simp_all add: evict_def Let_def evict_count_take)

lemma evict_subseq: "subseq (evict l es) (take (max_entries l) es)"
  unfolding evict_def Let_def evict_count_take
  by (meson evict_by_budget_subseq subseq_order.order_trans)

section \<open>What the store keeps\<close>

abbreviation contents_of :: "entry list \<Rightarrow> content list" where
  "contents_of es \<equiv> map e_content es"

text \<open>Whatever becomes of a write, the entries in memory, the limits and the key stay.\<close>

lemma persist_fields [simp]:
  "st_entries (snd (persist P rnd io st)) = st_entries st" "st_limits (snd (persist P rnd io st)) = st_limits st"
  "st_key (snd (persist P rnd io st)) = st_key st"
  by (auto simp: persist_def split: sum.split io_write.split)

lemma shred_fields [simp]:
  "st_entries (snd (shred io st)) = st_entries st" "st_limits (snd (shred io st)) = st_limits st"
  by (auto simp: shred_def split: io_shred.split)

lemma snd_persist_case:
  "snd (case persist P rnd io st of (Inl e, t) \<Rightarrow> (Inl e, t) | (Inr u, t) \<Rightarrow> (Inr x, t)) = snd (persist P rnd io st)"
  by (simp split: prod.split sum.split)

lemma take_content_entry_None: "take_content_entry c es = None \<longleftrightarrow> c \<notin> set (contents_of es)"
  by (induction es) auto

lemma take_content_entry_Some:
  "take_content_entry c es = Some (e, others) \<Longrightarrow>
    \<exists>us vs. es = us @ e # vs \<and> others = us @ vs \<and> e_content e = c"
proof (induction es arbitrary: others)
  case (Cons x es)
  show ?case
  proof (cases "e_content x = c")
    case True
    then show ?thesis using Cons.prems by (intro exI [of _ "[]"] exI [of _ es]) auto
  next
    case False
    then obtain ys where "take_content_entry c es = Some (e, ys)" "others = x # ys"
      using Cons.prems by auto
    then show ?thesis using Cons.IH [of ys] by (metis append_Cons)
  qed
qed simp

text \<open>What recording does to the entries: nothing, a move to the front with a new time and source, or
  a new entry at the front and an eviction.\<close>

lemma append_from_entries:
  obtains (same) "st_entries (snd (append_from P r rnd io c sens ts d st)) = st_entries st"
  | (moved) us e vs where "\<not> sens" "e_content e = c" "st_entries st = us @ e # vs"
      "st_entries (snd (append_from P r rnd io c sens ts d st)) = e\<lparr>e_ts_ms := ts, e_device_id := d\<rparr> # us @ vs"
  | (new) i where "\<not> sens" "c \<notin> set (contents_of (st_entries st))" "0 < content_len c"
      "content_len c \<le> max_entry_bytes (st_limits st)"
      "st_entries (snd (append_from P r rnd io c sens ts d st)) =
        evict (st_limits st) (\<lparr>e_id = i, e_ts_ms = ts, e_content = c, e_device_id = d\<rparr> # st_entries st)"
proof (cases "sens \<or> content_empty c \<or> content_len c > max_entry_bytes (st_limits st)")
  case True
  then show ?thesis using same by (auto simp: append_from_def)
next
  case False
  show ?thesis
  proof (cases "take_content_entry c (st_entries st)")
    case None
    then have "c \<notin> set (contents_of (st_entries st))" by (simp add: take_content_entry_None)
    then show ?thesis
      using new False None same
      by (cases "random_bytes r") (auto simp: append_from_def content_empty_def snd_persist_case)
  next
    case (Some p)
    obtain e others where p: "p = (e, others)" by fastforce
    then obtain us vs where "st_entries st = us @ e # vs" "others = us @ vs" "e_content e = c"
      using Some take_content_entry_Some by blast
    then show ?thesis
      using moved [of e us vs] same False Some p
      by (cases "e_content (hd (st_entries st)) = c") (auto simp: append_from_def snd_persist_case)
  qed
qed

lemma append_from_limits [simp]: "st_limits (snd (append_from P r rnd io c sens ts d st)) = st_limits st"
  by (auto simp: append_from_def snd_persist_case split: option.split sum.split)

definition hist_inv :: "store \<Rightarrow> bool" where
  "hist_inv st \<longleftrightarrow>
     distinct (contents_of (st_entries st)) \<and> length (st_entries st) \<le> max_entries (st_limits st)
     \<and> sizes (of_kind False (st_entries st)) \<le> max_text_bytes (st_limits st)
     \<and> sizes (of_kind True (st_entries st)) \<le> max_image_bytes (st_limits st)
     \<and> (\<forall>e \<in> set (st_entries st). 0 < content_len (e_content e)
         \<and> content_len (e_content e) \<le> max_entry_bytes (st_limits st))"

lemma hist_inv_cong:
  "st_entries t = st_entries s \<Longrightarrow> st_limits t = st_limits s \<Longrightarrow> hist_inv t \<longleftrightarrow> hist_inv s"
  by (simp add: hist_inv_def)

lemma subseq_set: "subseq xs ys \<Longrightarrow> set xs \<subseteq> set ys"
  by (induction rule: list_emb.induct) auto

lemma subseq_distinct_map: "subseq xs ys \<Longrightarrow> distinct (map f ys) \<Longrightarrow> distinct (map f xs)"
  by (induction rule: list_emb.induct) (auto dest: subseq_set)

lemma hist_inv_moved:
  assumes "hist_inv st" "st_entries st = us @ e # vs" "st_limits st' = st_limits st"
    "st_entries st' = e' # us @ vs" "e_content e' = e_content e"
  shows "hist_inv st'"
proof -
  have "sizes (of_kind k (st_entries st')) = sizes (of_kind k (st_entries st))" for k
    using assms(2,4,5) by simp
  moreover have "distinct (contents_of (st_entries st'))"
    using assms(1,2,4,5) by (auto simp: hist_inv_def)
  ultimately show ?thesis using assms by (auto simp: hist_inv_def)
qed

lemma append_from_inv: "hist_inv st \<Longrightarrow> hist_inv (snd (append_from P r rnd io c sens ts d st))"
proof (cases rule: append_from_entries [of P r rnd io c sens ts d st])
  case same
  then show "hist_inv st \<Longrightarrow> ?thesis" using hist_inv_cong append_from_limits by blast
next
  case (moved us e vs)
  then show "hist_inv st \<Longrightarrow> ?thesis"
    using hist_inv_moved [of st us e vs "snd (append_from P r rnd io c sens ts d st)"
        "e\<lparr>e_ts_ms := ts, e_device_id := d\<rparr>"] by simp
next
  case (new i)
  let ?n = "\<lparr>e_id = i, e_ts_ms = ts, e_content = c, e_device_id = d\<rparr>"
  let ?es = "evict (st_limits st) (?n # st_entries st)"
  assume inv: "hist_inv st"
  have sub: "subseq ?es (take (max_entries (st_limits st)) (?n # st_entries st))" by (rule evict_subseq)
  then have sub': "subseq ?es (?n # st_entries st)"
    by (meson prefix_imp_subseq subseq_order.order_trans take_is_prefix)
  have "distinct (contents_of ?es)"
    using subseq_distinct_map [OF sub', of e_content] inv new(2) by (simp add: hist_inv_def)
  moreover have "length ?es \<le> max_entries (st_limits st)"
    using list_emb_length [OF sub] by simp
  moreover have "\<forall>e \<in> set ?es. 0 < content_len (e_content e)
      \<and> content_len (e_content e) \<le> max_entry_bytes (st_limits st)"
    using subseq_set [OF sub'] inv new(3,4) by (auto simp: hist_inv_def)
  moreover have "sizes (of_kind False ?es) \<le> max_text_bytes (st_limits st)"
    "sizes (of_kind True ?es) \<le> max_image_bytes (st_limits st)"
    by (simp_all only: evict_kinds budget_prefix_sizes)
  ultimately show ?thesis using new(5) unfolding hist_inv_def by simp
qed

lemma remove_entry_subseq: "remove_entry i es = Some es' \<Longrightarrow> subseq es' es"
  by (induction es arbitrary: es') (auto split: if_splits)

lemma sizes_subseq: "subseq xs ys \<Longrightarrow> sizes xs \<le> sizes ys"
  by (induction rule: list_emb.induct) auto

lemma subseq_inv:
  assumes "hist_inv st" "subseq es (st_entries st)"
  shows "hist_inv (st\<lparr>st_entries := es\<rparr>)"
proof -
  have "subseq (of_kind k es) (of_kind k (st_entries st))" for k
    using assms(2) by (rule subseq_filter)
  note size = this [THEN sizes_subseq]
  have "sizes (of_kind False es) \<le> max_text_bytes (st_limits st)" "sizes (of_kind True es) \<le> max_image_bytes (st_limits st)"
    using size [of False] size [of True] assms(1) unfolding hist_inv_def by linarith+
  moreover have "distinct (contents_of es)"
    using subseq_distinct_map [OF assms(2), of e_content] assms(1) by (simp add: hist_inv_def)
  moreover have "length es \<le> max_entries (st_limits st)"
    using list_emb_length [OF assms(2)] assms(1) by (simp add: hist_inv_def)
  ultimately show ?thesis
    using subseq_set [OF assms(2)] assms(1) by (simp add: hist_inv_def) blast
qed

text \<open>Everything that is done to a store.\<close>

datatype hist_op =
    HAppend rand "nat \<Rightarrow> rand" io_write content bool u64 bytes
  | HRemove "nat \<Rightarrow> rand" io_write bytes
  | HClear io_shred
  | HRekey "nat \<Rightarrow> rand" io_write bytes

fun hist_step :: "prims \<Rightarrow> store \<Rightarrow> hist_op \<Rightarrow> store" where
  "hist_step P st (HAppend r rnd io c sens ts d) = snd (append_from P r rnd io c sens ts d st)"
| "hist_step P st (HRemove rnd io i) = snd (hist_remove P rnd io i st)"
| "hist_step P st (HClear io) = snd (hist_clear io st)"
| "hist_step P st (HRekey rnd io secret) = snd (hist_rekey P rnd io secret st)"

lemma hist_rekey_fields [simp]:
  "st_entries (snd (hist_rekey P rnd io secret st)) = st_entries st"
  "st_limits (snd (hist_rekey P rnd io secret st)) = st_limits st"
  by (auto simp: hist_rekey_def persist_def Let_def split: sum.split io_write.split)

lemma hist_clear_fields [simp]:
  "st_entries (snd (hist_clear io st)) = []" "st_limits (snd (hist_clear io st)) = st_limits st"
  by (simp_all add: hist_clear_def Let_def)

lemma hist_remove_entries:
  "subseq (st_entries (snd (hist_remove P rnd io i st))) (st_entries st)
   \<and> st_limits (snd (hist_remove P rnd io i st)) = st_limits st"
  by (auto simp: hist_remove_def dest: remove_entry_subseq split: option.split)

lemma hist_step_inv: "hist_inv st \<Longrightarrow> hist_inv (hist_step P st e)"
proof (cases e)
  case (HRemove rnd io i)
  assume "hist_inv st"
  then have "hist_inv (st\<lparr>st_entries := st_entries (snd (hist_remove P rnd io i st))\<rparr>)"
    using hist_remove_entries by (intro subseq_inv) blast+
  then show ?thesis using HRemove hist_remove_entries [of P rnd io i st] by (simp add: hist_inv_def)
next
  case (HClear io)
  assume "hist_inv st"
  then show ?thesis using HClear by (simp add: hist_inv_def)
next
  case (HRekey rnd io secret)
  assume "hist_inv st"
  then show ?thesis using HRekey by (simp add: hist_inv_def)
qed (simp add: append_from_inv)

interpretation hist: machine "hist_step P" hist_inv
  by unfold_locales (rule hist_step_inv)

section \<open>Properties\<close>

lemma blank_ELLIPSIS: "\<not> blank ELLIPSIS"
  by (simp add: is_whitespace_def is_control_def)

lemma length_MAGIC [simp]: "length MAGIC = 8"
  by (simp add: MAGIC_def ascii_def)

lemma length_rtrim_space: "length (rtrim_space s) \<le> length s"
  by (simp add: rtrim_space_def) (metis length_dropWhile_le length_rev)

lemma set_rtrim_space: "set (rtrim_space s) \<subseteq> set s"
  by (auto simp: rtrim_space_def dest: set_dropWhileD)

text \<open>A preview is the text on one line: every run of blanks inside it is one space, none leads or
  trails, control characters are gone, and a text longer than 120 characters is cut to at most 119 with an
  ellipsis after them.\<close>

theorem preview_one_line:
  "preview t = (if length (squeeze t) \<le> 120 then squeeze t else rtrim_space (take 119 (squeeze t)) @ [ELLIPSIS])
   \<and> length (preview t) \<le> 120 \<and> list_all (\<lambda>c. if is_whitespace c \<or> is_control c then c = SPACE else True) (preview t)"
proof -
  have "set (preview t) \<subseteq> insert ELLIPSIS (set (squeeze t))"
    using set_rtrim_space [of "take 119 (squeeze t)"] set_take_subset [of 119 "squeeze t"]
    by (auto simp: preview_reference_eq)
  then have "c = SPACE \<or> \<not> blank c" if "c \<in> set (preview t)" for c
    using that squeeze_chars [of c t] blank_ELLIPSIS by blast
  moreover have "length (preview t) \<le> 120"
    using length_rtrim_space [of "take 119 (squeeze t)"] by (auto simp: preview_reference_eq)
  moreover have "list_all (\<lambda>c. if blank c then c = SPACE else True) (preview t)"
    unfolding list_all_iff using calculation(1) by auto
  ultimately show ?thesis using preview_reference_eq by blast
qed

lemma decode_all_file:
  assumes "aead_ok P" "aead_tagged P" "nonces_ok rnd" "list_all entry_ok es" "encode_all P key rnd es = Inr raw"
    "HEADER_LEN \<le> n"
  shows "\<exists>k. decode_all P (take n raw) key = Inr (take k es) \<and> (length raw \<le> n \<longrightarrow> length es \<le> k)"
proof -
  obtain rs where rs: "encode_records P key rnd 0 es = Inr rs" "raw = MAGIC @ [FORMAT_VERSION] @ rs"
    using assms(5) by (auto simp: encode_all_def ebind_Inr_iff)
  obtain k where k: "decode_records P key (take (n - HEADER_LEN) rs) = Inr (take k es)"
    "length rs \<le> n - HEADER_LEN \<longrightarrow> length es \<le> k"
    using decode_records_take [OF assms(1-3) rs(1) assms(4)] by blast
  have "take n raw = MAGIC @ [FORMAT_VERSION] @ take (n - HEADER_LEN) rs"
    using rs(2) assms(6) by (simp add: HEADER_LEN_def take_Cons' diff_diff_left)
  then have "decode_all P (take n raw) key = Inr (take k es)"
    using k(1) by (simp add: decode_all_def HEADER_LEN_def nth_append Let_def)
  then show ?thesis using k(2) rs(2) assms(6) by (auto simp: HEADER_LEN_def)
qed

text \<open>Sealing never refuses, and every nonce that is asked for is drawn.\<close>

definition aead_total :: "prims \<Rightarrow> bool" where
  "aead_total P \<longleftrightarrow> (\<forall>k n a p. p_aead_seal P k n a p \<noteq> None)"

definition drawn :: "(nat \<Rightarrow> rand) \<Rightarrow> bool" where
  "drawn rnd \<longleftrightarrow> (\<forall>i. \<exists>n. rnd i = Some n \<and> length n = NONCE_LEN)"

lemma encode_records_total:
  assumes "aead_total P" "aead_tagged P" "drawn rnd" "list_all entry_ok es"
  shows "\<exists>rs. encode_records P key rnd i es = Inr rs"
  using assms(4)
proof (induction es arbitrary: i)
  case (Cons e es)
  obtain n where n: "rnd i = Some n" "length n = NONCE_LEN" using assms(3) by (auto simp: drawn_def)
  obtain ct where ct: "seal_typed P TYPE_CLIP key 0 HIST_ROOM (e_id e) n (encode_inner (entry_inner e)) = Inr ct"
    using assms(1) unfolding aead_total_def seal_typed_def Let_def
    by (metis not_None_eq ok_or_simps(2))
  have ok: "padded_len (39 + content_len (e_content e)) + 56 \<le> 67108864" "length (e_device_id e) = DEVICE_ID_LEN"
    using Cons.prems by (simp_all add: entry_ok_def MAX_RECORD_BYTES_def)
  then have "inner_ok (entry_inner e)"
    using padded_len_ge [of "39 + content_len (e_content e)"]
    by (simp add: inner_ok_def entry_inner_def length_content_bytes)
  then have "length ct = padded_len (39 + content_len (e_content e)) + 16"
    using ct aead_taggedD [OF assms(2)] length_encode_inner [of "entry_inner e"]
    by (auto simp: seal_typed_def Let_def entry_inner_def length_content_bytes INNER_HEADER_LEN_def DEVICE_ID_LEN_def)
  then have "\<exists>r. encode_record P key (rnd i) e = Inr r"
    using n ct ok by (simp add: encode_record_def clip_seal_def seal_with_nonce_def Let_def asli_const)
  moreover obtain rs where "encode_records P key rnd (Suc i) es = Inr rs" using Cons by auto
  ultimately show ?case by auto
qed simp


definition ex_entry :: "byte \<Rightarrow> content \<Rightarrow> entry" where
  "ex_entry n c = \<lparr>e_id = replicate 16 n, e_ts_ms = 5, e_content = c, e_device_id = replicate 16 n\<rparr>"

definition ex_limits :: hist_limits where
  "ex_limits = \<lparr>max_entries = 3, max_text_bytes = 2, max_image_bytes = 4, max_entry_bytes = 8\<rparr>"

definition ex_store :: "entry list \<Rightarrow> store" where
  "ex_store es = \<lparr>st_key = history_key toy_prims [1], st_limits = ex_limits, st_entries = es, st_file = None\<rparr>"

abbreviation ex_rnd :: "nat \<Rightarrow> rand" where
  "ex_rnd \<equiv> (\<lambda>_. Some (replicate 24 7))"

lemma ex_rnd_ok: "drawn ex_rnd" by (simp add: drawn_def NONCE_LEN_def)

lemma padded_40: "padded_len 40 = 256"
  by (simp add: padded_len_def Let_def bucket_loop.simps)


text \<open>C36: Eviction keeps, of each kind, the newest entries that fit the budget of that kind, among the newest
  that fit the number of entries, in their order; the two kinds do not push each other out.\<close>

theorem hist_evicts_oldest_of_kind:
  "of_kind False (evict l es) = budget_prefix (max_text_bytes l) (of_kind False (take (max_entries l) es))
   \<and> of_kind True (evict l es) = budget_prefix (max_image_bytes l) (of_kind True (take (max_entries l) es))
   \<and> subseq (evict l es) (take (max_entries l) es)"
  using evict_kinds evict_subseq by blast

text \<open>The contents a run was asked to record and may have recorded.\<close>

fun admitted :: "hist_limits \<Rightarrow> hist_op \<Rightarrow> content set" where
  "admitted l (HAppend r rnd io c sens ts d) =
     (if \<not> sens \<and> 0 < content_len c \<and> content_len c \<le> max_entry_bytes l then {c} else {})"
| "admitted l _ = {}"

definition hist_start :: "bytes \<Rightarrow> hist_limits \<Rightarrow> bytes option \<Rightarrow> store" where
  "hist_start k l f = \<lparr>st_key = k, st_limits = l, st_entries = [], st_file = f\<rparr>"

text \<open>C37: Whatever is done to a store that starts empty, with whatever results of writing and overwriting
  the file, it never holds one content twice, nor more entries or more bytes of text or of images than the
  limits allow.\<close>

theorem hist_stays_in_caps:
  "let es = st_entries (foldl (hist_step P) (hist_start k l f) ops) in
     distinct (map e_content es) \<and> length es \<le> max_entries l
     \<and> kind_total False es \<le> max_text_bytes l \<and> kind_total True es \<le> max_image_bytes l
     \<and> list_all (\<lambda>e. 0 < content_len (e_content e) \<and> content_len (e_content e) \<le> max_entry_bytes l) es"
proof -
  have lim: "st_limits (foldl (hist_step P) st ops) = st_limits st" for st
  proof (induction ops arbitrary: st)
    case (Cons e ops)
    have "st_limits (hist_step P st e) = st_limits st"
      by (cases e) (use hist_remove_entries in auto)
    then show ?case using Cons by simp
  qed simp
  have "hist_inv (hist_start k l f)" by (simp add: hist_start_def hist_inv_def)
  then have "hist_inv (foldl (hist_step P) (hist_start k l f) ops)" by (rule hist.run_inv)
  then show ?thesis
    using lim [of "hist_start k l f"]
    unfolding hist_inv_def kind_total_sizes Let_def list_all_iff by (simp add: hist_start_def)
qed

lemma hist_step_admitted:
  "set (contents_of (st_entries (hist_step P st e))) \<subseteq> set (contents_of (st_entries st)) \<union> admitted (st_limits st) e"
proof (cases e)
  case (HAppend r rnd io c sens ts d)
  show ?thesis
  proof (cases rule: append_from_entries [of P r rnd io c sens ts d st])
    case (new i)
    let ?n = "\<lparr>e_id = i, e_ts_ms = ts, e_content = c, e_device_id = d\<rparr>"
    have "set (evict (st_limits st) (?n # st_entries st)) \<subseteq> insert ?n (set (st_entries st))"
      using subseq_set [OF evict_subseq] set_take_subset by (metis list.simps(15) order_trans)
    then show ?thesis using new HAppend by auto
  qed (use HAppend in auto)
next
  case (HRemove rnd io i)
  then show ?thesis using subseq_set hist_remove_entries by fastforce
qed auto

text \<open>Nothing is in the history that was not recorded as not sensitive: a content that was only ever
  recorded as sensitive, or was empty or over the cap of an entry, is in no list of the store.\<close>

theorem hist_sensitive_never_listed:
  "set (map e_content (st_entries (foldl (hist_step P) (hist_start k l f) ops))) \<subseteq> \<Union> (admitted l ` set ops)"
proof -
  have "set (contents_of (st_entries (foldl (hist_step P) st ops)))
      \<subseteq> set (contents_of (st_entries st)) \<union> \<Union> (admitted (st_limits st) ` set ops)" for st
  proof (induction ops arbitrary: st)
    case (Cons e ops)
    have "st_limits (hist_step P st e) = st_limits st"
      by (cases e) (use hist_remove_entries in auto)
    then show ?case using Cons [of "hist_step P st e"] hist_step_admitted [of P st e] by simp blast
  qed simp
  from this [of "hist_start k l f"] show ?thesis by (simp add: hist_start_def)
qed

text \<open>C38: Changing the key is all or nothing: when the file cannot be rewritten the store is as before, key
  and file included, and otherwise the file holds the same entries under the new key.\<close>

theorem hist_rekey_atomic:
  "case hist_rekey P rnd io secret st of
     (Inl _, st') \<Rightarrow> st' = st
   | (Inr _, st') \<Rightarrow> \<exists>raw. encode_all P (history_key P secret) rnd (st_entries st) = Inr raw
       \<and> st' = st\<lparr>st_key := history_key P secret, st_file := Some raw\<rparr>"
  by (auto simp: hist_rekey_def persist_def Let_def split: sum.split io_write.split)

lemma shred_chunks_sum: "written \<le> len \<Longrightarrow> sum_list (shred_chunks len written) = len - written"
proof (induction len written rule: shred_chunks.induct)
  case (1 len written)
  then show ?case by (subst shred_chunks.simps) (auto simp: Let_def)
qed

lemma shred_chunks_small: "list_all (\<lambda>n. 0 < n \<and> n \<le> 64 * 1024) (shred_chunks len written)"
proof (induction len written rule: shred_chunks.induct)
  case (1 len written)
  then show ?case by (subst shred_chunks.simps) (auto simp: Let_def)
qed

lemma concat_zeros: "concat (map (\<lambda>n. replicate n x) ns) = replicate (sum_list ns) x"
  by (induction ns) (simp_all add: replicate_add)

text \<open>Before the file is unlinked every byte of it is overwritten with zero, in writes of at most 64 KiB.\<close>

theorem shred_overwrites_all:
  "overwrite bs (shred_chunks (length bs) 0) = replicate (length bs) 0
   \<and> list_all (\<lambda>n. 0 < n \<and> n \<le> 64 * 1024) (shred_chunks (length bs) 0)"
  using shred_chunks_small by (simp add: overwrite_def concat_zeros shred_chunks_sum Let_def)

text \<open>A text over the budget for all texts but under the cap for one entry is reported as stored, and is
  not: eviction starts from the oldest text, so it removes every text of the history and this one last.\<close>

theorem hist_large_text_wipes:
  assumes "append_from P r rnd io (CText t) False ts d st = (Inr (Stored i), st')"
    and "max_text_bytes (st_limits st) < str_len t"
  shows "filter (\<lambda>e. \<not> is_image (e_content e)) (st_entries st') = []"
proof -
  have "st_entries st' = evict (st_limits st) (\<lparr>e_id = i, e_ts_ms = ts, e_content = CText t, e_device_id = d\<rparr> # st_entries st)"
    using assms(1)
    by (auto simp: append_from_def persist_def Let_def split: if_split_asm option.splits sum.splits io_write.splits prod.splits)
  moreover have "budget_prefix b (of_kind False (take n (\<lparr>e_id = i, e_ts_ms = ts, e_content = CText t, e_device_id = d\<rparr> # es))) = []"
    if "b < str_len t" for b n es using that by (cases n) simp_all
  ultimately show ?thesis
    using evict_kinds(1) assms(2) by (metis (mono_tags, lifting) filter_cong)
qed

lemma hist_large_text_wipes_witness:
  "let (res, st') = append_from toy_prims (Some (replicate 16 5)) ex_rnd Written (CText [65, 66, 67]) False 6 (replicate 16 1)
      (ex_store [ex_entry 1 (CText [65]), ex_entry 2 (CImage [9])])
   in (\<exists>i. res = Inr (Stored i)) \<and> filter (\<lambda>e. \<not> is_image (e_content e)) (st_entries st') = []"
proof -
  let ?st = "ex_store [ex_entry 1 (CText [65]), ex_entry 2 (CImage [9])]"
  have "\<exists>i st'. append_from toy_prims (Some (replicate 16 5)) ex_rnd Written (CText [65, 66, 67]) False 6 (replicate 16 1) ?st
      = (Inr (Stored i), st')"
  proof -
    have "evict ex_limits [\<lparr>e_id = replicate 16 5, e_ts_ms = 6, e_content = CText [65, 66, 67], e_device_id = replicate 16 1\<rparr>,
        ex_entry 1 (CText [65]), ex_entry 2 (CImage [9])] = [ex_entry 2 (CImage [9])]"
      by (simp add: evict_def evict_count_take evict_by_budget.simps kind_total_def ex_entry_def ex_limits_def
          str_len_def utf8_char_def Let_def)
    moreover have "\<exists>st'. persist toy_prims ex_rnd Written (ex_store [ex_entry 2 (CImage [9])]) = (Inr (), st')"
      by (simp add: persist_def encode_all_def encode_record_def clip_seal_def seal_with_nonce_def seal_typed_def
          toy_prims_def ex_store_def ex_entry_def entry_inner_def length_encode_inner inner_ok_def padded_40 asli_const Let_def)
    ultimately show ?thesis
      by (auto simp add: append_from_def ex_store_def ex_entry_def ex_limits_def content_empty_def str_len_def utf8_char_def)
  qed
  then show ?thesis
    using hist_large_text_wipes [of toy_prims "Some (replicate 16 5)" ex_rnd Written "[65, 66, 67]" 6 "replicate 16 1" ?st]
    by (auto simp: ex_store_def ex_limits_def str_len_def utf8_char_def)
qed

end
