(* ===== verification/Client.thy ===== *)
theory Client
  imports Complex_Main Session
begin

text \<open>
  The connection, \<open>crates/asli-net/src/client.rs\<close>: which relay addresses are allowed, what of the copies
  that queued up is still sent, the frames of each local event, and the loop of \<open>converse\<close> that carries
  frames between the session and the socket, numbers its pings, and keeps the newest copy until the relay
  confirmed it. One turn of the loop is one step; the socket, the two clocks, the queue and the random
  bytes are what a step is given.
\<close>

section \<open>Events\<close>

record received_clip =
  rv_text :: ustr
  rv_ts_ms :: u64
  rv_retained :: bool
  rv_device_id :: bytes

datatype client_event =
    CAuthenticated u32 bool "u64 option"
  | CClip received_clip
  | CImage bytes u64 bytes
  | CPeer peer_info
  | CPresence u32
  | CRelayError error_code "u64 option"
  | CClipSkipped nat nat
  | CDropped string bool
  | CClockSkew int
  | CConnected ustr
  | CDevice known_device
  | CMessage kind bytes
  | CRekeyed bytes bytes "bytes list"
  | CRemovedBy bytes
  | CSent u64
  | CNotSent "u64 option" string

datatype disconnect =
    DClose nat
  | DEof
  | DAuthFailed auth_fail_code
  | DLocalChannelClosed

section \<open>Which relay addresses are allowed\<close>

definition ascii_lower :: "uchar \<Rightarrow> uchar" where
  "ascii_lower c = (if 65 \<le> c \<and> c \<le> 90 then c + 32 else c)"

definition to_ascii_lowercase :: "ustr \<Rightarrow> ustr" where
  "to_ascii_lowercase s = map ascii_lower s"

definition strip_prefix :: "ustr \<Rightarrow> ustr \<Rightarrow> ustr option" where
  "strip_prefix p s = (if take (length p) s = p then Some (drop (length p) s) else None)"

text \<open>The first piece of a split, and the last piece of one from the right.\<close>

definition first_piece :: "uchar set \<Rightarrow> ustr \<Rightarrow> ustr" where
  "first_piece seps s = takeWhile (\<lambda>c. c \<notin> seps) s"

definition last_piece :: "uchar \<Rightarrow> ustr \<Rightarrow> ustr" where
  "last_piece sep s = rev (takeWhile (\<lambda>c. c \<noteq> sep) (rev s))"

definition host_of :: "ustr \<Rightarrow> ustr" where
  "host_of rest =
     (let host = last_piece 64 (first_piece {47, 63, 35} rest)
      in case strip_prefix [91] host of
           None \<Rightarrow> first_piece {58} host
         | Some v6 \<Rightarrow> first_piece {93} v6)"

definition is_encrypted_transport :: "ustr \<Rightarrow> bool" where
  "is_encrypted_transport url =
     (let lower = to_ascii_lowercase (trim url) in
      if strip_prefix (ulit ''wss://'') lower \<noteq> None then True
      else case strip_prefix (ulit ''ws://'') lower of
        None \<Rightarrow> False
      | Some rest \<Rightarrow>
          let host = host_of rest in
          host = ulit ''localhost'' \<or> host = ulit ''::1'' \<or> host = ulit ''127.0.0.1'')"

definition require_encrypted_transport :: "ustr \<Rightarrow> net_error + unit" where
  "require_encrypted_transport url =
     (if is_encrypted_transport url then Inr ()
      else Inl (NetTransport ''the relay address must start with wss://, or ws:// for a local relay''))"

section \<open>What of the queue is still worth sending\<close>

record batch =
  ba_copy :: "local_event option"
  ba_info :: "local_event option"
  ba_fetch :: bool
  ba_messages :: "local_event list"

definition batch_empty :: batch where
  "batch_empty = \<lparr>ba_copy = None, ba_info = None, ba_fetch = False, ba_messages = []\<rparr>"

fun batch_take :: "batch \<Rightarrow> local_event \<Rightarrow> batch" where
  "batch_take b LFetchRetained = b\<lparr>ba_fetch := True\<rparr>"
| "batch_take b (LDeviceInfo info) = b\<lparr>ba_info := Some (LDeviceInfo info)\<rparr>"
| "batch_take b (LMessage k body to token) = b\<lparr>ba_messages := ba_messages b @ [LMessage k body to token]\<rparr>"
| "batch_take b (LRekey keep secret token) = b\<lparr>ba_messages := ba_messages b @ [LRekey keep secret token]\<rparr>"
| "batch_take b copy = b\<lparr>ba_copy := Some copy\<rparr>"

definition coalesce :: "local_event \<Rightarrow> local_event list \<Rightarrow> local_event list" where
  "coalesce e queued =
     (let b = foldl batch_take batch_empty (e # queued)
      in (case ba_info b of None \<Rightarrow> [] | Some i \<Rightarrow> [i]) @ ba_messages b
         @ (case ba_copy b of None \<Rightarrow> [] | Some c \<Rightarrow> [c]) @ (if ba_fetch b then [LFetchRetained] else []))"

section \<open>The frames of a local event\<close>

text \<open>The result is with the events reported. The draws of one event are numbered from 0.\<close>

type_synonym 'a reported = "client_event list \<times> 'a outcome"

definition opt_list :: "'a option \<Rightarrow> 'a list" where
  "opt_list m = (case m of None \<Rightarrow> [] | Some x \<Rightarrow> [x])"

fun frames_for :: "json \<Rightarrow> prims \<Rightarrow> draws \<Rightarrow> u64 \<Rightarrow> local_event \<Rightarrow> session \<Rightarrow> frame list reported" where
  "frames_for J P rnd now (LText text) s =
     (case observe_local J P (rnd 0) (rnd 1) text now s of
        (Inr (Some f), s) \<Rightarrow> ([], (Inr [f], s))
      | (Inr None, s) \<Rightarrow> ([], (Inr [], s))
      | (Inl (NetOutOfOrder _), s) \<Rightarrow> ([], (Inr [], s))
      | (Inl (NetContentTooLarge got limit), s) \<Rightarrow> ([CClipSkipped got limit], (Inr [], s))
      | (Inl other, s) \<Rightarrow> ([], (Inl other, s)))"
| "frames_for J P rnd now (LImage png) s =
     (case observe_local_image J P (rnd 0) (\<lambda>i. rnd (Suc i)) png now s of
        (Inr fs, s) \<Rightarrow> ([], (Inr fs, s))
      | (Inl (NetContentTooLarge got limit), s) \<Rightarrow> ([CClipSkipped got limit], (Inr [], s))
      | (Inl (NetOutOfOrder _), s) \<Rightarrow> ([], (Inr [], s))
      | (Inl other, s) \<Rightarrow> ([], (Inl other, s)))"
| "frames_for J P rnd now LFetchRetained s =
     (case fetch_last_frame J s of
        Inr f \<Rightarrow> ([], (Inr [f], s))
      | Inl (NetOutOfOrder _) \<Rightarrow> ([], (Inr [], s))
      | Inl other \<Rightarrow> ([], (Inl other, s)))"
| "frames_for J P rnd now (LDeviceInfo info) s =
     ([], sbind (announce_frame J P (rnd 0) (rnd 1) now (set_device_info info s)) (\<lambda>a s.
          sbind (card_frame J P (rnd 2) (rnd 3) now s) (\<lambda>c s. (Inr (opt_list a @ opt_list c), s))))"
| "frames_for J P rnd now (LMessage k body to token) s =
     (case msg_frame J P (rnd 0) (rnd 1) k body to s of
        (Inr f, s) \<Rightarrow> ([], (Inr [f], s))
      | (Inl (NetOutOfOrder what), s) \<Rightarrow> ([CNotSent token (net_display (NetOutOfOrder what))], (Inr [], s))
      | (Inl (NetUnsupported what), s) \<Rightarrow> ([CNotSent token (net_display (NetUnsupported what))], (Inr [], s))
      | (Inl other, s) \<Rightarrow> ([], (Inl other, s)))"
| "frames_for J P rnd now (LRekey keep secret token) s =
     (case rekey_frame J P (\<lambda>i. (rnd (2 * i + 2), rnd (2 * i + 3))) (rnd 0) (rnd 1) keep secret now s of
        (Inr f, s) \<Rightarrow> ([], (Inr [f], s))
      | (Inl (NetOutOfOrder what), s) \<Rightarrow> ([CNotSent (Some token) (net_display (NetOutOfOrder what))], (Inr [], s))
      | (Inl (NetUnsupported what), s) \<Rightarrow> ([CNotSent (Some token) (net_display (NetUnsupported what))], (Inr [], s))
      | (Inl other, s) \<Rightarrow> ([], (Inl other, s)))"

section \<open>The socket\<close>

datatype ws =
    WsText frame
  | WsPing bytes
  | WsPong bytes
  | WsClose "nat option"
  | WsBinary bytes
  | WsFrame

text \<open>What was sent, oldest first, how many more sends go through, and what the next one after them fails
  with.\<close>

record sock =
  sk_sent :: "ws list"
  sk_left :: nat
  sk_err :: string

record confirm =
  cf_pings :: u64
  cf_copy :: "u64 option"
  cf_tokens :: "(u64 \<times> u64) list"

definition confirm_default :: confirm where
  "confirm_default = \<lparr>cf_pings = 0, cf_copy = None, cf_tokens = []\<rparr>"

text \<open>The locals of the loop, the session and the socket it borrows, the events it reported and the queue
  of local events with whether the application closed it. Times are milliseconds of the monotonic clock.\<close>

record conn =
  cn_session :: session
  cn_sock :: sock
  cn_events :: "client_event list"
  cn_unconfirmed :: "local_event option"
  cn_confirm :: confirm
  cn_last_heard :: nat
  cn_hold :: "nat option"
  cn_queue :: "local_event list"
  cn_closed :: bool

type_synonym 'a conn_outcome = "(net_error + 'a) \<times> conn"

definition cbind :: "'a conn_outcome \<Rightarrow> ('a \<Rightarrow> conn \<Rightarrow> 'b conn_outcome) \<Rightarrow> 'b conn_outcome" where
  "cbind m f = (case m of (Inl e, c) \<Rightarrow> (Inl e, c) | (Inr x, c) \<Rightarrow> f x c)"

definition report :: "client_event list \<Rightarrow> conn \<Rightarrow> conn" where
  "report evs c = c\<lparr>cn_events := cn_events c @ evs\<rparr>"

definition sock_send :: "ws \<Rightarrow> conn \<Rightarrow> unit conn_outcome" where
  "sock_send m c =
     (let k = cn_sock c in
      if sk_left k = 0 then (Inl (NetTransport (sk_err k)), c)
      else (Inr (), c\<lparr>cn_sock := k\<lparr>sk_sent := sk_sent k @ [m], sk_left := sk_left k - 1\<rparr>\<rparr>))"

fun sock_send_all :: "frame list \<Rightarrow> conn \<Rightarrow> unit conn_outcome" where
  "sock_send_all [] c = (Inr (), c)"
| "sock_send_all (f # fs) c = cbind (sock_send (WsText f) c) (\<lambda>_ c. sock_send_all fs c)"

section \<open>Pacing\<close>

definition SILENCE_LIMIT :: nat where "SILENCE_LIMIT = 70 * 1000"
definition PACE_BURST :: nat where "PACE_BURST = 4 * 1024 * 1024"
definition PACE_PER_SEC :: nat where "PACE_PER_SEC = 6 * 1024 * 1024"

text \<open>The seconds after the start at which each piece may go. The quotient is exact here and a rounded
  float in the code; the saturation of the 64 bit sum is out of reach of any image.\<close>

definition pace_wait_for :: "nat \<Rightarrow> nat \<Rightarrow> nat \<times> rat" where
  "pace_wait_for sent n =
     (let sent = min (sent + n) (2 ^ 64 - 1); over = sent - PACE_BURST in (sent, of_nat over / of_nat PACE_PER_SEC))"

fun pace_dues :: "nat \<Rightarrow> nat list \<Rightarrow> rat list" where
  "pace_dues sent [] = []"
| "pace_dues sent (n # ns) = (let (sent, due) = pace_wait_for sent n in due # pace_dues sent ns)"

section \<open>Sending local events\<close>

fun copy_of :: "local_event \<Rightarrow> local_event option" where
  "copy_of (LText t) = Some (LText t)"
| "copy_of (LImage b) = Some (LImage b)"
| "copy_of _ = None"

fun token_of :: "local_event \<Rightarrow> u64 option" where
  "token_of (LMessage k body to token) = token"
| "token_of (LRekey keep secret token) = Some token"
| "token_of _ = None"

definition next_ping :: "conn \<Rightarrow> conn" where
  "next_ping c = c\<lparr>cn_confirm := (cn_confirm c)\<lparr>cf_pings := cf_pings (cn_confirm c) + 1\<rparr>\<rparr>"

definition send_ping :: "conn \<Rightarrow> unit conn_outcome" where
  "send_ping c = (let c = next_ping c in sock_send (WsPing (u64_be (cf_pings (cn_confirm c)))) c)"

definition track :: "local_event \<Rightarrow> conn \<Rightarrow> conn" where
  "track e c =
     (let c = (case copy_of e of
                 Some copy \<Rightarrow> c\<lparr>cn_confirm := (cn_confirm c)\<lparr>cf_copy := Some (cf_pings (cn_confirm c))\<rparr>,
                               cn_unconfirmed := Some copy\<rparr>
               | None \<Rightarrow> c)
      in case token_of e of
           Some token \<Rightarrow> c\<lparr>cn_confirm := (cn_confirm c)\<lparr>cf_tokens :=
               cf_tokens (cn_confirm c) @ [(cf_pings (cn_confirm c), token)]\<rparr>\<rparr>
         | None \<Rightarrow> c)"

definition send_event :: "json \<Rightarrow> prims \<Rightarrow> draws \<Rightarrow> u64 \<Rightarrow> local_event \<Rightarrow> conn \<Rightarrow> unit conn_outcome" where
  "send_event J P rnd now e c =
     (case frames_for J P rnd now e (cn_session c) of
        (evs, Inl err, s) \<Rightarrow> (Inl err, report evs (c\<lparr>cn_session := s\<rparr>))
      | (evs, Inr frames, s) \<Rightarrow>
          cbind (sock_send_all frames (report evs (c\<lparr>cn_session := s\<rparr>))) (\<lambda>_ c.
            if frames = [] \<or> (copy_of e = None \<and> token_of e = None) then (Inr (), c)
            else cbind (send_ping c) (\<lambda>_ c. (Inr (), track e c))))"

text \<open>The draws and the wall clock of the \<open>n\<close>-th event of a batch are \<open>env n\<close>.\<close>

fun send_local :: "json \<Rightarrow> prims \<Rightarrow> (nat \<Rightarrow> draws \<times> u64) \<Rightarrow> nat \<Rightarrow> local_event list \<Rightarrow> conn \<Rightarrow> unit conn_outcome" where
  "send_local J P env n [] c = (Inr (), c)"
| "send_local J P env n (e # es) c =
     cbind (send_event J P (fst (env n)) (snd (env n)) e c) (\<lambda>_ c. send_local J P env (Suc n) es c)"

section \<open>What the session decided\<close>

fun apply_action :: "nat \<Rightarrow> action \<Rightarrow> conn \<Rightarrow> disconnect option conn_outcome" where
  "apply_action now (ASend f) c = cbind (sock_send (WsText f) c) (\<lambda>_ c. (Inr None, c))"
| "apply_action now (AAuthFailed code) c = (Inr (Some (DAuthFailed code)), c)"
| "apply_action now (AAuthenticated conn_id peers has_retained stored_at) c =
     (Inr None, report [CConnected conn_id, CAuthenticated peers has_retained stored_at] c)"
| "apply_action now (ADevice d) c = (Inr None, report [CDevice d] c)"
| "apply_action now (AMessage k body) c = (Inr None, report [CMessage k body] c)"
| "apply_action now (ARekeyed secret device kept) c = (Inr None, report [CRekeyed secret device kept] c)"
| "apply_action now (ARemovedBy device) c = (Inr None, report [CRemovedBy device] c)"
| "apply_action now (AClip t ts retained device) c =
     (Inr None, report [CClip \<lparr>rv_text = t, rv_ts_ms = ts, rv_retained = retained, rv_device_id = device\<rparr>] c)"
| "apply_action now (AImage png ts device) c = (Inr None, report [CImage png ts device] c)"
| "apply_action now (APeer p) c = (Inr None, report [CPeer p] c)"
| "apply_action now (APresence n) c = (Inr None, report [CPresence n] c)"
| "apply_action now (ARelayError code wait) c =
     (Inr None, report [CRelayError code wait]
        (case wait of Some w \<Rightarrow> c\<lparr>cn_hold := Some (now + unat w)\<rparr> | None \<Rightarrow> c))"
| "apply_action now (ADropped why retained) c = (Inr None, report [CDropped why retained] c)"
| "apply_action now (AClockSkew skew) c = (Inr None, report [CClockSkew skew] c)"

fun apply_actions :: "nat \<Rightarrow> action list \<Rightarrow> conn \<Rightarrow> disconnect option conn_outcome" where
  "apply_actions now [] c = (Inr None, c)"
| "apply_actions now (a # as) c =
     cbind (apply_action now a c) (\<lambda>r c. case r of Some d \<Rightarrow> (Inr (Some d), c) | None \<Rightarrow> apply_actions now as c)"

section \<open>The loop\<close>

text \<open>The answer to a numbered ping.\<close>

definition on_pong :: "bytes \<Rightarrow> conn \<Rightarrow> conn" where
  "on_pong payload c =
     (if length payload \<noteq> 8 then c
      else
        let number = be_u64 payload;
            c = (if cf_copy (cn_confirm c) = Some number
                 then c\<lparr>cn_confirm := (cn_confirm c)\<lparr>cf_copy := None\<rparr>, cn_unconfirmed := None\<rparr> else c);
            tokens = cf_tokens (cn_confirm c)
        in report (map (\<lambda>p. CSent (snd p)) (filter (\<lambda>p. fst p \<le> number) tokens))
             (c\<lparr>cn_confirm := (cn_confirm c)\<lparr>cf_tokens := filter (\<lambda>p. \<not> fst p \<le> number) tokens\<rparr>\<rparr>))"

datatype incoming_ws = SocketEnded | SocketFailed string | Came ws

datatype branch = BIncoming incoming_ws | BLocal | BPing | BHoldOver

text \<open>A turn: the time at its top, the time and the wall clock of the branch taken, the draws.\<close>

record turn =
  tn_top :: nat
  tn_now :: nat
  tn_wall :: u64
  tn_draws :: draws
  tn_env :: "nat \<Rightarrow> draws \<times> u64"
  tn_branch :: branch

definition cn_held :: "nat \<Rightarrow> conn \<Rightarrow> bool" where
  "cn_held now c \<longleftrightarrow> (case cn_hold c of Some t \<Rightarrow> now < t | None \<Rightarrow> False)"

definition resend_first :: "json \<Rightarrow> prims \<Rightarrow> turn \<Rightarrow> conn \<Rightarrow> unit conn_outcome" where
  "resend_first J P t c =
     (if is_ready (cn_session c) \<and> \<not> cn_held (tn_top t) c \<and> cn_unconfirmed c = None
      then case take_resend (cn_session c) of
          (Some e, s) \<Rightarrow> send_local J P (\<lambda>_. (tn_draws t, tn_wall t)) 0 [e] (c\<lparr>cn_session := s\<rparr>)
        | (None, s) \<Rightarrow> (Inr (), c\<lparr>cn_session := s\<rparr>)
      else (Inr (), c))"

definition on_incoming :: "json \<Rightarrow> prims \<Rightarrow> turn \<Rightarrow> incoming_ws \<Rightarrow> conn \<Rightarrow> disconnect option conn_outcome" where
  "on_incoming J P t i c =
     (case i of
        SocketEnded \<Rightarrow> (Inr (Some DEof), c)
      | SocketFailed e \<Rightarrow> (Inl (NetTransport e), c)
      | Came m \<Rightarrow>
          let c = c\<lparr>cn_last_heard := tn_now t\<rparr> in
          (case m of
             WsText f \<Rightarrow>
               (case handle_frame J P (tn_draws t) f (tn_wall t) (cn_session c) of
                  (Inr actions, s) \<Rightarrow> apply_actions (tn_now t) actions (c\<lparr>cn_session := s\<rparr>)
                | (Inl NetUnknownType, s) \<Rightarrow> (Inr None, c\<lparr>cn_session := s\<rparr>)
                | (Inl other, s) \<Rightarrow> (Inl other, c\<lparr>cn_session := s\<rparr>))
           | WsClose code \<Rightarrow> (Inr (Some (DClose (case code of None \<Rightarrow> 1000 | Some n \<Rightarrow> n))), c)
           | WsPong payload \<Rightarrow> (Inr None, on_pong payload c)
           | _ \<Rightarrow> (Inr None, c)))"

text \<open>One turn. A branch whose condition does not hold is not polled: the turn changes nothing.\<close>

definition converse_turn :: "json \<Rightarrow> prims \<Rightarrow> turn \<Rightarrow> conn \<Rightarrow> disconnect option conn_outcome" where
  "converse_turn J P t c =
     (let ready = is_ready (cn_session c); h = cn_held (tn_top t) c in
      cbind (resend_first J P t c) (\<lambda>_ c.
        case tn_branch t of
          BIncoming i \<Rightarrow> on_incoming J P t i c
        | BLocal \<Rightarrow>
            if \<not> (ready \<and> \<not> h) then (Inr None, c)
            else (case cn_queue c of
                [] \<Rightarrow> (Inr (if cn_closed c then Some DLocalChannelClosed else None), c)
              | e # queued \<Rightarrow>
                  cbind (send_local J P (tn_env t) 0 (coalesce e queued) (c\<lparr>cn_queue := []\<rparr>))
                    (\<lambda>_ c. (Inr None, c)))
        | BPing \<Rightarrow>
            if tn_now t - cn_last_heard c > SILENCE_LIMIT then (Inr (Some DEof), c)
            else cbind (send_ping c) (\<lambda>_ c. (Inr None, c))
        | BHoldOver \<Rightarrow> (Inr None, if h then c\<lparr>cn_hold := None\<rparr> else c)))"

text \<open>The turns until one ends the connection; \<open>None\<close> where none did.\<close>

fun converse :: "json \<Rightarrow> prims \<Rightarrow> turn list \<Rightarrow> conn \<Rightarrow> (net_error + disconnect) option \<times> conn" where
  "converse J P [] c = (None, c)"
| "converse J P (t # ts) c =
     (case converse_turn J P t c of
        (Inl e, c) \<Rightarrow> (Some (Inl e), c)
      | (Inr (Some d), c) \<Rightarrow> (Some (Inr d), c)
      | (Inr None, c) \<Rightarrow> converse J P ts c)"

text \<open>One connection; \<open>connect\<close> is the socket or why there is none, at time \<open>now\<close>.\<close>

definition conn_start :: "session \<Rightarrow> sock \<Rightarrow> nat \<Rightarrow> local_event list \<Rightarrow> conn" where
  "conn_start s k now queue =
     \<lparr>cn_session = s, cn_sock = k, cn_events = [], cn_unconfirmed = None, cn_confirm = confirm_default,
      cn_last_heard = now, cn_hold = None, cn_queue = queue, cn_closed = False\<rparr>"

definition stash_unconfirmed :: "conn \<Rightarrow> session" where
  "stash_unconfirmed c =
     (case cn_unconfirmed c of Some e \<Rightarrow> stash_resend e (cn_session c) | None \<Rightarrow> cn_session c)"

definition run_once ::
    "json \<Rightarrow> prims \<Rightarrow> ustr \<Rightarrow> net_error + sock \<Rightarrow> nat \<Rightarrow> turn list \<Rightarrow> local_event list \<Rightarrow> session
      \<Rightarrow> (net_error + disconnect) option \<times> client_event list \<times> local_event list \<times> session" where
  "run_once J P url connect now turns queue s =
     (case require_encrypted_transport url of
        Inl e \<Rightarrow> (Some (Inl e), [], queue, s)
      | Inr _ \<Rightarrow>
          (case connect of
             Inl e \<Rightarrow> (Some (Inl e), [], queue, s)
           | Inr k \<Rightarrow>
               (case hello_frame J s of
                  (Inl e, s) \<Rightarrow> (Some (Inl e), [], queue, s)
                | (Inr hello, s) \<Rightarrow>
                    (case sock_send (WsText hello) (conn_start s k now queue) of
                       (Inl e, c) \<Rightarrow> (Some (Inl e), [], queue, s)
                     | (Inr _, c) \<Rightarrow>
                         let (res, c) = converse J P turns c
                         in (res, cn_events c, cn_queue c, stash_unconfirmed c)))))"

end
