(* ===== verification/Client_Props.thy ===== *)
theory Client_Props
  imports Client Session_Props
begin

text \<open>
  What the connection promises: only this machine is reached without encryption; of a queue nothing that
  matters is dropped and the newest copy is what is sent; what is reported as read was sent before the ping
  the relay answered; and a copy is let go of only when such an answer came.
\<close>

section \<open>The queue against a reference\<close>

fun is_copy :: "local_event \<Rightarrow> bool" where
  "is_copy (LText _) = True" | "is_copy (LImage _) = True" | "is_copy _ = False"

fun is_info :: "local_event \<Rightarrow> bool" where
  "is_info (LDeviceInfo _) = True" | "is_info _ = False"

fun is_message :: "local_event \<Rightarrow> bool" where
  "is_message (LMessage _ _ _ _) = True" | "is_message (LRekey _ _ _) = True" | "is_message _ = False"

definition newest :: "('a \<Rightarrow> bool) \<Rightarrow> 'a list \<Rightarrow> 'a option" where
  "newest p xs = find p (rev xs)"

lemma newest_snoc: "newest p (xs @ [x]) = (if p x then Some x else newest p xs)"
  by (simp add: newest_def)

lemma batch_taken:
  "foldl batch_take batch_empty es = \<lparr>ba_copy = newest is_copy es, ba_info = newest is_info es,
     ba_fetch = (LFetchRetained \<in> set es), ba_messages = filter is_message es\<rparr>"
proof (induction es rule: rev_induct)
  case Nil
  then show ?case by (simp add: batch_empty_def newest_def)
next
  case (snoc e es)
  then show ?case by (cases e) (simp_all add: newest_snoc)
qed

text \<open>Of everything queued behind an event, what is sent is the newest device information, every message
  in order, the newest copy, and one request for the stored clip where there was any.\<close>

theorem coalesce_keeps_what_matters:
  "coalesce e queued =
     opt_list (newest is_info (e # queued)) @ filter is_message (e # queued)
     @ opt_list (newest is_copy (e # queued)) @ (if LFetchRetained \<in> set (e # queued) then [LFetchRetained] else [])"
  unfolding coalesce_def batch_taken opt_list_def by (simp only: Let_def batch.simps)

section \<open>Which addresses are reached in the clear\<close>

lemma strip_prefix_Some: "strip_prefix p s = Some r \<longleftrightarrow> s = p @ r"
  by (auto simp: strip_prefix_def) (metis append_take_drop_id)

lemma first_piece_split: "\<exists>rest. s = first_piece S s @ rest \<and> (rest = [] \<or> hd rest \<in> S) \<and> set (first_piece S s) \<inter> S = {}"
  unfolding first_piece_def
  by (rule exI [of _ "dropWhile (\<lambda>c. c \<notin> S) s"]) (use hd_dropWhile [of "\<lambda>c. c \<notin> S" s] in \<open>auto dest: set_takeWhileD\<close>)

lemma last_piece_split: "\<exists>front. s = front @ last_piece a s \<and> (front = [] \<or> last front = a) \<and> a \<notin> set (last_piece a s)"
proof -
  let ?d = "dropWhile (\<lambda>c. c \<noteq> a) (rev s)"
  have "s = rev ?d @ last_piece a s"
    by (metis last_piece_def rev_append rev_rev_ident takeWhile_dropWhile_id)
  moreover have "rev ?d = [] \<or> last (rev ?d) = a"
    using hd_dropWhile [of "\<lambda>c. c \<noteq> a" "rev s"] by (auto simp: last_rev)
  ultimately show ?thesis by (auto simp: last_piece_def dest: set_takeWhileD)
qed



section \<open>What is on the wire\<close>

lemma cbind_simps [simp]: "cbind (Inl e, c) f = (Inl e, c)" "cbind (Inr x, c) f = f x c"
  by (simp_all add: cbind_def)

lemma cbind_cases:
  obtains (fails) e c where "m = (Inl e, c)" "cbind m f = (Inl e, c)"
  | (runs) x c where "m = (Inr x, c)" "cbind m f = f x c"
  by (cases m; cases "fst m") (auto simp: cbind_def)

text \<open>A relation that every step keeps is kept by a sequence of steps.\<close>

lemma cbind_rel:
  assumes "R c (snd m)" "\<And>x c'. m = (Inr x, c') \<Longrightarrow> R c' (snd (f x c'))" "\<And>a b d. R a b \<Longrightarrow> R b d \<Longrightarrow> R a d"
  shows "R c (snd (cbind m f))"
proof (cases rule: cbind_cases [of m f])
  case (runs x c')
  then show ?thesis using assms(1) assms(2) [of x c'] assms(3) [of c c'] by simp
qed (use assms(1) in simp)

text \<open>So is an invariant.\<close>

lemma cbind_inv:
  assumes "I (snd m)" "\<And>x c'. m = (Inr x, c') \<Longrightarrow> I c' \<Longrightarrow> I (snd (f x c'))"
  shows "I (snd (cbind m f))"
proof (cases rule: cbind_cases [of m f])
  case (runs x c')
  then show ?thesis using assms(1) assms(2) [of x c'] by simp
qed (use assms(1) in simp)

text \<open>An event was carried under a ping number: its frames are on the wire, and the ping right after them.\<close>

definition carried :: "json \<Rightarrow> prims \<Rightarrow> local_event \<Rightarrow> u64 \<Rightarrow> ws list \<Rightarrow> bool" where
  "carried J P e n sent \<longleftrightarrow>
     (\<exists>us fs vs rnd now s evs s'. sent = us @ map WsText fs @ [WsPing (u64_be n)] @ vs \<and> fs \<noteq> []
        \<and> frames_for J P rnd now e s = (evs, Inr fs, s'))"

lemma carried_append: "carried J P e n sent \<Longrightarrow> carried J P e n (sent @ ms)"
  unfolding carried_def by (metis append.assoc)

abbreviation sent_of :: "conn \<Rightarrow> ws list" where "sent_of c \<equiv> sk_sent (cn_sock c)"

abbreviation confirms_of :: "client_event list \<Rightarrow> u64 set" where
  "confirms_of evs \<equiv> {tok. CSent tok \<in> set evs}"

text \<open>What the tracking says is on the wire.\<close>

definition tracked :: "json \<Rightarrow> prims \<Rightarrow> conn \<Rightarrow> bool" where
  "tracked J P c \<longleftrightarrow>
     (case cf_copy (cn_confirm c) of
        None \<Rightarrow> cn_unconfirmed c = None
      | Some n \<Rightarrow> \<exists>e. cn_unconfirmed c = Some e \<and> copy_of e = Some e \<and> carried J P e n (sent_of c))
     \<and> (\<forall>(n, tok) \<in> set (cf_tokens (cn_confirm c)). \<exists>e. token_of e = Some tok \<and> carried J P e n (sent_of c))
     \<and> (\<forall>tok \<in> confirms_of (cn_events c). \<exists>e n. token_of e = Some tok \<and> carried J P e n (sent_of c))"

text \<open>A step that only sends, reports other things than confirmations and changes the session, the queue,
  the hold or the ping number.\<close>

definition plain :: "conn \<Rightarrow> conn \<Rightarrow> bool" where
  "plain c c' \<longleftrightarrow>
     cf_copy (cn_confirm c') = cf_copy (cn_confirm c) \<and> cf_tokens (cn_confirm c') = cf_tokens (cn_confirm c)
     \<and> cn_unconfirmed c' = cn_unconfirmed c \<and> confirms_of (cn_events c') = confirms_of (cn_events c)
     \<and> (\<exists>ms. sent_of c' = sent_of c @ ms)"

lemma plain_refl [simp]: "plain c c"
  by (simp add: plain_def)

lemma plain_trans: "plain a b \<Longrightarrow> plain b c \<Longrightarrow> plain a c"
  by (auto simp: plain_def)

lemma plain_updates [simp]:
  "plain c (c\<lparr>cn_session := s\<rparr>)" "plain c (c\<lparr>cn_queue := q\<rparr>)" "plain c (c\<lparr>cn_hold := h\<rparr>)"
  "plain c (c\<lparr>cn_last_heard := t\<rparr>)" "plain c (next_ping c)"
  by (simp_all add: plain_def next_ping_def)

lemma plain_report: "confirms_of evs = {} \<Longrightarrow> plain c (report evs c)"
  by (auto simp: plain_def report_def)

lemma tracked_plain: "tracked J P c \<Longrightarrow> plain c c' \<Longrightarrow> tracked J P c'"
  unfolding tracked_def plain_def
  by (auto split: option.splits intro: carried_append) (fastforce intro: carried_append)+

lemma sock_send_plain: "plain c (snd (sock_send m c))"
  by (simp add: sock_send_def Let_def plain_def)

lemma sock_send_all_plain: "plain c (snd (sock_send_all fs c))"
  by (induction fs arbitrary: c) (auto intro!: cbind_rel [where R = plain] sock_send_plain intro: plain_trans)

lemma send_ping_plain: "plain c (snd (send_ping c))"
  unfolding send_ping_def Let_def by (metis plain_trans plain_updates(5) sock_send_plain)

lemma sock_send_sent: "sock_send m c = (Inr (), c') \<Longrightarrow> sent_of c' = sent_of c @ [m] \<and> cn_confirm c' = cn_confirm c"
  by (auto simp: sock_send_def Let_def split: if_splits)

lemma sock_send_all_sent:
  "sock_send_all fs c = (Inr (), c') \<Longrightarrow> sent_of c' = sent_of c @ map WsText fs \<and> cn_confirm c' = cn_confirm c"
proof (induction fs arbitrary: c)
  case (Cons f fs)
  then obtain c1 where c1: "sock_send (WsText f) c = (Inr (), c1)" "sock_send_all fs c1 = (Inr (), c')"
    by (cases rule: cbind_cases [of "sock_send (WsText f) c" "\<lambda>_ c. sock_send_all fs c"]) auto
  then show ?case using Cons.IH [OF c1(2)] sock_send_sent [OF c1(1)] by simp
qed simp

lemma send_ping_sent:
  "send_ping c = (Inr (), c') \<Longrightarrow> sent_of c' = sent_of c @ [WsPing (u64_be (cf_pings (cn_confirm c')))]"
  using sock_send_sent by (fastforce simp: send_ping_def Let_def next_ping_def)

lemma frames_for_confirms: "confirms_of (fst (frames_for J P rnd now e s)) = {}"
  by (cases e) (auto split: prod.split sum.split net_error.split option.split)

lemma copy_of_Some: "copy_of e = Some e' \<Longrightarrow> e' = e"
  by (cases e) auto

lemma track_fields:
  "sent_of (track e c) = sent_of c" "cn_events (track e c) = cn_events c"
  "cf_copy (cn_confirm (track e c)) = (if copy_of e = None then cf_copy (cn_confirm c) else Some (cf_pings (cn_confirm c)))"
  "cn_unconfirmed (track e c) = (if copy_of e = None then cn_unconfirmed c else Some e)"
  "set (cf_tokens (cn_confirm (track e c)))
    = set (cf_tokens (cn_confirm c)) \<union> {(cf_pings (cn_confirm c), tok) | tok. token_of e = Some tok}"
  by (auto simp: track_def Let_def dest: copy_of_Some split: option.splits)

lemma tracked_track:
  assumes "tracked J P c" "carried J P e (cf_pings (cn_confirm c)) (sent_of c)"
  shows "tracked J P (track e c)"
  using assms unfolding tracked_def track_fields
  by (auto split: option.splits dest: copy_of_Some)

lemma send_event_cases:
  obtains (sent) c' fs where
      "snd (send_event J P rnd now e c) = track e c'" "plain c c'" "carried J P e (cf_pings (cn_confirm c')) (sent_of c')"
  | (quiet_end) "plain c (snd (send_event J P rnd now e c))"
proof -
  obtain evs r s where f: "frames_for J P rnd now e (cn_session c) = (evs, r, s)" by (metis prod_cases3)
  have evs: "confirms_of evs = {}" using frames_for_confirms [of J P rnd now e "cn_session c"] f by simp
  let ?c0 = "report evs (c\<lparr>cn_session := s\<rparr>)"
  have p0: "plain c ?c0" using plain_report [OF evs] plain_updates(1) plain_trans by blast
  show thesis
  proof (cases r)
    case (Inl err)
    then show ?thesis using quiet_end f p0 by (simp add: send_event_def)
  next
    case (Inr frames)
    have p1: "plain c (snd (sock_send_all frames ?c0))" using p0 sock_send_all_plain plain_trans by blast
    show ?thesis
    proof (cases rule: cbind_cases [of "sock_send_all frames ?c0" "\<lambda>_ c. if frames = [] \<or> (copy_of e = None \<and> token_of e = None) then (Inr (), c)
            else cbind (send_ping c) (\<lambda>_ c. (Inr (), track e c))"])
      case (fails err c1)
      then show ?thesis using quiet_end f Inr p1 by (simp add: send_event_def)
    next
      case (runs u c1)
      have p1: "plain c c1" using p1 runs(1) by simp
      have s1: "sent_of c1 = sent_of ?c0 @ map WsText frames" using sock_send_all_sent runs(1) by simp
      show ?thesis
      proof (cases "frames = [] \<or> (copy_of e = None \<and> token_of e = None)")
        case True
        then show ?thesis using quiet_end f Inr p1 runs by (simp add: send_event_def)
      next
        case False
        show ?thesis
        proof (cases rule: cbind_cases [of "send_ping c1" "\<lambda>_ c. (Inr (), track e c)"])
          case (fails err c2)
          then have "plain c c2" using p1 send_ping_plain [of c1] by (auto intro: plain_trans)
          then show ?thesis using quiet_end f Inr runs False fails by (simp add: send_event_def)
        next
          case (runs v c2)
          have p2: "plain c c2" using p1 send_ping_plain [of c1] runs(1) by (auto intro: plain_trans)
          have "sent_of c2 = sent_of ?c0 @ map WsText frames @ [WsPing (u64_be (cf_pings (cn_confirm c2)))] @ []"
            using send_ping_sent runs(1) s1 by simp
          then have "carried J P e (cf_pings (cn_confirm c2)) (sent_of c2)"
            using False f Inr unfolding carried_def by blast
          then show ?thesis
            using sent [OF _ p2] f Inr \<open>cbind (sock_send_all frames ?c0) _ = _\<close> False runs(2) by (simp add: send_event_def)
        qed
      qed
    qed
  qed
qed

text \<open>A copy that is waiting for its answer stays, or a newer one takes its place.\<close>

abbreviation waits :: "conn \<Rightarrow> conn \<Rightarrow> bool" where
  "waits c c' \<equiv> cn_unconfirmed c \<noteq> None \<longrightarrow> cn_unconfirmed c' \<noteq> None"

lemma send_local_waits: "waits c (snd (send_local J P env n es c))"
proof (induction es arbitrary: n c)
  case (Cons e es)
  have "waits c (snd (send_event J P (fst (env n)) (snd (env n)) e c))"
    by (cases rule: send_event_cases [of J P "fst (env n)" "snd (env n)" e c]) (auto simp: track_fields plain_def)
  then show ?case
    using Cons by (cases rule: cbind_cases [of "send_event J P (fst (env n)) (snd (env n)) e c" "\<lambda>_ c. send_local J P env (Suc n) es c"]) auto
qed simp

text \<open>The answer to a ping.\<close>

lemma tracked_on_pong: "tracked J P c \<Longrightarrow> tracked J P (on_pong payload c)"
  by (auto simp: tracked_def on_pong_def report_def Let_def split: option.split_asm) blast+

lemma tracked_start: "tracked J P (conn_start s k now queue)"
  by (simp add: tracked_def conn_start_def confirm_default_def)

lemma apply_action_plain: "plain c (snd (apply_action now a c))"
proof (cases a)
  case (ASend f)
  then show ?thesis by (auto intro!: cbind_rel [where R = plain] sock_send_plain intro: plain_trans)
qed (auto simp: plain_def report_def split: option.split)

lemma apply_actions_plain: "plain c (snd (apply_actions now as c))"
  by (induction "as" arbitrary: c)
    (auto intro!: cbind_rel [where R = plain] apply_action_plain intro: plain_trans split: option.split)

text \<open>What the steps below the loop share: an invariant of plain steps, of the tracking of a carried event
  and of the answer to a ping is an invariant of the connection.\<close>

locale conn_invariant =
  fixes J :: json and P :: prims and inv :: "conn \<Rightarrow> bool"
  assumes plain_inv: "inv c \<Longrightarrow> plain c c' \<Longrightarrow> inv c'"
    and track_inv: "inv c \<Longrightarrow> carried J P e (cf_pings (cn_confirm c)) (sent_of c) \<Longrightarrow> inv (track e c)"
    and pong_inv: "inv c \<Longrightarrow> inv (on_pong payload c)"
begin

lemma send_event_inv: "inv c \<Longrightarrow> inv (snd (send_event J P rnd now e c))"
  by (cases rule: send_event_cases [of J P rnd now e c]) (auto intro: plain_inv track_inv)

lemma send_local_inv: "inv c \<Longrightarrow> inv (snd (send_local J P env n es c))"
proof (induction es arbitrary: n c)
  case (Cons e es)
  show ?case
    unfolding send_local.simps
    by (rule cbind_inv [where I = inv], rule send_event_inv [OF Cons.prems], rule Cons.IH)
qed simp

lemma on_incoming_inv: "inv c \<Longrightarrow> inv (snd (on_incoming J P t i c))"
proof -
  assume c: "inv c"
  then have h: "inv (c\<lparr>cn_last_heard := tn_now t\<rparr>)" by (rule plain_inv) simp
  have a: "inv (snd (apply_actions (tn_now t) as (c\<lparr>cn_last_heard := tn_now t, cn_session := s\<rparr>)))" for "as" s
    by (intro plain_inv [OF h] plain_trans [OF plain_updates(1) apply_actions_plain])
  have s: "inv (c\<lparr>cn_last_heard := tn_now t, cn_session := s\<rparr>)" for s
    by (rule plain_inv [OF h]) simp
  show ?thesis
    using c h a s
    by (auto simp: on_incoming_def Let_def pong_inv split: incoming_ws.split ws.split prod.split sum.split net_error.split)
qed

lemma resend_first_inv: "inv c \<Longrightarrow> inv (snd (resend_first J P t c))"
  using send_local_inv plain_inv [OF _ plain_updates(1)]
  by (auto simp: resend_first_def take_resend_def split: option.split simp del: send_local.simps)

lemma converse_turn_inv: "inv c \<Longrightarrow> inv (snd (converse_turn J P t c))"
  unfolding converse_turn_def Let_def
proof (rule cbind_inv [where I = inv], rule resend_first_inv, assumption)
  fix u c1
  assume c1: "inv c1"
  have "inv (snd (cbind (send_local J P (tn_env t) 0 es (c1\<lparr>cn_queue := []\<rparr>)) (\<lambda>_ c. (Inr (None :: disconnect option), c))))" for es
    using send_local_inv [OF plain_inv [OF c1 plain_updates(2)]] by (rule cbind_inv [where I = inv]) simp
  moreover have "inv (snd (cbind (send_ping c1) (\<lambda>_ c. (Inr (None :: disconnect option), c))))"
    using plain_inv [OF c1 send_ping_plain] by (rule cbind_inv [where I = inv]) simp
  ultimately show "inv (snd (case tn_branch t of
          BIncoming i \<Rightarrow> on_incoming J P t i c1
        | BLocal \<Rightarrow>
            if \<not> (is_ready (cn_session c) \<and> \<not> cn_held (tn_top t) c) then (Inr None, c1)
            else (case cn_queue c1 of
                [] \<Rightarrow> (Inr (if cn_closed c1 then Some DLocalChannelClosed else None), c1)
              | e # queued \<Rightarrow>
                  cbind (send_local J P (tn_env t) 0 (coalesce e queued) (c1\<lparr>cn_queue := []\<rparr>))
                    (\<lambda>_ c. (Inr None, c)))
        | BPing \<Rightarrow>
            if tn_now t - cn_last_heard c1 > SILENCE_LIMIT then (Inr (Some DEof), c1)
            else cbind (send_ping c1) (\<lambda>_ c. (Inr None, c))
        | BHoldOver \<Rightarrow> (Inr None, if cn_held (tn_top t) c then c1\<lparr>cn_hold := None\<rparr> else c1)))"
    using c1 on_incoming_inv [OF c1] plain_inv [OF c1 plain_updates(3)]
    by (simp split: branch.split list.split)
qed

lemma converse_inv: "inv c \<Longrightarrow> inv (snd (converse J P ts c))"
proof (induction ts arbitrary: c)
  case (Cons t ts)
  then show ?case
    using converse_turn_inv [OF Cons.prems, of t] by (auto split: prod.split sum.split option.split)
qed simp

end

interpretation tracking: conn_invariant J P "tracked J P"
  by unfold_locales (rule tracked_plain tracked_track tracked_on_pong; assumption)+

interpretation wire: conn_invariant J P "\<lambda>c. \<exists>ms. sent_of c = wired @ ms"
  by unfold_locales (auto simp: plain_def track_fields on_pong_def report_def Let_def)

text \<open>What a turn may do to a copy that waits.\<close>

lemma turn_waits:
  assumes "cn_unconfirmed c \<noteq> None" "cn_unconfirmed (snd (converse_turn J P t c)) = None"
  shows "\<exists>n. cf_copy (cn_confirm c) = Some n \<and> tn_branch t = BIncoming (Came (WsPong (u64_be n)))"
proof -
  have res: "resend_first J P t c = (Inr (), c)" using assms(1) by (auto simp: resend_first_def)
  have pl: "cn_unconfirmed c' = cn_unconfirmed c" if "plain c c'" for c' using that by (simp add: plain_def)
  have act: "cn_unconfirmed (snd (apply_actions now as (c\<lparr>cn_last_heard := h, cn_session := s\<rparr>))) = cn_unconfirmed c"
    for now "as" h s
    using pl plain_trans [OF plain_trans [OF plain_updates(4) plain_updates(1)] apply_actions_plain] by blast
  show ?thesis
  proof (cases "tn_branch t")
    case (BIncoming i)
    then obtain payload where p: "i = Came (WsPong payload)" "cn_unconfirmed (on_pong payload (c\<lparr>cn_last_heard := tn_now t\<rparr>)) = None"
      using assms res act
      by (simp add: converse_turn_def Let_def on_incoming_def split: incoming_ws.splits ws.splits prod.splits sum.splits net_error.splits)
    then show ?thesis
      using assms(1) BIncoming by (auto simp: on_pong_def report_def Let_def words_be_inverse split: if_split_asm)
  next
    case BLocal
    have "cn_unconfirmed (snd (cbind (send_local J P (tn_env t) 0 es (c\<lparr>cn_queue := []\<rparr>)) (\<lambda>_ c. (Inr (None :: disconnect option), c)))) \<noteq> None" for es
      using send_local_waits [of "c\<lparr>cn_queue := []\<rparr>" J P "tn_env t" 0 es] assms(1)
      by (intro cbind_inv [where I = "\<lambda>c. cn_unconfirmed c \<noteq> None"]) simp_all
    then show ?thesis using assms res BLocal by (auto simp: converse_turn_def Let_def split: list.split_asm if_split_asm) (metis option.distinct(1))
  next
    case BPing
    have "cn_unconfirmed (snd (cbind (send_ping c) (\<lambda>_ c. (Inr (None :: disconnect option), c)))) \<noteq> None"
      using pl [OF send_ping_plain] assms(1) by (intro cbind_inv [where I = "\<lambda>c. cn_unconfirmed c \<noteq> None"]) simp_all
    then show ?thesis using assms res BPing by (auto simp: converse_turn_def Let_def split: if_split_asm)
  next
    case BHoldOver
    then show ?thesis using assms res by (auto simp: converse_turn_def Let_def split: if_split_asm)
  qed
qed

lemma converse_waits:
  assumes "tracked J P c" "cn_unconfirmed c \<noteq> None" "cn_unconfirmed (snd (converse J P ts c)) = None"
  shows "\<exists>t \<in> set ts. \<exists>n e. tn_branch t = BIncoming (Came (WsPong (u64_be n))) \<and> copy_of e = Some e
    \<and> carried J P e n (sent_of (snd (converse J P ts c)))"
  using assms
proof (induction ts arbitrary: c)
  case (Cons t ts)
  let ?c = "snd (converse_turn J P t c)"
  have "\<exists>ms. sent_of (snd (converse J P (t # ts) c)) = sent_of c @ ms" by (rule wire.converse_inv) simp
  then obtain ms where ms: "sent_of (snd (converse J P (t # ts) c)) = sent_of c @ ms" ..
  show ?case
  proof (cases "cn_unconfirmed ?c = None")
    case True
    then obtain n where n: "cf_copy (cn_confirm c) = Some n" "tn_branch t = BIncoming (Came (WsPong (u64_be n)))"
      using turn_waits Cons.prems(2) by blast
    then obtain e where "copy_of e = Some e" "carried J P e n (sent_of c)"
      using Cons.prems(1) by (auto simp: tracked_def)
    then show ?thesis using n(2) carried_append unfolding ms by fastforce
  next
    case False
    then obtain c1 where "converse_turn J P t c = (Inr None, c1)" "snd (converse J P (t # ts) c) = snd (converse J P ts c1)"
      using Cons.prems(3) by (auto split: prod.splits sum.splits option.splits)
    then show ?thesis
      using Cons.IH [of c1] Cons.prems False tracking.converse_turn_inv [OF Cons.prems(1), of t] by auto
  qed
qed simp


definition ex_turn :: "branch \<Rightarrow> turn" where
  "ex_turn b = \<lparr>tn_top = 0, tn_now = 1, tn_wall = 5, tn_draws = (\<lambda>_. None),
     tn_env = (\<lambda>_. ((\<lambda>i. Some (if i = 0 then ex_dev 7 else replicate 24 7)), 5)), tn_branch = b\<rparr>"

definition ex_sock :: "nat \<Rightarrow> sock" where
  "ex_sock n = \<lparr>sk_sent = [], sk_left = n, sk_err = ''reset''\<rparr>"

lemma ex_converse:
  assumes "observe_local J toy_prims (Some (ex_dev 7)) (Some (replicate 24 7)) [104, 10, 105] 5 (ex_session 1)
    = (Inr (Some ''f''), (ex_session 1)\<lparr>ss_seq := 1\<rparr>)"
  shows "\<exists>c. converse J toy_prims [ex_turn BLocal] (conn_start (ex_session 1) (ex_sock 9) 0 [LText [104, 10, 105]]) = (None, c)
    \<and> cn_unconfirmed c = Some (LText [104, 10, 105])"
  using assms
  by (simp add: converse_turn_def Let_def resend_first_def conn_start_def take_resend_def ex_turn_def cn_held_def
      is_ready_def ex_session_def session_new_def coalesce_def batch_empty_def send_event_def report_def ex_sock_def
      sock_send_def send_ping_def next_ping_def track_def cbind_def)



text \<open>A copy is lost when the socket fails while it is being sent: the queue is empty, the connection ends
  with the transport error, and nothing is handed to the next one.\<close>

theorem client_copy_lost_on_failed_send:
  assumes "observe_local J P (fst (tn_env t 0) 0) (fst (tn_env t 0) 1) text (snd (tn_env t 0)) (cn_session c) = (Inr (Some f), s')"
    and "cn_unconfirmed c = None" "ss_resend (cn_session c) = None" "cn_hold c = None"
    and "cn_queue c = [LText text]" "tn_branch t = BLocal" "sk_left (cn_sock c) = 0"
  shows "\<exists>c'. converse J P [t] c = (Some (Inl (NetTransport (sk_err (cn_sock c)))), c')
    \<and> cn_queue c' = [] \<and> sk_sent (cn_sock c') = sk_sent (cn_sock c) \<and> ss_resend (stash_unconfirmed c') = None"
proof -
  have ready: "is_ready (cn_session c)"
    using assms(1) by (auto simp: observe_local_def is_ready_def split: if_split_asm)
  have re: "ss_resend s' = None"
    using assms(1,3)
    by (auto simp: observe_local_def send_clip_def Let_def crypto_def sbind_def split: if_split_asm option.split_asm prod.split_asm sum.split_asm)
  have "take_resend (cn_session c) = (None, cn_session c)" using assms(3) by (simp add: take_resend_def)
  then show ?thesis
    using assms(1-7) ready re
    by (simp add: converse_turn_def Let_def resend_first_def cn_held_def coalesce_def batch_empty_def
        send_event_def report_def sock_send_def cbind_def stash_unconfirmed_def)
qed

lemma client_copy_lost_on_failed_send_witness:
  "\<exists>J c'. snd (converse J toy_prims [ex_turn BLocal] (conn_start (ex_session 1) (ex_sock 0) 0 [LText [104, 10, 105]])) = c'
    \<and> cn_queue c' = [] \<and> sk_sent (cn_sock c') = [] \<and> ss_resend (stash_unconfirmed c') = None"
proof -
  obtain J where J: "observe_local J toy_prims (Some (ex_dev 7)) (Some (replicate 24 7)) [104, 10, 105] 5 (ex_session 1)
      = (Inr (Some ''f''), (ex_session 1)\<lparr>ss_seq := 1\<rparr>)" by (rule ex_observed)
  let ?c = "conn_start (ex_session 1) (ex_sock 0) 0 [LText [104, 10, 105]]"
  have o: "observe_local J toy_prims (fst (tn_env (ex_turn BLocal) 0) 0) (fst (tn_env (ex_turn BLocal) 0) 1) [104, 10, 105]
      (snd (tn_env (ex_turn BLocal) 0)) (cn_session ?c) = (Inr (Some ''f''), (ex_session 1)\<lparr>ss_seq := 1\<rparr>)"
    using J by (simp add: ex_turn_def conn_start_def)
  have "cn_unconfirmed ?c = None" "ss_resend (cn_session ?c) = None" "cn_hold ?c = None" "cn_queue ?c = [LText [104, 10, 105]]"
    "tn_branch (ex_turn BLocal) = BLocal" "sk_left (cn_sock ?c) = 0" "sk_sent (cn_sock ?c) = []"
    by (simp_all add: conn_start_def ex_session_def session_new_def ex_turn_def ex_sock_def)
  then show ?thesis using client_copy_lost_on_failed_send [OF o] by (metis snd_conv)
qed

section \<open>Pacing\<close>

lemma pace_dues_bound:
  "sent + sum_list ns < 2 ^ 64 \<Longrightarrow> i < length ns \<Longrightarrow>
    of_nat (sent + sum_list (take (Suc i) ns)) \<le> of_nat PACE_BURST + of_nat PACE_PER_SEC * (pace_dues sent ns ! i)"
proof (induction sent ns arbitrary: i rule: pace_dues.induct)
  case (2 sent n ns)
  show ?case
  proof (cases i)
    case 0
    then show ?thesis using 2 by (simp add: pace_wait_for_def Let_def PACE_BURST_def PACE_PER_SEC_def)
  next
    case (Suc j)
    then show ?thesis using 2 by (simp add: pace_wait_for_def Let_def algebra_simps)
  qed
qed simp

end
