(* ===== verification/Config.thy ===== *)
theory Config
  imports Session
begin

text \<open>
  Settings and the per device counter, \<open>crates/asli-app/src/config.rs\<close>: hexadecimal, the configuration
  with its defaults and the one migration of loading it, the counter of \<open>state.json\<close>; and the memory of
  the replay guard as \<open>crates/asli-app/src/replay_store.rs\<close> saves it. Reading and writing JSON and the
  file system are outcomes and parameters: a file is what it parses to, and a write goes through or not.
\<close>

section \<open>Errors\<close>

text \<open>What of \<open>error.rs\<close> these operations return.\<close>

datatype app_error = AppIo string | AppParse string | AppCrypto error

section \<open>Hexadecimal\<close>

definition hex_char :: "nat \<Rightarrow> uchar" where
  "hex_char d = (if d < 10 then 48 + d else 87 + d)"

definition hex :: "bytes \<Rightarrow> ustr" where
  "hex bs = concat (map (\<lambda>b. [hex_char (unat b div 16), hex_char (unat b mod 16)]) bs)"

definition hex_digit :: "uchar \<Rightarrow> nat option" where
  "hex_digit c =
     (if 48 \<le> c \<and> c \<le> 57 then Some (c - 48)
      else if 97 \<le> c \<and> c \<le> 102 then Some (c - 87)
      else if 65 \<le> c \<and> c \<le> 70 then Some (c - 55) else None)"

text \<open>\<open>u8::from_str_radix\<close> on two characters; a leading plus sign is allowed.\<close>

fun radix16 :: "ustr \<Rightarrow> byte option" where
  "radix16 [a, b] =
     (if a = 43 then map_option of_nat (hex_digit b)
      else case (hex_digit a, hex_digit b) of (Some x, Some y) \<Rightarrow> Some (of_nat (16 * x + y)) | _ \<Rightarrow> None)"
| "radix16 _ = None"

text \<open>The loop takes the text two bytes at a time. A character outside ASCII ends it: its bytes are not
  digits, and a range that cuts it is no text.\<close>

fun unhex_loop :: "ustr \<Rightarrow> bytes option" where
  "unhex_loop [] = Some []"
| "unhex_loop [a] = None"
| "unhex_loop (a # b # s) =
     (case radix16 [a, b] of None \<Rightarrow> None | Some x \<Rightarrow> map_option ((#) x) (unhex_loop s))"

definition unhex :: "nat \<Rightarrow> ustr \<Rightarrow> bytes option" where
  "unhex n s = (if str_len s \<noteq> 2 * n then None else unhex_loop s)"

definition config_unhex :: "ustr \<Rightarrow> bytes option" where
  "config_unhex s = (if str_len s \<noteq> 32 then None else unhex_loop s)"

section \<open>Settings\<close>

definition DEFAULT_RELAY_URL :: ustr where "DEFAULT_RELAY_URL = ulit ''wss://asli.vnat.dev/v1''"
definition DEFAULT_MAX_CONTENT_BYTES :: nat where "DEFAULT_MAX_CONTENT_BYTES = 32 * 1024 * 1024"
definition OLD_DEFAULT_MAX_CONTENT_BYTES :: nat where "OLD_DEFAULT_MAX_CONTENT_BYTES = 700 * 1024"

record config =
  cg_relay_url :: ustr
  cg_max_content_bytes :: nat
  cg_notifications :: bool
  cg_autostart :: bool
  cg_device_id :: ustr
  cg_keep_history :: bool
  cg_history_entries :: nat
  cg_device_name :: ustr
  cg_key_never_exported :: bool
  cg_same_network_only :: bool
  cg_ask_right_away :: bool

definition default_keep_history :: bool where "default_keep_history = True"
definition default_history_entries :: nat where "default_history_entries = 100"
definition default_ask_right_away :: bool where "default_ask_right_away = True"

definition new_with_random_device_id :: "rand \<Rightarrow> app_error + config" where
  "new_with_random_device_id r =
     ebind (map_err AppCrypto (random_bytes r)) (\<lambda>device_id.
       Inr \<lparr>cg_relay_url = DEFAULT_RELAY_URL, cg_max_content_bytes = DEFAULT_MAX_CONTENT_BYTES,
         cg_notifications = False, cg_autostart = True, cg_device_id = hex device_id,
         cg_keep_history = default_keep_history, cg_history_entries = default_history_entries,
         cg_device_name = [], cg_key_never_exported = False, cg_same_network_only = False,
         cg_ask_right_away = True\<rparr>)"

definition device_id_bytes :: "config \<Rightarrow> app_error + bytes" where
  "device_id_bytes c =
     ok_or (AppParse ''device_id is not 32 hexadecimal characters'') (config_unhex (cg_device_id c))"

text \<open>The files: what each holds as far as it parses, \<open>None\<close> where there is none. \<open>io\<close> is the error of a
  write, if any.\<close>

datatype 'a parsed = Parsed 'a | Unparsable string | Unreadable string

record replay_stored =
  rs_room :: ustr
  rs_highest_seq :: "(ustr \<times> u64) list"
  rs_recent :: "ustr list"

record app_files =
  af_config :: "config parsed option"
  af_state :: "u64 parsed option"
  af_replay :: "replay_stored parsed option"

type_synonym 'a app_outcome = "(app_error + 'a) \<times> app_files"

definition save_config :: "string option \<Rightarrow> config \<Rightarrow> app_files \<Rightarrow> unit app_outcome" where
  "save_config io c fs =
     (case io of Some e \<Rightarrow> (Inl (AppIo e), fs) | None \<Rightarrow> (Inr (), fs\<lparr>af_config := Some (Parsed c)\<rparr>))"

definition load_config :: "rand \<Rightarrow> string option \<Rightarrow> app_files \<Rightarrow> config app_outcome" where
  "load_config r io fs =
     (case af_config fs of
        None \<Rightarrow>
          (case new_with_random_device_id r of
             Inl e \<Rightarrow> (Inl e, fs)
           | Inr c \<Rightarrow> (case save_config io c fs of (Inl e, fs) \<Rightarrow> (Inl e, fs) | (Inr _, fs) \<Rightarrow> (Inr c, fs)))
      | Some (Unreadable e) \<Rightarrow> (Inl (AppIo e), fs)
      | Some (Unparsable e) \<Rightarrow> (Inl (AppParse e), fs)
      | Some (Parsed c) \<Rightarrow>
          (Inr (if cg_max_content_bytes c = OLD_DEFAULT_MAX_CONTENT_BYTES
                then c\<lparr>cg_max_content_bytes := DEFAULT_MAX_CONTENT_BYTES\<rparr> else c), fs))"

definition load_state :: "app_files \<Rightarrow> app_error + u64" where
  "load_state fs =
     (case af_state fs of
        None \<Rightarrow> Inr 0
      | Some (Unreadable e) \<Rightarrow> Inl (AppIo e)
      | Some (Unparsable e) \<Rightarrow> Inl (AppParse e)
      | Some (Parsed n) \<Rightarrow> Inr n)"

definition save_state :: "string option \<Rightarrow> u64 \<Rightarrow> app_files \<Rightarrow> unit app_outcome" where
  "save_state io n fs =
     (case io of Some e \<Rightarrow> (Inl (AppIo e), fs) | None \<Rightarrow> (Inr (), fs\<lparr>af_state := Some (Parsed n)\<rparr>))"

section \<open>The memory of the replay guard\<close>

definition memory_default :: memory where
  "memory_default = \<lparr>mem_highest_seq = [], mem_recent = []\<rparr>"

definition replay_load :: "ustr \<Rightarrow> app_files \<Rightarrow> memory" where
  "replay_load r fs =
     (case af_replay fs of
        Some (Parsed s) \<Rightarrow>
          if rs_room s \<noteq> r then memory_default
          else \<lparr>mem_highest_seq = List.map_filter (\<lambda>(device, seq).
                   map_option (\<lambda>d. (d, seq)) (config_unhex device)) (rs_highest_seq s),
                mem_recent = List.map_filter config_unhex (rs_recent s)\<rparr>
      | _ \<Rightarrow> memory_default)"

definition replay_save :: "string option \<Rightarrow> ustr \<Rightarrow> memory \<Rightarrow> app_files \<Rightarrow> unit app_outcome" where
  "replay_save io r m fs =
     (case io of
        Some e \<Rightarrow> (Inl (AppIo e), fs)
      | None \<Rightarrow> (Inr (), fs\<lparr>af_replay := Some (Parsed \<lparr>rs_room = r,
            rs_highest_seq = map (\<lambda>(device, seq). (hex device, seq)) (mem_highest_seq m),
            rs_recent = map hex (mem_recent m)\<rparr>)\<rparr>))"

definition replay_wipe :: "app_files \<Rightarrow> app_files" where
  "replay_wipe fs = fs\<lparr>af_replay := None\<rparr>"

section \<open>Facts\<close>

lemma hex_char_digit: "d < 16 \<Longrightarrow> hex_digit (hex_char d) = Some d \<and> hex_char d \<noteq> 43 \<and> hex_char d < 128"
  by (auto simp: hex_char_def hex_digit_def)

lemma byte_halves: "unat (b :: byte) div 16 < 16" "unat b mod 16 < 16"
  using unat_bound [of b] by auto

lemma hex_ascii: "list_all (\<lambda>c. c < 128) (hex bs)"
  by (induction bs) (auto simp: hex_def hex_char_digit byte_halves)

lemma length_hex: "length (hex bs) = 2 * length bs"
  by (induction bs) (auto simp: hex_def)

lemma str_len_hex: "str_len (hex bs) = 2 * length bs"
  using str_len_ascii [OF hex_ascii] length_hex by simp

lemma unhex_loop_hex: "unhex_loop (hex bs) = Some bs"
proof (induction bs)
  case (Cons b bs)
  have "of_nat (16 * (unat b div 16) + unat b mod 16) = b" by simp
  then show ?case using Cons hex_char_digit [OF byte_halves(1)] hex_char_digit [OF byte_halves(2)]
    by (simp add: hex_def)
qed (simp add: hex_def)

lemma unhex_hex [simp]: "length bs = n \<Longrightarrow> unhex n (hex bs) = Some bs"
  by (simp add: unhex_def str_len_hex unhex_loop_hex)

lemma config_unhex_hex [simp]: "length bs = 16 \<Longrightarrow> config_unhex (hex bs) = Some bs"
  by (simp add: config_unhex_def str_len_hex unhex_loop_hex)

lemma hex_inject [simp]: "hex a = hex b \<longleftrightarrow> a = b"
  by (metis unhex_loop_hex option.inject)

text \<open>Only digits are read, apart from the plus sign that the standard library allows before a digit.\<close>

lemma unhex_loop_reads: "unhex_loop s = Some bs \<Longrightarrow> length s = 2 * length bs"
proof (induction s arbitrary: bs rule: unhex_loop.induct)
  case (3 a b s)
  then show ?case by (auto split: option.splits)
qed auto

lemma unhex_length: "unhex n s = Some bs \<Longrightarrow> length bs = n"
proof -
  assume u: "unhex n s = Some bs"
  have "list_all (\<lambda>c. c < 128) s" if "unhex_loop s = Some bs" for s bs
    using that
  proof (induction s arbitrary: bs rule: unhex_loop.induct)
    case (3 a b s)
    then show ?case by (auto simp: hex_digit_def split: option.splits if_splits)
  qed auto
  then show ?thesis using u unhex_loop_reads [of s bs] str_len_ascii [of s] by (auto simp: unhex_def split: if_splits)
qed

text \<open>What was saved for a room is what is loaded for it, and nothing is loaded for another room.\<close>

lemma replay_file_roundtrip:
  assumes "list_all (\<lambda>(d, _). length d = 16) (mem_highest_seq m)" "list_all (\<lambda>i. length i = 16) (mem_recent m)"
  shows "replay_load r (snd (replay_save None r m fs)) = m"
    and "r' \<noteq> r \<Longrightarrow> replay_load r' (snd (replay_save None r m fs)) = memory_default"
proof -
  have a: "List.map_filter (\<lambda>(device, seq). map_option (\<lambda>d. (d, seq)) (config_unhex device)) (map (\<lambda>(device, seq). (hex device, seq)) xs) = xs"
    if "list_all (\<lambda>(d, _). length d = 16) xs" for xs :: "(bytes \<times> u64) list"
    using that by (induction xs) (auto simp: List.map_filter_simps)
  have b: "List.map_filter config_unhex (map hex xs) = xs" if "list_all (\<lambda>i. length i = 16) xs" for xs
    using that by (induction xs) (auto simp: List.map_filter_simps)
  show "replay_load r (snd (replay_save None r m fs)) = m"
    using a [OF assms(1)] b [OF assms(2)] by (simp add: replay_load_def replay_save_def)
  show "r' \<noteq> r \<Longrightarrow> replay_load r' (snd (replay_save None r m fs)) = memory_default"
    by (simp add: replay_load_def replay_save_def)
qed

text \<open>C39: Replay protection survives a restart: a new guard that takes back what the file holds of the old
  guard's memory gives every later sequence of deliveries the verdicts the old guard would have given, while
  the devices fit; for another account it starts empty.\<close>

theorem replay_restart_from_file:
  assumes "replay_inv g" "replay_config g = replay_config (replay_new own ret)"
    and "card (run_devices g ds) \<le> device_capacity g"
    and "list_all (\<lambda>(d, _). length d = 16) (mem_highest_seq (memory_of g))"
    and "list_all (\<lambda>i. length i = 16) (mem_recent (memory_of g))"
  shows "let saved = snd (replay_save None r (memory_of g) fs) in
    verdicts (restore (replay_new own ret) (replay_load r saved)) ds = verdicts g ds
    \<and> (r' = r \<or> replay_load r' saved = memory_default)"
  using replay_file_roundtrip(1) [OF assms(4,5), of r fs] replay_file_roundtrip(2) [OF assms(4,5), of r' r fs]
    replay_restart [OF assms(1-3)] unfolding Let_def by auto

definition no_files :: app_files where
  "no_files = \<lparr>af_config = None, af_state = None, af_replay = None\<rparr>"

lemma ex_guard1_inv: "replay_inv ex_guard1" "replay_config ex_guard1 = replay_config (replay_new (ex_dev 0) 86400000)"
proof -
  have e: "ex_guard1 = record_clip ex_guard (ex_clip 2 2 7)" by (simp add: ex_record)
  show "replay_inv ex_guard1" unfolding e by (rule record_clip_inv [OF ex_guard_inv]) (simp add: ex_guard_def replay_new_def)
  show "replay_config ex_guard1 = replay_config (replay_new (ex_dev 0) 86400000)"
    by (simp add: ex_guard1_def ex_guard_def replay_config_def replay_new_def)
qed

lemma ex_guard1_memory: "memory_of ex_guard1 = \<lparr>mem_highest_seq = [(ex_dev 2, 7)], mem_recent = [ex_dev 2]\<rparr>"
  by (simp add: memory_of_def ex_guard1_def ex_guard_def replay_new_def)

lemma replay_restart_from_file_witness:
  "verdicts (restore (replay_new (ex_dev 0) 86400000)
       (replay_load [1] (snd (replay_save None [1] (memory_of ex_guard1) no_files)))) (tl ex_run)
     = [Duplicate, Rollback, Accept]
   \<and> replay_load [2] (snd (replay_save None [1] (memory_of ex_guard1) no_files)) = memory_default"
proof -
  have "list_all (\<lambda>(d, _). length d = 16) (mem_highest_seq (memory_of ex_guard1))"
    "list_all (\<lambda>i. length i = 16) (mem_recent (memory_of ex_guard1))"
    by (simp_all add: ex_guard1_memory ex_dev_def)
  moreover have "card (run_devices ex_guard1 (tl ex_run)) \<le> device_capacity ex_guard1"
    by (simp add: run_devices_def ex_guard1_def ex_guard_def replay_new_def ex_run_def ex_clip_def asli_const)
  moreover have "verdicts ex_guard1 (tl ex_run) = [Duplicate, Rollback, Accept]"
    by (simp add: ex_run_def ex_steps)
  ultimately show ?thesis
    using replay_restart_from_file [OF ex_guard1_inv, of "tl ex_run" "[1]" no_files "[2]"] by (simp add: Let_def)
qed

end
