(* ===== verification/Devices.thy ===== *)
theory Devices
  imports Config "HOL-Library.List_Lexorder" "HOL-Library.Product_Lexorder"
begin

text \<open>
  The devices of the account as this one knows them, \<open>crates/asli-app/src/devices.rs\<close>: what announcements,
  signed cards and versions record, who counts as online, the keys that stay pinned, the order of the
  list, and the file. The map is the ordered map of the code, by the hexadecimal device id. The operations
  of the handle are functions of the registry behind its lock; a save takes whether it goes through, since
  a failure is only logged. What the system calls the computer is not modelled.
\<close>

section \<open>Ordered maps\<close>

fun bt_insert :: "'k::linorder \<Rightarrow> 'v \<Rightarrow> ('k \<times> 'v) list \<Rightarrow> ('k \<times> 'v) list" where
  "bt_insert k v [] = [(k, v)]"
| "bt_insert k v ((k', v') # m) =
     (if k < k' then (k, v) # (k', v') # m else if k = k' then (k, v) # m else (k', v') # bt_insert k v m)"

definition bt_remove :: "'k \<Rightarrow> ('k \<times> 'v) list \<Rightarrow> ('k \<times> 'v) list" where
  "bt_remove k m = filter (\<lambda>p. fst p \<noteq> k) m"

definition bt_ok :: "('k::linorder \<times> 'v) list \<Rightarrow> bool" where
  "bt_ok m \<longleftrightarrow> sorted (map fst m) \<and> distinct (map fst m)"

text \<open>The first entry with the least key, as \<open>min_by_key\<close> returns it.\<close>

fun min_by :: "('a \<Rightarrow> 'b::linorder) \<Rightarrow> 'a list \<Rightarrow> 'a option" where
  "min_by f [] = None"
| "min_by f (x # xs) =
     (case min_by f xs of None \<Rightarrow> Some x | Some y \<Rightarrow> if f y < f x then Some y else Some x)"

lemma min_by_in: "min_by f xs = Some x \<Longrightarrow> x \<in> set xs"
  by (induction xs arbitrary: x) (auto split: option.splits if_splits)

section \<open>The registry\<close>

definition MAX_DEVICES :: nat where [asli_const]: "MAX_DEVICES = 64"

definition id_bytes :: "ustr \<Rightarrow> bytes option" where
  "id_bytes i = unhex 16 i"

record dev_entry =
  de_sign_pub :: ustr
  de_box_pub :: ustr
  de_name :: ustr
  de_os :: ustr
  de_last_seen_ms :: u64
  de_version :: ustr
  de_build :: u32

record dev_stored =
  ds_room :: ustr
  ds_devices :: "(ustr \<times> dev_entry) list"

record listed_device =
  ld_id :: ustr
  ld_name :: ustr
  ld_os :: ustr
  ld_last_seen_ms :: "u64 option"
  ld_online :: bool
  ld_this_device :: bool
  ld_keyed :: bool
  ld_version :: ustr
  ld_build :: u32

text \<open>\<open>rg_saved\<close> is whether the registry was loaded from a directory, and \<open>rg_file\<close> what the file there
  holds.\<close>

record registry =
  rg_conns :: "(ustr, ustr) hmap"
  rg_saved :: bool
  rg_stored :: dev_stored
  rg_connected :: bool
  rg_peers :: u32
  rg_departure :: u64
  rg_file :: "dev_stored option"

abbreviation rg_devices :: "registry \<Rightarrow> (ustr \<times> dev_entry) list" where
  "rg_devices r \<equiv> ds_devices (rg_stored r)"

definition set_devices :: "(ustr \<times> dev_entry) list \<Rightarrow> registry \<Rightarrow> registry" where
  "set_devices m r = r\<lparr>rg_stored := (rg_stored r)\<lparr>ds_devices := m\<rparr>\<rparr>"

definition registry_default :: "dev_stored option \<Rightarrow> registry" where
  "registry_default disk =
     \<lparr>rg_conns = [], rg_saved = False, rg_stored = \<lparr>ds_room = [], ds_devices = []\<rparr>, rg_connected = False,
      rg_peers = 0, rg_departure = 0, rg_file = disk\<rparr>"

definition rg_save :: "bool \<Rightarrow> registry \<Rightarrow> registry" where
  "rg_save w r = (if rg_saved r \<and> w then r\<lparr>rg_file := Some (rg_stored r)\<rparr> else r)"

function dev_evict_loop :: "(ustr \<times> dev_entry) list \<Rightarrow> (ustr \<times> dev_entry) list" where
  "dev_evict_loop m =
     (if length m > MAX_DEVICES
      then case min_by (\<lambda>p. de_last_seen_ms (snd p)) m of
          None \<Rightarrow> m
        | Some p \<Rightarrow> dev_evict_loop (bt_remove (fst p) m)
      else m)"
  by pat_completeness auto
termination
proof (relation "measure length")
  fix m :: "(ustr \<times> dev_entry) list" and p
  assume "min_by (\<lambda>p. de_last_seen_ms (snd p)) m = Some p"
  then have "p \<in> set m" by (rule min_by_in)
  then have "length (filter (\<lambda>q. fst q \<noteq> fst p) m) < length m"
    by (intro length_filter_less) auto
  then show "(bt_remove (fst p) m, m) \<in> measure length" by (simp add: bt_remove_def)
qed simp

declare dev_evict_loop.simps [simp del]

definition dev_evict :: "registry \<Rightarrow> registry" where
  "dev_evict r = set_devices (dev_evict_loop (rg_devices r)) r"

section \<open>Operations\<close>

definition rg_load :: "ustr \<Rightarrow> registry \<Rightarrow> registry" where
  "rg_load rm r =
     (let stored = (case rg_file r of
            Some s \<Rightarrow> if ds_room s = rm then s else \<lparr>ds_room = rm, ds_devices = []\<rparr>
          | None \<Rightarrow> \<lparr>ds_room = rm, ds_devices = []\<rparr>)
      in r\<lparr>rg_saved := True, rg_stored := stored\<rparr>)"

definition heard :: "bool \<Rightarrow> bytes \<Rightarrow> ustr \<Rightarrow> ustr \<Rightarrow> u64 \<Rightarrow> registry \<Rightarrow> registry" where
  "heard w device_id name os now_ms r =
     (let i = hex device_id;
          known = map_of (rg_devices r) i;
          (sign, box, version, build) = (case known of
              Some k \<Rightarrow> (de_sign_pub k, de_box_pub k, de_version k, de_build k) | None \<Rightarrow> ([], [], [], 0));
          device = \<lparr>de_sign_pub = sign, de_box_pub = box, de_name = name, de_os = os,
                    de_last_seen_ms = now_ms, de_version = version, de_build = build\<rparr>;
          changed = (case known of None \<Rightarrow> True | Some k \<Rightarrow> de_name k \<noteq> name \<or> de_os k \<noteq> os);
          r = dev_evict (set_devices (bt_insert i device (rg_devices r)) r)
      in if changed then rg_save w r else r)"

definition same_machine :: "ustr \<Rightarrow> dev_entry \<Rightarrow> ustr \<times> dev_entry \<Rightarrow> bool" where
  "same_machine i device p \<longleftrightarrow>
     fst p = i \<or> de_box_pub (snd p) \<noteq> [] \<or> de_name (snd p) \<noteq> de_name device \<or> de_os (snd p) \<noteq> de_os device"

definition heard_card :: "bool \<Rightarrow> known_device \<Rightarrow> u64 \<Rightarrow> registry \<Rightarrow> registry" where
  "heard_card w crd now_ms r =
     (let i = hex (kd_device_id crd);
          r = (case kd_conn_id crd of Some c \<Rightarrow> r\<lparr>rg_conns := AList.update i c (rg_conns r)\<rparr> | None \<Rightarrow> r);
          known = map_of (rg_devices r) i;
          (version, build) = (case known of Some k \<Rightarrow> (de_version k, de_build k) | None \<Rightarrow> ([], 0));
          device = \<lparr>de_sign_pub = hex (kd_sign_pub crd), de_box_pub = hex (kd_box_pub crd),
                    de_name = kd_name crd, de_os = kd_os crd, de_last_seen_ms = now_ms,
                    de_version = version, de_build = build\<rparr>;
          changed = (known \<noteq> Some (device\<lparr>de_last_seen_ms :=
              (case known of Some k \<Rightarrow> de_last_seen_ms k | None \<Rightarrow> 0)\<rparr>));
          kept = filter (same_machine i device) (rg_devices r);
          deduped = (length kept \<noteq> length (rg_devices r));
          r = dev_evict (set_devices (bt_insert i device kept) r)
      in if changed \<or> deduped then rg_save w r else r)"

definition knows_version :: "bytes \<Rightarrow> registry \<Rightarrow> bool" where
  "knows_version device_id r =
     (case map_of (rg_devices r) (hex device_id) of
        None \<Rightarrow> False | Some d \<Rightarrow> de_build d \<noteq> 0 \<or> de_version d \<noteq> [])"

definition heard_version :: "bool \<Rightarrow> bytes \<Rightarrow> ustr \<Rightarrow> u32 \<Rightarrow> registry \<Rightarrow> registry" where
  "heard_version w device_id version build r =
     (case map_of (rg_devices r) (hex device_id) of
        None \<Rightarrow> r
      | Some d \<Rightarrow>
          if de_version d = version \<and> de_build d = build then r
          else rg_save w (set_devices (bt_insert (hex device_id)
                 (d\<lparr>de_version := version, de_build := build\<rparr>) (rg_devices r)) r))"

definition dev_online :: "registry \<Rightarrow> dev_entry \<Rightarrow> bool" where
  "dev_online r d \<longleftrightarrow> rg_departure r \<le> de_last_seen_ms d"

definition conn_of :: "bytes \<Rightarrow> registry \<Rightarrow> ustr option" where
  "conn_of device_id r =
     (if \<not> rg_connected r then None
      else
        let i = hex device_id in
        if (case map_of (rg_devices r) i of None \<Rightarrow> False | Some d \<Rightarrow> dev_online r d)
        then map_of (rg_conns r) i else None)"

definition pinned_entry :: "ustr \<times> dev_entry \<Rightarrow> known_device option" where
  "pinned_entry p =
     (case (unhex 16 (fst p), unhex 32 (de_sign_pub (snd p)), unhex 32 (de_box_pub (snd p))) of
        (Some i, Some sign, Some box) \<Rightarrow>
          Some \<lparr>kd_device_id = i, kd_sign_pub = sign, kd_box_pub = box, kd_conn_id = None,
            kd_name = de_name (snd p), kd_os = de_os (snd p), kd_ts_ms = 0\<rparr>
      | _ \<Rightarrow> None)"

definition pinned :: "registry \<Rightarrow> known_device list" where
  "pinned r = List.map_filter pinned_entry (rg_devices r)"

definition keyed_except :: "bytes list \<Rightarrow> registry \<Rightarrow> bytes list" where
  "keyed_except except r = filter (\<lambda>i. i \<notin> set except) (map kd_device_id (pinned r))"

definition move_to_room :: "bool \<Rightarrow> ustr \<Rightarrow> registry \<Rightarrow> registry" where
  "move_to_room w rm r = rg_save w (r\<lparr>rg_stored := (rg_stored r)\<lparr>ds_room := rm\<rparr>\<rparr>)"

definition dev_forget :: "bool \<Rightarrow> bytes \<Rightarrow> registry \<Rightarrow> registry" where
  "dev_forget w device_id r = rg_save w (set_devices (bt_remove (hex device_id) (rg_devices r)) r)"

definition map_devices :: "(dev_entry \<Rightarrow> dev_entry) \<Rightarrow> registry \<Rightarrow> registry" where
  "map_devices f r = set_devices (map (\<lambda>p. (fst p, f (snd p))) (rg_devices r)) r"

definition set_connected :: "bool \<Rightarrow> bool \<Rightarrow> u32 \<Rightarrow> u64 \<Rightarrow> registry \<Rightarrow> registry" where
  "set_connected w connected peers now_ms r =
     (let r = (if \<not> connected then r\<lparr>rg_conns := []\<rparr> else r);
          r = (if rg_connected r \<and> \<not> connected
               then rg_save w (map_devices (\<lambda>d. if rg_departure r \<le> de_last_seen_ms d
                      then d\<lparr>de_last_seen_ms := now_ms\<rparr> else d) r)
               else r);
          r = r\<lparr>rg_connected := connected, rg_peers := peers\<rparr>
      in if connected then r\<lparr>rg_departure := now_ms\<rparr> else r)"

definition presence :: "u32 \<Rightarrow> u64 \<Rightarrow> registry \<Rightarrow> registry" where
  "presence peers now_ms r =
     (let r = (if peers < rg_peers r
               then (map_devices (\<lambda>d. if rg_departure r \<le> de_last_seen_ms d
                      then d\<lparr>de_last_seen_ms := max (de_last_seen_ms d) (sat_sub now_ms 1)\<rparr> else d) r)
                    \<lparr>rg_departure := now_ms\<rparr>
               else r)
      in r\<lparr>rg_peers := peers\<rparr>)"

definition dev_clear :: "bool \<Rightarrow> registry \<Rightarrow> registry" where
  "dev_clear w r = rg_save w (set_devices [] r)"

definition listed_of :: "registry \<Rightarrow> ustr \<times> dev_entry \<Rightarrow> listed_device" where
  "listed_of r p =
     \<lparr>ld_id = fst p, ld_name = de_name (snd p), ld_os = de_os (snd p),
      ld_last_seen_ms = Some (de_last_seen_ms (snd p)),
      ld_online = (rg_connected r \<and> dev_online r (snd p)), ld_this_device = False,
      ld_keyed = (de_box_pub (snd p) \<noteq> []), ld_version = de_version (snd p), ld_build = de_build (snd p)\<rparr>"

text \<open>Online first, then the last seen first; the sort is stable.\<close>

definition list_rank :: "listed_device \<Rightarrow> bool \<times> int" where
  "list_rank d = (\<not> ld_online d, case ld_last_seen_ms d of None \<Rightarrow> 1 | Some t \<Rightarrow> - int (unat t))"

definition dev_list :: "listed_device \<Rightarrow> registry \<Rightarrow> listed_device list" where
  "dev_list this r =
     this # sort_key list_rank (map (listed_of r) (filter (\<lambda>p. fst p \<noteq> ld_id this) (rg_devices r)))"

definition name_of :: "bytes \<Rightarrow> registry \<Rightarrow> ustr option" where
  "name_of device_id r = map_option de_name (map_of (rg_devices r) (hex device_id))"

section \<open>Names\<close>

definition default_name :: "ustr \<Rightarrow> ustr" where
  "default_name computer = (let name = trim computer in if name = [] then ulit ''This Computer'' else name)"

definition display_name :: "ustr \<Rightarrow> ustr \<Rightarrow> ustr" where
  "display_name computer configured =
     (let configured = trim configured in if configured = [] then default_name computer else configured)"

datatype os_family = UnknownOs | Linux | Mac | Windows

definition os_lower :: "ustr \<Rightarrow> ustr" where
  "os_lower s = map (\<lambda>c. if 65 \<le> c \<and> c \<le> 90 then c + 32 else c) s"

definition starts_with :: "ustr \<Rightarrow> ustr \<Rightarrow> bool" where
  "starts_with s p \<longleftrightarrow> take (length p) s = p"

definition os_family_of :: "ustr \<Rightarrow> os_family" where
  "os_family_of os =
     (let os = os_lower (trim os) in
      if os = [] then UnknownOs
      else if starts_with os (ulit ''windows'') then Windows
      else if starts_with os (ulit ''macos'') \<or> starts_with os (ulit ''mac os'') \<or> starts_with os (ulit ''os x'')
      then Mac else Linux)"

end
