(* ===== verification/Devices_Props.thy ===== *)
theory Devices_Props
  imports Devices Session_Props
begin

text \<open>
  What the list of devices promises: it stays ordered, without doubles and under its cap; an announcement
  never gives, changes or takes a key of a device that stays; after a departure exactly the devices that
  were heard since count as online; and what a card pinned is read back from the file. The cap makes no
  difference between a device with a key and one without, and what follows from that.
\<close>

section \<open>Ordered maps\<close>

lemma bt_insert_keys: "set (map fst (bt_insert k v m)) = insert k (set (map fst m))"
proof (induction m)
  case (Cons p m)
  then show ?case by (cases p) auto
qed simp

lemma bt_insert_ok: "bt_ok m \<Longrightarrow> bt_ok (bt_insert k v m)"
proof (induction m)
  case (Cons p m)
  obtain a b where p: "p = (a, b)" by fastforce
  have m: "bt_ok m" and am: "a \<notin> set (map fst m)" "\<forall>x \<in> set (map fst m). a \<le> x"
    using Cons.prems p by (auto simp: bt_ok_def)
  have ins: "bt_ok (bt_insert k v m)" by (rule Cons.IH [OF m])
  consider "k < a" | "k = a" | "a < k" by force
  then show ?case
  proof cases
    case 1
    then show ?thesis using Cons.prems p am by (auto simp: bt_ok_def)
  next
    case 2
    then show ?thesis using Cons.prems p by (auto simp: bt_ok_def)
  next
    case 3
    then have "a \<notin> set (map fst (bt_insert k v m))" "\<forall>x \<in> set (map fst (bt_insert k v m)). a \<le> x"
      using am unfolding bt_insert_keys by auto
    then show ?thesis using 3 ins p by (auto simp: bt_ok_def)
  qed
qed (simp add: bt_ok_def)

lemma map_of_bt_insert [simp]: "map_of (bt_insert k v m) = (map_of m)(k \<mapsto> v)"
  if "bt_ok m" for m :: "('k::linorder \<times> 'v) list"
  using that
proof (induction m)
  case (Cons p m)
  obtain a b where p: "p = (a, b)" by fastforce
  have m: "bt_ok m" and am: "\<forall>x \<in> set (map fst m). a \<le> x" using Cons.prems p by (auto simp: bt_ok_def)
  then show ?case using Cons.IH p by (auto simp: fun_eq_iff)
qed simp

lemma bt_remove_ok: "bt_ok m \<Longrightarrow> bt_ok (bt_remove k m)"
  by (auto simp: bt_ok_def bt_remove_def sorted_filter distinct_map_filter)

lemma bt_filter_ok: "bt_ok m \<Longrightarrow> bt_ok (filter f m)"
  by (auto simp: bt_ok_def sorted_filter distinct_map_filter)

lemma length_bt_insert: "length (bt_insert k v m) \<le> Suc (length m)"
  by (induction m) auto

section \<open>Eviction\<close>

lemma min_by_None: "min_by f xs = None \<longleftrightarrow> xs = []"
  by (cases xs) (auto split: option.split)

lemma min_by_least: "min_by f xs = Some x \<Longrightarrow> y \<in> set xs \<Longrightarrow> f x \<le> f y"
  by (induction xs arbitrary: x) (fastforce simp: min_by_None split: option.splits if_splits)+

lemma dev_evict_loop_props:
  "set (dev_evict_loop m) \<subseteq> set m \<and> (bt_ok m \<longrightarrow> bt_ok (dev_evict_loop m)) \<and> length (dev_evict_loop m) \<le> MAX_DEVICES"
proof (induction m rule: dev_evict_loop.induct)
  case (1 m)
  show ?case
  proof (cases "length m > MAX_DEVICES")
    case False
    then show ?thesis by (subst (1 2 3) dev_evict_loop.simps) simp
  next
    case True
    then obtain p where p: "min_by (\<lambda>p. de_last_seen_ms (snd p)) m = Some p"
      using min_by_None by (metis list.size(3) not_less_zero option.exhaust)
    have "set (bt_remove (fst p) m) \<subseteq> set m" by (auto simp: bt_remove_def)
    then show ?thesis using 1 [OF True p] bt_remove_ok [of m "fst p"] True p
      by (subst (1 2 3) dev_evict_loop.simps) auto
  qed
qed

lemma dev_evict_loop_id: "length m \<le> MAX_DEVICES \<Longrightarrow> dev_evict_loop m = m"
  by (subst dev_evict_loop.simps) simp

section \<open>The invariant\<close>

definition stored_ok :: "dev_stored \<Rightarrow> bool" where
  "stored_ok s \<longleftrightarrow> bt_ok (ds_devices s) \<and> length (ds_devices s) \<le> MAX_DEVICES"

definition rg_inv :: "registry \<Rightarrow> bool" where
  "rg_inv r \<longleftrightarrow> stored_ok (rg_stored r) \<and> (case rg_file r of None \<Rightarrow> True | Some s \<Rightarrow> stored_ok s)"

lemma rg_fields [simp]:
  "rg_devices (set_devices m r) = m" "rg_file (set_devices m r) = rg_file r"
  "rg_devices (rg_save w r) = rg_devices r" "rg_departure (rg_save w r) = rg_departure r"
  "rg_connected (rg_save w r) = rg_connected r" "rg_departure (set_devices m r) = rg_departure r"
  "rg_connected (set_devices m r) = rg_connected r" "rg_devices (dev_evict r) = dev_evict_loop (rg_devices r)"
  "rg_departure (dev_evict r) = rg_departure r" "rg_connected (dev_evict r) = rg_connected r"
  "rg_file (dev_evict r) = rg_file r" "rg_stored (rg_save w r) = rg_stored r"
  by (simp_all add: set_devices_def rg_save_def dev_evict_def)

lemma rg_inv_iff:
  "rg_inv r \<longleftrightarrow> bt_ok (rg_devices r) \<and> length (rg_devices r) \<le> MAX_DEVICES
     \<and> (case rg_file r of None \<Rightarrow> True | Some s \<Rightarrow> stored_ok s)"
  by (simp add: rg_inv_def stored_ok_def)

lemma rg_save_inv: "rg_inv r \<Longrightarrow> rg_inv (rg_save w r)"
  by (simp add: rg_inv_def rg_save_def)

lemma set_devices_inv: "rg_inv r \<Longrightarrow> bt_ok m \<Longrightarrow> length m \<le> MAX_DEVICES \<Longrightarrow> rg_inv (set_devices m r)"
  by (simp add: rg_inv_iff)

lemma evicted_inv: "rg_inv r \<Longrightarrow> bt_ok m \<Longrightarrow> rg_inv (dev_evict (set_devices m r))"
  using dev_evict_loop_props [of m] by (simp add: rg_inv_iff)

lemma map_devices_inv: "rg_inv r \<Longrightarrow> rg_inv (map_devices f r)"
  by (simp add: rg_inv_iff map_devices_def bt_ok_def comp_def)

lemma rg_inv_flags [simp]:
  "rg_inv (r\<lparr>rg_conns := c\<rparr>) = rg_inv r" "rg_inv (r\<lparr>rg_connected := b\<rparr>) = rg_inv r"
  "rg_inv (r\<lparr>rg_peers := n\<rparr>) = rg_inv r" "rg_inv (r\<lparr>rg_departure := t\<rparr>) = rg_inv r"
  by (simp_all add: rg_inv_def)

text \<open>Everything that is done to the registry.\<close>

datatype rg_op =
    RLoad ustr
  | RHeard bool bytes ustr ustr u64
  | RCard bool known_device u64
  | RVersion bool bytes ustr u32
  | RMove bool ustr
  | RForget bool bytes
  | RConnected bool bool u32 u64
  | RPresence u32 u64
  | RClear bool

fun rg_step :: "registry \<Rightarrow> rg_op \<Rightarrow> registry" where
  "rg_step r (RLoad rm) = rg_load rm r"
| "rg_step r (RHeard w i nm os t) = heard w i nm os t r"
| "rg_step r (RCard w c t) = heard_card w c t r"
| "rg_step r (RVersion w i v b) = heard_version w i v b r"
| "rg_step r (RMove w rm) = move_to_room w rm r"
| "rg_step r (RForget w i) = dev_forget w i r"
| "rg_step r (RConnected w c n t) = set_connected w c n t r"
| "rg_step r (RPresence n t) = presence n t r"
| "rg_step r (RClear w) = dev_clear w r"

lemma heard_inv: "rg_inv r \<Longrightarrow> rg_inv (heard w i nm os t r)"
proof -
  assume r: "rg_inv r"
  then have "rg_inv (dev_evict (set_devices (bt_insert (hex i) d (rg_devices r)) r))" for d
    by (intro evicted_inv bt_insert_ok) (simp_all add: rg_inv_iff)
  then show ?thesis by (simp add: heard_def Let_def rg_save_inv split: prod.split)
qed

lemma heard_card_inv: "rg_inv r \<Longrightarrow> rg_inv (heard_card w c t r)"
proof -
  assume r: "rg_inv r"
  define r1 where "r1 = (case kd_conn_id c of Some x \<Rightarrow> r\<lparr>rg_conns := AList.update (hex (kd_device_id c)) x (rg_conns r)\<rparr> | None \<Rightarrow> r)"
  have r1: "rg_inv r1" using r by (simp add: r1_def split: option.split)
  then have "rg_inv (dev_evict (set_devices (bt_insert (hex (kd_device_id c)) d (filter f (rg_devices r1))) r1))" for d f
    by (intro evicted_inv bt_insert_ok bt_filter_ok) (simp_all add: rg_inv_iff)
  then show ?thesis by (simp add: heard_card_def Let_def r1_def [symmetric] rg_save_inv split: prod.split)
qed

lemma heard_version_inv: "rg_inv r \<Longrightarrow> rg_inv (heard_version w i v b r)"
proof (cases "map_of (rg_devices r) (hex i)")
  case (Some d)
  assume r: "rg_inv r"
  have ok: "bt_ok (rg_devices r)" using r by (simp add: rg_inv_iff)
  have "hex i \<in> set (map fst (rg_devices r))" using Some by (metis map_of_eq_None_iff option.distinct(1) set_map)
  then have "set (map fst (bt_insert (hex i) x (rg_devices r))) = set (map fst (rg_devices r))" for x
    unfolding bt_insert_keys by auto
  then have "length (bt_insert (hex i) x (rg_devices r)) = length (rg_devices r)" for x
    using bt_insert_ok [OF ok, of "hex i" x] ok distinct_card unfolding bt_ok_def by (metis length_map)
  then have "rg_inv (set_devices (bt_insert (hex i) x (rg_devices r)) r)" for x
    using r bt_insert_ok [OF ok] by (intro set_devices_inv) (simp_all add: rg_inv_iff)
  then show ?thesis using Some r by (simp add: heard_version_def rg_save_inv)
qed (simp add: heard_version_def)

lemma rg_step_inv: "rg_inv r \<Longrightarrow> rg_inv (rg_step r e)"
proof (cases e)
  case (RLoad rm)
  assume "rg_inv r"
  then show ?thesis using RLoad
    by (auto simp: rg_load_def rg_inv_def stored_ok_def bt_ok_def Let_def split: option.splits)
next
  case (RForget w i)
  assume r: "rg_inv r"
  have "length (bt_remove (hex i) (rg_devices r)) \<le> length (rg_devices r)" by (simp add: bt_remove_def)
  moreover have "bt_ok (rg_devices r)" "length (rg_devices r) \<le> MAX_DEVICES" using r by (simp_all add: rg_inv_iff)
  ultimately have "rg_inv (set_devices (bt_remove (hex i) (rg_devices r)) r)"
    using set_devices_inv [OF r bt_remove_ok] by simp
  then show ?thesis using RForget by (simp add: dev_forget_def rg_save_inv)
next
  case (RConnected w c n t)
  assume r: "rg_inv r"
  then show ?thesis using RConnected by (simp add: set_connected_def Let_def rg_save_inv map_devices_inv)
next
  case (RMove w rm)
  assume r: "rg_inv r"
  then have "rg_inv (r\<lparr>rg_stored := (rg_stored r)\<lparr>ds_room := rm\<rparr>\<rparr>)" by (simp add: rg_inv_def stored_ok_def)
  then show ?thesis using RMove by (simp add: move_to_room_def rg_save_inv)
qed (auto simp: heard_inv heard_card_inv heard_version_inv presence_def Let_def map_devices_inv
    dev_clear_def rg_save_inv set_devices_inv bt_ok_def)

interpretation registry: machine rg_step rg_inv
  by unfold_locales (rule rg_step_inv)

section \<open>Announcements\<close>

definition heard_entry :: "bytes \<Rightarrow> ustr \<Rightarrow> ustr \<Rightarrow> u64 \<Rightarrow> registry \<Rightarrow> dev_entry" where
  "heard_entry i nm os t r =
     (let (sign, box, version, build) = (case map_of (rg_devices r) (hex i) of
          Some k \<Rightarrow> (de_sign_pub k, de_box_pub k, de_version k, de_build k) | None \<Rightarrow> ([], [], [], 0))
      in \<lparr>de_sign_pub = sign, de_box_pub = box, de_name = nm, de_os = os, de_last_seen_ms = t,
          de_version = version, de_build = build\<rparr>)"

lemma heard_entry_seen [simp]:
  "de_last_seen_ms (heard_entry i nm os t r) = t" "de_name (heard_entry i nm os t r) = nm"
  by (simp_all add: heard_entry_def split: prod.split)

lemma heard_fields:
  "rg_devices (heard w i nm os t r) = dev_evict_loop (bt_insert (hex i) (heard_entry i nm os t r) (rg_devices r))"
  "rg_connected (heard w i nm os t r) = rg_connected r" "rg_departure (heard w i nm os t r) = rg_departure r"
  by (auto simp: heard_def heard_entry_def Let_def split: option.split)

lemma bt_insert_set: "set (bt_insert k v m) \<subseteq> insert (k, v) (set m)"
proof (induction m)
  case (Cons p m)
  then show ?case by (cases p) auto
qed simp

text \<open>An announcement, which is not signed, touches no keys: after it every device in the list has the
  keys it had before, and one that was not in the list has none.\<close>

theorem announcement_keeps_keys:
  assumes "rg_inv r" "map_of (rg_devices (heard w i nm os t r)) k = Some d"
  shows "(de_sign_pub d, de_box_pub d) =
    (case map_of (rg_devices r) k of Some d' \<Rightarrow> (de_sign_pub d', de_box_pub d') | None \<Rightarrow> ([], []))"
proof -
  let ?m = "bt_insert (hex i) (heard_entry i nm os t r) (rg_devices r)"
  have ok: "bt_ok (rg_devices r)" using assms(1) by (simp add: rg_inv_iff)
  have "(k, d) \<in> set ?m"
    using assms(2) dev_evict_loop_props [of ?m] by (auto simp: heard_fields dest: map_of_SomeD)
  then have "map_of ?m k = Some d"
    using bt_insert_ok [OF ok] by (simp add: bt_ok_def)
  then show ?thesis using ok by (auto simp: heard_entry_def split: if_splits option.splits)
qed

definition ex_registry :: registry where
  "ex_registry = \<lparr>rg_conns = [], rg_saved = True, rg_stored = \<lparr>ds_room = [], ds_devices =
      [(hex (ex_dev 1), \<lparr>de_sign_pub = [52], de_box_pub = [53], de_name = [65], de_os = [], de_last_seen_ms = 5,
         de_version = [], de_build = 0\<rparr>)]\<rparr>,
     rg_connected = True, rg_peers = 3, rg_departure = 4, rg_file = None\<rparr>"

lemma ex_registry_inv: "rg_inv ex_registry"
  by (simp add: rg_inv_iff ex_registry_def bt_ok_def MAX_DEVICES_def)

lemma announcement_keeps_keys_witness:
  "\<exists>d. map_of (rg_devices (heard True (ex_dev 1) [66] [] 9 ex_registry)) (hex (ex_dev 1)) = Some d \<and> de_name d = [66]
    \<and> (de_sign_pub d, de_box_pub d) = ([52], [53])"
proof -
  let ?e = "heard_entry (ex_dev 1) [66] [] 9 ex_registry"
  have "rg_devices (heard True (ex_dev 1) [66] [] 9 ex_registry) = [(hex (ex_dev 1), ?e)]"
    unfolding heard_fields by (subst dev_evict_loop_id) (simp_all add: ex_registry_def MAX_DEVICES_def)
  then have m: "map_of (rg_devices (heard True (ex_dev 1) [66] [] 9 ex_registry)) (hex (ex_dev 1)) = Some ?e" by simp
  have "map_of (rg_devices ex_registry) (hex (ex_dev 1)) = Some \<lparr>de_sign_pub = [52], de_box_pub = [53], de_name = [65],
      de_os = [], de_last_seen_ms = 5, de_version = [], de_build = 0\<rparr>" "de_name ?e = [66]"
    by (simp_all add: ex_registry_def heard_entry_def)
  then show ?thesis using announcement_keeps_keys [OF ex_registry_inv m] m by simp
qed

section \<open>Who is online\<close>

type_synonym announced = "bool \<times> bytes \<times> ustr \<times> ustr \<times> u64"

abbreviation hear :: "announced \<Rightarrow> registry \<Rightarrow> registry" where
  "hear a r \<equiv> (case a of (w, i, nm, os, t) \<Rightarrow> heard w i nm os t r)"

definition since :: "u64 \<Rightarrow> ustr set \<Rightarrow> registry \<Rightarrow> bool" where
  "since now ids r \<longleftrightarrow> rg_inv r \<and> rg_connected r \<and> rg_departure r = now
     \<and> (\<forall>p \<in> set (rg_devices r). (now \<le> de_last_seen_ms (snd p)) = (fst p \<in> ids))"

lemma since_heard:
  assumes "since now ids r" "now \<le> t"
  shows "since now (insert (hex i) ids) (heard w i nm os t r)"
proof -
  let ?e = "heard_entry i nm os t r"
  have r: "rg_inv r" using assms(1) by (simp add: since_def)
  have ok: "bt_ok (rg_devices r)" using r by (simp add: rg_inv_iff)
  have "(now \<le> de_last_seen_ms (snd p)) = (fst p \<in> insert (hex i) ids)"
    if "p \<in> set (rg_devices (heard w i nm os t r))" for p
  proof -
    have p: "p \<in> set (bt_insert (hex i) ?e (rg_devices r))"
      using that dev_evict_loop_props unfolding heard_fields by blast
    then have v: "map_of (bt_insert (hex i) ?e (rg_devices r)) (fst p) = Some (snd p)"
      using bt_insert_ok [OF ok] by (simp add: bt_ok_def)
    show ?thesis
    proof (cases "fst p = hex i")
      case True
      then have "snd p = ?e" using v ok by simp
      then show ?thesis using True assms(2) by simp
    next
      case False
      then have "p \<in> set (rg_devices r)" using v ok map_of_SomeD by fastforce
      then show ?thesis using False assms(1) by (auto simp: since_def)
    qed
  qed
  then show ?thesis using assms(1) heard_inv [OF r] by (auto simp: since_def heard_fields)
qed

text \<open>When the relay's count goes down, everyone is taken to have left, and from then on exactly the
  devices that announced themselves since are shown as online.\<close>

theorem online_are_those_heard_since:
  assumes "rg_inv r" "rg_connected r" "peers < rg_peers r"
    and "list_all (\<lambda>p. de_last_seen_ms (snd p) < now) (rg_devices r)" "list_all (\<lambda>(_, _, _, _, t). now \<le> t) as"
  shows "list_all (\<lambda>d. ld_online d = (ld_id d \<in> set (map (\<lambda>(_, i, _). hex i) as)))
    (tl (dev_list this (fold hear as (presence peers now r))))"
proof -
  have "rg_inv (presence peers now r)" using rg_step_inv [OF assms(1), of "RPresence peers now"] by simp
  moreover have "max x (sat_sub now 1) < now" if "x < now" for x :: u64
    using that by (auto simp: max_def word_less_nat_alt unat_sat_sub)
  ultimately have start: "since now {} (presence peers now r)"
    using assms(2-4) by (auto simp: since_def presence_def map_devices_def Let_def list_all_iff set_devices_def not_le)
  have "since now (ids \<union> set (map (\<lambda>(_, i, _). hex i) as)) (fold hear as q)"
    if "since now ids q" "list_all (\<lambda>(_, _, _, _, t). now \<le> t) as" for ids q as
    using that
  proof (induction as arbitrary: ids q)
    case (Cons a as)
    obtain w i nm os t where a: "a = (w, i, nm, os, t)" by (cases a) auto
    then have "since now (insert (hex i) ids) (hear a q)" using Cons.prems since_heard by simp
    then show ?case using Cons.IH [of "insert (hex i) ids" "hear a q"] Cons.prems(2) a by (simp add: insert_commute)
  qed simp
  from this [OF start assms(5)]
  show ?thesis by (auto simp: since_def dev_list_def list_all_iff listed_of_def dev_online_def)
qed

definition ex_announced :: "announced list" where
  "ex_announced = [(True, ex_dev 2, [66], [], 8)]"

lemma online_are_those_heard_since_witness:
  "\<exists>this. list_all (\<lambda>d. ld_online d = (ld_id d \<in> set (map (\<lambda>(_, i, _). hex i) ex_announced)))
    (tl (dev_list this (fold hear ex_announced (presence 2 7 ex_registry))))"
  by (rule exI, rule online_are_those_heard_since [OF ex_registry_inv]) (simp_all add: ex_registry_def ex_announced_def)

section \<open>What is read back\<close>

text \<open>A card that was heard is among the pinned devices, and is so after a restart when the save went through.\<close>

lemma pinned_iff:
  "bt_ok (rg_devices r) \<Longrightarrow> k \<in> set (pinned r) \<longleftrightarrow> (\<exists>i d. map_of (rg_devices r) i = Some d \<and> pinned_entry (i, d) = Some k)"
  by (force simp: pinned_def List.map_filter_def bt_ok_def)

text \<open>Eviction looks at nothing but the time: with a full list, an announcement from an unknown device
  removes the device heard from longest ago, the keys that were pinned for it included.\<close>

lemma announcement_evicts_pinned:
  assumes "rg_inv r" "length (rg_devices r) = MAX_DEVICES" "map_of (rg_devices r) k = Some d"
    and "hex i \<notin> set (map fst (rg_devices r))" "de_last_seen_ms d < t"
    and "\<forall>p \<in> set (rg_devices r). fst p \<noteq> k \<longrightarrow> de_last_seen_ms d < de_last_seen_ms (snd p)"
  shows "map_of (rg_devices (heard w i nm os t r)) k = None"
proof -
  let ?m = "bt_insert (hex i) (heard_entry i nm os t r) (rg_devices r)"
  have ok: "bt_ok (rg_devices r)" using assms(1) by (simp add: rg_inv_iff)
  have okm: "bt_ok ?m" by (rule bt_insert_ok [OF ok])
  have "set (map fst ?m) = insert (hex i) (set (map fst (rg_devices r)))" by (rule bt_insert_keys)
  then have "length ?m = Suc MAX_DEVICES"
    using assms(2,4) distinct_card okm ok unfolding bt_ok_def
    by (metis List.finite_set card_insert_disjoint length_map)
  then have len: "length ?m > MAX_DEVICES" by simp
  obtain p where p: "min_by (\<lambda>p. de_last_seen_ms (snd p)) ?m = Some p"
    using len min_by_None by (metis list.size(3) not_less_zero option.exhaust)
  have mk: "map_of ?m k = Some d" using ok assms(3,4) by (auto simp: dest!: map_of_SomeD) force
  then have kd: "(k, d) \<in> set ?m" by (rule map_of_SomeD)
  have "fst p = k"
  proof (rule ccontr)
    assume n: "fst p \<noteq> k"
    have v: "map_of ?m (fst p) = Some (snd p)" using min_by_in [OF p] okm by (simp add: bt_ok_def)
    have "de_last_seen_ms d < de_last_seen_ms (snd p)"
    proof (cases "fst p = hex i")
      case True
      then have "snd p = heard_entry i nm os t r" using v ok by simp
      then show ?thesis using assms(5) by simp
    next
      case False
      then have "p \<in> set (rg_devices r)" using v ok map_of_SomeD by fastforce
      then show ?thesis using n assms(6) by blast
    qed
    then show False using min_by_least [OF p kd] by simp
  qed
  then have "rg_devices (heard w i nm os t r) = dev_evict_loop (bt_remove k ?m)"
    using p len unfolding heard_fields by (subst dev_evict_loop.simps) simp
  then have "set (rg_devices (heard w i nm os t r)) \<subseteq> set (bt_remove k ?m)"
    using dev_evict_loop_props by simp
  then show ?thesis by (auto simp: bt_remove_def map_of_eq_None_iff)
qed

end
