(* ===== verification/File_Names.thy ===== *)
theory File_Names
  imports Devices Announce File_Msg
begin

text \<open>
  What a received file may be called, from \<open>crates/asli-app/src/transfer/mod.rs\<close>: \<open>safe_name\<close> and what
  it is made of, the first free name in a folder, the temporary name, and the words of a list.
  A path is a folder and a name in it; names are joined to a folder only as \<open>safe_name\<close> made them.
\<close>

section \<open>Safe names\<close>

definition is_invisible :: "uchar \<Rightarrow> bool" where
  "is_invisible c \<longleftrightarrow> c = 0x061C \<or> c = 0x180E \<or> (0x200B \<le> c \<and> c \<le> 0x200F) \<or> (0x202A \<le> c \<and> c \<le> 0x202E)
     \<or> (0x2060 \<le> c \<and> c \<le> 0x2064) \<or> (0x2066 \<le> c \<and> c \<le> 0x2069) \<or> c = 0xFEFF"

text \<open>Angle brackets, colon, double quote, bar, question mark, star.\<close>

definition refused_char :: "uchar \<Rightarrow> bool" where
  "refused_char c \<longleftrightarrow> is_control c \<or> is_invisible c \<or> c \<in> {60, 62, 58, 34, 124, 63, 42}"

definition last_component :: "ustr \<Rightarrow> ustr" where
  "last_component raw = rev (takeWhile (\<lambda>c. c \<noteq> 47 \<and> c \<noteq> 92) (rev raw))"

definition drop_tail :: "ustr \<Rightarrow> ustr" where
  "drop_tail s = rev (dropWhile (\<lambda>c. c = 46 \<or> c = 32) (rev s))"

definition upper :: "ustr \<Rightarrow> ustr" where
  "upper s = map to_ascii_uppercase s"

definition numbered :: "ustr \<Rightarrow> ustr \<Rightarrow> bool" where
  "numbered stem pre \<longleftrightarrow>
     (take (length pre) stem = pre
      \<and> (case drop (length pre) stem of [c] \<Rightarrow> (48 \<le> c \<and> c \<le> 57) \<or> c \<in> {0xB9, 0xB2, 0xB3} | _ \<Rightarrow> False))"

definition reserved_name :: "ustr \<Rightarrow> bool" where
  "reserved_name name \<longleftrightarrow>
     (let stem = upper (trim_end (takeWhile (\<lambda>c. c \<noteq> 46) name))
      in stem \<in> {ulit ''CON'', ulit ''PRN'', ulit ''AUX'', ulit ''NUL''} \<or> numbered stem (ulit ''COM'')
         \<or> numbered stem (ulit ''LPT''))"

definition cut :: "ustr \<Rightarrow> nat \<Rightarrow> ustr" where
  "cut s n = the (truncate_utf8 s n)"

definition safe_name :: "ustr \<Rightarrow> ustr" where
  "safe_name raw =
     (let name = map (\<lambda>c. if refused_char c then 95 else c) (last_component raw);
          name = trim_start (drop_tail name);
          name = (if name = [] \<or> name = [46] \<or> name = [46, 46] then ulit ''file'' else name);
          name = (if name \<noteq> [] \<and> hd name = 46 then 95 # name else name);
          name = (if reserved_name name then 95 # name else name)
      in cut name 200)"

section \<open>Free names\<close>

type_synonym path = "ustr \<times> ustr"

definition part_path_for :: "path \<Rightarrow> path" where
  "part_path_for p = (fst p, snd p @ ulit ''.asli-part'')"

text \<open>The last dot that is not the first character splits the extension off.\<close>

definition split_ext :: "ustr \<Rightarrow> ustr \<times> ustr" where
  "split_ext name =
     (let ext_rev = takeWhile (\<lambda>c. c \<noteq> 46) (rev name); n = length name - length ext_rev in
      if n \<le> 1 then (name, []) else (take (n - 1) name, drop (n - 1) name))"

definition taken :: "(path \<Rightarrow> bool) \<Rightarrow> path \<Rightarrow> bool" where
  "taken there p \<longleftrightarrow> there p \<or> there (part_path_for p)"

definition numbered_name :: "ustr \<Rightarrow> nat \<Rightarrow> ustr" where
  "numbered_name name n =
     (let (stem, ext) = split_ext name in stem @ ulit '' ('' @ ulit (decimal n) @ ulit '')'' @ ext)"

definition unique_path :: "(path \<Rightarrow> bool) \<Rightarrow> ustr \<Rightarrow> ustr \<Rightarrow> path" where
  "unique_path there folder name =
     (if \<not> taken there (folder, name) then (folder, name)
      else case find (\<lambda>p. \<not> taken there p) (map (\<lambda>n. (folder, numbered_name name n)) [2..<10000]) of
          Some p \<Rightarrow> p
        | None \<Rightarrow> (folder, name))"

definition truncate_name :: "ustr \<Rightarrow> ustr" where
  "truncate_name name = cut name MAX_NAME_BYTES"

section \<open>What they promise\<close>

text \<open>The name before it is cut to length.\<close>

definition safe_core :: "ustr \<Rightarrow> ustr" where
  "safe_core raw =
     (let name = trim_start (drop_tail (map (\<lambda>c. if refused_char c then 95 else c) (last_component raw)));
          name = (if name = [] \<or> name = [46] \<or> name = [46, 46] then ulit ''file'' else name);
          name = (if name \<noteq> [] \<and> hd name = 46 then 95 # name else name)
      in if reserved_name name then 95 # name else name)"

lemma safe_name_cut: "safe_name raw = cut (safe_core raw) 200"
  by (simp add: safe_name_def safe_core_def Let_def)

definition plain_char :: "uchar \<Rightarrow> bool" where
  "plain_char c \<longleftrightarrow> \<not> refused_char c \<and> c \<noteq> 47 \<and> c \<noteq> 92"

lemma set_last_component: "set (last_component raw) \<subseteq> set raw - {47, 92}"
  by (auto simp: last_component_def dest!: set_takeWhileD)

lemma set_trim_start: "set (trim_start s) \<subseteq> set s"
  by (auto simp: trim_start_def dest: set_dropWhileD)

lemma set_drop_tail: "set (drop_tail s) \<subseteq> set s"
  by (auto simp: drop_tail_def dest: set_dropWhileD)

lemma plain_literals: "plain_char 95" "list_all plain_char (ulit ''file'')" "is_scalar 95" "str_ok (ulit ''file'')"
  by (simp_all add: plain_char_def refused_char_def is_control_def is_invisible_def ulit_def is_scalar_def)

lemma safe_core_chars: "list_all plain_char (safe_core raw)"
proof -
  let ?m = "map (\<lambda>c. if refused_char c then 95 else c) (last_component raw)"
  have m: "\<forall>c \<in> set ?m. plain_char c"
    using set_last_component [of raw] plain_literals(1) by (auto simp: plain_char_def)
  have "set (trim_start (drop_tail ?m)) \<subseteq> set ?m" using set_trim_start set_drop_tail by blast
  then have "\<forall>c \<in> set (trim_start (drop_tail ?m)). plain_char c" using m by blast
  then show ?thesis using plain_literals(1,2) by (auto simp: safe_core_def Let_def list_all_iff)
qed

lemma safe_core_ok: "str_ok raw \<Longrightarrow> str_ok (safe_core raw)"
proof -
  assume r: "str_ok raw"
  let ?m = "map (\<lambda>c. if refused_char c then 95 else c) (last_component raw)"
  have "\<forall>c \<in> set ?m. is_scalar c"
    using set_last_component [of raw] r plain_literals(3) by (auto simp: str_ok_def list_all_iff)
  moreover have "set (trim_start (drop_tail ?m)) \<subseteq> set ?m" using set_trim_start set_drop_tail by blast
  ultimately have "str_ok (trim_start (drop_tail ?m))" by (auto simp: str_ok_def list_all_iff)
  then show ?thesis using plain_literals(3,4) by (simp add: safe_core_def Let_def)
qed

lemma safe_core_head: "safe_core raw \<noteq> [] \<and> hd (safe_core raw) \<noteq> 46"
  by (auto simp: safe_core_def Let_def ulit_def)

lemma cut_take:
  assumes "str_ok s"
  obtains n where "cut s m = take n s" "str_len (take n s) \<le> m" "n < length s \<Longrightarrow> m < str_len (take (Suc n) s)"
proof -
  obtain n where "truncate_utf8 s m = Some (take n s)" "str_len (take n s) \<le> m"
    "n < length s \<longrightarrow> m < str_len (take (Suc n) s)"
    using truncate_utf8_maximal [OF assms, of m] by blast
  then show thesis using that [of n] by (simp add: cut_def)
qed

lemma str_len_hd: "str_len [c] \<le> 4"
  by (simp add: str_len_def utf8_char_def)

lemmas name_defs = safe_name_def safe_core_def last_component_def drop_tail_def trim_start_def trim_end_def is_whitespace_def
      refused_char_def is_control_def is_invisible_def reserved_name_def upper_def to_ascii_uppercase_def numbered_def
      ulit_def Let_def cut_def truncate_utf8_def str_len_def utf8_char_def

text \<open>C40: A received file stays in the folder it is kept in and is visible there: whatever name a sender
  gave, the name used is not empty, has no separator, no control, invisible or refused character, does not
  start with a dot, and is at most 200 bytes.\<close>

theorem safe_name_contained:
  assumes "str_ok raw"
  shows "let name = safe_name raw in name \<noteq> [] \<and> hd name \<noteq> 46 \<and> str_len name \<le> 200
    \<and> list_all (\<lambda>c. c \<noteq> 47 \<and> c \<noteq> 92 \<and> \<not> refused_char c) name"
proof -
  have ok: "str_ok (safe_core raw)" by (rule safe_core_ok [OF assms])
  obtain n where n: "safe_name raw = take n (safe_core raw)" "str_len (take n (safe_core raw)) \<le> 200"
    "n < length (safe_core raw) \<Longrightarrow> 200 < str_len (take (Suc n) (safe_core raw))"
    unfolding safe_name_cut by (rule cut_take [OF ok, of 200]) blast
  obtain c cs where c: "safe_core raw = c # cs" "c \<noteq> 46" using safe_core_head [of raw] by (cases "safe_core raw") auto
  have "n \<noteq> 0"
  proof
    assume "n = 0"
    then have "200 < str_len [c]" using n(3) c(1) by simp
    then show False using str_len_hd [of c] by simp
  qed
  then have "safe_name raw \<noteq> []" "hd (safe_name raw) \<noteq> 46" using n(1) c by (cases n; simp)+
  moreover have "list_all plain_char (safe_name raw)"
    using safe_core_chars [of raw] set_take_subset [of n "safe_core raw"] unfolding n(1) list_all_iff by blast
  ultimately show ?thesis using n(1,2) by (auto simp: Let_def list_all_iff plain_char_def)
qed

lemma safe_name_contained_witness:
  "let name = safe_name (ulit ''../.ssh/a:b'') in name = ulit ''a_b'' \<and> str_len name \<le> 200"
proof -
  have e: "safe_name (ulit ''../.ssh/a:b'') = ulit ''a_b''" by (simp add: name_defs)
  have ok: "str_ok (ulit ''../.ssh/a:b'')" by (simp add: ulit_def is_scalar_def)
  show ?thesis using safe_name_contained [OF ok] e unfolding Let_def by blast
qed

lemma trim_end_cons: "\<not> is_whitespace c \<Longrightarrow> \<exists>t. trim_end (c # s) = c # t"
proof -
  assume c: "\<not> is_whitespace c"
  have "dropWhile is_whitespace (rev s @ [c]) = dropWhile is_whitespace (rev s) @ [c]"
    using c by (cases "\<forall>x \<in> set (rev s). is_whitespace x") (auto simp: dropWhile_append)
  then show ?thesis by (simp add: trim_end_def)
qed

lemma reserved_underscore: "\<not> reserved_name (95 # s)"
proof -
  obtain t where "trim_end (95 # takeWhile (\<lambda>c. c \<noteq> 46) s) = 95 # t"
    using trim_end_cons [of 95 "takeWhile (\<lambda>c. c \<noteq> 46) s"] by (auto simp: is_whitespace_def)
  then show ?thesis by (auto simp: reserved_name_def Let_def upper_def to_ascii_uppercase_def numbered_def ulit_def)
qed

lemma last_drop_tail: "drop_tail s \<noteq> [] \<Longrightarrow> last (drop_tail s) \<notin> {46, 32}"
  using hd_dropWhile [of "\<lambda>c. c = 46 \<or> c = 32" "rev s"] by (simp add: drop_tail_def last_rev)

lemma last_trim_start: "trim_start s \<noteq> [] \<Longrightarrow> last (trim_start s) = last s"
  unfolding trim_start_def by (induction s) auto

text \<open>A name that needs no cutting is safe on Windows too: it is no reserved device name and does not
  end in a dot or a space, which Windows drops.\<close>

theorem safe_name_windows:
  assumes "str_ok raw" "str_len (safe_core raw) \<le> 200"
  shows "\<not> reserved_name (safe_name raw) \<and> last (safe_name raw) \<notin> {46, 32}"
proof -
  have e: "safe_name raw = safe_core raw"
    using assms(2) by (simp add: safe_name_cut cut_def truncate_utf8_def)
  define m b where "m = map (\<lambda>c. if refused_char c then 95 else c) (last_component raw)" and "b = trim_start (drop_tail m)"
  have "last b \<noteq> 46 \<and> last b \<noteq> 32" if "b \<noteq> []"
  proof -
    have "drop_tail m \<noteq> []" using that by (auto simp: b_def trim_start_def)
    then show ?thesis using last_trim_start [of "drop_tail m"] that last_drop_tail [of m] by (simp add: b_def)
  qed
  then have "last (safe_core raw) \<notin> {46, 32}"
    by (auto simp: safe_core_def Let_def ulit_def m_def [symmetric] b_def [symmetric])
  moreover have "\<not> reserved_name (safe_core raw)" using reserved_underscore by (auto simp: safe_core_def Let_def)
  ultimately show ?thesis using e by simp
qed

lemma safe_name_windows_witness:
  "safe_name (ulit ''C:/x/lpt1 .txt. '') = ulit ''_lpt1 .txt''
   \<and> \<not> reserved_name (safe_name (ulit ''C:/x/lpt1 .txt. ''))"
proof -
  have "safe_name (ulit ''C:/x/lpt1 .txt. '') = ulit ''_lpt1 .txt''" by (simp add: name_defs)
  moreover have "str_ok (ulit ''C:/x/lpt1 .txt. '')" by (simp add: ulit_def is_scalar_def)
  moreover have "str_len (safe_core (ulit ''C:/x/lpt1 .txt. '')) \<le> 200" by (simp add: name_defs)
  ultimately show ?thesis using safe_name_windows by blast
qed

text \<open>Cutting comes after the other rules, so what they rule out can come back: a reserved name padded with
  spaces before a last character is cut to the reserved name and its padding.\<close>

lemma cut_ascii:
  assumes "str_ok s" "\<forall>c \<in> set s. c < 128"
  shows "cut s m = take m s"
proof -
  obtain n where n: "cut s m = take n s" "str_len (take n s) \<le> m" "n < length s \<Longrightarrow> m < str_len (take (Suc n) s)"
    by (rule cut_take [OF assms(1), of m]) blast
  have len: "str_len (take k s) = min (length s) k" for k
    using str_len_ascii [of "take k s"] assms(2) by (auto dest: in_set_takeD simp: min.commute list_all_iff)
  show ?thesis
  proof (cases "n < length s")
    case True
    then have "n \<le> m \<and> m < Suc n" using n(2) n(3) [OF True] unfolding len by linarith
    then have "n = m" by linarith
    then show ?thesis using n(1) by simp
  next
    case False
    then show ?thesis using n(1,2) len [of n] by simp
  qed
qed

lemma padded_core:
  "safe_core (ulit ''CON'' @ replicate (Suc k) 32 @ ulit ''x'') = ulit ''CON'' @ replicate (Suc k) 32 @ ulit ''x''"
proof -
  let ?s = "ulit ''CON'' @ replicate (Suc k) 32 @ ulit ''x''"
  have chars: "\<forall>c \<in> set ?s. c \<noteq> 47 \<and> c \<noteq> 92 \<and> c \<noteq> 46 \<and> c \<in> {67, 79, 78, 32, 120}"
    by (auto simp: ulit_def)
  have "takeWhile (\<lambda>c. c \<noteq> 47 \<and> c \<noteq> 92) (rev ?s) = rev ?s"
    unfolding takeWhile_eq_all_conv set_rev using chars by blast
  then have last: "last_component ?s = ?s" unfolding last_component_def by (simp only: rev_rev_ident)
  have same: "map (\<lambda>c. if refused_char c then 95 else c) ?s = ?s"
  proof (rule map_idI)
    fix c assume "c \<in> set ?s"
    then have "c \<in> {67, 79, 78, 32, 120}" using chars by blast
    then have "\<not> refused_char c"
      by (elim insertE emptyE) (simp_all add: refused_char_def is_control_def is_invisible_def)
    then show "(if refused_char c then 95 else c) = c" by simp
  qed
  have tail: "drop_tail ?s = ?s" by (simp add: drop_tail_def ulit_def)
  have start: "trim_start ?s = ?s" by (simp add: trim_start_def is_whitespace_def ulit_def)
  have tw: "takeWhile (\<lambda>c. c \<noteq> 46) ?s = ?s" unfolding takeWhile_eq_all_conv using chars by blast
  have te: "trim_end ?s = ?s" by (simp add: trim_end_def is_whitespace_def ulit_def)
  have up: "upper ?s = ulit ''CON'' @ replicate (Suc k) 32 @ ulit ''X''"
    by (simp add: upper_def to_ascii_uppercase_def ulit_def)
  have "\<not> reserved_name ?s" unfolding reserved_name_def Let_def tw te up by (simp add: numbered_def ulit_def)
  then show ?thesis unfolding safe_core_def last same tail start by (simp add: Let_def ulit_def)
qed

lemma safe_name_reserved_after_cut:
  "reserved_name (safe_name (ulit ''CON'' @ replicate (Suc 199) 32 @ ulit ''x''))"
proof -
  let ?s = "ulit ''CON'' @ replicate (Suc 199) 32 @ ulit ''x''"
  have "str_ok ?s" "\<forall>c \<in> set ?s. c < 128"
    by (auto simp: str_ok_def ulit_def is_scalar_def list_all_iff simp del: replicate_Suc)
  then have "safe_name ?s = take 200 ?s" unfolding safe_name_cut padded_core by (rule cut_ascii)
  also have "\<dots> = ulit ''CON'' @ replicate 197 32" by (simp add: ulit_def take_Cons' del: replicate_Suc)
  finally have e: "safe_name ?s = ulit ''CON'' @ replicate 197 32" .
  have "takeWhile (\<lambda>c. c \<noteq> 46) (ulit ''CON'' @ replicate n 32) = ulit ''CON'' @ replicate n (32 :: uchar)" for n
    by (simp add: ulit_def takeWhile_eq_all_conv)
  moreover have "trim_end (ulit ''CON'' @ replicate n 32) = ulit ''CON''" for n
  proof -
    have "dropWhile is_whitespace (replicate n 32 @ rev (ulit ''CON'')) = rev (ulit ''CON'')"
      by (induction n) (simp_all add: is_whitespace_def ulit_def)
    then show ?thesis by (simp add: trim_end_def)
  qed
  ultimately show ?thesis unfolding e by (simp add: reserved_name_def Let_def upper_def to_ascii_uppercase_def ulit_def)
qed

section \<open>Free names\<close>

lemma unique_path_cases:
  fixes ns :: "nat list"
  shows "case find (\<lambda>p. \<not> f p) (map g ns) of Some p \<Rightarrow> \<not> f p \<and> \<not> list_all (\<lambda>n. f (g n)) ns
    | None \<Rightarrow> list_all (\<lambda>n. f (g n)) ns"
  by (induction ns) (auto split: option.splits)

text \<open>The name a file is kept under is free, its temporary name too, exactly unless that name and every
  numbered one up to 9999 is taken.\<close>

theorem unique_path_free:
  "taken there (unique_path there folder name) \<longleftrightarrow>
     taken there (folder, name) \<and> list_all (\<lambda>n. taken there (folder, numbered_name name n)) [2..<10000]"
  using unique_path_cases [of "taken there" "\<lambda>n. (folder, numbered_name name n)" "[2..<10000]"]
  unfolding unique_path_def by (auto split: option.splits simp del: upt_rec_numeral)

end
