(* ===== verification/Transfers.thy ===== *)
theory Transfers
  imports Complex_Main File_Names About
begin

text \<open>
  Sending and receiving files, \<open>crates/asli-app/src/transfer/mod.rs\<close> and \<open>transfer/about.rs\<close>: the transfers
  under way on this device, and every operation of the window, the connection and the direct path on them.
  Each operation is a function of the state behind the lock. The queue to the connection is a list with the
  room it has; the clock is read once per operation; what the operating system does to files is \<open>fsys\<close>. Log
  lines and notifications to the person have no effect on the state and are left out.
\<close>

section \<open>The clock and the pace\<close>

text \<open>Nanoseconds on the monotonic clock.\<close>

type_synonym instant = nat

definition MAX_FILE_BYTES :: u64 where [asli_const]: "MAX_FILE_BYTES = 4 * 1024 * 1024 * 1024"
definition WINDOW :: u32 where [asli_const]: "WINDOW = 6"
definition PACE_BYTES_PER_SEC :: rat where "PACE_BYTES_PER_SEC = 5 * 1024 * 1024"
definition FILE_PACE_BURST :: rat where "FILE_PACE_BURST = 2 * 1024 * 1024"
definition STALL :: instant where "STALL = 60 * 10 ^ 9"
definition FINISHING :: instant where "FINISHING = 150 * 10 ^ 9"
definition GONE :: instant where "GONE = 20 * 10 ^ 9"

text \<open>The tokens are a double in the code; here they are exact.\<close>

record file_pace =
  pa_tokens :: rat
  pa_at :: "instant option"

definition topped_up :: "instant \<Rightarrow> file_pace \<Rightarrow> rat" where
  "topped_up now p =
     (case pa_at p of
        None \<Rightarrow> FILE_PACE_BURST
      | Some since \<Rightarrow> min (pa_tokens p + of_nat (now - since) / 10 ^ 9 * PACE_BYTES_PER_SEC) FILE_PACE_BURST)"

definition pace_take :: "nat \<Rightarrow> instant \<Rightarrow> file_pace \<Rightarrow> bool \<times> file_pace" where
  "pace_take n now p =
     (let p = \<lparr>pa_tokens = topped_up now p, pa_at = Some now\<rparr>
      in if pa_tokens p < of_nat n then (False, p) else (True, p\<lparr>pa_tokens := pa_tokens p - of_nat n\<rparr>))"

section \<open>Files\<close>

text \<open>
  A directory entry names a file by number, and an open file is its number: it stays the same file when its
  name is taken away or given to another. \<open>fs_faults\<close> says of the operations to come which fail; a write that
  fails leaves nothing, where part of it may have been written to a file that is then given up. Errors shown
  to the person are without what the code formats into them.
\<close>

record fsys =
  fs_dir :: "path \<Rightarrow> nat option"
  fs_data :: "nat \<Rightarrow> bytes"
  fs_next :: nat
  fs_faults :: "bool list"

definition fs_fault :: "fsys \<Rightarrow> bool \<times> fsys" where
  "fs_fault fs = (case fs_faults fs of [] \<Rightarrow> (False, fs) | b # bs \<Rightarrow> (b, fs\<lparr>fs_faults := bs\<rparr>))"

definition fs_there :: "fsys \<Rightarrow> path \<Rightarrow> bool" where
  "fs_there fs p \<longleftrightarrow> fs_dir fs p \<noteq> None"

definition fs_create_new :: "path \<Rightarrow> fsys \<Rightarrow> nat option \<times> fsys" where
  "fs_create_new p fs =
     (let (bad, fs) = fs_fault fs; n = fs_next fs in
      if bad \<or> fs_there fs p then (None, fs)
      else (Some n, fs\<lparr>fs_dir := (fs_dir fs)(p \<mapsto> n), fs_data := (fs_data fs)(n := []), fs_next := n + 1\<rparr>))"

definition fs_write_all :: "nat \<Rightarrow> bytes \<Rightarrow> fsys \<Rightarrow> bool \<times> fsys" where
  "fs_write_all n bs fs =
     (let (bad, fs) = fs_fault fs in
      if bad then (False, fs) else (True, fs\<lparr>fs_data := (fs_data fs)(n := fs_data fs n @ bs)\<rparr>))"

definition fs_sync_all :: "fsys \<Rightarrow> bool \<times> fsys" where
  "fs_sync_all fs = (let (bad, fs) = fs_fault fs in (\<not> bad, fs))"

definition fs_remove_file :: "path \<Rightarrow> fsys \<Rightarrow> fsys" where
  "fs_remove_file p fs =
     (let (bad, fs) = fs_fault fs in if bad then fs else fs\<lparr>fs_dir := (fs_dir fs)(p := None)\<rparr>)"

definition fs_rename :: "path \<Rightarrow> path \<Rightarrow> fsys \<Rightarrow> bool \<times> fsys" where
  "fs_rename p q fs =
     (let (bad, fs) = fs_fault fs in
      case fs_dir fs p of
        None \<Rightarrow> (False, fs)
      | Some n \<Rightarrow> if bad then (False, fs) else (True, fs\<lparr>fs_dir := (fs_dir fs)(p := None, q := Some n)\<rparr>))"

definition fs_read :: "path \<Rightarrow> fsys \<Rightarrow> bytes option \<times> fsys" where
  "fs_read p fs =
     (let (bad, fs) = fs_fault fs in
      case fs_dir fs p of None \<Rightarrow> (None, fs) | Some n \<Rightarrow> if bad then (None, fs) else (Some (fs_data fs n), fs))"

definition read_chunk :: "path \<Rightarrow> u32 \<Rightarrow> u32 \<Rightarrow> fsys \<Rightarrow> bytes option \<times> fsys" where
  "read_chunk p index chunk_bytes fs =
     (let (r, fs) = fs_read p fs in
      (map_option (\<lambda>d. take (unat chunk_bytes) (drop (unat index * unat chunk_bytes) d)) r, fs))"

text \<open>A file is hashed as it is read, a mebibyte at a time, which is the hash of the whole.\<close>

definition hash_file :: "prims \<Rightarrow> path \<Rightarrow> fsys \<Rightarrow> (string + u64 \<times> bytes) \<times> fsys" where
  "hash_file P p fs =
     (let (r, fs) = fs_read p fs in
      case r of
        None \<Rightarrow> (Inl ''couldn't read it'', fs)
      | Some d \<Rightarrow>
          if of_nat (length d) > MAX_FILE_BYTES then (Inl ''it is larger than 4 GB'', fs)
          else (Inr (of_nat (length d), p_sha256 P d), fs))"

section \<open>The state\<close>

datatype direction = DirSending | DirReceiving

text \<open>\<open>Done\<close> is taken by the acknowledgement of that name.\<close>

datatype stage =
    Offered
  | Moving u32
  | StageDone "path option"
  | StageDeclined
  | StageCancelled
  | StageFailed string

definition finished :: "stage \<Rightarrow> bool" where
  "finished st \<longleftrightarrow> (case st of Offered \<Rightarrow> False | Moving _ \<Rightarrow> False | _ \<Rightarrow> True)"

definition is_moving :: "stage \<Rightarrow> bool" where
  "is_moving st \<longleftrightarrow> (case st of Moving _ \<Rightarrow> True | _ \<Rightarrow> False)"

record listed =
  li_id :: bytes
  li_direction :: direction
  li_peer :: ustr
  li_device_id :: bytes
  li_name :: ustr
  li_size :: u64
  li_chunks :: u64
  li_stage :: stage

text \<open>\<open>lk_capacity\<close> is how many events the queue takes before it is full; a connection that is gone takes none.\<close>

record relay_link =
  lk_queue :: "local_event list"
  lk_capacity :: nat
  lk_device_secret :: bytes
  lk_device_id :: bytes
  lk_room :: bytes
  lk_conn_id :: "ustr option"

definition lk_keys :: "prims \<Rightarrow> relay_link \<Rightarrow> device_keys" where
  "lk_keys P l = keys_from_secret P (lk_device_secret l)"

record outgoing_file =
  og_offer :: offer
  og_path :: path
  og_peer :: ustr
  og_to :: "ustr option"
  og_next :: u32
  og_acked :: u32
  og_stage :: stage
  og_moved :: instant
  og_direct :: bool
  og_offered_to :: ustr
  og_gone_since :: "instant option"

text \<open>The open file, its temporary path and where it goes; the hasher is what it was fed so far.\<close>

record incoming_file =
  ig_offer :: offer
  ig_peer :: ustr
  ig_part :: "(nat \<times> path \<times> path) option"
  ig_hasher :: bytes
  ig_received :: u32
  ig_written :: u64
  ig_stage :: stage
  ig_moved :: instant
  ig_direct :: bool
  ig_replace :: bool
  ig_gone_since :: "instant option"
  ig_owed_ack :: "(u32 \<times> ack_state) option"

record transfers =
  tr_link :: "relay_link option"
  tr_devices :: registry
  tr_sending :: "(bytes, outgoing_file) hmap"
  tr_receiving :: "(bytes, incoming_file) hmap"
  tr_pace :: file_pace
  tr_same_network_only :: bool
  tr_preparing :: "(bytes \<times> path) list"
  tr_leave_sent :: bool
  tr_revision :: u64
  tr_fs :: fsys

definition bump :: "transfers \<Rightarrow> transfers" where
  "bump s = s\<lparr>tr_revision := tr_revision s + 1\<rparr>"

definition set_out :: "bytes \<Rightarrow> outgoing_file \<Rightarrow> transfers \<Rightarrow> transfers" where
  "set_out i og s = s\<lparr>tr_sending := AList.update i og (tr_sending s)\<rparr>"

definition set_in :: "bytes \<Rightarrow> incoming_file \<Rightarrow> transfers \<Rightarrow> transfers" where
  "set_in i ig s = s\<lparr>tr_receiving := AList.update i ig (tr_receiving s)\<rparr>"

text \<open>Every value of a map in turn, with a state carried along: a loop over \<open>values_mut\<close>.\<close>

fun each_value :: "('v \<Rightarrow> 'e \<Rightarrow> 'v \<times> 'e) \<Rightarrow> ('k \<times> 'v) list \<Rightarrow> 'e \<Rightarrow> ('k \<times> 'v) list \<times> 'e" where
  "each_value f [] e = ([], e)"
| "each_value f ((k, v) # m) e =
     (let (v, e) = f v e; (m, e) = each_value f m e in ((k, v) # m, e))"

section \<open>Sending messages\<close>

definition try_send :: "local_event \<Rightarrow> relay_link \<Rightarrow> bool \<times> relay_link" where
  "try_send ev l =
     (if length (lk_queue l) < lk_capacity l then (True, l\<lparr>lk_queue := lk_queue l @ [ev]\<rparr>) else (False, l))"

definition send_msg :: "kind \<Rightarrow> bytes \<Rightarrow> ustr \<Rightarrow> relay_link \<Rightarrow> (string + unit) \<times> relay_link" where
  "send_msg k body to l =
     (let (ok, l) = try_send (LMessage k body (Some to) None) l in
      (if ok then Inr () else Inl ''Asli is busy. Try again in a moment.'', l))"

definition send_cancel :: "bytes \<Rightarrow> ustr \<Rightarrow> relay_link \<Rightarrow> relay_link" where
  "send_cancel i to l = snd (send_msg FileCancel (cancel_encode \<lparr>x_offer_id = i\<rparr>) to l)"

definition answer_offer :: "prims \<Rightarrow> bytes \<Rightarrow> bool \<Rightarrow> ustr \<Rightarrow> relay_link \<Rightarrow> (string + unit) \<times> relay_link" where
  "answer_offer P i yes to l =
     (case lk_conn_id l of
        None \<Rightarrow> (Inl ''Asli is not connected.'', l)
      | Some conn_id \<Rightarrow>
          (case answer_encode P \<lparr>a_offer_id = i, a_from_device_id = lk_device_id l, a_accepted = yes,
               a_reply_to = conn_id\<rparr> (lk_keys P l) (lk_room l) of
             Inl e \<Rightarrow> (Inl (display e), l)
           | Inr body \<Rightarrow> send_msg FileAnswer body to l))"

definition send_ack :: "incoming_file \<Rightarrow> u32 \<Rightarrow> ack_state \<Rightarrow> relay_link \<Rightarrow> bool \<times> relay_link" where
  "send_ack ig received st l =
     (let (r, l) = send_msg FileAck
            (ack_encode \<lparr>k_offer_id = o_offer_id (ig_offer ig), k_received = received, k_state = st\<rparr>)
            (o_reply_to (ig_offer ig)) l
      in (case r of Inr _ \<Rightarrow> True | Inl _ \<Rightarrow> False, l))"

section \<open>Pieces\<close>

definition piece_len :: "offer \<Rightarrow> u32 \<Rightarrow> nat" where
  "piece_len f index =
     (let start = ucast index * ucast (o_chunk_bytes f)
      in unat (min (sat_sub (o_size f) start) (ucast (o_chunk_bytes f))))"

text \<open>The number of pieces as the sender counts them, capped at what the index can hold.\<close>

definition piece_total :: "offer \<Rightarrow> u32" where
  "piece_total f = (if unat (chunk_count f) < 2 ^ 32 then ucast (chunk_count f) else - 1)"

type_synonym pumping = "relay_link \<times> file_pace \<times> outgoing_file \<times> fsys"

function pump_loop :: "instant \<Rightarrow> ustr \<Rightarrow> relay_link \<Rightarrow> file_pace \<Rightarrow> outgoing_file \<Rightarrow> fsys \<Rightarrow> pumping" where
  "pump_loop now to l p og fs =
     (if og_next og < piece_total (og_offer og) \<and> og_next og < sat_add (og_acked og) WINDOW then
        case pace_take (piece_len (og_offer og) (og_next og)) now p of
          (False, p) \<Rightarrow> (l, p, og, fs)
        | (True, p) \<Rightarrow>
            (case read_chunk (og_path og) (og_next og) (o_chunk_bytes (og_offer og)) fs of
               (None, fs) \<Rightarrow> (l, p, og\<lparr>og_stage := StageFailed ''couldn't read the file''\<rparr>, fs)
             | (Some d, fs) \<Rightarrow>
                 (case file_chunk_encode \<lparr>fc_offer_id = o_offer_id (og_offer og), fc_index = og_next og, fc_data = d\<rparr> of
                    Inl _ \<Rightarrow> (l, p, og\<lparr>og_stage := StageFailed ''a piece was too large''\<rparr>, fs)
                  | Inr body \<Rightarrow>
                      (case send_msg FileChunk body to l of
                         (Inl _, l) \<Rightarrow> (l, p, og, fs)
                       | (Inr _, l) \<Rightarrow> pump_loop now to l p (og\<lparr>og_next := og_next og + 1\<rparr>) fs)))
      else (l, p, og, fs))"
  by pat_completeness auto
termination
proof (relation "measure (\<lambda>(now, to, l, p, og, fs). unat (piece_total (og_offer og)) - unat (og_next og))", goal_cases)
  case 1
  then show ?case by simp
next
  case (2 now to l p og fs)
  then have "unat (og_next og) < unat (piece_total (og_offer og))" by (simp add: word_less_nat_alt)
  moreover from this have "unat (og_next og + 1) = Suc (unat (og_next og))"
    using unat_bound [of "piece_total (og_offer og)"] by (simp add: unat_word_ariths)
  ultimately show ?case by simp
qed

declare pump_loop.simps [simp del]

definition pump_out :: "instant \<Rightarrow> relay_link \<Rightarrow> file_pace \<Rightarrow> outgoing_file \<Rightarrow> fsys \<Rightarrow> pumping" where
  "pump_out now l p og fs = (case og_to og of None \<Rightarrow> (l, p, og, fs) | Some to \<Rightarrow> pump_loop now to l p og fs)"

definition discard_part :: "incoming_file \<Rightarrow> fsys \<Rightarrow> incoming_file \<times> fsys" where
  "discard_part ig fs =
     (case ig_part ig of
        None \<Rightarrow> (ig, fs)
      | Some (_, part, _) \<Rightarrow> (ig\<lparr>ig_part := None\<rparr>, fs_remove_file part fs))"

definition give_up_incoming :: "string \<Rightarrow> incoming_file \<Rightarrow> fsys \<Rightarrow> incoming_file \<times> fsys" where
  "give_up_incoming why ig fs =
     (let (ig, fs) = discard_part ig fs in (ig\<lparr>ig_stage := StageFailed why\<rparr>, fs))"

definition fail_incoming :: "string \<Rightarrow> relay_link \<Rightarrow> incoming_file \<Rightarrow> fsys \<Rightarrow> relay_link \<times> incoming_file \<times> fsys" where
  "fail_incoming why l ig fs =
     (let (ig, fs) = discard_part ig fs;
          ig = ig\<lparr>ig_stage := StageFailed why\<rparr>
      in (send_cancel (o_offer_id (ig_offer ig)) (o_reply_to (ig_offer ig)) l, ig, fs))"

text \<open>The mark of a downloaded file is the operating system's and changes nothing here.\<close>

definition finish_incoming :: "prims \<Rightarrow> incoming_file \<Rightarrow> fsys \<Rightarrow> ack_state \<times> incoming_file \<times> fsys" where
  "finish_incoming P ig fs =
     (let digest = p_sha256 P (ig_hasher ig);
          ig = ig\<lparr>ig_hasher := []\<rparr> in
      case ig_part ig of
        None \<Rightarrow> (Corrupt, ig, fs)
      | Some (_, part, final_path) \<Rightarrow>
          (let ig = ig\<lparr>ig_part := None\<rparr>;
               (synced, fs) = fs_sync_all fs in
           if digest \<noteq> o_sha256 (ig_offer ig) \<or> ig_written ig \<noteq> o_size (ig_offer ig) then
             (Corrupt, ig\<lparr>ig_stage := StageFailed ''it arrived damaged, so it was thrown away''\<rparr>,
              fs_remove_file part fs)
           else if \<not> synced then
             (Corrupt, ig\<lparr>ig_stage := StageFailed ''it couldn't be written to disk''\<rparr>, fs_remove_file part fs)
           else
             let target = (if fs_there fs final_path \<and> \<not> ig_replace ig
                   then unique_path (fs_there fs) (fst final_path) (safe_name (o_name (ig_offer ig)))
                   else final_path);
                 (kept, fs) = fs_rename part target fs
             in if \<not> kept
                then (Corrupt, ig\<lparr>ig_stage := StageFailed ''couldn't keep it''\<rparr>, fs_remove_file part fs)
                else (ack_state.Done, ig\<lparr>ig_stage := StageDone (Some target)\<rparr>, fs)))"

definition take_piece ::
    "prims \<Rightarrow> instant \<Rightarrow> bytes \<Rightarrow> incoming_file \<Rightarrow> fsys \<Rightarrow> (string + ack_state option) \<times> incoming_file \<times> fsys" where
  "take_piece P now d ig fs =
     (if length d \<noteq> piece_len (ig_offer ig) (ig_received ig)
         \<or> chunk_count (ig_offer ig) \<le> ucast (ig_received ig)
      then (Inl ''a piece arrived the wrong size'', ig, fs)
      else case ig_part ig of
          None \<Rightarrow> (Inl ''it was called off'', ig, fs)
        | Some (n, _, _) \<Rightarrow>
            (let (ok, fs) = fs_write_all n d fs in
             if \<not> ok then (Inl ''couldn't write the file'', ig, fs)
             else
               let ig = ig\<lparr>ig_hasher := ig_hasher ig @ d, ig_received := ig_received ig + 1, ig_moved := now,
                     ig_written := ig_written ig + of_nat (length d)\<rparr>
               in if ucast (ig_received ig) = chunk_count (ig_offer ig)
                  then let (st, ig, fs) = finish_incoming P ig fs in (Inr (Some st), ig, fs)
                  else (Inr None, ig\<lparr>ig_stage := Moving (ig_received ig)\<rparr>, fs)))"

section \<open>What a connection that ended takes with it\<close>

text \<open>The clocks, the version of this build, and whether the device list's file takes a write.\<close>

record surroundings =
  su_now :: instant
  su_now_ms :: u64
  su_version :: ustr
  su_saves :: bool

definition fail_out :: "string \<Rightarrow> outgoing_file \<Rightarrow> unit \<Rightarrow> outgoing_file \<times> unit" where
  "fail_out why og _ =
     (if \<not> finished (og_stage og) \<and> \<not> og_direct og then (og\<lparr>og_stage := StageFailed why\<rparr>, ()) else (og, ()))"

definition fail_in :: "string \<Rightarrow> incoming_file \<Rightarrow> fsys \<Rightarrow> incoming_file \<times> fsys" where
  "fail_in why ig fs =
     (if \<not> finished (ig_stage ig) \<and> \<not> ig_direct ig
      then let (ig, fs) = discard_part ig fs in (ig\<lparr>ig_stage := StageFailed why\<rparr>, fs)
      else (ig, fs))"

definition fail_all_live :: "string \<Rightarrow> transfers \<Rightarrow> transfers" where
  "fail_all_live why s =
     (let (sending, _) = each_value (fail_out why) (tr_sending s) ();
          (receiving, fs) = each_value (fail_in why) (tr_receiving s) (tr_fs s)
      in bump (s\<lparr>tr_sending := sending, tr_receiving := receiving, tr_fs := fs\<rparr>))"

definition went_away :: "ustr option \<Rightarrow> ustr \<Rightarrow> instant option \<Rightarrow> instant \<Rightarrow> bool \<times> instant option" where
  "went_away here offered_on gone_since now =
     (if here = Some offered_on then (False, None)
      else let since = (case gone_since of None \<Rightarrow> now | Some t \<Rightarrow> t) in (now - since > GONE, Some since))"

section \<open>The version of each device, and leaving\<close>

definition LEAVE_TOKEN :: u64 where [asli_const]: "LEAVE_TOKEN = - 1 - 8"

definition announce_version ::
    "prims \<Rightarrow> surroundings \<Rightarrow> bool \<Rightarrow> ustr option \<Rightarrow> transfers \<Rightarrow> transfers" where
  "announce_version P E ask to s =
     (case tr_link s of
        None \<Rightarrow> s
      | Some l \<Rightarrow>
          (case lk_conn_id l of
             None \<Rightarrow> s
           | Some reply_to \<Rightarrow>
               (case about_encode P \<lparr>ab_from_device_id = lk_device_id l, ab_ask = ask, ab_reply_to = reply_to,
                    ab_build = 0, ab_version = su_version E\<rparr> (lk_keys P l) (lk_room l) of
                  Inl _ \<Rightarrow> s
                | Inr body \<Rightarrow> s\<lparr>tr_link := Some (case to of
                      Some to \<Rightarrow> snd (send_msg About body to l)
                    | None \<Rightarrow> snd (try_send (LMessage About body None None) l))\<rparr>)))"

definition pinned_by_id :: "bytes \<Rightarrow> transfers \<Rightarrow> known_device option" where
  "pinned_by_id i s = find (\<lambda>k. kd_device_id k = i) (pinned (tr_devices s))"

definition on_about :: "prims \<Rightarrow> surroundings \<Rightarrow> bytes \<Rightarrow> transfers \<Rightarrow> transfers" where
  "on_about P E body s =
     (case tr_link s of
        None \<Rightarrow> s
      | Some l \<Rightarrow>
          (case about_claimed_sender body of
             Inl _ \<Rightarrow> s
           | Inr sender \<Rightarrow>
               if sender = lk_device_id l then s
               else (case pinned_by_id sender s of
                  None \<Rightarrow> s
                | Some k \<Rightarrow>
                    (case about_decode P body (lk_room l) (kd_sign_pub k) of
                       Inl _ \<Rightarrow> s
                     | Inr a \<Rightarrow>
                         let s = s\<lparr>tr_devices := heard_version (su_saves E) (ab_from_device_id a) (ab_version a)
                               (ab_build a) (tr_devices s)\<rparr>
                         in if ab_ask a then announce_version P E False (Some (ab_reply_to a)) s else s))))"

text \<open>Whether the goodbye went into the queue.\<close>

definition queue_leave :: "prims \<Rightarrow> surroundings \<Rightarrow> transfers \<Rightarrow> bool \<times> transfers" where
  "queue_leave P E s =
     (case tr_link s of
        None \<Rightarrow> (False, s)
      | Some l \<Rightarrow>
          if lk_conn_id l = None then (False, s)
          else
            let body = leave_encode P \<lparr>lv_from_device_id = lk_device_id l, lv_ts_ms = su_now_ms E\<rparr>
                  (lk_keys P l) (lk_room l);
                (ok, l) = try_send (LMessage Leave body None (Some LEAVE_TOKEN)) l
            in (ok, s\<lparr>tr_link := Some l\<rparr>))"

definition on_leave :: "prims \<Rightarrow> surroundings \<Rightarrow> bytes \<Rightarrow> transfers \<Rightarrow> transfers" where
  "on_leave P E body s =
     (case tr_link s of
        None \<Rightarrow> s
      | Some l \<Rightarrow>
          (case about_claimed_sender body of
             Inl _ \<Rightarrow> s
           | Inr sender \<Rightarrow>
               (case pinned_by_id sender s of
                  None \<Rightarrow> s
                | Some k \<Rightarrow>
                    (case leave_decode P body (lk_room l) (kd_sign_pub k) of
                       Inl _ \<Rightarrow> s
                     | Inr _ \<Rightarrow> s\<lparr>tr_devices := dev_forget (su_saves E) sender (tr_devices s)\<rparr>))))"

section \<open>The connection\<close>

definition attach :: "nat \<Rightarrow> bytes \<Rightarrow> bytes \<Rightarrow> bytes \<Rightarrow> registry \<Rightarrow> transfers \<Rightarrow> transfers" where
  "attach places secret device_id rm devices s =
     s\<lparr>tr_link := Some \<lparr>lk_queue = [], lk_capacity = places, lk_device_secret = secret,
          lk_device_id = device_id, lk_room = rm, lk_conn_id = None\<rparr>, tr_devices := devices\<rparr>"

text \<open>The first half of saying goodbye; the second waits until \<open>tr_leave_sent\<close> or the time is up.\<close>

definition say_leaving :: "prims \<Rightarrow> surroundings \<Rightarrow> transfers \<Rightarrow> bool \<times> transfers" where
  "say_leaving P E s = queue_leave P E (s\<lparr>tr_leave_sent := False\<rparr>)"

definition ask_version :: "prims \<Rightarrow> surroundings \<Rightarrow> ustr \<Rightarrow> transfers \<Rightarrow> transfers" where
  "ask_version P E conn_id s = announce_version P E True (Some conn_id) s"

definition relay_sent :: "u64 \<Rightarrow> transfers \<Rightarrow> transfers" where
  "relay_sent token s = (if token = LEAVE_TOKEN then s\<lparr>tr_leave_sent := True\<rparr> else s)"

definition set_same_network_only :: "bool \<Rightarrow> transfers \<Rightarrow> transfers" where
  "set_same_network_only on s = s\<lparr>tr_same_network_only := on\<rparr>"

definition DROPPED :: string where "DROPPED = ''the connection dropped. Try again.''"

definition tr_connected :: "prims \<Rightarrow> surroundings \<Rightarrow> ustr \<Rightarrow> transfers \<Rightarrow> transfers" where
  "tr_connected P E conn_id s =
     (let s = s\<lparr>tr_link := map_option (\<lambda>l. l\<lparr>lk_conn_id := Some conn_id\<rparr>) (tr_link s)\<rparr>
      in announce_version P E True None (fail_all_live DROPPED s))"

definition tr_disconnected :: "transfers \<Rightarrow> transfers" where
  "tr_disconnected s = fail_all_live DROPPED s"

definition over_quota :: "transfers \<Rightarrow> transfers" where
  "over_quota s = fail_all_live ''the relay's daily transfer allowance is used up. Try again tomorrow.'' s"

section \<open>The tick\<close>

text \<open>Each of these says in the second place whether something was given up.\<close>

definition stall_out :: "instant \<Rightarrow> outgoing_file \<Rightarrow> bool \<Rightarrow> outgoing_file \<times> bool" where
  "stall_out now og gave_up =
     (let limit = (if chunk_count (og_offer og) \<le> ucast (og_next og) then FINISHING else STALL) in
      if is_moving (og_stage og) \<and> now - og_moved og > limit
      then (og\<lparr>og_stage := StageFailed ''the other device stopped answering.''\<rparr>, True) else (og, gave_up))"

definition stall_in :: "instant \<Rightarrow> incoming_file \<Rightarrow> bool \<times> fsys \<Rightarrow> incoming_file \<times> bool \<times> fsys" where
  "stall_in now ig acc =
     (let (gave_up, fs) = acc in
      if is_moving (ig_stage ig) \<and> now - ig_moved ig > STALL
      then let (ig, fs) = discard_part ig fs
        in (ig\<lparr>ig_stage := StageFailed ''the other device stopped sending.''\<rparr>, True, fs)
      else (ig, gave_up, fs))"

definition gone_out :: "registry \<Rightarrow> instant \<Rightarrow> outgoing_file \<Rightarrow> bool \<Rightarrow> outgoing_file \<times> bool" where
  "gone_out devices now og gave_up =
     (if og_stage og = Offered then
        let (away, gone) = went_away (conn_of (o_to_device_id (og_offer og)) devices) (og_offered_to og)
              (og_gone_since og) now;
            og = og\<lparr>og_gone_since := gone\<rparr>
        in if away then (og\<lparr>og_stage := StageFailed ''the other device went offline.''\<rparr>, True) else (og, gave_up)
      else (og, gave_up))"

definition gone_in :: "registry \<Rightarrow> instant \<Rightarrow> incoming_file \<Rightarrow> bool \<Rightarrow> incoming_file \<times> bool" where
  "gone_in devices now ig gave_up =
     (if ig_stage ig = Offered then
        let (away, gone) = went_away (conn_of (o_from_device_id (ig_offer ig)) devices) (o_reply_to (ig_offer ig))
              (ig_gone_since ig) now;
            ig = ig\<lparr>ig_gone_since := gone\<rparr>
        in if away then (ig\<lparr>ig_stage := StageFailed ''the other device went offline.''\<rparr>, True) else (ig, gave_up)
      else (ig, gave_up))"

definition pump_moving :: "instant \<Rightarrow> outgoing_file \<Rightarrow> relay_link \<times> file_pace \<times> fsys \<Rightarrow> outgoing_file \<times> relay_link \<times> file_pace \<times> fsys" where
  "pump_moving now og acc =
     (let (l, p, fs) = acc in
      if is_moving (og_stage og) then let (l, p, og, fs) = pump_out now l p og fs in (og, l, p, fs)
      else (og, l, p, fs))"

definition pay_ack :: "incoming_file \<Rightarrow> relay_link \<Rightarrow> incoming_file \<times> relay_link" where
  "pay_ack ig l =
     (case ig_owed_ack ig of
        None \<Rightarrow> (ig, l)
      | Some (received, st) \<Rightarrow>
          (let (ok, l) = send_ack ig received st l in (if ok then ig\<lparr>ig_owed_ack := None\<rparr> else ig, l)))"

definition tick_stalled :: "instant \<Rightarrow> transfers \<Rightarrow> transfers \<times> bool" where
  "tick_stalled now s =
     (let (sending, gave_up) = each_value (stall_out now) (tr_sending s) False;
          (receiving, gave_up, fs) = each_value (stall_in now) (tr_receiving s) (gave_up, tr_fs s)
      in (s\<lparr>tr_sending := sending, tr_receiving := receiving, tr_fs := fs\<rparr>, gave_up))"

definition is_connected :: "transfers \<Rightarrow> bool" where
  "is_connected s \<longleftrightarrow> (case tr_link s of None \<Rightarrow> False | Some l \<Rightarrow> lk_conn_id l \<noteq> None)"

definition tick_gone :: "instant \<Rightarrow> transfers \<times> bool \<Rightarrow> transfers \<times> bool" where
  "tick_gone now acc =
     (let (s, gave_up) = acc in
      if is_connected s then
        let (sending, gave_up) = each_value (gone_out (tr_devices s) now) (tr_sending s) gave_up;
            (receiving, gave_up) = each_value (gone_in (tr_devices s) now) (tr_receiving s) gave_up
        in (s\<lparr>tr_sending := sending, tr_receiving := receiving\<rparr>, gave_up)
      else (s, gave_up))"

definition tick_send :: "instant \<Rightarrow> transfers \<Rightarrow> transfers" where
  "tick_send now s =
     (case tr_link s of
        None \<Rightarrow> s
      | Some l \<Rightarrow>
          (let (sending, l, p, fs) = each_value (pump_moving now) (tr_sending s) (l, tr_pace s, tr_fs s);
               (receiving, l) = each_value pay_ack (tr_receiving s) l
           in s\<lparr>tr_link := Some l, tr_sending := sending, tr_receiving := receiving, tr_pace := p, tr_fs := fs\<rparr>))"

definition tr_tick :: "instant \<Rightarrow> transfers \<Rightarrow> transfers" where
  "tr_tick now s =
     (let (s, gave_up) = tick_gone now (tick_stalled now s)
      in tick_send now (if gave_up then bump s else s))"

section \<open>Lists\<close>

definition listed_out :: "outgoing_file \<Rightarrow> u64 \<times> listed" where
  "listed_out og =
     (o_ts_ms (og_offer og), \<lparr>li_id = o_offer_id (og_offer og), li_direction = DirSending, li_peer = og_peer og,
       li_device_id = o_to_device_id (og_offer og), li_name = o_name (og_offer og), li_size = o_size (og_offer og),
       li_chunks = chunk_count (og_offer og), li_stage = og_stage og\<rparr>)"

definition listed_in :: "incoming_file \<Rightarrow> u64 \<times> listed" where
  "listed_in ig =
     (o_ts_ms (ig_offer ig), \<lparr>li_id = o_offer_id (ig_offer ig), li_direction = DirReceiving, li_peer = ig_peer ig,
       li_device_id = o_from_device_id (ig_offer ig), li_name = safe_name (o_name (ig_offer ig)),
       li_size = o_size (ig_offer ig), li_chunks = chunk_count (ig_offer ig), li_stage = ig_stage ig\<rparr>)"

text \<open>The latest first; the sort is stable.\<close>

definition tr_list :: "transfers \<Rightarrow> listed list" where
  "tr_list s =
     map snd (sort_key (\<lambda>p. - int (unat (fst p)))
       (map (\<lambda>p. listed_out (snd p)) (tr_sending s) @ map (\<lambda>p. listed_in (snd p)) (tr_receiving s)))"

definition offers_waiting :: "transfers \<Rightarrow> u32" where
  "offers_waiting s =
     (let count = length (filter (\<lambda>p. ig_stage (snd p) = Offered) (tr_receiving s))
      in if count < 2 ^ 32 then of_nat count else - 1)"

definition clear_finished :: "transfers \<Rightarrow> transfers" where
  "clear_finished s =
     bump (s\<lparr>tr_sending := filter (\<lambda>p. \<not> finished (og_stage (snd p))) (tr_sending s),
             tr_receiving := filter (\<lambda>p. \<not> finished (ig_stage (snd p))) (tr_receiving s)\<rparr>)"

text \<open>A path is shown with the separator of the systems that use a slash.\<close>

definition describe :: "stage \<Rightarrow> u64 \<Rightarrow> ustr" where
  "describe st pieces =
     (case st of
        Offered \<Rightarrow> ulit ''waiting for an answer''
      | Moving n \<Rightarrow>
          ulit (decimal (if pieces = 0 then 0 else min (unat n * 100) (2 ^ 64 - 1) div unat pieces) @ ''%'')
      | StageDone (Some p) \<Rightarrow> ulit ''done, in '' @ fst p @ 47 # snd p
      | StageDone None \<Rightarrow> ulit ''done''
      | StageDeclined \<Rightarrow> ulit ''turned down''
      | StageCancelled \<Rightarrow> ulit ''called off''
      | StageFailed why \<Rightarrow> ulit ''stopped: '' @ ulit why)"

section \<open>Offering a file\<close>

definition set_preparing :: "bytes \<Rightarrow> path \<Rightarrow> bool \<Rightarrow> transfers \<Rightarrow> transfers" where
  "set_preparing to p on s =
     bump (s\<lparr>tr_preparing := (if on then tr_preparing s @ [(to, p)] else remove1 (to, p) (tr_preparing s))\<rparr>)"

definition is_preparing :: "bytes \<Rightarrow> path \<Rightarrow> transfers \<Rightarrow> bool" where
  "is_preparing to p s \<longleftrightarrow> (to, p) \<in> set (tr_preparing s)"

definition preparing :: "transfers \<Rightarrow> bytes list" where
  "preparing s = map fst (tr_preparing s)"

definition file_display_name :: "path \<Rightarrow> ustr" where
  "file_display_name p = (if snd p = [] then ulit ''file'' else snd p)"

text \<open>What an offer draws: its id, the transfer key, and what sealing that key to the device draws.
  \<open>od_addrs\<close> is where the listener for it can be reached.\<close>

record offer_draws =
  od_id :: rand
  od_key :: rand
  od_seal1 :: rand
  od_seal2 :: rand
  od_addrs :: "ustr list"

definition offer_direct :: "prims \<Rightarrow> offer_draws \<Rightarrow> bytes \<Rightarrow> transfers \<Rightarrow> direct option" where
  "offer_direct P d to s =
     (case pinned_by_id to s of
        None \<Rightarrow> None
      | Some k \<Rightarrow>
          (case od_key d of
             None \<Rightarrow> None
           | Some key \<Rightarrow>
               if od_addrs d = [] then None
               else (case direct_new P (od_seal1 d) (od_seal2 d) (od_addrs d) (kd_box_pub k) key of
                   Inl _ \<Rightarrow> None | Inr dr \<Rightarrow> Some dr)))"

definition make_offer ::
    "prims \<Rightarrow> surroundings \<Rightarrow> offer_draws \<Rightarrow> path \<Rightarrow> bytes \<Rightarrow> ustr \<Rightarrow> ustr \<Rightarrow> u64 \<times> bytes \<Rightarrow> transfers
      \<Rightarrow> (string + unit) \<times> transfers" where
  "make_offer P E d p to conn peer hashed s =
     (case tr_link s of
        None \<Rightarrow> (Inl ''Asli is not connected.'', s)
      | Some l \<Rightarrow>
          (case lk_conn_id l of
             None \<Rightarrow> (Inl ''Asli is not connected.'', s)
           | Some reply_to \<Rightarrow>
               (case random_bytes (od_id d) of
                  Inl e \<Rightarrow> (Inl (display e), s)
                | Inr offer_id \<Rightarrow>
                    let direct = offer_direct P d to s in
                    if direct = None \<and> tr_same_network_only s
                    then (Inl ''can't be reached on this network, and Same Network Only is on.'', s)
                    else
                      let f = \<lparr>o_offer_id = offer_id, o_from_device_id = lk_device_id l, o_to_device_id = to,
                            o_size = fst hashed, o_sha256 = snd hashed, o_chunk_bytes = CHUNK_BYTES,
                            o_ts_ms = su_now_ms E, o_reply_to = reply_to,
                            o_name = truncate_name (file_display_name p), o_direct = direct\<rparr>
                      in (case offer_encode P f (lk_keys P l) (lk_room l) of
                           Inl e \<Rightarrow> (Inl (display e), s)
                         | Inr body \<Rightarrow>
                             (case send_msg FileOffer body conn l of
                                (Inl e, l) \<Rightarrow> (Inl e, s\<lparr>tr_link := Some l\<rparr>)
                              | (Inr _, l) \<Rightarrow>
                                  (Inr (), bump (set_out offer_id
                                     \<lparr>og_offer = f, og_path = p, og_peer = peer, og_to = None, og_next = 0,
                                      og_acked = 0, og_stage = Offered, og_moved = su_now E, og_direct = False,
                                      og_offered_to = conn, og_gone_since = None\<rparr>
                                     (s\<lparr>tr_link := Some l\<rparr>))))))))"

text \<open>Sending starts with the checks, given what the file system says of the path, and returns the name and
  the connection for the thread that hashes the file and then offers it.\<close>

definition send_file :: "(bool \<times> u64) option \<Rightarrow> path \<Rightarrow> bytes \<Rightarrow> transfers \<Rightarrow> (string + ustr \<times> ustr) \<times> transfers" where
  "send_file metadata p to s =
     (case metadata of
        None \<Rightarrow> (Inl ''Couldn't read the file'', s)
      | Some (is_file, n) \<Rightarrow>
          if \<not> is_file then (Inl ''Only files can be sent, not folders.'', s)
          else if n > MAX_FILE_BYTES then (Inl ''That file is larger than 4 GB, the most Asli sends.'', s)
          else if \<not> is_connected s then (Inl ''Asli is not connected right now.'', s)
          else
            let peer = (case name_of to (tr_devices s) of Some n \<Rightarrow> n | None \<Rightarrow> ulit ''that device'') in
            (case conn_of to (tr_devices s) of
               None \<Rightarrow> (Inl ''is not connected right now.'', s)
             | Some conn \<Rightarrow> (Inr (peer, conn), set_preparing to p True s)))"

definition hashed_file ::
    "prims \<Rightarrow> surroundings \<Rightarrow> offer_draws \<Rightarrow> path \<Rightarrow> bytes \<Rightarrow> ustr \<Rightarrow> ustr \<Rightarrow> transfers \<Rightarrow> (string + unit) \<times> transfers" where
  "hashed_file P E d p to conn peer s =
     (let (hashed, fs) = hash_file P p (tr_fs s);
          s = s\<lparr>tr_fs := fs\<rparr>;
          (outcome, s) = (case hashed of
              Inl e \<Rightarrow> (Inl e, s)
            | Inr h \<Rightarrow> if \<not> is_preparing to p s then (Inr (), s) else make_offer P E d p to conn peer h s)
      in (outcome, set_preparing to p False s))"

section \<open>Answering an offer\<close>

definition incoming_at :: "bytes \<Rightarrow> transfers \<Rightarrow> incoming_file option" where
  "incoming_at i s = map_of (tr_receiving s) i"

definition outgoing_at :: "bytes \<Rightarrow> transfers \<Rightarrow> outgoing_file option" where
  "outgoing_at i s = map_of (tr_sending s) i"

definition open_direct :: "prims \<Rightarrow> relay_link \<Rightarrow> offer \<Rightarrow> (ustr list \<times> bytes) option" where
  "open_direct P l f =
     (case o_direct f of
        None \<Rightarrow> None
      | Some d \<Rightarrow> (case direct_open_key P d (lk_keys P l) of Inl _ \<Rightarrow> None | Inr key \<Rightarrow> Some (dr_addrs d, key)))"

text \<open>Returns the addresses and the key for the thread that fetches the file directly, if it is to.\<close>

definition accept_as ::
    "prims \<Rightarrow> surroundings \<Rightarrow> bytes \<Rightarrow> path \<Rightarrow> bool \<Rightarrow> transfers
      \<Rightarrow> (string + (ustr list \<times> bytes) option) \<times> transfers" where
  "accept_as P E i final_path replace s =
     (case tr_link s of
        None \<Rightarrow> (Inl ''Asli is not connected.'', s)
      | Some l \<Rightarrow>
          (case incoming_at i s of
             None \<Rightarrow> (Inl ''That file is no longer waiting.'', s)
           | Some ig \<Rightarrow>
               if ig_stage ig \<noteq> Offered then (Inl ''That file is no longer waiting.'', s)
               else
                 let part = part_path_for final_path;
                     (file, fs) = fs_create_new part (tr_fs s) in
                 (case file of
                    None \<Rightarrow> (Inl ''Couldn't write to '', s\<lparr>tr_fs := fs\<rparr>)
                  | Some n \<Rightarrow>
                      let direct = open_direct P l (ig_offer ig) in
                      if direct = None \<and> tr_same_network_only s
                      then (Inl ''It can only come through the relay, and Same Network Only is on.'',
                            s\<lparr>tr_fs := fs_remove_file part fs\<rparr>)
                      else
                        let (r, l) = (if direct = None then answer_offer P i True (o_reply_to (ig_offer ig)) l
                              else (Inr (), l)) in
                        (case r of
                           Inl e \<Rightarrow> (Inl e, s\<lparr>tr_link := Some l, tr_fs := fs_remove_file part fs\<rparr>)
                         | Inr _ \<Rightarrow>
                             (Inr direct, bump (set_in i (ig\<lparr>ig_part := Some (n, part, final_path),
                                ig_replace := replace, ig_stage := Moving 0, ig_moved := su_now E\<rparr>)
                                (s\<lparr>tr_link := Some l, tr_fs := fs\<rparr>)))))))"

definition accept_file ::
    "prims \<Rightarrow> surroundings \<Rightarrow> bytes \<Rightarrow> ustr \<Rightarrow> transfers \<Rightarrow> (string + (ustr list \<times> bytes) option) \<times> transfers" where
  "accept_file P E i folder s =
     (case incoming_at i s of
        None \<Rightarrow> (Inl ''That file is no longer waiting.'', s)
      | Some ig \<Rightarrow>
          accept_as P E i (unique_path (fs_there (tr_fs s)) folder (safe_name (o_name (ig_offer ig)))) False s)"

definition answer_through_relay :: "prims \<Rightarrow> bytes \<Rightarrow> transfers \<Rightarrow> transfers" where
  "answer_through_relay P i s =
     (case incoming_at i s of
        None \<Rightarrow> s
      | Some ig \<Rightarrow>
          if ig_stage ig \<noteq> Moving 0 \<or> ig_direct ig then s
          else if tr_same_network_only s then
            let why = ''it couldn't be reached on this network, and Same Network Only is on'' in
            (case tr_link s of
               Some l \<Rightarrow>
                 let (l, ig, fs) = fail_incoming why l ig (tr_fs s)
                 in bump (set_in i ig (s\<lparr>tr_link := Some l, tr_fs := fs\<rparr>))
             | None \<Rightarrow>
                 let (ig, fs) = give_up_incoming why ig (tr_fs s) in bump (set_in i ig (s\<lparr>tr_fs := fs\<rparr>)))
          else
            let (sent, link) = (case tr_link s of
                  None \<Rightarrow> (Inl ''Asli is not connected.'', None)
                | Some l \<Rightarrow> let (r, l) = answer_offer P i True (o_reply_to (ig_offer ig)) l in (r, Some l));
                s = s\<lparr>tr_link := link\<rparr>
            in (case sent of
                  Inr _ \<Rightarrow> bump s
                | Inl err \<Rightarrow>
                    let (ig, fs) = discard_part ig (tr_fs s)
                    in bump (set_in i (ig\<lparr>ig_stage := StageFailed err\<rparr>) (s\<lparr>tr_fs := fs\<rparr>))))"

definition decline_file :: "prims \<Rightarrow> bytes \<Rightarrow> transfers \<Rightarrow> transfers" where
  "decline_file P i s =
     (case incoming_at i s of
        None \<Rightarrow> s
      | Some ig \<Rightarrow>
          if ig_stage ig \<noteq> Offered then s
          else bump (set_in i (ig\<lparr>ig_stage := StageDeclined\<rparr>)
            (s\<lparr>tr_link := map_option (\<lambda>l. snd (answer_offer P i False (o_reply_to (ig_offer ig)) l)) (tr_link s)\<rparr>)))"

section \<open>Directly, on the same network\<close>

definition direct_waiting :: "bytes \<Rightarrow> transfers \<Rightarrow> bool" where
  "direct_waiting i s \<longleftrightarrow> (case outgoing_at i s of None \<Rightarrow> False | Some og \<Rightarrow> og_stage og = Offered)"

definition direct_begin :: "instant \<Rightarrow> bytes \<Rightarrow> transfers \<Rightarrow> (path \<times> offer) option \<times> transfers" where
  "direct_begin now i s =
     (case outgoing_at i s of
        None \<Rightarrow> (None, s)
      | Some og \<Rightarrow>
          if og_stage og \<noteq> Offered then (None, s)
          else (Some (og_path og, og_offer og),
            bump (set_out i (og\<lparr>og_stage := Moving 0, og_moved := now, og_direct := True\<rparr>) s)))"

definition direct_progress :: "instant \<Rightarrow> bytes \<Rightarrow> u32 \<Rightarrow> transfers \<Rightarrow> bool \<times> transfers" where
  "direct_progress now i n s =
     (case outgoing_at i s of
        None \<Rightarrow> (False, s)
      | Some og \<Rightarrow>
          if finished (og_stage og) \<or> \<not> og_direct og then (False, s)
          else (True, bump (set_out i
            (og\<lparr>og_acked := n, og_next := n, og_stage := Moving n, og_moved := now\<rparr>) s)))"

definition end_direct :: "bytes \<Rightarrow> stage \<Rightarrow> transfers \<Rightarrow> transfers" where
  "end_direct i st s =
     (case outgoing_at i s of
        None \<Rightarrow> bump s
      | Some og \<Rightarrow>
          if \<not> finished (og_stage og) \<and> og_direct og then bump (set_out i (og\<lparr>og_stage := st\<rparr>) s) else bump s)"

definition DAMAGED :: string where "DAMAGED = ''it arrived damaged. Try again.''"

definition direct_finished :: "bytes \<Rightarrow> ack_state \<Rightarrow> transfers \<Rightarrow> transfers" where
  "direct_finished i ended s =
     end_direct i (if ended = ack_state.Done then StageDone None else StageFailed DAMAGED) s"

definition direct_failed :: "bytes \<Rightarrow> string \<Rightarrow> transfers \<Rightarrow> transfers" where
  "direct_failed i why s = end_direct i (StageFailed why) s"

definition direct_receiving :: "instant \<Rightarrow> bytes \<Rightarrow> transfers \<Rightarrow> transfers" where
  "direct_receiving now i s =
     (case incoming_at i s of
        None \<Rightarrow> s
      | Some ig \<Rightarrow> set_in i (ig\<lparr>ig_direct := True, ig_moved := now\<rparr>) s)"

definition direct_piece :: "prims \<Rightarrow> instant \<Rightarrow> bytes \<Rightarrow> bytes \<Rightarrow> transfers \<Rightarrow> (unit + ack_state option) \<times> transfers" where
  "direct_piece P now i d s =
     (case incoming_at i s of
        None \<Rightarrow> (Inl (), s)
      | Some ig \<Rightarrow>
          if \<not> is_moving (ig_stage ig) then (Inl (), s)
          else
            (case take_piece P now d ig (tr_fs s) of
               (Inr ended, ig, fs) \<Rightarrow> (Inr ended, bump (set_in i ig (s\<lparr>tr_fs := fs\<rparr>)))
             | (Inl why, ig, fs) \<Rightarrow>
                 let (ig, fs) = give_up_incoming why ig fs
                 in (Inl (), bump (set_in i ig (s\<lparr>tr_fs := fs\<rparr>)))))"

definition direct_receive_failed :: "bytes \<Rightarrow> string \<Rightarrow> transfers \<Rightarrow> transfers" where
  "direct_receive_failed i why s =
     (case incoming_at i s of
        None \<Rightarrow> bump s
      | Some ig \<Rightarrow>
          if finished (ig_stage ig) then bump s
          else let (ig, fs) = give_up_incoming why ig (tr_fs s) in bump (set_in i ig (s\<lparr>tr_fs := fs\<rparr>)))"

section \<open>Calling off\<close>

definition cancel_target :: "bytes \<Rightarrow> transfers \<Rightarrow> ustr option" where
  "cancel_target i s =
     (let theirs = (case outgoing_at i s of
            None \<Rightarrow> None
          | Some og \<Rightarrow>
              if finished (og_stage og) then None
              else (case og_to og of Some c \<Rightarrow> Some c | None \<Rightarrow> conn_of (o_to_device_id (og_offer og)) (tr_devices s)))
      in case theirs of
          Some c \<Rightarrow> Some c
        | None \<Rightarrow>
            (case incoming_at i s of
               None \<Rightarrow> None
             | Some ig \<Rightarrow> if finished (ig_stage ig) then None else Some (o_reply_to (ig_offer ig))))"

text \<open>What both a cancellation made here and one received do to the two maps.\<close>

definition mark_cancelled :: "bytes \<Rightarrow> transfers \<Rightarrow> transfers" where
  "mark_cancelled i s =
     (let s = (case outgoing_at i s of
            None \<Rightarrow> s
          | Some og \<Rightarrow> if finished (og_stage og) then s else set_out i (og\<lparr>og_stage := StageCancelled\<rparr>) s)
      in case incoming_at i s of
          None \<Rightarrow> s
        | Some ig \<Rightarrow>
            if finished (ig_stage ig) then s
            else let (ig, fs) = discard_part ig (tr_fs s)
              in set_in i (ig\<lparr>ig_stage := StageCancelled\<rparr>) (s\<lparr>tr_fs := fs\<rparr>))"

definition cancel_transfer :: "bytes \<Rightarrow> transfers \<Rightarrow> transfers" where
  "cancel_transfer i s =
     (let s = (case (tr_link s, cancel_target i s) of
            (Some l, Some to) \<Rightarrow> s\<lparr>tr_link := Some (send_cancel i to l)\<rparr> | _ \<Rightarrow> s)
      in bump (mark_cancelled i s))"

definition cancel_to :: "bytes \<Rightarrow> transfers \<Rightarrow> transfers" where
  "cancel_to device s =
     (let s = s\<lparr>tr_preparing := filter (\<lambda>p. fst p \<noteq> device) (tr_preparing s)\<rparr>;
          ids = map (\<lambda>p. o_offer_id (og_offer (snd p)))
            (filter (\<lambda>p. o_to_device_id (og_offer (snd p)) = device \<and> \<not> finished (og_stage (snd p))) (tr_sending s))
      in fold cancel_transfer ids s)"

section \<open>Messages from another device\<close>

type_synonym asked_person = "(bytes \<times> ustr \<times> ustr \<times> u64) option"

definition on_offer :: "prims \<Rightarrow> surroundings \<Rightarrow> bytes \<Rightarrow> transfers \<Rightarrow> asked_person \<times> transfers" where
  "on_offer P E body s =
     (case tr_link s of
        None \<Rightarrow> (None, s)
      | Some l \<Rightarrow>
          (case offer_claimed_sender body of
             Inl _ \<Rightarrow> (None, s)
           | Inr sender \<Rightarrow>
               (case pinned_by_id sender s of
                  None \<Rightarrow> (None, s)
                | Some k \<Rightarrow>
                    (case offer_decode P body (lk_room l) (kd_sign_pub k) of
                       Inl _ \<Rightarrow> (None, s)
                     | Inr f \<Rightarrow>
                         let recent = fresh (su_now_ms E) (o_ts_ms f);
                             moved_on = (case conn_of sender (tr_devices s) of
                               None \<Rightarrow> False | Some c \<Rightarrow> c \<noteq> o_reply_to f)
                         in if \<not> recent \<or> moved_on then (None, s)
                            else if o_to_device_id f \<noteq> lk_device_id l \<or> o_size f > MAX_FILE_BYTES
                                 \<or> incoming_at (o_offer_id f) s \<noteq> None then (None, s)
                            else
                              (Some (sender, kd_name k, safe_name (o_name f), o_size f),
                               set_in (o_offer_id f)
                                 \<lparr>ig_offer = f, ig_peer = kd_name k, ig_part = None, ig_hasher = [],
                                  ig_received = 0, ig_written = 0, ig_stage = Offered, ig_moved = su_now E,
                                  ig_direct = False, ig_replace = False, ig_gone_since = None,
                                  ig_owed_ack = None\<rparr> s)))))"

text \<open>The pump of a handler, which leaves its results in the state.\<close>

definition pump_at :: "instant \<Rightarrow> bytes \<Rightarrow> relay_link \<Rightarrow> outgoing_file \<Rightarrow> transfers \<Rightarrow> transfers" where
  "pump_at now i l og s =
     (let (l, p, og, fs) = pump_out now l (tr_pace s) og (tr_fs s)
      in set_out i og (s\<lparr>tr_link := Some l, tr_pace := p, tr_fs := fs\<rparr>))"

definition on_answer :: "prims \<Rightarrow> surroundings \<Rightarrow> bytes \<Rightarrow> transfers \<Rightarrow> transfers" where
  "on_answer P E body s =
     (case tr_link s of
        None \<Rightarrow> s
      | Some l \<Rightarrow>
          (case answer_claimed_sender body of
             Inl _ \<Rightarrow> s
           | Inr sender \<Rightarrow>
               (case pinned_by_id sender s of
                  None \<Rightarrow> s
                | Some k \<Rightarrow>
                    (case answer_decode P body (lk_room l) (kd_sign_pub k) of
                       Inl _ \<Rightarrow> s
                     | Inr a \<Rightarrow>
                         (case outgoing_at (a_offer_id a) s of
                            None \<Rightarrow> s
                          | Some og \<Rightarrow>
                              let taking_over = (og_direct og \<and> \<not> finished (og_stage og)) in
                              if o_to_device_id (og_offer og) \<noteq> a_from_device_id a
                                 \<or> \<not> (og_stage og = Offered \<or> taking_over) then s
                              else
                                let og = (if taking_over then og\<lparr>og_direct := False, og_next := 0, og_acked := 0\<rparr>
                                      else og) in
                                if \<not> a_accepted a then set_out (a_offer_id a) (og\<lparr>og_stage := StageDeclined\<rparr>) s
                                else if tr_same_network_only s then
                                  set_out (a_offer_id a) (og\<lparr>og_stage := StageFailed
                                      ''it couldn't be reached on this network, and Same Network Only is on.''\<rparr>)
                                    (s\<lparr>tr_link := Some (send_cancel (a_offer_id a) (a_reply_to a) l)\<rparr>)
                                else pump_at (su_now E) (a_offer_id a) l
                                  (og\<lparr>og_to := Some (a_reply_to a), og_stage := Moving 0, og_moved := su_now E\<rparr>) s)))))"

definition on_ack :: "surroundings \<Rightarrow> bytes \<Rightarrow> transfers \<Rightarrow> transfers" where
  "on_ack E body s =
     (case tr_link s of
        None \<Rightarrow> s
      | Some l \<Rightarrow>
          (case ack_decode body of
             Inl _ \<Rightarrow> s
           | Inr k \<Rightarrow>
               (case outgoing_at (k_offer_id k) s of
                  None \<Rightarrow> s
                | Some og \<Rightarrow>
                    if finished (og_stage og) then s
                    else
                      let og = og\<lparr>og_acked := max (og_acked og) (k_received k), og_moved := su_now E\<rparr> in
                      (case k_state k of
                         Receiving \<Rightarrow> pump_at (su_now E) (k_offer_id k) l (og\<lparr>og_stage := Moving (og_acked og)\<rparr>) s
                       | ack_state.Done \<Rightarrow> set_out (k_offer_id k) (og\<lparr>og_stage := StageDone None\<rparr>) s
                       | Corrupt \<Rightarrow> set_out (k_offer_id k) (og\<lparr>og_stage := StageFailed DAMAGED\<rparr>) s))))"

definition on_file_chunk :: "prims \<Rightarrow> surroundings \<Rightarrow> bytes \<Rightarrow> transfers \<Rightarrow> transfers" where
  "on_file_chunk P E body s =
     (case tr_link s of
        None \<Rightarrow> s
      | Some l \<Rightarrow>
          (case file_chunk_decode body of
             Inl _ \<Rightarrow> s
           | Inr c \<Rightarrow>
               (case incoming_at (fc_offer_id c) s of
                  None \<Rightarrow> s
                | Some ig \<Rightarrow>
                    if \<not> is_moving (ig_stage ig) \<or> ig_direct ig \<or> fc_index c \<noteq> ig_received ig then s
                    else
                      (case take_piece P (su_now E) (fc_data c) ig (tr_fs s) of
                         (Inl why, ig, fs) \<Rightarrow>
                           let (l, ig, fs) = fail_incoming why l ig fs
                           in set_in (fc_offer_id c) ig (s\<lparr>tr_link := Some l, tr_fs := fs\<rparr>)
                       | (Inr ended, ig, fs) \<Rightarrow>
                           let st = (case ended of None \<Rightarrow> Receiving | Some e \<Rightarrow> e);
                               (ok, l) = send_ack ig (ig_received ig) st l;
                               ig = ig\<lparr>ig_owed_ack := (if ok then None else Some (ig_received ig, st))\<rparr>
                           in set_in (fc_offer_id c) ig (s\<lparr>tr_link := Some l, tr_fs := fs\<rparr>)))))"

definition on_cancel :: "bytes \<Rightarrow> transfers \<Rightarrow> transfers" where
  "on_cancel body s =
     (case cancel_decode body of Inl _ \<Rightarrow> s | Inr c \<Rightarrow> mark_cancelled (x_offer_id c) s)"

definition on_file_message ::
    "prims \<Rightarrow> surroundings \<Rightarrow> kind \<Rightarrow> bytes \<Rightarrow> transfers \<Rightarrow> asked_person \<times> transfers" where
  "on_file_message P E k body s =
     (let (ask, s) = (case k of
            FileOffer \<Rightarrow> on_offer P E body s
          | FileAnswer \<Rightarrow> (None, on_answer P E body s)
          | FileChunk \<Rightarrow> (None, on_file_chunk P E body s)
          | FileAck \<Rightarrow> (None, on_ack E body s)
          | FileCancel \<Rightarrow> (None, on_cancel body s)
          | About \<Rightarrow> (None, on_about P E body s)
          | Leave \<Rightarrow> (None, on_leave P E body s)
          | _ \<Rightarrow> (None, s))
      in (ask, bump s))"

end
