(* ===== verification/Transfers_Props.thy ===== *)
theory Transfers_Props
  imports Transfers
begin

text \<open>
  What the transfers promise: a transfer that is over stays over, a temporary file exists exactly while pieces
  move, a file is kept only if what was written is what was offered, offers and answers are believed only when
  signed by the device they are from, and the sender stays inside its window and its pace.
\<close>

section \<open>Every operation\<close>

datatype t_event =
    TAttach nat bytes bytes bytes registry
  | TLeaving surroundings
  | TAskVersion surroundings ustr
  | TRelaySent u64
  | TSameNetwork bool
  | TConnected surroundings ustr
  | TTick instant
  | TDisconnected
  | TOverQuota
  | TClear
  | TSend "(bool \<times> u64) option" path bytes
  | THashed surroundings offer_draws path bytes ustr ustr
  | TAccept surroundings bytes ustr
  | TAcceptAs surroundings bytes path bool
  | TThroughRelay bytes
  | TBegin instant bytes
  | TProgress instant bytes u32
  | TDirectEnded bytes ack_state
  | TDirectFailed bytes string
  | TDirectReceiving instant bytes
  | TPiece instant bytes bytes
  | TReceiveFailed bytes string
  | TDecline bytes
  | TCancel bytes
  | TCancelTo bytes
  | TMessage surroundings kind bytes
  | TQueue "local_event list" nat
  | TDevices registry
  | TFaults "bool list"
  | TElsewhere path "bytes option"

text \<open>The last four are what happens around the transfers: the connection empties its queue, the device list
  changes, file operations to come fail, and another program puts a file at a path or takes one away.\<close>

definition elsewhere :: "path \<Rightarrow> bytes option \<Rightarrow> fsys \<Rightarrow> fsys" where
  "elsewhere p c fs =
     (case c of
        None \<Rightarrow> fs\<lparr>fs_dir := (fs_dir fs)(p := None)\<rparr>
      | Some d \<Rightarrow> fs\<lparr>fs_dir := (fs_dir fs)(p \<mapsto> fs_next fs), fs_data := (fs_data fs)(fs_next fs := d),
            fs_next := fs_next fs + 1\<rparr>)"

fun t_step :: "prims \<Rightarrow> transfers \<Rightarrow> t_event \<Rightarrow> transfers" where
  "t_step P s (TAttach n k d r devices) = attach n k d r devices s"
| "t_step P s (TLeaving E) = snd (say_leaving P E s)"
| "t_step P s (TAskVersion E c) = ask_version P E c s"
| "t_step P s (TRelaySent token) = relay_sent token s"
| "t_step P s (TSameNetwork on) = set_same_network_only on s"
| "t_step P s (TConnected E c) = tr_connected P E c s"
| "t_step P s (TTick now) = tr_tick now s"
| "t_step P s TDisconnected = tr_disconnected s"
| "t_step P s TOverQuota = over_quota s"
| "t_step P s TClear = clear_finished s"
| "t_step P s (TSend metadata p to) = snd (send_file metadata p to s)"
| "t_step P s (THashed E d p to conn peer) = snd (hashed_file P E d p to conn peer s)"
| "t_step P s (TAccept E i folder) = snd (accept_file P E i folder s)"
| "t_step P s (TAcceptAs E i p replace) = snd (accept_as P E i p replace s)"
| "t_step P s (TThroughRelay i) = answer_through_relay P i s"
| "t_step P s (TBegin now i) = snd (direct_begin now i s)"
| "t_step P s (TProgress now i n) = snd (direct_progress now i n s)"
| "t_step P s (TDirectEnded i ended) = direct_finished i ended s"
| "t_step P s (TDirectFailed i why) = direct_failed i why s"
| "t_step P s (TDirectReceiving now i) = direct_receiving now i s"
| "t_step P s (TPiece now i d) = snd (direct_piece P now i d s)"
| "t_step P s (TReceiveFailed i why) = direct_receive_failed i why s"
| "t_step P s (TDecline i) = decline_file P i s"
| "t_step P s (TCancel i) = cancel_transfer i s"
| "t_step P s (TCancelTo d) = cancel_to d s"
| "t_step P s (TMessage E k body) = snd (on_file_message P E k body s)"
| "t_step P s (TQueue q n) = s\<lparr>tr_link := map_option (\<lambda>l. l\<lparr>lk_queue := q, lk_capacity := n\<rparr>) (tr_link s)\<rparr>"
| "t_step P s (TDevices r) = s\<lparr>tr_devices := r\<rparr>"
| "t_step P s (TFaults bs) = s\<lparr>tr_fs := (tr_fs s)\<lparr>fs_faults := bs\<rparr>\<rparr>"
| "t_step P s (TElsewhere p c) = s\<lparr>tr_fs := elsewhere p c (tr_fs s)\<rparr>"

definition transfers_default :: "registry \<Rightarrow> fsys \<Rightarrow> transfers" where
  "transfers_default r fs =
     \<lparr>tr_link = None, tr_devices = r, tr_sending = [], tr_receiving = [],
      tr_pace = \<lparr>pa_tokens = 0, pa_at = None\<rparr>, tr_same_network_only = False, tr_preparing = [],
      tr_leave_sent = False, tr_revision = 0, tr_fs = fs\<rparr>"

section \<open>Files\<close>

lemma fs_faultD: "fs_fault fs = (b, fs') \<Longrightarrow>
    fs_dir fs' = fs_dir fs \<and> fs_data fs' = fs_data fs \<and> fs_next fs' = fs_next fs"
  by (auto simp: fs_fault_def split: list.splits)

text \<open>Files that are not written: what is read stays, and no number is given out.\<close>

definition same_files :: "fsys \<Rightarrow> fsys \<Rightarrow> bool" where
  "same_files fs fs' \<longleftrightarrow> fs_data fs' = fs_data fs \<and> fs_next fs' = fs_next fs"

lemma same_files_refl [simp]: "same_files fs fs"
  by (simp add: same_files_def)

lemma same_files_trans: "same_files a b \<Longrightarrow> same_files b c \<Longrightarrow> same_files a c"
  by (simp add: same_files_def)

lemma fs_remove_same: "same_files fs (fs_remove_file p fs)"
  by (auto simp: fs_remove_file_def same_files_def split: prod.split dest: fs_faultD)

lemma fs_sync_same: "fs_sync_all fs = (b, fs') \<Longrightarrow> same_files fs fs' \<and> fs_dir fs' = fs_dir fs"
  by (auto simp: fs_sync_all_def same_files_def split: prod.splits dest: fs_faultD)

lemma fs_rename_same: "fs_rename p q fs = (b, fs') \<Longrightarrow> same_files fs fs'
    \<and> (b \<longrightarrow> (\<forall>n. fs_dir fs p = Some n \<longrightarrow> fs_dir fs' q = Some n))"
  by (auto simp: fs_rename_def same_files_def split: prod.splits option.splits if_splits dest: fs_faultD)

lemma fs_read_same: "fs_read p fs = (r, fs') \<Longrightarrow> same_files fs fs' \<and> fs_dir fs' = fs_dir fs"
  by (auto simp: fs_read_def same_files_def split: prod.splits option.splits if_splits dest: fs_faultD)

lemma read_chunk_same: "read_chunk p n c fs = (r, fs') \<Longrightarrow> same_files fs fs' \<and> fs_dir fs' = fs_dir fs"
  by (auto simp: read_chunk_def split: prod.splits dest: fs_read_same)

lemma hash_file_same: "hash_file P p fs = (r, fs') \<Longrightarrow> same_files fs fs' \<and> fs_dir fs' = fs_dir fs"
  by (auto simp: hash_file_def split: prod.splits option.splits if_splits dest: fs_read_same)

lemma fs_write_Some: "fs_write_all n bs fs = (True, fs') \<Longrightarrow>
    fs_data fs' = (fs_data fs)(n := fs_data fs n @ bs) \<and> fs_dir fs' = fs_dir fs \<and> fs_next fs' = fs_next fs"
  by (auto simp: fs_write_all_def split: prod.splits if_splits dest: fs_faultD)

lemma fs_write_None: "fs_write_all n bs fs = (False, fs') \<Longrightarrow>
    fs_data fs' = fs_data fs \<and> fs_dir fs' = fs_dir fs \<and> fs_next fs' = fs_next fs"
  by (auto simp: fs_write_all_def split: prod.splits if_splits dest: fs_faultD)

lemma fs_create_Some: "fs_create_new p fs = (Some n, fs') \<Longrightarrow>
    n = fs_next fs \<and> fs_data fs' = (fs_data fs)(n := []) \<and> fs_next fs' = n + 1 \<and> fs_dir fs p = None
    \<and> fs_dir fs' = (fs_dir fs)(p \<mapsto> n)"
  by (auto simp: fs_create_new_def Let_def fs_there_def split: prod.splits if_splits dest: fs_faultD)

lemma fs_create_None: "fs_create_new p fs = (None, fs') \<Longrightarrow>
    fs_data fs' = fs_data fs \<and> fs_next fs' = fs_next fs \<and> fs_dir fs' = fs_dir fs"
  by (auto simp: fs_create_new_def Let_def split: prod.splits if_splits dest: fs_faultD)

section \<open>One received file\<close>

definition file_no :: "incoming_file \<Rightarrow> nat option" where
  "file_no ig = map_option fst (ig_part ig)"

text \<open>A temporary file is held exactly while pieces move; it holds what was hashed, and as much as was counted;
  before that nothing was.\<close>

definition recv_ok :: "incoming_file \<Rightarrow> fsys \<Rightarrow> bool" where
  "recv_ok ig fs \<longleftrightarrow>
     (is_moving (ig_stage ig) \<longleftrightarrow> ig_part ig \<noteq> None)
     \<and> (\<forall>n part fin. ig_part ig = Some (n, part, fin) \<longrightarrow>
          n < fs_next fs \<and> fs_data fs n = ig_hasher ig \<and> part = part_path_for fin)
     \<and> (\<not> finished (ig_stage ig) \<longrightarrow> ig_written ig = of_nat (length (ig_hasher ig)))
     \<and> (ig_stage ig = Offered \<longrightarrow> ig_hasher ig = [])"

text \<open>How an operation may change one entry, and the files, without keeping a file.\<close>

definition quiet_entry :: "incoming_file \<Rightarrow> incoming_file \<Rightarrow> bool" where
  "quiet_entry ig ig' \<longleftrightarrow>
     ig_offer ig' = ig_offer ig
     \<and> (finished (ig_stage ig) \<longrightarrow> ig_stage ig' = ig_stage ig)
     \<and> (ig_part ig' = ig_part ig \<or> ig_part ig' = None)
     \<and> (\<forall>p. ig_stage ig' = StageDone p \<longrightarrow> finished (ig_stage ig))
     \<and> (\<forall>fs. recv_ok ig fs \<longrightarrow> recv_ok ig' fs)"

lemma stage_simps [simp]:
  "\<not> finished Offered" "\<not> finished (Moving n)" "finished (StageDone p)" "finished StageDeclined"
  "finished StageCancelled" "finished (StageFailed w)"
  "\<not> is_moving Offered" "is_moving (Moving n)" "\<not> is_moving (StageDone p)" "\<not> is_moving StageDeclined"
  "\<not> is_moving StageCancelled" "\<not> is_moving (StageFailed w)"
  by (simp_all add: finished_def is_moving_def)

lemma moving_not_finished: "is_moving st \<Longrightarrow> \<not> finished st"
  by (cases st) simp_all

lemma quiet_entry_refl [simp]: "quiet_entry ig ig"
  by (simp add: quiet_entry_def)

lemma quiet_entry_trans: "quiet_entry a b \<Longrightarrow> quiet_entry b c \<Longrightarrow> quiet_entry a c"
  unfolding quiet_entry_def by metis

lemma discard_part_fields [simp]:
  "ig_part (fst (discard_part ig fs)) = None" "ig_offer (fst (discard_part ig fs)) = ig_offer ig"
  "ig_stage (fst (discard_part ig fs)) = ig_stage ig" "ig_hasher (fst (discard_part ig fs)) = ig_hasher ig"
  "ig_written (fst (discard_part ig fs)) = ig_written ig" "same_files fs (snd (discard_part ig fs))"
  by (auto simp: discard_part_def fs_remove_same split: option.split)

text \<open>What every way of ending a transfer without keeping the file comes to.\<close>

lemma ended_quiet:
  assumes "discard_part ig fs = (ig', fs')" "\<not> finished (ig_stage ig)" "finished st" "\<forall>p. st \<noteq> StageDone p"
  shows "quiet_entry ig (ig'\<lparr>ig_stage := st\<rparr>) \<and> same_files fs fs'"
proof -
  have "ig_part ig' = None" "ig_offer ig' = ig_offer ig" "same_files fs fs'"
    using discard_part_fields [where ig = ig and fs = fs] assms(1) by auto
  then show ?thesis using assms(2-4) by (cases st) (auto simp: quiet_entry_def recv_ok_def)
qed

lemma declined_quiet:
  assumes "ig_stage ig = Offered" "finished st" "\<forall>p. st \<noteq> StageDone p"
  shows "quiet_entry ig (ig\<lparr>ig_stage := st\<rparr>)"
  using assms by (cases st) (auto simp: quiet_entry_def recv_ok_def)

lemma same_stage_quiet:
  assumes "ig_offer ig' = ig_offer ig" "ig_stage ig' = ig_stage ig" "ig_part ig' = ig_part ig"
    "ig_hasher ig' = ig_hasher ig" "ig_written ig' = ig_written ig"
  shows "quiet_entry ig ig'"
  using assms by (auto simp: quiet_entry_def recv_ok_def)

section \<open>Loops over a map\<close>

lemma each_value_Cons:
  "each_value f ((k, v) # m) e =
     ((k, fst (f v e)) # fst (each_value f m (snd (f v e))), snd (each_value f m (snd (f v e))))"
  by (simp add: Let_def split: prod.split)

lemma each_value_keys: "map fst (fst (each_value f m e)) = map fst m"
  by (induction m arbitrary: e) (auto simp: each_value_Cons simp del: each_value.simps(2))

lemma each_value_map_of:
  "map_of (fst (each_value f m e)) i = Some v' \<Longrightarrow> \<exists>v e1. map_of m i = Some v \<and> v' = fst (f v e1)"
proof (induction m arbitrary: e)
  case (Cons p m)
  obtain k v where p: "p = (k, v)" by (cases p)
  show ?case
  proof (cases "k = i")
    case True
    then show ?thesis using Cons.prems unfolding p each_value_Cons by auto
  next
    case False
    then show ?thesis using Cons.prems Cons.IH [of "snd (f v e)"] unfolding p each_value_Cons by auto
  qed
qed simp

text \<open>What is carried along keeps the files when each step does; \<open>h\<close> is where the files are in it.\<close>

lemma each_value_files:
  assumes "\<And>v e. same_files (h e) (h (snd (f v e)))"
  shows "same_files (h e) (h (snd (each_value f m e)))"
proof (induction m arbitrary: e)
  case (Cons p m)
  obtain k v where p: "p = (k, v)" by (cases p)
  show ?case
    using same_files_trans [OF assms [of e v] Cons.IH [of "snd (f v e)"]] unfolding p each_value_Cons by simp
qed simp

section \<open>What an operation leaves settled\<close>

definition window_ok :: "outgoing_file \<Rightarrow> bool" where
  "window_ok og \<longleftrightarrow> og_next og \<le> sat_add (og_acked og) WINDOW"

definition calm_out :: "outgoing_file \<Rightarrow> outgoing_file \<Rightarrow> bool" where
  "calm_out og og' \<longleftrightarrow>
     (finished (og_stage og) \<longrightarrow> og_stage og' = og_stage og) \<and> (window_ok og \<longrightarrow> window_ok og')"

lemma calm_out_refl [simp]: "calm_out og og"
  by (simp add: calm_out_def)

lemma calm_out_trans: "calm_out a b \<Longrightarrow> calm_out b c \<Longrightarrow> calm_out a c"
  by (auto simp: calm_out_def)

text \<open>Each entry of a map comes from one that was there, by a relation, and no key is new.\<close>

definition from_entries :: "('v \<Rightarrow> 'v \<Rightarrow> bool) \<Rightarrow> ('k, 'v) hmap \<Rightarrow> ('k, 'v) hmap \<Rightarrow> bool" where
  "from_entries R m m' \<longleftrightarrow>
     (hmap_ok m \<longrightarrow> hmap_ok m' \<and> (\<forall>i v'. map_of m' i = Some v' \<longrightarrow> (\<exists>v. map_of m i = Some v \<and> R v v')))"

lemma from_entries_refl: "(\<And>v. R v v) \<Longrightarrow> from_entries R m m"
  by (auto simp: from_entries_def)

lemma from_entries_trans:
  "(\<And>a b c. R a b \<Longrightarrow> R b c \<Longrightarrow> R a c) \<Longrightarrow> from_entries R m m' \<Longrightarrow> from_entries R m' m'' \<Longrightarrow> from_entries R m m''"
  unfolding from_entries_def by metis

lemma from_entries_update:
  "(\<And>v. R v v) \<Longrightarrow> map_of m i = Some v \<Longrightarrow> R v v' \<Longrightarrow> from_entries R m (AList.update i v' m)"
  by (auto simp: from_entries_def)

lemma from_entries_each:
  assumes "\<And>v e. R v (fst (f v e))"
  shows "from_entries R m (fst (each_value f m e))"
  using each_value_map_of [of f m e] each_value_keys [of f m e] assms
  by (fastforce simp: from_entries_def hmap_ok_def hkeys_def)

lemma from_entries_filter:
  assumes "\<And>v. R v v"
  shows "from_entries R m (filter (\<lambda>p. f (snd p)) m)"
proof -
  have "\<exists>v. map_of m i = Some v \<and> R v v'" if "hmap_ok m" "map_of (filter (\<lambda>p. f (snd p)) m) i = Some v'" for i v'
  proof -
    have "(i, v') \<in> set m" using map_of_SomeD [OF that(2)] by simp
    then show ?thesis using that(1) assms by (auto simp: hmap_ok_def hkeys_def)
  qed
  then show ?thesis by (auto simp: from_entries_def hmap_ok_def hkeys_def distinct_map_filter)
qed

lemma from_quiet_trans:
  "from_entries quiet_entry m m' \<Longrightarrow> from_entries quiet_entry m' m'' \<Longrightarrow> from_entries quiet_entry m m''"
  by (rule from_entries_trans) (blast intro: quiet_entry_trans)+

lemma from_calm_trans:
  "from_entries calm_out m m' \<Longrightarrow> from_entries calm_out m' m'' \<Longrightarrow> from_entries calm_out m m''"
  by (rule from_entries_trans) (blast intro: calm_out_trans)+

definition calm :: "transfers \<Rightarrow> transfers \<Rightarrow> bool" where
  "calm s s' \<longleftrightarrow> same_files (tr_fs s) (tr_fs s')
     \<and> from_entries quiet_entry (tr_receiving s) (tr_receiving s')
     \<and> from_entries calm_out (tr_sending s) (tr_sending s')"

lemma calm_refl [simp]: "calm s s"
  by (simp add: calm_def from_entries_refl)

lemma calm_trans: "calm a b \<Longrightarrow> calm b c \<Longrightarrow> calm a c"
  unfolding calm_def using same_files_trans from_quiet_trans from_calm_trans by blast

text \<open>Fields that neither the maps nor the files are part of.\<close>

lemma calm_fields:
  "tr_fs s' = tr_fs s \<Longrightarrow> tr_receiving s' = tr_receiving s \<Longrightarrow> tr_sending s' = tr_sending s \<Longrightarrow> calm s s'"
  by (simp add: calm_def from_entries_refl)

lemma calm_updates [simp]:
  "calm s (bump s)" "calm s (s\<lparr>tr_link := l\<rparr>)" "calm s (s\<lparr>tr_devices := r\<rparr>)" "calm s (s\<lparr>tr_preparing := p\<rparr>)"
  "calm s (s\<lparr>tr_leave_sent := b\<rparr>)" "calm s (s\<lparr>tr_same_network_only := b\<rparr>)" "calm s (s\<lparr>tr_pace := q\<rparr>)"
  by (rule calm_fields; simp add: bump_def)+

lemma calm_bump: "calm s s' \<Longrightarrow> calm s (bump s')"
  using calm_trans calm_updates(1) by blast

lemma calm_set_in:
  assumes "incoming_at i s = Some ig" "quiet_entry ig ig'" "same_files (tr_fs s) fs"
  shows "calm s (set_in i ig' (s\<lparr>tr_fs := fs\<rparr>))" "calm s (set_in i ig' (s\<lparr>tr_link := l, tr_fs := fs\<rparr>))"
  using assms by (simp_all add: calm_def set_in_def incoming_at_def from_entries_update from_entries_refl)

lemma calm_set_out:
  assumes "outgoing_at i s = Some og" "calm_out og og'"
  shows "calm s (set_out i og' s)" "calm s (set_out i og' (s\<lparr>tr_link := l\<rparr>))"
  using assms by (simp_all add: calm_def set_out_def outgoing_at_def from_entries_update from_entries_refl)

section \<open>The calm operations\<close>

lemma next_in_window: "(a :: u32) < b \<Longrightarrow> a + 1 \<le> b"
proof -
  assume "a < b"
  then have "unat a < unat b" by (simp add: word_less_nat_alt)
  moreover from this have "unat (a + 1) = Suc (unat a)" using unat_bound [of b] by (simp add: unat_word_ariths)
  ultimately show ?thesis by (simp add: word_le_nat_alt)
qed

lemma window_failed [simp]: "window_ok (og\<lparr>og_stage := st\<rparr>) = window_ok og"
  by (simp add: window_ok_def)

lemma pump_loop_calm:
  "pump_loop now to l p og fs = (l', p', og', fs') \<Longrightarrow> \<not> finished (og_stage og) \<Longrightarrow>
    calm_out og og' \<and> same_files fs fs' \<and> fs_dir fs' = fs_dir fs"
proof (induction now to l p og fs arbitrary: l' p' og' fs' rule: pump_loop.induct)
  case (1 now to l p og fs)
  show ?case
  proof (cases "og_next og < piece_total (og_offer og) \<and> og_next og < sat_add (og_acked og) WINDOW")
    case False
    then show ?thesis using 1(2) by (subst (asm) pump_loop.simps) auto
  next
    case more: True
    have step: "calm_out og (og\<lparr>og_next := og_next og + 1\<rparr>)"
      using more next_in_window [of "og_next og"] by (simp add: calm_out_def window_ok_def)
    show ?thesis
    proof (cases "\<exists>q d g f body k.
        pace_take (piece_len (og_offer og) (og_next og)) now p = (True, q)
        \<and> read_chunk (og_path og) (og_next og) (o_chunk_bytes (og_offer og)) fs = (Some d, g)
        \<and> file_chunk_encode \<lparr>fc_offer_id = o_offer_id (og_offer og), fc_index = og_next og, fc_data = d\<rparr> = Inr body
        \<and> send_msg FileChunk body to l = (Inr f, k)")
      case True
      then obtain q d g f body k where c:
        "pace_take (piece_len (og_offer og) (og_next og)) now p = (True, q)"
        "read_chunk (og_path og) (og_next og) (o_chunk_bytes (og_offer og)) fs = (Some d, g)"
        "file_chunk_encode \<lparr>fc_offer_id = o_offer_id (og_offer og), fc_index = og_next og, fc_data = d\<rparr> = Inr body"
        "send_msg FileChunk body to l = (Inr f, k)" by blast
      have "pump_loop now to k q (og\<lparr>og_next := og_next og + 1\<rparr>) g = (l', p', og', fs')"
        using 1(2) c more
        by (subst (asm) pump_loop.simps) simp
      then have "calm_out (og\<lparr>og_next := og_next og + 1\<rparr>) og' \<and> same_files g fs' \<and> fs_dir fs' = fs_dir g"
        using 1(1) [OF more c(1) [symmetric] refl c(2) [symmetric] refl c(3) c(4) [symmetric] refl] 1(3)
        by simp
      then show ?thesis using step calm_out_trans read_chunk_same [OF c(2)] same_files_trans by metis
    next
      case no: False
      then show ?thesis
        using 1(2,3) more
        by (subst (asm) pump_loop.simps)
          (auto split: prod.splits bool.splits option.splits sum.splits dest: read_chunk_same simp: calm_out_def)
    qed
  qed
qed

lemma pump_calm:
  "pump_out now l p og fs = (l', p', og', fs') \<Longrightarrow> \<not> finished (og_stage og) \<Longrightarrow>
    calm_out og og' \<and> same_files fs fs' \<and> fs_dir fs' = fs_dir fs"
  by (auto simp: pump_out_def split: option.splits dest: pump_loop_calm)

lemma pump_at_calm:
  assumes "outgoing_at i s = Some og" "calm_out og og'" "\<not> finished (og_stage og')"
  shows "calm s (pump_at now i l og' s)"
proof -
  obtain l' q og2 fs where e: "pump_out now l (tr_pace s) og' (tr_fs s) = (l', q, og2, fs)" by (cases rule: prod_cases4)
  then have "calm_out og og2" "same_files (tr_fs s) fs"
    using pump_calm [OF e assms(3)] calm_out_trans [OF assms(2)] by auto
  then show ?thesis
    using assms(1) e by (simp add: pump_at_def calm_def set_out_def outgoing_at_def from_entries_update from_entries_refl)
qed

lemma calm_loops:
  assumes "tr_sending s' = fst (each_value f (tr_sending s) a)" "tr_receiving s' = fst (each_value g (tr_receiving s) b)"
    and "\<And>og e. calm_out og (fst (f og e))" "\<And>ig e. quiet_entry ig (fst (g ig e))" "same_files (tr_fs s) (tr_fs s')"
  shows "calm s s'"
  using assms(3-5) by (simp add: calm_def assms(1,2) from_entries_each)

lemma stopped_quiet:
  assumes "\<not> finished (ig_stage ig)"
  shows "quiet_entry ig ((fst (discard_part ig fs))\<lparr>ig_stage := StageFailed w\<rparr>)"
    "quiet_entry ig ((fst (discard_part ig fs))\<lparr>ig_stage := StageCancelled\<rparr>)"
  using ended_quiet [where fs = fs, OF surjective_pairing assms] by auto

lemma fail_in_quiet: "quiet_entry ig (fst (fail_in why ig fs)) \<and> same_files fs (snd (fail_in why ig fs))"
  by (simp add: fail_in_def split_beta Let_def stopped_quiet)

lemma stall_in_quiet:
  "quiet_entry ig (fst (stall_in now ig e)) \<and> same_files (snd e) (snd (snd (stall_in now ig e)))"
  by (simp add: stall_in_def split_beta Let_def stopped_quiet moving_not_finished)

lemma gone_in_quiet: "quiet_entry ig (fst (gone_in r now ig e))"
proof -
  have a: "quiet_entry ig (ig\<lparr>ig_gone_since := t\<rparr>)" for t by (rule same_stage_quiet) simp_all
  have "quiet_entry ig (ig\<lparr>ig_gone_since := t, ig_stage := StageFailed w\<rparr>)" if "ig_stage ig = Offered" for t w
  proof -
    have "quiet_entry (ig\<lparr>ig_gone_since := t\<rparr>) (ig\<lparr>ig_gone_since := t\<rparr>\<lparr>ig_stage := StageFailed w\<rparr>)"
      by (rule declined_quiet) (use that in simp_all)
    then show ?thesis using quiet_entry_trans [OF a] by simp
  qed
  then show ?thesis using a by (simp add: gone_in_def split_beta Let_def)
qed

lemma pay_ack_quiet: "quiet_entry ig (fst (pay_ack ig l))"
  by (auto simp: pay_ack_def split_beta Let_def intro!: same_stage_quiet split: option.split)

lemma out_loops_calm:
  "calm_out og (fst (fail_out why og u))" "calm_out og (fst (stall_out now og b))" "calm_out og (fst (gone_out r now og b))"
  by (auto simp: fail_out_def stall_out_def gone_out_def calm_out_def window_ok_def Let_def split_beta dest: moving_not_finished)

lemma pump_moving_calm:
  "calm_out og (fst (pump_moving now og e)) \<and> same_files (snd (snd e)) (snd (snd (snd (pump_moving now og e))))"
  by (cases e) (auto simp: pump_moving_def split: prod.split dest: moving_not_finished pump_calm)

lemma fail_all_live_calm: "calm s (fail_all_live why s)"
proof (rule calm_loops [where f = "fail_out why" and g = "fail_in why" and a = "()" and b = "tr_fs s"])
  have "same_files (tr_fs s) (snd (each_value (fail_in why) (tr_receiving s) (tr_fs s)))"
    by (rule each_value_files [where h = "\<lambda>e. e"]) (simp add: fail_in_quiet)
  then show "same_files (tr_fs s) (tr_fs (fail_all_live why s))" by (simp add: fail_all_live_def split_beta Let_def bump_def)
qed (simp_all add: fail_all_live_def split_beta Let_def bump_def fail_in_quiet out_loops_calm)

lemma tick_stalled_calm: "calm s (fst (tick_stalled now s))"
proof (rule calm_loops [where f = "stall_out now" and g = "stall_in now" and a = False
      and b = "(snd (each_value (stall_out now) (tr_sending s) False), tr_fs s)"])
  have "same_files (snd e) (snd (snd (each_value (stall_in now) m e)))" for e m
    by (rule each_value_files) (simp add: stall_in_quiet)
  from this [of "(snd (each_value (stall_out now) (tr_sending s) False), tr_fs s)"]
  show "same_files (tr_fs s) (tr_fs (fst (tick_stalled now s)))"
    by (simp add: tick_stalled_def split_beta Let_def)
qed (simp_all add: tick_stalled_def split_beta Let_def stall_in_quiet out_loops_calm)

lemma tick_gone_calm: "calm s (fst (tick_gone now (s, b)))"
proof (cases "is_connected s")
  case True
  then show ?thesis
    by (intro calm_loops [where f = "gone_out (tr_devices s) now" and g = "gone_in (tr_devices s) now" and a = b
          and b = "snd (each_value (gone_out (tr_devices s) now) (tr_sending s) b)"])
      (simp_all add: tick_gone_def split_beta Let_def gone_in_quiet out_loops_calm)
qed (simp add: tick_gone_def)

lemma tick_send_calm: "calm s (tick_send now s)"
proof (cases "tr_link s")
  case (Some l)
  let ?e = "(l, tr_pace s, tr_fs s)"
  show ?thesis
  proof (rule calm_loops [where f = "pump_moving now" and g = pay_ack and a = ?e
        and b = "fst (snd (each_value (pump_moving now) (tr_sending s) ?e))"])
    have "same_files (snd (snd e)) (snd (snd (snd (each_value (pump_moving now) m e))))" for e m
      by (rule each_value_files [where h = "\<lambda>e. snd (snd e)"]) (simp add: pump_moving_calm)
    from this [of ?e] show "same_files (tr_fs s) (tr_fs (tick_send now s))"
      using Some by (simp add: tick_send_def split_beta Let_def)
  qed (simp_all add: Some tick_send_def split_beta Let_def pump_moving_calm pay_ack_quiet)
qed (simp add: tick_send_def)

lemma tick_calm: "calm s (tr_tick now s)"
proof -
  obtain t b where t: "tick_stalled now s = (t, b)" by fastforce
  obtain u c where u: "tick_gone now (t, b) = (u, c)" by fastforce
  have "calm s u" using tick_stalled_calm [of s now] tick_gone_calm [of t now b] t u calm_trans by auto
  then have "calm s (if c then bump u else u)" using calm_bump by simp
  then show ?thesis using tick_send_calm calm_trans t u by (auto simp: tr_tick_def)
qed

lemma calm_map_link: "calm s (s\<lparr>tr_link := map_option f (tr_link s)\<rparr>)"
  by (rule calm_updates)

lemma announce_version_calm: "calm s (announce_version P E ask to s)"
  by (auto simp: announce_version_def split: option.split sum.split)

lemma simple_calm:
  "calm s (attach n k d r devices s)" "calm s (snd (say_leaving P E s))" "calm s (ask_version P E c s)"
  "calm s (relay_sent token s)" "calm s (set_same_network_only on s)" "calm s (snd (send_file metadata p to s))"
  "calm s (set_preparing to p on s)" "calm s (tr_disconnected s)" "calm s (over_quota s)"
  by (auto simp: attach_def say_leaving_def queue_leave_def ask_version_def announce_version_calm relay_sent_def
      set_same_network_only_def set_preparing_def send_file_def Let_def tr_disconnected_def over_quota_def
      fail_all_live_calm bump_def split: option.split prod.split intro: calm_fields)

lemma tr_connected_calm: "calm s (tr_connected P E c s)"
  unfolding tr_connected_def Let_def
  using calm_trans [OF calm_map_link calm_trans [OF fail_all_live_calm announce_version_calm]] .

lemma clear_finished_calm: "calm s (clear_finished s)"
  unfolding clear_finished_def
  by (intro calm_bump)
    (simp add: calm_def from_entries_filter [where R = quiet_entry and f = "\<lambda>ig. \<not> finished (ig_stage ig)"]
      from_entries_filter [where R = calm_out and f = "\<lambda>og. \<not> finished (og_stage og)"])

lemma answer_through_relay_calm: "calm s (answer_through_relay P i s)"
proof (cases "incoming_at i s")
  case (Some ig)
  show ?thesis
  proof (cases "ig_stage ig \<noteq> Moving 0 \<or> ig_direct ig")
    case False
    then have n: "\<not> finished (ig_stage ig)" by simp
    note q = calm_set_in [OF Some stopped_quiet(1) [OF n] discard_part_fields(6)]
    have "calm s (set_in i ((fst (discard_part ig fs))\<lparr>ig_stage := StageFailed e\<rparr>)
        (s\<lparr>tr_link := k, tr_fs := snd (discard_part ig fs)\<rparr>))" if "fs = tr_fs s" for e fs k
      using q(2) that by simp
    moreover have "discard_part ig (tr_fs (s\<lparr>tr_link := k\<rparr>)) = discard_part ig (tr_fs s)" for k by simp
    ultimately show ?thesis
      using Some False q(1)
      by (auto simp: answer_through_relay_def fail_incoming_def give_up_incoming_def Let_def split_beta
          intro!: calm_bump split: option.split sum.split)
  qed (use Some in \<open>simp add: answer_through_relay_def\<close>)
qed (simp add: answer_through_relay_def)

lemma direct_out_calm:
  "calm s (snd (direct_begin now i s))" "calm s (snd (direct_progress now i n s))"
  "calm s (direct_finished i ended s)" "calm s (direct_failed i why s)"
proof -
  have ending: "calm s (end_direct i st s)" for st
    by (auto simp: end_direct_def calm_out_def intro!: calm_bump calm_set_out split: option.split)
  show "calm s (direct_finished i ended s)" "calm s (direct_failed i why s)"
    by (simp_all add: direct_finished_def direct_failed_def ending)
  show "calm s (snd (direct_begin now i s))"
    by (auto simp: direct_begin_def calm_out_def window_ok_def intro!: calm_bump calm_set_out split: option.split)
  show "calm s (snd (direct_progress now i n s))"
    by (auto simp: direct_progress_def calm_out_def window_ok_def le_sat_add intro!: calm_bump calm_set_out
        split: option.split)
qed

lemma direct_in_calm: "calm s (direct_receiving now i s)" "calm s (direct_receive_failed i why s)"
proof -
  show "calm s (direct_receiving now i s)"
  proof (cases "incoming_at i s")
    case (Some ig)
    have "quiet_entry ig (ig\<lparr>ig_direct := True, ig_moved := now\<rparr>)" by (rule same_stage_quiet) simp_all
    then show ?thesis using calm_set_in(1) [OF Some, of _ "tr_fs s"] Some by (simp add: direct_receiving_def)
  qed (simp add: direct_receiving_def)
  show "calm s (direct_receive_failed i why s)"
    using calm_set_in(1) stopped_quiet(1) discard_part_fields(6)
    by (auto simp: direct_receive_failed_def give_up_incoming_def Let_def split_beta intro!: calm_bump split: option.split)
qed

lemma decline_calm: "calm s (decline_file P i s)"
proof (cases "incoming_at i s")
  case (Some ig)
  then show ?thesis
    using calm_set_in(2) [OF Some declined_quiet [of ig StageDeclined], of "tr_fs s"]
    by (auto simp: decline_file_def intro!: calm_bump)
qed (simp add: decline_file_def)

lemma mark_cancelled_calm: "calm s (mark_cancelled i s)"
proof -
  define t where "t = (case outgoing_at i s of None \<Rightarrow> s
      | Some og \<Rightarrow> if finished (og_stage og) then s else set_out i (og\<lparr>og_stage := StageCancelled\<rparr>) s)"
  have "calm s t"
    by (auto simp: t_def calm_out_def intro!: calm_set_out split: option.split)
  moreover have "calm t (case incoming_at i t of None \<Rightarrow> t | Some ig \<Rightarrow> if finished (ig_stage ig) then t
      else let (ig, fs) = discard_part ig (tr_fs t) in set_in i (ig\<lparr>ig_stage := StageCancelled\<rparr>) (t\<lparr>tr_fs := fs\<rparr>))"
    using calm_set_in(1) stopped_quiet(2) discard_part_fields(6) by (auto simp: split_beta Let_def split: option.split)
  ultimately show ?thesis unfolding mark_cancelled_def t_def [symmetric] Let_def by (rule calm_trans)
qed

lemma cancel_calm: "calm s (cancel_transfer i s)"
  unfolding cancel_transfer_def Let_def
  by (intro calm_bump calm_trans [OF _ mark_cancelled_calm]) (auto split: option.split)

lemma cancel_to_calm: "calm s (cancel_to d s)"
proof -
  have each: "calm t (fold cancel_transfer is t)" for "is" t
  proof (induction "is" arbitrary: t)
    case (Cons i "is")
    then show ?case using calm_trans [OF cancel_calm [of t i]] by simp
  qed simp
  show ?thesis unfolding cancel_to_def Let_def by (rule calm_trans [OF calm_updates(4) each])
qed

lemma heard_announce_calm: "calm s (announce_version P E ask to (s\<lparr>tr_devices := r\<rparr>))"
  by (rule calm_trans [OF calm_updates(3) announce_version_calm])

lemma word_calm: "calm s (on_about P E body s)" "calm s (on_leave P E body s)" "calm s (on_cancel body s)"
proof -
  show "calm s (on_about P E body s)"
    unfolding on_about_def Let_def by (auto split: option.split sum.split intro: heard_announce_calm)
  show "calm s (on_leave P E body s)" unfolding on_leave_def by (auto split: option.split sum.split)
  show "calm s (on_cancel body s)" by (simp add: on_cancel_def mark_cancelled_calm split: sum.split)
qed

lemma on_ack_calm: "calm s (on_ack E body s)"
proof -
  have "calm_out og (og\<lparr>og_acked := max (og_acked og) n, og_moved := now\<rparr>\<lparr>og_stage := st\<rparr>)"
    if "\<not> finished (og_stage og)" for og n now st
  proof -
    have "unat (sat_add (og_acked og) WINDOW) \<le> unat (sat_add (max (og_acked og) n) WINDOW)"
      unfolding unat_sat_add by (auto simp: max_def word_le_nat_alt min_def)
    then show ?thesis using that by (auto simp: calm_out_def window_ok_def word_le_nat_alt intro: order_trans)
  qed
  then show ?thesis
    by (auto simp: on_ack_def Let_def intro!: calm_set_out pump_at_calm split: option.split sum.split ack_state.split)
qed

lemma on_answer_calm: "calm s (on_answer P E body s)"
proof -
  have ended: "calm_out og (og\<lparr>og_stage := st\<rparr>)" "calm_out og (og\<lparr>og_direct := False, og_next := 0, og_acked := 0, og_stage := st\<rparr>)"
    "calm_out og (og\<lparr>og_to := c, og_stage := st, og_moved := now\<rparr>)"
    "calm_out og (og\<lparr>og_direct := False, og_next := 0, og_acked := 0, og_to := c, og_stage := st, og_moved := now\<rparr>)"
    if "\<not> finished (og_stage og)" for og st c now using that by (simp_all add: calm_out_def window_ok_def)
  show ?thesis
    by (auto simp: on_answer_def Let_def intro!: calm_set_out pump_at_calm ended split: option.split sum.split)
qed

section \<open>The invariant\<close>

text \<open>Every received entry is in order with its file, and no two hold the same file; every sent one is inside
  its window.\<close>

definition tr_inv :: "transfers \<Rightarrow> bool" where
  "tr_inv s \<longleftrightarrow> hmap_ok (tr_receiving s) \<and> hmap_ok (tr_sending s)
     \<and> (\<forall>i ig. incoming_at i s = Some ig \<longrightarrow> recv_ok ig (tr_fs s))
     \<and> (\<forall>i j ig jg n. incoming_at i s = Some ig \<and> incoming_at j s = Some jg
          \<and> file_no ig = Some n \<and> file_no jg = Some n \<longrightarrow> i = j)
     \<and> (\<forall>i og. outgoing_at i s = Some og \<longrightarrow> window_ok og)"

text \<open>What a file that was kept satisfies: what was written has the hash and the size of the offer, and the
  name given names it, when the temporary name did.\<close>

definition kept :: "prims \<Rightarrow> incoming_file \<Rightarrow> fsys \<Rightarrow> incoming_file \<Rightarrow> fsys \<Rightarrow> bool" where
  "kept P ig fs ig' fs' \<longleftrightarrow>
     (\<exists>t n part fin. ig_stage ig' = StageDone (Some t) \<and> ig_part ig = Some (n, part, fin)
        \<and> p_sha256 P (fs_data fs' n) = o_sha256 (ig_offer ig)
        \<and> of_nat (length (fs_data fs' n)) = o_size (ig_offer ig)
        \<and> (fs_dir fs part = Some n \<longrightarrow> fs_dir fs' t = Some n))"

definition entry_step :: "prims \<Rightarrow> incoming_file \<Rightarrow> fsys \<Rightarrow> incoming_file \<Rightarrow> fsys \<Rightarrow> bool" where
  "entry_step P ig fs ig' fs' \<longleftrightarrow>
     ig_offer ig' = ig_offer ig
     \<and> (finished (ig_stage ig) \<longrightarrow> ig_stage ig' = ig_stage ig)
     \<and> (\<not> finished (ig_stage ig) \<and> (\<exists>p. ig_stage ig' = StageDone p) \<longrightarrow> kept P ig fs ig' fs')"

text \<open>A step of the whole: entries that were there step, new ones wait for an answer, and what is sent and
  over stays so.\<close>

definition proper :: "prims \<Rightarrow> transfers \<Rightarrow> transfers \<Rightarrow> bool" where
  "proper P s s' \<longleftrightarrow> tr_inv s'
     \<and> (\<forall>i ig'. incoming_at i s' = Some ig' \<longrightarrow>
          (case incoming_at i s of None \<Rightarrow> ig_stage ig' = Offered
           | Some ig \<Rightarrow> entry_step P ig (tr_fs s) ig' (tr_fs s')))
     \<and> (\<forall>i og'. outgoing_at i s' = Some og' \<longrightarrow>
          og_stage og' = Offered \<or> (\<exists>og. outgoing_at i s = Some og \<and> calm_out og og'))"

lemma recv_ok_same: "same_files fs fs' \<Longrightarrow> recv_ok ig fs' = recv_ok ig fs"
  by (simp add: recv_ok_def same_files_def)

lemma quiet_entry_file: "quiet_entry ig ig' \<Longrightarrow> file_no ig' = Some n \<Longrightarrow> file_no ig = Some n"
  by (auto simp: quiet_entry_def file_no_def)

lemma quiet_entry_step: "quiet_entry ig ig' \<Longrightarrow> entry_step P ig fs ig' fs'"
  by (auto simp: quiet_entry_def entry_step_def)

lemma calm_receiving:
  "calm s s' \<Longrightarrow> tr_inv s \<Longrightarrow> incoming_at i s' = Some ig' \<Longrightarrow> \<exists>ig. incoming_at i s = Some ig \<and> quiet_entry ig ig'"
  unfolding calm_def from_entries_def tr_inv_def incoming_at_def by blast

lemma calm_sending:
  "calm s s' \<Longrightarrow> tr_inv s \<Longrightarrow> outgoing_at i s' = Some og' \<Longrightarrow> \<exists>og. outgoing_at i s = Some og \<and> calm_out og og'"
  unfolding calm_def from_entries_def tr_inv_def outgoing_at_def by blast

lemma calm_inv:
  assumes c: "calm s s'" and v: "tr_inv s"
  shows "tr_inv s'"
proof -
  have "hmap_ok (tr_receiving s') \<and> hmap_ok (tr_sending s')"
    using c v by (auto simp: calm_def from_entries_def tr_inv_def)
  moreover have "recv_ok ig' (tr_fs s')" if t: "incoming_at i s' = Some ig'" for i ig'
  proof -
    obtain ig where "incoming_at i s = Some ig" "quiet_entry ig ig'" using calm_receiving [OF c v t] by blast
    then show ?thesis using v c recv_ok_same unfolding tr_inv_def calm_def quiet_entry_def by blast
  qed
  moreover have "i = j" if "incoming_at i s' = Some ig" "incoming_at j s' = Some jg" "file_no ig = Some n" "file_no jg = Some n"
    for i j ig jg n
    using calm_receiving [OF c v that(1)] calm_receiving [OF c v that(2)] quiet_entry_file that(3,4) v
    unfolding tr_inv_def by metis
  moreover have "window_ok og'" if "outgoing_at i s' = Some og'" for i og'
    using calm_sending [OF c v that] v unfolding tr_inv_def calm_out_def by metis
  ultimately show ?thesis unfolding tr_inv_def by blast
qed

lemma calm_proper:
  assumes c: "calm s s'" and v: "tr_inv s"
  shows "proper P s s'"
proof -
  have "case incoming_at i s of None \<Rightarrow> ig_stage ig' = Offered | Some ig \<Rightarrow> entry_step P ig (tr_fs s) ig' (tr_fs s')"
    if "incoming_at i s' = Some ig'" for i ig'
    using calm_receiving [OF c v that] quiet_entry_step by auto
  then show ?thesis using calm_inv [OF c v] calm_sending [OF c v] unfolding proper_def by metis
qed

text \<open>An operation that works on one received entry and its file.\<close>

lemma proper_set_in:
  assumes v: "tr_inv s" and s': "tr_receiving s' = AList.update i ig' (tr_receiving s)" "tr_sending s' = tr_sending s"
    and ok: "recv_ok ig' (tr_fs s')" and grows: "fs_next (tr_fs s) \<le> fs_next (tr_fs s')"
    and frame: "\<And>m. m < fs_next (tr_fs s) \<Longrightarrow> Option.bind (incoming_at i s) file_no \<noteq> Some m \<Longrightarrow>
      fs_data (tr_fs s') m = fs_data (tr_fs s) m"
    and own: "\<And>n. file_no ig' = Some n \<Longrightarrow> Option.bind (incoming_at i s) file_no = Some n \<or> fs_next (tr_fs s) \<le> n"
    and step: "case incoming_at i s of None \<Rightarrow> ig_stage ig' = Offered | Some ig \<Rightarrow> entry_step P ig (tr_fs s) ig' (tr_fs s')"
  shows "proper P s s'"
proof -
  have look: "incoming_at j s' = (if j = i then Some ig' else incoming_at j s)" for j
    by (simp add: incoming_at_def s')
  have out: "outgoing_at j s' = outgoing_at j s" for j by (simp add: outgoing_at_def s')
  have old: "file_no jg = Some n \<Longrightarrow> n < fs_next (tr_fs s)" if "incoming_at j s = Some jg" for j jg n
    using that v unfolding tr_inv_def recv_ok_def file_no_def by fastforce
  have apart: "Option.bind (incoming_at i s) file_no \<noteq> Some n"
    if "incoming_at j s = Some jg" "j \<noteq> i" "file_no jg = Some n" for j jg n
    using that v unfolding tr_inv_def by (cases "incoming_at i s") auto
  have "recv_ok jg (tr_fs s')" if "incoming_at j s = Some jg" "j \<noteq> i" for j jg
  proof -
    have "recv_ok jg (tr_fs s)" using that v by (simp add: tr_inv_def)
    moreover have "fs_data (tr_fs s') n = fs_data (tr_fs s) n" if "file_no jg = Some n" for n
      using frame old apart \<open>incoming_at j s = Some jg\<close> \<open>j \<noteq> i\<close> that by blast
    ultimately show ?thesis using grows by (fastforce simp: recv_ok_def file_no_def)
  qed
  then have "recv_ok jg (tr_fs s')" if "incoming_at j s' = Some jg" for j jg
    using that ok look [of j] by (cases "j = i") auto
  moreover have "a = b" if "incoming_at a s' = Some ga" "incoming_at b s' = Some gb" "file_no ga = Some n" "file_no gb = Some n"
    for a b ga gb n
  proof (rule ccontr)
    assume ne: "a \<noteq> b"
    show False
    proof (cases "a = i \<or> b = i")
      case True
      have "\<exists>j jg. incoming_at j s = Some jg \<and> j \<noteq> i \<and> file_no jg = Some n \<and> file_no ig' = Some n"
        using that ne True look [of a] look [of b] by (auto split: if_splits)
      then obtain j jg where j: "incoming_at j s = Some jg" "j \<noteq> i" "file_no jg = Some n" "file_no ig' = Some n" by blast
      then show ?thesis using own [OF j(4)] old [OF j(1,3)] apart [OF j(1-3)] by simp
    next
      case False
      then have "incoming_at a s = Some ga" "incoming_at b s = Some gb" using that look by simp_all
      then show ?thesis using that(3,4) ne v unfolding tr_inv_def by blast
    qed
  qed
  moreover have "hmap_ok (tr_receiving s')" "hmap_ok (tr_sending s')" using v s' by (simp_all add: tr_inv_def)
  moreover have "window_ok og" if "outgoing_at j s' = Some og" for j og using that v out by (simp add: tr_inv_def)
  ultimately have "tr_inv s'" unfolding tr_inv_def by blast
  moreover have "case incoming_at j s of None \<Rightarrow> ig_stage jg = Offered | Some ig \<Rightarrow> entry_step P ig (tr_fs s) jg (tr_fs s')"
    if "incoming_at j s' = Some jg" for j jg
    using that step quiet_entry_step [OF quiet_entry_refl] unfolding look by (cases "j = i") auto
  ultimately show ?thesis unfolding proper_def out by auto
qed

section \<open>Pieces\<close>

lemma finish_incoming_ends:
  assumes "finish_incoming P ig fs = (st, ig', fs')" "ig_part ig = Some (n, part, fin)"
  shows "ig_part ig' = None \<and> ig_offer ig' = ig_offer ig \<and> finished (ig_stage ig') \<and> same_files fs fs'
    \<and> ((st = ack_state.Done) = (\<exists>t. ig_stage ig' = StageDone (Some t)))
    \<and> (\<forall>p. ig_stage ig' = StageDone p \<longrightarrow> (\<exists>t. p = Some t \<and> p_sha256 P (ig_hasher ig) = o_sha256 (ig_offer ig)
         \<and> ig_written ig = o_size (ig_offer ig) \<and> (fs_dir fs part = Some n \<longrightarrow> fs_dir fs' t = Some n)))"
proof -
  obtain b gs where sync: "fs_sync_all fs = (b, gs)" by fastforce
  note same = fs_sync_same [OF sync]
  have removed: "same_files fs (fs_remove_file part x)" if "same_files fs x" for x
    using same_files_trans [OF that fs_remove_same] .
  show ?thesis
    using assms same removed
    by (auto simp: finish_incoming_def sync Let_def simp del: split_paired_Ex split_paired_All split: if_splits prod.splits
        dest!: fs_rename_same intro: same_files_trans)
qed

text \<open>A piece that is taken: its bytes are at the end of what was hashed and of the file. The last one ends the
  transfer.\<close>

lemma take_piece_step:
  assumes "take_piece P now d ig fs = (r, ig', fs')" "recv_ok ig fs" "is_moving (ig_stage ig)"
  shows "fs_next fs' = fs_next fs \<and> (\<forall>m. file_no ig \<noteq> Some m \<longrightarrow> fs_data fs' m = fs_data fs m)
    \<and> (case r of
         Inl why \<Rightarrow> ig' = ig \<and> same_files fs fs'
       | Inr e \<Rightarrow> recv_ok ig' fs' \<and> (ig_part ig' = ig_part ig \<or> ig_part ig' = None) \<and> entry_step P ig fs ig' fs'
           \<and> (e \<noteq> None \<longleftrightarrow> finished (ig_stage ig')))"
proof (cases "ig_part ig")
  case None
  then show ?thesis using assms(2,3) by (simp add: recv_ok_def)
next
  case (Some f)
  obtain n part fin where p: "ig_part ig = Some (n, part, fin)" using Some by (cases f) auto
  have data: "fs_data fs n = ig_hasher ig" "n < fs_next fs" "part = part_path_for fin"
    "ig_written ig = of_nat (length (ig_hasher ig))"
    using assms(2) p moving_not_finished [OF assms(3)] unfolding recv_ok_def by blast+
  show ?thesis
  proof (cases "length d \<noteq> piece_len (ig_offer ig) (ig_received ig) \<or> chunk_count (ig_offer ig) \<le> ucast (ig_received ig)")
    case True
    then show ?thesis using assms(1) by (auto simp: take_piece_def)
  next
    case room: False
    obtain b gs where w: "fs_write_all n d fs = (b, gs)" by fastforce
    show ?thesis
    proof (cases b)
      case False
      then show ?thesis using assms(1) room p w fs_write_None [of n d fs gs]
        by (auto simp: take_piece_def same_files_def)
    next
      case True
      define jg where "jg = ig\<lparr>ig_hasher := ig_hasher ig @ d, ig_received := ig_received ig + 1, ig_moved := now,
          ig_written := ig_written ig + of_nat (length d)\<rparr>"
      have gs: "fs_data gs = (fs_data fs)(n := ig_hasher ig @ d)" "fs_dir gs = fs_dir fs" "fs_next gs = fs_next fs"
        using fs_write_Some w True data(1) by auto
      have jp: "ig_part jg = Some (n, part, fin)" by (simp add: jg_def p)
      have jw: "ig_written jg = of_nat (length (ig_hasher jg))" "ig_hasher jg = ig_hasher ig @ d" "ig_offer jg = ig_offer ig"
        by (simp_all add: jg_def data(4))
      have t: "take_piece P now d ig fs =
          (if ucast (ig_received jg) = chunk_count (ig_offer ig)
           then let (st, kg, fs) = finish_incoming P jg gs in (Inr (Some st), kg, fs)
           else (Inr None, jg\<lparr>ig_stage := Moving (ig_received jg)\<rparr>, gs))"
        using room p w True by (auto simp: take_piece_def Let_def jg_def)
      show ?thesis
      proof (cases "ucast (ig_received jg) = chunk_count (ig_offer ig)")
        case False
        then have "r = Inr None" "ig' = jg\<lparr>ig_stage := Moving (ig_received jg)\<rparr>" "fs' = gs" using assms(1) t by auto
        then show ?thesis using gs data jp jw p assms(3) moving_not_finished
          by (auto simp: recv_ok_def file_no_def entry_step_def)
      next
        case True
        obtain st where f: "finish_incoming P jg gs = (st, ig', fs')" "r = Inr (Some st)"
          using assms(1) t True by (auto split: prod.splits)
        note e = finish_incoming_ends [OF f(1) jp]
        then have "fs_data fs' = fs_data gs" "fs_next fs' = fs_next gs" by (auto simp: same_files_def)
        then show ?thesis using e gs data jw p f(2) assms(3) moving_not_finished
          by (auto simp: recv_ok_def file_no_def entry_step_def kept_def)
      qed
    qed
  qed
qed

section \<open>Every step\<close>

lemma owed_simps [simp]:
  "recv_ok (ig\<lparr>ig_owed_ack := x\<rparr>) fs = recv_ok ig fs" "file_no (ig\<lparr>ig_owed_ack := x\<rparr>) = file_no ig"
  "entry_step P ig fs (ig'\<lparr>ig_owed_ack := x\<rparr>) fs' = entry_step P ig fs ig' fs'"
  by (simp_all add: recv_ok_def file_no_def entry_step_def kept_def)

lemma proper_fields:
  "proper P s t \<Longrightarrow> tr_receiving u = tr_receiving t \<Longrightarrow> tr_sending u = tr_sending t \<Longrightarrow> tr_fs u = tr_fs t \<Longrightarrow>
    proper P s u"
  by (simp add: proper_def tr_inv_def incoming_at_def outgoing_at_def cong: option.case_cong)

text \<open>What adds files, or numbers for them, without touching those that are held.\<close>

lemma proper_grown:
  assumes "tr_inv s" "tr_receiving s' = tr_receiving s" "tr_sending s' = tr_sending s"
    and "fs_next (tr_fs s) \<le> fs_next (tr_fs s')"
    and "\<And>m. m < fs_next (tr_fs s) \<Longrightarrow> fs_data (tr_fs s') m = fs_data (tr_fs s) m"
  shows "proper P s s'"
proof -
  have "recv_ok ig (tr_fs s')" if ok: "recv_ok ig (tr_fs s)" for ig
  proof -
    have "n < fs_next (tr_fs s') \<and> fs_data (tr_fs s') n = ig_hasher ig \<and> part = part_path_for fin"
      if "ig_part ig = Some (n, part, fin)" for n part fin
      using ok that assms(4) assms(5) [of n] unfolding recv_ok_def by (metis order_less_le_trans)
    then show ?thesis using ok unfolding recv_ok_def by blast
  qed
  then have "tr_inv s'" using assms(1) unfolding tr_inv_def incoming_at_def outgoing_at_def assms(2,3) by blast
  then show ?thesis using assms(2,3) quiet_entry_step [OF quiet_entry_refl]
    by (auto simp: proper_def incoming_at_def outgoing_at_def split: option.split)
qed

lemma proper_offered:
  assumes "tr_inv s" "same_files (tr_fs s) (tr_fs s')" "tr_receiving s' = tr_receiving s"
    and "tr_sending s' = AList.update i og (tr_sending s)" "og_stage og = Offered" "window_ok og"
  shows "proper P s s'"
proof -
  have "tr_inv s'" using assms recv_ok_same
    by (auto simp: tr_inv_def incoming_at_def outgoing_at_def)
  then show ?thesis using assms quiet_entry_step [OF quiet_entry_refl]
    by (auto simp: proper_def incoming_at_def outgoing_at_def split: option.split if_splits)
qed

text \<open>A piece was taken, by whichever way it came.\<close>

lemma piece_proper:
  assumes v: "tr_inv s" and ig: "incoming_at i s = Some ig" "is_moving (ig_stage ig)"
    and t: "take_piece P now d ig (tr_fs s) = (Inr e, ig', fs')"
    and s': "tr_receiving s' = AList.update i (ig'\<lparr>ig_owed_ack := x\<rparr>) (tr_receiving s)" "tr_sending s' = tr_sending s" "tr_fs s' = fs'"
  shows "proper P s s'"
proof -
  have "recv_ok ig (tr_fs s)" using v ig by (simp add: tr_inv_def)
  from take_piece_step [OF t this ig(2)]
  have p: "fs_next fs' = fs_next (tr_fs s)" "\<forall>m. file_no ig \<noteq> Some m \<longrightarrow> fs_data fs' m = fs_data (tr_fs s) m"
    "recv_ok ig' fs'" "ig_part ig' = ig_part ig \<or> ig_part ig' = None" "entry_step P ig (tr_fs s) ig' fs'" by simp_all
  show ?thesis
    by (rule proper_set_in [OF v s'(1,2)]) (use p s'(3) ig in \<open>auto simp: file_no_def\<close>)
qed

lemma direct_piece_proper:
  assumes v: "tr_inv s"
  shows "proper P s (snd (direct_piece P now i d s))"
proof (cases "incoming_at i s")
  case None
  then show ?thesis using calm_proper [OF calm_refl v] by (simp add: direct_piece_def)
next
  case (Some ig)
  show ?thesis
  proof (cases "is_moving (ig_stage ig)")
    case False
    then show ?thesis using Some calm_proper [OF calm_refl v] by (simp add: direct_piece_def)
  next
    case True
    obtain r jg fs where t: "take_piece P now d ig (tr_fs s) = (r, jg, fs)" by (cases rule: prod_cases3)
    show ?thesis
    proof (cases r)
      case (Inl why)
      have o: "recv_ok ig (tr_fs s)" using v Some by (simp add: tr_inv_def)
      have j: "jg = ig" "same_files (tr_fs s) fs" using take_piece_step [OF t o True] Inl by simp_all
      have "calm s (set_in i ((fst (discard_part ig fs))\<lparr>ig_stage := StageFailed why\<rparr>)
          (s\<lparr>tr_fs := snd (discard_part ig fs)\<rparr>))"
        by (rule calm_set_in(1) [OF Some stopped_quiet(1) [OF moving_not_finished [OF True]]])
          (rule same_files_trans [OF j(2) discard_part_fields(6)])
      then show ?thesis using calm_proper [OF calm_bump v] Some True t Inl j(1)
        by (simp add: direct_piece_def give_up_incoming_def split_beta Let_def)
    next
      case (Inr e)
      show ?thesis
        by (rule piece_proper [OF v Some True t [unfolded Inr], where x = "ig_owed_ack jg"])
          (use Some True t Inr in \<open>simp_all add: direct_piece_def bump_def set_in_def\<close>)
    qed
  qed
qed

lemma on_file_chunk_proper:
  assumes v: "tr_inv s"
  shows "proper P s (on_file_chunk P E body s)"
proof -
  note unchanged = calm_proper [OF calm_refl v]
  show ?thesis
  proof (cases "tr_link s")
    case None
    then show ?thesis using unchanged by (simp add: on_file_chunk_def)
  next
    case l: (Some l)
    show ?thesis
    proof (cases "file_chunk_decode body")
      case (Inl e)
      then show ?thesis using unchanged l by (simp add: on_file_chunk_def)
    next
      case c: (Inr c)
      show ?thesis
      proof (cases "\<exists>ig. incoming_at (fc_offer_id c) s = Some ig \<and> is_moving (ig_stage ig) \<and> \<not> ig_direct ig
          \<and> fc_index c = ig_received ig")
        case False
        then show ?thesis using unchanged l c by (auto simp: on_file_chunk_def split: option.split)
      next
        case True
        then obtain ig where ig: "incoming_at (fc_offer_id c) s = Some ig" "is_moving (ig_stage ig)" "\<not> ig_direct ig"
          "fc_index c = ig_received ig" by blast
        obtain r jg fs where t: "take_piece P (su_now E) (fc_data c) ig (tr_fs s) = (r, jg, fs)" by (cases rule: prod_cases3)
        show ?thesis
        proof (cases r)
          case (Inl why)
          have o: "recv_ok ig (tr_fs s)" using v ig by (simp add: tr_inv_def)
          have j: "jg = ig" "same_files (tr_fs s) fs" using take_piece_step [OF t o ig(2)] Inl by simp_all
          have "calm s (set_in (fc_offer_id c) ((fst (discard_part ig fs))\<lparr>ig_stage := StageFailed why\<rparr>)
              (s\<lparr>tr_link := k, tr_fs := snd (discard_part ig fs)\<rparr>))" for k
            by (rule calm_set_in(2) [OF ig(1) stopped_quiet(1) [OF moving_not_finished [OF ig(2)]]])
              (rule same_files_trans [OF j(2) discard_part_fields(6)])
          then show ?thesis using calm_proper [OF _ v] l c ig t Inl j(1)
            by (simp add: on_file_chunk_def fail_incoming_def split_beta Let_def)
        next
          case (Inr e)
          define st where "st = (case e of None \<Rightarrow> Receiving | Some f \<Rightarrow> f)"
          show ?thesis
            by (rule piece_proper [OF v ig(1,2) t [unfolded Inr],
                  where x = "if fst (send_ack jg (ig_received jg) st l) then None else Some (ig_received jg, st)"])
              (use l c ig t Inr in \<open>simp_all add: on_file_chunk_def set_in_def split_beta Let_def st_def [symmetric]\<close>)
        qed
      qed
    qed
  qed
qed

lemma accept_as_proper:
  assumes v: "tr_inv s"
  shows "proper P s (snd (accept_as P E i fin replace s))"
proof (cases "\<exists>l ig. tr_link s = Some l \<and> incoming_at i s = Some ig \<and> ig_stage ig = Offered")
  case False
  then show ?thesis using calm_proper [OF calm_refl v] by (auto simp: accept_as_def split: option.split)
next
  case True
  then obtain l ig where l: "tr_link s = Some l" and ig: "incoming_at i s = Some ig" "ig_stage ig = Offered" by blast
  obtain f fs where c: "fs_create_new (part_path_for fin) (tr_fs s) = (f, fs)" by fastforce
  show ?thesis
  proof (cases f)
    case None
    have "proper P s (s\<lparr>tr_fs := fs\<rparr>)"
      by (rule proper_grown [OF v]) (use fs_create_None [OF c [unfolded None]] in simp_all)
    then show ?thesis using l ig c None by (simp add: accept_as_def)
  next
    case (Some n)
    note made = fs_create_Some [OF c [unfolded Some]]
    have gone: "proper P s (s\<lparr>tr_link := k, tr_fs := fs_remove_file p fs\<rparr>)" for p k
      by (rule proper_grown [OF v]) (use made fs_remove_same [of fs p] in \<open>simp_all add: same_files_def\<close>)
    have gone': "proper P s (s\<lparr>tr_fs := fs_remove_file p fs\<rparr>)" for p
      using gone [where k = "tr_link s" and p = p] by simp
    define jg where "jg = ig\<lparr>ig_part := Some (n, part_path_for fin, fin), ig_replace := replace, ig_stage := Moving 0,
        ig_moved := su_now E\<rparr>"
    have o: "ig_hasher ig = []" "ig_written ig = 0" using v ig by (auto simp: tr_inv_def recv_ok_def)
    have moved: "proper P s (bump (set_in i jg (s\<lparr>tr_link := k, tr_fs := fs\<rparr>)))" for k
    proof (rule proper_set_in [OF v, where i = i and ig' = jg])
      show "recv_ok jg (tr_fs (bump (set_in i jg (s\<lparr>tr_link := k, tr_fs := fs\<rparr>))))"
        using made o by (simp add: recv_ok_def jg_def bump_def set_in_def del: split_paired_All)
    qed (use made ig in \<open>auto simp: bump_def set_in_def jg_def file_no_def entry_step_def\<close>)
    show ?thesis
      using l ig c Some gone gone' moved
      by (auto simp: accept_as_def split_beta Let_def jg_def split: sum.split)
  qed
qed

lemma on_offer_proper:
  assumes v: "tr_inv s"
  shows "proper P s (snd (on_offer P E body s))"
proof -
  note unchanged = calm_proper [OF calm_refl v]
  have new: "proper P s (set_in i ig s)"
    if "incoming_at i s = None" "ig_stage ig = Offered" "ig_part ig = None" "ig_hasher ig = []" "ig_written ig = 0" for i ig
    by (rule proper_set_in [OF v, where i = i and ig' = ig]) (use that in \<open>auto simp: set_in_def recv_ok_def file_no_def\<close>)
  show ?thesis
    using unchanged by (auto simp: on_offer_def Let_def intro!: new split: option.split sum.split)
qed

lemma hashed_file_proper:
  assumes v: "tr_inv s"
  shows "proper P s (snd (hashed_file P E d p to conn peer s))"
proof -
  obtain h fs where h: "hash_file P p (tr_fs s) = (h, fs)" by fastforce
  then have same: "same_files (tr_fs s) fs" using hash_file_same by blast
  have none: "proper P s (s\<lparr>tr_fs := fs, tr_link := k\<rparr>)" for k
    by (rule calm_proper [OF _ v]) (simp add: calm_def same from_entries_refl)
  have none': "proper P s (s\<lparr>tr_fs := fs\<rparr>)" using none [of "tr_link s"] by simp
  have some: "proper P s (bump (set_out i og (s\<lparr>tr_fs := fs, tr_link := k\<rparr>)))"
    if "og_stage og = Offered" "og_next og = 0" for i og k
    by (rule proper_offered [OF v, where i = i and og = og])
      (use that same in \<open>simp_all add: bump_def set_out_def window_ok_def\<close>)
  have made: "proper P s (snd (make_offer P E d p to conn peer g (s\<lparr>tr_fs := fs\<rparr>)))" for g
    using none none' some by (auto simp: make_offer_def Let_def split: option.split sum.split prod.split)
  have "proper P s t \<Longrightarrow> proper P s (set_preparing to p on t)" for t on
    by (erule proper_fields) (simp_all add: set_preparing_def bump_def)
  then show ?thesis using h none' made by (auto simp: hashed_file_def Let_def split_beta split: sum.split)
qed

lemma on_file_message_proper:
  assumes v: "tr_inv s"
  shows "proper P s (snd (on_file_message P E k body s))"
proof -
  have "proper P s t \<Longrightarrow> proper P s (bump t)" for t by (erule proper_fields) (simp_all add: bump_def)
  then show ?thesis
    using on_offer_proper [OF v] on_file_chunk_proper [OF v] calm_proper [OF _ v] on_answer_calm on_ack_calm word_calm calm_refl
    by (cases k) (simp_all add: on_file_message_def split_beta Let_def)
qed

lemma t_step_proper:
  assumes v: "tr_inv s"
  shows "proper P s (t_step P s e)"
proof (cases e)
  case (TElsewhere p c)
  show ?thesis unfolding TElsewhere t_step.simps
    by (rule proper_grown [OF v]) (auto simp: elsewhere_def split: option.split)
next
  case (TFaults bs)
  show ?thesis unfolding TFaults t_step.simps by (rule proper_grown [OF v]) simp_all
next
  case (TAccept E i folder)
  then show ?thesis
    using accept_as_proper [OF v] calm_proper [OF calm_refl v] by (auto simp: accept_file_def split: option.split)
qed (use calm_proper [OF _ v] simple_calm tr_connected_calm clear_finished_calm answer_through_relay_calm direct_out_calm
      direct_in_calm decline_calm cancel_calm cancel_to_calm tick_calm calm_map_link calm_updates
      accept_as_proper [OF v] direct_piece_proper [OF v] hashed_file_proper [OF v] on_file_message_proper [OF v]
    in \<open>simp_all only: t_step.simps\<close>)

interpretation transferring: machine "t_step P" tr_inv for P
  by unfold_locales (use t_step_proper in \<open>auto simp: proper_def\<close>)

lemma transfers_default_inv: "tr_inv (transfers_default r fs)"
  by (simp add: tr_inv_def transfers_default_def incoming_at_def outgoing_at_def)

end
