(* ===== verification/Transfers_Theorems.thy ===== *)
theory Transfers_Theorems
  imports Transfers_Props
begin

text \<open>
  The properties of the transfers, over every run of their operations from an empty state, whatever the
  device list, the files and the failures of the file system.
\<close>

abbreviation t_run :: "prims \<Rightarrow> registry \<Rightarrow> fsys \<Rightarrow> t_event list \<Rightarrow> transfers" where
  "t_run P r fs es \<equiv> foldl (t_step P) (transfers_default r fs) es"

lemma t_run_inv: "tr_inv (t_run P r fs es)"
  by (rule transferring.run_inv [OF transfers_default_inv])

lemma listed_entry:
  assumes "tr_inv s"
  shows "p \<in> set (tr_receiving s) \<Longrightarrow> incoming_at (fst p) s = Some (snd p)"
    "q \<in> set (tr_sending s) \<Longrightarrow> outgoing_at (fst q) s = Some (snd q)"
  using assms by (simp_all add: tr_inv_def incoming_at_def outgoing_at_def hmap_ok_def hkeys_def)

section \<open>Over is over\<close>

definition over_received :: "transfers \<Rightarrow> (bytes \<times> stage) set" where
  "over_received s = {(i, ig_stage ig) |i ig. incoming_at i s = Some ig \<and> finished (ig_stage ig)}"

definition over_sent :: "transfers \<Rightarrow> (bytes \<times> stage) set" where
  "over_sent s = {(i, og_stage og) |i og. outgoing_at i s = Some og \<and> finished (og_stage og)}"

definition listed_received :: "transfers \<Rightarrow> bytes set" where
  "listed_received s = {i. incoming_at i s \<noteq> None}"

text \<open>Sent files that are listed and not offered anew under the same id.\<close>

definition listed_sent :: "transfers \<Rightarrow> bytes set" where
  "listed_sent s = {i. \<exists>og. outgoing_at i s = Some og \<and> og_stage og \<noteq> Offered}"


section \<open>Temporary files\<close>

text \<open>C24: A temporary file is held exactly while its pieces are moving, from the moment the person accepts to the
  end of the transfer, however it ends; no two transfers hold the same file; what it holds is what was
  hashed.\<close>

theorem temporary_file_while_moving:
  "list_all (\<lambda>p. (ig_part (snd p) \<noteq> None) = is_moving (ig_stage (snd p))) (tr_receiving (t_run P r fs es))
   \<and> distinct (List.map_filter (\<lambda>p. file_no (snd p)) (tr_receiving (t_run P r fs es)))
   \<and> list_all (\<lambda>p. case ig_part (snd p) of None \<Rightarrow> True
        | Some (n, part, fin) \<Rightarrow> fs_data (tr_fs (t_run P r fs es)) n = ig_hasher (snd p) \<and> part = part_path_for fin)
       (tr_receiving (t_run P r fs es))"
proof -
  define s where "s = t_run P r fs es"
  have v: "tr_inv s" unfolding s_def by (rule t_run_inv)
  then have d: "distinct (map fst (tr_receiving s))" by (simp add: tr_inv_def hmap_ok_def hkeys_def)
  have ok: "recv_ok (snd p) (tr_fs s)" if "p \<in> set (tr_receiving s)" for p
    using v listed_entry(1) [OF v that] unfolding tr_inv_def by blast
  have same: "p = q" if "p \<in> set (tr_receiving s)" "q \<in> set (tr_receiving s)" "file_no (snd p) = Some n" "file_no (snd q) = Some n"
    for p q n
  proof -
    note e = listed_entry(1) [OF v that(1)] listed_entry(1) [OF v that(2)]
    then have "fst p = fst q" using v that(3,4) unfolding tr_inv_def by blast
    then show ?thesis using e by (simp add: prod_eq_iff)
  qed
  have "distinct (List.map_filter (\<lambda>p. file_no (snd p)) xs)"
    if "distinct xs" "set xs \<subseteq> set (tr_receiving s)" for xs
    using that
  proof (induction xs)
    case (Cons p xs)
    have "n \<notin> set (List.map_filter (\<lambda>p. file_no (snd p)) xs)" if "file_no (snd p) = Some n" for n
      using Cons.prems same [of p _ n] that by (auto simp: List.map_filter_def)
    then show ?case using Cons by (auto simp: List.map_filter_simps split: option.split)
  qed (simp add: List.map_filter_simps)
  moreover have "distinct (tr_receiving s)" using d by (simp add: distinct_map)
  moreover have "case ig_part (snd p) of None \<Rightarrow> True
        | Some (n, part, fin) \<Rightarrow> fs_data (tr_fs s) n = ig_hasher (snd p) \<and> part = part_path_for fin"
    if "p \<in> set (tr_receiving s)" for p
    using ok [OF that] unfolding recv_ok_def by (auto split: option.split prod.split simp del: split_paired_All)
  moreover have "(ig_part (snd p) \<noteq> None) = is_moving (ig_stage (snd p))" if "p \<in> set (tr_receiving s)" for p
    using ok [OF that] unfolding recv_ok_def by blast
  ultimately show ?thesis unfolding list_all_iff s_def [symmetric] by blast
qed

section \<open>The window\<close>


section \<open>What is kept\<close>


section \<open>A file arrives whole\<close>

text \<open>The receiver takes pieces until one of them ends the transfer.\<close>

fun take_all :: "prims \<Rightarrow> instant \<Rightarrow> bytes list \<Rightarrow> incoming_file \<Rightarrow> fsys \<Rightarrow> (string + ack_state option) \<times> incoming_file \<times> fsys" where
  "take_all P now [] ig fs = (Inr None, ig, fs)"
| "take_all P now (d # ds) ig fs =
     (case take_piece P now d ig fs of (Inr None, ig, fs) \<Rightarrow> take_all P now ds ig fs | r \<Rightarrow> r)"

text \<open>What the sender reads for each piece of an offer.\<close>

definition pieces_of :: "offer \<Rightarrow> path \<Rightarrow> fsys \<Rightarrow> bytes list" where
  "pieces_of f p fs =
     map (\<lambda>k. case fst (read_chunk p (of_nat k) (o_chunk_bytes f) fs) of Some d \<Rightarrow> d | None \<Rightarrow> [])
       [0..<unat (chunk_count f)]"

text \<open>An offer of a file with these bytes, as \<open>make_offer\<close> fills it in.\<close>

definition offer_of :: "prims \<Rightarrow> offer \<Rightarrow> bytes \<Rightarrow> bool" where
  "offer_of P f d \<longleftrightarrow> o_chunk_bytes f = CHUNK_BYTES \<and> o_size f = of_nat (length d) \<and> o_sha256 f = p_sha256 P d
     \<and> length d \<le> unat MAX_FILE_BYTES"

lemma offer_ofD:
  assumes "offer_of P f d"
  shows "o_chunk_bytes f = CHUNK_BYTES" "o_sha256 f = p_sha256 P d" "length d \<le> 4294967296" "unat (o_size f) = length d"
proof -
  show small: "length d \<le> 4294967296" using assms by (simp add: offer_of_def MAX_FILE_BYTES_def)
  show "o_chunk_bytes f = CHUNK_BYTES" "o_sha256 f = p_sha256 P d" using assms by (simp_all add: offer_of_def)
  show "unat (o_size f) = length d" using assms small by (simp add: offer_of_def unat_of_nat)
qed

lemma pieces_count:
  assumes "offer_of P f d"
  defines "n \<equiv> unat (chunk_count f)"
  shows "1 \<le> n" "length d \<le> n * 262144" "d \<noteq> [] \<Longrightarrow> (n - 1) * 262144 < length d" "n \<le> 16384"
proof -
  note o = offer_ofD [OF assms(1)]
  have m: "n = max (if 0 < length d mod 262144 then length d div 262144 + 1 else length d div 262144) 1"
    unfolding n_def using unat_chunk_count [of f] by (simp add: o unat_CHUNK_BYTES Let_def) (simp add: CHUNK_BYTES_def)
  have "0 < (262144 :: nat)" by simp
  from ceil_covers [OF this m]
  show a: "1 \<le> n" "length d \<le> n * 262144" "d \<noteq> [] \<Longrightarrow> (n - 1) * 262144 < length d" by auto
  show "n \<le> 16384" using a o(3) m by (cases "d = []") auto
qed

lemma piece_number: "offer_of P f d \<Longrightarrow> k \<le> unat (chunk_count f) \<Longrightarrow> unat (of_nat k :: u32) = k"
  using pieces_count(4) [of P f d] by (simp add: unat_of_nat)

lemma piece_length:
  assumes "offer_of P f d" "k < unat (chunk_count f)"
  shows "piece_len f (of_nat k) = min (length d - k * 262144) 262144"
proof -
  note o = offer_ofD [OF assms(1)]
  have i: "unat (ucast (of_nat k :: u32) :: u64) = k" using piece_number [OF assms(1), of k] assms(2) by (simp add: unat_ucast_chunk)
  have c: "unat (ucast CHUNK_BYTES :: u64) = 262144" by (simp add: CHUNK_BYTES_def)
  have "unat (ucast (of_nat k :: u32) * ucast CHUNK_BYTES :: u64) = k * 262144"
    using assms(2) pieces_count(4) [OF assms(1)] i c by (simp add: unat_word_ariths)
  then show ?thesis by (simp add: piece_len_def o(1) Let_def min_def word_le_nat_alt unat_sat_sub o(4) c)
qed

text \<open>The piece at a place, and what the receiver holds after as many pieces.\<close>

definition piece_at :: "bytes \<Rightarrow> nat \<Rightarrow> bytes" where
  "piece_at d k = take 262144 (drop (k * 262144) d)"

definition has_pieces :: "offer \<Rightarrow> bytes \<Rightarrow> nat \<Rightarrow> nat \<Rightarrow> path \<Rightarrow> path \<Rightarrow> incoming_file \<Rightarrow> fsys \<Rightarrow> bool" where
  "has_pieces f d k n part fin ig fs \<longleftrightarrow>
     ig_offer ig = f \<and> ig_part ig = Some (n, part, fin) \<and> ig_hasher ig = take (k * 262144) d
     \<and> ig_received ig = of_nat k \<and> ig_written ig = of_nat (length (ig_hasher ig))
     \<and> fs_data fs n = ig_hasher ig \<and> fs_dir fs part = Some n \<and> fs_faults fs = []
     \<and> (fs_dir fs fin = None \<or> ig_replace ig)"

lemma has_pieces_stage: "has_pieces f d k n part fin (ig\<lparr>ig_stage := st\<rparr>) fs = has_pieces f d k n part fin ig fs"
  by (simp add: has_pieces_def)

lemma take_piece_at: "take (k * 262144) d @ piece_at d k = take (Suc k * 262144) d"
  by (simp add: piece_at_def take_add [symmetric] add.commute)

lemma piece_accepted:
  fixes now :: instant
  assumes o: "offer_of P f d" and h: "has_pieces f d k n part fin ig fs" and k: "k < unat (chunk_count f)"
  defines "jg \<equiv> ig\<lparr>ig_hasher := ig_hasher ig @ piece_at d k, ig_received := ig_received ig + 1, ig_moved := now,
      ig_written := ig_written ig + of_nat (length (piece_at d k))\<rparr>"
    and "gs \<equiv> fs\<lparr>fs_data := (fs_data fs)(n := ig_hasher ig @ piece_at d k)\<rparr>"
  shows "take_piece P now (piece_at d k) ig fs =
      (if Suc k = unat (chunk_count f)
       then let (st, kg, fs) = finish_incoming P jg gs in (Inr (Some st), kg, fs)
       else (Inr None, jg\<lparr>ig_stage := Moving (ig_received jg)\<rparr>, gs))"
    and "has_pieces f d (Suc k) n part fin jg gs"
proof -
  have len: "length (piece_at d k) = piece_len f (of_nat k)"
    using piece_length [OF o k] by (simp add: piece_at_def min.commute)
  have i: "unat (of_nat k :: u32) = k" "unat (of_nat (Suc k) :: u32) = Suc k"
    using piece_number [OF o, of k] piece_number [OF o, of "Suc k"] k by (simp_all del: of_nat_Suc)
  then have "\<not> chunk_count f \<le> ucast (of_nat k :: u32)"
    using k by (simp add: word_le_nat_alt unat_ucast_chunk)
  moreover have "(ucast (of_nat (Suc k) :: u32) = chunk_count f) = (Suc k = unat (chunk_count f))"
    using i(2) by (metis unat_ucast_chunk word_unat_eq_iff)
  moreover have "fs_write_all n (piece_at d k) fs = (True, gs)"
    using h by (simp add: fs_write_all_def fs_fault_def has_pieces_def gs_def)
  ultimately show "take_piece P now (piece_at d k) ig fs =
      (if Suc k = unat (chunk_count f)
       then let (st, kg, fs) = finish_incoming P jg gs in (Inr (Some st), kg, fs)
       else (Inr None, jg\<lparr>ig_stage := Moving (ig_received jg)\<rparr>, gs))"
    using h len by (simp add: take_piece_def has_pieces_def jg_def Let_def add.commute)
  have "of_nat (length (take (k * 262144) d)) + of_nat (length (piece_at d k))
      = (of_nat (length (take (Suc k * 262144) d)) :: u64)"
    by (simp only: of_nat_add [symmetric] length_append [symmetric] take_piece_at)
  then show "has_pieces f d (Suc k) n part fin jg gs"
    using h take_piece_at [of k d] unfolding has_pieces_def jg_def gs_def
    by (simp del: length_take add: add.commute)
qed

lemma all_pieces_kept:
  assumes o: "offer_of P f d" and h: "has_pieces f d k n part fin ig fs" and k: "k = unat (chunk_count f)"
  shows "\<exists>kg gs. finish_incoming P ig fs = (ack_state.Done, kg, gs) \<and> ig_stage kg = StageDone (Some fin)
    \<and> fs_dir gs fin = Some n \<and> fs_data gs n = d"
proof -
  note q = offer_ofD [OF o]
  have "take (k * 262144) d = d" using pieces_count(2) [OF o] k by simp
  then have w: "ig_hasher ig = d" "ig_written ig = o_size f" "fs_data fs n = d" "ig_offer ig = f"
    "ig_part ig = Some (n, part, fin)" "fs_dir fs part = Some n" "fs_faults fs = []"
    "fs_there fs fin \<longrightarrow> ig_replace ig"
    using h o by (auto simp: has_pieces_def offer_of_def fs_there_def)
  then show ?thesis
    using q(2) by (auto simp: finish_incoming_def Let_def fs_sync_all_def fs_fault_def fs_rename_def)
qed

lemma pieces_rebuild:
  assumes o: "offer_of P f d" and h: "has_pieces f d k n part fin ig fs" and k: "k < unat (chunk_count f)"
  shows "\<exists>kg gs. take_all P now (map (piece_at d) [k..<unat (chunk_count f)]) ig fs = (Inr (Some ack_state.Done), kg, gs)
    \<and> ig_stage kg = StageDone (Some fin) \<and> fs_dir gs fin = Some n \<and> fs_data gs n = d"
  using h k
proof (induction "unat (chunk_count f) - k" arbitrary: k ig fs)
  case 0
  then show ?case by simp
next
  case (Suc m)
  have list: "[k..<unat (chunk_count f)] = k # [Suc k..<unat (chunk_count f)]" using Suc.prems(2) by (rule upt_conv_Cons)
  note step = piece_accepted [OF o Suc.prems(1,2), of now]
  define jg gs where "jg = ig\<lparr>ig_hasher := ig_hasher ig @ piece_at d k, ig_received := ig_received ig + 1,
      ig_moved := now, ig_written := ig_written ig + of_nat (length (piece_at d k))\<rparr>"
    and "gs = fs\<lparr>fs_data := (fs_data fs)(n := ig_hasher ig @ piece_at d k)\<rparr>"
  show ?case
  proof (cases "Suc k = unat (chunk_count f)")
    case True
    obtain kg hs where "finish_incoming P jg gs = (ack_state.Done, kg, hs)" "ig_stage kg = StageDone (Some fin)"
      "fs_dir hs fin = Some n" "fs_data hs n = d"
      using all_pieces_kept [OF o step(2) True] unfolding jg_def gs_def by blast
    then show ?thesis unfolding list using step(1) True by (simp add: jg_def gs_def)
  next
    case False
    have "has_pieces f d (Suc k) n part fin (jg\<lparr>ig_stage := Moving (ig_received jg)\<rparr>) gs"
      using step(2) by (simp only: jg_def [symmetric] gs_def [symmetric] has_pieces_stage)
    from Suc.hyps(1) [OF _ this] Suc.hyps(2) Suc.prems(2) False
    show ?thesis unfolding list using step(1) by (simp add: jg_def gs_def)
  qed
qed

lemma pieces_of_file:
  assumes "offer_of P f d" "fs_dir src p = Some m" "fs_data src m = d" "fs_faults src = []"
  shows "pieces_of f p src = map (piece_at d) [0..<unat (chunk_count f)]"
  using assms piece_number [OF assms(1)] offer_ofD(1) [OF assms(1)]
  by (auto simp: pieces_of_def read_chunk_def fs_read_def fs_fault_def piece_at_def unat_CHUNK_BYTES)

text \<open>C20: A file arrives whole: when the receiver, ready for an accepted offer, takes in order the pieces the
  sender reads of a file of up to 4 GiB, the last one ends the transfer, and the file is under the chosen name
  with the bytes of the original, the empty file included.\<close>

theorem file_arrives_whole:
  assumes "offer_of P f d" "fs_dir src p = Some m" "fs_data src m = d" "fs_faults src = []"
    and "has_pieces f d 0 n part fin ig fs"
  shows "\<exists>kg gs. take_all P now (pieces_of f p src) ig fs = (Inr (Some ack_state.Done), kg, gs)
    \<and> ig_stage kg = StageDone (Some fin) \<and> fs_dir gs fin = Some n \<and> fs_data gs n = d"
  unfolding pieces_of_file [OF assms(1-4)]
  by (rule pieces_rebuild [OF assms(1,5)]) (use pieces_count(1) [OF assms(1)] in simp)

section \<open>What is believed\<close>

lemma pinned_by_id_Some: "pinned_by_id i s = Some k \<Longrightarrow> k \<in> set (pinned (tr_devices s)) \<and> kd_device_id k = i"
  by (auto simp: pinned_by_id_def find_Some_iff)


lemma answer_claims_its_sender:
  assumes "answer_decode P body rm spub = Inr a"
  shows "answer_claimed_sender body = Inr (a_from_device_id a)"
    "\<exists>sig. body = put_answer a @ sig \<and> signed_by P spub LABEL_ANSWER rm (put_answer a) sig"
proof -
  have "answer_ok a" and b: "\<exists>sig. body = put_answer a @ sig \<and> signed_by P spub LABEL_ANSWER rm (put_answer a) sig"
    using assms unfolding answer_decode_def answer_codec.decode_iff by blast+
  then show "answer_claimed_sender body = Inr (a_from_device_id a)"
    by (auto simp: answer_claimed_sender_def put_answer_def answer_ok_def file_run)
  show "\<exists>sig. body = put_answer a @ sig \<and> signed_by P spub LABEL_ANSWER rm (put_answer a) sig" by (rule b)
qed

text \<open>C23: Only the device a file was offered to can answer the offer: an answer that changes anything about what is
  sent was signed under the key pinned for that device, and the offer was still open, or going directly.\<close>

theorem answer_only_from_offered_device:
  assumes "tr_sending (snd (on_file_message P E FileAnswer body s)) \<noteq> tr_sending s"
  shows "\<exists>l dev a sig og. tr_link s = Some l \<and> dev \<in> set (pinned (tr_devices s))
    \<and> body = put_answer a @ sig \<and> signed_by P (kd_sign_pub dev) LABEL_ANSWER (lk_room l) (put_answer a) sig
    \<and> a_from_device_id a = kd_device_id dev \<and> outgoing_at (a_offer_id a) s = Some og
    \<and> o_to_device_id (og_offer og) = kd_device_id dev
    \<and> (og_stage og = Offered \<or> (og_direct og \<and> \<not> finished (og_stage og)))"
proof -
  have n: "tr_sending (on_answer P E body s) \<noteq> tr_sending s"
    using assms by (simp add: on_file_message_def bump_def)
  obtain l where l: "tr_link s = Some l" using n by (cases "tr_link s") (auto simp: on_answer_def)
  obtain from' where c: "answer_claimed_sender body = Inr from'"
    using n l by (cases "answer_claimed_sender body") (auto simp: on_answer_def)
  obtain dev where d: "pinned_by_id from' s = Some dev"
    using n l c by (cases "pinned_by_id from' s") (auto simp: on_answer_def)
  obtain a where a: "answer_decode P body (lk_room l) (kd_sign_pub dev) = Inr a"
    using n l c d by (cases "answer_decode P body (lk_room l) (kd_sign_pub dev)") (auto simp: on_answer_def)
  obtain og where og: "outgoing_at (a_offer_id a) s = Some og"
    using n l c d a by (cases "outgoing_at (a_offer_id a) s") (auto simp: on_answer_def)
  have "o_to_device_id (og_offer og) = a_from_device_id a \<and> (og_stage og = Offered \<or> (og_direct og \<and> \<not> finished (og_stage og)))"
  proof (rule ccontr)
    assume "\<not> ?thesis"
    then have "on_answer P E body s = s" using l c d a og unfolding on_answer_def Let_def by auto
    then show False using n by simp
  qed
  then show ?thesis
    using pinned_by_id_Some [OF d] answer_claims_its_sender [OF a] c l og by (metis sum.inject(2))
qed

section \<open>The pace\<close>

fun pace_after :: "(nat \<times> instant) list \<Rightarrow> file_pace \<Rightarrow> file_pace" where
  "pace_after [] p = p"
| "pace_after ((n, t) # rs) p = pace_after rs (snd (pace_take n t p))"

text \<open>The bytes that a run of requests got.\<close>

fun pace_granted :: "(nat \<times> instant) list \<Rightarrow> file_pace \<Rightarrow> nat" where
  "pace_granted [] p = 0"
| "pace_granted ((n, t) # rs) p =
     (let (ok, q) = pace_take n t p in (if ok then n else 0) + pace_granted rs q)"

definition pace_ok :: "file_pace \<Rightarrow> bool" where
  "pace_ok p \<longleftrightarrow> (case pa_at p of None \<Rightarrow> True | Some _ \<Rightarrow> 0 \<le> pa_tokens p)"

lemma pace_constants [simp]: "0 < FILE_PACE_BURST" "0 < PACE_BYTES_PER_SEC"
  by (simp_all add: FILE_PACE_BURST_def PACE_BYTES_PER_SEC_def)

lemma topped_up_range: "pace_ok p \<Longrightarrow> 0 \<le> topped_up t p \<and> topped_up t p \<le> FILE_PACE_BURST"
  by (auto simp: topped_up_def pace_ok_def less_imp_le split: option.splits)

lemma pace_take_cases:
  assumes "pace_ok p"
  shows "pace_ok (snd (pace_take n t p))" "pa_at (snd (pace_take n t p)) = Some t"
    "of_nat (if fst (pace_take n t p) then n else 0) + pa_tokens (snd (pace_take n t p)) = topped_up t p"
  using topped_up_range [OF assms, of t] by (auto simp: pace_take_def pace_ok_def Let_def)

lemma pace_after_ok: "pace_ok p \<Longrightarrow> pace_ok (pace_after rs p)"
  by (induction rs p rule: pace_after.induct) (simp_all add: pace_take_cases)

text \<open>The tokens that come back in a stretch of time.\<close>

definition refill :: "nat \<Rightarrow> rat" where
  "refill d = of_nat d / 10 ^ 9 * PACE_BYTES_PER_SEC"

lemma refill_split:
  assumes "t \<le> u" "u \<le> e"
  shows "refill (e - t) = refill (u - t) + refill (e - u)"
proof -
  have "(of_nat (e - t) :: rat) = of_nat (u - t) + of_nat (e - u)" using assms by (simp add: of_nat_diff)
  then show ?thesis by (simp add: refill_def add_divide_distrib distrib_right)
qed

lemma pace_granted_bound:
  assumes "pace_ok p" "pa_at p = Some t" "sorted (t # map snd rs)"
  shows "of_nat (pace_granted rs p) \<le> pa_tokens p + refill (last (t # map snd rs) - t)"
  using assms
proof (induction rs arbitrary: p t)
  case Nil
  then show ?case by (simp add: pace_ok_def refill_def)
next
  case (Cons r rs)
  obtain n u where r: "r = (n, u)" by (cases r)
  define q where "q = snd (pace_take n u p)"
  define e where "e = last (u # map snd rs)"
  note c = pace_take_cases [OF Cons.prems(1), of n u]
  have "of_nat (pace_granted rs q) \<le> pa_tokens q + refill (e - u)"
    unfolding q_def e_def by (rule Cons.IH) (use c Cons.prems(3) r in auto)
  moreover have "of_nat (pace_granted (r # rs) p) = of_nat (if fst (pace_take n u p) then n else 0) + (of_nat (pace_granted rs q) :: rat)"
    by (simp add: r q_def split_beta Let_def)
  moreover have "topped_up u p \<le> pa_tokens p + refill (u - t)"
    using Cons.prems(2) by (simp add: topped_up_def refill_def)
  moreover have tu: "t \<le> u" "u \<le> e" using Cons.prems(3) r last_in_set [of "map snd rs"] by (fastforce simp: e_def)+
  have "refill (e - t) = refill (u - t) + refill (e - u)" by (rule refill_split [OF tu])
  moreover have "last (t # map snd (r # rs)) = e" by (simp add: r e_def)
  ultimately show ?case using c(3) unfolding q_def by simp
qed

text \<open>The sender stays under the relay's byte rate: over any stretch of time, however the pieces of all
  transfers ask for their turn, it sends at most the burst of 2 MiB and 5 MiB for each second that
  passed.\<close>

theorem pace_bounds_bytes:
  assumes "sorted (map snd (before @ (n, t) # stretch))"
  shows "of_nat (pace_granted ((n, t) # stretch) (pace_after before \<lparr>pa_tokens = 0, pa_at = None\<rparr>))
    \<le> FILE_PACE_BURST + of_nat (last (t # map snd stretch) - t) / 10 ^ 9 * PACE_BYTES_PER_SEC"
proof -
  define p where "p = pace_after before \<lparr>pa_tokens = 0, pa_at = None\<rparr>"
  have p: "pace_ok p" unfolding p_def by (rule pace_after_ok) (simp add: pace_ok_def)
  define q where "q = snd (pace_take n t p)"
  note c = pace_take_cases [OF p, of n t]
  have "of_nat (pace_granted stretch q) \<le> pa_tokens q + refill (last (t # map snd stretch) - t)"
    unfolding q_def by (rule pace_granted_bound) (use c assms in \<open>auto simp: sorted_append\<close>)
  moreover have "of_nat (pace_granted ((n, t) # stretch) p) = of_nat (if fst (pace_take n t p) then n else 0) + (of_nat (pace_granted stretch q) :: rat)"
    by (simp add: q_def split_beta Let_def)
  ultimately show ?thesis using c(3) topped_up_range [OF p, of t] unfolding p_def [symmetric] q_def refill_def [symmetric] by simp
qed

section \<open>Witnesses\<close>

definition ex_data :: bytes where "ex_data = [1, 2]"

definition ex_small :: offer where
  "ex_small = ex_offer\<lparr>o_size := 2, o_sha256 := p_sha256 toy_prims ex_data\<rparr>"

definition ex_in :: incoming_file where
  "ex_in = \<lparr>ig_offer = ex_small, ig_peer = [], ig_part = Some (0, part_path_for ([], [97]), ([], [97])), ig_hasher = [],
     ig_received = 0, ig_written = 0, ig_stage = Moving 0, ig_moved = 0, ig_direct = True, ig_replace = False,
     ig_gone_since = None, ig_owed_ack = None\<rparr>"

definition ex_disk :: fsys where
  "ex_disk = \<lparr>fs_dir = (\<lambda>p. if p = part_path_for ([], [97]) then Some 0 else None), fs_data = (\<lambda>n. []),
     fs_next = 1, fs_faults = []\<rparr>"

definition ex_source :: fsys where
  "ex_source = \<lparr>fs_dir = (\<lambda>p. if p = ([], [98]) then Some 4 else None), fs_data = (\<lambda>n. ex_data),
     fs_next = 5, fs_faults = []\<rparr>"

definition ex_receiving :: transfers where
  "ex_receiving = (transfers_default (registry_default None) ex_disk)\<lparr>tr_receiving := [([7], ex_in)]\<rparr>"

lemma ex_offer_of: "offer_of toy_prims ex_small ex_data"
  by (simp add: offer_of_def ex_small_def ex_offer_def ex_data_def CHUNK_BYTES_def MAX_FILE_BYTES_def)

lemma ex_part_other: "part_path_for ([], [97]) \<noteq> ([], [97])"
  by (simp add: part_path_for_def ulit_def)

lemma ex_has_pieces: "has_pieces ex_small ex_data 0 0 (part_path_for ([], [97])) ([], [97]) ex_in ex_disk"
  using ex_part_other by (auto simp: has_pieces_def ex_in_def ex_disk_def)

lemma file_arrives_whole_witness:
  "\<exists>kg gs. take_all toy_prims 9 (pieces_of ex_small ([], [98]) ex_source) ex_in ex_disk = (Inr (Some ack_state.Done), kg, gs)
    \<and> ig_stage kg = StageDone (Some ([], [97])) \<and> fs_dir gs ([], [97]) = Some 0 \<and> fs_data gs 0 = [1, 2]"
proof -
  have "fs_dir ex_source ([], [98]) = Some 4" "fs_data ex_source 4 = ex_data" "fs_faults ex_source = []"
    by (simp_all add: ex_source_def)
  from file_arrives_whole [OF ex_offer_of this ex_has_pieces, of 9] show ?thesis by (simp add: ex_data_def)
qed

lemma ex_receiving_inv: "tr_inv ex_receiving"
  by (simp add: tr_inv_def ex_receiving_def transfers_default_def incoming_at_def outgoing_at_def hmap_ok_def hkeys_def
      recv_ok_def ex_in_def ex_disk_def del: split_paired_All)

lemma ex_taken:
  "\<exists>kg. incoming_at [7] (t_step toy_prims ex_receiving (TPiece 9 [7] ex_data)) = Some kg
    \<and> ig_stage kg = StageDone (Some ([], [97]))"
proof -
  have c: "unat (chunk_count ex_small) = 1"
    using unat_chunk_count [of ex_small] by (simp add: ex_small_def ex_offer_def)
  have p: "piece_at ex_data 0 = ex_data" by (simp add: piece_at_def ex_data_def)
  note t = piece_accepted [OF ex_offer_of ex_has_pieces, of 9, unfolded p c, simplified]
  obtain kg gs where "take_piece toy_prims 9 ex_data ex_in ex_disk = (Inr (Some ack_state.Done), kg, gs)"
    "ig_stage kg = StageDone (Some ([], [97]))"
    using all_pieces_kept [OF ex_offer_of t(2)] c t(1) by auto
  moreover have "incoming_at [7] ex_receiving = Some ex_in" "tr_fs ex_receiving = ex_disk" "is_moving (ig_stage ex_in)"
    by (simp_all add: ex_receiving_def transfers_default_def incoming_at_def ex_in_def)
  ultimately show ?thesis by (simp add: direct_piece_def bump_def set_in_def incoming_at_def)
qed


lemma pace_bounds_bytes_witness:
  "(of_nat (pace_granted [(2097152, 5), (262144, 5), (262144, 1000000005)] \<lparr>pa_tokens = 0, pa_at = None\<rparr>) :: rat)
    \<le> FILE_PACE_BURST + PACE_BYTES_PER_SEC"
  using pace_bounds_bytes [of "[]" 2097152 5 "[(262144, 5), (262144, 1000000005)]"] by simp

text \<open>A room with one pinned device, which the messages are from.\<close>

definition ex_peer :: "bytes \<Rightarrow> ustr \<times> dev_entry" where
  "ex_peer i = (hex i, \<lparr>de_sign_pub = hex (sign_pub toy_prims ex_keys), de_box_pub = hex (box_pub toy_prims ex_keys),
     de_name = [65], de_os = [66], de_last_seen_ms = 0, de_version = [], de_build = 0\<rparr>)"

definition ex_linked :: "bytes \<Rightarrow> bytes \<Rightarrow> transfers" where
  "ex_linked me other = (transfers_default (set_devices [ex_peer other] (registry_default None)) ex_disk)
     \<lparr>tr_link := Some \<lparr>lk_queue = [], lk_capacity = 8, lk_device_secret = [], lk_device_id = me, lk_room = [7],
        lk_conn_id = None\<rparr>\<rparr>"

definition ex_moment :: surroundings where
  "ex_moment = \<lparr>su_now = 9, su_now_ms = 6, su_version = [], su_saves = True\<rparr>"

definition ex_sent :: outgoing_file where
  "ex_sent = \<lparr>og_offer = ex_offer, og_path = ([], [97]), og_peer = [65], og_to = None, og_next = 0, og_acked = 0,
     og_stage = Offered, og_moved = 5, og_direct = False, og_offered_to = [], og_gone_since = None\<rparr>"

lemma ex_pinned:
  assumes "length i = 16" "length me = 16"
  shows "\<exists>k. pinned_by_id i (ex_linked me i) = Some k \<and> kd_device_id k = i \<and> kd_name k = [65]
    \<and> kd_sign_pub k = sign_pub toy_prims ex_keys"
proof -
  have "length (sign_pub toy_prims ex_keys) = 32" "length (box_pub toy_prims ex_keys) = 32"
    by (simp_all add: sign_pub_def box_pub_def toy_prims_def)
  then show ?thesis using assms
    by (simp add: pinned_by_id_def ex_linked_def transfers_default_def pinned_def ex_peer_def pinned_entry_def
        List.map_filter_simps set_devices_def registry_default_def)
qed


lemma answer_only_from_offered_device_witness:
  "\<exists>body. tr_sending (snd (on_file_message toy_prims ex_moment FileAnswer body
        ((ex_linked (replicate 16 2) (replicate 16 3))\<lparr>tr_sending := [(replicate 16 1, ex_sent)]\<rparr>)))
      = [(replicate 16 1, ex_sent\<lparr>og_stage := StageDeclined\<rparr>)]
    \<and> (\<exists>sig a (dev :: known_device). body = put_answer a @ sig \<and> a_from_device_id a = kd_device_id dev
        \<and> signed_by toy_prims (kd_sign_pub dev) LABEL_ANSWER [7] (put_answer a) sig)" (is "\<exists>body. ?goal body")
proof -
  define s where "s = (ex_linked (replicate 16 2) (replicate 16 3))\<lparr>tr_sending := [(replicate 16 1, ex_sent)]\<rparr>"
  define a where "a = ex_answer\<lparr>a_accepted := False\<rparr>"
  define body where "body = file_sign toy_prims ex_keys LABEL_ANSWER [7] (put_answer a)"
  have "answer_ok a" using ex_file_ok(2) by (simp add: a_def answer_ok_def)
  then have d: "answer_decode toy_prims body [7] (sign_pub toy_prims ex_keys) = Inr a"
    unfolding answer_decode_def by (intro answer_codec.decode_signed) (use toy_ok(3) in \<open>simp_all add: body_def\<close>)
  then have c: "answer_claimed_sender body = Inr (replicate 16 3)"
    using answer_claims_its_sender(1) by (fastforce simp: a_def ex_answer_def)
  obtain k where k: "pinned_by_id (replicate 16 3) (ex_linked (replicate 16 2) (replicate 16 3)) = Some k"
    "kd_sign_pub k = sign_pub toy_prims ex_keys" using ex_pinned [of "replicate 16 3" "replicate 16 2"] by auto
  have k': "pinned_by_id (replicate 16 3) s = Some k" using k(1) by (simp add: pinned_by_id_def s_def)
  obtain l where l: "tr_link s = Some l" "lk_room l = [7]" by (simp add: ex_linked_def s_def)
  have o: "outgoing_at (a_offer_id a) s = Some ex_sent" "o_to_device_id (og_offer ex_sent) = a_from_device_id a"
    "og_stage ex_sent = Offered" "\<not> og_direct ex_sent" "\<not> a_accepted a"
    "AList.update (a_offer_id a) x (tr_sending s) = [(replicate 16 1, x)]" for x
    by (simp_all add: s_def a_def ex_answer_def ex_sent_def ex_offer_def outgoing_at_def)
  have t: "tr_sending (snd (on_file_message toy_prims ex_moment FileAnswer body s))
      = [(replicate 16 1, ex_sent\<lparr>og_stage := StageDeclined\<rparr>)]"
    by (simp add: on_file_message_def on_answer_def bump_def set_out_def l c k' k(2) d o)
  have "tr_sending (snd (on_file_message toy_prims ex_moment FileAnswer body s)) \<noteq> tr_sending s"
    unfolding t by (simp add: ex_sent_def s_def)
  from answer_only_from_offered_device [OF this] show ?thesis
  proof (elim exE conjE)
    fix l' and dev :: known_device and a' sig og
    assume w: "tr_link s = Some l'" "body = put_answer a' @ sig"
      "signed_by toy_prims (kd_sign_pub dev) LABEL_ANSWER (lk_room l') (put_answer a') sig"
      "a_from_device_id a' = kd_device_id dev"
    have "lk_room l' = [7]" using w(1) l(2) unfolding l(1) option.inject by (rule subst)
    then have g: "signed_by toy_prims (kd_sign_pub dev) LABEL_ANSWER [7] (put_answer a') sig" using w(3) by simp
    have "\<exists>sig a (dev :: known_device). body = put_answer a @ sig \<and> a_from_device_id a = kd_device_id dev
        \<and> signed_by toy_prims (kd_sign_pub dev) LABEL_ANSWER [7] (put_answer a) sig"
      using w(2,4) g by blast
    with t have "?goal body" unfolding s_def ..
    then show ?thesis ..
  qed
qed

end
