(* ===== verification/Local_Net.thy ===== *)
theory Local_Net
  imports Direct Transfers_Theorems
begin

text \<open>
  The local network, \<open>crates/asli-app/src/direct.rs\<close>: which addresses are local, what is listened on and
  tried, frames on a connection, and the two threads that move a file directly. What a socket will deliver
  before it closes or a read runs out of time is a list of bytes that the reads take from; setting a time
  limit is taken to succeed or not as a whole. Connecting, and telling one waiting address from another, are
  the operating system's.
\<close>

section \<open>Addresses\<close>

datatype ip_addr = V4 byte byte byte byte | V6 ustr

definition is_local :: "ip_addr \<Rightarrow> bool" where
  "is_local ip =
     (case ip of
        V4 a b _ _ \<Rightarrow>
          a = 10 \<or> (a = 172 \<and> 16 \<le> b \<and> b \<le> 31) \<or> (a = 192 \<and> b = 168)
          \<or> (a = 169 \<and> b = 254) \<or> (a = 100 \<and> 64 \<le> b \<and> b < 128)
      | V6 _ \<Rightarrow> False)"

text \<open>The address the system would use to reach the internet, if it has one.\<close>

definition local_addrs :: "ip_addr option \<Rightarrow> ip_addr list" where
  "local_addrs outward = (case outward of Some ip \<Rightarrow> (if is_local ip then [ip] else []) | None \<Rightarrow> [])"

text \<open>A socket address as text; an IPv6 address carries its own.\<close>

definition addr_text :: "ip_addr \<Rightarrow> u16 \<Rightarrow> ustr" where
  "addr_text ip port =
     (case ip of
        V4 a b c d \<Rightarrow>
          ulit (decimal (unat a) @ ''.'' @ decimal (unat b) @ ''.'' @ decimal (unat c) @ ''.'' @ decimal (unat d))
      | V6 t \<Rightarrow> ulit ''['' @ t @ ulit '']'') @ ulit '':'' @ ulit (decimal (unat port))"

text \<open>What to name in an offer: nothing without a local address or a port to listen on.\<close>

definition local_listener :: "ip_addr list \<Rightarrow> u16 option \<Rightarrow> ustr list" where
  "local_listener ips bound =
     (if ips = [] then []
      else case bound of None \<Rightarrow> [] | Some port \<Rightarrow> map (\<lambda>ip. addr_text ip port) ips)"

definition listen :: "ip_addr list \<Rightarrow> u16 option \<Rightarrow> bool \<Rightarrow> ustr list" where
  "listen ips bound spawned = (if spawned then local_listener ips bound else [])"

text \<open>
  Reading a socket address back, as the standard library does: a number is digits, as many as allowed, with no
  zero before others in an octet. An IPv6 address, which begins with a bracket, is read as none: it is never
  local, and so treated alike.
\<close>

definition is_digit_char :: "uchar \<Rightarrow> bool" where
  "is_digit_char c \<longleftrightarrow> 48 \<le> c \<and> c \<le> 57"

definition read_number :: "nat option \<Rightarrow> nat \<Rightarrow> bool \<Rightarrow> ustr \<Rightarrow> (nat \<times> ustr) option" where
  "read_number most limit zeros s =
     (let ds = takeWhile is_digit_char s;
          n = foldl (\<lambda>n c. n * 10 + (c - 48)) 0 ds in
      if ds = [] \<or> (case most of None \<Rightarrow> False | Some m \<Rightarrow> m < length ds) \<or> limit < n
         \<or> (\<not> zeros \<and> 1 < length ds \<and> hd ds = 48)
      then None else Some (n, drop (length ds) s))"

definition read_char :: "uchar \<Rightarrow> ustr \<Rightarrow> ustr option" where
  "read_char c s = (case s of [] \<Rightarrow> None | x # s \<Rightarrow> if x = c then Some s else None)"

definition read_octet :: "ustr \<Rightarrow> (byte \<times> ustr) option" where
  "read_octet s = map_option (\<lambda>(n, s). (of_nat n, s)) (read_number (Some 3) 255 False s)"

definition read_dotted :: "ustr \<Rightarrow> (byte \<times> ustr) option" where
  "read_dotted s = Option.bind (read_char 46 s) read_octet"

definition parse_addr :: "ustr \<Rightarrow> (ip_addr \<times> u16) option" where
  "parse_addr s =
     Option.bind (read_octet s) (\<lambda>(a, s).
     Option.bind (read_dotted s) (\<lambda>(b, s).
     Option.bind (read_dotted s) (\<lambda>(c, s).
     Option.bind (read_dotted s) (\<lambda>(d, s).
     Option.bind (read_char 58 s) (\<lambda>s.
     Option.bind (read_number None 65535 True s) (\<lambda>(port, s).
       if s = [] then Some (V4 a b c d, of_nat port) else None))))))"

text \<open>The addresses that are tried.\<close>

definition reach_targets :: "ustr list \<Rightarrow> (ip_addr \<times> u16) list" where
  "reach_targets addrs = filter (\<lambda>(ip, _). is_local ip) (List.map_filter parse_addr addrs)"

section \<open>Frames\<close>

definition SMALL_FRAME :: nat where [asli_const]: "SMALL_FRAME = 64"

definition read_exact :: "nat \<Rightarrow> bytes \<Rightarrow> (bytes \<times> bytes) option" where
  "read_exact n inp = (if length inp < n then None else Some (take n inp, drop n inp))"

definition write_frame :: "bytes \<Rightarrow> bytes option" where
  "write_frame frame = (if length frame < 2 ^ 32 then Some (nat_be 4 (length frame) @ frame) else None)"

definition read_frame :: "nat \<Rightarrow> bytes \<Rightarrow> (bytes \<times> bytes) option" where
  "read_frame most inp =
     (case read_exact 4 inp of
        None \<Rightarrow> None
      | Some (len, inp) \<Rightarrow> if be_nat len > most then None else read_exact (be_nat len) inp)"

section \<open>The sender's thread\<close>

text \<open>What the receiver says first: a salt, and hello under the transfer key.\<close>

definition greet :: "prims \<Rightarrow> bytes \<Rightarrow> bytes \<Rightarrow> bool \<Rightarrow> bytes \<Rightarrow> (stream \<times> bytes) option" where
  "greet P key offer_id limits inp =
     (if \<not> limits then None
      else case read_exact SALT_LEN inp of
          None \<Rightarrow> None
        | Some (salt, inp) \<Rightarrow>
            (case read_frame SMALL_FRAME inp of
               None \<Rightarrow> None
             | Some (first, inp) \<Rightarrow>
                 (case stream_open P (stream_new P key salt offer_id Sender) first of
                    (Inl _, _) \<Rightarrow> None
                  | (Inr plain, st) \<Rightarrow> if is_hello plain offer_id then Some (st, inp) else None)))"

text \<open>One round of waiting: whether the offer still waits and the time is not over, and who connected.\<close>

datatype accepted = NoOneYet | AcceptFailed | Connected bool bytes

fun serve :: "prims \<Rightarrow> bytes \<Rightarrow> bytes \<Rightarrow> (bool \<times> bool \<times> accepted) list \<Rightarrow> (stream \<times> bytes) option" where
  "serve P key offer_id [] = None"
| "serve P key offer_id ((waiting, late, acc) # rounds) =
     (if \<not> waiting \<or> late then None
      else case acc of
          NoOneYet \<Rightarrow> serve P key offer_id rounds
        | AcceptFailed \<Rightarrow> None
        | Connected limits inp \<Rightarrow>
            (case greet P key offer_id limits inp of
               Some found \<Rightarrow> Some found
             | None \<Rightarrow> serve P key offer_id rounds))"

text \<open>Files read through an open handle, which stays with the file it was plain on.\<close>

definition fs_open :: "path \<Rightarrow> fsys \<Rightarrow> nat option \<times> fsys" where
  "fs_open p fs = (let (bad, fs) = fs_fault fs in (if bad then None else fs_dir fs p, fs))"

definition fs_read_exact :: "nat \<Rightarrow> nat \<Rightarrow> nat \<Rightarrow> fsys \<Rightarrow> bytes option \<times> fsys" where
  "fs_read_exact n pos len fs =
     (let (bad, fs) = fs_fault fs in
      (if bad then None else map_option fst (read_exact len (drop pos (fs_data fs n))), fs))"

text \<open>Around each piece: what else happens to the transfers before the disk is read and before the piece is
  counted, when that is, and how much of the frame is written if not all of it is.\<close>

record direct_turn =
  dt_before :: "transfers \<Rightarrow> transfers"
  dt_meanwhile :: "transfers \<Rightarrow> transfers"
  dt_now :: instant
  dt_cut :: "nat option"

definition put_frame :: "(error + bytes) \<Rightarrow> nat option \<Rightarrow> bool \<times> bytes" where
  "put_frame sealed torn =
     (case sealed of
        Inl _ \<Rightarrow> (False, [])
      | Inr frame \<Rightarrow>
          (case write_frame frame of
             None \<Rightarrow> (False, [])
           | Some w \<Rightarrow> (case torn of None \<Rightarrow> (True, w) | Some n \<Rightarrow> (False, take n w))))"

text \<open>The pieces, in order; says whether all went out, and what was written to the socket.\<close>

fun send_pieces ::
    "prims \<Rightarrow> bytes \<Rightarrow> offer \<Rightarrow> nat \<Rightarrow> (u32 \<Rightarrow> direct_turn) \<Rightarrow> u32 list \<Rightarrow> nat \<Rightarrow> stream \<Rightarrow> transfers
      \<Rightarrow> bool \<times> stream \<times> bytes \<times> transfers" where
  "send_pieces P i f n env [] pos st s = (True, st, [], s)"
| "send_pieces P i f n env (k # ks) pos st s =
     (let s = dt_before (env k) s;
          len = piece_len f k;
          (d, fs) = fs_read_exact n pos len (tr_fs s);
          s = dt_meanwhile (env k) (s\<lparr>tr_fs := fs\<rparr>) in
      case d of
        None \<Rightarrow> (False, st, [], direct_failed i ''couldn't read the file'' s)
      | Some d \<Rightarrow>
          (let (sealed, st) = stream_seal P st d;
               (sent, out) = put_frame sealed (dt_cut (env k)) in
           if \<not> sent then (False, st, out, direct_failed i ''the other device stopped receiving.'' s)
           else
             let (go, s) = direct_progress (dt_now (env k)) i (k + 1) s in
             if \<not> go then (False, st, out, s)
             else let (all, st, more_out, s) = send_pieces P i f n env ks (pos + len) st s
               in (all, st, out @ more_out, s)))"

definition read_confirmation :: "prims \<Rightarrow> stream \<Rightarrow> bytes \<Rightarrow> ack_state option" where
  "read_confirmation P st inp =
     (case read_frame SMALL_FRAME inp of
        None \<Rightarrow> None
      | Some (frame, _) \<Rightarrow>
          (case fst (stream_open P st frame) of
             Inl _ \<Rightarrow> None
           | Inr plain \<Rightarrow>
               if plain = [1] then Some ack_state.Done else if plain = [2] then Some Corrupt else None))"

definition send_direct ::
    "prims \<Rightarrow> bytes \<Rightarrow> instant \<Rightarrow> (u32 \<Rightarrow> direct_turn) \<Rightarrow> (transfers \<Rightarrow> transfers) \<Rightarrow> stream \<Rightarrow> bytes \<Rightarrow> transfers
      \<Rightarrow> bytes \<times> transfers" where
  "send_direct P i now env last_while st inp s =
     (case direct_begin now i s of
        (None, s) \<Rightarrow> ([], s)
      | (Some (p, f), s) \<Rightarrow>
          (let (file, fs) = fs_open p (tr_fs s); s = s\<lparr>tr_fs := fs\<rparr> in
           case file of
             None \<Rightarrow> ([], direct_failed i ''couldn't read the file'' s)
           | Some n \<Rightarrow>
               (let (all, st, out, s) =
                      send_pieces P i f n env (map of_nat [0..<unat (piece_total f)]) 0 st s in
                if \<not> all then (out, s)
                else
                  let s = last_while s in
                  (out, case read_confirmation P st inp of
                     Some ended \<Rightarrow> direct_finished i ended s
                   | None \<Rightarrow> direct_failed i ''the other device did not confirm it.'' s))))"

section \<open>The receiver's thread\<close>

abbreviation PIECE_FRAME :: nat where
  "PIECE_FRAME \<equiv> unat CHUNK_BYTES + FRAME_OVERHEAD"

lemma read_frame_shorter: "read_frame most inp = Some (frame, rest) \<Longrightarrow> length rest < length inp"
  by (auto simp: read_frame_def read_exact_def split: if_splits option.splits)

text \<open>The loop over pieces, which ends as every turn of it reads a frame. The confirmation it ends with may not
  get through; nothing looks at whether it did.\<close>

function fetch_loop ::
    "prims \<Rightarrow> bytes \<Rightarrow> (nat \<Rightarrow> direct_turn) \<Rightarrow> nat \<Rightarrow> stream \<Rightarrow> bytes \<Rightarrow> bytes \<Rightarrow> transfers \<Rightarrow> bytes \<times> transfers" where
  "fetch_loop P i env k st piece inp s =
     (case direct_piece P (dt_now (env k)) i piece (dt_before (env k) s) of
        (Inl _, s) \<Rightarrow> ([], s)
      | (Inr (Some ended), s) \<Rightarrow>
          (snd (put_frame (fst (stream_seal P st [if ended = ack_state.Done then 1 else 2])) (dt_cut (env k))), s)
      | (Inr None, s) \<Rightarrow>
          (let s = dt_meanwhile (env k) s in
           case read_frame PIECE_FRAME inp of
             None \<Rightarrow> ([], direct_receive_failed i ''the other device stopped sending.'' s)
           | Some (frame, inp) \<Rightarrow>
               (case stream_open P st frame of
                  (Inl _, st) \<Rightarrow> ([], direct_receive_failed i ''a piece arrived damaged.'' s)
                | (Inr piece, st) \<Rightarrow> fetch_loop P i env (Suc k) st piece inp s)))"
  by pat_completeness auto
termination
  by (relation "measure (\<lambda>(P, i, env, k, st, piece, inp, s). length inp)") (auto dest: read_frame_shorter)

declare fetch_loop.simps [simp del]

text \<open>Says whether the transfer is this connection's, or the relay is to carry it, and what was written: the salt
  and hello, and then the confirmation.\<close>

definition fetch ::
    "prims \<Rightarrow> bytes \<Rightarrow> bytes \<Rightarrow> ustr list \<Rightarrow> bool \<Rightarrow> rand \<Rightarrow> bool \<Rightarrow> nat option \<Rightarrow> instant \<Rightarrow> (nat \<Rightarrow> direct_turn)
      \<Rightarrow> bytes \<Rightarrow> transfers \<Rightarrow> bool \<times> bytes \<times> transfers" where
  "fetch P i key addrs answered salt limits torn now env inp s =
     (if reach_targets addrs = [] \<or> \<not> answered then (False, [], s)
      else case salt of
          None \<Rightarrow> (False, [], s)
        | Some salt \<Rightarrow>
            if \<not> limits then (False, [], s)
            else
              (let (sealed, st) = stream_seal P (stream_new P key salt i Receiver) (hello i);
                   (framed, out) = put_frame sealed None;
                   out = salt @ out;
                   (greeted, out) = (case torn of None \<Rightarrow> (framed, out) | Some n \<Rightarrow> (False, take n out)) in
               if \<not> greeted then (False, out, s)
               else case read_frame PIECE_FRAME inp of
                   None \<Rightarrow> (False, out, s)
                 | Some (first, inp) \<Rightarrow>
                     (case stream_open P st first of
                        (Inl _, st) \<Rightarrow> (False, out, s)
                      | (Inr piece, st) \<Rightarrow>
                          (let (confirmed, s) = fetch_loop P i env 0 st piece inp (direct_receiving now i s)
                           in (True, out @ confirmed, s)))))"

end
