(* ===== verification/Direct_Threads.thy ===== *)
theory Direct_Threads
  imports Local_Net_Props
begin

text \<open>
  The two threads of a direct transfer: whatever happens to the transfers in between, they take only steps of
  the transfers, so that what holds of every run holds through them; and between two devices left alone they
  move the file, from the offer to the file in its place.
\<close>

section \<open>Only steps of the transfers\<close>

definition reaches :: "prims \<Rightarrow> transfers \<Rightarrow> transfers \<Rightarrow> bool" where
  "reaches P s s' \<longleftrightarrow> (\<exists>es. s' = foldl (t_step P) s es)"

lemma reaches_refl [simp, intro]: "reaches P s s"
  by (auto simp: reaches_def intro: exI [of _ "[]"])

lemma reaches_trans [trans]: "reaches P s t \<Longrightarrow> reaches P t u \<Longrightarrow> reaches P s u"
  unfolding reaches_def by (metis foldl_append)

lemma reaches_step: "reaches P s (t_step P s e)"
  by (auto simp: reaches_def intro: exI [of _ "[e]"])

lemmas reaches_by = reaches_step [of _ _ "TBegin _ _", simplified] reaches_step [of _ _ "TProgress _ _ _", simplified]
  reaches_step [of _ _ "TDirectEnded _ _", simplified] reaches_step [of _ _ "TDirectFailed _ _", simplified]
  reaches_step [of _ _ "TDirectReceiving _ _", simplified] reaches_step [of _ _ "TPiece _ _ _", simplified]
  reaches_step [of _ _ "TReceiveFailed _ _", simplified]

lemma reaches_faults:
  assumes "fs_fault (tr_fs s) = (bad, fs)"
  shows "reaches P s (s\<lparr>tr_fs := fs\<rparr>)"
proof -
  have "fs = (tr_fs s)\<lparr>fs_faults := fs_faults fs\<rparr>"
    using assms by (auto simp: fs_fault_def split: list.splits)
  then have "s\<lparr>tr_fs := fs\<rparr> = t_step P s (TFaults (fs_faults fs))" by simp
  then show ?thesis by (simp only: reaches_step)
qed

lemma reaches_read: "reaches P s (s\<lparr>tr_fs := snd (fs_read_exact n pos len (tr_fs s))\<rparr>)"
  "reaches P s (s\<lparr>tr_fs := snd (fs_open p (tr_fs s))\<rparr>)"
  using reaches_faults [of s "fst (fs_fault (tr_fs s))" "snd (fs_fault (tr_fs s))" P]
  by (auto simp: fs_read_exact_def fs_open_def split_beta Let_def)

text \<open>Surroundings in which nothing but the transfers' own steps happens between two pieces.\<close>

definition steps_only :: "prims \<Rightarrow> ('k \<Rightarrow> direct_turn) \<Rightarrow> bool" where
  "steps_only P env \<longleftrightarrow> (\<forall>k s. reaches P s (dt_before (env k) s) \<and> reaches P s (dt_meanwhile (env k) s))"

lemma send_pieces_reaches:
  assumes "steps_only P env"
  shows "reaches P s (snd (snd (snd (send_pieces P i f n env ks pos st s))))"
proof (induction ks arbitrary: pos st s)
  case (Cons k ks)
  define s1 where "s1 = dt_before (env k) s"
  define s2 where "s2 = dt_meanwhile (env k) (s1\<lparr>tr_fs := snd (fs_read_exact n pos (piece_len f k) (tr_fs s1))\<rparr>)"
  have r: "reaches P s s2"
    using assms reaches_read(1) [of P s1 n pos "piece_len f k"] unfolding steps_only_def s2_def s1_def
    by (meson reaches_trans)
  have "reaches P s (snd (direct_progress now i k s2))" for now k by (rule reaches_trans [OF r reaches_by(2)])
  then have p: "reaches P s (snd (snd (snd (send_pieces P i f n env ks pos st (snd (direct_progress now i k s2))))))"
    for now k pos st using Cons.IH reaches_trans by blast
  show ?case
    using r p reaches_by(2,4) [of P s2] reaches_trans [OF r]
    by (auto simp: Let_def split_beta s1_def [symmetric] s2_def [symmetric] split: option.splits intro: reaches_trans)
qed simp

lemma send_direct_reaches:
  assumes "steps_only P env" "\<And>s. reaches P s (last_while s)"
  shows "reaches P s (snd (send_direct P i now env last_while st inp s))"
proof (cases "fst (direct_begin now i s)")
  case None
  then show ?thesis using reaches_by(1) [of P s now i]
    by (cases "direct_begin now i s") (simp add: send_direct_def)
next
  case (Some pf)
  obtain p f where pf: "pf = (p, f)" by (cases pf)
  define s1 where "s1 = snd (direct_begin now i s)"
  define s2 where "s2 = s1\<lparr>tr_fs := snd (fs_open p (tr_fs s1))\<rparr>"
  have r2: "reaches P s s2"
    using reaches_by(1) [of P s now i] reaches_read(2) [of P s1 p] unfolding s1_def s2_def by (rule reaches_trans)
  have r: "direct_begin now i s = (Some (p, f), s1)" using Some pf by (simp add: s1_def prod_eq_iff)
  show ?thesis
  proof (cases "fst (fs_open p (tr_fs s1))")
    case None
    then show ?thesis using r r2 reaches_by(4) [of P s2]
      by (auto simp: send_direct_def Let_def split_beta s2_def [symmetric] intro: reaches_trans)
  next
    case (Some n)
    define s3 where "s3 = snd (snd (snd (send_pieces P i f n env (map of_nat [0..<unat (piece_total f)]) 0 st s2)))"
    have r3: "reaches P s s3"
      using r2 send_pieces_reaches [OF assms(1)] unfolding s3_def by (rule reaches_trans)
    have r4: "reaches P s (last_while s3)" using r3 assms(2) by (rule reaches_trans)
    show ?thesis
      using r Some r3 reaches_trans [OF r4] reaches_by(3,4) [of P "last_while s3"]
      by (auto simp: send_direct_def Let_def split_beta s2_def [symmetric] s3_def [symmetric] split: option.splits)
  qed
qed

lemma fetch_loop_reaches:
  assumes "steps_only P env"
  shows "reaches P s (snd (fetch_loop P i env k st piece inp s))"
  using assms
proof (induction P i env k st piece inp s rule: fetch_loop.induct)
  case (1 P i env k st piece inp s)
  define r where "r = direct_piece P (dt_now (env k)) i piece (dt_before (env k) s)"
  define s1 s2 where "s1 = snd r" and "s2 = dt_meanwhile (env k) s1"
  have "reaches P s (dt_before (env k) s)" using 1(2) by (simp add: steps_only_def)
  then have r1: "reaches P s s1" using reaches_by(6) unfolding s1_def r_def by (rule reaches_trans)
  have r2: "reaches P s s2" using reaches_trans [OF r1] 1(2) unfolding s2_def steps_only_def by blast
  have gone: "reaches P s (direct_receive_failed i why s2)" for why using reaches_trans [OF r2 reaches_by(7)] .
  have r: "r = (fst r, s1)" by (simp add: s1_def)
  show ?case
  proof (cases "fst r")
    case (Inl u)
    then show ?thesis using r r1 by (subst fetch_loop.simps) (simp add: r_def [symmetric])
  next
    case (Inr ended)
    show ?thesis
    proof (cases ended)
      case (Some a)
      then show ?thesis using r r1 Inr by (subst fetch_loop.simps) (simp add: r_def [symmetric])
    next
      case None
      note r' = r [unfolded Inr None]
      have turn: "reaches P s (snd (fetch_loop P i env (Suc k) st' piece' inp' s2))"
        if "read_frame PIECE_FRAME inp = Some (frame, inp')" "stream_open P st frame = (Inr piece', st')" for frame inp' st' piece'
        by (rule reaches_trans [OF r2 1(1) [OF r' [unfolded r_def, symmetric] _ _ _ that(1) _ that(2) [symmetric] _ 1(2)]]) (simp_all add: s2_def)
      show ?thesis
        by (subst fetch_loop.simps)
          (use turn gone r' in \<open>auto simp: r_def [symmetric] s2_def [symmetric] Let_def split: option.splits sum.splits prod.splits\<close>)
    qed
  qed
qed

section \<open>Left alone, the file arrives\<close>

definition quiet :: "('k \<Rightarrow> direct_turn) \<Rightarrow> bool" where
  "quiet env \<longleftrightarrow> (\<forall>k. dt_before (env k) = id \<and> dt_meanwhile (env k) = id \<and> dt_cut (env k) = None)"

definition sealed_by :: "prims \<Rightarrow> stream \<Rightarrow> bytes \<Rightarrow> bytes" where
  "sealed_by P st d = the (p_aead_seal P (st_cipher st) (direct_nonce (st_me st) (st_sent st)) (st_aad st) d)"

definition framed :: "prims \<Rightarrow> stream \<Rightarrow> bytes \<Rightarrow> bytes" where
  "framed P st d = nat_be 4 (length (sealed_by P st d)) @ sealed_by P st d"

lemma seals: "always_seals P \<Longrightarrow> length d < 2 ^ 32 \<Longrightarrow> stream_seal P st d = (Inr (sealed_by P st d), st\<lparr>st_sent := st_sent st + 1\<rparr>)"
  by (auto simp: stream_seal_def sealed_by_def always_seals_def Let_def ok_or_def split: option.splits)

lemma frame_crosses:
  assumes p: "aead_ok P" "aead_tagged P" "always_seals P"
    and d: "length d + 16 \<le> most" "most < 2 ^ 32"
  shows "put_frame (Inr (sealed_by P st d)) None = (True, framed P st d)"
    "read_frame most (framed P st d @ rest) = Some (sealed_by P st d, rest)"
    "st_cipher st' = st_cipher st \<Longrightarrow> st_aad st' = st_aad st \<Longrightarrow> st_me st' = other (st_me st) \<Longrightarrow> st_received st' = st_sent st
      \<Longrightarrow> stream_open P st' (sealed_by P st d) = (Inr d, st'\<lparr>st_received := st_received st' + 1\<rparr>)"
proof -
  obtain c where c: "p_aead_seal P (st_cipher st) (direct_nonce (st_me st) (st_sent st)) (st_aad st) d = Some c"
    using p(3) d unfolding always_seals_def by fastforce
  have s: "sealed_by P st d = c" by (simp add: sealed_by_def c)
  have l: "length c = length d + 16" by (rule aead_taggedD [OF p(2) c])
  then have w: "write_frame c = Some (framed P st d)" using d by (simp add: write_frame_def framed_def s)
  then show "put_frame (Inr (sealed_by P st d)) None = (True, framed P st d)" by (simp add: put_frame_def s)
  show "read_frame most (framed P st d @ rest) = Some (sealed_by P st d, rest)"
    using read_written_frame [OF w] l d(1) by (simp add: s)
  assume "st_cipher st' = st_cipher st" "st_aad st' = st_aad st" "st_me st' = other (st_me st)" "st_received st' = st_sent st"
  then show "stream_open P st' (sealed_by P st d) = (Inr d, st'\<lparr>st_received := st_received st' + 1\<rparr>)"
    using aead_okD [OF p(1) c] by (simp add: stream_open_def s)
qed

lemma incoming_set_in [simp]: "incoming_at i (set_in i ig s) = Some ig" "incoming_at i (bump s) = incoming_at i s"
  "tr_fs (set_in i ig s) = tr_fs s" "tr_fs (bump s) = tr_fs s" "incoming_at i (s\<lparr>tr_fs := fs\<rparr>) = incoming_at i s"
  by (simp_all add: incoming_at_def set_in_def bump_def update_conv')

lemma outgoing_set_out [simp]: "outgoing_at i (set_out i og s) = Some og" "outgoing_at i (bump s) = outgoing_at i s"
  "tr_fs (set_out i og s) = tr_fs s" "outgoing_at i (s\<lparr>tr_fs := fs\<rparr>) = outgoing_at i s"
  by (simp_all add: outgoing_at_def set_out_def bump_def update_conv')

abbreviation pieces :: "prims \<Rightarrow> stream \<Rightarrow> bytes \<Rightarrow> nat list \<Rightarrow> bytes" where
  "pieces P st d ks \<equiv> concat (map (\<lambda>k. framed P (st\<lparr>st_sent := of_nat k\<rparr>) (piece_at d k)) ks)"

lemma piece_small: "length (piece_at d k) + 16 \<le> PIECE_FRAME" "PIECE_FRAME < 2 ^ 32"
  by (simp_all add: piece_at_def CHUNK_BYTES_def FRAME_OVERHEAD_def TAG_LEN_def)

lemma piece_short: "length (piece_at d k) < 2 ^ 32"
  using piece_small(1) [of d k] piece_small(2) by linarith

lemma piece_read:
  assumes o: "offer_of P f d" and k: "k < unat (chunk_count f)" and fs: "fs_data fs n = d" "fs_faults fs = []"
  shows "fs_read_exact n (k * 262144) (piece_len f (of_nat k)) fs = (Some (piece_at d k), fs)"
    "Suc k < unat (chunk_count f) \<Longrightarrow> piece_len f (of_nat k) = 262144"
proof -
  note l = piece_length [OF o k]
  have "take (piece_len f (of_nat k)) (drop (k * 262144) d) = piece_at d k"
    by (simp add: l piece_at_def min_def)
  moreover have "piece_len f (of_nat k) \<le> length (drop (k * 262144) d)" by (simp add: l)
  ultimately show "fs_read_exact n (k * 262144) (piece_len f (of_nat k)) fs = (Some (piece_at d k), fs)"
    by (simp add: fs_read_exact_def fs_fault_def fs read_exact_def)
  assume s: "Suc k < unat (chunk_count f)"
  show "piece_len f (of_nat k) = 262144"
  proof (cases "d = []")
    case True
    then show ?thesis using s pieces_count [OF o] unat_chunk_count [of f] offer_ofD [OF o]
      by (auto simp: offer_of_def CHUNK_BYTES_def Let_def)
  next
    case False
    have "Suc k * 262144 \<le> (unat (chunk_count f) - 1) * 262144" using s by (intro mult_right_mono) auto
    then show ?thesis using pieces_count(3) [OF o False] by (simp add: l)
  qed
qed

lemma send_pieces_run:
  assumes p: "aead_ok P" "aead_tagged P" "always_seals P" and o: "offer_of P f d" and q: "quiet env"
  shows "j \<le> unat (chunk_count f) \<Longrightarrow> (j < unat (chunk_count f) \<longrightarrow> pos = j * 262144)
    \<Longrightarrow> outgoing_at i s = Some og \<Longrightarrow> og_direct og \<Longrightarrow> \<not> finished (og_stage og)
    \<Longrightarrow> fs_data (tr_fs s) n = d \<Longrightarrow> fs_faults (tr_fs s) = []
    \<Longrightarrow> \<exists>s' og'. send_pieces P i f n env (map of_nat [j..<unat (chunk_count f)]) pos (st\<lparr>st_sent := of_nat j\<rparr>) s
        = (True, st\<lparr>st_sent := of_nat (unat (chunk_count f))\<rparr>, pieces P st d [j..<unat (chunk_count f)], s')
      \<and> outgoing_at i s' = Some og' \<and> og_direct og' \<and> \<not> finished (og_stage og')"
proof (induction "unat (chunk_count f) - j" arbitrary: j pos s og)
  case 0
  then show ?case by simp
next
  case (Suc m)
  let ?N = "unat (chunk_count f)"
  have j: "j < ?N" using Suc.hyps(2) by simp
  have list: "[j..<?N] = j # [Suc j..<?N]" using j by (rule upt_conv_Cons)
  note r = piece_read [OF o j Suc.prems(6,7)]
  define og1 where "og1 = og\<lparr>og_acked := of_nat j + 1, og_next := of_nat j + 1, og_stage := Moving (of_nat j + 1),
      og_moved := dt_now (env (of_nat j))\<rparr>"
  define s1 where "s1 = bump (set_out i og1 s)"
  have "direct_progress (dt_now (env (of_nat j))) i (of_nat j + 1) s = (True, s1)"
    using Suc.prems(3-5) by (simp add: direct_progress_def s1_def og1_def)
  then have step: "send_pieces P i f n env (map of_nat [j..<?N]) pos (st\<lparr>st_sent := of_nat j\<rparr>) s =
      (let (all, st', out, s) = send_pieces P i f n env (map of_nat [Suc j..<?N]) (pos + piece_len f (of_nat j))
          (st\<lparr>st_sent := of_nat (Suc j)\<rparr>) s1
       in (all, st', framed P (st\<lparr>st_sent := of_nat j\<rparr>) (piece_at d j) @ out, s))"
    using q r(1) Suc.prems(2) j
    by (simp add: list seals [OF p(3) piece_short] frame_crosses(1) [OF p piece_small] quiet_def Let_def add.commute)
  have s1: "outgoing_at i s1 = Some og1" "og_direct og1" "\<not> finished (og_stage og1)" "fs_data (tr_fs s1) n = d"
    "fs_faults (tr_fs s1) = []" using Suc.prems(4,6,7) by (simp_all add: s1_def og1_def finished_def)
  have next_pos: "Suc j < ?N \<longrightarrow> pos + piece_len f (of_nat j) = Suc j * 262144" using Suc.prems(2) r(2) j by simp
  have left: "m = ?N - Suc j" using Suc.hyps(2) by simp
  obtain s' og' where "send_pieces P i f n env (map of_nat [Suc j..<?N]) (pos + piece_len f (of_nat j))
          (st\<lparr>st_sent := of_nat (Suc j)\<rparr>) s1
        = (True, st\<lparr>st_sent := of_nat ?N\<rparr>, pieces P st d [Suc j..<?N], s')
      \<and> outgoing_at i s' = Some og' \<and> og_direct og' \<and> \<not> finished (og_stage og')"
    using Suc.hyps(1) [OF left _ next_pos s1] Suc_leI [OF j] by blast
  then show ?case unfolding step by (simp add: list)
qed

lemma fetch_loop_run:
  assumes p: "aead_ok P" "aead_tagged P" "always_seals P" and o: "offer_of P f d" and q: "quiet env"
    and ends: "st_cipher st = st_cipher snd_st" "st_aad st = st_aad snd_st" "st_me st = other (st_me snd_st)"
  shows "k < unat (chunk_count f) \<Longrightarrow> incoming_at i s = Some ig \<Longrightarrow> is_moving (ig_stage ig)
    \<Longrightarrow> has_pieces f d k n part fin ig (tr_fs s)
    \<Longrightarrow> \<exists>s' kg. fetch_loop P i env m (st\<lparr>st_received := of_nat (Suc k)\<rparr>) (piece_at d k)
          (pieces P snd_st d [Suc k..<unat (chunk_count f)]) s
        = (framed P (st\<lparr>st_received := of_nat (unat (chunk_count f))\<rparr>) [1], s')
      \<and> incoming_at i s' = Some kg \<and> ig_stage kg = StageDone (Some fin)
      \<and> fs_dir (tr_fs s') fin = Some n \<and> fs_data (tr_fs s') n = d"
proof (induction "unat (chunk_count f) - k" arbitrary: k m s ig)
  case 0
  then show ?case by simp
next
  case (Suc l)
  let ?N = "unat (chunk_count f)"
  let ?now = "dt_now (env m)"
  define jg gs where "jg = ig\<lparr>ig_hasher := ig_hasher ig @ piece_at d k, ig_received := ig_received ig + 1,
      ig_moved := ?now, ig_written := ig_written ig + of_nat (length (piece_at d k))\<rparr>"
    and "gs = (tr_fs s)\<lparr>fs_data := (fs_data (tr_fs s))(n := ig_hasher ig @ piece_at d k)\<rparr>"
  note t = piece_accepted [OF o Suc.prems(4,1), of ?now, folded jg_def gs_def]
  show ?case
  proof (cases "Suc k = ?N")
    case True
    obtain kg hs where k: "finish_incoming P jg gs = (ack_state.Done, kg, hs)" "ig_stage kg = StageDone (Some fin)"
      "fs_dir hs fin = Some n" "fs_data hs n = d" using all_pieces_kept [OF o t(2) True] by blast
    define s1 where "s1 = bump (set_in i kg (s\<lparr>tr_fs := hs\<rparr>))"
    have "direct_piece P ?now i (piece_at d k) s = (Inr (Some ack_state.Done), s1)"
      using Suc.prems(2,3) t(1) True k(1) by (simp add: direct_piece_def s1_def)
    then have "fetch_loop P i env m (st\<lparr>st_received := of_nat (Suc k)\<rparr>) (piece_at d k) (pieces P snd_st d [Suc k..<?N]) s
        = (framed P (st\<lparr>st_received := of_nat ?N\<rparr>) [1], s1)"
      using q frame_crosses(1) [OF p, of "[1]" 64] True
      by (subst fetch_loop.simps) (simp add: quiet_def seals [OF p(3)])
    then show ?thesis using k by (auto simp: s1_def)
  next
    case False
    define ig1 s1 where "ig1 = jg\<lparr>ig_stage := Moving (ig_received jg)\<rparr>" and "s1 = bump (set_in i ig1 (s\<lparr>tr_fs := gs\<rparr>))"
    have more: "Suc k < ?N" using False Suc.prems(1) by simp
    have list: "[Suc k..<?N] = Suc k # [Suc (Suc k)..<?N]" using more by (rule upt_conv_Cons)
    have "direct_piece P ?now i (piece_at d k) s = (Inr None, s1)"
      using Suc.prems(2,3) t(1) False by (simp add: direct_piece_def s1_def ig1_def)
    moreover have "read_frame PIECE_FRAME (pieces P snd_st d [Suc k..<?N])
        = Some (sealed_by P (snd_st\<lparr>st_sent := of_nat (Suc k)\<rparr>) (piece_at d (Suc k)), pieces P snd_st d [Suc (Suc k)..<?N])"
      unfolding list using frame_crosses(2) [OF p piece_small] by simp
    moreover have "stream_open P (st\<lparr>st_received := of_nat (Suc k)\<rparr>)
        (sealed_by P (snd_st\<lparr>st_sent := of_nat (Suc k)\<rparr>) (piece_at d (Suc k)))
        = (Inr (piece_at d (Suc k)), st\<lparr>st_received := of_nat (Suc (Suc k))\<rparr>)"
      using frame_crosses(3) [OF p piece_small, of "st\<lparr>st_received := of_nat (Suc k)\<rparr>" "snd_st\<lparr>st_sent := of_nat (Suc k)\<rparr>"] ends
      by (simp add: add.commute)
    ultimately have step: "fetch_loop P i env m (st\<lparr>st_received := of_nat (Suc k)\<rparr>) (piece_at d k) (pieces P snd_st d [Suc k..<?N]) s
        = fetch_loop P i env (Suc m) (st\<lparr>st_received := of_nat (Suc (Suc k))\<rparr>) (piece_at d (Suc k)) (pieces P snd_st d [Suc (Suc k)..<?N]) s1"
      using q by (subst fetch_loop.simps) (simp add: quiet_def del: of_nat_Suc upt_Suc)
    have "has_pieces f d (Suc k) n part fin ig1 (tr_fs s1)"
      using t(2) by (simp add: ig1_def s1_def has_pieces_stage)
    moreover have "incoming_at i s1 = Some ig1" "is_moving (ig_stage ig1)" by (simp_all add: s1_def ig1_def is_moving_def)
    ultimately show ?thesis unfolding step using Suc.hyps(1) [OF _ more] Suc.hyps(2) by simp
  qed
qed

text \<open>What is ready at either end: the sender's offer, of the file at its path, and the receiver's, accepted.\<close>

definition ready_to_send :: "prims \<Rightarrow> bytes \<Rightarrow> offer \<Rightarrow> bytes \<Rightarrow> transfers \<Rightarrow> bool" where
  "ready_to_send P i f d s \<longleftrightarrow>
     (\<exists>og m. outgoing_at i s = Some og \<and> og_stage og = Offered \<and> og_offer og = f \<and> offer_of P f d
        \<and> fs_dir (tr_fs s) (og_path og) = Some m \<and> fs_data (tr_fs s) m = d \<and> fs_faults (tr_fs s) = [])"

definition ready_to_receive :: "bytes \<Rightarrow> offer \<Rightarrow> bytes \<Rightarrow> path \<Rightarrow> transfers \<Rightarrow> bool" where
  "ready_to_receive i f d fin s \<longleftrightarrow>
     (\<exists>ig n part. incoming_at i s = Some ig \<and> is_moving (ig_stage ig) \<and> has_pieces f d 0 n part fin ig (tr_fs s))"

lemma send_direct_run:
  assumes p: "aead_ok P" "aead_tagged P" "always_seals P" and r: "ready_to_send P i f d s" and q: "quiet env"
    and st: "st_sent st = 0"
  shows "\<exists>s' og. send_direct P i now env id st inp s = (pieces P st d [0..<unat (chunk_count f)],
      case read_confirmation P (st\<lparr>st_sent := of_nat (unat (chunk_count f))\<rparr>) inp of
        Some ended \<Rightarrow> direct_finished i ended s' | None \<Rightarrow> direct_failed i ''the other device did not confirm it.'' s')
    \<and> outgoing_at i s' = Some og \<and> og_direct og \<and> \<not> finished (og_stage og)"
proof -
  obtain og m where og: "outgoing_at i s = Some og" "og_stage og = Offered" "og_offer og = f"
    and o: "offer_of P f d" and fs: "fs_dir (tr_fs s) (og_path og) = Some m" "fs_data (tr_fs s) m = d" "fs_faults (tr_fs s) = []"
    using r unfolding ready_to_send_def by blast
  define og1 s1 where "og1 = og\<lparr>og_stage := Moving 0, og_moved := now, og_direct := True\<rparr>" and "s1 = bump (set_out i og1 s)"
  have b: "direct_begin now i s = (Some (og_path og, f), s1)" using og by (simp add: direct_begin_def s1_def og1_def)
  have f: "fs_open (og_path og) (tr_fs s1) = (Some m, tr_fs s1)"
    using fs by (simp add: fs_open_def fs_fault_def s1_def)
  have t: "unat (piece_total f) = unat (chunk_count f)"
    using pieces_count(4) [OF o] by (simp add: piece_total_def unsigned_ucast_eq take_bit_nat_eq_self)
  obtain s' og' where "send_pieces P i f m env (map of_nat [0..<unat (chunk_count f)]) 0 (st\<lparr>st_sent := of_nat 0\<rparr>) s1
        = (True, st\<lparr>st_sent := of_nat (unat (chunk_count f))\<rparr>, pieces P st d [0..<unat (chunk_count f)], s')
      \<and> outgoing_at i s' = Some og' \<and> og_direct og' \<and> \<not> finished (og_stage og')"
    using send_pieces_run [OF p o q, of 0 0 i s1 og1 m st] fs by (auto simp: s1_def og1_def finished_def)
  moreover have "st\<lparr>st_sent := of_nat 0\<rparr> = st" using st by simp
  ultimately show ?thesis using b f t by (auto simp: send_direct_def Let_def)
qed

lemma stream_new_fields [simp]:
  "st_sent (stream_new P key salt i e) = 0" "st_received (stream_new P key salt i e) = 0" "st_me (stream_new P key salt i e) = e"
  "st_cipher (stream_new P key salt i e) = st_cipher (stream_new P key salt i e')"
  "st_aad (stream_new P key salt i e) = st_aad (stream_new P key salt i e')"
  by (simp_all add: stream_new_def Let_def)

text \<open>C27: A file sent directly arrives: when the offer waits on one side and is accepted on the other, the salt and
  hello that the receiver's thread writes are greeted by the sender's, the sender's frames bring every piece, the
  file is in its place with the bytes of the original, and the confirmation ends the transfer on the sender's
  side too.\<close>

theorem direct_file_arrives:
  assumes "aead_ok P" "aead_tagged P" "always_seals P"
    and "ready_to_send P i f d sa" "ready_to_receive i f d fin sb" "quiet env_s" "quiet env_r"
    and "reach_targets addrs \<noteq> []" "length salt = SALT_LEN" "length i = OFFER_ID_LEN"
  shows "\<exists>st greeting confirmation sa' sb' og ig n.
    greet P key i True (greeting @ confirmation) = Some (st, confirmation)
    \<and> fetch P i key addrs True (Some salt) True None now_r env_r
          (fst (send_direct P i now_s env_s id st confirmation sa)) sb = (True, greeting @ confirmation, sb')
    \<and> snd (send_direct P i now_s env_s id st confirmation sa) = sa'
    \<and> outgoing_at i sa' = Some og \<and> og_stage og = StageDone None
    \<and> incoming_at i sb' = Some ig \<and> ig_stage ig = StageDone (Some fin)
    \<and> fs_dir (tr_fs sb') fin = Some n \<and> fs_data (tr_fs sb') n = d"
proof -
  note p = assms(1-3)
  let ?N = "unat (chunk_count f)"
  define r0 s0 where "r0 = stream_new P key salt i Receiver" and "s0 = stream_new P key salt i Sender"
  define r1 s1 where "r1 = r0\<lparr>st_sent := 1\<rparr>" and "s1 = s0\<lparr>st_received := 1\<rparr>"
  define greeting confirmation where "greeting = salt @ framed P r0 (hello i)"
    and "confirmation = framed P (r1\<lparr>st_received := of_nat ?N\<rparr>) [1]"
  note e = stream_new_fields(4,5) [of P key salt i Receiver Sender]
  have o: "offer_of P f d" using assms(4) by (auto simp: ready_to_send_def)
  have h: "length (hello i) + 16 \<le> SMALL_FRAME" "SMALL_FRAME < 2 ^ 32" "length [1 :: byte] + 16 \<le> SMALL_FRAME"
    "is_hello (hello i) i"
    using assms(10) by (simp_all add: hello_def is_hello_def OFFER_ID_LEN_def SMALL_FRAME_def)
  have greet: "greet P key i True (greeting @ confirmation) = Some (s1, confirmation)"
    using frame_crosses(2) [OF p h(1,2), of r0 confirmation] frame_crosses(3) [OF p h(1,2), of s0 r0] assms(9) h(4)
    by (simp add: greet_def greeting_def s1_def s0_def [symmetric]) (simp add: s0_def r0_def e)
  obtain sa1 og where sent: "send_direct P i now_s env_s id s1 confirmation sa = (pieces P s1 d [0..<?N],
      case read_confirmation P (s1\<lparr>st_sent := of_nat ?N\<rparr>) confirmation of
        Some ended \<Rightarrow> direct_finished i ended sa1 | None \<Rightarrow> direct_failed i ''the other device did not confirm it.'' sa1)"
    and og: "outgoing_at i sa1 = Some og" "og_direct og" "\<not> finished (og_stage og)"
    using send_direct_run [OF p assms(4,6), of s1 now_s confirmation] by (auto simp: s1_def s0_def)
  have "read_confirmation P (s1\<lparr>st_sent := of_nat ?N\<rparr>) confirmation = Some ack_state.Done"
    using frame_crosses(2) [OF p h(3,2), of "r1\<lparr>st_received := of_nat ?N\<rparr>" "[]"]
      frame_crosses(3) [OF p h(3,2), of "s1\<lparr>st_sent := of_nat ?N\<rparr>" "r1\<lparr>st_received := of_nat ?N\<rparr>"]
    by (simp add: read_confirmation_def confirmation_def) (simp add: s1_def r1_def s0_def r0_def e)
  then have sent: "send_direct P i now_s env_s id s1 confirmation sa = (pieces P s1 d [0..<?N], direct_finished i ack_state.Done sa1)"
    using sent by simp
  obtain ig n part where ig: "incoming_at i sb = Some ig" "is_moving (ig_stage ig)" "has_pieces f d 0 n part fin ig (tr_fs sb)"
    using assms(5) unfolding ready_to_receive_def by blast
  define ig1 sb1 where "ig1 = ig\<lparr>ig_direct := True, ig_moved := now_r\<rparr>" and "sb1 = set_in i ig1 sb"
  have b: "direct_receiving now_r i sb = sb1" using ig by (simp add: direct_receiving_def sb1_def ig1_def)
  have ready: "incoming_at i sb1 = Some ig1" "is_moving (ig_stage ig1)" "has_pieces f d 0 n part fin ig1 (tr_fs sb1)"
    using ig by (simp_all add: sb1_def ig1_def has_pieces_def)
  have N: "0 < ?N" "[0..<?N] = 0 # [Suc 0..<?N]" using pieces_count(1) [OF o] by (simp_all add: upt_conv_Cons)
  have ends: "st_cipher r1 = st_cipher s1" "st_aad r1 = st_aad s1" "st_me r1 = other (st_me s1)"
    by (simp_all add: r1_def s1_def r0_def s0_def e)
  obtain sb2 kg where got: "fetch_loop P i env_r 0 (r1\<lparr>st_received := of_nat (Suc 0)\<rparr>) (piece_at d 0) (pieces P s1 d [Suc 0..<?N]) sb1
      = (confirmation, sb2)" "incoming_at i sb2 = Some kg" "ig_stage kg = StageDone (Some fin)"
    "fs_dir (tr_fs sb2) fin = Some n" "fs_data (tr_fs sb2) n = d"
    using fetch_loop_run [OF p o assms(7) ends N(1) ready] unfolding confirmation_def by blast
  have zero: "s1\<lparr>st_sent := of_nat 0\<rparr> = s1" by (simp add: s1_def s0_def stream_new_def Let_def)
  have "read_frame PIECE_FRAME (pieces P s1 d [0..<?N]) = Some (sealed_by P s1 (piece_at d 0), pieces P s1 d [Suc 0..<?N])"
    unfolding N(2) list.map concat.simps zero by (rule frame_crosses(2) [OF p piece_small])
  moreover have "stream_open P r1 (sealed_by P s1 (piece_at d 0)) = (Inr (piece_at d 0), r1\<lparr>st_received := of_nat (Suc 0)\<rparr>)"
    using frame_crosses(3) [OF p piece_small ends] by (simp add: r1_def s1_def r0_def s0_def)
  moreover have "stream_seal P r0 (hello i) = (Inr (sealed_by P r0 (hello i)), r1)"
    using h(1,2) by (subst seals [OF p(3)]) (simp_all add: r1_def r0_def)
  ultimately have "fetch P i key addrs True (Some salt) True None now_r env_r (pieces P s1 d [0..<?N]) sb = (True, greeting @ confirmation, sb2)"
    using assms(8) frame_crosses(1) [OF p h(1,2), of r0] got(1)
    by (simp add: fetch_def r0_def [symmetric] b greeting_def del: of_nat_Suc upt_Suc)
  moreover have "outgoing_at i (direct_finished i ack_state.Done sa1) = Some (og\<lparr>og_stage := StageDone None\<rparr>)"
    using og by (simp add: direct_finished_def end_direct_def)
  ultimately show ?thesis using greet sent got(2-5) by fastforce
qed

text \<open>Whatever the other end writes, and whatever the person, the relay and the other device do meanwhile, the two
  threads of a direct transfer take only steps of the transfers, so every property of their runs holds; and a
  receiver's thread that leaves the file to the relay has not touched the transfers at all.\<close>

theorem direct_threads_only_step:
  assumes "steps_only P env" "steps_only P env'" "\<forall>s. reaches P s (last_while s)"
  shows "reaches P s (snd (send_direct P i now env last_while st inp s))
    \<and> reaches P s (snd (snd (fetch P i key addrs answered salt limits torn now env' inp s)))
    \<and> (fst (fetch P i key addrs answered salt limits torn now env' inp s)
        \<or> snd (snd (fetch P i key addrs answered salt limits torn now env' inp s)) = s)"
proof -
  have "reaches P s (snd (fetch_loop P i env' k st piece rest (direct_receiving now i s)))" for k st piece rest
    by (rule reaches_trans [OF reaches_by(5) fetch_loop_reaches [OF assms(2)]])
  then have "reaches P s (snd (snd (fetch P i key addrs answered salt limits torn now env' inp s)))"
    by (auto simp: fetch_def Let_def split_beta split: option.splits sum.splits prod.splits)
  moreover have "fst (fetch P i key addrs answered salt limits torn now env' inp s)
        \<or> snd (snd (fetch P i key addrs answered salt limits torn now env' inp s)) = s"
    by (auto simp: fetch_def Let_def split_beta split: option.splits sum.splits prod.splits)
  ultimately show ?thesis using send_direct_reaches [OF assms(1) assms(3) [rule_format]] by blast
qed

section \<open>Witnesses\<close>

definition ex_turn :: direct_turn where
  "ex_turn = \<lparr>dt_before = id, dt_meanwhile = id, dt_now = 9, dt_cut = None\<rparr>"

definition ex_offering :: transfers where
  "ex_offering = (transfers_default (registry_default None) ex_source)
     \<lparr>tr_sending := [(replicate 16 1, \<lparr>og_offer = ex_small, og_path = ([], [98]), og_peer = [65], og_to = None,
        og_next = 0, og_acked = 0, og_stage = Offered, og_moved = 5, og_direct = False, og_offered_to = [],
        og_gone_since = None\<rparr>)]\<rparr>"

definition ex_accepted :: transfers where
  "ex_accepted = (transfers_default (registry_default None) ex_disk)\<lparr>tr_receiving := [(replicate 16 1, ex_in)]\<rparr>"

lemma ex_direct_ready:
  "ready_to_send toy_prims (replicate 16 1) ex_small ex_data ex_offering"
  "ready_to_receive (replicate 16 1) ex_small ex_data ([], [97]) ex_accepted"
  "quiet (\<lambda>_. ex_turn)" "always_seals toy_prims" "steps_only P (\<lambda>_. ex_turn)"
proof -
  show "ready_to_send toy_prims (replicate 16 1) ex_small ex_data ex_offering"
    using ex_offer_of by (simp add: ready_to_send_def ex_offering_def outgoing_at_def transfers_default_def ex_source_def)
  show "ready_to_receive (replicate 16 1) ex_small ex_data ([], [97]) ex_accepted"
  proof -
    have "incoming_at (replicate 16 1) ex_accepted = Some ex_in" "tr_fs ex_accepted = ex_disk" "is_moving (ig_stage ex_in)"
      by (simp_all add: ex_accepted_def incoming_at_def transfers_default_def ex_in_def is_moving_def)
    then show ?thesis using ex_has_pieces unfolding ready_to_receive_def by metis
  qed
  show "quiet (\<lambda>_. ex_turn)" "steps_only P (\<lambda>_. ex_turn)" by (simp_all add: quiet_def steps_only_def ex_turn_def)
  show "always_seals toy_prims" by (simp add: always_seals_def toy_prims_def)
qed

lemma ex_reached: "reach_targets [addr_text (V4 10 0 0 7) 4000] \<noteq> []"
  by (simp add: reach_targets_def addr_text_reads_back is_local_def List.map_filter_simps)

lemma direct_file_arrives_witness:
  "\<exists>st confirmation sa sb og ig n.
    snd (send_direct toy_prims (replicate 16 1) 9 (\<lambda>_. ex_turn) id st confirmation ex_offering) = sa
    \<and> outgoing_at (replicate 16 1) sa = Some og \<and> og_stage og = StageDone None
    \<and> incoming_at (replicate 16 1) sb = Some ig \<and> ig_stage ig = StageDone (Some ([], [97]))
    \<and> fs_dir (tr_fs sb) ([], [97]) = Some n \<and> fs_data (tr_fs sb) n = [1, 2]"
proof -
  have "length (replicate 16 3 :: bytes) = SALT_LEN" "length (replicate 16 1 :: bytes) = OFFER_ID_LEN"
    by (simp_all add: SALT_LEN_def OFFER_ID_LEN_def)
  from direct_file_arrives [OF toy_ok(1,2) ex_direct_ready(4,1,2,3,3) ex_reached this, of "[5]" 9 9]
  show ?thesis unfolding ex_data_def by blast
qed

lemma direct_threads_only_step_witness:
  "reaches toy_prims ex_accepted (snd (snd (fetch toy_prims [7] [5] [] True (Some [3]) True None 9 (\<lambda>_. ex_turn) [1, 2] ex_accepted)))"
  using direct_threads_only_step [OF ex_direct_ready(5,5), where last_while = id] by simp

end
