(* ===== verification/Joining.thy ===== *)
theory Joining
  imports Enroll Client Local_Net
begin

text \<open>
  Adding a device to an account, \<open>crates/asli-app/src/enroll.rs\<close>: the invitation of the device on the account
  and the attempt of the new one, each a state and the events that move it. An invitation's events are those
  of its meeting connection, the turns of the loop that sends what the person decides, and the connections on
  the local network, each of which is a talk of its own; an attempt's are those of its connection, the turns
  of the loop that asks, and what the thread on the local network found. The session of the meeting room is
  that of \<open>Session\<close>; here it is seen through the events it hands on and the queue it takes from. Locks,
  threads and the time waited between turns are not modelled.
\<close>

section \<open>The device already on the account\<close>

definition CODE_LIFETIME_MS :: u64 where [asli_const]: "CODE_LIFETIME_MS = 10 * 60 * 1000"
definition MAX_REQUESTS :: nat where [asli_const]: "MAX_REQUESTS = 8"
definition ANSWER_TOKEN :: u64 where [asli_const]: "ANSWER_TOKEN = 1"
definition NEARBY_FRAME :: nat where [asli_const]: "NEARBY_FRAME = 4096"
definition MAX_NEARBY_TALKS :: nat where [asli_const]: "MAX_NEARBY_TALKS = 16"
definition MEETING_QUEUE :: nat where [asli_const]: "MEETING_QUEUE = 8"

record asking =
  as_request_id :: bytes
  as_name :: ustr
  as_os :: ustr
  as_comparison :: string

datatype invite_outcome = InvApproved ustr | InvDeclined | InvExpired | InvFailed string

record invite_view =
  vw_listening :: bool
  vw_asking :: "asking list"
  vw_nearby_only :: bool
  vw_outcome :: "invite_outcome option"

datatype invite_command = Approve bytes | TurnDown bytes

record approver =
  ap_device :: device_keys
  ap_account_secret :: bytes
  ap_never_exported :: bool
  ap_same_network_only :: bool

record invite_shared =
  sh_requests :: "join_request list"
  sh_answer :: "(kind \<times> bytes \<times> invite_outcome) option"
  sh_confirmed :: bool
  sh_failed :: "string option"

definition answer_event :: "kind \<Rightarrow> bytes \<Rightarrow> local_event" where
  "answer_event k body = LMessage k body None (Some ANSWER_TOKEN)"

definition asking_of :: "prims \<Rightarrow> join_code \<Rightarrow> join_request \<Rightarrow> asking" where
  "asking_of P code q =
     \<lparr>as_request_id = q_request_id q, as_name = q_name q, as_os = q_os q, as_comparison = comparison_code P code q\<rparr>"

definition take_request ::
    "prims \<Rightarrow> join_code \<Rightarrow> bytes \<Rightarrow> bytes \<Rightarrow> invite_shared \<times> invite_view \<Rightarrow> invite_shared \<times> invite_view" where
  "take_request P code rm body sv =
     (case request_decode P body rm of
        Inl _ \<Rightarrow> sv
      | Inr q \<Rightarrow>
          let (sh, vw) = sv in
          if sh_answer sh \<noteq> None \<or> MAX_REQUESTS \<le> length (sh_requests sh)
             \<or> q_request_id q \<in> set (map q_request_id (sh_requests sh)) then (sh, vw)
          else (sh\<lparr>sh_requests := sh_requests sh @ [q]\<rparr>, vw\<lparr>vw_asking := vw_asking vw @ [asking_of P code q]\<rparr>))"

text \<open>The person's decision becomes the answer; the randomness is what sealing the account key draws.\<close>

definition decide ::
    "prims \<Rightarrow> rand \<Rightarrow> rand \<Rightarrow> invite_command \<Rightarrow> approver \<Rightarrow> bytes \<Rightarrow> invite_shared
      \<Rightarrow> (kind \<times> bytes) option \<times> invite_shared" where
  "decide P r1 r2 command ap rm sh =
     (if sh_answer sh \<noteq> None then (None, sh)
      else case command of
          Approve i \<Rightarrow>
            (case find (\<lambda>q. q_request_id q = i) (sh_requests sh) of
               None \<Rightarrow> (None, sh)
             | Some q \<Rightarrow>
                 (case grant P r1 r2 (ap_device ap) rm q (ap_account_secret ap) (ap_never_exported ap) of
                    Inl e \<Rightarrow> (None, sh\<lparr>sh_failed := Some (''the approval could not be made: '' @ display e)\<rparr>)
                  | Inr body \<Rightarrow>
                      (Some (JoinGrant, body), sh\<lparr>sh_answer := Some (JoinGrant, body, InvApproved (q_name q))\<rparr>)))
        | TurnDown i \<Rightarrow>
            (case decline P (ap_device ap) rm i of
               Inl e \<Rightarrow> (None, sh\<lparr>sh_failed := Some (''the answer could not be made: '' @ display e)\<rparr>)
             | Inr body \<Rightarrow> (Some (JoinDecline, body), sh\<lparr>sh_answer := Some (JoinDecline, body, InvDeclined)\<rparr>)))"

definition settled :: "invite_shared \<Rightarrow> invite_outcome option" where
  "settled sh =
     (case sh_failed sh of
        Some why \<Rightarrow> Some (InvFailed why)
      | None \<Rightarrow> if sh_confirmed sh then map_option (\<lambda>(_, _, outcome). outcome) (sh_answer sh) else None)"

text \<open>A talk with a device on the local network: it has connected, or it has asked and waits.\<close>

datatype talk = Reading | Waiting stream

record invitation =
  in_code :: join_code
  in_nearby_code :: "join_code option"
  in_approver :: approver
  in_room :: bytes
  in_expires_at_ms :: u64
  in_where :: "bytes option"
  in_shared :: invite_shared
  in_view :: invite_view
  in_cancelled :: bool
  in_connected :: bool
  in_queue :: "local_event list"
  in_ticks :: u32
  in_talks :: "talk list"
  in_written :: "bytes list"
  in_outcome :: "invite_outcome option"

definition shared_default :: invite_shared where
  "shared_default = \<lparr>sh_requests = [], sh_answer = None, sh_confirmed = False, sh_failed = None\<rparr>"

definition set_over :: "invite_outcome \<Rightarrow> invitation \<Rightarrow> invitation" where
  "set_over outcome s =
     s\<lparr>in_outcome := Some outcome,
       in_view := (in_view s)\<lparr>vw_listening := False, vw_outcome := Some outcome\<rparr>, in_connected := False\<rparr>"

definition set_listening :: "bool \<Rightarrow> invitation \<Rightarrow> invitation" where
  "set_listening on s = s\<lparr>in_view := (in_view s)\<lparr>vw_listening := on\<rparr>\<rparr>"

text \<open>What to say in the meeting room of where this device listens; the code is read back for the listener.\<close>

definition listen_nearby :: "prims \<Rightarrow> ustr list \<Rightarrow> bool \<Rightarrow> invitation \<Rightarrow> invitation" where
  "listen_nearby P addrs spawned s =
     (if addrs = [] then set_over (InvFailed ''this device is on no local network, and Same Network Only is on'') s
      else case where_body addrs of
          Inl _ \<Rightarrow> set_over (InvFailed ''too many local addresses'') s
        | Inr body \<Rightarrow>
            let s = s\<lparr>in_view := (in_view s)\<lparr>vw_nearby_only := True\<rparr>,
                in_nearby_code := (case join_parse P (join_encode P (in_code s)) of Inr c \<Rightarrow> Some c | Inl _ \<Rightarrow> None)\<rparr> in
            if spawned then s\<lparr>in_where := Some body\<rparr>
            else set_over (InvFailed ''could not listen on the local network'') (s\<lparr>in_nearby_code := None\<rparr>))"

definition invitation_open ::
    "prims \<Rightarrow> rand \<Rightarrow> u64 \<Rightarrow> approver \<Rightarrow> ustr list \<Rightarrow> bool \<Rightarrow> error + invitation" where
  "invitation_open P rnd now_ms ap addrs spawned =
     ebind (join_generate P rnd (ap_device ap)) (\<lambda>code.
       let s = \<lparr>in_code = code, in_nearby_code = None, in_approver = ap,
             in_room = id_room_id_bytes (meeting P code), in_expires_at_ms = now_ms + CODE_LIFETIME_MS,
             in_where = None, in_shared = shared_default,
             in_view = \<lparr>vw_listening = False, vw_asking = [], vw_nearby_only = False, vw_outcome = None\<rparr>,
             in_cancelled = False, in_connected = False, in_queue = [], in_ticks = 0, in_talks = [],
             in_written = [], in_outcome = None\<rparr>
       in Inr (if ap_same_network_only ap then listen_nearby P addrs spawned s else s))"

definition inv_over :: "u64 \<Rightarrow> invitation \<Rightarrow> bool" where
  "inv_over now_ms s \<longleftrightarrow> in_cancelled s \<or> in_expires_at_ms s \<le> now_ms"

definition queue_try :: "local_event \<Rightarrow> local_event list \<Rightarrow> bool \<times> local_event list" where
  "queue_try ev q = (if length q < MEETING_QUEUE then (True, q @ [ev]) else (False, q))"

text \<open>A connection starts: an answer that no relay confirmed is sent again.\<close>

definition inv_connect :: "u64 \<Rightarrow> invitation \<Rightarrow> invitation" where
  "inv_connect now_ms s =
     (if inv_over now_ms s then set_over InvExpired s
      else s\<lparr>in_connected := True, in_ticks := 0,
             in_queue := (case sh_answer (in_shared s) of None \<Rightarrow> [] | Some (k, body, _) \<Rightarrow> [answer_event k body])\<rparr>)"

definition inv_event :: "prims \<Rightarrow> client_event \<Rightarrow> invitation \<Rightarrow> invitation" where
  "inv_event P ev s =
     (case ev of
        CAuthenticated _ _ _ \<Rightarrow> set_listening True s
      | CMessage JoinRequest body \<Rightarrow>
          if ap_same_network_only (in_approver s) then s
          else let (sh, vw) = take_request P (in_code s) (in_room s) body (in_shared s, in_view s)
            in s\<lparr>in_shared := sh, in_view := vw\<rparr>
      | CSent token \<Rightarrow>
          if token = ANSWER_TOKEN then s\<lparr>in_shared := (in_shared s)\<lparr>sh_confirmed := True\<rparr>\<rparr> else s
      | _ \<Rightarrow> s)"

text \<open>The connection, or the loop that sends, has ended: how the invitation ended, if it has; or it has run out;
  or it connects again.\<close>

definition inv_ended :: "bool \<Rightarrow> u64 \<Rightarrow> invitation \<Rightarrow> invitation" where
  "inv_ended by_pump now_ms s =
     (let s = set_listening False (s\<lparr>in_connected := False\<rparr>) in
      case settled (in_shared s) of
        Some outcome \<Rightarrow> set_over outcome s
      | None \<Rightarrow> if by_pump \<and> inv_over now_ms s then set_over InvExpired s else s)"

datatype pump_input = Slept | Commanded invite_command rand rand | CommandsGone

definition say_where :: "invitation \<Rightarrow> invitation" where
  "say_where s =
     (case in_where s of
        None \<Rightarrow> s
      | Some body \<Rightarrow>
          s\<lparr>in_queue := (if in_ticks s mod 16 = 0 then snd (queue_try (LMessage JoinWhere body None None) (in_queue s))
                else in_queue s),
            in_ticks := in_ticks s + 1\<rparr>)"

definition inv_turn :: "prims \<Rightarrow> u64 \<Rightarrow> pump_input \<Rightarrow> invitation \<Rightarrow> invitation" where
  "inv_turn P now_ms inp s =
     (if sh_confirmed (in_shared s) \<or> inv_over now_ms s then inv_ended True now_ms s
      else
        let s = say_where s in
        case inp of
          Slept \<Rightarrow> s
        | CommandsGone \<Rightarrow> inv_ended True now_ms s
        | Commanded command r1 r2 \<Rightarrow>
            (let (ans, sh) = decide P r1 r2 command (in_approver s) (in_room s) (in_shared s);
                 s = s\<lparr>in_shared := sh,
                     in_queue := in_queue s @ (case ans of None \<Rightarrow> [] | Some (k, body) \<Rightarrow> [answer_event k body])\<rparr>
             in if sh_failed sh \<noteq> None then inv_ended True now_ms s else s))"

text \<open>The listener on the local network: a talk begins, reads a request under the key of the code, and is
  answered once the person has decided.\<close>

definition nearby_accept :: "u64 \<Rightarrow> bool \<Rightarrow> invitation \<Rightarrow> invitation" where
  "nearby_accept now_ms spawned s =
     (if in_where s = None \<or> inv_over now_ms s \<or> MAX_NEARBY_TALKS \<le> length (in_talks s) \<or> \<not> spawned then s
      else s\<lparr>in_talks := in_talks s @ [Reading]\<rparr>)"

definition talk_read :: "prims \<Rightarrow> join_code \<Rightarrow> bytes \<Rightarrow> bool \<Rightarrow> bytes \<Rightarrow> (bytes \<times> stream) option" where
  "talk_read P code rm limits inp =
     (if \<not> limits then None
      else case read_exact SALT_LEN inp of
          None \<Rightarrow> None
        | Some (salt, inp) \<Rightarrow>
            (case read_frame NEARBY_FRAME inp of
               None \<Rightarrow> None
             | Some (frame, _) \<Rightarrow>
                 (case stream_open P (stream_new P (join_direct_key P code) salt rm Sender) frame of
                    (Inl _, _) \<Rightarrow> None
                  | (Inr body, st) \<Rightarrow> Some (body, st))))"

definition drop_talk :: "nat \<Rightarrow> invitation \<Rightarrow> invitation" where
  "drop_talk j s = s\<lparr>in_talks := take j (in_talks s) @ drop (Suc j) (in_talks s)\<rparr>"

definition nearby_heard :: "prims \<Rightarrow> nat \<Rightarrow> bool \<Rightarrow> bytes \<Rightarrow> invitation \<Rightarrow> invitation" where
  "nearby_heard P j limits inp s =
     (if length (in_talks s) \<le> j \<or> in_talks s ! j \<noteq> Reading then s
      else case in_nearby_code s of
          None \<Rightarrow> drop_talk j s
        | Some code \<Rightarrow>
            (case talk_read P code (in_room s) limits inp of
               None \<Rightarrow> drop_talk j s
             | Some (body, st) \<Rightarrow>
                 let (sh, vw) = take_request P code (in_room s) body (in_shared s, in_view s)
                 in s\<lparr>in_shared := sh, in_view := vw, in_talks := (in_talks s)[j := Waiting st]\<rparr>))"

definition nearby_turn :: "prims \<Rightarrow> nat \<Rightarrow> u64 \<Rightarrow> nat option \<Rightarrow> invitation \<Rightarrow> invitation" where
  "nearby_turn P j now_ms torn s =
     (if length (in_talks s) \<le> j then s
      else case in_talks s ! j of
          Reading \<Rightarrow> s
        | Waiting st \<Rightarrow>
            if inv_over now_ms s then drop_talk j s
            else case sh_answer (in_shared s) of
                None \<Rightarrow> s
              | Some (k, body, _) \<Rightarrow>
                  (let (_, out) = put_frame (fst (stream_seal P st (kind_code k # body))) torn
                   in drop_talk j (s\<lparr>in_written := in_written s @ [out]\<rparr>)))"

datatype invite_event =
    IvConnect u64
  | IvEvent client_event
  | IvTaken nat
  | IvTurn u64 pump_input
  | IvDropped u64
  | IvClose
  | IvAccept u64 bool
  | IvHeard nat bool bytes
  | IvTalkTurn nat u64 "nat option"

text \<open>The connection's events come while it is up, and nothing but the talks that are left moves an invitation that
  is over.\<close>

fun inv_step :: "prims \<Rightarrow> invitation \<Rightarrow> invite_event \<Rightarrow> invitation" where
  "inv_step P s (IvConnect now_ms) = (if in_outcome s \<noteq> None \<or> in_connected s then s else inv_connect now_ms s)"
| "inv_step P s (IvEvent ev) = (if in_outcome s \<noteq> None \<or> \<not> in_connected s then s else inv_event P ev s)"
| "inv_step P s (IvTaken n) = s\<lparr>in_queue := drop n (in_queue s)\<rparr>"
| "inv_step P s (IvTurn now_ms inp) = (if in_outcome s \<noteq> None \<or> \<not> in_connected s then s else inv_turn P now_ms inp s)"
| "inv_step P s (IvDropped now_ms) = (if in_outcome s \<noteq> None \<or> \<not> in_connected s then s else inv_ended False now_ms s)"
| "inv_step P s IvClose = s\<lparr>in_cancelled := True\<rparr>"
| "inv_step P s (IvAccept now_ms spawned) = nearby_accept now_ms spawned s"
| "inv_step P s (IvHeard j limits inp) = nearby_heard P j limits inp s"
| "inv_step P s (IvTalkTurn j now_ms torn) = nearby_turn P j now_ms torn s"

section \<open>The new device\<close>

definition ASK_TURNS :: nat where [asli_const]: "ASK_TURNS = 4000 div 250"

datatype join_outcome = JoinGranted bytes bool | JoinDeclined | JoinExpired | JoinFailed string

record joiner =
  jn_device :: device_keys
  jn_device_id :: bytes
  jn_name :: ustr
  jn_os :: ustr

text \<open>\<open>jo_left\<close> counts the quarter seconds until the request is repeated. The slot for what was found, and the slot
  an answer from the local network waits in, are those shared with the event handler.\<close>

record attempt =
  jo_code :: join_code
  jo_room :: bytes
  jo_joiner :: joiner
  jo_request :: join_request
  jo_body :: bytes
  jo_gives_up_at :: u64
  jo_found :: "join_outcome option"
  jo_nearby :: "(kind \<times> bytes) option"
  jo_reaching :: bool
  jo_asked :: bool
  jo_cancelled :: bool
  jo_connected :: bool
  jo_queue :: "local_event list"
  jo_left :: nat
  jo_outcome :: "join_outcome option"

definition join_request_for :: "prims \<Rightarrow> rand \<Rightarrow> u64 \<Rightarrow> joiner \<Rightarrow> error + join_request" where
  "join_request_for P rnd now_ms jn =
     ebind (random_bytes rnd) (\<lambda>i.
       Inr \<lparr>q_request_id = i, q_device_id = jn_device_id jn, q_sign_pub = sign_pub P (jn_device jn),
            q_box_pub = box_pub P (jn_device jn), q_ts_ms = now_ms,
            q_name = the (truncate_utf8 (jn_name jn) 64), q_os = the (truncate_utf8 (jn_os jn) 64)\<rparr>)"

definition attempt_start :: "prims \<Rightarrow> rand \<Rightarrow> u64 \<Rightarrow> join_code \<Rightarrow> joiner \<Rightarrow> error + string \<times> (join_outcome + attempt)" where
  "attempt_start P rnd now_ms code jn =
     ebind (join_request_for P rnd now_ms jn) (\<lambda>q.
       let rm = id_room_id_bytes (meeting P code) in
       Inr (comparison_code P code q,
         case request_encode P q (jn_device jn) rm of
           Inl _ \<Rightarrow> Inl (JoinFailed ''could not sign the request'')
         | Inr body \<Rightarrow>
             Inr \<lparr>jo_code = code, jo_room = rm, jo_joiner = jn, jo_request = q, jo_body = body,
               jo_gives_up_at = now_ms + CODE_LIFETIME_MS, jo_found = None, jo_nearby = None, jo_reaching = False,
               jo_asked = False, jo_cancelled = False, jo_connected = False, jo_queue = [], jo_left = 0,
               jo_outcome = None\<rparr>))"

definition att_over :: "u64 \<Rightarrow> attempt \<Rightarrow> bool" where
  "att_over now_ms s \<longleftrightarrow> jo_cancelled s \<or> jo_gives_up_at s \<le> now_ms"

definition judge :: "prims \<Rightarrow> attempt \<Rightarrow> kind \<Rightarrow> bytes \<Rightarrow> join_outcome option" where
  "judge P s k body =
     (case k of
        JoinGrant \<Rightarrow>
          (case open_grant P (jo_code s) (jo_room s) (jn_device (jo_joiner s)) (q_request_id (jo_request s)) body of
             Inl _ \<Rightarrow> None
           | Inr g \<Rightarrow> Some (JoinGranted (g_secret g) (never_exported g)))
      | JoinDecline \<Rightarrow>
          if is_decline_for P (jo_code s) (jo_room s) (q_request_id (jo_request s)) body then Some JoinDeclined else None
      | _ \<Rightarrow> None)"

text \<open>Only the first thing found counts.\<close>

definition note_found :: "join_outcome option \<Rightarrow> attempt \<Rightarrow> attempt" where
  "note_found found s =
     (case found of
        None \<Rightarrow> s
      | Some x \<Rightarrow> if jo_found s = None then s\<lparr>jo_found := Some x\<rparr> else s)"

definition take_nearby_answer :: "prims \<Rightarrow> attempt \<Rightarrow> attempt" where
  "take_nearby_answer P s =
     (case jo_nearby s of
        None \<Rightarrow> s
      | Some (k, body) \<Rightarrow> note_found (judge P s k body) (s\<lparr>jo_nearby := None\<rparr>))"

definition ask_nearby :: "bytes \<Rightarrow> bool \<Rightarrow> attempt \<Rightarrow> attempt" where
  "ask_nearby where_said spawned s =
     (case read_where where_said of
        Inl _ \<Rightarrow> s
      | Inr _ \<Rightarrow> if jo_reaching s then s else s\<lparr>jo_reaching := spawned\<rparr>)"

text \<open>What the thread writes to the approving device, and what it makes of what comes back.\<close>

definition reach_and_ask ::
    "prims \<Rightarrow> bytes \<Rightarrow> bytes \<Rightarrow> bytes \<Rightarrow> ustr list \<Rightarrow> bool \<Rightarrow> rand \<Rightarrow> bool \<Rightarrow> nat option \<Rightarrow> bytes
      \<Rightarrow> bytes \<times> (kind \<times> bytes) option" where
  "reach_and_ask P key rm req addrs answered salt limits torn inp =
     (if reach_targets addrs = [] \<or> \<not> answered then ([], None)
      else case salt of
          None \<Rightarrow> ([], None)
        | Some salt \<Rightarrow>
            if \<not> limits then ([], None)
            else
              (let (sealed, st) = stream_seal P (stream_new P key salt rm Receiver) req;
                   (framed, out) = put_frame sealed None;
                   out = salt @ out;
                   (asked, out) = (case torn of None \<Rightarrow> (framed, out) | Some n \<Rightarrow> (False, take n out)) in
               if \<not> asked then (out, None)
               else case read_frame NEARBY_FRAME inp of
                   None \<Rightarrow> (out, None)
                 | Some (frame, _) \<Rightarrow>
                     (case fst (stream_open P st frame) of
                        Inl _ \<Rightarrow> (out, None)
                      | Inr [] \<Rightarrow> (out, None)
                      | Inr (k # body) \<Rightarrow> (out, Some (kind_from_code k, body)))))"

definition att_connect :: "u64 \<Rightarrow> attempt \<Rightarrow> attempt" where
  "att_connect now_ms s =
     (if att_over now_ms s then s\<lparr>jo_outcome := Some JoinExpired\<rparr>
      else s\<lparr>jo_connected := True, jo_queue := [], jo_left := 0\<rparr>)"

definition att_event :: "prims \<Rightarrow> client_event \<Rightarrow> bool \<Rightarrow> attempt \<Rightarrow> attempt" where
  "att_event P ev spawned s =
     (case ev of
        CMessage k body \<Rightarrow> if k = JoinWhere then ask_nearby body spawned s else note_found (judge P s k body) s
      | _ \<Rightarrow> s)"

definition att_ended :: "bool \<Rightarrow> u64 \<Rightarrow> attempt \<Rightarrow> attempt" where
  "att_ended by_asker now_ms s =
     (let s = s\<lparr>jo_connected := False\<rparr> in
      case jo_found s of
        Some done \<Rightarrow> s\<lparr>jo_found := None, jo_outcome := Some done\<rparr>
      | None \<Rightarrow> if by_asker \<and> att_over now_ms s then s\<lparr>jo_outcome := Some JoinExpired\<rparr> else s)"

text \<open>A turn of the asking loop: it asks when the quarter seconds are used up, and looks at the answers at each.\<close>

definition att_turn :: "prims \<Rightarrow> u64 \<Rightarrow> attempt \<Rightarrow> attempt" where
  "att_turn P now_ms s =
     (let s = take_nearby_answer P s in
      if jo_found s \<noteq> None \<or> att_over now_ms s then att_ended True now_ms s
      else if jo_left s = 0 then
        (let (queued, q) = queue_try (LMessage JoinRequest (jo_body s) None None) (jo_queue s)
         in s\<lparr>jo_queue := q, jo_asked := (jo_asked s \<or> queued), jo_left := ASK_TURNS\<rparr>)
      else s\<lparr>jo_left := jo_left s - 1\<rparr>)"

datatype attempt_event =
    JoConnect u64
  | JoEvent client_event bool
  | JoTaken nat
  | JoTurn u64
  | JoDropped u64
  | JoReached "(kind \<times> bytes) option"
  | JoCancel

fun att_step :: "prims \<Rightarrow> attempt \<Rightarrow> attempt_event \<Rightarrow> attempt" where
  "att_step P s (JoConnect now_ms) = (if jo_outcome s \<noteq> None \<or> jo_connected s then s else att_connect now_ms s)"
| "att_step P s (JoEvent ev spawned) = (if jo_outcome s \<noteq> None \<or> \<not> jo_connected s then s else att_event P ev spawned s)"
| "att_step P s (JoTaken n) = s\<lparr>jo_queue := drop n (jo_queue s)\<rparr>"
| "att_step P s (JoTurn now_ms) = (if jo_outcome s \<noteq> None \<or> \<not> jo_connected s then s else att_turn P now_ms s)"
| "att_step P s (JoDropped now_ms) = (if jo_outcome s \<noteq> None \<or> \<not> jo_connected s then s else att_ended False now_ms s)"
| "att_step P s (JoReached found) =
     (if jo_reaching s
      then s\<lparr>jo_reaching := False, jo_nearby := (case found of None \<Rightarrow> jo_nearby s | Some x \<Rightarrow> Some x)\<rparr> else s)"
| "att_step P s JoCancel = s\<lparr>jo_cancelled := True\<rparr>"

text \<open>Whether the request is still not out some seconds in; times since the attempt started, in milliseconds.\<close>

definition stuck_offline :: "nat \<Rightarrow> attempt \<Rightarrow> bool" where
  "stuck_offline elapsed_ms s \<longleftrightarrow> \<not> jo_asked s \<and> 5000 < elapsed_ms"

end
