(* ===== verification/Joining_Props.thy ===== *)
theory Joining_Props
  imports Joining Local_Net_Props
begin

text \<open>
  What adding a device promises: an invitation collects at most eight requests, shows each as it is, answers
  once, and ends as approved only when the relay has read an answer sealed to a device that asked; an attempt
  ends with an account key only by the word of the device that made the code; and between the two, approving
  the request brings the account key to the device that asked, with both showing the same six digits.
\<close>

section \<open>The invitation\<close>

definition answer_made :: "prims \<Rightarrow> invitation \<Rightarrow> kind \<times> bytes \<times> invite_outcome \<Rightarrow> bool" where
  "answer_made P s a \<longleftrightarrow>
     (case a of (k, body, outcome) \<Rightarrow>
        (k = JoinDecline \<and> outcome = InvDeclined \<and> (\<exists>i. decline P (ap_device (in_approver s)) (in_room s) i = Inr body))
        \<or> (k = JoinGrant \<and> (\<exists>q r1 r2. q \<in> set (sh_requests (in_shared s)) \<and> outcome = InvApproved (q_name q)
            \<and> grant P r1 r2 (ap_device (in_approver s)) (in_room s) q (ap_account_secret (in_approver s))
                (ap_never_exported (in_approver s)) = Inr body)))"

definition queued_ok :: "invitation \<Rightarrow> local_event \<Rightarrow> bool" where
  "queued_ok s ev \<longleftrightarrow>
     (\<exists>k body outcome. ev = answer_event k body \<and> sh_answer (in_shared s) = Some (k, body, outcome))
     \<or> (\<exists>body. ev = LMessage JoinWhere body None None \<and> in_where s = Some body)"

definition outcome_ok :: "invite_shared \<Rightarrow> invite_outcome option \<Rightarrow> bool" where
  "outcome_ok sh out \<longleftrightarrow>
     (\<forall>n. out = Some (InvApproved n) \<longrightarrow> sh_confirmed sh \<and> (\<exists>body. sh_answer sh = Some (JoinGrant, body, InvApproved n)))
     \<and> (out = Some InvDeclined \<longrightarrow> sh_confirmed sh \<and> (\<exists>body. sh_answer sh = Some (JoinDecline, body, InvDeclined)))"

definition inv_ok :: "prims \<Rightarrow> invitation \<Rightarrow> bool" where
  "inv_ok P s \<longleftrightarrow>
     length (sh_requests (in_shared s)) \<le> MAX_REQUESTS
     \<and> distinct (map q_request_id (sh_requests (in_shared s)))
     \<and> (\<forall>q \<in> set (sh_requests (in_shared s)). \<exists>body. request_decode P body (in_room s) = Inr q)
     \<and> vw_asking (in_view s) = map (asking_of P (in_code s)) (sh_requests (in_shared s))
     \<and> in_nearby_code s \<in> {None, Some (in_code s)}
     \<and> (\<forall>a. sh_answer (in_shared s) = Some a \<longrightarrow> answer_made P s a)
     \<and> list_all (queued_ok s) (in_queue s)
     \<and> length (in_talks s) \<le> MAX_NEARBY_TALKS
     \<and> outcome_ok (in_shared s) (in_outcome s)"

text \<open>What every event leaves: who is inviting, and once there is an answer, it and the requests.\<close>

definition inv_keeps :: "invitation \<Rightarrow> invitation \<Rightarrow> bool" where
  "inv_keeps s s' \<longleftrightarrow>
     in_code s' = in_code s \<and> in_approver s' = in_approver s \<and> in_room s' = in_room s \<and> in_where s' = in_where s
     \<and> in_nearby_code s' = in_nearby_code s \<and> in_expires_at_ms s' = in_expires_at_ms s
     \<and> set (sh_requests (in_shared s)) \<subseteq> set (sh_requests (in_shared s'))
     \<and> (sh_answer (in_shared s) \<noteq> None \<longrightarrow> sh_answer (in_shared s') = sh_answer (in_shared s)
          \<and> sh_requests (in_shared s') = sh_requests (in_shared s))
     \<and> (sh_confirmed (in_shared s) \<longrightarrow> sh_confirmed (in_shared s'))"

lemma take_request_cases:
  obtains "take_request P code rm body (sh, vw) = (sh, vw)"
  | q where "request_decode P body rm = Inr q" "sh_answer sh = None" "length (sh_requests sh) < MAX_REQUESTS"
    "q_request_id q \<notin> set (map q_request_id (sh_requests sh))"
    "take_request P code rm body (sh, vw) =
      (sh\<lparr>sh_requests := sh_requests sh @ [q]\<rparr>, vw\<lparr>vw_asking := vw_asking vw @ [asking_of P code q]\<rparr>)"
proof (cases "request_decode P body rm")
  case (Inl e)
  then have "take_request P code rm body (sh, vw) = (sh, vw)" by (simp add: take_request_def)
  then show ?thesis by (rule that(1))
next
  case (Inr q)
  show ?thesis
  proof (cases "sh_answer sh \<noteq> None \<or> MAX_REQUESTS \<le> length (sh_requests sh)
      \<or> q_request_id q \<in> set (map q_request_id (sh_requests sh))")
    case True
    then have "take_request P code rm body (sh, vw) = (sh, vw)" using Inr by (simp only: take_request_def sum.case Let_def prod.case if_True)
    then show ?thesis by (rule that(1))
  next
    case False
    then have "take_request P code rm body (sh, vw) =
      (sh\<lparr>sh_requests := sh_requests sh @ [q]\<rparr>, vw\<lparr>vw_asking := vw_asking vw @ [asking_of P code q]\<rparr>)"
      using Inr by (simp only: take_request_def sum.case Let_def prod.case if_False)
    then show ?thesis using Inr False by - (rule that(2), auto simp: not_le)
  qed
qed

lemma decide_cases:
  obtains (nothing) "decide P r1 r2 c ap rm sh = (None, sh)"
  | (failed) why where "decide P r1 r2 c ap rm sh = (None, sh\<lparr>sh_failed := Some why\<rparr>)" "sh_answer sh = None"
  | (granted) q body where "sh_answer sh = None" "q \<in> set (sh_requests sh)" "c = Approve (q_request_id q)"
    "grant P r1 r2 (ap_device ap) rm q (ap_account_secret ap) (ap_never_exported ap) = Inr body"
    "decide P r1 r2 c ap rm sh = (Some (JoinGrant, body), sh\<lparr>sh_answer := Some (JoinGrant, body, InvApproved (q_name q))\<rparr>)"
  | (declined) i body where "sh_answer sh = None" "c = TurnDown i" "decline P (ap_device ap) rm i = Inr body"
    "decide P r1 r2 c ap rm sh = (Some (JoinDecline, body), sh\<lparr>sh_answer := Some (JoinDecline, body, InvDeclined)\<rparr>)"
proof (cases "sh_answer sh")
  case (Some a)
  then show ?thesis by - (rule nothing, simp add: decide_def)
next
  case None
  show ?thesis
  proof (cases c)
    case (Approve i)
    show ?thesis
    proof (cases "find (\<lambda>q. q_request_id q = i) (sh_requests sh)")
      case None': None
      then show ?thesis using None Approve by - (rule nothing, simp add: decide_def)
    next
      case (Some q)
      then have q: "q \<in> set (sh_requests sh)" "q_request_id q = i" by (auto simp: find_Some_iff)
      show ?thesis
      proof (cases "grant P r1 r2 (ap_device ap) rm q (ap_account_secret ap) (ap_never_exported ap)")
        case (Inl e)
        then show ?thesis using None Approve Some by - (rule failed, simp_all add: decide_def)
      next
        case (Inr body)
        then show ?thesis using None Approve Some q by - (rule granted, auto simp: decide_def)
      qed
    qed
  next
    case (TurnDown i)
    show ?thesis
    proof (cases "decline P (ap_device ap) rm i")
      case (Inl e)
      then show ?thesis using None TurnDown by - (rule failed, simp_all add: decide_def)
    next
      case (Inr body)
      then show ?thesis using None TurnDown by - (rule declined, auto simp: decide_def)
    qed
  qed
qed

lemma inv_keeps_trans: "inv_keeps s t \<Longrightarrow> inv_keeps t u \<Longrightarrow> inv_keeps s u"
  unfolding inv_keeps_def by (metis (no_types, lifting) subset_trans)

lemma inv_keeps_refl [simp]: "inv_keeps s s"
  by (simp add: inv_keeps_def)

lemma queued_ok_mono:
  assumes "inv_keeps s s'"
  shows "queued_ok s ev \<Longrightarrow> queued_ok s' ev"
  using assms unfolding queued_ok_def inv_keeps_def by (metis option.distinct(1))

lemma queue_ok_mono: "inv_keeps s s' \<Longrightarrow> list_all (queued_ok s) q \<Longrightarrow> list_all (queued_ok s') q"
  using queued_ok_mono by (auto simp: list_all_iff)

lemma answer_made_mono: "inv_keeps s s' \<Longrightarrow> answer_made P s a \<Longrightarrow> answer_made P s' a"
  unfolding inv_keeps_def answer_made_def by (cases a) (simp; blast)

lemma outcome_ok_mono:
  "outcome_ok sh out \<Longrightarrow> (sh_answer sh \<noteq> None \<longrightarrow> sh_answer sh' = sh_answer sh) \<Longrightarrow> (sh_confirmed sh \<longrightarrow> sh_confirmed sh')
    \<Longrightarrow> outcome_ok sh' out"
  unfolding outcome_ok_def by (metis option.distinct(1))

text \<open>An event that keeps these, and whose own additions are right, keeps the rest.\<close>

lemma inv_okI:
  assumes v: "inv_ok P s" and k: "inv_keeps s s'"
    and "sh_requests (in_shared s') = sh_requests (in_shared s) \<and> vw_asking (in_view s') = vw_asking (in_view s)
      \<or> (\<exists>q body. request_decode P body (in_room s) = Inr q \<and> length (sh_requests (in_shared s)) < MAX_REQUESTS
          \<and> q_request_id q \<notin> set (map q_request_id (sh_requests (in_shared s)))
          \<and> sh_requests (in_shared s') = sh_requests (in_shared s) @ [q]
          \<and> vw_asking (in_view s') = vw_asking (in_view s) @ [asking_of P (in_code s) q])"
    and "sh_answer (in_shared s') = sh_answer (in_shared s) \<or> (\<exists>a. sh_answer (in_shared s') = Some a \<and> answer_made P s' a)"
    and "list_all (\<lambda>ev. ev \<in> set (in_queue s) \<or> queued_ok s' ev) (in_queue s')"
    and "length (in_talks s') \<le> MAX_NEARBY_TALKS" "outcome_ok (in_shared s') (in_outcome s')"
  shows "inv_ok P s'"
proof -
  have "length (sh_requests (in_shared s')) \<le> MAX_REQUESTS \<and> distinct (map q_request_id (sh_requests (in_shared s')))
     \<and> (\<forall>q \<in> set (sh_requests (in_shared s')). \<exists>body. request_decode P body (in_room s') = Inr q)
     \<and> vw_asking (in_view s') = map (asking_of P (in_code s')) (sh_requests (in_shared s'))"
    using assms(3) v k unfolding inv_ok_def inv_keeps_def by (elim disjE exE conjE) auto
  moreover have "answer_made P s' a" if "sh_answer (in_shared s') = Some a" for a
    using that assms(4) v answer_made_mono [OF k] unfolding inv_ok_def by (metis option.inject)
  moreover have "list_all (queued_ok s') (in_queue s')"
    using assms(5) v queued_ok_mono [OF k] unfolding inv_ok_def list_all_iff by blast
  moreover have "in_nearby_code s' \<in> {None, Some (in_code s')}" using v k unfolding inv_ok_def inv_keeps_def by simp
  ultimately show ?thesis using assms(6,7) unfolding inv_ok_def by blast
qed

lemma settled_ok:
  assumes "inv_ok P s"
  shows "outcome_ok (in_shared s) (settled (in_shared s))"
proof (cases "sh_answer (in_shared s)")
  case None
  then show ?thesis by (auto simp: outcome_ok_def settled_def split: option.splits)
next
  case (Some a)
  then have "answer_made P s a" using assms by (simp add: inv_ok_def)
  then show ?thesis using Some by (cases a) (auto simp: outcome_ok_def settled_def answer_made_def split: option.splits if_splits)
qed

lemma inv_ok_frame:
  assumes "inv_ok P s" "in_shared s' = in_shared s" "in_code s' = in_code s" "in_approver s' = in_approver s"
    "in_room s' = in_room s" "in_where s' = in_where s" "in_nearby_code s' = in_nearby_code s"
    "in_expires_at_ms s' = in_expires_at_ms s" "vw_asking (in_view s') = vw_asking (in_view s)"
    "list_all (\<lambda>ev. ev \<in> set (in_queue s) \<or> queued_ok s ev) (in_queue s')" "length (in_talks s') \<le> MAX_NEARBY_TALKS"
    "in_outcome s' \<in> {in_outcome s, Some InvExpired, settled (in_shared s)}"
  shows "inv_ok P s' \<and> inv_keeps s s'"
proof -
  have k: "inv_keeps s s'" using assms by (simp add: inv_keeps_def)
  have "outcome_ok (in_shared s') (in_outcome s')"
  proof -
    have "outcome_ok (in_shared s) (Some InvExpired)" by (simp add: outcome_ok_def)
    then show ?thesis using assms(1,2,12) settled_ok [OF assms(1)] by (auto simp: inv_ok_def)
  qed
  then show ?thesis using k inv_okI [OF assms(1) k] assms queued_ok_mono [OF k] by (auto simp: list_all_iff)
qed

lemma set_over_ok: "inv_ok P s \<Longrightarrow> outcome = InvExpired \<or> Some outcome = settled (in_shared s)
    \<Longrightarrow> inv_ok P (set_over outcome s) \<and> inv_keeps s (set_over outcome s)"
  by (rule inv_ok_frame) (auto simp: set_over_def inv_ok_def list_all_iff)

lemma inv_ended_ok:
  assumes "inv_ok P s"
  shows "inv_ok P (inv_ended b now_ms s) \<and> inv_keeps s (inv_ended b now_ms s)"
proof -
  define t where "t = set_listening False (s\<lparr>in_connected := False\<rparr>)"
  have t: "inv_ok P t \<and> inv_keeps s t"
    by (rule inv_ok_frame [OF assms]) (use assms in \<open>simp_all add: t_def set_listening_def inv_ok_def list_all_iff\<close>)
  have "inv_ok P (inv_ended b now_ms s) \<and> inv_keeps t (inv_ended b now_ms s)"
    using t set_over_ok [of P t] by (auto simp: inv_ended_def t_def [symmetric] Let_def split: option.splits)
  then show ?thesis using t inv_keeps_trans by blast
qed

lemma take_request_ok:
  assumes v: "inv_ok P s" and t: "take_request P (in_code s) (in_room s) body (in_shared s, in_view s) = (sh, vw)"
    and ts: "length ts \<le> MAX_NEARBY_TALKS"
  shows "inv_ok P (s\<lparr>in_shared := sh, in_view := vw, in_talks := ts\<rparr>)
    \<and> inv_keeps s (s\<lparr>in_shared := sh, in_view := vw, in_talks := ts\<rparr>)" (is "inv_ok P ?s \<and> _")
  using take_request_cases [of P "in_code s" "in_room s" body "in_shared s" "in_view s"]
proof cases
  case 1
  then show ?thesis using t ts by (intro inv_ok_frame [OF v]) (simp_all add: list_all_iff)
next
  case (2 q)
  then have sv: "sh = (in_shared s)\<lparr>sh_requests := sh_requests (in_shared s) @ [q]\<rparr>"
    "vw = (in_view s)\<lparr>vw_asking := vw_asking (in_view s) @ [asking_of P (in_code s) q]\<rparr>" using t by simp_all
  have k: "inv_keeps s ?s" using 2(2) sv by (auto simp: inv_keeps_def)
  have "outcome_ok sh (in_outcome s)"
    using v 2(2) sv by - (rule outcome_ok_mono [of "in_shared s"], simp_all add: inv_ok_def)
  moreover have "\<exists>q body. request_decode P body (in_room s) = Inr q \<and> length (sh_requests (in_shared s)) < MAX_REQUESTS
      \<and> q_request_id q \<notin> set (map q_request_id (sh_requests (in_shared s)))
      \<and> sh_requests (in_shared ?s) = sh_requests (in_shared s) @ [q]
      \<and> vw_asking (in_view ?s) = vw_asking (in_view s) @ [asking_of P (in_code s) q]"
    by (rule exI [of _ q], rule exI [of _ body]) (use 2(1,3,4) in \<open>simp add: sv\<close>)
  ultimately have "inv_ok P ?s"
    by (intro inv_okI [OF v k disjI2]) (use sv ts in \<open>simp_all add: list_all_iff\<close>)
  then show ?thesis using k by simp
qed

lemma say_where_ok:
  assumes "inv_ok P s"
  shows "inv_ok P (say_where s) \<and> inv_keeps s (say_where s)"
  by (rule inv_ok_frame [OF assms])
    (use assms in \<open>auto simp: say_where_def queue_try_def inv_ok_def queued_ok_def list_all_iff Let_def split: option.splits\<close>)

lemma decide_ok:
  assumes v: "inv_ok P s" and d: "decide P r1 r2 c (in_approver s) (in_room s) (in_shared s) = (ans, sh)"
  defines "u \<equiv> s\<lparr>in_shared := sh, in_queue := in_queue s @ (case ans of None \<Rightarrow> [] | Some (k, body) \<Rightarrow> [answer_event k body])\<rparr>"
  shows "inv_ok P u \<and> inv_keeps s u"
proof -
  have out: "outcome_ok (in_shared s) (in_outcome s)" "length (in_talks s) \<le> MAX_NEARBY_TALKS" using v by (simp_all add: inv_ok_def)
  show ?thesis
    using decide_cases [of P r1 r2 c "in_approver s" "in_room s" "in_shared s"]
  proof cases
    case nothing
    then show ?thesis using d v by (simp add: u_def)
  next
    case (failed why)
    then have u: "u = s\<lparr>in_shared := (in_shared s)\<lparr>sh_failed := Some why\<rparr>, in_queue := in_queue s\<rparr>" using d by (simp add: u_def)
    have k: "inv_keeps s u" by (simp add: u inv_keeps_def)
    have "outcome_ok (in_shared u) (in_outcome u)" using out(1) by (simp add: u outcome_ok_def)
    then show ?thesis using k out(2) inv_okI [OF v k] by (simp add: u list_all_iff)
  next
    case (granted q body)
    then have u: "u = s\<lparr>in_shared := (in_shared s)\<lparr>sh_answer := Some (JoinGrant, body, InvApproved (q_name q))\<rparr>,
        in_queue := in_queue s @ [answer_event JoinGrant body]\<rparr>" using d by (auto simp: u_def)
    have k: "inv_keeps s u" using granted(1) by (simp add: u inv_keeps_def)
    have "outcome_ok (in_shared u) (in_outcome u)" using outcome_ok_mono [OF out(1)] granted(1) by (simp add: u)
    moreover have "answer_made P u (JoinGrant, body, InvApproved (q_name q))"
      using granted(2,4) by (auto simp: u answer_made_def)
    ultimately show ?thesis using k out(2) inv_okI [OF v k] by (simp add: u list_all_iff queued_ok_def)
  next
    case (declined i body)
    then have u: "u = s\<lparr>in_shared := (in_shared s)\<lparr>sh_answer := Some (JoinDecline, body, InvDeclined)\<rparr>,
        in_queue := in_queue s @ [answer_event JoinDecline body]\<rparr>" using d by (auto simp: u_def)
    have k: "inv_keeps s u" using declined(1) by (simp add: u inv_keeps_def)
    have "outcome_ok (in_shared u) (in_outcome u)" using outcome_ok_mono [OF out(1)] declined(1) by (simp add: u)
    moreover have "answer_made P u (JoinDecline, body, InvDeclined)" using declined(3) by (auto simp: u answer_made_def)
    ultimately show ?thesis using k out(2) inv_okI [OF v k] by (simp add: u list_all_iff queued_ok_def)
  qed
qed

lemma inv_turn_ok:
  assumes "inv_ok P s"
  shows "inv_ok P (inv_turn P now_ms inp s) \<and> inv_keeps s (inv_turn P now_ms inp s)"
proof -
  define t where "t = say_where s"
  note t = say_where_ok [OF assms, folded t_def]
  have fin: "inv_ok P u \<and> inv_keeps t u \<Longrightarrow> inv_ok P (inv_ended True now_ms u) \<and> inv_keeps t (inv_ended True now_ms u)" for u
    using inv_ended_ok inv_keeps_trans by blast
  have "inv_ok P (inv_turn P now_ms inp s) \<and> (inv_keeps s (inv_turn P now_ms inp s) \<or> inv_keeps t (inv_turn P now_ms inp s))"
  proof (cases "sh_confirmed (in_shared s) \<or> inv_over now_ms s")
    case True
    then show ?thesis using inv_ended_ok [OF assms] by (simp add: inv_turn_def)
  next
    case over: False
    show ?thesis
    proof (cases inp)
      case (Commanded c r1 r2)
      obtain ans sh where d: "decide P r1 r2 c (in_approver t) (in_room t) (in_shared t) = (ans, sh)" by fastforce
      show ?thesis
        using over Commanded d decide_ok [OF _ d] t fin by (auto simp: inv_turn_def t_def [symmetric] Let_def)
    qed (use over t fin in \<open>auto simp: inv_turn_def t_def [symmetric] Let_def\<close>)
  qed
  then show ?thesis using t inv_keeps_trans by blast
qed

lemma drop_talk_ok: "inv_ok P s \<Longrightarrow> inv_ok P (drop_talk j s) \<and> inv_keeps s (drop_talk j s)"
  by (rule inv_ok_frame) (auto simp: drop_talk_def inv_ok_def list_all_iff)

lemma nearby_accept_ok: "inv_ok P s \<Longrightarrow> inv_ok P (nearby_accept now_ms spawned s) \<and> inv_keeps s (nearby_accept now_ms spawned s)"
  by (rule inv_ok_frame) (auto simp: nearby_accept_def inv_ok_def list_all_iff)

lemma nearby_turn_ok:
  assumes "inv_ok P s"
  shows "inv_ok P (nearby_turn P j now_ms torn s) \<and> inv_keeps s (nearby_turn P j now_ms torn s)"
proof -
  have w: "inv_ok P (s\<lparr>in_written := ws\<rparr>) \<and> inv_keeps s (s\<lparr>in_written := ws\<rparr>)" for ws
    by (rule inv_ok_frame [OF assms]) (use assms in \<open>simp_all add: inv_ok_def list_all_iff\<close>)
  then have "inv_ok P (drop_talk j (s\<lparr>in_written := ws\<rparr>)) \<and> inv_keeps s (drop_talk j (s\<lparr>in_written := ws\<rparr>))" for ws
    using drop_talk_ok inv_keeps_trans by blast
  then show ?thesis
    using assms drop_talk_ok [OF assms, of j] by (auto simp: nearby_turn_def split_beta Let_def split: talk.splits option.splits)
qed

lemma nearby_heard_ok:
  assumes "inv_ok P s"
  shows "inv_ok P (nearby_heard P j limits inp s) \<and> inv_keeps s (nearby_heard P j limits inp s)"
proof (cases "length (in_talks s) \<le> j \<or> in_talks s ! j \<noteq> Reading")
  case True
  then show ?thesis using assms by (simp add: nearby_heard_def)
next
  case False
  show ?thesis
  proof (cases "Option.bind (in_nearby_code s) (\<lambda>code. talk_read P code (in_room s) limits inp)")
    case None
    then show ?thesis using False drop_talk_ok [OF assms, of j] by (auto simp: nearby_heard_def split: option.splits)
  next
    case (Some r)
    obtain body st where r: "r = (body, st)" by (cases r)
    have c: "in_nearby_code s = Some (in_code s)" using Some assms by (auto simp: inv_ok_def)
    obtain sh vw where t: "take_request P (in_code s) (in_room s) body (in_shared s, in_view s) = (sh, vw)" by fastforce
    have "length ((in_talks s)[j := Waiting st]) \<le> MAX_NEARBY_TALKS" using assms by (simp add: inv_ok_def)
    from take_request_ok [OF assms t this] show ?thesis using False Some r c t by (simp add: nearby_heard_def)
  qed
qed

lemma inv_event_ok:
  assumes "inv_ok P s"
  shows "inv_ok P (inv_event P ev s) \<and> inv_keeps s (inv_event P ev s)"
proof -
  have l: "inv_ok P (set_listening True s) \<and> inv_keeps s (set_listening True s)"
    by (rule inv_ok_frame [OF assms]) (use assms in \<open>simp_all add: set_listening_def inv_ok_def list_all_iff\<close>)
  define c where "c = s\<lparr>in_shared := (in_shared s)\<lparr>sh_confirmed := True\<rparr>\<rparr>"
  have k: "inv_keeps s c" by (simp add: c_def inv_keeps_def)
  have "outcome_ok (in_shared c) (in_outcome c)" using assms by (auto simp: c_def inv_ok_def outcome_ok_def)
  then have c: "inv_ok P c" using assms by (intro inv_okI [OF assms k]) (simp_all add: c_def inv_ok_def list_all_iff)
  have "inv_ok P (s\<lparr>in_shared := sh, in_view := vw\<rparr>) \<and> inv_keeps s (s\<lparr>in_shared := sh, in_view := vw\<rparr>)"
    if "take_request P (in_code s) (in_room s) body (in_shared s, in_view s) = (sh, vw)" for body sh vw
    using take_request_ok [OF assms that, of "in_talks s"] assms by (simp add: inv_ok_def)
  then show ?thesis using assms l c k
    by (auto simp: inv_event_def c_def [symmetric] split: client_event.splits kind.splits prod.splits)
qed

lemma inv_connect_ok: "inv_ok P s \<Longrightarrow> inv_ok P (inv_connect now_ms s) \<and> inv_keeps s (inv_connect now_ms s)"
proof (cases "inv_over now_ms s")
  case True
  moreover assume "inv_ok P s"
  ultimately show ?thesis by (simp add: inv_connect_def set_over_ok)
next
  case False
  assume v: "inv_ok P s"
  have "list_all (queued_ok s) (case sh_answer (in_shared s) of None \<Rightarrow> [] | Some (k, body, _) \<Rightarrow> [answer_event k body])"
    by (cases "sh_answer (in_shared s)") (auto simp: queued_ok_def)
  then show ?thesis using False v unfolding inv_connect_def
    by simp (rule inv_ok_frame, auto simp: inv_ok_def list_all_iff)
qed

lemma inv_step_ok: "inv_ok P s \<Longrightarrow> inv_ok P (inv_step P s e) \<and> inv_keeps s (inv_step P s e)"
proof (cases e)
  case (IvTaken n)
  moreover assume "inv_ok P s"
  ultimately show ?thesis by simp (rule inv_ok_frame, auto simp: inv_ok_def list_all_iff dest: in_set_dropD)
next
  case IvClose
  moreover assume "inv_ok P s"
  ultimately show ?thesis by simp (rule inv_ok_frame, auto simp: inv_ok_def list_all_iff)
qed (auto simp: inv_connect_ok inv_event_ok inv_turn_ok inv_ended_ok nearby_accept_ok nearby_heard_ok nearby_turn_ok)

interpretation inviting: machine "inv_step P" "inv_ok P" for P
  by unfold_locales (simp add: inv_step_ok)

lemma join_code_read_back:
  assumes "hash_ok P" "length (meeting_secret code) = 12" "length (code_fingerprint code) = 6"
  shows "join_parse P (join_encode P code) = Inr code"
proof -
  obtain d where d: "join_encode P code = CODE_PREFIX @ base32_encode d" by (simp add: join_encode_def Let_def)
  have b: "c \<in> set (base32_encode d) \<Longrightarrow> \<not> is_whitespace c \<and> c \<noteq> 45 \<and> c < 128" for c
    using base32_plain [of c d] whitespace_range [of c] by auto
  then have "join_compact (base32_encode d) = base32_encode d" by (simp add: join_compact_def filter_id_conv)
  moreover have "join_compact CODE_PREFIX = CODE_PREFIX"
    by (simp add: join_compact_def CODE_PREFIX_def ulit_def is_whitespace_def)
  ultimately have "join_compact (join_encode P code) = CODE_PREFIX @ base32_encode d"
    by (simp add: d join_compact_def)
  moreover have "str_ok (join_encode P code)"
    using b CODE_PREFIX_ascii(1) by (intro str_ok_ascii) (auto simp: d list_all_iff)
  ultimately show ?thesis
    by (intro join_code_retyped [OF assms]) (simp_all add: d CODE_PREFIX_ascii eq_ignore_ascii_case_def)
qed

text \<open>An invitation just opened.\<close>

lemma invitation_open_ok:
  assumes "hash_ok P" "length secret = 12" "invitation_open P (Some secret) now_ms ap addrs spawned = Inr s"
  shows "inv_ok P s" "in_approver s = ap" "in_code s = \<lparr>meeting_secret = secret, code_fingerprint = fingerprint P (sign_pub P (ap_device ap))\<rparr>"
    "in_room s = id_room_id_bytes (meeting P (in_code s))" "sh_requests (in_shared s) = []" "sh_answer (in_shared s) = None"
proof -
  define code where "code = \<lparr>meeting_secret = secret, code_fingerprint = fingerprint P (sign_pub P (ap_device ap))\<rparr>"
  have "join_parse P (join_encode P code) = Inr code"
    by (rule join_code_read_back [OF assms(1)])
      (simp_all add: code_def assms(2) fingerprint_def hash_okD [OF assms(1)] FINGERPRINT_LEN_def)
  then show "inv_ok P s" "in_approver s = ap" "in_code s = code"
    "in_room s = id_room_id_bytes (meeting P (in_code s))" "sh_requests (in_shared s) = []" "sh_answer (in_shared s) = None"
    using assms(3)
    by (auto simp: invitation_open_def join_generate_def Let_def listen_nearby_def set_over_def shared_default_def inv_ok_def
      outcome_ok_def code_def [symmetric] split: if_splits sum.splits)
qed

lemma inv_run_keeps: "inv_ok P s \<Longrightarrow> inv_ok P (foldl (inv_step P) s es) \<and> inv_keeps s (foldl (inv_step P) s es)"
proof (induction es arbitrary: s)
  case (Cons e es)
  then show ?case using inv_step_ok [OF Cons.prems] inv_keeps_trans by (simp, blast)
qed simp

text \<open>An answer comes from a command of the person.\<close>

lemma answer_from_command:
  assumes v: "inv_ok P s" and n: "sh_answer (in_shared s) = None" and a: "sh_answer (in_shared (inv_step P s e)) = Some (k, body, outcome)"
  shows "\<exists>now_ms c r1 r2. e = IvTurn now_ms (Commanded c r1 r2)
    \<and> (k = JoinGrant \<longrightarrow> (\<exists>q. c = Approve (q_request_id q) \<and> q \<in> set (sh_requests (in_shared s)) \<and> outcome = InvApproved (q_name q)
        \<and> grant P r1 r2 (ap_device (in_approver s)) (in_room s) q (ap_account_secret (in_approver s))
            (ap_never_exported (in_approver s)) = Inr body))"
proof -
  have take: "sh_answer (fst (take_request P c rm b (in_shared s, vw))) = None" for c rm b vw
    using n by (cases "request_decode P b rm") (simp_all add: take_request_def Let_def)
  have same: "sh_answer (in_shared (inv_ended b now_ms t)) = sh_answer (in_shared t)" for b now_ms t
    by (simp add: inv_ended_def set_over_def set_listening_def Let_def split: option.splits)
  have sw: "in_shared (say_where s) = in_shared s" "in_approver (say_where s) = in_approver s" "in_room (say_where s) = in_room s"
    by (simp_all add: say_where_def split: option.splits)
  show ?thesis
  proof (cases e)
    case (IvTurn now_ms inp)
    show ?thesis
    proof (cases inp)
      case (Commanded c r1 r2)
      obtain ans sh where d: "decide P r1 r2 c (in_approver s) (in_room s) (in_shared s) = (ans, sh)" by fastforce
      have "sh_answer sh = Some (k, body, outcome)"
        using a n IvTurn Commanded d
        by (auto simp: inv_turn_def Let_def sw same split: if_splits)
      note sh = this
      show ?thesis
        using decide_cases [of P r1 r2 c "in_approver s" "in_room s" "in_shared s"]
      proof cases
        case (granted q b)
        then have "b = body" "outcome = InvApproved (q_name q)" "k = JoinGrant" using d sh by auto
        then show ?thesis using granted IvTurn Commanded by blast
      next
        case (declined i b)
        then have "k = JoinDecline" using d sh by auto
        then show ?thesis using IvTurn Commanded by simp
      qed (use d sh n in auto)
    qed (use a n IvTurn in \<open>simp_all add: inv_turn_def Let_def sw same split: if_splits\<close>)
  next
    case (IvEvent ev)
    then show ?thesis using a n take
      by (auto simp: inv_event_def set_listening_def split_beta Let_def split: if_splits client_event.splits kind.splits)
  next
    case (IvHeard j limits inp)
    then show ?thesis using a n take
      by (auto simp: nearby_heard_def drop_talk_def split_beta Let_def split: if_splits option.splits)
  next
    case (IvTalkTurn j now_ms torn)
    then show ?thesis using a n
      by (auto simp: nearby_turn_def drop_talk_def split_beta Let_def split: if_splits option.splits talk.splits)
  qed (use a n in \<open>simp_all add: inv_connect_def set_over_def same nearby_accept_def split: if_splits\<close>)
qed

text \<open>A request comes from the relay or from a talk.\<close>

lemma request_from:
  assumes v: "inv_ok P s" and q: "q \<in> set (sh_requests (in_shared (inv_step P s e)))" "q \<notin> set (sh_requests (in_shared s))"
  shows "(\<exists>body. e = IvEvent (CMessage JoinRequest body) \<and> \<not> ap_same_network_only (in_approver s)
      \<and> request_decode P body (in_room s) = Inr q)
    \<or> (\<exists>j limits inp body st. e = IvHeard j limits inp \<and> talk_read P (in_code s) (in_room s) limits inp = Some (body, st)
      \<and> request_decode P body (in_room s) = Inr q)"
proof -
  have take: "request_decode P body rm = Inr q"
    if "q \<in> set (sh_requests (fst (take_request P c rm body (in_shared s, vw))))" for body rm c vw
    using take_request_cases [of P c rm body "in_shared s" vw] by cases (use that q(2) in simp_all)
  have same: "sh_requests (in_shared (inv_ended b now_ms t)) = sh_requests (in_shared t)" for b now_ms t
    by (simp add: inv_ended_def set_over_def set_listening_def Let_def split: option.splits)
  have sw: "in_shared (say_where t) = in_shared t" for t by (simp add: say_where_def split: option.splits)
  have dec: "sh_requests (snd (decide P r1 r2 c ap rm sh)) = sh_requests sh" for r1 r2 c ap rm sh
    using decide_cases [of P r1 r2 c ap rm sh] by cases simp_all
  show ?thesis
  proof (cases e)
    case (IvTurn now_ms inp)
    then show ?thesis using q
      by (cases inp) (auto simp: inv_turn_def Let_def sw same split_beta dec split: if_splits)
  next
    case (IvEvent ev)
    then show ?thesis using q take
      by (auto simp: inv_event_def set_listening_def split_beta Let_def split: if_splits client_event.splits kind.splits)
  next
    case (IvHeard j limits inp)
    have "in_nearby_code s = Some (in_code s) \<or> in_nearby_code s = None" using v by (auto simp: inv_ok_def)
    then show ?thesis using q take IvHeard
      by (auto simp: nearby_heard_def drop_talk_def split_beta Let_def split: if_splits option.splits)
  next
    case (IvTalkTurn j now_ms torn)
    then show ?thesis using q
      by (auto simp: nearby_turn_def drop_talk_def split_beta Let_def split: if_splits option.splits talk.splits)
  qed (use q in \<open>simp_all add: inv_connect_def set_over_def same nearby_accept_def split: if_splits\<close>)
qed

section \<open>Properties of an invitation\<close>

text \<open>C32: In any run of an invitation from its opening: it has collected at most eight requests, with ids of their own;
  it shows each with the six digits of its code and in the order they came; it talks to at most sixteen devices
  at once; and what waits to be sent is well typed: the answer, as a grant or a decline to the room with the
  token that confirms it, or where the device listens.\<close>

theorem invitation_well_typed:
  assumes "hash_ok P" "length secret = 12" "invitation_open P (Some secret) now_ms ap addrs spawned = Inr s"
    and t: "t = foldl (inv_step P) s es"
  shows "length (sh_requests (in_shared t)) \<le> 8 \<and> distinct (map q_request_id (sh_requests (in_shared t)))
    \<and> list_all request_ok (sh_requests (in_shared t))
    \<and> vw_asking (in_view t) = map (asking_of P (in_code s)) (sh_requests (in_shared t))
    \<and> length (in_talks t) \<le> 16
    \<and> list_all (\<lambda>ev. \<exists>body. ev \<in> {LMessage JoinGrant body None (Some 1), LMessage JoinDecline body None (Some 1),
        LMessage JoinWhere body None None}) (in_queue t)"
proof -
  have v: "inv_ok P t" "inv_keeps s t"
    using inv_run_keeps [OF invitation_open_ok(1) [OF assms(1-3)]] by (simp_all add: t)
  then have "list_all request_ok (sh_requests (in_shared t))" unfolding inv_ok_def list_all_iff request_decode_iff by blast
  moreover have "\<exists>body. ev \<in> {LMessage JoinGrant body None (Some 1), LMessage JoinDecline body None (Some 1),
        LMessage JoinWhere body None None}" if "ev \<in> set (in_queue t)" for ev
  proof -
    have "queued_ok t ev" using v(1) that by (simp add: inv_ok_def list_all_iff)
    then show ?thesis using v(1) unfolding queued_ok_def
      by (auto simp: inv_ok_def answer_made_def answer_event_def ANSWER_TOKEN_def)
  qed
  ultimately show ?thesis using v by (simp add: inv_ok_def inv_keeps_def list_all_iff MAX_REQUESTS_def MAX_NEARBY_TALKS_def)
qed

text \<open>C29: A code admits one device: once there is an answer, whatever comes changes neither it nor the requests; and an
  invitation ends as approved only when the relay read a grant of the account key, sealed to a device whose
  request was taken and which the person approved by its id.\<close>

theorem invitation_admits_one:
  assumes "hash_ok P" "length secret = 12" "invitation_open P (Some secret) now_ms ap addrs spawned = Inr s"
    and t: "t = foldl (inv_step P) s es"
  shows "(sh_answer (in_shared t) \<noteq> None \<longrightarrow>
      sh_answer (in_shared (foldl (inv_step P) t fs)) = sh_answer (in_shared t)
      \<and> sh_requests (in_shared (foldl (inv_step P) t fs)) = sh_requests (in_shared t))
    \<and> (in_outcome t = Some (InvApproved name) \<longrightarrow>
      (\<exists>q body r1 r2 moment. q \<in> set (sh_requests (in_shared t)) \<and> name = q_name q \<and> sh_confirmed (in_shared t)
        \<and> IvTurn moment (Commanded (Approve (q_request_id q)) r1 r2) \<in> set es
        \<and> sh_answer (in_shared t) = Some (JoinGrant, body, InvApproved name)
        \<and> grant P r1 r2 (ap_device ap) (in_room s) q (ap_account_secret ap) (ap_never_exported ap) = Inr body))"
proof -
  note o = invitation_open_ok [OF assms(1-3)]
  have v: "inv_ok P t" "inv_keeps s t" using inv_run_keeps [OF o(1)] by (simp_all add: t)
  have "\<exists>q r1 r2 moment. q \<in> set (sh_requests (in_shared (foldl (inv_step P) s es))) \<and> outcome = InvApproved (q_name q)
        \<and> IvTurn moment (Commanded (Approve (q_request_id q)) r1 r2) \<in> set es
        \<and> grant P r1 r2 (ap_device ap) (in_room s) q (ap_account_secret ap) (ap_never_exported ap) = Inr body"
    if "sh_answer (in_shared (foldl (inv_step P) s es)) = Some (JoinGrant, body, outcome)" for body outcome
    using that
  proof (induction es rule: rev_induct)
    case Nil
    then show ?case using o(6) by simp
  next
    case (snoc e es)
    define u where "u = foldl (inv_step P) s es"
    have u: "inv_ok P u" "inv_keeps s u" using inv_run_keeps [OF o(1)] by (simp_all add: u_def)
    have k: "inv_keeps u (inv_step P u e)" using inv_step_ok [OF u(1)] by blast
    have more: "set (sh_requests (in_shared u)) \<subseteq> set (sh_requests (in_shared (foldl (inv_step P) s (es @ [e]))))"
      using k by (simp add: inv_keeps_def u_def)
    show ?case
    proof (cases "sh_answer (in_shared u)")
      case None
      have "sh_answer (in_shared (inv_step P u e)) = Some (JoinGrant, body, outcome)" using snoc.prems by (simp add: u_def)
      from answer_from_command [OF u(1) None this] obtain moment r1 r2 q where
        c: "e = IvTurn moment (Commanded (Approve (q_request_id q)) r1 r2)" and
        q: "q \<in> set (sh_requests (in_shared u))" "outcome = InvApproved (q_name q)" and
        g: "grant P r1 r2 (ap_device (in_approver u)) (in_room u) q (ap_account_secret (in_approver u))
            (ap_never_exported (in_approver u)) = Inr body" by blast
      have "in_approver u = ap" "in_room u = in_room s" using u(2) o(2) by (simp_all add: inv_keeps_def)
      then have "grant P r1 r2 (ap_device ap) (in_room s) q (ap_account_secret ap) (ap_never_exported ap) = Inr body"
        using g by simp
      moreover have "IvTurn moment (Commanded (Approve (q_request_id q)) r1 r2) \<in> set (es @ [e])" using c by simp
      ultimately show ?thesis using q more by blast
    next
      case (Some a)
      then have "sh_answer (in_shared u) = Some (JoinGrant, body, outcome)"
        using k snoc.prems by (simp add: inv_keeps_def u_def)
      from snoc.IH [OF this [unfolded u_def]] show ?thesis using more unfolding u_def set_append by blast
    qed
  qed
  moreover have "\<exists>body. sh_confirmed (in_shared t) \<and> sh_answer (in_shared t) = Some (JoinGrant, body, InvApproved name)"
    if "in_outcome t = Some (InvApproved name)" using v(1) that by (auto simp: inv_ok_def outcome_ok_def)
  moreover have "inv_keeps t (foldl (inv_step P) t fs)" using inv_run_keeps [OF v(1)] by blast
  ultimately show ?thesis unfolding t [symmetric] inv_keeps_def by (metis invite_outcome.inject(1))
qed

text \<open>C31: With Same Network Only on, a request is taken only from a connection to this device's own listener, in a frame
  sealed under the key that only the code makes.\<close>

theorem requests_only_from_nearby:
  assumes "hash_ok P" "length secret = 12" "invitation_open P (Some secret) now_ms ap addrs spawned = Inr s"
    and "ap_same_network_only ap" "q \<in> set (sh_requests (in_shared (foldl (inv_step P) s es)))"
  shows "\<exists>j salt frame rest inp body. IvHeard j True inp \<in> set es \<and> read_exact 16 inp = Some (salt, rest)
    \<and> fst (stream_open P (stream_new P (join_direct_key P (in_code s)) salt (in_room s) Sender) frame) = Inr body
    \<and> (\<exists>more. read_frame 4096 rest = Some (frame, more)) \<and> request_decode P body (in_room s) = Inr q"
  using assms(5)
proof (induction es rule: rev_induct)
  case Nil
  then show ?case using invitation_open_ok(5) [OF assms(1-3)] by simp
next
  case (snoc e es)
  define u where "u = foldl (inv_step P) s es"
  have u: "inv_ok P u" "inv_keeps s u"
    using inv_run_keeps [OF invitation_open_ok(1) [OF assms(1-3)]] by (simp_all add: u_def)
  have ap: "ap_same_network_only (in_approver u)" using u(2) assms(4) invitation_open_ok(2) [OF assms(1-3)] by (simp add: inv_keeps_def)
  show ?case
  proof (cases "q \<in> set (sh_requests (in_shared u))")
    case True
    then show ?thesis using snoc.IH by (fastforce simp: u_def)
  next
    case False
    have now: "q \<in> set (sh_requests (in_shared (inv_step P u e)))" using snoc.prems by (simp add: u_def)
    obtain j limits inp body st where e: "e = IvHeard j limits inp"
      "talk_read P (in_code s) (in_room s) limits inp = Some (body, st)" "request_decode P body (in_room s) = Inr q"
      using request_from [OF u(1) now False] ap u(2) by (auto simp: inv_keeps_def)
    from e(2) obtain salt rest frame more where t: "limits" "read_exact 16 inp = Some (salt, rest)"
      "read_frame 4096 rest = Some (frame, more)"
      "fst (stream_open P (stream_new P (join_direct_key P (in_code s)) salt (in_room s) Sender) frame) = Inr body"
      by (auto simp: talk_read_def SALT_LEN_def NEARBY_FRAME_def split: if_splits option.splits prod.splits sum.splits)
    have "IvHeard j True inp \<in> set (es @ [e])" using e(1) t(1) by simp
    then show ?thesis using t(2-4) e(3) by blast
  qed
qed

section \<open>The attempt\<close>

text \<open>The answers an attempt was told, over the relay or by the thread on the local network.\<close>

definition told :: "attempt_event list \<Rightarrow> kind \<Rightarrow> bytes \<Rightarrow> bool" where
  "told es k body \<longleftrightarrow> (\<exists>spawned. JoEvent (CMessage k body) spawned \<in> set es) \<or> JoReached (Some (k, body)) \<in> set es"

definition join_told :: "prims \<Rightarrow> attempt \<Rightarrow> attempt_event list \<Rightarrow> join_outcome \<Rightarrow> bool" where
  "join_told P s es out \<longleftrightarrow>
     (case out of
        JoinGranted sec never \<Rightarrow> \<exists>body. told es JoinGrant body
          \<and> open_grant P (jo_code s) (jo_room s) (jn_device (jo_joiner s)) (q_request_id (jo_request s)) body
              = Inr \<lparr>g_secret = sec, never_exported = never\<rparr>
      | JoinDeclined \<Rightarrow> \<exists>body. told es JoinDecline body
          \<and> is_decline_for P (jo_code s) (jo_room s) (q_request_id (jo_request s)) body
      | JoinExpired \<Rightarrow> True
      | JoinFailed _ \<Rightarrow> False)"

definition att_ok :: "prims \<Rightarrow> attempt \<Rightarrow> attempt_event list \<Rightarrow> attempt \<Rightarrow> bool" where
  "att_ok P s es t \<longleftrightarrow>
     jo_code t = jo_code s \<and> jo_room t = jo_room s \<and> jo_joiner t = jo_joiner s \<and> jo_request t = jo_request s
     \<and> jo_body t = jo_body s
     \<and> (\<forall>out. jo_found t = Some out \<longrightarrow> join_told P s es out)
     \<and> (\<forall>out. jo_outcome t = Some out \<longrightarrow> join_told P s es out)
     \<and> (\<forall>k body. jo_nearby t = Some (k, body) \<longrightarrow> told es k body)
     \<and> list_all (\<lambda>ev. ev = LMessage JoinRequest (jo_body s) None None) (jo_queue t)"

lemma told_mono: "set es \<subseteq> set fs \<Longrightarrow> told es k body \<Longrightarrow> told fs k body"
  by (auto simp: told_def)

lemma join_told_mono: "set es \<subseteq> set fs \<Longrightarrow> join_told P s es out \<Longrightarrow> join_told P s fs out"
  using told_mono unfolding join_told_def by (cases out) (simp_all, blast+)

lemma att_ok_mono: "set es \<subseteq> set fs \<Longrightarrow> att_ok P s es t \<Longrightarrow> att_ok P s fs t"
  using told_mono [of es fs] join_told_mono [of es fs P s] unfolding att_ok_def by blast

lemma judge_told:
  assumes "att_ok P s es t" "told es k body" "judge P t k body = Some out"
  shows "join_told P s es out"
proof -
  have same: "jo_code t = jo_code s" "jo_room t = jo_room s" "jo_joiner t = jo_joiner s" "jo_request t = jo_request s"
    using assms(1) by (simp_all add: att_ok_def)
  have g: "r = Inr g \<Longrightarrow> r = Inr \<lparr>g_secret = g_secret g, never_exported = never_exported g\<rparr>"
    for g :: granted and r :: "error + granted" by simp
  show ?thesis using assms(2,3) g unfolding join_told_def judge_def same
    by (cases k) (auto intro!: exI [of _ body] split: sum.splits if_splits)
qed

lemma note_found_ok: "att_ok P s es t \<Longrightarrow> (\<And>out. found = Some out \<Longrightarrow> join_told P s es out) \<Longrightarrow> att_ok P s es (note_found found t)"
  by (auto simp: att_ok_def note_found_def split: option.splits)

lemma take_nearby_ok:
  assumes "att_ok P s es t"
  shows "att_ok P s es (take_nearby_answer P t)"
proof (cases "jo_nearby t")
  case None
  then show ?thesis using assms by (simp add: take_nearby_answer_def)
next
  case (Some a)
  obtain k body where a: "a = (k, body)" by (cases a)
  have "att_ok P s es (t\<lparr>jo_nearby := None\<rparr>)" using assms by (simp add: att_ok_def)
  moreover have "told es k body" using assms Some a by (simp add: att_ok_def)
  ultimately show ?thesis using Some a note_found_ok judge_told [OF assms] by (simp add: take_nearby_answer_def)
qed

lemma att_ended_ok: "att_ok P s es t \<Longrightarrow> att_ok P s es (att_ended b now_ms t)"
  by (auto simp: att_ended_def att_ok_def join_told_def Let_def split: option.splits)

lemma att_turn_ok:
  assumes "att_ok P s es t"
  shows "att_ok P s es (att_turn P now_ms t)"
proof -
  define u where "u = take_nearby_answer P t"
  have u: "att_ok P s es u" using take_nearby_ok [OF assms] by (simp add: u_def)
  show ?thesis
  proof (cases "jo_found u \<noteq> None \<or> att_over now_ms u")
    case True
    then show ?thesis using att_ended_ok [OF u] by (simp add: att_turn_def u_def [symmetric] Let_def)
  next
    case False
    then show ?thesis using u by (auto simp: att_turn_def u_def [symmetric] Let_def queue_try_def att_ok_def)
  qed
qed

lemma att_step_ok:
  assumes "att_ok P s es t"
  shows "att_ok P s (es @ [e]) (att_step P t e)"
proof -
  have v: "att_ok P s (es @ [e]) t" by (rule att_ok_mono [OF _ assms]) auto
  show ?thesis
  proof (cases e)
    case (JoEvent ev spawned)
    have "told (es @ [e]) k body" if "ev = CMessage k body" for k body
      unfolding told_def by (rule disjI1, rule exI [of _ spawned]) (simp add: JoEvent that)
    then have n: "att_ok P s (es @ [e]) (note_found (judge P t k body) t)" if "ev = CMessage k body" for k body
      using that by (intro note_found_ok [OF v] judge_told [OF v]) blast+
    have "att_ok P s (es @ [e]) (ask_nearby body spawned t)" for body
      using v by (simp add: ask_nearby_def att_ok_def split: sum.splits)
    then show ?thesis using v n JoEvent by (auto simp: att_event_def split: client_event.splits)
  next
    case (JoReached found)
    then have "told (es @ [e]) k body" if "found = Some (k, body)" for k body using that by (simp add: told_def)
    then show ?thesis using v JoReached by (auto simp: att_ok_def split: option.splits)
  next
    case (JoTaken n)
    then show ?thesis using v by (auto simp: att_ok_def list_all_iff dest: in_set_dropD)
  next
    case JoCancel
    then show ?thesis using v by (simp add: att_ok_def)
  next
    case (JoConnect now_ms)
    then show ?thesis using v by (auto simp: att_connect_def att_ok_def join_told_def)
  next
    case (JoTurn now_ms)
    then show ?thesis using v att_turn_ok [OF v] by simp
  next
    case (JoDropped now_ms)
    then show ?thesis using v att_ended_ok [OF v] by simp
  qed
qed

lemma att_run_ok: "att_ok P s [] s \<Longrightarrow> att_ok P s es (foldl (att_step P) s es)"
  by (induction es rule: rev_induct) (simp_all add: att_step_ok)

lemma att_outcome_stays: "jo_outcome t \<noteq> None \<Longrightarrow> jo_outcome (foldl (att_step P) t fs) = jo_outcome t"
proof (induction fs arbitrary: t)
  case (Cons e fs)
  have "jo_outcome (att_step P t e) = jo_outcome t" using Cons.prems by (cases e) simp_all
  then show ?case using Cons by simp
qed simp

lemma attempt_start_ok:
  assumes "attempt_start P rnd now_ms code jn = Inr (digits, Inr s)"
  shows "att_ok P s es s" "jo_code s = code" "jo_room s = id_room_id_bytes (meeting P code)" "jo_joiner s = jn"
    "request_encode P (jo_request s) (jn_device jn) (jo_room s) = Inr (jo_body s)"
    "digits = comparison_code P code (jo_request s)" "join_request_for P rnd now_ms jn = Inr (jo_request s)"
proof -
  obtain q where q: "join_request_for P rnd now_ms jn = Inr q" using assms by (auto simp: attempt_start_def ebind_Inr_iff)
  obtain body where b: "request_encode P q (jn_device jn) (id_room_id_bytes (meeting P code)) = Inr body"
    using assms q by (auto simp: attempt_start_def Let_def split: sum.splits)
  have s: "s = \<lparr>jo_code = code, jo_room = id_room_id_bytes (meeting P code), jo_joiner = jn, jo_request = q, jo_body = body,
      jo_gives_up_at = now_ms + CODE_LIFETIME_MS, jo_found = None, jo_nearby = None, jo_reaching = False,
      jo_asked = False, jo_cancelled = False, jo_connected = False, jo_queue = [], jo_left = 0, jo_outcome = None\<rparr>"
    and "digits = comparison_code P code q"
    using assms q b by (simp_all add: attempt_start_def Let_def)
  then show "att_ok P s es s" "jo_code s = code" "jo_room s = id_room_id_bytes (meeting P code)" "jo_joiner s = jn"
    "request_encode P (jo_request s) (jn_device jn) (jo_room s) = Inr (jo_body s)"
    "digits = comparison_code P code (jo_request s)" "join_request_for P rnd now_ms jn = Inr (jo_request s)"
    using q b by (simp_all add: att_ok_def)
qed

text \<open>C30: A device joins an account, or is turned down, only by the word of the device that made the code: what it
  was told is a grant or a decline for its own request, signed under a key with the code's fingerprint, and the
  account key comes out of the box sealed to its own key. An outcome never changes, and the only thing it sends
  is its own request.\<close>

theorem joined_by_code_maker:
  assumes "attempt_start P rnd now_ms code jn = Inr (digits, Inr s)"
    and t: "t = foldl (att_step P) s es"
  shows "(jo_outcome t = Some (JoinGranted sec never) \<longrightarrow>
      (\<exists>approver sealed sig. told es JoinGrant
            (put_grant (q_request_id (jo_request s)) (sign_pub P (jn_device jn)) approver sealed @ sig)
        \<and> signed_by P approver LABEL_GRANT (jo_room s)
            (put_grant (q_request_id (jo_request s)) (sign_pub P (jn_device jn)) approver sealed) sig
        \<and> fingerprint P approver = code_fingerprint code
        \<and> open_box P (jn_device jn) LABEL_GRANT sealed = Inr (1 # sec @ [flag_byte never])))
    \<and> (jo_outcome t = Some JoinDeclined \<longrightarrow>
      (\<exists>approver sig. told es JoinDecline (put_decline (q_request_id (jo_request s)) approver @ sig)
        \<and> signed_by P approver LABEL_DECLINE (jo_room s) (put_decline (q_request_id (jo_request s)) approver) sig
        \<and> fingerprint P approver = code_fingerprint code))
    \<and> (jo_outcome t \<noteq> None \<longrightarrow> jo_outcome (foldl (att_step P) t fs) = jo_outcome t)
    \<and> list_all (\<lambda>ev. ev = LMessage JoinRequest (jo_body s) None None) (jo_queue t)"
proof -
  note o = attempt_start_ok [OF assms(1)]
  have v: "att_ok P s es t" using att_run_ok [OF o(1)] by (simp add: t)
  have "join_told P s es out" if "jo_outcome t = Some out" for out using v that by (simp add: att_ok_def)
  note out = this [unfolded join_told_def]
  have "\<exists>approver sealed sig. told es JoinGrant
            (put_grant (q_request_id (jo_request s)) (sign_pub P (jn_device jn)) approver sealed @ sig)
        \<and> signed_by P approver LABEL_GRANT (jo_room s)
            (put_grant (q_request_id (jo_request s)) (sign_pub P (jn_device jn)) approver sealed) sig
        \<and> fingerprint P approver = code_fingerprint code
        \<and> open_box P (jn_device jn) LABEL_GRANT sealed = Inr (1 # sec @ [flag_byte never])"
    if "jo_outcome t = Some (JoinGranted sec never)"
    using out [OF that] o(2,4) by (auto simp: open_grant_iff made_by_def)
  moreover have "\<exists>approver sig. told es JoinDecline (put_decline (q_request_id (jo_request s)) approver @ sig)
        \<and> signed_by P approver LABEL_DECLINE (jo_room s) (put_decline (q_request_id (jo_request s)) approver) sig
        \<and> fingerprint P approver = code_fingerprint code"
    if "jo_outcome t = Some JoinDeclined"
    using out [OF that] o(2) by (auto simp: is_decline_for_iff made_by_def)
  moreover have "list_all (\<lambda>ev. ev = LMessage JoinRequest (jo_body s) None None) (jo_queue t)" using v by (simp add: att_ok_def)
  ultimately show ?thesis using att_outcome_stays by blast
qed

section \<open>Both end\<close>

lemma inv_outcome_stays: "in_outcome s \<noteq> None \<Longrightarrow> in_outcome (foldl (inv_step P) s es) = in_outcome s"
proof (induction es arbitrary: s)
  case (Cons e es)
  have "in_outcome (inv_step P s e) = in_outcome s"
    using Cons.prems by (cases e) (auto simp: nearby_accept_def nearby_heard_def nearby_turn_def drop_talk_def split_beta Let_def
      split: option.splits talk.splits)
  then show ?case using Cons by simp
qed simp

lemma inv_over_stays: "inv_over now_ms s \<Longrightarrow> now_ms \<le> later_ms \<Longrightarrow> inv_over later_ms s"
  by (auto simp: inv_over_def)

lemma att_over_stays: "att_over now_ms s \<Longrightarrow> now_ms \<le> later_ms \<Longrightarrow> att_over later_ms s"
  by (auto simp: att_over_def)

lemma take_nearby_over [simp]: "att_over now_ms (take_nearby_answer P t) = att_over now_ms t"
  by (auto simp: take_nearby_answer_def note_found_def att_over_def split: option.splits prod.splits)

lemma disconnected_over [simp]: "att_over now_ms (t\<lparr>jo_connected := b\<rparr>) = att_over now_ms t"
  by (simp add: att_over_def)

text \<open>C33: Both sides end. Once an invitation is closed or out of time, the next turn of its loop ends it if it is connected, and
  the next attempt to connect if it is not; and the same holds of a device that asks, once it gives up or its time is up. From
  then on nothing changes how it ended.\<close>

theorem joining_ends:
  fixes s :: invitation and t :: attempt
  shows "(inv_over now_ms s \<and> now_ms \<le> later_ms \<longrightarrow>
      (\<exists>out. in_outcome (foldl (inv_step P) s ((if in_connected s then IvTurn later_ms inp else IvConnect later_ms) # es)) = Some out
        \<and> (in_outcome s \<noteq> None \<longrightarrow> in_outcome s = Some out)))
    \<and> (att_over now_ms t \<and> now_ms \<le> later_ms \<longrightarrow>
      (\<exists>out. jo_outcome (foldl (att_step P) t ((if jo_connected t then JoTurn later_ms else JoConnect later_ms) # fs)) = Some out
        \<and> (jo_outcome t \<noteq> None \<longrightarrow> jo_outcome t = Some out)))"
proof (intro conjI impI; elim conjE)
  assume "inv_over now_ms s" "now_ms \<le> later_ms"
  then have o: "inv_over later_ms s" by (rule inv_over_stays)
  define u where "u = inv_step P s (if in_connected s then IvTurn later_ms inp else IvConnect later_ms)"
  have "in_outcome u \<noteq> None"
    using o by (auto simp: u_def inv_turn_def inv_connect_def inv_ended_def set_over_def set_listening_def Let_def inv_over_def
      split: option.splits)
  moreover have "in_outcome s \<noteq> None \<longrightarrow> in_outcome s = in_outcome u" by (auto simp: u_def)
  ultimately show "\<exists>out. in_outcome (foldl (inv_step P) s ((if in_connected s then IvTurn later_ms inp else IvConnect later_ms) # es))
      = Some out \<and> (in_outcome s \<noteq> None \<longrightarrow> in_outcome s = Some out)"
    using inv_outcome_stays [of u P es] by (auto simp: u_def [symmetric])
next
  assume "att_over now_ms t" "now_ms \<le> later_ms"
  then have o: "att_over later_ms t" by (rule att_over_stays)
  define u where "u = att_step P t (if jo_connected t then JoTurn later_ms else JoConnect later_ms)"
  have "jo_outcome u \<noteq> None"
    using o by (auto simp: u_def att_turn_def att_connect_def att_ended_def Let_def split: option.splits)
  moreover have "jo_outcome t \<noteq> None \<longrightarrow> jo_outcome t = jo_outcome u" by (auto simp: u_def)
  ultimately show "\<exists>out. jo_outcome (foldl (att_step P) t ((if jo_connected t then JoTurn later_ms else JoConnect later_ms) # fs)) = Some out
        \<and> (jo_outcome t \<noteq> None \<longrightarrow> jo_outcome t = Some out)"
    using att_outcome_stays [of u P fs] by (auto simp: u_def [symmetric])
qed

section \<open>From request to account key\<close>

lemma grant_short: "length secret = 32 \<Longrightarrow> length (1 # secret @ [flag_byte b]) < 2 ^ 32"
  by simp

lemma grant_made:
  assumes "aead_tagged P" "always_seals P" "dh_ok P" "q_box_pub q = box_pub P keys" "length nonce = 24" "length secret = 32"
  obtains body where "grant P (Some eph) (Some nonce) dev rm q secret exported = Inr body"
proof -
  have "p_x_contributory P eph (q_box_pub q)" using dh_okD [OF assms(3)] assms(4) by (simp add: box_pub_def)
  moreover obtain c where "p_aead_seal P (box_key P (p_x_dh P eph (q_box_pub q)) (p_x_pub P eph) (q_box_pub q) LABEL_GRANT) nonce
      LABEL_GRANT (1 # secret @ [flag_byte exported]) = Some c"
    using assms(2,6) unfolding always_seals_def by (metis (no_types) grant_short option.exhaust)
  ultimately have b: "seal_box_with P eph nonce (q_box_pub q) LABEL_GRANT (1 # secret @ [flag_byte exported])
      = Inr (p_x_pub P eph @ nonce @ c)" and l: "length (p_x_pub P eph @ nonce @ c) = 106"
    using aead_taggedD [OF assms(1)] dh_okD [OF assms(3)] assms(5,6) by (simp_all add: seal_box_with_def Let_def)
  show thesis
    by (rule that) (use b l in \<open>simp add: grant_def Let_def seal_box_def w_blob_def\<close>)
qed

lemma cut_text_ok: "str_ok t \<Longrightarrow> text_ok (the (truncate_utf8 t 64))"
  using truncate_utf8_maximal [of t 64] by (auto simp: text_ok_def MAX_TEXT_BYTES_def str_ok_take)

lemma own_request_ok:
  assumes "sig_ok P" "dh_ok P" "join_request_for P (Some rid) now_ms jn = Inr q" "length rid = 16" "length (jn_device_id jn) = 16"
    "str_ok (jn_name jn)" "str_ok (jn_os jn)"
  shows "request_ok q" "q_request_id q = rid" "q_sign_pub q = sign_pub P (jn_device jn)" "q_box_pub q = box_pub P (jn_device jn)"
  using assms(3-) cut_text_ok sig_okD(1) [OF assms(1)] dh_okD [OF assms(2)]
  by (auto simp: join_request_for_def request_ok_def sign_pub_def box_pub_def asli_const)

text \<open>A request just taken: it is the last, and shown with its digits.\<close>

lemma take_request_new:
  assumes "request_decode P body rm = Inr q" "sh_answer sh = None" "length (sh_requests sh) < 8"
    "q_request_id q \<notin> set (map q_request_id (sh_requests sh))"
  shows "take_request P code rm body (sh, vw) =
    (sh\<lparr>sh_requests := sh_requests sh @ [q]\<rparr>, vw\<lparr>vw_asking := vw_asking vw @ [asking_of P code q]\<rparr>)"
  using assms by (simp add: take_request_def MAX_REQUESTS_def)

lemma find_new: "P x \<Longrightarrow> (\<And>y. y \<in> set xs \<Longrightarrow> \<not> P y) \<Longrightarrow> find P (xs @ [x]) = Some x"
  by (induction xs) auto

lemma say_where_keeps [simp]: "in_approver (say_where s) = in_approver s" "in_room (say_where s) = in_room s"
  "in_shared (say_where s) = in_shared s" "in_view (say_where s) = in_view s" "in_outcome (say_where s) = in_outcome s"
  "in_connected (say_where s) = in_connected s" "in_code (say_where s) = in_code s"
  by (simp_all add: say_where_def split: option.splits)

text \<open>The run from a request to the account key.\<close>

lemma approval_run:
  assumes P: "aead_ok P" "aead_tagged P" "always_seals P" "dh_ok P" "sig_ok P" "hash_ok P"
    and i: "length secret = 12" "invitation_open P (Some secret) opened_ms ap addrs spawned = Inr s0"
      "\<not> ap_same_network_only ap" "length (ap_account_secret ap) = 32"
    and j: "attempt_start P (Some rid) started_ms (in_code s0) jn = Inr (digits, Inr t0)" "length rid = 16"
      "length (jn_device_id jn) = 16" "str_ok (jn_name jn)" "str_ok (jn_os jn)"
    and s: "s = foldl (inv_step P) s0 es" "in_connected s" "in_outcome s = None" "\<not> inv_over now_ms s"
      "sh_answer (in_shared s) = None" "\<not> sh_confirmed (in_shared s)" "sh_failed (in_shared s) = None"
      "length (sh_requests (in_shared s)) < 8" "rid \<notin> set (map q_request_id (sh_requests (in_shared s)))"
    and t: "t = foldl (att_step P) t0 fs" "jo_connected t" "jo_outcome t = None" "jo_found t = None"
    and n: "length nonce = 24"
  shows "\<exists>s' body. s' = foldl (inv_step P) s [IvEvent (CMessage JoinRequest (jo_body t0)),
        IvTurn now_ms (Commanded (Approve rid) (Some eph) (Some nonce))]
    \<and> last (vw_asking (in_view s')) = \<lparr>as_request_id = rid, as_name = q_name (jo_request t0),
        as_os = q_os (jo_request t0), as_comparison = digits\<rparr>
    \<and> last (in_queue s') = LMessage JoinGrant body None (Some 1)
    \<and> jo_outcome (foldl (att_step P) t [JoEvent (CMessage JoinGrant body) b, JoTurn later_ms])
        = Some (JoinGranted (ap_account_secret ap) (ap_never_exported ap))
    \<and> in_outcome (foldl (inv_step P) s' [IvEvent (CSent 1), IvTurn end_ms Slept]) = Some (InvApproved (q_name (jo_request t0)))"
proof -
  note o = invitation_open_ok [OF P(6) i(1,2)] and r = attempt_start_ok [OF j(1)]
  define q where "q = jo_request t0"
  note q = own_request_ok [OF P(5,4) r(7) j(2-5), folded q_def]
  have k: "in_code s = in_code s0" "in_approver s = ap" "in_room s = in_room s0"
    using inv_run_keeps [OF o(1)] o(2) by (simp_all add: s(1) inv_keeps_def)
  have room: "jo_room t0 = in_room s0" using r(3) o(4) by simp
  have v: "att_ok P t0 fs t" using att_run_ok [OF r(1)] by (simp add: t(1))
  then have tk: "jo_code t = in_code s0" "jo_room t = in_room s0" "jo_joiner t = jn" "jo_request t = q"
    using r(2,4) room by (simp_all add: att_ok_def q_def)
  have dec: "request_decode P (jo_body t0) (in_room s) = Inr q"
  proof -
    have "jo_body t0 = file_sign P (jn_device jn) LABEL_REQUEST (in_room s0) (put_request q)"
      using r(5) request_encode_ok [OF q(1,3,4)] by (simp add: q_def room)
    then show ?thesis unfolding request_decode_iff k using q(1) file_sign_signed [OF P(5)] q(3) by metis
  qed
  obtain body where g: "grant P (Some eph) (Some nonce) (ap_device ap) (in_room s0) q (ap_account_secret ap) (ap_never_exported ap) = Inr body"
    by (rule grant_made [OF P(2-4) q(4) n i(4)])
  have "code_fingerprint (in_code s0) = fingerprint P (sign_pub P (ap_device ap))" using o(3) by simp
  from grant_opens [OF P(1,2,4,5) this q(3,4) _ refl n i(4) g]
  have opens: "open_grant P (in_code s0) (in_room s0) (jn_device jn) rid body
      = Inr \<lparr>g_secret = ap_account_secret ap, never_exported = ap_never_exported ap\<rparr>"
    using q(2) j(2) by simp
  define s1 where "s1 = inv_step P s (IvEvent (CMessage JoinRequest (jo_body t0)))"
  have s1: "s1 = s\<lparr>in_shared := (in_shared s)\<lparr>sh_requests := sh_requests (in_shared s) @ [q]\<rparr>,
      in_view := (in_view s)\<lparr>vw_asking := vw_asking (in_view s) @ [asking_of P (in_code s0) q]\<rparr>\<rparr>"
    using s(2,3) i(3) k take_request_new [OF dec s(5,8)] s(9) q(2) by (simp add: s1_def inv_event_def)
  define s2 where "s2 = inv_step P s1 (IvTurn now_ms (Commanded (Approve rid) (Some eph) (Some nonce)))"
  have "find (\<lambda>x. q_request_id x = rid) (sh_requests (in_shared s) @ [q]) = Some q"
    by (rule find_new) (use q(2) in simp, metis s(9) imageI list.set_map)
  then have d: "decide P (Some eph) (Some nonce) (Approve rid) ap (in_room s0) (in_shared s1)
      = (Some (JoinGrant, body), (in_shared s1)\<lparr>sh_answer := Some (JoinGrant, body, InvApproved (q_name q))\<rparr>)"
    using g s(5) by (simp add: s1 decide_def)
  have over: "\<not> inv_over now_ms s1" using s(4) by (simp add: s1 inv_over_def)
  have s2: "s2 = (say_where s1)\<lparr>in_shared := (in_shared s1)\<lparr>sh_answer := Some (JoinGrant, body, InvApproved (q_name q))\<rparr>,
      in_queue := in_queue (say_where s1) @ [answer_event JoinGrant body]\<rparr>"
    using s(2,3,6,7) d over k by (simp add: s2_def inv_turn_def Let_def s1)
  have shown: "last (vw_asking (in_view s2)) = \<lparr>as_request_id = rid, as_name = q_name q, as_os = q_os q, as_comparison = digits\<rparr>"
    using q(2) r(6) by (simp add: s2 s1 asking_of_def q_def)
  have queued: "last (in_queue s2) = LMessage JoinGrant body None (Some 1)"
    by (simp add: s2 answer_event_def ANSWER_TOKEN_def)
  have ended: "in_outcome (foldl (inv_step P) s2 [IvEvent (CSent 1), IvTurn end_ms Slept]) = Some (InvApproved (q_name q))"
    using s(2,3,7) by (simp add: s2 s1 inv_event_def ANSWER_TOKEN_def inv_turn_def inv_ended_def set_listening_def settled_def
      set_over_def)
  have "att_step P t (JoEvent (CMessage JoinGrant body) b) = t\<lparr>jo_found := Some (JoinGranted (ap_account_secret ap) (ap_never_exported ap))\<rparr>"
    using t(2-4) tk opens q(2) by (simp add: att_event_def judge_def note_found_def)
  moreover have "jo_found (take_nearby_answer P u) = jo_found u" if "jo_found u \<noteq> None" for u
    using that by (auto simp: take_nearby_answer_def note_found_def split: option.splits)
  ultimately have "jo_outcome (foldl (att_step P) t [JoEvent (CMessage JoinGrant body) b, JoTurn later_ms])
        = Some (JoinGranted (ap_account_secret ap) (ap_never_exported ap))"
    using t(2,3) by (simp add: att_turn_def att_ended_def Let_def)
  moreover have "s2 = foldl (inv_step P) s [IvEvent (CMessage JoinRequest (jo_body t0)),
        IvTurn now_ms (Commanded (Approve rid) (Some eph) (Some nonce))]" by (simp add: s2_def s1_def)
  ultimately show ?thesis using shown queued ended unfolding q_def by blast
qed


section \<open>Examples\<close>

definition ex_approver :: approver where
  "ex_approver = \<lparr>ap_device = ex_keys, ap_account_secret = replicate 32 6, ap_never_exported = True, ap_same_network_only = False\<rparr>"

definition ex_joiner :: joiner where
  "ex_joiner = \<lparr>jn_device = keys_from_secret toy_prims (replicate 32 3), jn_device_id = replicate 16 2, jn_name = [97], jn_os = []\<rparr>"

lemma toy_always_seals: "always_seals toy_prims"
  by (simp add: always_seals_def toy_prims_def)

lemma ex_invited: "\<exists>s. invitation_open toy_prims (Some (replicate 12 5)) 0 ap addrs spawned = Inr s"
  by (simp add: invitation_open_def join_generate_def Let_def MEETING_SECRET_LEN_def)

lemma ex_ready:
  obtains s0 t0 digits s t where
    "invitation_open toy_prims (Some (replicate 12 5)) 0 ex_approver [] True = Inr s0"
    "attempt_start toy_prims (Some (replicate 16 1)) 0 (in_code s0) ex_joiner = Inr (digits, Inr t0)"
    "s = foldl (inv_step toy_prims) s0 [IvConnect 5]" "in_connected s" "in_outcome s = None" "\<not> inv_over 5 s"
    "sh_answer (in_shared s) = None" "\<not> sh_confirmed (in_shared s)" "sh_failed (in_shared s) = None"
    "sh_requests (in_shared s) = []"
    "t = foldl (att_step toy_prims) t0 [JoConnect 5]" "jo_connected t" "jo_outcome t = None" "jo_found t = None"
proof -
  obtain s0 where s0: "invitation_open toy_prims (Some (replicate 12 5)) 0 ex_approver [] True = Inr s0" using ex_invited by blast
  then have s: "\<not> inv_over 5 s0" "in_shared s0 = shared_default" "\<not> in_connected s0" "in_outcome s0 = None"
    by (auto simp: invitation_open_def join_generate_def Let_def ex_approver_def inv_over_def CODE_LIFETIME_MS_def)
  obtain q where q: "join_request_for toy_prims (Some (replicate 16 1)) 0 ex_joiner = Inr q" by (simp add: join_request_for_def)
  have "request_ok q" "q_sign_pub q = sign_pub toy_prims (jn_device ex_joiner)" "q_box_pub q = box_pub toy_prims (jn_device ex_joiner)"
    by (rule own_request_ok [OF toy_ok(3,4) q]; simp add: ex_joiner_def is_scalar_def)+
  then obtain digits t0 where t0: "attempt_start toy_prims (Some (replicate 16 1)) 0 (in_code s0) ex_joiner = Inr (digits, Inr t0)"
    and t: "\<not> att_over 5 t0" "\<not> jo_connected t0" "jo_outcome t0 = None" "jo_found t0 = None"
    using q request_encode_ok by (simp add: attempt_start_def Let_def att_over_def CODE_LIFETIME_MS_def)
  show thesis
    by (rule that [OF s0 t0 refl _ _ _ _ _ _ _ refl])
      (use s t in \<open>simp_all add: inv_connect_def inv_over_def shared_default_def att_connect_def\<close>)
qed

lemma invitation_well_typed_witness:
  "\<exists>s. invitation_open toy_prims (Some (replicate 12 5)) 0 ex_approver [] True = Inr s
    \<and> length (sh_requests (in_shared (foldl (inv_step toy_prims) s [IvConnect 5]))) \<le> 8"
proof -
  obtain s where s: "invitation_open toy_prims (Some (replicate 12 5)) 0 ex_approver [] True = Inr s" using ex_invited by blast
  then show ?thesis using invitation_well_typed [OF toy_ok(5) _ s refl, of "[IvConnect 5]"] by simp
qed

text \<open>The whole run, from the code to the account key and the confirmation.\<close>

lemma ex_joined:
  obtains s0 t0 digits e1 e2 body where
    "invitation_open toy_prims (Some (replicate 12 5)) 0 ex_approver [] True = Inr s0"
    "attempt_start toy_prims (Some (replicate 16 1)) 0 (in_code s0) ex_joiner = Inr (digits, Inr t0)"
    "in_outcome (foldl (inv_step toy_prims) s0 [IvConnect 5, e1, e2, IvEvent (CSent 1), IvTurn 6 Slept])
      = Some (InvApproved (q_name (jo_request t0)))"
    "jo_outcome (foldl (att_step toy_prims) t0 [JoConnect 5, JoEvent (CMessage JoinGrant body) False, JoTurn 6])
      = Some (JoinGranted (replicate 32 6) True)"
proof -
  obtain s0 t0 digits s t where e: "invitation_open toy_prims (Some (replicate 12 5)) 0 ex_approver [] True = Inr s0"
    "attempt_start toy_prims (Some (replicate 16 1)) 0 (in_code s0) ex_joiner = Inr (digits, Inr t0)"
    and s: "s = foldl (inv_step toy_prims) s0 [IvConnect 5]" "in_connected s" "in_outcome s = None" "\<not> inv_over 5 s"
    "sh_answer (in_shared s) = None" "\<not> sh_confirmed (in_shared s)" "sh_failed (in_shared s) = None"
    and n: "sh_requests (in_shared s) = []"
    and t: "t = foldl (att_step toy_prims) t0 [JoConnect 5]" "jo_connected t" "jo_outcome t = None" "jo_found t = None"
    by (rule ex_ready) blast
  have jn: "length (jn_device_id ex_joiner) = 16" "str_ok (jn_name ex_joiner)" "str_ok (jn_os ex_joiner)"
    and ap: "\<not> ap_same_network_only ex_approver" "length (ap_account_secret ex_approver) = 32"
    and len: "length (replicate 12 (5 :: byte)) = 12" "length (replicate 16 (1 :: byte)) = 16" "length (replicate 24 (7 :: byte)) = 24"
    and fresh: "length (sh_requests (in_shared s)) < 8" "replicate 16 1 \<notin> set (map q_request_id (sh_requests (in_shared s)))"
    by (simp_all add: ex_joiner_def is_scalar_def ex_approver_def n)
  from approval_run [OF toy_ok(1,2) toy_always_seals toy_ok(4,3,5) len(1) e(1) ap e(2) len(2) jn s fresh t len(3),
    of "[4]" False 6 6]
  obtain s' body where r: "s' = foldl (inv_step toy_prims) s [IvEvent (CMessage JoinRequest (jo_body t0)),
        IvTurn 5 (Commanded (Approve (replicate 16 1)) (Some [4]) (Some (replicate 24 7)))]"
    "in_outcome (foldl (inv_step toy_prims) s' [IvEvent (CSent 1), IvTurn 6 Slept]) = Some (InvApproved (q_name (jo_request t0)))"
    "jo_outcome (foldl (att_step toy_prims) t [JoEvent (CMessage JoinGrant body) False, JoTurn 6])
      = Some (JoinGranted (ap_account_secret ex_approver) (ap_never_exported ex_approver))" by blast
  have "foldl (att_step toy_prims) t0 (JoConnect 5 # es) = foldl (att_step toy_prims) t es" for es by (simp add: t(1))
  moreover have "foldl (inv_step toy_prims) s0 (IvConnect 5 # a # b # es) = foldl (inv_step toy_prims) (foldl (inv_step toy_prims) s [a, b]) es"
    for a b es by (simp add: s(1))
  moreover have "ap_account_secret ex_approver = replicate 32 6" "ap_never_exported ex_approver = True" by (simp_all add: ex_approver_def)
  ultimately show thesis
    by (intro that [OF e, of "IvEvent (CMessage JoinRequest (jo_body t0))"
        "IvTurn 5 (Commanded (Approve (replicate 16 1)) (Some [4]) (Some (replicate 24 7)))" body])
      (use r in \<open>simp_all only:\<close>)
qed


lemma invitation_admits_one_witness:
  "\<exists>s0 e1 e2. invitation_open toy_prims (Some (replicate 12 5)) 0 ex_approver [] True = Inr s0
    \<and> (\<exists>q body r1 r2. grant toy_prims r1 r2 ex_keys (in_room s0) q (replicate 32 6) True = Inr body
      \<and> q \<in> set (sh_requests (in_shared (foldl (inv_step toy_prims) s0 [IvConnect 5, e1, e2, IvEvent (CSent 1), IvTurn 6 Slept]))))"
proof -
  obtain s0 t0 digits e1 e2 body where e: "invitation_open toy_prims (Some (replicate 12 5)) 0 ex_approver [] True = Inr s0"
    "attempt_start toy_prims (Some (replicate 16 1)) 0 (in_code s0) ex_joiner = Inr (digits, Inr t0)"
    "in_outcome (foldl (inv_step toy_prims) s0 [IvConnect 5, e1, e2, IvEvent (CSent 1), IvTurn 6 Slept])
      = Some (InvApproved (q_name (jo_request t0)))"
    "jo_outcome (foldl (att_step toy_prims) t0 [JoConnect 5, JoEvent (CMessage JoinGrant body) False, JoTurn 6])
      = Some (JoinGranted (replicate 32 6) True)"
    by (rule ex_joined)
  have "length (replicate 12 (5 :: byte)) = 12" by simp
  from invitation_admits_one [OF toy_ok(5) this e(1) refl, THEN conjunct2, rule_format, OF e(3)]
  obtain q body r1 r2 where
    "q \<in> set (sh_requests (in_shared (foldl (inv_step toy_prims) s0 [IvConnect 5, e1, e2, IvEvent (CSent 1), IvTurn 6 Slept])))"
    "grant toy_prims r1 r2 ex_keys (in_room s0) q (replicate 32 6) True = Inr body"
    by (auto simp only: ex_approver_def approver.simps)
  then show ?thesis using e(1) by blast
qed

lemma joined_by_code_maker_witness:
  "\<exists>(s0 :: invitation) (t0 :: attempt) digits. attempt_start toy_prims (Some (replicate 16 1)) 0 (in_code s0) ex_joiner = Inr (digits, Inr t0)
    \<and> (\<exists>approver sealed. fingerprint toy_prims approver = code_fingerprint (in_code s0)
        \<and> open_box toy_prims (jn_device ex_joiner) LABEL_GRANT sealed = Inr (1 # replicate 32 6 @ [flag_byte True]))"
proof -
  obtain s0 t0 digits e1 e2 body where e: "invitation_open toy_prims (Some (replicate 12 5)) 0 ex_approver [] True = Inr s0"
    "attempt_start toy_prims (Some (replicate 16 1)) 0 (in_code s0) ex_joiner = Inr (digits, Inr t0)"
    "in_outcome (foldl (inv_step toy_prims) s0 [IvConnect 5, e1, e2, IvEvent (CSent 1), IvTurn 6 Slept])
      = Some (InvApproved (q_name (jo_request t0)))"
    "jo_outcome (foldl (att_step toy_prims) t0 [JoConnect 5, JoEvent (CMessage JoinGrant body) False, JoTurn 6])
      = Some (JoinGranted (replicate 32 6) True)"
    by (rule ex_joined)
  from joined_by_code_maker [OF e(2) refl, THEN conjunct1, rule_format, OF e(4)]
  obtain approver sealed where "fingerprint toy_prims approver = code_fingerprint (in_code s0)"
    "open_box toy_prims (jn_device ex_joiner) LABEL_GRANT sealed = Inr (1 # replicate 32 6 @ [flag_byte True])" by (elim exE conjE)
  then show ?thesis using e(2) by blast
qed

definition ex_near :: approver where "ex_near = ex_approver\<lparr>ap_same_network_only := True\<rparr>"

lemma ex_near_open:
  obtains s0 t0 where "invitation_open toy_prims (Some (replicate 12 5)) 0 ex_near [[97]] True = Inr s0"
    "in_nearby_code s0 = Some (in_code s0)" "in_where s0 \<noteq> None" "\<not> inv_over 5 s0" "in_talks s0 = []" "in_shared s0 = shared_default"
proof -
  obtain s0 where s0: "invitation_open toy_prims (Some (replicate 12 5)) 0 ex_near [[97]] True = Inr s0" using ex_invited by blast
  have "join_parse toy_prims (join_encode toy_prims (in_code s0)) = Inr (in_code s0)"
    by (rule join_code_read_back [OF toy_ok(5)])
      (simp_all add: invitation_open_ok(3) [OF toy_ok(5) _ s0] fingerprint_def hash_okD [OF toy_ok(5)] FINGERPRINT_LEN_def)
  moreover have "where_ok [[97]]" by (simp add: where_ok_def MAX_WHERE_ADDRS_def text_ok_def str_len_ascii is_scalar_def MAX_TEXT_BYTES_def)
  ultimately show thesis using s0 where_body_ok
    by (intro that [OF s0]) (auto simp: invitation_open_def join_generate_def Let_def ex_near_def listen_nearby_def
      MEETING_SECRET_LEN_def CODE_LIFETIME_MS_def inv_over_def set_over_def)
qed

lemma joining_ends_witness:
  "\<exists>s. invitation_open toy_prims (Some (replicate 12 5)) 0 ex_approver [] True = Inr s
    \<and> in_outcome (foldl (inv_step toy_prims) s [IvClose, IvConnect 5]) \<noteq> None"
proof -
  obtain s where s: "invitation_open toy_prims (Some (replicate 12 5)) 0 ex_approver [] True = Inr s" using ex_invited by blast
  define u where "u = inv_step toy_prims s IvClose"
  have c: "\<not> in_connected u" "inv_over 5 u"
    using s by (auto simp: u_def inv_over_def invitation_open_def join_generate_def Let_def ex_approver_def)
  from joining_ends [THEN conjunct1, rule_format, of 5 u 5 toy_prims Slept "[]"] c
  have "in_outcome (inv_step toy_prims u (IvConnect 5)) \<noteq> None" by auto
  then show ?thesis using s by (auto simp: u_def)
qed

lemma requests_only_from_nearby_witness:
  "\<exists>s inp. invitation_open toy_prims (Some (replicate 12 5)) 0 ex_near [[97]] True = Inr s
    \<and> ex_request \<in> set (sh_requests (in_shared (foldl (inv_step toy_prims) s [IvAccept 5 True, IvHeard 0 True inp])))
    \<and> (\<exists>salt rest. read_exact 16 inp = Some (salt, rest))"
proof -
  obtain s where s: "invitation_open toy_prims (Some (replicate 12 5)) 0 ex_near [[97]] True = Inr s"
    "in_nearby_code s = Some (in_code s)" "in_where s \<noteq> None" "\<not> inv_over 5 s" "in_talks s = []" "in_shared s = shared_default"
    by (rule ex_near_open)
  define body where "body = file_sign toy_prims ex_keys LABEL_REQUEST (in_room s) (put_request ex_request)"
  define key where "key = join_direct_key toy_prims (in_code s)"
  define c where "c = the (p_aead_seal toy_prims (st_cipher (stream_new toy_prims key (replicate 16 8) (in_room s) Sender))
      (direct_nonce Receiver 0) (st_aad (stream_new toy_prims key (replicate 16 8) (in_room s) Sender)) body)"
  have dec: "request_decode toy_prims body (in_room s) = Inr ex_request"
    unfolding request_decode_iff body_def using ex_request_ok file_sign_signed [OF toy_ok(3)] by (fastforce simp: ex_request_def)
  have c: "p_aead_seal toy_prims (st_cipher (stream_new toy_prims key (replicate 16 8) (in_room s) Sender))
      (direct_nonce Receiver 0) (st_aad (stream_new toy_prims key (replicate 16 8) (in_room s) Sender)) body = Some c"
    by (simp add: c_def toy_prims_def)
  have op: "fst (stream_open toy_prims (stream_new toy_prims key (replicate 16 8) (in_room s) Sender) c) = Inr body"
    using aead_okD [OF toy_ok(1) c] by (simp add: stream_open_def stream_new_def Let_def)
  have "length (put_request ex_request) < 300" by (simp add: put_request_def ex_request_def put_text_def put_u8_def
      sign_pub_def box_pub_def toy_prims_def str_len_ascii utf8_char_def)
  moreover have "length (dk_sign toy_prims ex_keys m) = 64" for m by (simp add: dk_sign_def toy_prims_def)
  ultimately have "length body < 400" by (simp add: body_def file_sign_def w_bytes_def)
  then have l: "length c \<le> 4096" using aead_taggedD [OF toy_ok(2) c] by linarith
  then obtain w where w: "write_frame c = Some w" by (simp add: write_frame_def)
  define inp where "inp = replicate 16 8 @ w"
  have x: "read_exact 16 inp = Some (replicate 16 8, w)" by (simp add: inp_def read_exact_def)
  have f: "read_frame NEARBY_FRAME w = Some (c, [])" using read_written_frame [OF w, of 4096 "[]"] l by (simp add: NEARBY_FRAME_def)
  obtain st where "talk_read toy_prims (in_code s) (in_room s) True inp = Some (body, st)"
    using x f op by (cases "stream_open toy_prims (stream_new toy_prims key (replicate 16 8) (in_room s) Sender) c")
      (simp add: talk_read_def SALT_LEN_def key_def)
  then have q: "ex_request \<in> set (sh_requests (in_shared (foldl (inv_step toy_prims) s [IvAccept 5 True, IvHeard 0 True inp])))"
    using s(2-6) dec by (simp add: nearby_accept_def nearby_heard_def take_request_def MAX_NEARBY_TALKS_def MAX_REQUESTS_def
        shared_default_def Let_def)
  have "length (replicate 12 (5 :: byte)) = 12" "ap_same_network_only ex_near" by (simp_all add: ex_near_def)
  from requests_only_from_nearby [OF toy_ok(5) this(1) s(1) this(2) q] show ?thesis using s(1) q x by blast
qed

end
