(* ===== verification/Clip_Writer.thy ===== *)
theory Clip_Writer
  imports Session
begin

text \<open>
  The clipboard seen from the daemon, \<open>crates/asli-app/src/clipboard_io.rs\<close>: writes are queued for a thread
  that performs them, observations of the clipboard are told apart into copies and this device's own writes, and
  a concealed write is cleared after a while unless something was copied since. The system clipboard is a board
  that holds something and knows whether this device put it there; the backends of \<open>asli-clipboard\<close> agree on
  what a write and a release do to it.
\<close>

section \<open>What is written and observed\<close>

datatype observed = ObsText ustr | ObsImage bytes | ObsSensitive | ObsTooLarge nat

datatype clip_write =
    WrText ustr
  | WrImage bytes
  | WrTextConcealed ustr
  | WrClearIfUnchanged ustr u64

datatype clip_content = CtText ustr | CtImagePng bytes | CtTooLarge nat

record clip_event =
  ce_content :: clip_content
  ce_sensitive :: bool

datatype on_board = BdText ustr bool | BdImage bytes

record board =
  bd_holds :: "on_board option"
  bd_ours :: bool

text \<open>A write takes the board over; a release empties it only while it is this device's. A call may fail, and then it
  changes nothing.\<close>

definition bd_set :: "on_board \<Rightarrow> bool \<Rightarrow> board \<Rightarrow> bool \<times> board" where
  "bd_set x ok b = (ok, if ok then b\<lparr>bd_holds := Some x, bd_ours := True\<rparr> else b)"

definition bd_release :: "bool \<Rightarrow> board \<Rightarrow> bool \<times> board" where
  "bd_release ok b = (ok, if ok \<and> bd_ours b then b\<lparr>bd_holds := None\<rparr> else b)"

section \<open>State\<close>

record clip_io =
  io_to_writer :: "clip_write list"
  io_interrupt :: bool
  io_generation :: u64
  io_own_writes :: echo_guard
  io_observed :: "observed list"
  io_timers :: "(ustr \<times> u64) list"
  io_board :: board
  io_told_ms :: u64

definition OWN_WRITES_TTL_MS :: u64 where [asli_const]: "OWN_WRITES_TTL_MS = 5000"

definition OWN_WRITES_CONCEALED :: bytes where "OWN_WRITES_CONCEALED = 0 # ascii ''asli concealed write''"

definition own_writes_new :: echo_guard where
  "own_writes_new = \<lparr>entries = [], capacity = DEFAULT_CAPACITY, ttl_ms = OWN_WRITES_TTL_MS\<rparr>"

definition own_remember :: "prims \<Rightarrow> u64 \<Rightarrow> bytes \<Rightarrow> clip_io \<Rightarrow> clip_io" where
  "own_remember P now_ms bs s = s\<lparr>io_own_writes := remember (io_own_writes s) (content_hash_of P bs) now_ms\<rparr>"

definition own_is_ours :: "prims \<Rightarrow> u64 \<Rightarrow> bytes \<Rightarrow> clip_io \<Rightarrow> bool \<times> clip_io" where
  "own_is_ours P now_ms bs s =
     (let (ours, g) = take_echo (io_own_writes s) (content_hash_of P bs) now_ms in (ours, s\<lparr>io_own_writes := g\<rparr>))"

definition clip_io_start :: clip_io where
  "clip_io_start =
     \<lparr>io_to_writer = [], io_interrupt = False, io_generation = 0, io_own_writes = own_writes_new, io_observed = [],
      io_timers = [], io_board = \<lparr>bd_holds = None, bd_ours = False\<rparr>, io_told_ms = 0\<rparr>"

section \<open>Queueing a write\<close>

fun is_clear :: "clip_write \<Rightarrow> bool" where
  "is_clear (WrClearIfUnchanged _ _) = True"
| "is_clear _ = False"

fun own_bytes :: "clip_write \<Rightarrow> bytes option" where
  "own_bytes (WrText t) = Some (utf8 t)"
| "own_bytes (WrImage png) = Some png"
| "own_bytes (WrTextConcealed _) = Some OWN_WRITES_CONCEALED"
| "own_bytes (WrClearIfUnchanged _ _) = None"

definition io_queue :: "prims \<Rightarrow> u64 \<Rightarrow> clip_write \<Rightarrow> clip_io \<Rightarrow> u64 \<times> clip_io" where
  "io_queue P now_ms work s =
     (let s = (if is_clear work then s else s\<lparr>io_generation := io_generation s + 1\<rparr>);
          s' = (case own_bytes work of Some bs \<Rightarrow> own_remember P now_ms bs s | None \<Rightarrow> s)
      in (io_generation s, s'\<lparr>io_to_writer := io_to_writer s' @ [work], io_interrupt := True\<rparr>))"

definition io_write_text :: "prims \<Rightarrow> u64 \<Rightarrow> ustr \<Rightarrow> clip_io \<Rightarrow> clip_io" where
  "io_write_text P now_ms t s = snd (io_queue P now_ms (WrText t) s)"

definition io_write_image :: "prims \<Rightarrow> u64 \<Rightarrow> bytes \<Rightarrow> clip_io \<Rightarrow> clip_io" where
  "io_write_image P now_ms png s = snd (io_queue P now_ms (WrImage png) s)"

definition io_announce :: "observed \<Rightarrow> clip_io \<Rightarrow> clip_io" where
  "io_announce ob s = s\<lparr>io_observed := io_observed s @ [ob]\<rparr>"

definition io_write_text_as_copy :: "prims \<Rightarrow> u64 \<Rightarrow> ustr \<Rightarrow> clip_io \<Rightarrow> clip_io" where
  "io_write_text_as_copy P now_ms t s = io_announce (ObsText t) (io_write_text P now_ms t s)"

definition io_write_image_as_copy :: "prims \<Rightarrow> u64 \<Rightarrow> bytes \<Rightarrow> clip_io \<Rightarrow> clip_io" where
  "io_write_image_as_copy P now_ms png s = io_announce (ObsImage png) (io_write_image P now_ms png s)"

text \<open>A concealed write starts a timer that carries the generation of the write.\<close>

definition io_write_text_concealed :: "prims \<Rightarrow> u64 \<Rightarrow> bool \<Rightarrow> ustr \<Rightarrow> clip_io \<Rightarrow> clip_io" where
  "io_write_text_concealed P now_ms spawned t s =
     (let (scheduled_for, s) = io_queue P now_ms (WrTextConcealed t) s
      in if spawned then s\<lparr>io_timers := io_timers s @ [(t, scheduled_for)]\<rparr> else s)"

definition io_timer_due :: "nat \<Rightarrow> clip_io \<Rightarrow> clip_io" where
  "io_timer_due j s =
     (if length (io_timers s) \<le> j then s
      else case io_timers s ! j of (t, scheduled_for) \<Rightarrow>
        s\<lparr>io_timers := take j (io_timers s) @ drop (Suc j) (io_timers s),
          io_to_writer := io_to_writer s @ [WrClearIfUnchanged t scheduled_for], io_interrupt := True\<rparr>)"

section \<open>Observing\<close>

text \<open>A copy moves the generation on; this device's own write, content not read and a marked clip do not.\<close>

definition to_observed :: "prims \<Rightarrow> u64 \<Rightarrow> clip_event \<Rightarrow> clip_io \<Rightarrow> observed option \<times> clip_io" where
  "to_observed P now_ms ev s =
     (if ce_sensitive ev then
        let (ours, s) = own_is_ours P now_ms OWN_WRITES_CONCEALED s
        in (if ours then None else Some ObsSensitive, s)
      else case ce_content ev of
          CtText t \<Rightarrow>
            let (ours, s) = own_is_ours P now_ms (utf8 t) s
            in if ours then (None, s) else (Some (ObsText t), s\<lparr>io_generation := io_generation s + 1\<rparr>)
        | CtImagePng png \<Rightarrow>
            let (ours, s) = own_is_ours P now_ms png s
            in if ours then (None, s) else (Some (ObsImage png), s\<lparr>io_generation := io_generation s + 1\<rparr>)
        | CtTooLarge limit \<Rightarrow> (Some (ObsTooLarge limit), s))"

definition io_watch :: "prims \<Rightarrow> u64 \<Rightarrow> clip_event \<Rightarrow> clip_io \<Rightarrow> clip_io" where
  "io_watch P now_ms ev s =
     (case to_observed P now_ms ev s of (None, s) \<Rightarrow> s | (Some ob, s) \<Rightarrow> io_announce ob s)"

section \<open>The writer\<close>

text \<open>Whether the call succeeded, and whether it was a release.\<close>

definition apply_write :: "bool \<Rightarrow> u64 \<Rightarrow> clip_write \<Rightarrow> board \<Rightarrow> (bool \<times> bool) \<times> board" where
  "apply_write ok gen work b =
     (case work of
        WrText t \<Rightarrow> (let (r, b) = bd_set (BdText t False) ok b in ((r, False), b))
      | WrImage png \<Rightarrow> (let (r, b) = bd_set (BdImage png) ok b in ((r, False), b))
      | WrTextConcealed t \<Rightarrow> (let (r, b) = bd_set (BdText t True) ok b in ((r, False), b))
      | WrClearIfUnchanged _ scheduled_for \<Rightarrow>
          if scheduled_for = gen then (let (r, b) = bd_release ok b in ((r, True), b)) else ((True, False), b))"

record clip_batch =
  bt_write :: "clip_write option"
  bt_clear :: "clip_write option"

definition batch_push :: "clip_write \<Rightarrow> clip_batch \<Rightarrow> clip_batch" where
  "batch_push work b =
     (if is_clear work then b\<lparr>bt_clear := Some work\<rparr> else b\<lparr>bt_write := Some work, bt_clear := None\<rparr>)"

definition batch_drain :: "clip_write list \<Rightarrow> clip_batch" where
  "batch_drain works = foldl (\<lambda>b w. batch_push w b) \<lparr>bt_write = None, bt_clear = None\<rparr> works"

definition batch_works :: "clip_batch \<Rightarrow> clip_write list" where
  "batch_works b =
     (case bt_write b of None \<Rightarrow> [] | Some w \<Rightarrow> [w]) @ (case bt_clear b of None \<Rightarrow> [] | Some w \<Rightarrow> [w])"

text \<open>A failed write is told at most once a minute.\<close>

definition tell_write_failed :: "u64 \<Rightarrow> u64 \<Rightarrow> bool \<times> u64" where
  "tell_write_failed now_ms told_ms = (if sat_sub now_ms told_ms < 60000 then (False, told_ms) else (True, now_ms))"

fun batch_apply :: "bool list \<Rightarrow> u64 \<Rightarrow> u64 \<Rightarrow> clip_write list \<Rightarrow> bool \<Rightarrow> clip_io \<Rightarrow> bool \<times> clip_io" where
  "batch_apply oks now_ms gen [] holding s = (holding, s)"
| "batch_apply oks now_ms gen (w # ws) holding s =
     (let ((r, released), b) = apply_write (oks = [] \<or> hd oks) gen w (io_board s);
          s = s\<lparr>io_board := b\<rparr>
      in if r then batch_apply (tl oks) now_ms gen ws (if released then False else holding \<or> \<not> is_clear w) s
         else batch_apply (tl oks) now_ms gen ws holding (s\<lparr>io_told_ms := snd (tell_write_failed now_ms (io_told_ms s))\<rparr>))"

text \<open>A turn of the writer's loop takes everything queued; nothing is queued, it waits. It returns whether the clipboard
  is to be served until the next write.\<close>

definition writer_turn :: "bool \<Rightarrow> bool list \<Rightarrow> u64 \<Rightarrow> clip_io \<Rightarrow> bool \<times> clip_io" where
  "writer_turn must_serve oks now_ms s =
     (if io_to_writer s = [] then (False, s)
      else
        let b = batch_drain (io_to_writer s);
            s = s\<lparr>io_interrupt := False, io_to_writer := []\<rparr>;
            (holding, s) = batch_apply oks now_ms (io_generation s) (batch_works b) False s
        in (holding \<and> must_serve, s))"

definition mac_tick :: "prims \<Rightarrow> bool list \<Rightarrow> u64 \<Rightarrow> clip_event option \<Rightarrow> clip_io \<Rightarrow> clip_io" where
  "mac_tick P oks now_ms polled s =
     (let b = batch_drain (io_to_writer s);
          (_, s) = batch_apply oks now_ms (io_generation s) (batch_works b) False (s\<lparr>io_to_writer := []\<rparr>)
      in case polled of None \<Rightarrow> s | Some ev \<Rightarrow> io_watch P now_ms ev s)"

section \<open>Log lines\<close>

fun quote_char :: "uchar \<Rightarrow> ustr" where
  "quote_char c =
     (if c = 34 then [92, 34]
      else if c = 92 then [92, 92]
      else if c = 10 then [92, 110]
      else if c = 13 then [92, 114]
      else if c = 9 then [92, 116]
      else if c < 32 then [32]
      else [c])"

definition quote :: "ustr \<Rightarrow> ustr" where
  "quote t = 34 # concat (map quote_char t) @ [34]"

definition log_line :: "ustr \<Rightarrow> ustr \<Rightarrow> ustr" where
  "log_line event detail =
     [123, 34, 101, 118, 101, 110, 116, 34, 58, 34] @ event
       @ [34, 44, 34, 100, 101, 116, 97, 105, 108, 34, 58] @ quote detail @ [125]"

section \<open>Events\<close>

datatype io_event =
    IoWriteText u64 ustr
  | IoWriteTextAsCopy u64 ustr
  | IoWriteImage u64 bytes
  | IoWriteImageAsCopy u64 bytes
  | IoWriteConcealed u64 bool ustr
  | IoTimerDue nat
  | IoPersonCopies "on_board option"
  | IoSeen u64 clip_event
  | IoWriterTurn bool "bool list" u64
  | IoMacTick "bool list" u64 "clip_event option"

fun io_step :: "prims \<Rightarrow> clip_io \<Rightarrow> io_event \<Rightarrow> clip_io" where
  "io_step P s (IoWriteText now_ms t) = io_write_text P now_ms t s"
| "io_step P s (IoWriteTextAsCopy now_ms t) = io_write_text_as_copy P now_ms t s"
| "io_step P s (IoWriteImage now_ms png) = io_write_image P now_ms png s"
| "io_step P s (IoWriteImageAsCopy now_ms png) = io_write_image_as_copy P now_ms png s"
| "io_step P s (IoWriteConcealed now_ms spawned t) = io_write_text_concealed P now_ms spawned t s"
| "io_step P s (IoTimerDue j) = io_timer_due j s"
| "io_step P s (IoPersonCopies x) = s\<lparr>io_board := (io_board s)\<lparr>bd_holds := x, bd_ours := False\<rparr>\<rparr>"
| "io_step P s (IoSeen now_ms ev) = io_watch P now_ms ev s"
| "io_step P s (IoWriterTurn must_serve oks now_ms) = snd (writer_turn must_serve oks now_ms s)"
| "io_step P s (IoMacTick oks now_ms polled) = mac_tick P oks now_ms polled s"

end
