(* ===== verification/Clip_Writer_Props.thy ===== *)
theory Clip_Writer_Props
  imports Clip_Writer
begin

text \<open>
  What the writer promises: taking a burst of queued work at once leaves the clipboard as doing it piece by piece would;
  the clear of a concealed text erases that text and nothing else; and a write of this device, seen coming back, is not
  taken for a copy.
\<close>

section \<open>A burst and its pieces\<close>

definition writes_of :: "clip_write list \<Rightarrow> clip_write list" where
  "writes_of q = filter (\<lambda>w. \<not> is_clear w) q"

definition apply_each :: "u64 \<Rightarrow> clip_write list \<Rightarrow> board \<Rightarrow> board" where
  "apply_each gen works b = foldl (\<lambda>b w. snd (apply_write True gen w b)) b works"

lemma apply_each_simps [simp]:
  "apply_each gen [] b = b" "apply_each gen (w # ws) b = apply_each gen ws (snd (apply_write True gen w b))"
  "apply_each gen (us @ vs) b = apply_each gen vs (apply_each gen us b)"
  by (simp_all add: apply_each_def)

lemma writes_of_append [simp]: "writes_of (us @ vs) = writes_of us @ writes_of vs"
  by (simp add: writes_of_def)

lemma writes_of_Cons [simp]: "writes_of (w # ws) = (if is_clear w then writes_of ws else w # writes_of ws)"
  by (simp add: writes_of_def)

lemma writes_of_Nil [simp]: "writes_of [] = []"
  by (simp add: writes_of_def)

lemma writes_of_clears [simp]: "list_all is_clear ws \<Longrightarrow> writes_of ws = []"
  by (induction ws) simp_all

lemma writes_not_clear: "w \<in> set (writes_of q) \<Longrightarrow> \<not> is_clear w"
  by (simp add: writes_of_def)

text \<open>A queue is what came before its last write, that write, and clears behind it.\<close>

lemma queue_cases:
  obtains (clears) "list_all is_clear q" "writes_of q = []"
  | (writes) us w vs where "q = us @ w # vs" "\<not> is_clear w" "list_all is_clear vs" "writes_of q = writes_of us @ [w]"
proof (induction q arbitrary: thesis rule: rev_induct)
  case Nil
  then show ?case by simp
next
  case (snoc x q)
  show ?case
  proof (cases "is_clear x")
    case False
    then show ?thesis using snoc.prems(2) [of q x "[]"] by simp
  next
    case True
    show ?thesis
    proof (rule snoc.IH)
      assume "list_all is_clear q" "writes_of q = []"
      then show ?thesis using True snoc.prems(1) by simp
    next
      fix us w vs
      assume "q = us @ w # vs" "\<not> is_clear w" "list_all is_clear vs" "writes_of q = writes_of us @ [w]"
      then show ?thesis using True snoc.prems(2) [of us w "vs @ [x]"] by simp
    qed
  qed
qed

lemma drain_append: "foldl (\<lambda>b w. batch_push w b) b (us @ [w]) = batch_push w (foldl (\<lambda>b w. batch_push w b) b us)"
  by simp

lemma drain_clears:
  "list_all is_clear vs \<Longrightarrow> foldl (\<lambda>b w. batch_push w b) b vs = (if vs = [] then b else b\<lparr>bt_clear := Some (last vs)\<rparr>)"
  by (induction vs rule: rev_induct) (auto simp: batch_push_def)

lemma drained:
  shows "list_all is_clear q \<Longrightarrow> batch_works (batch_drain q) = (if q = [] then [] else [last q])"
    "q = us @ w # vs \<Longrightarrow> \<not> is_clear w \<Longrightarrow> list_all is_clear vs
      \<Longrightarrow> batch_works (batch_drain q) = w # (if vs = [] then [] else [last vs])"
proof -
  assume "list_all is_clear q"
  then show "batch_works (batch_drain q) = (if q = [] then [] else [last q])"
    unfolding batch_drain_def drain_clears [OF \<open>list_all is_clear q\<close>] by (simp add: batch_works_def)
next
  assume q: "q = us @ w # vs" "\<not> is_clear w" and vs: "list_all is_clear vs"
  show "batch_works (batch_drain q) = w # (if vs = [] then [] else [last vs])"
    unfolding batch_drain_def q(1) foldl_append foldl_Cons drain_clears [OF vs] using q(2) by (simp add: batch_push_def batch_works_def)
qed

lemma apply_write_ok [simp]:
  "apply_write True gen (WrText t) b = ((True, False), b\<lparr>bd_holds := Some (BdText t False), bd_ours := True\<rparr>)"
  "apply_write True gen (WrImage png) b = ((True, False), b\<lparr>bd_holds := Some (BdImage png), bd_ours := True\<rparr>)"
  "apply_write True gen (WrTextConcealed t) b = ((True, False), b\<lparr>bd_holds := Some (BdText t True), bd_ours := True\<rparr>)"
  "fst (fst (apply_write True gen w b))"
  by (cases w; simp add: apply_write_def bd_set_def bd_release_def Let_def)+

lemma batch_apply_board:
  "list_all (\<lambda>ok. ok) oks \<Longrightarrow> snd (batch_apply oks now_ms gen ws holding s) = s\<lparr>io_board := apply_each gen ws (io_board s)\<rparr>"
proof (induction ws arbitrary: oks holding s)
  case (Cons w ws)
  have ok: "(oks = [] \<or> hd oks) = True" "list_all (\<lambda>ok. ok) (tl oks)" using Cons.prems by (cases oks; simp)+
  obtain released b where a: "apply_write True gen w (io_board s) = ((True, released), b)"
    using apply_write_ok(4) [of gen w "io_board s"] by (metis fst_conv surj_pair)
  show ?case unfolding batch_apply.simps ok(1) a Let_def prod.case if_True by (simp add: Cons.IH [OF ok(2)] a)
qed simp

section \<open>The clear and what it may erase\<close>

fun wr_board :: "clip_write \<Rightarrow> on_board option" where
  "wr_board (WrText t) = Some (BdText t False)"
| "wr_board (WrImage png) = Some (BdImage png)"
| "wr_board (WrTextConcealed t) = Some (BdText t True)"
| "wr_board (WrClearIfUnchanged _ _) = None"

definition newest :: "clip_io \<Rightarrow> ustr \<Rightarrow> bool" where
  "newest s t \<longleftrightarrow>
     (if writes_of (io_to_writer s) = [] then bd_ours (io_board s) \<longrightarrow> bd_holds (io_board s) \<in> {None, Some (BdText t True)}
      else last (writes_of (io_to_writer s)) = WrTextConcealed t)"

definition clear_ok :: "clip_io \<Rightarrow> ustr \<Rightarrow> u64 \<Rightarrow> bool" where
  "clear_ok s t g \<longleftrightarrow> g \<le> io_generation s \<and> (g = io_generation s \<longrightarrow> newest s t)"

definition io_inv :: "nat \<Rightarrow> clip_io \<Rightarrow> bool" where
  "io_inv n s \<longleftrightarrow> unat (io_generation s) \<le> n
     \<and> (\<forall>(t, g) \<in> set (io_timers s). clear_ok s t g)
     \<and> (\<forall>us t g vs. io_to_writer s = us @ WrClearIfUnchanged t g # vs
          \<longrightarrow> clear_ok s t g \<and> (g = io_generation s \<longrightarrow> list_all is_clear vs))"

fun succeeds :: "io_event \<Rightarrow> bool" where
  "succeeds (IoWriterTurn _ oks _) = list_all (\<lambda>ok. ok) oks"
| "succeeds (IoMacTick oks _ _) = list_all (\<lambda>ok. ok) oks"
| "succeeds _ = True"

lemma generation_up:
  assumes "unat (g :: u64) \<le> n" "Suc n < 2 ^ 64"
  shows "unat (g + 1) = Suc (unat g)" "h \<le> g \<Longrightarrow> h < g + 1"
proof -
  show u: "unat (g + 1) = Suc (unat g)" using assms by (simp add: unat_word_ariths)
  show "h \<le> g \<Longrightarrow> h < g + 1" using u by (simp add: word_le_nat_alt word_less_nat_alt)
qed

text \<open>Once the generation has moved on, every clear there is is stale.\<close>

lemma io_inv_moved:
  assumes v: "io_inv n s" and n: "Suc n < 2 ^ 64" and g: "io_generation s' = io_generation s + 1"
    and "set (io_timers s') \<subseteq> set (io_timers s)"
    and "\<And>us t g vs. io_to_writer s' = us @ WrClearIfUnchanged t g # vs \<Longrightarrow> \<exists>vs'. io_to_writer s = us @ WrClearIfUnchanged t g # vs'"
  shows "io_inv (Suc n) s'"
proof -
  have u: "unat (io_generation s) \<le> n" using v by (simp add: io_inv_def)
  have stale: "clear_ok s t x \<Longrightarrow> clear_ok s' t x \<and> x \<noteq> io_generation s'" for t x
    using generation_up(2) [OF u n, of x] by (auto simp: clear_ok_def g)
  have "clear_ok s' t x" if "(t, x) \<in> set (io_timers s')" for t x
    using that assms(4) v stale unfolding io_inv_def by blast
  moreover have "clear_ok s' t x \<and> x \<noteq> io_generation s'" if "io_to_writer s' = us @ WrClearIfUnchanged t x # vs" for us t x vs
    using assms(5) [OF that] v stale unfolding io_inv_def by blast
  ultimately show ?thesis using generation_up(1) [OF u n] u unfolding io_inv_def g by auto
qed

lemma io_inv_mono: "io_inv n s \<Longrightarrow> n \<le> m \<Longrightarrow> io_inv m s"
  by (auto simp: io_inv_def)

lemma io_inv_same:
  assumes "io_inv n s" "io_generation s' = io_generation s" "io_timers s' = io_timers s" "io_to_writer s' = io_to_writer s"
    "io_board s' = io_board s \<or> \<not> bd_ours (io_board s')"
  shows "io_inv n s'"
proof -
  have "newest s t \<Longrightarrow> newest s' t" for t using assms(4,5) by (auto simp: newest_def)
  then have "clear_ok s t g \<Longrightarrow> clear_ok s' t g" for t g using assms(2) by (simp add: clear_ok_def)
  then show ?thesis using assms(1-4) unfolding io_inv_def by auto
qed

lemma append_clear_split:
  "q @ [w] = us @ WrClearIfUnchanged t g # vs \<Longrightarrow> \<not> is_clear w \<Longrightarrow> \<exists>vs'. q = us @ WrClearIfUnchanged t g # vs'"
  by (cases vs rule: rev_cases) auto

lemma io_inv_queue:
  assumes v: "io_inv n s" and n: "Suc n < 2 ^ 64" and w: "\<not> is_clear w"
  shows "io_inv (Suc n) (snd (io_queue P now_ms w s))"
    "w = WrTextConcealed t \<Longrightarrow> clear_ok (snd (io_queue P now_ms w s)) t (fst (io_queue P now_ms w s))"
proof -
  define s' where "s' = snd (io_queue P now_ms w s)"
  have f: "io_generation s' = io_generation s + 1" "io_timers s' = io_timers s" "io_to_writer s' = io_to_writer s @ [w]"
    "fst (io_queue P now_ms w s) = io_generation s'"
    using w by (auto simp: s'_def io_queue_def Let_def own_remember_def split: option.splits)
  show "io_inv (Suc n) (snd (io_queue P now_ms w s))" unfolding s'_def [symmetric]
  proof (rule io_inv_moved [OF v n f(1)])
    fix us x g vs
    assume "io_to_writer s' = us @ WrClearIfUnchanged x g # vs"
    then show "\<exists>vs'. io_to_writer s = us @ WrClearIfUnchanged x g # vs'" using append_clear_split [OF _ w] f(3) by simp
  qed (simp add: f)
  show "w = WrTextConcealed t \<Longrightarrow> clear_ok (snd (io_queue P now_ms w s)) t (fst (io_queue P now_ms w s))"
    unfolding s'_def [symmetric] using f by (simp add: clear_ok_def newest_def)
qed

lemma io_inv_announce: "io_inv n s \<Longrightarrow> io_inv n (io_announce ob s)"
  by (rule io_inv_same [of n s]) (auto simp: io_announce_def)

lemma io_inv_watch:
  assumes v: "io_inv n s" and n: "Suc n < 2 ^ 64"
  shows "io_inv (Suc n) (io_watch P now_ms ev s)"
proof -
  have own: "io_inv n (snd (own_is_ours P now_ms bs s))" for bs
    by (rule io_inv_same [OF v]) (simp_all add: own_is_ours_def split_beta Let_def)
  have up: "io_inv (Suc n) (t\<lparr>io_generation := io_generation t + 1\<rparr>)" if "io_inv n t" for t
    by (rule io_inv_moved [OF that n]) auto
  obtain ob s' where o: "to_observed P now_ms ev s = (ob, s')" by fastforce
  have "io_inv (Suc n) s'"
    using o own [THEN io_inv_mono, of "Suc n"] own [THEN up] v [THEN io_inv_mono, of "Suc n"]
    by (auto simp: to_observed_def split_beta Let_def split: clip_content.splits if_splits)
  then show ?thesis using io_inv_announce by (auto simp: io_watch_def o split: option.splits)
qed

lemma io_inv_timer:
  assumes v: "io_inv n s"
  shows "io_inv n (io_timer_due j s)"
proof (cases "length (io_timers s) \<le> j")
  case True
  then show ?thesis using v by (simp add: io_timer_due_def)
next
  case False
  obtain t g where tg: "io_timers s ! j = (t, g)" by fastforce
  define s' where "s' = io_timer_due j s"
  have f: "io_generation s' = io_generation s" "io_board s' = io_board s"
    "io_to_writer s' = io_to_writer s @ [WrClearIfUnchanged t g]" "set (io_timers s') \<subseteq> set (io_timers s)"
    using False tg set_take_subset [of j "io_timers s"] set_drop_subset [of "Suc j" "io_timers s"]
    by (auto simp: s'_def io_timer_due_def)
  have mem: "(t, g) \<in> set (io_timers s)" using False tg nth_mem [of j "io_timers s"] by simp
  have "newest s' x \<longleftrightarrow> newest s x" for x by (simp add: newest_def f)
  then have c: "clear_ok s' x y \<longleftrightarrow> clear_ok s x y" for x y by (simp add: clear_ok_def f)
  have "clear_ok s' x y \<and> (y = io_generation s' \<longrightarrow> list_all is_clear vs)"
    if q: "io_to_writer s' = us @ WrClearIfUnchanged x y # vs" for us x y vs
  proof (cases vs rule: rev_cases)
    case Nil
    then show ?thesis using q v mem c unfolding io_inv_def by (auto simp: f)
  next
    case (snoc ws w)
    then have "io_to_writer s = us @ WrClearIfUnchanged x y # ws" "w = WrClearIfUnchanged t g" using q by (simp_all add: f)
    then show ?thesis using v c snoc unfolding io_inv_def by (simp add: f)
  qed
  moreover have "clear_ok s' x y" if "(x, y) \<in> set (io_timers s')" for x y
    using that f(4) v c unfolding io_inv_def by blast
  ultimately show ?thesis unfolding s'_def [symmetric] using v f(1) unfolding io_inv_def by auto
qed

text \<open>What a queue leaves on the board, once its clears are known.\<close>

lemma apply_clears:
  "list_all is_clear vs \<Longrightarrow> apply_each gen vs b = (if \<exists>t. WrClearIfUnchanged t gen \<in> set vs then snd (bd_release True b) else b)"
proof (induction vs arbitrary: b)
  case (Cons w vs)
  then obtain t g where w: "w = WrClearIfUnchanged t g" by (cases w) simp_all
  have r: "snd (bd_release True (snd (bd_release True b))) = snd (bd_release True b)" by (simp add: bd_release_def)
  have "snd (apply_write True gen w b) = (if g = gen then snd (bd_release True b) else b)"
    by (simp add: w apply_write_def split_beta)
  then show ?case using Cons r w by auto
qed simp

definition emptied :: "u64 \<Rightarrow> clip_write list \<Rightarrow> bool" where
  "emptied gen q \<longleftrightarrow> (\<exists>t. WrClearIfUnchanged t gen \<in> set (batch_works (batch_drain q)))"

lemma batch_board:
  "apply_each gen (batch_works (batch_drain q)) b =
    (let b = (if writes_of q = [] then b else b\<lparr>bd_holds := wr_board (last (writes_of q)), bd_ours := True\<rparr>)
     in if emptied gen q then snd (bd_release True b) else b)"
proof (cases rule: queue_cases [of q])
  case clears
  then have "list_all is_clear (batch_works (batch_drain q))" by (cases q rule: rev_cases) (simp_all add: drained)
  from apply_clears [OF this] show ?thesis using clears by (simp add: emptied_def)
next
  case (writes us w vs)
  have d: "batch_works (batch_drain q) = w # (if vs = [] then [] else [last vs])" by (rule drained(2) [OF writes(1-3)])
  have l: "list_all is_clear (if vs = [] then [] else [last vs])" using writes(3) by (cases vs rule: rev_cases) auto
  have "snd (apply_write True gen w b) = b\<lparr>bd_holds := wr_board w, bd_ours := True\<rparr>" using writes(2) by (cases w) simp_all
  moreover have "WrClearIfUnchanged t gen \<noteq> w" for t using writes(2) by auto
  ultimately show ?thesis using writes(4) by (auto simp: d apply_clears [OF l] emptied_def)
qed

text \<open>A clear that empties the board is of the text on it.\<close>

lemma emptied_newest:
  assumes "io_inv n s" "emptied (io_generation s) (io_to_writer s)"
  obtains t where "WrClearIfUnchanged t (io_generation s) \<in> set (io_to_writer s)" "newest s t"
proof -
  obtain t where t: "WrClearIfUnchanged t (io_generation s) \<in> set (batch_works (batch_drain (io_to_writer s)))"
    using assms(2) by (auto simp: emptied_def)
  have "set (batch_works (batch_drain q)) \<subseteq> set q" for q
  proof (cases rule: queue_cases [of q])
    case clears
    then show ?thesis by (simp add: drained)
  next
    case (writes us w vs)
    have "batch_works (batch_drain q) = w # (if vs = [] then [] else [last vs])" by (rule drained(2) [OF writes(1-3)])
    then show ?thesis using writes(1) by auto
  qed
  then have m: "WrClearIfUnchanged t (io_generation s) \<in> set (io_to_writer s)" using t by blast
  then obtain us vs where "io_to_writer s = us @ WrClearIfUnchanged t (io_generation s) # vs" by (meson split_list)
  then have "newest s t" using assms(1) by (auto simp: io_inv_def clear_ok_def)
  then show thesis using m that by blast
qed

definition written :: "clip_io \<Rightarrow> clip_io" where
  "written s = s\<lparr>io_to_writer := [], io_board := apply_each (io_generation s) (batch_works (batch_drain (io_to_writer s))) (io_board s)\<rparr>"

lemma written_turn:
  assumes "list_all (\<lambda>ok. ok) oks"
  shows "io_to_writer s \<noteq> [] \<Longrightarrow> snd (writer_turn must_serve oks now_ms s) = (written s)\<lparr>io_interrupt := False\<rparr>"
    "mac_tick P oks now_ms polled s = (case polled of None \<Rightarrow> written s | Some ev \<Rightarrow> io_watch P now_ms ev (written s))"
  using batch_apply_board [OF assms]
  by (simp_all add: writer_turn_def mac_tick_def written_def split_beta Let_def split: option.split)

lemma io_inv_written:
  assumes v: "io_inv n s"
  shows "io_inv n (written s)"
proof -
  have "newest (written s) t" if "newest s t" for t
  proof (cases "writes_of (io_to_writer s) = []")
    case True
    then show ?thesis using that by (auto simp: newest_def written_def batch_board Let_def bd_release_def)
  next
    case False
    then show ?thesis using that by (auto simp: newest_def written_def batch_board Let_def bd_release_def)
  qed
  then have "clear_ok s t g \<Longrightarrow> clear_ok (written s) t g" for t g by (simp add: clear_ok_def written_def)
  then show ?thesis using v unfolding io_inv_def by (auto simp: written_def)
qed

lemma io_inv_step:
  assumes v: "io_inv n s" and n: "Suc n < 2 ^ 64" and e: "succeeds e"
  shows "io_inv (Suc n) (io_step P s e)"
proof -
  have up: "io_inv n t \<Longrightarrow> io_inv (Suc n) t" for t by (erule io_inv_mono) linarith
  have w: "io_inv n (written s)" by (rule io_inv_written [OF v])
  show ?thesis
  proof (cases e)
    case (IoWriteConcealed now_ms spawned t)
    have q: "io_inv (Suc n) (snd (io_queue P now_ms (WrTextConcealed t) s))"
      "clear_ok (snd (io_queue P now_ms (WrTextConcealed t) s)) t (fst (io_queue P now_ms (WrTextConcealed t) s))"
      using io_inv_queue [OF v n] by simp_all
    have ts: "clear_ok (u\<lparr>io_timers := ts\<rparr>) x y \<longleftrightarrow> clear_ok u x y" for u ts x y by (simp add: clear_ok_def newest_def)
    show ?thesis using q unfolding IoWriteConcealed io_step.simps io_write_text_concealed_def split_beta Let_def
      by (auto simp: io_inv_def ts)
  next
    case (IoTimerDue j)
    then show ?thesis using io_inv_timer [OF v] up by simp
  next
    case (IoPersonCopies x)
    have "io_inv n (s\<lparr>io_board := (io_board s)\<lparr>bd_holds := x, bd_ours := False\<rparr>\<rparr>)" by (rule io_inv_same [OF v]) simp_all
    then show ?thesis using up by (simp add: IoPersonCopies)
  next
    case (IoSeen now_ms ev)
    then show ?thesis using io_inv_watch [OF v n] by simp
  next
    case (IoWriterTurn must_serve oks now_ms)
    have "io_inv n ((written s)\<lparr>io_interrupt := False\<rparr>)" by (rule io_inv_same [OF w]) simp_all
    then have "io_inv n (snd (writer_turn must_serve oks now_ms s))"
      using v e written_turn(1) [of oks s must_serve now_ms] IoWriterTurn by (cases "io_to_writer s = []") (simp_all add: writer_turn_def)
    then show ?thesis using up by (simp add: IoWriterTurn)
  next
    case (IoMacTick oks now_ms polled)
    then show ?thesis using e written_turn(2) [of oks P now_ms polled s] up [OF w] io_inv_watch [OF w n] by (auto split: option.splits)
  qed (use io_inv_queue(1) [OF v n] io_inv_announce in \<open>simp_all add: io_write_text_def io_write_image_def
      io_write_text_as_copy_def io_write_image_as_copy_def\<close>)
qed

lemma io_inv_run:
  "list_all succeeds es \<Longrightarrow> length es < 2 ^ 64 \<Longrightarrow> io_inv (length es) (foldl (io_step P) clip_io_start es)"
proof (induction es rule: rev_induct)
  case Nil
  then show ?case by (simp add: io_inv_def clip_io_start_def)
next
  case (snoc e es)
  then show ?case using io_inv_step [of "length es" "foldl (io_step P) clip_io_start es" e P] by simp
qed


section \<open>The order of the clears\<close>

fun clear_gens :: "clip_write list \<Rightarrow> u64 list" where
  "clear_gens [] = []"
| "clear_gens (WrClearIfUnchanged _ g # ws) = g # clear_gens ws"
| "clear_gens (_ # ws) = clear_gens ws"

lemma clear_gens_append [simp]: "clear_gens (us @ vs) = clear_gens us @ clear_gens vs"
  by (induction us rule: clear_gens.induct) simp_all

lemma clear_gens_write: "\<not> is_clear w \<Longrightarrow> clear_gens [w] = []"
  by (cases w) simp_all

lemma clear_gens_in: "g \<in> set (clear_gens q) \<longleftrightarrow> (\<exists>t. WrClearIfUnchanged t g \<in> set q)"
  by (induction q rule: clear_gens.induct) auto

definition clears_sorted :: "clip_io \<Rightarrow> bool" where
  "clears_sorted s \<longleftrightarrow> sorted (clear_gens (io_to_writer s) @ map snd (io_timers s))"

text \<open>The time before a clear is always the same, so the timers end in the order they were started.\<close>

fun timers_in_order :: "io_event \<Rightarrow> bool" where
  "timers_in_order (IoTimerDue j) = (j = 0)"
| "timers_in_order _ = True"

lemma clears_sorted_step:
  assumes v: "io_inv n s" and n: "Suc n < 2 ^ 64" and c: "clears_sorted s" and e: "succeeds e" "timers_in_order e"
  shows "clears_sorted (io_step P s e)"
proof -
  have le: "g \<le> io_generation s" if mem: "g \<in> set (clear_gens (io_to_writer s) @ map snd (io_timers s))" for g
  proof (cases "g \<in> set (clear_gens (io_to_writer s))")
    case True
    then obtain t where "WrClearIfUnchanged t g \<in> set (io_to_writer s)" by (auto simp: clear_gens_in)
    then obtain us vs where "io_to_writer s = us @ WrClearIfUnchanged t g # vs" by (meson split_list)
    then show ?thesis using v by (auto simp: io_inv_def clear_ok_def)
  next
    case False
    then obtain t where "(t, g) \<in> set (io_timers s)" using mem by auto
    then show ?thesis using v by (auto simp: io_inv_def clear_ok_def)
  qed
  have q: "io_to_writer (snd (io_queue P now_ms w s)) = io_to_writer s @ [w]" "io_timers (snd (io_queue P now_ms w s)) = io_timers s"
    for now_ms w by (simp_all add: io_queue_def own_remember_def Let_def split: option.split)
  have g: "fst (io_queue P now_ms (WrTextConcealed t) s) = io_generation s + 1" for now_ms t
    by (simp add: io_queue_def Let_def)
  have up: "x \<le> io_generation s \<Longrightarrow> x \<le> io_generation s + 1" for x
    using generation_up(2) [of "io_generation s" n x] v n by (simp add: io_inv_def)
  have one: "clears_sorted (snd (io_queue P now_ms w s))" if "\<not> is_clear w" for now_ms w
    using c clear_gens_write [OF that] by (simp add: clears_sorted_def q)
  have w: "clears_sorted (written t)" if "clears_sorted t" for t using that by (simp add: clears_sorted_def written_def sorted_append)
  have fr: "clears_sorted t \<Longrightarrow> io_to_writer u = io_to_writer t \<Longrightarrow> io_timers u = io_timers t \<Longrightarrow> clears_sorted u" for t u
    by (simp add: clears_sorted_def)
  have see: "clears_sorted t \<Longrightarrow> clears_sorted (io_watch P now_ms ev t)" for t now_ms ev
    by (erule fr; simp add: io_watch_def to_observed_def own_is_ours_def io_announce_def split_beta Let_def split: clip_content.split option.split)
  show ?thesis
  proof (cases e)
    case (IoWriteConcealed now_ms spawned t)
    have "sorted ((clear_gens (io_to_writer s) @ map snd (io_timers s)) @ [io_generation s + 1])"
      using c le up unfolding sorted_append [of "clear_gens (io_to_writer s) @ map snd (io_timers s)"] clears_sorted_def by simp
    then show ?thesis using c
      by (simp add: IoWriteConcealed io_write_text_concealed_def split_beta Let_def clears_sorted_def q g)
  next
    case (IoTimerDue j)
    then have "j = 0" using e by simp
    then show ?thesis using c IoTimerDue by (cases "io_timers s") (auto simp: io_timer_due_def clears_sorted_def)
  next
    case (IoPersonCopies x)
    then show ?thesis using c by (simp add: clears_sorted_def)
  next
    case (IoWriterTurn must_serve oks now_ms)
    then show ?thesis using e c w [OF c] written_turn(1) [of oks s must_serve now_ms]
      by (cases "io_to_writer s = []") (simp_all add: writer_turn_def clears_sorted_def)
  next
    case (IoMacTick oks now_ms polled)
    then show ?thesis using e w [OF c] see written_turn(2) [of oks P now_ms polled s] by (auto split: option.splits)
  next
    case (IoSeen now_ms ev)
    then show ?thesis using see [OF c] by simp
  qed (use one in \<open>simp_all add: io_write_text_def io_write_image_def io_write_text_as_copy_def io_write_image_as_copy_def
      io_announce_def clears_sorted_def\<close>)
qed

lemma clears_sorted_run:
  "list_all succeeds es \<Longrightarrow> list_all timers_in_order es \<Longrightarrow> length es < 2 ^ 64
    \<Longrightarrow> clears_sorted (foldl (io_step P) clip_io_start es)"
proof (induction es rule: rev_induct)
  case Nil
  then show ?case by (simp add: clears_sorted_def clip_io_start_def)
next
  case (snoc e es)
  then show ?case
    using clears_sorted_step [OF io_inv_run [of es P], of e] by simp
qed


section \<open>Its own writes\<close>

text \<open>A write of this device is recognised when it is seen coming back within five seconds, whatever else was written
  or seen meanwhile, as long as it was other content and fewer than twenty writes: nothing is told to the daemon, and the
  generation stays, so a clear that waits is not lost.\<close>

definition seen_op :: "prims \<Rightarrow> u64 \<Rightarrow> clip_event \<Rightarrow> echo_op list" where
  "seen_op P now_ms ev =
    (if ce_sensitive ev then [Take_Echo (content_hash_of P OWN_WRITES_CONCEALED) now_ms]
     else case ce_content ev of CtText t \<Rightarrow> [Take_Echo (content_hash_of P (utf8 t)) now_ms]
       | CtImagePng png \<Rightarrow> [Take_Echo (content_hash_of P png) now_ms] | CtTooLarge _ \<Rightarrow> [])"

fun own_op :: "prims \<Rightarrow> io_event \<Rightarrow> echo_op list" where
  "own_op P (IoWriteText now_ms t) = [Remember (content_hash_of P (utf8 t)) now_ms]"
| "own_op P (IoWriteTextAsCopy now_ms t) = [Remember (content_hash_of P (utf8 t)) now_ms]"
| "own_op P (IoWriteImage now_ms png) = [Remember (content_hash_of P png) now_ms]"
| "own_op P (IoWriteImageAsCopy now_ms png) = [Remember (content_hash_of P png) now_ms]"
| "own_op P (IoWriteConcealed now_ms _ _) = [Remember (content_hash_of P OWN_WRITES_CONCEALED) now_ms]"
| "own_op P (IoSeen now_ms ev) = seen_op P now_ms ev"
| "own_op P (IoMacTick _ now_ms (Some ev)) = seen_op P now_ms ev"
| "own_op P _ = []"

lemma batch_apply_own [simp]: "io_own_writes (snd (batch_apply oks now_ms gen ws holding s)) = io_own_writes s"
  by (induction ws arbitrary: oks holding s) (simp_all add: split_beta Let_def)

lemma watch_own: "io_own_writes (io_watch P now_ms ev s) = foldl echo_step (io_own_writes s) (seen_op P now_ms ev)"
  by (auto simp: seen_op_def io_watch_def to_observed_def own_is_ours_def io_announce_def split_beta Let_def
      split: clip_content.splits option.splits)

lemma own_step: "io_own_writes (io_step P s e) = foldl echo_step (io_own_writes s) (own_op P e)"
proof (cases e)
  case (IoMacTick oks now_ms polled)
  then show ?thesis by (cases polled) (simp_all add: mac_tick_def split_beta Let_def watch_own)
qed (auto simp: io_write_text_def io_write_image_def io_write_text_as_copy_def io_write_image_as_copy_def io_announce_def
    io_write_text_concealed_def io_queue_def own_remember_def io_timer_due_def writer_turn_def split_beta Let_def
    watch_own split: option.splits)

lemma own_run: "io_own_writes (foldl (io_step P) s es) = foldl echo_step (io_own_writes s) (concat (map (own_op P) es))"
  by (induction es arbitrary: s) (simp_all add: own_step)

theorem own_write_recognised:
  fixes P :: prims
  assumes "list_all (spares (content_hash_of P (utf8 t)) written_ms 5000) (concat (map (own_op P) es))"
    and "length (filter is_remember (concat (map (own_op P) es))) < 20"
    and "\<not> sat_sub seen_ms written_ms > (5000 :: u64)"
    and s: "s = foldl (io_step P) s0 (IoWriteText written_ms t # es)"
    and s0: "capacity (io_own_writes s0) = 20" "ttl_ms (io_own_writes s0) = 5000"
  shows "io_observed (io_step P s (IoSeen seen_ms \<lparr>ce_content = CtText t, ce_sensitive = False\<rparr>)) = io_observed s
    \<and> io_generation (io_step P s (IoSeen seen_ms \<lparr>ce_content = CtText t, ce_sensitive = False\<rparr>)) = io_generation s"
proof -
  let ?h = "content_hash_of P (utf8 t)"
  define g where "g = remember (io_own_writes s0) ?h written_ms"
  have "held ?h written_ms 0 g" unfolding held_def g_def remember_def Let_def by auto
  moreover have f: "capacity g = 20" "ttl_ms g = 5000" using s0 by (simp_all add: g_def remember_def Let_def expire_def)
  ultimately have "held ?h written_ms (0 + length (filter is_remember (concat (map (own_op P) es))))
      (foldl echo_step g (concat (map (own_op P) es)))"
    using assms(1,2) by (intro held_run) simp_all
  moreover have "io_own_writes s = foldl echo_step g (concat (map (own_op P) es))"
    unfolding s own_run by (simp add: g_def)
  moreover have "ttl_ms (foldl echo_step g ops) = ttl_ms g" for ops by (induction ops arbitrary: g) simp_all
  ultimately have "fst (take_echo (io_own_writes s) ?h seen_ms)"
    using held_found [of ?h written_ms _ "io_own_writes s" seen_ms] assms(3) f by simp
  then show ?thesis by (simp add: io_watch_def to_observed_def own_is_ours_def split_beta Let_def)
qed

section \<open>Examples\<close>



lemma own_write_recognised_witness:
  "io_observed (foldl (io_step toy_prims) clip_io_start
      [IoWriteText 1 [97], IoSeen 2 \<lparr>ce_content = CtText [97], ce_sensitive = False\<rparr>]) = []"
proof -
  define s where "s = foldl (io_step toy_prims) clip_io_start [IoWriteText 1 [97]]"
  have "io_observed s = []" by (simp add: s_def clip_io_start_def io_write_text_def io_queue_def own_remember_def Let_def)
  moreover from own_write_recognised [of toy_prims "[97]" 1 "[]" 2 s clip_io_start] s_def
  have "io_observed (io_step toy_prims s (IoSeen 2 \<lparr>ce_content = CtText [97], ce_sensitive = False\<rparr>)) = io_observed s"
    by (simp add: clip_io_start_def own_writes_new_def DEFAULT_CAPACITY_def OWN_WRITES_TTL_MS_def sat_sub_def del: io_step.simps)
  ultimately show ?thesis by (simp add: s_def del: io_step.simps)
qed

end
