(* ===== verification/History_Store.thy ===== *)
theory History_Store
  imports History
begin

text \<open>
  The history as the application keeps it, \<open>crates/asli-app/src/history_store.rs\<close>: a switch, a count of changes and the
  store of \<open>History\<close>, whose rows the window names by position. Errors of the store are logged and dropped, as in
  the source; the random draws and how its writes end are arguments.
\<close>

record history_entry =
  he_preview :: ustr
  he_lines :: nat
  he_is_image :: bool
  he_ts_ms :: u64
  he_bytes :: nat
  he_from :: bytes
  he_key :: bytes

record store_history =
  hs_store :: store
  hs_enabled :: bool
  hs_revision :: u64

text \<open>What one operation draws and what becomes of its file.\<close>

record hist_io =
  hi_id :: rand
  hi_rnd :: "nat \<Rightarrow> rand"
  hi_write :: io_write
  hi_shred :: io_shred

definition hs_open ::
    "prims \<Rightarrow> string option \<Rightarrow> io_shred \<Rightarrow> bytes option \<Rightarrow> bytes \<Rightarrow> nat \<Rightarrow> bool \<Rightarrow> hist_error + store_history" where
  "hs_open P read io file secret history_entries keep_history =
     ebind (open_or_reset P read io file secret (hist_limits_default\<lparr>max_entries := history_entries\<rparr>)) (\<lambda>(st, _).
       Inr \<lparr>hs_store = st, hs_enabled = keep_history, hs_revision = 0\<rparr>)"

definition hs_changed :: "store_history \<Rightarrow> store_history" where
  "hs_changed h = h\<lparr>hs_revision := hs_revision h + 1\<rparr>"

definition hs_set_store :: "'a st_outcome \<Rightarrow> store_history \<Rightarrow> store_history" where
  "hs_set_store r h = h\<lparr>hs_store := snd r\<rparr>"

definition hs_rekey :: "prims \<Rightarrow> hist_io \<Rightarrow> bytes \<Rightarrow> store_history \<Rightarrow> store_history" where
  "hs_rekey P io secret h = hs_set_store (hist_rekey P (hi_rnd io) (hi_write io) secret (hs_store h)) h"

definition hs_entries :: "store_history \<Rightarrow> history_entry list" where
  "hs_entries h =
     map (\<lambda>s. \<lparr>he_preview = su_preview s, he_lines = su_lines s, he_is_image = (su_kind s = KImage), he_ts_ms = su_ts_ms s,
         he_bytes = su_bytes s, he_from = su_device_id s, he_key = su_id s\<rparr>) (hist_list (hs_store h))"

definition hs_id_at :: "nat \<Rightarrow> store_history \<Rightarrow> bytes option" where
  "hs_id_at j h = (let l = hist_list (hs_store h) in if j < length l then Some (su_id (l ! j)) else None)"

definition hs_restore :: "nat \<Rightarrow> store_history \<Rightarrow> content option" where
  "hs_restore j h =
     (case hs_id_at j h of
        None \<Rightarrow> None
      | Some i \<Rightarrow> (case hist_get i (hs_store h) of Inl _ \<Rightarrow> None | Inr c \<Rightarrow> Some c))"

definition hs_record :: "prims \<Rightarrow> hist_io \<Rightarrow> content \<Rightarrow> bool \<Rightarrow> u64 \<Rightarrow> bytes \<Rightarrow> store_history \<Rightarrow> store_history" where
  "hs_record P io c sensitive ts_ms from h =
     (if \<not> hs_enabled h then h
      else hs_set_store (append_from P (hi_id io) (hi_rnd io) (hi_write io) c sensitive ts_ms from (hs_store h)) (hs_changed h))"

definition hs_forget :: "prims \<Rightarrow> hist_io \<Rightarrow> nat \<Rightarrow> store_history \<Rightarrow> bool \<times> store_history" where
  "hs_forget P io j h =
     (case hs_id_at j h of
        None \<Rightarrow> (False, h)
      | Some i \<Rightarrow>
          let r = hist_remove P (hi_rnd io) (hi_write io) i (hs_store h)
          in ((case fst r of Inl _ \<Rightarrow> False | Inr _ \<Rightarrow> True), hs_set_store r (hs_changed h)))"

definition hs_clear :: "hist_io \<Rightarrow> store_history \<Rightarrow> store_history" where
  "hs_clear io h = hs_set_store (hist_clear (hi_shred io) (hs_store h)) (hs_changed h)"

definition hs_set_enabled :: "hist_io \<Rightarrow> bool \<Rightarrow> store_history \<Rightarrow> store_history" where
  "hs_set_enabled io on h = (let h = h\<lparr>hs_enabled := on\<rparr> in if on then h else hs_clear io h)"

text \<open>A new limit is for the next start, when the store is opened with it.\<close>

definition hs_set_limit :: "nat \<Rightarrow> store_history \<Rightarrow> store_history" where
  "hs_set_limit limit h = h"

text \<open>The file is removed; what the program holds in memory stays until it restarts.\<close>

definition hs_wipe :: "hist_io \<Rightarrow> store_history \<Rightarrow> store_history" where
  "hs_wipe io h = hs_set_store (wipe_file (hi_shred io) (hs_store h)) h"

definition hs_shown_revision :: "store_history \<Rightarrow> u64" where
  "hs_shown_revision h = (hs_revision h * 2) OR (if hs_enabled h then 1 else 0)"

text \<open>Turning the history off leaves nothing in it, and nothing is recorded from then on; a row that is shown is
  the one restored and forgotten under that number.\<close>

definition hist_io_quiet :: hist_io where
  "hist_io_quiet = \<lparr>hi_id = None, hi_rnd = (\<lambda>_. None), hi_write = Written, hi_shred = Removed\<rparr>"

lemma hs_off:
  "st_entries (hs_store (hs_set_enabled io False h)) = [] \<and> \<not> hs_enabled (hs_set_enabled io False h)"
  "\<not> hs_enabled h \<Longrightarrow> hs_record P io c sensitive ts_ms from h = h"
  by (simp_all add: hs_set_enabled_def hs_clear_def hist_clear_def shred_def hs_set_store_def hs_changed_def hs_record_def
      Let_def split: io_shred.split)

lemma hs_entries_length: "length (hs_entries h) = length (st_entries (hs_store h))"
  by (simp add: hs_entries_def hist_list_def)

lemma hs_restore_row:
  assumes "distinct (map e_id (st_entries (hs_store h)))" "j < length (hs_entries h)"
  shows "hs_restore j h = Some (e_content (st_entries (hs_store h) ! j))"
proof -
  define es where "es = st_entries (hs_store h)"
  have j: "j < length es" using assms(2) by (simp add: hs_entries_length es_def)
  have "su_id (entry_summary e) = e_id e" for e by (simp add: entry_summary_def split_beta Let_def)
  then have "hs_id_at j h = Some (e_id (es ! j))" using j by (simp add: hs_id_at_def hist_list_def es_def Let_def)
  moreover have "find (\<lambda>e. e_id e = e_id (es ! j)) es = Some (es ! j)"
  proof -
    have "distinct (map e_id es)" using assms(1) by (simp add: es_def)
    then have "e_id (es ! k) \<noteq> e_id (es ! j)" if "k < j" for k
      using that j distinct_conv_nth [of "map e_id es"] by simp
    then show ?thesis unfolding find_Some_iff using j by (intro exI [of _ j]) simp
  qed
  ultimately show ?thesis by (simp add: hs_restore_def hist_get_def es_def ok_or_def)
qed

end
