(* ===== verification/Daemon.thy ===== *)
theory Daemon
  imports Clip_Writer History_Store Transfers_Props Config Backoff Conn_State Client
begin

text \<open>
  The daemon, \<open>crates/asli-app/src/daemon.rs\<close>: copies made here go out, clips that arrive are written, and one
  connection after another carries both. The state gathers what the threads share; an event is what one of them does at
  a time: an observation crossing the bridge, a turn of the connection with the events it reports, its beginning and
  its end, and what the window asks for. The clipboard, the disk, the clock and the randomness are arguments. Logging is
  left out, and a notification is a value in a list.
\<close>

section \<open>What the window sends\<close>

record pending_rekey =
  pr_token :: u64
  pr_secret :: bytes
  pr_keep :: "bytes list"
  pr_removing :: "bytes list"

definition pr_event :: "pending_rekey \<Rightarrow> local_event" where
  "pr_event p = LRekey (pr_keep p) (pr_secret p) (pr_token p)"

record outbox =
  ox_attached :: bool
  ox_rekey :: "pending_rekey option"
  ox_note :: "string option"
  ox_next_token :: u64

definition outbox_default :: outbox where
  "outbox_default = \<lparr>ox_attached = False, ox_rekey = None, ox_note = None, ox_next_token = 0\<rparr>"

definition rekey_waiting :: "outbox \<Rightarrow> bool" where
  "rekey_waiting ox \<longleftrightarrow> ox_rekey ox \<noteq> None"

definition take_note :: "outbox \<Rightarrow> string option \<times> outbox" where
  "take_note ox = (ox_note ox, ox\<lparr>ox_note := None\<rparr>)"

definition take_rekey :: "u64 \<Rightarrow> outbox \<Rightarrow> pending_rekey option \<times> outbox" where
  "take_rekey token ox =
     (case ox_rekey ox of
        Some p \<Rightarrow> if pr_token p = token then (Some p, ox\<lparr>ox_rekey := None\<rparr>) else (None, ox)
      | None \<Rightarrow> (None, ox))"

definition fail_rekey :: "u64 \<Rightarrow> string \<Rightarrow> outbox \<Rightarrow> outbox" where
  "fail_rekey token why ox =
     (case ox_rekey ox of
        Some p \<Rightarrow> if pr_token p = token
          then ox\<lparr>ox_rekey := None, ox_note := Some (''The key was not changed: '' @ why @ ''.'')\<rparr> else ox
      | None \<Rightarrow> ox)"

section \<open>Status and sequence numbers\<close>

record daemon_status =
  dx_state :: string
  dx_peers :: u32
  dx_last_sync_ms :: "u64 option"
  dx_skipped :: u64
  dx_has_retained :: bool
  dx_last_error :: "string option"
  dx_attempt :: u32
  dx_retry_at_ms :: "u64 option"

definition status_new :: daemon_status where
  "status_new = \<lparr>dx_state = ''Connecting'', dx_peers = 0, dx_last_sync_ms = None, dx_skipped = 0, dx_has_retained = False,
     dx_last_error = None, dx_attempt = 0, dx_retry_at_ms = None\<rparr>"

definition prefixed :: "string \<Rightarrow> string \<Rightarrow> bool" where
  "prefixed s p \<longleftrightarrow> take (length p) s = p"

definition status_line :: "(u32 \<Rightarrow> string) \<Rightarrow> daemon_status \<Rightarrow> string" where
  "status_line show_number x =
     (if prefixed (dx_state x) ''Rejected: '' \<or> prefixed (dx_state x) ''Stopped: '' then ''Stopped Syncing''
      else if dx_peers x = 0 then dx_state x
      else dx_state x @ '', '' @ show_number (dx_peers x) @ '' Connected'')"

definition SEQ_RESERVATION :: u64 where [asli_const]: "SEQ_RESERVATION = 1000"
definition SEQ_MARGIN :: u64 where [asli_const]: "SEQ_MARGIN = SEQ_RESERVATION div 10"

definition reserve_sequence :: "string option \<Rightarrow> app_files \<Rightarrow> u64 app_outcome" where
  "reserve_sequence io fs =
     (case load_state fs of
        Inl e \<Rightarrow> (Inl e, fs)
      | Inr base \<Rightarrow>
          (case save_state io (sat_add base SEQ_RESERVATION) fs of (Inl e, fs) \<Rightarrow> (Inl e, fs) | (Inr _, fs) \<Rightarrow> (Inr base, fs)))"

definition raise_reservation :: "string option \<Rightarrow> u64 \<Rightarrow> app_files \<Rightarrow> unit app_outcome" where
  "raise_reservation io cap fs =
     (case load_state fs of
        Inl e \<Rightarrow> (Inl e, fs)
      | Inr n \<Rightarrow> if n < cap then save_state io cap fs else (Inr (), fs))"

record sequence_watch =
  sw_issued :: u64
  sw_ceiling :: u64

definition watch_new :: "u64 \<Rightarrow> sequence_watch" where
  "watch_new base = \<lparr>sw_issued = base, sw_ceiling = sat_add base SEQ_RESERVATION\<rparr>"

definition watch_issue :: "sequence_watch \<Rightarrow> u64 option \<times> sequence_watch" where
  "watch_issue w =
     (let w = w\<lparr>sw_issued := sat_add (sw_issued w) 1\<rparr>
      in if sw_ceiling w \<le> sat_add (sw_issued w) SEQ_MARGIN
         then (let w = w\<lparr>sw_ceiling := sat_add (sw_ceiling w) SEQ_RESERVATION\<rparr> in (Some (sw_ceiling w), w))
         else (None, w))"

section \<open>State\<close>

datatype notice =
    NoClipReceived nat
  | NoImageReceived nat
  | NoClipTooLarge nat nat
  | NoCopyTooLarge nat
  | NoSensitive
  | NoClockSkew int
  | NoRetainedPasted nat
  | NoNothingNew string
  | NoFileOffered ustr ustr u64
  | NoAskedAbout bytes ustr ustr u64
  | NoRemovedBy "ustr option"
  | NoActionFailed string string

datatype restart_screen = WelcomeRekeyed | WelcomeKeyChangedElsewhere | WelcomeRemoved | WelcomeLeft

text \<open>The account as the disk keeps it, with \<open>None\<close> once it is wiped.\<close>

record daemon =
  dm_files :: app_files
  dm_account :: "bytes option"
  dm_device_secret :: bytes
  dm_own_id :: bytes
  dm_session :: session
  dm_conn :: "conn option"
  dm_transfers :: transfers
  dm_outbox :: outbox
  dm_watch :: sequence_watch
  dm_history :: store_history
  dm_status :: daemon_status
  dm_shown :: daemon_status
  dm_backoff :: backoff
  dm_paused :: bool
  dm_cap :: nat
  dm_notifications :: bool
  dm_ask_right_away :: bool
  dm_retained_wanted :: bool
  dm_retained_pending :: bool
  dm_reconnect :: bool
  dm_announce :: bool
  dm_connected_once :: bool
  dm_skew_told :: bool
  dm_authenticated_at :: "u64 option"
  dm_replay_saved :: memory
  dm_writes :: "clip_write list"
  dm_notices :: "notice list"
  dm_restart :: "restart_screen option"
  dm_stopped :: bool

text \<open>What an event finds: the time, what the disk and the clipboard answer, and what randomness gives.\<close>

record world =
  wo_now_ms :: u64
  wo_su :: surroundings
  wo_hist :: hist_io
  wo_state_io :: "string option"
  wo_config_io :: "string option"
  wo_replay_io :: "string option"
  wo_store_io :: "string option"
  wo_wipe_io :: "string option"
  wo_clip :: "clip_write \<Rightarrow> string option"
  wo_rand :: rand
  wo_jitter :: u64
  wo_metadata :: "path \<Rightarrow> (bool \<times> u64) option"

definition notify :: "notice \<Rightarrow> daemon \<Rightarrow> daemon" where
  "notify x s = s\<lparr>dm_notices := dm_notices s @ [x]\<rparr>"

definition publish :: "daemon \<Rightarrow> daemon" where
  "publish s = s\<lparr>dm_shown := dm_status s\<rparr>"

definition set_status :: "(daemon_status \<Rightarrow> daemon_status) \<Rightarrow> daemon \<Rightarrow> daemon" where
  "set_status f s = s\<lparr>dm_status := f (dm_status s)\<rparr>"

text \<open>The one channel to the connection: the one the transfers send on too. Sending may wait for room, or try.\<close>

definition channel :: "daemon \<Rightarrow> local_event list" where
  "channel s = (case tr_link (dm_transfers s) of None \<Rightarrow> [] | Some l \<Rightarrow> lk_queue l)"

definition set_channel :: "local_event list \<Rightarrow> daemon \<Rightarrow> daemon" where
  "set_channel q s = s\<lparr>dm_transfers := (dm_transfers s)\<lparr>tr_link := map_option (\<lambda>l. l\<lparr>lk_queue := q\<rparr>) (tr_link (dm_transfers s))\<rparr>\<rparr>"

definition local_send :: "local_event \<Rightarrow> daemon \<Rightarrow> daemon" where
  "local_send ev s = set_channel (channel s @ [ev]) s"

definition local_try_send :: "local_event \<Rightarrow> daemon \<Rightarrow> bool \<times> daemon" where
  "local_try_send ev s =
     (case tr_link (dm_transfers s) of
        None \<Rightarrow> (False, s)
      | Some l \<Rightarrow> if length (lk_queue l) < lk_capacity l then (True, local_send ev s) else (False, s))"

section \<open>The outbox and the live connection\<close>

definition replace_key :: "world \<Rightarrow> bytes list \<Rightarrow> bytes list \<Rightarrow> daemon \<Rightarrow> (string + unit) \<times> daemon" where
  "replace_key W keep removing s =
     (let ox = dm_outbox s in
      if ox_rekey ox \<noteq> None then (Inl ''A key change is already under way.'', s)
      else if \<not> ox_attached ox then (Inl ''Asli is not connected yet.'', s)
      else case random_bytes (wo_rand W) of
          Inl e \<Rightarrow> (Inl (display e), s)
        | Inr secret \<Rightarrow>
            let ox = ox\<lparr>ox_next_token := ox_next_token ox + 1\<rparr>;
                p = \<lparr>pr_token = ox_next_token ox, pr_secret = secret, pr_keep = keep, pr_removing = removing\<rparr>;
                (queued, s) = local_try_send (pr_event p) (s\<lparr>dm_outbox := ox\<rparr>)
            in if queued then (Inr (), s\<lparr>dm_outbox := ox\<lparr>ox_rekey := Some p, ox_note := None\<rparr>\<rparr>)
               else (Inl ''Asli is busy. Try again in a moment.'', s))"

definition resend_pending :: "daemon \<Rightarrow> daemon" where
  "resend_pending s =
     (case ox_rekey (dm_outbox s) of
        Some p \<Rightarrow> if ox_attached (dm_outbox s) then snd (local_try_send (pr_event p) s) else s
      | None \<Rightarrow> s)"

section \<open>Clips that arrive\<close>

definition write_clip :: "world \<Rightarrow> clip_write \<Rightarrow> u64 \<Rightarrow> daemon \<Rightarrow> bool \<times> daemon" where
  "write_clip W work ts_ms s =
     (case wo_clip W work of
        None \<Rightarrow> (True, set_status (\<lambda>x. x\<lparr>dx_last_sync_ms := Some (max (wo_now_ms W) ts_ms)\<rparr>) (s\<lparr>dm_writes := dm_writes s @ [work]\<rparr>))
      | Some e \<Rightarrow> (False, set_status (\<lambda>x. x\<lparr>dx_last_error := Some e\<rparr>) s))"

definition apply_clip :: "world \<Rightarrow> ustr \<Rightarrow> bool \<Rightarrow> u64 \<Rightarrow> daemon \<Rightarrow> bool \<times> daemon" where
  "apply_clip W text retained ts_ms s =
     (if retained then (False, set_status (\<lambda>x. x\<lparr>dx_has_retained := True\<rparr>) s) else write_clip W (WrText text) ts_ms s)"

definition apply_image :: "world \<Rightarrow> bytes \<Rightarrow> u64 \<Rightarrow> daemon \<Rightarrow> bool \<times> daemon" where
  "apply_image W png ts_ms s = write_clip W (WrImage png) ts_ms s"

fun error_code_debug :: "error_code \<Rightarrow> string" where
  "error_code_debug EC_RateLimited = ''RateLimited''"
| "error_code_debug EC_QuotaExceeded = ''QuotaExceeded''"
| "error_code_debug EC_MessageTooLarge = ''MessageTooLarge''"
| "error_code_debug EC_Malformed = ''Malformed''"
| "error_code_debug EC_UnknownType = ''UnknownType''"
| "error_code_debug EC_NotAuthenticated = ''NotAuthenticated''"
| "error_code_debug EC_NoRetained = ''NoRetained''"
| "error_code_debug EC_NoSuchPeer = ''NoSuchPeer''"
| "error_code_debug EC_Other = ''Other''"

definition skew_hours :: "int \<Rightarrow> nat" where
  "skew_hours skew_ms = (nat \<bar>skew_ms\<bar> + 3599999) div 3600000"

definition skew_warning :: "(nat \<Rightarrow> string) \<Rightarrow> int \<Rightarrow> string" where
  "skew_warning show_nat skew_ms = ''this computer's clock is about '' @ show_nat (skew_hours skew_ms)
     @ '' hours off; past a day, clips will be dropped''"

text \<open>One event of the socket: the status it leaves, and whether something was written to the clipboard.\<close>

definition on_client_event :: "world \<Rightarrow> (nat \<Rightarrow> string) \<Rightarrow> client_event \<Rightarrow> daemon \<Rightarrow> bool \<times> daemon" where
  "on_client_event W show_nat ev s =
     (case ev of
        CAuthenticated peers has_retained _ \<Rightarrow>
          (False, set_status (\<lambda>x. x\<lparr>dx_state := ''Synced'', dx_peers := peers, dx_has_retained := has_retained\<rparr>) s)
      | CClip c \<Rightarrow>
          apply_clip W (rv_text c) (rv_retained c) (rv_ts_ms c)
            (if rv_retained c then s else set_status (\<lambda>x. x\<lparr>dx_has_retained := False\<rparr>) s)
      | client_event.CImage png ts_ms _ \<Rightarrow> apply_image W png ts_ms s
      | CPresence peers \<Rightarrow> (False, set_status (\<lambda>x. x\<lparr>dx_peers := peers\<rparr>) s)
      | CRelayError code _ \<Rightarrow> (False, set_status (\<lambda>x. x\<lparr>dx_last_error := Some (error_code_debug code)\<rparr>) s)
      | CClockSkew skew_ms \<Rightarrow>
          (let s = set_status (\<lambda>x. x\<lparr>dx_last_error := Some (skew_warning show_nat skew_ms)\<rparr>) s
           in (False, if dm_skew_told s then s else notify (NoClockSkew skew_ms) (s\<lparr>dm_skew_told := True\<rparr>)))
      | CClipSkipped got limit \<Rightarrow>
          (False, notify (NoClipTooLarge got limit) (set_status (\<lambda>x. x\<lparr>dx_skipped := sat_add (dx_skipped x) 1\<rparr>) s))
      | _ \<Rightarrow> (False, s))"

text \<open>The same for an action of the session, which is how the tests of the source drive it.\<close>

definition on_action :: "world \<Rightarrow> action \<Rightarrow> daemon \<Rightarrow> bool \<times> daemon" where
  "on_action W a s =
     (case a of
        AAuthenticated _ peers has_retained _ \<Rightarrow>
          (False, set_status (\<lambda>x. x\<lparr>dx_state := ''Synced'', dx_peers := peers, dx_has_retained := has_retained\<rparr>) s)
      | AClip t ts_ms retained _ \<Rightarrow> apply_clip W t retained ts_ms s
      | AImage png ts_ms _ \<Rightarrow> apply_image W png ts_ms s
      | APresence peers \<Rightarrow> (False, set_status (\<lambda>x. x\<lparr>dx_peers := peers\<rparr>) s)
      | ARelayError code _ \<Rightarrow> (False, set_status (\<lambda>x. x\<lparr>dx_last_error := Some (error_code_debug code)\<rparr>) s)
      | AAuthFailed code \<Rightarrow> (False, set_status (\<lambda>x. x\<lparr>dx_state := ''Rejected: '' @ auth_fail_str code\<rparr>) s)
      | _ \<Rightarrow> (False, s))"

definition record_history :: "prims \<Rightarrow> world \<Rightarrow> content \<Rightarrow> bytes \<Rightarrow> daemon \<Rightarrow> daemon" where
  "record_history P W c from s = s\<lparr>dm_history := hs_record P (wo_hist W) c False (wo_now_ms W) from (dm_history s)\<rparr>"

definition record_event :: "prims \<Rightarrow> world \<Rightarrow> client_event \<Rightarrow> daemon \<Rightarrow> daemon" where
  "record_event P W ev s =
     (case ev of
        CClip c \<Rightarrow> if rv_retained c then s else record_history P W (CText (rv_text c)) (rv_device_id c) s
      | client_event.CImage png _ device \<Rightarrow> record_history P W (content.CImage png) device s
      | _ \<Rightarrow> s)"

definition clip_len :: "client_event \<Rightarrow> nat" where
  "clip_len ev = (case ev of CClip c \<Rightarrow> str_len (rv_text c) | client_event.CImage png _ _ \<Rightarrow> length png | _ \<Rightarrow> 0)"

definition is_image_event :: "client_event \<Rightarrow> bool" where
  "is_image_event ev = (case ev of client_event.CImage _ _ _ \<Rightarrow> True | _ \<Rightarrow> False)"

definition on_devices :: "(registry \<Rightarrow> registry) \<Rightarrow> daemon \<Rightarrow> daemon" where
  "on_devices f s = s\<lparr>dm_transfers := (dm_transfers s)\<lparr>tr_devices := f (tr_devices (dm_transfers s))\<rparr>\<rparr>"

definition track_devices :: "world \<Rightarrow> client_event \<Rightarrow> daemon \<Rightarrow> daemon" where
  "track_devices W ev s =
     (let w = su_saves (wo_su W); now = wo_now_ms W in
      case ev of
        CAuthenticated peers _ _ \<Rightarrow> on_devices (set_connected w True peers now) s
      | CPresence peers \<Rightarrow> on_devices (presence peers now) s
      | CDevice d \<Rightarrow> on_devices (heard_card w d now) s
      | CPeer p \<Rightarrow> on_devices (heard w (pe_device_id p) (pe_name p) (pe_os p) now) s
      | _ \<Rightarrow> s)"

text \<open>The stored clip the person asked for, or its refusal; whether this was it.\<close>

definition answer_retained_request :: "prims \<Rightarrow> world \<Rightarrow> client_event \<Rightarrow> daemon \<Rightarrow> bool \<times> daemon" where
  "answer_retained_request P W ev s =
     (case ev of
        CClip c \<Rightarrow>
          if rv_retained c \<and> dm_retained_pending s then
            let s = set_status (\<lambda>x. x\<lparr>dx_has_retained := False\<rparr>) (s\<lparr>dm_retained_pending := False\<rparr>);
                (wrote, s) = apply_clip W (rv_text c) False (rv_ts_ms c) s
            in (True, if wrote
                then notify (NoRetainedPasted (str_len (rv_text c))) (record_history P W (CText (rv_text c)) (rv_device_id c) s)
                else s)
          else (False, s)
      | CDropped why retained \<Rightarrow>
          if retained \<and> dm_retained_pending s then
            (True, notify (NoNothingNew why)
              (set_status (\<lambda>x. x\<lparr>dx_has_retained := False\<rparr>) (s\<lparr>dm_retained_pending := False\<rparr>)))
          else (False, s)
      | _ \<Rightarrow> (False, s))"

fun is_clip_event :: "client_event \<Rightarrow> bool" where
  "is_clip_event (CClip _) = True"
| "is_clip_event (client_event.CImage _ _ _) = True"
| "is_clip_event _ = False"

definition on_live_event :: "prims \<Rightarrow> world \<Rightarrow> (nat \<Rightarrow> string) \<Rightarrow> client_event \<Rightarrow> daemon \<Rightarrow> daemon" where
  "on_live_event P W show_nat ev s =
     (if dm_paused s \<and> is_clip_event ev then s
      else
        let s = track_devices W ev s;
            (answered, s) = answer_retained_request P W ev s
        in if answered then publish s
           else
             let s = (case ev of CAuthenticated _ _ _ \<Rightarrow> s\<lparr>dm_connected_once := True\<rparr> | _ \<Rightarrow> s);
                 (wrote, s) = on_client_event W show_nat ev s;
                 s = (if wrote then
                        let s = record_event P W ev s
                        in if dm_notifications s
                           then notify (if is_image_event ev then NoImageReceived (clip_len ev) else NoClipReceived (clip_len ev)) s
                           else s
                      else s)
             in publish s)"

section \<open>The account\<close>

definition move_to_new_key ::
    "prims \<Rightarrow> world \<Rightarrow> bytes \<Rightarrow> bytes list \<Rightarrow> restart_screen \<Rightarrow> daemon \<Rightarrow> daemon" where
  "move_to_new_key P W secret leaving greeting s =
     (case wo_store_io W of
        Some e \<Rightarrow> notify (NoActionFailed ''Asli Could Not Save the New Account Key'' e) s
      | None \<Rightarrow>
          let s = s\<lparr>dm_account := Some secret\<rparr>;
              s = (case load_config (wo_rand W) (wo_config_io W) (dm_files s) of
                     (Inl _, fs) \<Rightarrow> s\<lparr>dm_files := fs\<rparr>
                   | (Inr c, fs) \<Rightarrow> s\<lparr>dm_files := snd (save_config (wo_config_io W) (c\<lparr>cg_key_never_exported := True\<rparr>) fs)\<rparr>);
              s = on_devices (fold (dev_forget (su_saves (wo_su W))) leaving) s;
              s = on_devices (move_to_room (su_saves (wo_su W)) (id_room_id (from_secret P secret))) s
          in s\<lparr>dm_history := hs_rekey P (wo_hist W) secret (dm_history s), dm_restart := Some greeting\<rparr>)"

definition on_account_event :: "prims \<Rightarrow> world \<Rightarrow> client_event \<Rightarrow> daemon \<Rightarrow> daemon" where
  "on_account_event P W ev s =
     (case ev of
        CConnected conn_id \<Rightarrow>
          let s = resend_pending s in s\<lparr>dm_transfers := tr_connected P (wo_su W) conn_id (dm_transfers s)\<rparr>
      | CMessage k body \<Rightarrow>
          let (ask, t) = on_file_message P (wo_su W) k body (dm_transfers s); s = s\<lparr>dm_transfers := t\<rparr>
          in (case ask of
                None \<Rightarrow> s
              | Some (device, from, name, n) \<Rightarrow>
                  notify (if dm_ask_right_away s then NoAskedAbout device from name n else NoFileOffered from name n) s)
      | CRelayError code _ \<Rightarrow>
          if code = EC_QuotaExceeded then s\<lparr>dm_transfers := over_quota (dm_transfers s)\<rparr> else s
      | CSent token \<Rightarrow>
          let s = s\<lparr>dm_transfers := relay_sent token (dm_transfers s)\<rparr>;
              (p, ox) = take_rekey token (dm_outbox s);
              s = s\<lparr>dm_outbox := ox\<rparr>
          in (case p of None \<Rightarrow> s | Some p \<Rightarrow> move_to_new_key P W (pr_secret p) (pr_removing p) WelcomeRekeyed s)
      | CNotSent token why \<Rightarrow>
          (case token of None \<Rightarrow> s | Some token \<Rightarrow> s\<lparr>dm_outbox := fail_rekey token why (dm_outbox s)\<rparr>)
      | CRekeyed secret by_id kept_ids \<Rightarrow>
          move_to_new_key P W secret (filter (\<lambda>d. d \<noteq> by_id) (keyed_except kept_ids (tr_devices (dm_transfers s))))
            WelcomeKeyChangedElsewhere s
      | CDevice d \<Rightarrow>
          (case kd_conn_id d of
             None \<Rightarrow> s
           | Some conn_id \<Rightarrow>
               if knows_version (kd_device_id d) (tr_devices (dm_transfers s)) then s
               else s\<lparr>dm_transfers := ask_version P (wo_su W) conn_id (dm_transfers s)\<rparr>)
      | CRemovedBy by_id \<Rightarrow>
          (let who = name_of by_id (tr_devices (dm_transfers s));
               s = (case wo_wipe_io W of None \<Rightarrow> s\<lparr>dm_account := None\<rparr> | Some _ \<Rightarrow> s);
               s = on_devices (dev_clear (su_saves (wo_su W))) s
           in (notify (NoRemovedBy who) s)\<lparr>dm_restart := Some WelcomeRemoved\<rparr>)
      | _ \<Rightarrow> s)"

section \<open>Copies made here\<close>

definition reserve_for :: "world \<Rightarrow> daemon \<Rightarrow> daemon" where
  "reserve_for W s =
     (let (due, w) = watch_issue (dm_watch s); s = s\<lparr>dm_watch := w\<rparr>
      in case due of None \<Rightarrow> s | Some cap \<Rightarrow> s\<lparr>dm_files := snd (raise_reservation (wo_state_io W) cap (dm_files s))\<rparr>)"

definition report_skipped :: "observed \<Rightarrow> daemon \<Rightarrow> daemon" where
  "report_skipped ob s =
     (case ob of ObsSensitive \<Rightarrow> notify NoSensitive s | ObsTooLarge limit \<Rightarrow> notify (NoCopyTooLarge limit) s | _ \<Rightarrow> s)"

text \<open>One observation crossing the bridge; the wait for room in the channel is not modelled.\<close>

definition bridge :: "prims \<Rightarrow> world \<Rightarrow> observed \<Rightarrow> daemon \<Rightarrow> daemon" where
  "bridge P W ob s =
     (let s = (case ob of ObsText _ \<Rightarrow> reserve_for W s | ObsImage _ \<Rightarrow> reserve_for W s | _ \<Rightarrow> s) in
      if dm_paused s then s
      else case ob of
          ObsText t \<Rightarrow>
            if dm_cap s < str_len t then notify (NoClipTooLarge (str_len t) (dm_cap s)) s
            else local_send (LText t) (record_history P W (CText t) (dm_own_id s) s)
        | ObsImage png \<Rightarrow>
            if dm_cap s < length png then notify (NoClipTooLarge (length png) (dm_cap s)) s
            else local_send (LImage png) (record_history P W (content.CImage png) (dm_own_id s) s)
        | _ \<Rightarrow> report_skipped ob s)"

section \<open>Connections\<close>

definition stop_with :: "string \<Rightarrow> daemon \<Rightarrow> daemon" where
  "stop_with why s =
     (notify (NoActionFailed ''Asli Stopped Syncing'' why)
       (publish (set_status (\<lambda>x. x\<lparr>dx_state := why, dx_peers := 0\<rparr>) s)))\<lparr>dm_stopped := True\<rparr>"

definition offline :: "daemon \<Rightarrow> daemon" where
  "offline s = set_status (\<lambda>x. x\<lparr>dx_state := ''Offline, Retrying''\<rparr>) s"

definition judge_outcome :: "net_error + disconnect \<Rightarrow> daemon \<Rightarrow> daemon" where
  "judge_outcome outcome s =
     (case outcome of
        Inr DLocalChannelClosed \<Rightarrow> stop_with ''Stopped: the clipboard watcher ended'' s
      | Inr (DAuthFailed code) \<Rightarrow>
          if is_permanent code
          then stop_with (''Rejected: the relay refused this device ('' @ auth_fail_str code @ '')'') s
          else offline s
      | Inr (DClose code) \<Rightarrow>
          (let s = s\<lparr>dm_backoff := on_close (of_nat code) (dm_backoff s)\<rparr> in
           case from_close_code (of_nat code) of
             Some fatal \<Rightarrow> stop_with (''Stopped: '' @ user_message fatal) s
           | None \<Rightarrow> offline s)
      | _ \<Rightarrow> offline s)"

definition request_retained :: "daemon \<Rightarrow> daemon" where
  "request_retained s = s\<lparr>dm_retained_pending := True, dm_retained_wanted := True\<rparr>"

definition attempt_begin :: "daemon \<Rightarrow> daemon" where
  "attempt_begin s =
     (let s = publish (set_status (\<lambda>x. x\<lparr>dx_state := ''Connecting'', dx_attempt := sat_add (dx_attempt x) 1, dx_retry_at_ms := None\<rparr>) s)
      in s\<lparr>dm_retained_pending := False, dm_retained_wanted := False, dm_reconnect := False, dm_authenticated_at := None\<rparr>)"

definition replay_save_if_changed :: "world \<Rightarrow> daemon \<Rightarrow> daemon" where
  "replay_save_if_changed W s =
     (case ss_replay_sink (dm_session s) of
        None \<Rightarrow> s
      | Some m \<Rightarrow>
          if m = dm_replay_saved s then s
          else case replay_save (wo_replay_io W) (room (dm_session s)) m (dm_files s) of
              (Inl _, fs) \<Rightarrow> s\<lparr>dm_files := fs\<rparr>
            | (Inr _, fs) \<Rightarrow> s\<lparr>dm_files := fs, dm_replay_saved := m\<rparr>)"

text \<open>The closure every event goes through.\<close>

definition on_event :: "prims \<Rightarrow> world \<Rightarrow> (nat \<Rightarrow> string) \<Rightarrow> client_event \<Rightarrow> daemon \<Rightarrow> daemon" where
  "on_event P W show_nat ev s =
     (let s = (case ev of
            CAuthenticated _ _ _ \<Rightarrow> set_status (\<lambda>x. x\<lparr>dx_attempt := 0\<rparr>) (s\<lparr>dm_authenticated_at := Some (wo_now_ms W)\<rparr>)
          | _ \<Rightarrow> s)
      in replay_save_if_changed W (on_live_event P W show_nat ev (on_account_event P W ev s)))"

definition wait_to_retry :: "world \<Rightarrow> daemon \<Rightarrow> daemon" where
  "wait_to_retry W s =
     (let (delay, b) = next_delay_ms (wo_jitter W) (dm_backoff s);
          s = publish (set_status (\<lambda>x. x\<lparr>dx_retry_at_ms := Some (sat_add (wo_now_ms W) delay)\<rparr>) (s\<lparr>dm_backoff := b\<rparr>))
      in s\<lparr>dm_reconnect := False\<rparr>)"

text \<open>A connection is over, or was dropped for a new address, which leaves the session as it is.\<close>

definition attempt_end :: "world \<Rightarrow> net_error + disconnect \<Rightarrow> daemon \<Rightarrow> daemon" where
  "attempt_end W outcome s =
     (let s = on_devices (set_connected (su_saves (wo_su W)) False 0 (wo_now_ms W)) (s\<lparr>dm_conn := None\<rparr>);
          s = s\<lparr>dm_transfers := tr_disconnected (dm_transfers s)\<rparr>;
          s = (case dm_authenticated_at s of
                 None \<Rightarrow> s
               | Some at_ms \<Rightarrow> s\<lparr>dm_backoff := snd (note_stable (wo_now_ms W) (on_authenticated at_ms (dm_backoff s)))\<rparr>);
          s = s\<lparr>dm_files := snd (raise_reservation (wo_state_io W) (sat_add (ss_seq (dm_session s)) SEQ_RESERVATION) (dm_files s))\<rparr>;
          s = judge_outcome outcome s
      in if dm_stopped s then s else wait_to_retry W s)"

text \<open>A connection begins as \<open>run_once\<close> does, with the channel it takes from.\<close>

definition connect_once ::
    "json \<Rightarrow> world \<Rightarrow> ustr \<Rightarrow> net_error + sock \<Rightarrow> nat \<Rightarrow> daemon \<Rightarrow> daemon" where
  "connect_once J W url connect now s =
     (let s = attempt_begin s in
      case require_encrypted_transport url of
        Inl e \<Rightarrow> attempt_end W (Inl e) s
      | Inr _ \<Rightarrow>
          (case connect of
             Inl e \<Rightarrow> attempt_end W (Inl e) s
           | Inr k \<Rightarrow>
               (case hello_frame J (dm_session s) of
                  (Inl e, ss) \<Rightarrow> attempt_end W (Inl e) (s\<lparr>dm_session := ss\<rparr>)
                | (Inr hello, ss) \<Rightarrow>
                    (case sock_send (WsText hello) (conn_start ss k now []) of
                       (Inl e, c) \<Rightarrow> attempt_end W (Inl e) (s\<lparr>dm_session := ss\<rparr>)
                     | (Inr _, c) \<Rightarrow> s\<lparr>dm_session := ss, dm_conn := Some c\<rparr>))))"

text \<open>A turn of the connection: it takes from the channel, and its events are handled in their order.\<close>

definition connection_turn :: "json \<Rightarrow> prims \<Rightarrow> world \<Rightarrow> (nat \<Rightarrow> string) \<Rightarrow> turn \<Rightarrow> daemon \<Rightarrow> daemon" where
  "connection_turn J P W show_nat t s =
     (case dm_conn s of
        None \<Rightarrow> s
      | Some c \<Rightarrow>
          let (res, c) = converse_turn J P t (c\<lparr>cn_queue := channel s, cn_events := []\<rparr>);
              s = set_channel (cn_queue c) (s\<lparr>dm_conn := Some c, dm_session := cn_session c\<rparr>);
              s = fold (on_event P W show_nat) (cn_events c) s
          in (case res of
                Inl e \<Rightarrow> attempt_end W (Inl e) (s\<lparr>dm_session := stash_unconfirmed c\<rparr>)
              | Inr (Some d) \<Rightarrow> attempt_end W (Inr d) (s\<lparr>dm_session := stash_unconfirmed c\<rparr>)
              | Inr None \<Rightarrow> s))"

text \<open>The relay's address changed: the connection is dropped where it stands.\<close>

definition connection_dropped :: "world \<Rightarrow> daemon \<Rightarrow> daemon" where
  "connection_dropped W s = (if dm_conn s \<noteq> None \<and> dm_reconnect s then attempt_end W (Inr DEof) s else s)"

definition retained_pump :: "device_info \<Rightarrow> daemon \<Rightarrow> daemon" where
  "retained_pump info s =
     (let s = (if dm_retained_wanted s then local_send LFetchRetained (s\<lparr>dm_retained_wanted := False\<rparr>) else s)
      in if dm_announce s then local_send (LDeviceInfo info) (s\<lparr>dm_announce := False\<rparr>) else s)"

section \<open>What the command line asks for\<close>

definition waiting_for_person :: "u32 \<Rightarrow> daemon \<Rightarrow> u32" where
  "waiting_for_person join_requests s = sat_add (offers_waiting (dm_transfers s)) join_requests"

text \<open>A goodbye: queued at once, and the rest waits on a thread of its own until the relay has read it or the time is up.\<close>

definition goodbye :: "prims \<Rightarrow> world \<Rightarrow> daemon \<Rightarrow> bool \<times> daemon" where
  "goodbye P W s = (let (queued, t) = say_leaving P (wo_su W) (dm_transfers s) in (queued, s\<lparr>dm_transfers := t\<rparr>))"

definition forget_account_files :: "world \<Rightarrow> daemon \<Rightarrow> daemon" where
  "forget_account_files W s =
     (on_devices (\<lambda>r. r\<lparr>rg_file := None\<rparr>) s)\<lparr>dm_history := hs_wipe (wo_hist W) (dm_history s)\<rparr>"

definition leave_account :: "world \<Rightarrow> bool \<Rightarrow> daemon \<Rightarrow> daemon" where
  "leave_account W queued s =
     (let s = (if queued \<and> tr_leave_sent (dm_transfers s) then s
          else notify (NoActionFailed ''The Other Devices Were Not Told''
            ''They still list this device. Press Forget beside it on any of them to take it off.'') s)
      in case wo_wipe_io W of
          Some e \<Rightarrow> notify (NoActionFailed ''Asli Could Not Forget the Account Key'' e) s
        | None \<Rightarrow> (on_devices (dev_clear (su_saves (wo_su W))) (forget_account_files W (s\<lparr>dm_account := None\<rparr>)))
            \<lparr>dm_restart := Some WelcomeLeft\<rparr>)"

datatype transfer_request =
    RqSend ustr path
  | RqAccept ustr ustr
  | RqDecline ustr
  | RqCancel ustr
  | RqLeave
  | RqLeaveAccount

definition on_transfers :: "prims \<Rightarrow> t_event \<Rightarrow> daemon \<Rightarrow> daemon" where
  "on_transfers P e s = s\<lparr>dm_transfers := t_step P (dm_transfers s) e\<rparr>"

definition with_id :: "ustr \<Rightarrow> (bytes \<Rightarrow> daemon \<Rightarrow> daemon) \<Rightarrow> daemon \<Rightarrow> daemon" where
  "with_id i f s = (case id_bytes i of None \<Rightarrow> s | Some i \<Rightarrow> f i s)"

fun act_on_transfer_request :: "prims \<Rightarrow> world \<Rightarrow> transfer_request \<Rightarrow> daemon \<Rightarrow> daemon" where
  "act_on_transfer_request P W (RqSend device p) s = with_id device (\<lambda>to. on_transfers P (TSend (wo_metadata W p) p to)) s"
| "act_on_transfer_request P W (RqAccept i folder) s = with_id i (\<lambda>i. on_transfers P (TAccept (wo_su W) i folder)) s"
| "act_on_transfer_request P W (RqDecline i) s = with_id i (\<lambda>i. on_transfers P (TDecline i)) s"
| "act_on_transfer_request P W (RqCancel i) s = with_id i (\<lambda>i. on_transfers P (TCancel i)) s"
| "act_on_transfer_request P W RqLeave s = snd (goodbye P W s)"
| "act_on_transfer_request P W RqLeaveAccount s = snd (goodbye P W s)"

definition act_on_rekey_request :: "world \<Rightarrow> ustr list \<Rightarrow> daemon \<Rightarrow> daemon" where
  "act_on_rekey_request W remove s =
     (let removing = List.map_filter id_bytes remove;
          keep = keyed_except removing (tr_devices (dm_transfers s))
      in snd (replace_key W keep removing s))"

record shown_transfer =
  ts_id :: ustr
  ts_direction :: string
  ts_peer :: ustr
  ts_name :: ustr
  ts_size :: u64
  ts_stage :: ustr

definition transfer_status :: "transfers \<Rightarrow> shown_transfer list" where
  "transfer_status t =
     map (\<lambda>x. \<lparr>ts_id = hex (li_id x),
          ts_direction = (case li_direction x of DirSending \<Rightarrow> ''sending'' | DirReceiving \<Rightarrow> ''receiving''),
          ts_peer = li_peer x, ts_name = li_name x, ts_size = li_size x, ts_stage = describe (li_stage x) (li_chunks x)\<rparr>)
       (tr_list t)"

section \<open>Starting\<close>

definition CHANNEL_PLACES :: nat where "CHANNEL_PLACES = 64"

definition daemon_session ::
    "prims \<Rightarrow> bytes \<Rightarrow> bytes \<Rightarrow> bytes \<Rightarrow> u64 \<Rightarrow> device_info \<Rightarrow> registry \<Rightarrow> memory \<Rightarrow> session" where
  "daemon_session P secret device_secret device_id seq info devices m =
     (let s = session_new (from_secret P secret) device_id seq;
          s = set_device_keys (keys_from_secret P device_secret) s;
          s = set_device_info info s;
          s = restore_known (pinned devices) s;
          s = leave_echoes_to_caller s;
          s = restore_replay m s
      in share_replay_memory m s)"

definition daemon_start ::
    "prims \<Rightarrow> world \<Rightarrow> config \<Rightarrow> bytes \<Rightarrow> bytes \<Rightarrow> ustr \<Rightarrow> ustr \<Rightarrow> store_history \<Rightarrow> transfers \<Rightarrow> app_files
      \<Rightarrow> (app_error + daemon) \<times> app_files" where
  "daemon_start P W c secret device_secret computer os h t fs =
     (case device_id_bytes c of
        Inl e \<Rightarrow> (Inl e, fs)
      | Inr device_id \<Rightarrow>
          (case reserve_sequence (wo_state_io W) fs of
             (Inl e, fs) \<Rightarrow> (Inl e, fs)
           | (Inr seq, fs) \<Rightarrow>
               let i = from_secret P secret;
                   devices = rg_load (id_room_id i) (tr_devices t);
                   info = \<lparr>di_name = display_name computer (cg_device_name c), di_os = os\<rparr>;
                   m = replay_load (id_room_id i) fs;
                   t = attach CHANNEL_PLACES device_secret device_id (id_room_id_bytes i) devices t;
                   status = status_new
               in (Inr \<lparr>dm_files = fs, dm_account = Some secret, dm_device_secret = device_secret, dm_own_id = device_id,
                     dm_session = daemon_session P secret device_secret device_id seq info devices m, dm_conn = None,
                     dm_transfers = set_same_network_only (cg_same_network_only c) t,
                     dm_outbox = outbox_default\<lparr>ox_attached := True\<rparr>, dm_watch = watch_new seq, dm_history = h,
                     dm_status = status, dm_shown = status, dm_backoff = backoff_new, dm_paused = False,
                     dm_cap = cg_max_content_bytes c, dm_notifications = cg_notifications c,
                     dm_ask_right_away = cg_ask_right_away c, dm_retained_wanted = False, dm_retained_pending = False,
                     dm_reconnect = False, dm_announce = False, dm_connected_once = False, dm_skew_told = False,
                     dm_authenticated_at = None, dm_replay_saved = m, dm_writes = [], dm_notices = [], dm_restart = None,
                     dm_stopped = False\<rparr>, fs)))"

section \<open>Steps\<close>

datatype daemon_event =
    DmObserved observed
  | DmConnect ustr "net_error + sock" nat
  | DmTurn turn
  | DmDropped
  | DmPump device_info
  | DmRequestRetained
  | DmReconnect
  | DmAnnounce
  | DmPause bool
  | DmSettings nat bool bool
  | DmReplaceKey "bytes list" "bytes list"
  | DmRekeyRequest "ustr list"
  | DmTransferRequest transfer_request
  | DmLeft bool
  | DmTransfers t_event

text \<open>Of the transfers' own events, those of the connection come through the daemon instead.\<close>

fun from_daemon :: "t_event \<Rightarrow> bool" where
  "from_daemon (TAttach _ _ _ _ _) = True"
| "from_daemon (TQueue _ _) = True"
| "from_daemon (TDevices _) = True"
| "from_daemon (TConnected _ _) = True"
| "from_daemon TDisconnected = True"
| "from_daemon TOverQuota = True"
| "from_daemon (TRelaySent _) = True"
| "from_daemon (TMessage _ _ _) = True"
| "from_daemon (TAskVersion _ _) = True"
| "from_daemon _ = False"

fun daemon_step :: "json \<Rightarrow> prims \<Rightarrow> (nat \<Rightarrow> string) \<Rightarrow> daemon \<Rightarrow> world \<times> daemon_event \<Rightarrow> daemon" where
  "daemon_step J P show_nat s (W, DmObserved ob) = bridge P W ob s"
| "daemon_step J P show_nat s (W, DmConnect url connect now) =
     (if dm_stopped s \<or> dm_conn s \<noteq> None then s else connect_once J W url connect now s)"
| "daemon_step J P show_nat s (W, DmTurn t) = connection_turn J P W show_nat t s"
| "daemon_step J P show_nat s (W, DmDropped) = connection_dropped W s"
| "daemon_step J P show_nat s (W, DmPump info) = (if dm_conn s = None then s else retained_pump info s)"
| "daemon_step J P show_nat s (W, DmRequestRetained) = request_retained s"
| "daemon_step J P show_nat s (W, DmReconnect) = s\<lparr>dm_reconnect := True\<rparr>"
| "daemon_step J P show_nat s (W, DmAnnounce) = s\<lparr>dm_announce := True\<rparr>"
| "daemon_step J P show_nat s (W, DmPause b) = s\<lparr>dm_paused := b\<rparr>"
| "daemon_step J P show_nat s (W, DmSettings n notifications ask) =
     s\<lparr>dm_cap := n, dm_notifications := notifications, dm_ask_right_away := ask\<rparr>"
| "daemon_step J P show_nat s (W, DmReplaceKey keep removing) = snd (replace_key W keep removing s)"
| "daemon_step J P show_nat s (W, DmRekeyRequest remove) = act_on_rekey_request W remove s"
| "daemon_step J P show_nat s (W, DmTransferRequest r) = act_on_transfer_request P W r s"
| "daemon_step J P show_nat s (W, DmLeft queued) = leave_account W queued s"
| "daemon_step J P show_nat s (W, DmTransfers e) = (if from_daemon e then s else on_transfers P e s)"

definition daemon_run ::
    "json \<Rightarrow> prims \<Rightarrow> (nat \<Rightarrow> string) \<Rightarrow> (world \<times> daemon_event) list \<Rightarrow> daemon \<Rightarrow> daemon" where
  "daemon_run J P show_nat es s = foldl (daemon_step J P show_nat) s es"

end
