(* ===== verification/Daemon_Seq.thy ===== *)
theory Daemon_Seq
  imports Daemon Session_Inv
begin

text \<open>
  The sequence numbers of the daemon: what a copy may use, what a connection may use over its turns, and that the
  reservation on disk stays at or above every number used, so that a process that starts again after a crash at any
  moment uses none of them a second time.
\<close>

section \<open>The session\<close>

definition same_seq :: "session \<Rightarrow> session \<Rightarrow> bool" where
  "same_seq s s' \<longleftrightarrow> ss_seq s' = ss_seq s \<and> ss_resend s' = ss_resend s"

lemma same_seq_refl [simp]: "same_seq s s"
  by (simp add: same_seq_def)

lemma same_seq_trans: "same_seq a b \<Longrightarrow> same_seq b c \<Longrightarrow> same_seq a c"
  by (simp add: same_seq_def)

lemma same_seq_quiet: "quiet s s' \<Longrightarrow> same_seq s s'"
  by (auto simp: quiet_def same_seq_def)

lemma same_seq_sbind:
  "same_seq s (snd m) \<Longrightarrow> (\<And>x t. m = (Inr x, t) \<Longrightarrow> same_seq t (snd (f x t))) \<Longrightarrow> same_seq s (snd (sbind m f))"
  by (rule sbind_rel [where R = same_seq]) (auto intro: same_seq_trans)

lemma publish_replay_seq [simp]: "same_seq s (publish_replay t) = same_seq s t"
  by (simp add: publish_replay_def same_seq_def split: option.split)

lemma on_challenge_seq: "same_seq s (snd (on_challenge J P r c now s))"
  by (auto simp: on_challenge_def auth_inputs_def Let_def sbind_def crypto_def same_seq_def
      split: sum.splits option.splits if_splits prod.splits)

lemma deliver_clip_seq: "deliver_clip P b i now t = (acts, s') \<Longrightarrow> same_seq t s'"
  by (auto simp: deliver_clip_def same_seq_def split: option.splits if_splits)

lemma on_clip_seq: "same_seq s (snd (on_clip P c now s))"
  by (auto simp: on_clip_def Let_def sbind_def same_seq_def publish_replay_def split: sum.splits prod.splits option.splits
      dest!: deliver_clip_seq)

lemma on_card_seq: "on_card P body now t = (acts, s') \<Longrightarrow> same_seq t s'"
  by (auto simp: on_card_def Let_def same_seq_def split: sum.splits option.splits if_splits)

lemma on_msg_seq: "same_seq s (snd (on_msg P m now s))"
  by (auto simp: on_msg_def Let_def sbind_def same_seq_def split: sum.splits kind.splits prod.splits dest!: on_card_seq)

lemma on_announce_seq: "same_seq s (snd (on_announce P m now s))"
  by (auto simp: on_announce_def Let_def sbind_def same_seq_def split: sum.splits)

lemma deliver_image_seq: "deliver_image m i now t = (acts, s') \<Longrightarrow> same_seq t s'"
  by (auto simp: deliver_image_def Let_def same_seq_def publish_replay_def
      split: prod.splits content_type.splits option.splits if_splits)

lemma on_chunk_seq: "same_seq s (snd (on_chunk P c now s))"
  by (auto simp: on_chunk_def Let_def sbind_def same_seq_def split: sum.splits option.splits prod.splits
      dest!: deliver_image_seq)

lemma introduce_seq: "same_seq s t \<Longrightarrow> same_seq s (snd (introduce J P rnd now acts t))"
  by (rule same_seq_trans, assumption, rule same_seq_quiet, rule introduce_quiet)

lemma same_seq_update [simp]:
  "same_seq s (t\<lparr>ss_phase := ph\<rparr>) = same_seq s t" "same_seq s (t\<lparr>ss_peers := n\<rparr>) = same_seq s t"
  "same_seq s (t\<lparr>ss_conn_id := c\<rparr>) = same_seq s t" "same_seq s (t\<lparr>ss_limits := l\<rparr>) = same_seq s t"
  "same_seq s (t\<lparr>ss_msg_probe := mp\<rparr>) = same_seq s t" "same_seq s (t\<lparr>ss_announce_probe := mp\<rparr>) = same_seq s t"
  "same_seq s (t\<lparr>ss_device_info := di\<rparr>) = same_seq s t"
  by (simp_all add: same_seq_def)

lemma on_message_seq: "same_seq s (snd (on_message J P rnd m now s))"
  by (cases m) (auto simp: on_challenge_seq on_clip_seq on_chunk_seq on_announce_seq on_msg_seq introduce_seq Let_def
      sbind_def split: sum.split)

lemma handle_frame_seq: "same_seq s (snd (handle_frame J P rnd f now s))"
  by (auto simp: handle_frame_def sbind_def on_message_seq split: sum.split)

lemma hello_frame_seq: "same_seq s (snd (hello_frame J s))"
  by (simp add: hello_frame_def same_seq_def)

text \<open>A copy uses at most one number, and nothing else uses any.\<close>

definition spent :: "session \<Rightarrow> nat" where
  "spent s = unat (ss_seq s)"

definition held_back :: "session \<Rightarrow> nat" where
  "held_back s = (if ss_resend s = None then 0 else 1)"

lemma same_seq_spent: "same_seq s s' \<Longrightarrow> spent s' = spent s \<and> held_back s' = held_back s"
  by (simp add: same_seq_def spent_def held_back_def)

definition one_more :: "session \<Rightarrow> session \<Rightarrow> bool" where
  "one_more s s' \<longleftrightarrow> spent s \<le> spent s' \<and> spent s' \<le> spent s + 1 \<and> held_back s' = held_back s"

lemma spend_one [simp]: "one_more s (s\<lparr>ss_seq := sat_add (ss_seq s) 1\<rparr>)" "one_more s s"
  using unat_bound [of "ss_seq s"] by (simp_all add: one_more_def spent_def held_back_def unat_sat_add)

lemma send_clip_seq: "one_more s (snd (send_clip J P r1 r2 t now s))"
  by (auto simp: send_clip_def Let_def sbind_def crypto_def split: sum.splits)

lemma one_moreI: "same_seq s s' \<Longrightarrow> one_more s s'"
  by (simp add: one_more_def same_seq_spent)

lemma one_more_update [simp]:
  "one_more (s\<lparr>ss_echo := g\<rparr>) t = one_more s t" "one_more s (t\<lparr>ss_echo := g\<rparr>) = one_more s t"
  by (simp_all add: one_more_def spent_def held_back_def)

lemma observe_local_seq: "one_more s (snd (observe_local J P r1 r2 t now s))"
  using send_clip_seq [of "s\<lparr>ss_echo := g\<rparr>" for g]
  by (auto simp: observe_local_def Let_def split: option.splits prod.splits)

lemma observe_local_image_seq: "one_more s (snd (observe_local_image J P r rnd png now s))"
  by (auto simp: observe_local_image_def Let_def sbind_def crypto_def split: sum.splits)

section \<open>The connection\<close>

definition copy_bit :: "local_event \<Rightarrow> nat" where
  "copy_bit e = (if copy_of e = None then 0 else 1)"

definition copies :: "local_event list \<Rightarrow> nat" where
  "copies es = sum_list (map copy_bit es)"

lemma copies_simps [simp]:
  "copies [] = 0" "copies (e # es) = copy_bit e + copies es" "copies (es @ fs) = copies es + copies fs"
  by (simp_all add: copies_def)

lemma copy_bit_simps [simp]:
  "copy_bit (LText t) = 1" "copy_bit (LImage b) = 1" "copy_bit LFetchRetained = 0" "copy_bit (LDeviceInfo i) = 0"
  "copy_bit (LMessage k body to token) = 0" "copy_bit (LRekey keep secret token') = 0"
  by (simp_all add: copy_bit_def)

definition used :: "session \<Rightarrow> nat" where
  "used s = spent s + held_back s"

lemma same_seq_used: "same_seq s s' \<Longrightarrow> used s' = used s"
  by (simp add: used_def same_seq_spent)

lemma frames_for_seq:
  assumes "frames_for J P rnd now e s = (evs, res, s')"
  shows "spent s \<le> spent s'" "spent s' \<le> spent s + copy_bit e" "held_back s' = held_back s"
proof -
  have *: "spent s \<le> spent s' \<and> spent s' \<le> spent s + copy_bit e \<and> held_back s' = held_back s"
  proof (cases e)
    case (LText t)
    then show ?thesis using assms observe_local_seq [of s J P "rnd 0" "rnd 1" t now]
      by (auto simp: one_more_def split: prod.splits sum.splits option.splits net_error.splits)
  next
    case (LImage png)
    then show ?thesis using assms observe_local_image_seq [of s J P "rnd 0" "\<lambda>i. rnd (Suc i)" png now]
      by (auto simp: one_more_def split: prod.splits sum.splits net_error.splits)
  next
    case LFetchRetained
    then show ?thesis using assms by (auto split: sum.splits net_error.splits)
  next
    case (LDeviceInfo info)
    have "same_seq s (snd (snd (frames_for J P rnd now e s)))"
      unfolding LDeviceInfo
      by (auto intro!: same_seq_sbind same_seq_quiet [OF card_frame_quiet]
          same_seq_trans [OF _ same_seq_quiet [OF announce_frame_quiet]] simp: set_device_info_def)
    then show ?thesis using assms same_seq_spent [of s s'] by simp
  next
    case (LMessage k body to token)
    then show ?thesis using assms same_seq_spent [OF same_seq_quiet [OF msg_frame_quiet [of s J P "rnd 0" "rnd 1" k body to]]]
      by (auto split: prod.splits sum.splits net_error.splits)
  next
    case (LRekey keep secret token)
    then show ?thesis using assms
      same_seq_spent [OF same_seq_quiet [OF rekey_frame_quiet
        [of s J P "\<lambda>i. (rnd (2 * i + 2), rnd (2 * i + 3))" "rnd 0" "rnd 1" keep secret now]]]
      by (auto split: prod.splits sum.splits net_error.splits)
  qed
  then show "spent s \<le> spent s'" "spent s' \<le> spent s + copy_bit e" "held_back s' = held_back s" by simp_all
qed

lemma sock_send_same: "cn_session (snd (sock_send m c)) = cn_session c" "cn_queue (snd (sock_send m c)) = cn_queue c"
  by (simp_all add: sock_send_def Let_def)

lemma sock_send_all_same:
  "cn_session (snd (sock_send_all fs c)) = cn_session c \<and> cn_queue (snd (sock_send_all fs c)) = cn_queue c"
  by (induction fs arbitrary: c) (auto simp: cbind_def sock_send_def Let_def split: sum.splits prod.splits if_splits)

lemma track_same: "cn_session (track e c) = cn_session c" "cn_queue (track e c) = cn_queue c"
  by (simp_all add: track_def Let_def split: option.split)

lemma send_ping_same: "cn_session (snd (send_ping c)) = cn_session c" "cn_queue (snd (send_ping c)) = cn_queue c"
  by (simp_all add: send_ping_def next_ping_def sock_send_same Let_def)

lemma report_same [simp]: "cn_session (report evs c) = cn_session c" "cn_queue (report evs c) = cn_queue c"
  by (simp_all add: report_def)

lemma cbind_snd: "snd (cbind m f) = (case fst m of Inl _ \<Rightarrow> snd m | Inr x \<Rightarrow> snd (f x (snd m)))"
  by (auto simp: cbind_def split: prod.split sum.split)

lemma send_event_used:
  "used (cn_session (snd (send_event J P rnd now e c))) \<le> used (cn_session c) + copy_bit e
    \<and> cn_queue (snd (send_event J P rnd now e c)) = cn_queue c
    \<and> spent (cn_session c) \<le> spent (cn_session (snd (send_event J P rnd now e c)))"
proof -
  obtain evs res s' where f: "frames_for J P rnd now e (cn_session c) = (evs, res, s')"
    by (cases "frames_for J P rnd now e (cn_session c)") auto
  note g = frames_for_seq [OF f]
  show ?thesis
    using g sock_send_all_same
    by (auto simp: send_event_def f used_def cbind_snd track_same send_ping_same split: sum.split)
qed

lemma send_local_used:
  "used (cn_session (snd (send_local J P env n es c))) \<le> used (cn_session c) + copies es
    \<and> cn_queue (snd (send_local J P env n es c)) = cn_queue c
    \<and> spent (cn_session c) \<le> spent (cn_session (snd (send_local J P env n es c)))"
proof (induction es arbitrary: n c)
  case (Cons e es)
  have "used (cn_session (snd (send_event J P (fst (env n)) (snd (env n)) e c))) \<le> used (cn_session c) + copy_bit e
    \<and> cn_queue (snd (send_event J P (fst (env n)) (snd (env n)) e c)) = cn_queue c
    \<and> spent (cn_session c) \<le> spent (cn_session (snd (send_event J P (fst (env n)) (snd (env n)) e c)))"
    by (rule send_event_used)
  then show ?case
    using Cons.IH [of "Suc n" "snd (send_event J P (fst (env n)) (snd (env n)) e c)"]
    by (auto simp: cbind_snd split: sum.split)
qed simp

lemma apply_action_same:
  "cn_session (snd (apply_action now a c)) = cn_session c \<and> cn_queue (snd (apply_action now a c)) = cn_queue c"
  by (cases a) (auto simp: cbind_snd sock_send_same split: sum.split option.split)

lemma apply_actions_same:
  "cn_session (snd (apply_actions now as c)) = cn_session c \<and> cn_queue (snd (apply_actions now as c)) = cn_queue c"
proof (induction as arbitrary: c)
  case (Cons a as)
  then show ?case using apply_action_same [of now a c]
    by (auto simp: cbind_snd split: sum.split option.split)
qed simp

text \<open>A batch keeps at most one of the copies it took in.\<close>

definition batch_copies :: "batch \<Rightarrow> nat" where
  "batch_copies b = (case ba_copy b of None \<Rightarrow> 0 | Some c \<Rightarrow> copy_bit c)
     + (case ba_info b of None \<Rightarrow> 0 | Some i \<Rightarrow> copy_bit i) + copies (ba_messages b)"

lemma batch_take_copies: "batch_copies (batch_take b e) \<le> batch_copies b + copy_bit e"
  by (cases e) (auto simp: batch_copies_def split: option.split)

lemma batch_fold_copies: "batch_copies (foldl batch_take b es) \<le> batch_copies b + copies es"
proof (induction es arbitrary: b)
  case (Cons e es)
  have "batch_copies (foldl batch_take (batch_take b e) es) \<le> batch_copies (batch_take b e) + copies es" by (rule Cons.IH)
  then show ?case using batch_take_copies [of b e] by (simp only: foldl_Cons copies_simps)
qed simp

lemma coalesce_copies: "copies (coalesce e es) \<le> copies (e # es)"
proof -
  define b where "b = foldl batch_take batch_empty (e # es)"
  have "batch_copies b \<le> copies (e # es)"
    using batch_fold_copies [of batch_empty "e # es"] by (simp add: b_def batch_copies_def batch_empty_def)
  moreover have "copies (coalesce e es) = batch_copies b"
    unfolding coalesce_def Let_def b_def [symmetric] by (simp add: batch_copies_def split: option.split)
  ultimately show ?thesis by simp
qed

lemma on_pong_same: "cn_session (on_pong payload c) = cn_session c" "cn_queue (on_pong payload c) = cn_queue c"
  by (simp_all add: on_pong_def Let_def)

lemma on_incoming_used:
  "used (cn_session (snd (on_incoming J P t i c))) = used (cn_session c) \<and> cn_queue (snd (on_incoming J P t i c)) = cn_queue c
    \<and> spent (cn_session (snd (on_incoming J P t i c))) = spent (cn_session c)"
proof -
  have h: "used s' = used (cn_session c) \<and> spent s' = spent (cn_session c)"
    if "handle_frame J P (tn_draws t) f (tn_wall t) (cn_session c) = (r, s')" for f r s'
    using handle_frame_seq [of "cn_session c" J P "tn_draws t" f "tn_wall t"] that
    by (simp add: same_seq_used same_seq_spent)
  show ?thesis
    by (auto simp: on_incoming_def Let_def on_pong_same apply_actions_same dest: h
        split: incoming_ws.split ws.split prod.split sum.split net_error.split)
qed

lemma resend_first_used:
  "used (cn_session (snd (resend_first J P t c))) \<le> used (cn_session c) \<and> cn_queue (snd (resend_first J P t c)) = cn_queue c
    \<and> spent (cn_session c) \<le> spent (cn_session (snd (resend_first J P t c)))"
proof (cases "ss_resend (cn_session c)")
  case None
  then show ?thesis by (simp add: resend_first_def take_resend_def used_def spent_def held_back_def)
next
  case (Some e)
  define c' where "c' = c\<lparr>cn_session := (cn_session c)\<lparr>ss_resend := None\<rparr>\<rparr>"
  have "used (cn_session c') + 1 = used (cn_session c)" "spent (cn_session c') = spent (cn_session c)"
    by (simp_all add: c'_def used_def spent_def held_back_def Some)
  moreover have "copies [e] \<le> 1" by (simp add: copy_bit_def)
  moreover note send_local_used [of J P "\<lambda>_. (tn_draws t, tn_wall t)" 0 "[e]" c']
  moreover have "cn_queue c' = cn_queue c" by (simp add: c'_def)
  ultimately show ?thesis
    by (simp add: resend_first_def take_resend_def Some c'_def [symmetric] del: send_local.simps)
qed

definition conn_used :: "conn \<Rightarrow> nat" where
  "conn_used c = used (cn_session c) + copies (cn_queue c)"

lemma send_batch_used:
  "conn_used (snd (send_local J P env 0 (coalesce e es) (c\<lparr>cn_queue := []\<rparr>))) \<le> used (cn_session c) + copies (e # es)
    \<and> spent (cn_session c) \<le> spent (cn_session (snd (send_local J P env 0 (coalesce e es) (c\<lparr>cn_queue := []\<rparr>))))"
  using send_local_used [of J P env 0 "coalesce e es" "c\<lparr>cn_queue := []\<rparr>"] coalesce_copies [of e es]
  by (simp add: conn_used_def)

lemma converse_turn_used:
  "conn_used (snd (converse_turn J P t c)) \<le> conn_used c
    \<and> spent (cn_session c) \<le> spent (cn_session (snd (converse_turn J P t c)))"
proof -
  define c1 where "c1 = snd (resend_first J P t c)"
  have c1: "conn_used c1 \<le> conn_used c" "spent (cn_session c) \<le> spent (cn_session c1)"
    using resend_first_used [of J P t c] by (simp_all add: c1_def conn_used_def)
  have ret: "snd (cbind m (\<lambda>_ c. (Inr r, c))) = snd m" for m r
    by (simp add: cbind_snd split: sum.split)
  define b where "b = (case tn_branch t of
          BIncoming i \<Rightarrow> on_incoming J P t i c1
        | BLocal \<Rightarrow>
            if \<not> (is_ready (cn_session c) \<and> \<not> cn_held (tn_top t) c) then (Inr None, c1)
            else (case cn_queue c1 of
                [] \<Rightarrow> (Inr (if cn_closed c1 then Some DLocalChannelClosed else None), c1)
              | e # queued \<Rightarrow>
                  cbind (send_local J P (tn_env t) 0 (coalesce e queued) (c1\<lparr>cn_queue := []\<rparr>)) (\<lambda>_ c. (Inr None, c)))
        | BPing \<Rightarrow>
            if tn_now t - cn_last_heard c1 > SILENCE_LIMIT then (Inr (Some DEof), c1)
            else cbind (send_ping c1) (\<lambda>_ c. (Inr None, c))
        | BHoldOver \<Rightarrow> (Inr None, if cn_held (tn_top t) c then c1\<lparr>cn_hold := None\<rparr> else c1))"
  have "conn_used (snd b) \<le> conn_used c1 \<and> spent (cn_session c1) \<le> spent (cn_session (snd b))"
    using on_incoming_used [of J P t _ c1] send_batch_used [of J P "tn_env t" _ _ c1] send_ping_same [of c1]
    by (auto simp: b_def ret conn_used_def split: branch.split list.split)
  moreover have "snd (converse_turn J P t c) = c1 \<or> snd (converse_turn J P t c) = snd b"
    unfolding converse_turn_def Let_def cbind_snd c1_def b_def by (simp split: sum.split)
  ultimately show ?thesis using c1 by (metis order_trans)
qed

end
