(* ===== verification/Daemon_Queue.thy ===== *)
theory Daemon_Queue
  imports Daemon_Seq
begin

text \<open>
  The transfers never put a copy into the queue they share with the clipboard: whatever they do, the copies in it are
  as many as before.
\<close>

definition queued_copies :: "relay_link option \<Rightarrow> nat" where
  "queued_copies l = (case l of None \<Rightarrow> 0 | Some l \<Rightarrow> copies (lk_queue l))"

named_theorems queue_simps

lemma try_send_copies [queue_simps]: "copies (lk_queue (snd (try_send ev l))) \<le> copies (lk_queue l) + copy_bit ev"
  by (simp add: try_send_def)

lemma try_message_copies: "try_send (LMessage k body to token) l = (ok, l') \<Longrightarrow> copies (lk_queue l') = copies (lk_queue l)"
  by (auto simp: try_send_def split: if_splits)

lemma send_msg_copies: "send_msg k body to l = (r, l') \<Longrightarrow> copies (lk_queue l') = copies (lk_queue l)"
  by (auto simp: send_msg_def try_send_def split: if_splits)

lemma send_cancel_copies: "copies (lk_queue (send_cancel i to l)) = copies (lk_queue l)"
  using send_msg_copies [OF prod.collapse [symmetric]] by (auto simp: send_cancel_def)

lemma answer_offer_copies: "answer_offer P i yes to l = (r, l') \<Longrightarrow> copies (lk_queue l') = copies (lk_queue l)"
  by (auto simp: answer_offer_def send_msg_copies split: option.splits sum.splits)

lemma send_ack_copies: "send_ack ig n st l = (ok, l') \<Longrightarrow> copies (lk_queue l') = copies (lk_queue l)"
  by (auto simp: send_ack_def send_msg_copies split: prod.splits)

lemma pump_loop_copies: "pump_loop now to l p og fs = (l', r) \<Longrightarrow> copies (lk_queue l') = copies (lk_queue l)"
proof (induction now to l p og fs arbitrary: r rule: pump_loop.induct)
  case (1 now to l p og fs)
  show ?case
    using "1.prems" unfolding pump_loop.simps [of now to l p og fs]
    by (auto split: if_splits prod.splits bool.splits option.splits sum.splits dest: send_msg_copies)
      (metis "1.IH" send_msg_copies)
qed

lemma pump_out_copies: "pump_out now l p og fs = (l', r) \<Longrightarrow> copies (lk_queue l') = copies (lk_queue l)"
  by (auto simp: pump_out_def pump_loop_copies split: option.splits)

lemma fail_incoming_copies: "fail_incoming why l ig fs = (l', r) \<Longrightarrow> copies (lk_queue l') = copies (lk_queue l)"
  by (auto simp: fail_incoming_def send_cancel_copies split: prod.splits)

definition same_copies :: "transfers \<Rightarrow> transfers \<Rightarrow> bool" where
  "same_copies s s' \<longleftrightarrow> queued_copies (tr_link s') = queued_copies (tr_link s)"

lemma same_copies_refl [simp]: "same_copies s s"
  by (simp add: same_copies_def)

lemma same_copies_trans: "same_copies a b \<Longrightarrow> same_copies b c \<Longrightarrow> same_copies a c"
  by (simp add: same_copies_def)

lemma same_copies_update [simp]:
  "same_copies s (t\<lparr>tr_devices := r\<rparr>) = same_copies s t" "same_copies s (t\<lparr>tr_fs := fs\<rparr>) = same_copies s t"
  "same_copies s (t\<lparr>tr_sending := m\<rparr>) = same_copies s t" "same_copies s (t\<lparr>tr_receiving := n\<rparr>) = same_copies s t"
  "same_copies s (t\<lparr>tr_pace := p\<rparr>) = same_copies s t" "same_copies s (t\<lparr>tr_preparing := q\<rparr>) = same_copies s t"
  "same_copies s (t\<lparr>tr_leave_sent := b\<rparr>) = same_copies s t" "same_copies s (t\<lparr>tr_same_network_only := b\<rparr>) = same_copies s t"
  "same_copies s (bump t) = same_copies s t" "same_copies s (set_out i og t) = same_copies s t"
  "same_copies s (set_in i ig t) = same_copies s t" "same_copies s (set_preparing to pa on t) = same_copies s t"
  by (simp_all add: same_copies_def bump_def set_out_def set_in_def set_preparing_def)

lemma same_copies_link:
  "tr_link s = Some l \<Longrightarrow> same_copies s (t\<lparr>tr_link := Some l'\<rparr>) \<longleftrightarrow> copies (lk_queue l') = copies (lk_queue l)"
  by (simp add: same_copies_def queued_copies_def)

lemmas link_copies = try_message_copies send_msg_copies answer_offer_copies send_ack_copies pump_out_copies
  fail_incoming_copies

lemma announce_version_copies: "same_copies s (announce_version P E ask to s)"
  by (auto simp: announce_version_def same_copies_link link_copies [OF prod.collapse [symmetric]]
      split: option.split sum.split)

lemma fail_all_live_copies: "same_copies s (fail_all_live why s)"
  by (simp add: fail_all_live_def split: prod.split)

lemma map_conn_copies: "same_copies s (s\<lparr>tr_link := map_option (\<lambda>l. l\<lparr>lk_conn_id := c\<rparr>) (tr_link s)\<rparr>)"
  by (simp add: same_copies_def queued_copies_def split: option.split)

lemma tr_connected_copies: "same_copies s (tr_connected P E c s)"
  unfolding tr_connected_def Let_def
  by (rule same_copies_trans [OF map_conn_copies]) (rule same_copies_trans [OF fail_all_live_copies announce_version_copies])

lemma tick_send_copies: "same_copies s (tick_send now s)"
proof (cases "tr_link s")
  case None
  then show ?thesis by (simp add: tick_send_def)
next
  case (Some l)
  have pump: "copies (lk_queue (fst (snd (each_value (pump_moving now) m (l, e))))) = copies (lk_queue l)" for m l e
  proof (induction m arbitrary: l e)
    case (Cons a m)
    obtain k v where a: "a = (k, v)" by (cases a)
    obtain l1 e1 where "snd (pump_moving now v (l, e)) = (l1, e1)" "copies (lk_queue l1) = copies (lk_queue l)"
      using pump_out_copies
      by (cases "snd (pump_moving now v (l, e))") (auto simp: pump_moving_def split: prod.splits if_splits)
    then show ?case using Cons.IH [of l1 e1] by (simp add: a each_value_Cons del: each_value.simps(2))
  qed simp
  have ack: "copies (lk_queue (snd (each_value pay_ack m l))) = copies (lk_queue l)" for m l
  proof (induction m arbitrary: l)
    case (Cons a m)
    obtain k v where a: "a = (k, v)" by (cases a)
    have "copies (lk_queue (snd (pay_ack v l))) = copies (lk_queue l)"
      using send_ack_copies by (auto simp: pay_ack_def split: option.split prod.split)
    then show ?case using Cons.IH [of "snd (pay_ack v l)"] by (simp add: a each_value_Cons del: each_value.simps(2))
  qed simp
  show ?thesis
    using pump [of "tr_sending s" l "(tr_pace s, tr_fs s)"] ack [of "tr_receiving s"]
    by (auto simp: tick_send_def Some same_copies_def queued_copies_def split: prod.split) (metis fst_conv snd_conv)+
qed

lemma tr_tick_copies: "same_copies s (tr_tick now s)"
proof -
  have stalled: "same_copies s (fst (tick_stalled now s))" by (simp add: tick_stalled_def split: prod.split)
  have gone: "same_copies t (fst (tick_gone now (t, g)))" for t g
    by (simp add: tick_gone_def split: prod.split)
  obtain t g where t: "tick_stalled now s = (t, g)" by (cases "tick_stalled now s")
  obtain u h where u: "tick_gone now (t, g) = (u, h)" by (cases "tick_gone now (t, g)")
  have "same_copies s u" using stalled gone [of t g] same_copies_trans t u by simp
  then have "same_copies s (if h then bump u else u)" by simp
  then show ?thesis unfolding tr_tick_def t u Let_def prod.case by (rule same_copies_trans [OF _ tick_send_copies])
qed

lemma on_about_copies: "same_copies s (on_about P E body s)"
  by (auto simp: on_about_def Let_def split: option.split sum.split
      intro: same_copies_trans [OF _ announce_version_copies])

lemma queue_leave_copies: "queue_leave P E t = (ok, s') \<Longrightarrow> same_copies t s'"
  by (auto simp: queue_leave_def Let_def same_copies_link dest: try_message_copies
      split: option.splits prod.splits if_splits)

lemma say_leaving_copies: "say_leaving P E s = (ok, s') \<Longrightarrow> same_copies s s'"
  by (auto simp: say_leaving_def dest!: queue_leave_copies) (simp add: same_copies_def)

lemma on_leave_copies: "same_copies s (on_leave P E body s)"
  by (auto simp: on_leave_def split: option.split sum.split)

lemma send_file_copies: "same_copies s (snd (send_file metadata p to s))"
  by (auto simp: send_file_def Let_def split: option.split)

lemma make_offer_copies: "make_offer P E d p to conn peer h s = (r, s') \<Longrightarrow> same_copies s s'"
  by (auto simp: make_offer_def Let_def same_copies_link split: option.splits sum.splits if_splits prod.splits
      dest: send_msg_copies)

lemma hashed_file_copies: "same_copies s (snd (hashed_file P E d p to conn peer s))"
proof -
  have "same_copies s t" if "make_offer P E d p to conn peer h (s\<lparr>tr_fs := fs\<rparr>) = (r, t)" for h fs r t
    using make_offer_copies [OF that] by (simp add: same_copies_def)
  then show ?thesis by (auto simp: hashed_file_def Let_def split: prod.split sum.split)
qed

lemma accept_as_copies: "same_copies s (snd (accept_as P E i fp replace s))"
  by (auto simp: accept_as_def Let_def same_copies_link split: option.split sum.split prod.split dest: answer_offer_copies)

lemma accept_file_copies: "same_copies s (snd (accept_file P E i folder s))"
  by (simp add: accept_file_def accept_as_copies split: option.split)

lemma answer_through_relay_copies: "same_copies s (answer_through_relay P i s)"
proof (cases "tr_link s")
  case None
  then show ?thesis
    by (auto simp: answer_through_relay_def Let_def split: option.split sum.split prod.split) (auto simp: same_copies_def)
next
  case (Some l)
  then show ?thesis
    by (auto simp: answer_through_relay_def Let_def same_copies_link split: option.split sum.split prod.split
        dest: answer_offer_copies fail_incoming_copies)
qed

lemma decline_file_copies: "same_copies s (decline_file P i s)"
  using answer_offer_copies [OF prod.collapse [symmetric]]
  by (auto simp: decline_file_def same_copies_def queued_copies_def bump_def set_in_def split: option.split)

lemma direct_copies:
  "same_copies s (snd (direct_begin now i s))" "same_copies s (snd (direct_progress now i n s))"
  "same_copies s (end_direct i st s)" "same_copies s (direct_receiving now i s)"
  "same_copies s (snd (direct_piece P now i d s))" "same_copies s (direct_receive_failed i why s)"
  by (auto simp: direct_begin_def direct_progress_def end_direct_def direct_receiving_def direct_piece_def
      direct_receive_failed_def Let_def split: option.split prod.split sum.split)

lemma mark_cancelled_copies: "same_copies s t \<Longrightarrow> same_copies s (mark_cancelled i t)"
  by (auto simp: mark_cancelled_def Let_def split: option.split prod.split)

lemma cancel_transfer_copies: "same_copies s (cancel_transfer i s)"
  by (auto simp: cancel_transfer_def Let_def same_copies_link send_cancel_copies mark_cancelled_copies split: option.split)

lemma cancel_to_copies: "same_copies s (cancel_to device s)"
proof -
  have "same_copies t (fold cancel_transfer ids t)" for ids t
    by (induction ids arbitrary: t) (auto intro: same_copies_trans [OF cancel_transfer_copies])
  from this [of "s\<lparr>tr_preparing := q\<rparr>" for q] show ?thesis by (simp add: cancel_to_def Let_def same_copies_def)
qed

lemma on_offer_copies: "on_offer P E body s = (ask, s') \<Longrightarrow> same_copies s s'"
  by (auto simp: on_offer_def Let_def split: option.splits sum.splits if_splits)

lemma pump_at_copies: "tr_link s = Some l \<Longrightarrow> same_copies s (pump_at now i l og s)"
  by (auto simp: pump_at_def same_copies_link split: prod.split dest: pump_out_copies)

lemma on_answer_copies: "same_copies s (on_answer P E body s)"
  by (auto simp: on_answer_def Let_def same_copies_link send_cancel_copies pump_at_copies split: option.split sum.split)

lemma on_ack_copies: "same_copies s (on_ack E body s)"
  by (auto simp: on_ack_def Let_def pump_at_copies split: option.split sum.split ack_state.split)

lemma on_file_chunk_copies: "same_copies s (on_file_chunk P E body s)"
  by (auto simp: on_file_chunk_def Let_def same_copies_link split: option.split sum.split prod.split
      dest: fail_incoming_copies send_ack_copies)

lemma on_file_message_copies: "on_file_message P E k body s = (ask, s') \<Longrightarrow> same_copies s s'"
  by (auto simp: on_file_message_def on_answer_copies on_file_chunk_copies on_ack_copies on_about_copies
      on_leave_copies on_cancel_def mark_cancelled_copies split: kind.splits prod.splits sum.split dest: on_offer_copies)

lemma t_step_copies: "\<not> from_daemon e \<Longrightarrow> same_copies s (t_step P s e)"
  using say_leaving_copies [OF prod.collapse [symmetric]]
  by (cases e) (auto simp: set_same_network_only_def tr_tick_copies clear_finished_def send_file_copies hashed_file_copies
      accept_file_copies accept_as_copies answer_through_relay_copies direct_copies direct_finished_def direct_failed_def
      decline_file_copies cancel_transfer_copies cancel_to_copies)

end
