(* ===== verification/Daemon_Props.thy ===== *)
theory Daemon_Props
  imports Daemon_Queue Session_Props
begin

text \<open>
  What the daemon promises: no sequence number is used twice across restarts, nothing is written while paused, a stored
  clip is written only when it was asked for, and the account changes only for the reasons it should.
\<close>

section \<open>Steps that use no number\<close>

definition still :: "daemon \<Rightarrow> daemon \<Rightarrow> bool" where
  "still s s' \<longleftrightarrow>
     dm_session s' = dm_session s \<and> dm_conn s' = dm_conn s \<and> dm_watch s' = dm_watch s
     \<and> af_state (dm_files s') = af_state (dm_files s) \<and> same_copies (dm_transfers s) (dm_transfers s')"

lemma still_refl [simp]: "still s s"
  by (simp add: still_def)

lemma still_trans: "still a b \<Longrightarrow> still b c \<Longrightarrow> still a c"
  by (auto simp: still_def intro: same_copies_trans)

lemma still_update [simp]:
  "still s (t\<lparr>dm_status := x\<rparr>) = still s t" "still s (t\<lparr>dm_shown := x\<rparr>) = still s t"
  "still s (t\<lparr>dm_history := h\<rparr>) = still s t" "still s (t\<lparr>dm_outbox := ox\<rparr>) = still s t"
  "still s (t\<lparr>dm_account := a\<rparr>) = still s t" "still s (t\<lparr>dm_backoff := bo\<rparr>) = still s t"
  "still s (t\<lparr>dm_paused := b\<rparr>) = still s t" "still s (t\<lparr>dm_cap := n\<rparr>) = still s t"
  "still s (t\<lparr>dm_notifications := b\<rparr>) = still s t" "still s (t\<lparr>dm_ask_right_away := b\<rparr>) = still s t"
  "still s (t\<lparr>dm_retained_wanted := b\<rparr>) = still s t" "still s (t\<lparr>dm_retained_pending := b\<rparr>) = still s t"
  "still s (t\<lparr>dm_reconnect := b\<rparr>) = still s t" "still s (t\<lparr>dm_announce := b\<rparr>) = still s t"
  "still s (t\<lparr>dm_connected_once := b\<rparr>) = still s t" "still s (t\<lparr>dm_skew_told := b\<rparr>) = still s t"
  "still s (t\<lparr>dm_authenticated_at := ao\<rparr>) = still s t" "still s (t\<lparr>dm_replay_saved := m\<rparr>) = still s t"
  "still s (t\<lparr>dm_writes := ws\<rparr>) = still s t" "still s (t\<lparr>dm_notices := ns\<rparr>) = still s t"
  "still s (t\<lparr>dm_restart := r\<rparr>) = still s t" "still s (t\<lparr>dm_stopped := b\<rparr>) = still s t"
  by (simp_all add: still_def)

lemma still_parts [simp]:
  "still s (notify x t) = still s t" "still s (publish t) = still s t" "still s (set_status f t) = still s t"
  "still s (offline t) = still s t" "still s (stop_with why t) = still s t" "still s (request_retained t) = still s t"
  "still s (record_history P W c from t) = still s t" "still s (attempt_begin t) = still s t"
  by (simp_all add: notify_def publish_def set_status_def offline_def stop_with_def request_retained_def record_history_def
      attempt_begin_def Let_def)

lemma still_transfers: "same_copies (dm_transfers s) t \<Longrightarrow> still s (s\<lparr>dm_transfers := t\<rparr>)"
  by (simp add: still_def)

lemma still_devices [simp]: "still s (on_devices f t) = still s t"
  by (simp add: still_def on_devices_def)

lemma copies_channel: "copies (channel s) = queued_copies (tr_link (dm_transfers s))"
  by (simp add: channel_def queued_copies_def split: option.split)

lemma set_channel_fields [simp]:
  "dm_session (set_channel q s) = dm_session s" "dm_conn (set_channel q s) = dm_conn s"
  "dm_watch (set_channel q s) = dm_watch s" "dm_files (set_channel q s) = dm_files s"
  "dm_paused (set_channel q s) = dm_paused s" "dm_writes (set_channel q s) = dm_writes s"
  by (simp_all add: set_channel_def)

lemma set_channel_copies: "copies (channel (set_channel q s)) \<le> copies q"
  by (simp add: set_channel_def channel_def split: option.split)

lemma local_send_still: "copy_bit ev = 0 \<Longrightarrow> still s (local_send ev s)"
  by (auto simp: local_send_def still_def same_copies_def queued_copies_def set_channel_def channel_def split: option.split)

lemma local_send_copies: "copies (channel (local_send ev s)) \<le> copies (channel s) + copy_bit ev"
  using set_channel_copies [of "channel s @ [ev]" s] by (simp add: local_send_def)

lemma local_try_send_still: "copy_bit ev = 0 \<Longrightarrow> local_try_send ev s = (ok, s') \<Longrightarrow> still s s'"
  by (auto simp: local_try_send_def local_send_still split: option.splits if_splits)

lemma pr_event_bit [simp]: "copy_bit (pr_event p) = 0"
  by (simp add: pr_event_def)

lemma replace_key_still: "still s (snd (replace_key W keep removing s))"
proof -
  have "still s s'" if "local_try_send (pr_event p) (s\<lparr>dm_outbox := ox\<rparr>) = (ok, s')" for p ox ok s'
    using local_try_send_still [OF pr_event_bit that] by (simp add: still_def)
  then show ?thesis
    by (auto simp: replace_key_def Let_def split: sum.split prod.split if_splits)
qed

lemma resend_pending_still: "still s (resend_pending s)"
  using local_try_send_still [OF pr_event_bit prod.collapse [symmetric]]
  by (auto simp: resend_pending_def split: option.split)

lemma write_clip_still: "write_clip W work ts s = (ok, s') \<Longrightarrow> still s s'"
  by (auto simp: write_clip_def split: option.splits)

lemma apply_clip_still: "apply_clip W text retained ts s = (ok, s') \<Longrightarrow> still s s'"
  by (auto simp: apply_clip_def write_clip_still split: if_splits)

lemma on_client_event_still: "on_client_event W sn ev s = (ok, s') \<Longrightarrow> still s s'"
  by (auto simp: on_client_event_def apply_image_def Let_def split: client_event.splits if_splits
      dest: write_clip_still apply_clip_still)
    (metis apply_clip_still still_parts(3) still_refl still_trans)

lemma answer_retained_still: "answer_retained_request P W ev s = (ok, s') \<Longrightarrow> still s s'"
  by (auto simp: answer_retained_request_def Let_def split: client_event.splits if_splits prod.splits)
    (metis apply_clip_still still_parts(3) still_refl still_trans still_update(12))+

lemma track_devices_still [simp]: "still s (track_devices W ev t) = still s t"
  by (simp add: track_devices_def Let_def split: client_event.split)

lemma record_event_still [simp]: "still s (record_event P W ev t) = still s t"
  by (simp add: record_event_def split: client_event.split)

lemma on_live_event_still: "still s (on_live_event P W sn ev s)"
proof (cases "dm_paused s \<and> is_clip_event ev")
  case False
  obtain answered s1 where a: "answer_retained_request P W ev (track_devices W ev s) = (answered, s1)"
    by (cases "answer_retained_request P W ev (track_devices W ev s)")
  have s1: "still s s1" using answer_retained_still [OF a] by (metis still_refl still_trans track_devices_still)
  define s2 where "s2 = (case ev of CAuthenticated _ _ _ \<Rightarrow> s1\<lparr>dm_connected_once := True\<rparr> | _ \<Rightarrow> s1)"
  have s2: "still s s2" using s1 by (simp add: s2_def split: client_event.split)
  obtain wrote s3 where w: "on_client_event W sn ev s2 = (wrote, s3)" by (cases "on_client_event W sn ev s2")
  have "still s s3" using s2 on_client_event_still [OF w] by (rule still_trans)
  then show ?thesis using s1
    unfolding on_live_event_def Let_def by (simp add: False a s2_def [symmetric] w)
qed (simp add: on_live_event_def)

lemma load_config_state: "load_config r io fs = (res, fs') \<Longrightarrow> af_state fs' = af_state fs"
  by (auto simp: load_config_def save_config_def Let_def split: option.splits parsed.splits sum.splits prod.splits if_splits)

lemma move_to_new_key_still: "still s (move_to_new_key P W secret leaving greeting s)"
proof -
  have "still s (case load_config r io (dm_files t) of
      (Inl _, fs) \<Rightarrow> t\<lparr>dm_files := fs\<rparr>
    | (Inr c, fs) \<Rightarrow> t\<lparr>dm_files := snd (save_config io (f c) fs)\<rparr>)" if "still s t" for t r io f
    using that load_config_state [of r io "dm_files t"]
    by (auto simp: still_def save_config_def split: prod.split sum.split option.split)
  from this [where t = "s\<lparr>dm_account := Some secret\<rparr>" and r = "wo_rand W" and io = "wo_config_io W"
      and f = "\<lambda>c. c\<lparr>cg_key_never_exported := True\<rparr>"]
  show ?thesis by (simp add: move_to_new_key_def Let_def split: option.split)
qed

lemma take_rekey_cases:
  obtains p where "ox_rekey ox = Some p" "pr_token p = t" "take_rekey t ox = (Some p, ox\<lparr>ox_rekey := None\<rparr>)"
  | "take_rekey t ox = (None, ox)" "\<forall>p. ox_rekey ox = Some p \<longrightarrow> pr_token p \<noteq> t"
  by (cases "ox_rekey ox") (auto simp: take_rekey_def split: if_splits)

lemma on_account_event_still: "still s (on_account_event P W ev s)"
proof -
  have conn: "still s (s'\<lparr>dm_transfers := tr_connected P E c (dm_transfers s')\<rparr>)" if "still s s'" for E c s'
    using that tr_connected_copies [of "dm_transfers s'" P E c] by (auto simp: still_def intro: same_copies_trans)
  have sent: "still s (s\<lparr>dm_transfers := relay_sent token (dm_transfers s)\<rparr>)" for token
    by (simp add: still_def relay_sent_def)
  have quota: "still s (s\<lparr>dm_transfers := over_quota (dm_transfers s)\<rparr>)"
    by (simp add: still_def over_quota_def fail_all_live_copies)
  have asked: "still s (s\<lparr>dm_transfers := ask_version P E c (dm_transfers s)\<rparr>)" for E c
    by (simp add: still_def ask_version_def announce_version_copies)
  have message: "still s (s\<lparr>dm_transfers := t\<rparr>)" if "on_file_message P E k body (dm_transfers s) = (a, t)" for E k body a t
    using on_file_message_copies [OF that] by (simp add: still_def)
  have moved: "still s (move_to_new_key P W secret leaving greeting t)" if "still s t" for secret leaving greeting t
    using that move_to_new_key_still by (rule still_trans)
  show ?thesis
  proof (cases ev)
    case (CSent token)
    have "still s (s\<lparr>dm_transfers := relay_sent token (dm_transfers s), dm_outbox := ox\<rparr>)" for ox
      using sent [of token] by (simp only: still_update)
    then show ?thesis unfolding CSent on_account_event_def Let_def
      by (auto split: prod.split option.split intro: moved)
  qed (auto simp: on_account_event_def Let_def conn resend_pending_still quota asked message moved
      split: prod.split option.split)
qed

lemma replay_save_still: "still s (replay_save_if_changed W s)"
  by (auto simp: replay_save_if_changed_def replay_save_def still_def split: option.split prod.split sum.split)

lemma on_event_still: "still s (on_event P W sn ev s)"
proof -
  define t where "t = (case ev of
            CAuthenticated _ _ _ \<Rightarrow> set_status (\<lambda>x. x\<lparr>dx_attempt := 0\<rparr>) (s\<lparr>dm_authenticated_at := Some (wo_now_ms W)\<rparr>)
          | _ \<Rightarrow> s)"
  have "still s t" by (simp add: t_def split: client_event.split)
  then have "still s (replay_save_if_changed W (on_live_event P W sn ev (on_account_event P W ev t)))"
    by (blast intro: still_trans on_account_event_still on_live_event_still replay_save_still)
  then show ?thesis by (simp add: on_event_def t_def)
qed

lemma on_events_still: "still s (fold (on_event P W sn) evs s)"
  by (induction evs arbitrary: s) (auto intro: still_trans [OF on_event_still])

section \<open>The numbers used and the numbers reserved\<close>

text \<open>What the process may have used once everything queued or held back has gone out, and what is on disk.\<close>

definition dm_used :: "daemon \<Rightarrow> nat" where
  "dm_used s = used (dm_session s) + copies (channel s) + (if dm_conn s = None then 0 else 1)"

definition seq_ok :: "nat \<Rightarrow> nat \<Rightarrow> nat \<Rightarrow> daemon \<Rightarrow> bool" where
  "seq_ok base k m s \<longleftrightarrow>
     (\<forall>c. dm_conn s = Some c \<longrightarrow> cn_session c = dm_session s)
     \<and> base \<le> spent (dm_session s)
     \<and> dm_used s \<le> unat (sw_issued (dm_watch s)) + k
     \<and> unat (sw_issued (dm_watch s)) + 100 < unat (sw_ceiling (dm_watch s))
     \<and> unat (sw_ceiling (dm_watch s)) \<le> base + 1000 * (m + 1)
     \<and> (\<exists>n. load_state (dm_files s) = Inr n \<and> sw_ceiling (dm_watch s) \<le> n)"

lemma seq_ok_still: "seq_ok base k m s \<Longrightarrow> still s s' \<Longrightarrow> seq_ok base k m s'"
  by (simp add: seq_ok_def dm_used_def still_def copies_channel same_copies_def load_state_def)

lemma seq_ok_mono: "seq_ok base k m s \<Longrightarrow> k \<le> k' \<Longrightarrow> m \<le> m' \<Longrightarrow> seq_ok base k' m' s"
  by (auto simp: seq_ok_def)

lemma seq_ok_reserved:
  assumes "seq_ok base k m s" "k \<le> 100"
  obtains n where "load_state (dm_files s) = Inr n" "ss_seq (dm_session s) \<le> n" "base \<le> spent (dm_session s)"
proof -
  obtain n where n: "load_state (dm_files s) = Inr n" "sw_ceiling (dm_watch s) \<le> n" "base \<le> spent (dm_session s)"
    using assms(1) by (auto simp: seq_ok_def)
  have "unat (ss_seq (dm_session s)) \<le> dm_used s" by (simp add: dm_used_def used_def spent_def)
  also have "\<dots> \<le> unat (sw_ceiling (dm_watch s))" using assms by (simp add: seq_ok_def)
  finally have "ss_seq (dm_session s) \<le> n" using n(2) by (simp add: word_le_nat_alt)
  then show thesis using that n by blast
qed

lemma raise_reservation_None:
  "load_state fs = Inr n \<Longrightarrow> \<exists>n'. load_state (snd (raise_reservation None cap fs)) = Inr n' \<and> n \<le> n' \<and> cap \<le> n'"
  by (auto simp: raise_reservation_def save_state_def load_state_def split: if_splits)

lemma watch_issue_room:
  assumes "watch_issue w = (due, w')" "unat (sw_issued w) + 100 < unat (sw_ceiling w)"
    and "unat (sw_ceiling w) \<le> b" "b + 1000 < 2 ^ 64"
  shows "unat (sw_issued w') = unat (sw_issued w) + 1" "unat (sw_issued w') + 100 < unat (sw_ceiling w')"
    "unat (sw_ceiling w') \<le> b + 1000" "due = (if sw_ceiling w' = sw_ceiling w then None else Some (sw_ceiling w'))"
proof -
  have a: "unat (sat_add (sw_issued w) 1) = unat (sw_issued w) + 1"
    and b: "unat (sat_add (sat_add (sw_issued w) 1) SEQ_MARGIN) = unat (sw_issued w) + 101"
    and c: "unat (sat_add (sw_ceiling w) SEQ_RESERVATION) = unat (sw_ceiling w) + 1000"
    using assms(2-4) by (simp_all add: unat_sat_add SEQ_MARGIN_def SEQ_RESERVATION_def)
  have "sat_add (sw_ceiling w) SEQ_RESERVATION \<noteq> sw_ceiling w" using c by auto
  then show "unat (sw_issued w') = unat (sw_issued w) + 1" "unat (sw_issued w') + 100 < unat (sw_ceiling w')"
    "unat (sw_ceiling w') \<le> b + 1000" "due = (if sw_ceiling w' = sw_ceiling w then None else Some (sw_ceiling w'))"
    using assms(1-3) a b c by (auto simp: watch_issue_def Let_def word_le_nat_alt split: if_splits)
qed

lemma reserve_for_ok:
  assumes ok: "seq_ok base k m s" and io: "wo_state_io W = None" and room: "base + 1000 * (m + 2) < 2 ^ 64"
  shows "seq_ok base k (Suc m) (reserve_for W s)"
    "dm_used (reserve_for W s) + 1 \<le> unat (sw_issued (dm_watch (reserve_for W s))) + k"
proof -
  obtain due w where w: "watch_issue (dm_watch s) = (due, w)" by (cases "watch_issue (dm_watch s)")
  obtain n where n: "load_state (dm_files s) = Inr n" "sw_ceiling (dm_watch s) \<le> n" using ok by (auto simp: seq_ok_def)
  have i: "unat (sw_issued w) = unat (sw_issued (dm_watch s)) + 1" "unat (sw_issued w) + 100 < unat (sw_ceiling w)"
    "unat (sw_ceiling w) \<le> base + 1000 * (m + 1) + 1000"
    "due = (if sw_ceiling w = sw_ceiling (dm_watch s) then None else Some (sw_ceiling w))"
    using watch_issue_room [OF w, of "base + 1000 * (m + 1)"] ok room by (simp_all add: seq_ok_def)
  define fs where "fs = (case due of None \<Rightarrow> dm_files s | Some cap \<Rightarrow> snd (raise_reservation None cap (dm_files s)))"
  have r: "reserve_for W s = s\<lparr>dm_watch := w, dm_files := fs\<rparr>"
    by (simp add: reserve_for_def w io fs_def Let_def split: option.split)
  have "\<exists>n'. load_state fs = Inr n' \<and> sw_ceiling w \<le> n'"
    using raise_reservation_None [OF n(1)] n i(4) by (auto simp: fs_def split: if_splits)
  then show "seq_ok base k (Suc m) (reserve_for W s)"
    "dm_used (reserve_for W s) + 1 \<le> unat (sw_issued (dm_watch (reserve_for W s))) + k"
    using ok i by (auto simp: r seq_ok_def dm_used_def channel_def)
qed

lemma record_history_fields [simp]:
  "dm_session (record_history P W c from s) = dm_session s" "dm_conn (record_history P W c from s) = dm_conn s"
  "dm_watch (record_history P W c from s) = dm_watch s" "dm_files (record_history P W c from s) = dm_files s"
  "channel (record_history P W c from s) = channel s"
  by (simp_all add: record_history_def channel_def)

lemma bridge_ok:
  assumes ok: "seq_ok base k m s" and io: "wo_state_io W = None" and room: "base + 1000 * (m + 2) < 2 ^ 64"
  shows "seq_ok base k (Suc m) (bridge P W ob s)"
proof -
  note r = reserve_for_ok [OF assms]
  have calm: "seq_ok base k (Suc m) t" if "still s t" for t
    using seq_ok_mono [OF seq_ok_still [OF ok that], of k "Suc m"] by simp
  have send: "seq_ok base k (Suc m) (local_send ev (record_history P W c from (reserve_for W s)))"
    if "copy_bit ev = 1" for ev c "from"
    using r local_send_copies [of ev "record_history P W c from (reserve_for W s)"] that
    by (auto simp: seq_ok_def dm_used_def local_send_def)
  have quiet: "seq_ok base k (Suc m) (notify x (reserve_for W s))" for x
    using r(1) by (rule seq_ok_still) simp
  show ?thesis
    by (cases ob) (auto simp: bridge_def Let_def r(1) quiet send calm report_skipped_def)
qed

lemma judge_outcome_still [simp]: "still s (judge_outcome outcome t) = still s t"
  by (auto simp: judge_outcome_def Let_def split: sum.split disconnect.split option.split)

lemma wait_to_retry_still [simp]: "still s (wait_to_retry W t) = still s t"
  by (simp add: wait_to_retry_def Let_def split: prod.split)

lemma attempt_end_ok:
  assumes ok: "seq_ok base k m (s\<lparr>dm_conn := None\<rparr>)" and io: "wo_state_io W = None"
  shows "seq_ok base k m (attempt_end W outcome s)"
proof -
  define s0 where "s0 = s\<lparr>dm_conn := None\<rparr>"
  define s1 where "s1 = on_devices (set_connected (su_saves (wo_su W)) False 0 (wo_now_ms W)) s0"
  define s2 where "s2 = s1\<lparr>dm_transfers := tr_disconnected (dm_transfers s1)\<rparr>"
  define s3 where "s3 = (case dm_authenticated_at s2 of
                 None \<Rightarrow> s2
               | Some at_ms \<Rightarrow> s2\<lparr>dm_backoff := snd (note_stable (wo_now_ms W) (on_authenticated at_ms (dm_backoff s2)))\<rparr>)"
  define s4 where "s4 = s3\<lparr>dm_files := snd (raise_reservation None (sat_add (ss_seq (dm_session s3)) SEQ_RESERVATION) (dm_files s3))\<rparr>"
  have "still s0 s1" by (simp add: s1_def)
  moreover have "still s1 s2" by (simp add: s2_def still_def tr_disconnected_def fail_all_live_copies)
  moreover have "still s2 s3" by (simp add: s3_def split: option.split)
  ultimately have s3: "seq_ok base k m s3" using ok seq_ok_still by (metis s0_def)
  then obtain n where "load_state (dm_files s3) = Inr n" "sw_ceiling (dm_watch s3) \<le> n" by (auto simp: seq_ok_def)
  then have "seq_ok base k m s4"
    using s3 raise_reservation_None [of "dm_files s3" n "sat_add (ss_seq (dm_session s3)) SEQ_RESERVATION"]
    by (auto simp: s4_def seq_ok_def dm_used_def channel_def)
  moreover have "still s4 (attempt_end W outcome s)"
    unfolding attempt_end_def Let_def
      s0_def [symmetric] s1_def [symmetric] s2_def [symmetric] s3_def [symmetric] io s4_def [symmetric]
    by simp
  ultimately show ?thesis by (rule seq_ok_still)
qed

lemma connect_once_ok:
  assumes ok: "seq_ok base k m s" and io: "wo_state_io W = None" and none: "dm_conn s = None"
  shows "seq_ok base (Suc k) m (connect_once J W url connect now s)"
proof -
  define s1 where "s1 = attempt_begin s"
  have s1: "seq_ok base k m s1" "dm_conn s1 = None"
    using seq_ok_still [OF ok, of s1] none by (simp_all add: s1_def) (simp add: attempt_begin_def publish_def set_status_def Let_def)
  have over: "seq_ok base (Suc k) m (attempt_end W outcome (s1\<lparr>dm_session := ss\<rparr>))"
    if "same_seq (dm_session s1) ss" for outcome ss
  proof (rule attempt_end_ok [OF _ io])
    show "seq_ok base (Suc k) m (s1\<lparr>dm_session := ss, dm_conn := None\<rparr>)"
      using s1 that by (auto simp: seq_ok_def dm_used_def channel_def same_seq_used same_seq_spent)
  qed
  have over': "seq_ok base (Suc k) m (attempt_end W outcome s1)" for outcome
    using over [OF same_seq_refl, of outcome] by simp
  have begun: "seq_ok base (Suc k) m (s1\<lparr>dm_session := ss, dm_conn := Some c\<rparr>)"
    if "same_seq (dm_session s1) ss" "cn_session c = ss" for ss c
    using s1 that by (auto simp: seq_ok_def dm_used_def channel_def same_seq_used same_seq_spent)
  have hello: "same_seq (dm_session s1) ss" if "hello_frame J (dm_session s1) = (r, ss)" for r ss
    using hello_frame_seq [of "dm_session s1" J] that by simp
  have conn: "cn_session c = ss" if "sock_send f (conn_start ss q now []) = (r, c)" for f ss q r c
    using sock_send_same [of f "conn_start ss q now []"] that by (simp add: conn_start_def)
  show ?thesis
    unfolding connect_once_def Let_def s1_def [symmetric]
    by (auto simp: over over' begun dest!: hello conn split: sum.split prod.split)
qed

lemma connection_turn_ok:
  assumes ok: "seq_ok base k m s" and io: "wo_state_io W = None"
  shows "seq_ok base k m (connection_turn J P W sn t s)"
proof (cases "dm_conn s")
  case None
  then show ?thesis using ok by (simp add: connection_turn_def)
next
  case (Some c)
  obtain res c' where c': "converse_turn J P t (c\<lparr>cn_queue := channel s, cn_events := []\<rparr>) = (res, c')"
    by (cases "converse_turn J P t (c\<lparr>cn_queue := channel s, cn_events := []\<rparr>)")
  have "cn_session c = dm_session s" using ok Some by (auto simp: seq_ok_def)
  then have turn: "used (cn_session c') + copies (cn_queue c') \<le> used (dm_session s) + copies (channel s)"
    "spent (dm_session s) \<le> spent (cn_session c')"
    using converse_turn_used [of J P t "c\<lparr>cn_queue := channel s, cn_events := []\<rparr>"] by (simp_all add: c' conn_used_def)
  define s1 where "s1 = set_channel (cn_queue c') (s\<lparr>dm_conn := Some c', dm_session := cn_session c'\<rparr>)"
  have "copies (channel s1) \<le> copies (cn_queue c')" by (simp add: s1_def set_channel_copies)
  then have s1: "seq_ok base k m s1"
    using ok turn by (auto simp: seq_ok_def dm_used_def s1_def Some)
  define s2 where "s2 = fold (on_event P W sn) (cn_events c') s1"
  have "still s1 s2" unfolding s2_def by (rule on_events_still)
  then have s2: "seq_ok base k m s2" "dm_conn s2 = Some c'" "dm_session s2 = cn_session c'"
    using seq_ok_still [OF s1] by (auto simp: still_def s1_def)
  have "used (stash_unconfirmed c') \<le> used (cn_session c') + 1" "spent (stash_unconfirmed c') = spent (cn_session c')"
    by (auto simp: stash_unconfirmed_def stash_resend_def used_def spent_def held_back_def split: option.split)
  then have "seq_ok base k m (s2\<lparr>dm_session := stash_unconfirmed c', dm_conn := None\<rparr>)"
    using s2 by (auto simp: seq_ok_def dm_used_def channel_def)
  then have "seq_ok base k m (attempt_end W outcome (s2\<lparr>dm_session := stash_unconfirmed c'\<rparr>))" for outcome
    using attempt_end_ok [OF _ io, of base k m "s2\<lparr>dm_session := stash_unconfirmed c'\<rparr>"] by simp
  then show ?thesis
    using s2 unfolding connection_turn_def
    by (simp add: Some c' Let_def s1_def [symmetric] s2_def [symmetric] split: sum.split option.split)
qed

lemma connection_dropped_ok:
  assumes ok: "seq_ok base k m s" and io: "wo_state_io W = None"
  shows "seq_ok base k m (connection_dropped W s)"
proof -
  have "seq_ok base k m (s\<lparr>dm_conn := None\<rparr>)" using ok by (auto simp: seq_ok_def dm_used_def channel_def)
  then show ?thesis using ok attempt_end_ok io by (simp add: connection_dropped_def)
qed

lemma retained_pump_still: "still s (retained_pump info s)"
proof -
  define t where "t = (if dm_retained_wanted s then local_send LFetchRetained (s\<lparr>dm_retained_wanted := False\<rparr>) else s)"
  have send: "still r (local_send ev (r\<lparr>dm_retained_wanted := b\<rparr>))" "still r (local_send ev (r\<lparr>dm_announce := b\<rparr>))"
    if "copy_bit ev = 0" for ev r b
    using local_send_still [OF that, of "r\<lparr>dm_retained_wanted := b\<rparr>"] local_send_still [OF that, of "r\<lparr>dm_announce := b\<rparr>"]
    by (simp_all add: still_def)
  have "still s t" by (simp add: t_def send)
  then show ?thesis
    using send(2) [of "LDeviceInfo info" t False]
    by (auto simp: retained_pump_def Let_def t_def [symmetric] intro: still_trans)
qed

lemma on_transfers_still: "\<not> from_daemon e \<Longrightarrow> still s (on_transfers P e s)"
  by (simp add: on_transfers_def still_def t_step_copies)

lemma goodbye_still: "still s (snd (goodbye P W s))"
  by (auto simp: goodbye_def still_def dest: say_leaving_copies split: prod.split)

lemma act_on_transfer_request_still: "still s (act_on_transfer_request P W r s)"
  by (cases r) (auto simp: with_id_def on_transfers_still goodbye_still split: option.split)

lemma leave_account_still: "still s (leave_account W queued s)"
  by (auto simp: leave_account_def Let_def forget_account_files_def split: option.split)

text \<open>The numbers one step needs: a copy seen needs one more block at most, an attempt to connect one more number.\<close>

fun attempt_bit :: "daemon_event \<Rightarrow> nat" where
  "attempt_bit (DmConnect _ _ _) = 1"
| "attempt_bit _ = 0"

definition attempts :: "(world \<times> daemon_event) list \<Rightarrow> nat" where
  "attempts es = sum_list (map (\<lambda>e. attempt_bit (snd e)) es)"

lemma daemon_step_ok:
  assumes ok: "seq_ok base k m s" and io: "wo_state_io (fst e) = None" and room: "base + 1000 * (m + 2) < 2 ^ 64"
  shows "seq_ok base (k + attempt_bit (snd e)) (Suc m) (daemon_step J P sn s e)"
proof -
  obtain W ev where e: "e = (W, ev)" by (cases e)
  have io: "wo_state_io W = None" using io by (simp add: e)
  have calm: "seq_ok base k' (Suc m) t" if "seq_ok base k m t" "k \<le> k'" for t k'
    using seq_ok_mono [OF that(1), of k' "Suc m"] that by simp
  have connect: "seq_ok base (Suc k) (Suc m) (connect_once J W u c n s)" if "dm_conn s = None" for u c n
    using seq_ok_mono [OF connect_once_ok [OF ok io that, of J u c n], of "Suc k" "Suc m"] by simp
  have quiet: "seq_ok base k (Suc m) t" if "still s t" for t
    using seq_ok_still [OF ok that] by (rule calm) simp
  show ?thesis
    using bridge_ok [OF ok io room] connection_turn_ok [OF ok io] connection_dropped_ok [OF ok io] connect ok
    by (cases ev) (auto simp: e calm intro!: quiet retained_pump_still replace_key_still leave_account_still
        act_on_transfer_request_still on_transfers_still simp: act_on_rekey_request_def Let_def)
qed

lemma daemon_run_ok:
  assumes "seq_ok base k m s" "\<forall>e\<in>set es. wo_state_io (fst e) = None" "base + 1000 * (m + length es + 1) < 2 ^ 64"
  shows "seq_ok base (k + attempts es) (m + length es) (daemon_run J P sn es s)"
  using assms
proof (induction es arbitrary: k m s)
  case Nil
  then show ?case by (simp add: daemon_run_def attempts_def)
next
  case (Cons e es)
  have "seq_ok base (k + attempt_bit (snd e)) (Suc m) (daemon_step J P sn s e)"
    using Cons.prems by (intro daemon_step_ok) auto
  then have "seq_ok base (k + attempt_bit (snd e) + attempts es) (Suc m + length es)
      (daemon_run J P sn es (daemon_step J P sn s e))"
    by (rule Cons.IH) (use Cons.prems in auto)
  then show ?case by (simp add: daemon_run_def attempts_def add.assoc)
qed

lemma restore_known_seq: "ss_seq (restore_known ds s) = ss_seq s" "ss_resend (restore_known ds s) = ss_resend s"
  by (simp_all add: restore_known_def)

lemma daemon_start_ok:
  assumes "daemon_start P W c secret device_secret computer os h t fs = (Inr s, fs')"
    and "load_state fs = Inr b" "wo_state_io W = None" "unat b + 1000 < 2 ^ 64"
  shows "seq_ok (unat b) 0 0 s" "ss_seq (dm_session s) = b"
proof -
  have s: "ss_seq (dm_session s) = b" "ss_resend (dm_session s) = None" "dm_conn s = None" "dm_watch s = watch_new b"
    "channel s = []" "load_state (dm_files s) = Inr (sat_add b SEQ_RESERVATION)"
    using assms(1-3)
    by (auto simp: daemon_start_def reserve_sequence_def save_state_def load_state_def daemon_session_def Let_def
        session_new_def set_device_keys_def set_device_info_def leave_echoes_to_caller_def restore_replay_def
        share_replay_memory_def restore_known_seq channel_def attach_def set_same_network_only_def split: sum.splits)
  moreover have "unat (sat_add b SEQ_RESERVATION) = unat b + 1000"
    using assms(4) by (simp add: unat_sat_add SEQ_RESERVATION_def)
  ultimately show "seq_ok (unat b) 0 0 s" "ss_seq (dm_session s) = b"
    by (auto simp: seq_ok_def dm_used_def used_def spent_def held_back_def watch_new_def)
qed

lemma next_start:
  assumes "daemon_start P W c secret device_secret computer os h t fs = (Inr s, fs')" "load_state fs = Inr b"
  shows "ss_seq (dm_session s) = b"
    using assms
    by (auto simp: daemon_start_def reserve_sequence_def save_state_def load_state_def daemon_session_def Let_def
        session_new_def set_device_keys_def set_device_info_def leave_echoes_to_caller_def restore_replay_def
        share_replay_memory_def restore_known_seq split: sum.splits option.splits prod.splits)

text \<open>C4: Sequence numbers are never used twice by a device. A process that starts with a readable state file and whose writes of
  it succeed may run through any events, as long as it makes at most a hundred attempts to connect; whenever it then
  dies, the last number it used is at least the one it began with and at most the one the next process begins with,
  which uses only higher ones. The events leave the 64 bit numbers room for a block each.\<close>

theorem numbers_not_reused:
  assumes start: "daemon_start P W c secret device_secret computer os h t fs = (Inr s0, fs0)"
    and disk: "load_state fs = Inr b" "wo_state_io W = None" "\<forall>e\<in>set es. wo_state_io (fst e) = None"
    and room: "unat b + 1000 * (length es + 1) < 2 ^ 64" "attempts es \<le> 100"
    and s: "s = daemon_run J P sn es s0"
    and restart: "daemon_start P' W' c' secret' device_secret' computer' os' h' t' (dm_files s) = (Inr s1, fs1)"
  shows "ss_seq (dm_session s0) \<le> ss_seq (dm_session s) \<and> ss_seq (dm_session s) \<le> ss_seq (dm_session s1)"
proof -
  have ok: "seq_ok (unat b) 0 0 s0" "ss_seq (dm_session s0) = b"
    using daemon_start_ok [OF start disk(1,2)] room(1) by simp_all
  have "seq_ok (unat b) (0 + attempts es) (0 + length es) s"
    unfolding s by (rule daemon_run_ok [OF ok(1) disk(3)]) (use room(1) in simp)
  then obtain n where "load_state (dm_files s) = Inr n" "ss_seq (dm_session s) \<le> n" "unat b \<le> spent (dm_session s)"
    using seq_ok_reserved room(2) by (metis add_0)
  then show ?thesis using next_start [OF restart] ok(2) by (simp add: spent_def word_le_nat_alt)
qed

section \<open>Paused\<close>

text \<open>What pausing is about: the flag and what was written. Most operations touch neither.\<close>

definition unheard :: "daemon \<Rightarrow> daemon \<Rightarrow> bool" where
  "unheard s s' \<longleftrightarrow> dm_paused s' = dm_paused s \<and> dm_writes s' = dm_writes s"

lemma unheard_refl [simp]: "unheard s s"
  by (simp add: unheard_def)

lemma unheard_trans: "unheard a b \<Longrightarrow> unheard b c \<Longrightarrow> unheard a c"
  by (simp add: unheard_def)

lemma unheard_update [simp]:
  "unheard s (t\<lparr>dm_status := x\<rparr>) = unheard s t" "unheard s (t\<lparr>dm_shown := x\<rparr>) = unheard s t"
  "unheard s (t\<lparr>dm_history := h\<rparr>) = unheard s t" "unheard s (t\<lparr>dm_outbox := ox\<rparr>) = unheard s t"
  "unheard s (t\<lparr>dm_account := a\<rparr>) = unheard s t" "unheard s (t\<lparr>dm_backoff := bo\<rparr>) = unheard s t"
  "unheard s (t\<lparr>dm_session := ss\<rparr>) = unheard s t" "unheard s (t\<lparr>dm_conn := co\<rparr>) = unheard s t"
  "unheard s (t\<lparr>dm_cap := n\<rparr>) = unheard s t" "unheard s (t\<lparr>dm_files := fs\<rparr>) = unheard s t"
  "unheard s (t\<lparr>dm_notifications := b\<rparr>) = unheard s t" "unheard s (t\<lparr>dm_ask_right_away := b\<rparr>) = unheard s t"
  "unheard s (t\<lparr>dm_retained_wanted := b\<rparr>) = unheard s t" "unheard s (t\<lparr>dm_retained_pending := b\<rparr>) = unheard s t"
  "unheard s (t\<lparr>dm_reconnect := b\<rparr>) = unheard s t" "unheard s (t\<lparr>dm_announce := b\<rparr>) = unheard s t"
  "unheard s (t\<lparr>dm_connected_once := b\<rparr>) = unheard s t" "unheard s (t\<lparr>dm_skew_told := b\<rparr>) = unheard s t"
  "unheard s (t\<lparr>dm_authenticated_at := ao\<rparr>) = unheard s t" "unheard s (t\<lparr>dm_replay_saved := m\<rparr>) = unheard s t"
  "unheard s (t\<lparr>dm_transfers := tr\<rparr>) = unheard s t" "unheard s (t\<lparr>dm_notices := ns\<rparr>) = unheard s t"
  "unheard s (t\<lparr>dm_restart := r\<rparr>) = unheard s t" "unheard s (t\<lparr>dm_stopped := b\<rparr>) = unheard s t"
  "unheard s (t\<lparr>dm_watch := w\<rparr>) = unheard s t"
  by (simp_all add: unheard_def)

lemma unheard_parts [simp]:
  "unheard s (notify x t) = unheard s t" "unheard s (publish t) = unheard s t" "unheard s (set_status f t) = unheard s t"
  "unheard s (offline t) = unheard s t" "unheard s (stop_with why t) = unheard s t"
  "unheard s (request_retained t) = unheard s t" "unheard s (record_history P W c from t) = unheard s t"
  "unheard s (attempt_begin t) = unheard s t" "unheard s (on_devices g t) = unheard s t"
  "unheard s (set_channel q t) = unheard s t" "unheard s (local_send le t) = unheard s t"
  "unheard s (reserve_for W t) = unheard s t" "unheard s (track_devices W ev t) = unheard s t"
  "unheard s (replay_save_if_changed W t) = unheard s t" "unheard s (wait_to_retry W t) = unheard s t"
  "unheard s (judge_outcome outcome t) = unheard s t" "unheard s (on_transfers P te t) = unheard s t"
  by (simp_all add: notify_def publish_def set_status_def offline_def stop_with_def request_retained_def record_history_def
      attempt_begin_def on_devices_def set_channel_def local_send_def reserve_for_def track_devices_def
      replay_save_if_changed_def wait_to_retry_def judge_outcome_def on_transfers_def Let_def
      split: prod.split option.split client_event.split sum.split disconnect.split)

lemma local_try_send_unheard: "local_try_send ev s = (ok, s') \<Longrightarrow> unheard s s'"
  by (auto simp: local_try_send_def split: option.splits if_splits)

lemma replace_key_unheard: "unheard s (snd (replace_key W keep removing s))"
proof -
  have "unheard s s'" if "local_try_send (pr_event p) (s\<lparr>dm_outbox := ox\<rparr>) = (ok, s')" for p ox ok s'
    using local_try_send_unheard [OF that] by (simp add: unheard_def)
  then show ?thesis by (auto simp: replace_key_def Let_def split: sum.split prod.split if_splits)
qed

lemma resend_pending_unheard: "unheard s (resend_pending s)"
  using local_try_send_unheard [OF prod.collapse [symmetric]] by (auto simp: resend_pending_def split: option.split)

lemma move_to_new_key_unheard [simp]: "unheard s (move_to_new_key P W secret leaving greeting t) = unheard s t"
  by (simp add: move_to_new_key_def Let_def split: option.split prod.split sum.split)

lemma on_account_event_unheard: "unheard s (on_account_event P W ev s)"
  by (simp add: on_account_event_def Let_def resend_pending_unheard split: client_event.split prod.split option.split)

text \<open>What is no clip writes nothing, whether paused or not.\<close>

lemma answer_retained_unheard:
  "\<not> is_clip_event ev \<Longrightarrow> answer_retained_request P W ev s = (ok, s') \<Longrightarrow> unheard s s'"
  by (cases ev) (auto simp: answer_retained_request_def split: if_splits)

lemma on_client_event_unheard: "\<not> is_clip_event ev \<Longrightarrow> on_client_event W sn ev s = (ok, s') \<Longrightarrow> \<not> ok \<and> unheard s s'"
  by (cases ev) (auto simp: on_client_event_def Let_def)

lemma on_live_event_unheard:
  assumes "\<not> is_clip_event ev \<or> dm_paused s"
  shows "unheard s (on_live_event P W sn ev s)"
proof (cases "dm_paused s \<and> is_clip_event ev")
  case False
  then have ev: "\<not> is_clip_event ev" using assms by blast
  obtain answered s1 where a: "answer_retained_request P W ev (track_devices W ev s) = (answered, s1)"
    by (cases "answer_retained_request P W ev (track_devices W ev s)")
  have s1: "unheard s s1" using answer_retained_unheard [OF ev a] by (metis unheard_refl unheard_trans unheard_parts(13))
  define s2 where "s2 = (case ev of CAuthenticated _ _ _ \<Rightarrow> s1\<lparr>dm_connected_once := True\<rparr> | _ \<Rightarrow> s1)"
  have s2: "unheard s s2" using s1 by (simp add: s2_def split: client_event.split)
  obtain wrote s3 where w: "on_client_event W sn ev s2 = (wrote, s3)" by (cases "on_client_event W sn ev s2")
  have s3: "unheard s s3" "\<not> wrote" using s2 on_client_event_unheard [OF ev w] unheard_trans by auto
  then show ?thesis using s1
    unfolding on_live_event_def Let_def by (simp add: False a s2_def [symmetric] w)
qed (simp add: on_live_event_def)

lemma on_event_unheard:
  assumes "\<not> is_clip_event ev \<or> dm_paused s"
  shows "unheard s (on_event P W sn ev s)"
proof -
  define t where "t = (case ev of
            CAuthenticated _ _ _ \<Rightarrow> set_status (\<lambda>x. x\<lparr>dx_attempt := 0\<rparr>) (s\<lparr>dm_authenticated_at := Some (wo_now_ms W)\<rparr>)
          | _ \<Rightarrow> s)"
  have t: "unheard s t" by (simp add: t_def split: client_event.split)
  have u: "unheard s (on_account_event P W ev t)" using t on_account_event_unheard by (rule unheard_trans)
  then have "\<not> is_clip_event ev \<or> dm_paused (on_account_event P W ev t)" using assms by (simp add: unheard_def)
  then have "unheard s (on_live_event P W sn ev (on_account_event P W ev t))"
    using u on_live_event_unheard unheard_trans by blast
  then show ?thesis by (simp add: on_event_def t_def)
qed

lemma on_events_unheard: "dm_paused s \<Longrightarrow> unheard s (fold (on_event P W sn) evs s)"
proof (induction evs arbitrary: s)
  case (Cons ev evs)
  have "unheard s (on_event P W sn ev s)" by (rule on_event_unheard) (simp add: Cons.prems)
  then show ?case using Cons by (simp add: unheard_def)
qed simp

lemma attempt_end_unheard [simp]: "unheard s (attempt_end W outcome t) = unheard s t"
  by (simp add: attempt_end_def Let_def split: option.split)

lemma connect_once_unheard: "unheard s (connect_once J W url connect now s)"
  by (simp add: connect_once_def Let_def split: sum.split prod.split)

lemma connection_turn_unheard: "dm_paused s \<Longrightarrow> unheard s (connection_turn J P W sn t s)"
proof -
  assume p: "dm_paused s"
  have "unheard s (fold (on_event P W sn) evs (set_channel q (s\<lparr>dm_conn := co, dm_session := ss\<rparr>)))" for evs q co ss
    using on_events_unheard [of "set_channel q (s\<lparr>dm_conn := co, dm_session := ss\<rparr>)" P W sn evs] p
    by (simp add: unheard_def)
  then show ?thesis by (simp add: connection_turn_def Let_def split: option.split prod.split sum.split)
qed

text \<open>Copies do not get into the queue while paused either.\<close>

lemma bridge_paused: "dm_paused s \<Longrightarrow> bridge P W ob s = s \<or> bridge P W ob s = reserve_for W s"
  using unheard_parts(12) [of s W s] by (cases ob) (auto simp: bridge_def unheard_def)

fun is_pause :: "daemon_event \<Rightarrow> bool" where
  "is_pause (DmPause _) = True"
| "is_pause _ = False"

lemma daemon_step_unheard:
  assumes "dm_paused s" "\<not> is_pause (snd e)"
  shows "unheard s (daemon_step J P sn s e)"
proof -
  have br: "unheard s (bridge P W ob s)" for W ob using bridge_paused [OF assms(1), of P W ob] by auto
  obtain W ev where e: "e = (W, ev)" by (cases e)
  have "unheard s (act_on_transfer_request P W r s)" for r
    by (cases r) (auto simp: with_id_def goodbye_def split: option.split prod.split)
  then show ?thesis using assms
    by (cases ev) (auto simp: e br connect_once_unheard connection_turn_unheard connection_dropped_def retained_pump_def
        replace_key_unheard act_on_rekey_request_def leave_account_def forget_account_files_def Let_def
        split: option.split)
qed


section \<open>The stored clip\<close>

lemma fields_stored:
  "dm_writes (publish t) = dm_writes t" "dm_retained_pending (publish t) = dm_retained_pending t"
  "dm_writes (replay_save_if_changed W t) = dm_writes t"
  "dm_retained_pending (replay_save_if_changed W t) = dm_retained_pending t" "dm_paused (publish t) = dm_paused t"
  "dm_paused (replay_save_if_changed W t) = dm_paused t"
  by (simp_all add: publish_def replay_save_if_changed_def split: option.split prod.split sum.split)

text \<open>What a stored clip does, in one equation.\<close>

definition asked_for :: "daemon \<Rightarrow> bool" where
  "asked_for s \<longleftrightarrow> \<not> dm_paused s \<and> dm_retained_pending s"

lemma stored_clip_event:
  assumes "rv_retained c"
  shows "dm_writes (on_event P W sn (CClip c) s)
      = dm_writes s @ (if asked_for s \<and> wo_clip W (WrText (rv_text c)) = None then [WrText (rv_text c)] else [])
    \<and> asked_for (on_event P W sn (CClip c) s) = False \<and> dm_paused (on_event P W sn (CClip c) s) = dm_paused s"
proof -
  have a: "on_account_event P W (CClip c) s = s" by (simp add: on_account_event_def)
  have t: "track_devices W (CClip c) s = s" by (simp add: track_devices_def Let_def)
  show ?thesis
    using assms
    by (auto simp: on_event_def a on_live_event_def t asked_for_def answer_retained_request_def on_client_event_def
        apply_clip_def write_clip_def record_event_def record_history_def notify_def set_status_def fields_stored Let_def
        split: option.split)
qed

text \<open>C10: A stored clip is written only when the person asked for it, and a request is good for one: however many stored clips
  the relay sends, in whatever order, at most one is written, and none where nothing was asked for or the device is
  paused.\<close>

theorem stored_clip_only_when_asked:
  assumes "\<forall>ev\<in>set evs. \<exists>c. ev = CClip c \<and> rv_retained c"
  shows "\<exists>ws. dm_writes (fold (on_event P W sn) evs s) = dm_writes s @ ws \<and> length ws \<le> (if asked_for s then 1 else 0)
    \<and> (\<forall>w\<in>set ws. \<exists>c. CClip c \<in> set evs \<and> w = WrText (rv_text c))"
proof -
  have none: "dm_writes (fold (on_event P W sn) evs t) = dm_writes t"
    if "\<forall>ev\<in>set evs. \<exists>c. ev = CClip c \<and> rv_retained c" "\<not> asked_for t" for evs t
    using that
  proof (induction evs arbitrary: t)
    case (Cons ev evs)
    then obtain c where "ev = CClip c" "rv_retained c" by auto
    then show ?case using Cons stored_clip_event [of c P W sn t] by simp
  qed simp
  show ?thesis
  proof (cases evs)
    case (Cons ev evs')
    obtain c where c: "ev = CClip c" "rv_retained c" using assms Cons by auto
    note e = stored_clip_event [OF c(2), of P W sn s]
    have "dm_writes (fold (on_event P W sn) evs s) = dm_writes (on_event P W sn ev s)"
      using none [of evs' "on_event P W sn ev s"] assms e by (simp add: Cons c)
    then show ?thesis
      using e Cons c by (intro exI [of _ "if asked_for s \<and> wo_clip W (WrText (rv_text c)) = None then [WrText (rv_text c)] else []"]) auto
  qed simp
qed

section \<open>The account\<close>

lemma dm_account_parts [simp]:
  "dm_account (notify x t) = dm_account t" "dm_account (publish t) = dm_account t" "dm_account (set_status f t) = dm_account t"
  "dm_account (record_history P W c from t) = dm_account t" "dm_account (on_devices g t) = dm_account t"
  "dm_account (set_channel q t) = dm_account t" "dm_account (local_send le t) = dm_account t"
  "dm_account (track_devices W ev t) = dm_account t" "dm_account (replay_save_if_changed W t) = dm_account t"
  "dm_account (record_event P W ev t) = dm_account t"
  by (simp_all add: notify_def publish_def set_status_def record_history_def on_devices_def set_channel_def local_send_def
      track_devices_def replay_save_if_changed_def record_event_def Let_def
      split: prod.split option.split client_event.split sum.split)

lemma local_try_send_account: "local_try_send ev s = (ok, s') \<Longrightarrow> dm_account s' = dm_account s"
  by (auto simp: local_try_send_def split: option.splits if_splits)

lemma write_clip_account: "write_clip W work ts s = (ok, s') \<Longrightarrow> dm_account s' = dm_account s"
  by (auto simp: write_clip_def split: option.splits)

lemma apply_clip_account: "apply_clip W text retained ts s = (ok, s') \<Longrightarrow> dm_account s' = dm_account s"
  by (auto simp: apply_clip_def dest: write_clip_account split: if_splits)

lemma on_client_event_account: "on_client_event W sn ev s = (ok, s') \<Longrightarrow> dm_account s' = dm_account s"
  by (cases ev) (auto simp: on_client_event_def apply_image_def Let_def dest!: write_clip_account apply_clip_account
      split: if_splits)

lemma answer_retained_account: "answer_retained_request P W ev s = (ok, s') \<Longrightarrow> dm_account s' = dm_account s"
  by (cases ev) (auto simp: answer_retained_request_def Let_def dest!: apply_clip_account split: if_splits prod.splits)

lemma on_live_event_account: "dm_account (on_live_event P W sn ev s) = dm_account s"
proof -
  obtain answered s1 where a: "answer_retained_request P W ev (track_devices W ev s) = (answered, s1)"
    by (cases "answer_retained_request P W ev (track_devices W ev s)")
  define s2 where "s2 = (case ev of CAuthenticated _ _ _ \<Rightarrow> s1\<lparr>dm_connected_once := True\<rparr> | _ \<Rightarrow> s1)"
  have s2: "dm_account s2 = dm_account s"
    using answer_retained_account [OF a] by (simp add: s2_def split: client_event.split)
  obtain wrote s3 where w: "on_client_event W sn ev s2 = (wrote, s3)" by (cases "on_client_event W sn ev s2")
  show ?thesis using s2 answer_retained_account [OF a] on_client_event_account [OF w]
    unfolding on_live_event_def Let_def by (simp add: a s2_def [symmetric] w)
qed

lemma move_to_new_key_account:
  "dm_account (move_to_new_key P W secret leaving greeting s)
    = (if wo_store_io W = None then Some secret else dm_account s)"
  by (simp add: move_to_new_key_def Let_def split: option.split prod.split sum.split)


section \<open>When syncing stops\<close>

definition ends_syncing :: "net_error + disconnect \<Rightarrow> bool" where
  "ends_syncing outcome \<longleftrightarrow>
     (case outcome of
        Inr DLocalChannelClosed \<Rightarrow> True
      | Inr (DAuthFailed code) \<Rightarrow> is_permanent code
      | Inr (DClose code) \<Rightarrow> from_close_code (of_nat code) \<noteq> None
      | _ \<Rightarrow> False)"

lemma dm_stopped_parts [simp]:
  "dm_stopped (publish t) = dm_stopped t" "dm_stopped (set_status f t) = dm_stopped t" "dm_stopped (offline t) = dm_stopped t"
  "dm_stopped (on_devices g t) = dm_stopped t" "dm_stopped (wait_to_retry W t) = dm_stopped t" "dm_stopped (stop_with why t) = True"
  by (simp_all add: publish_def set_status_def offline_def on_devices_def wait_to_retry_def stop_with_def Let_def
      split: prod.split)

lemma judge_outcome_stopped: "dm_stopped (judge_outcome outcome s) = (dm_stopped s \<or> ends_syncing outcome)"
  by (auto simp: judge_outcome_def ends_syncing_def Let_def split: sum.split disconnect.split option.split)

lemma wait_to_retry_shown:
  "dx_retry_at_ms (dm_shown (wait_to_retry W s))
    = Some (sat_add (wo_now_ms W) (fst (next_delay_ms (wo_jitter W) (dm_backoff s))))"
  by (simp add: wait_to_retry_def publish_def set_status_def Let_def split: prod.split)

text \<open>Syncing stops for good in three cases only: the clipboard's watcher ended, the relay refused the device for a reason
  that will not pass, or it closed the connection with a code that means the same. Anything else, errors of every kind
  included, ends with the next attempt published and scheduled.\<close>

theorem stops_only_for_good:
  "dm_stopped (attempt_end W outcome s) = (dm_stopped s \<or> ends_syncing outcome)
    \<and> dm_session (attempt_end W outcome s) = dm_session s \<and> dm_conn (attempt_end W outcome s) = None
    \<and> (dm_stopped (attempt_end W outcome s)
       \<or> (\<exists>b. dx_retry_at_ms (dm_shown (attempt_end W outcome s))
            = Some (sat_add (wo_now_ms W) (fst (next_delay_ms (wo_jitter W) b)))))"
proof -
  define s0 where "s0 = on_devices (set_connected (su_saves (wo_su W)) False 0 (wo_now_ms W)) (s\<lparr>dm_conn := None\<rparr>)"
  define s1 where "s1 = s0\<lparr>dm_transfers := tr_disconnected (dm_transfers s0)\<rparr>"
  define s2 where "s2 = (case dm_authenticated_at s1 of
                 None \<Rightarrow> s1
               | Some at_ms \<Rightarrow> s1\<lparr>dm_backoff := snd (note_stable (wo_now_ms W) (on_authenticated at_ms (dm_backoff s1)))\<rparr>)"
  define s3 where "s3 = s2\<lparr>dm_files :=
    snd (raise_reservation (wo_state_io W) (sat_add (ss_seq (dm_session s2)) SEQ_RESERVATION) (dm_files s2))\<rparr>"
  have f: "dm_stopped s3 = dm_stopped s" "dm_session s3 = dm_session s" "dm_conn s3 = None"
    by (simp_all add: s3_def s2_def s1_def s0_def split: option.split) (simp_all add: on_devices_def)
  have e: "attempt_end W outcome s =
      (let t = judge_outcome outcome s3 in if dm_stopped t then t else wait_to_retry W t)"
    unfolding attempt_end_def s0_def [symmetric] s1_def [symmetric] s2_def [symmetric] s3_def [symmetric] Let_def
    by (simp only: s0_def [symmetric] s1_def [symmetric] s2_def [symmetric] s3_def [symmetric])
  have "still s3 (attempt_end W outcome s)" by (simp add: e Let_def)
  then have k: "dm_session (attempt_end W outcome s) = dm_session s" "dm_conn (attempt_end W outcome s) = None"
    using f by (simp_all add: still_def)
  have st: "dm_stopped (attempt_end W outcome s) = (dm_stopped s \<or> ends_syncing outcome)"
    by (simp add: e Let_def judge_outcome_stopped f)
  have "dm_stopped (attempt_end W outcome s)
      \<or> (\<exists>b. dx_retry_at_ms (dm_shown (attempt_end W outcome s))
            = Some (sat_add (wo_now_ms W) (fst (next_delay_ms (wo_jitter W) b))))"
    by (auto simp: e Let_def wait_to_retry_shown)
  with st k show ?thesis by blast
qed

section \<open>Examples\<close>

definition ex_world :: world where
  "ex_world = \<lparr>wo_now_ms = 1000, wo_su = \<lparr>su_now = 0, su_now_ms = 1000, su_version = [], su_saves = True\<rparr>,
     wo_hist = hist_io_quiet, wo_state_io = None, wo_config_io = None, wo_replay_io = None, wo_store_io = None,
     wo_wipe_io = None, wo_clip = (\<lambda>_. None), wo_rand = None, wo_jitter = 0, wo_metadata = (\<lambda>_. None)\<rparr>"

definition ex_config :: config where
  "ex_config = \<lparr>cg_relay_url = [], cg_max_content_bytes = 100, cg_notifications = False, cg_autostart = False,
     cg_device_id = hex (replicate 16 3), cg_keep_history = False, cg_history_entries = 10, cg_device_name = [],
     cg_key_never_exported = True, cg_same_network_only = False, cg_ask_right_away = True\<rparr>"

definition ex_kept :: store_history where
  "ex_kept = \<lparr>hs_store = \<lparr>st_key = [], st_limits = hist_limits_default, st_entries = [], st_file = None\<rparr>,
     hs_enabled = False, hs_revision = 0\<rparr>"

definition ex_idle :: transfers where
  "ex_idle = transfers_default (registry_default None) \<lparr>fs_dir = (\<lambda>_. None), fs_data = (\<lambda>_. []), fs_next = 0, fs_faults = []\<rparr>"

definition ex_start :: "app_files \<Rightarrow> (app_error + daemon) \<times> app_files" where
  "ex_start fs = daemon_start toy_prims ex_world ex_config [1] [2] [] [] ex_kept ex_idle fs"

lemma ex_start_ok: "load_state fs = Inr n \<Longrightarrow> \<exists>s fs'. ex_start fs = (Inr s, fs') \<and> dm_retained_pending s = False
    \<and> dm_paused s = False \<and> dm_writes s = []"
  by (simp add: ex_start_def daemon_start_def device_id_bytes_def ex_config_def ok_or_def reserve_sequence_def
      save_state_def ex_world_def Let_def)

definition ex_events :: "(world \<times> daemon_event) list" where
  "ex_events = [(ex_world, DmObserved (ObsText [104])), (ex_world, DmConnect [] (Inl (NetTransport ''down'')) 0),
     (ex_world, DmObserved (ObsImage [1, 2]))]"

definition ex_files :: app_files where
  "ex_files = \<lparr>af_config = None, af_state = Some (Parsed 5000), af_replay = None\<rparr>"

theorem numbers_not_reused_witness:
  "\<exists>s0 fs0 s s1 fs1. ex_start ex_files = (Inr s0, fs0)
    \<and> s = daemon_run (one_json (MPong \<lparr>po_v = 1, po_t = None\<rparr>)) toy_prims (\<lambda>_. []) ex_events s0
    \<and> ex_start (dm_files s) = (Inr s1, fs1)
    \<and> ss_seq (dm_session s0) \<le> ss_seq (dm_session s) \<and> ss_seq (dm_session s) \<le> ss_seq (dm_session s1)"
proof -
  let ?J = "one_json (MPong \<lparr>po_v = 1, po_t = None\<rparr>)"
  have l: "load_state ex_files = Inr 5000" by (simp add: load_state_def ex_files_def)
  then obtain s0 fs0 where s0: "ex_start ex_files = (Inr s0, fs0)" using ex_start_ok by blast
  define s where "s = daemon_run ?J toy_prims (\<lambda>_. []) ex_events s0"
  have io: "wo_state_io ex_world = None" "\<forall>e\<in>set ex_events. wo_state_io (fst e) = None"
    by (simp_all add: ex_world_def ex_events_def)
  have len: "length ex_events = 3" "attempts ex_events = 1" by (simp_all add: ex_events_def attempts_def)
  have "seq_ok 5000 (0 + attempts ex_events) (0 + length ex_events) s"
    unfolding s_def using daemon_start_ok(1) [OF s0 [unfolded ex_start_def] l io(1)] io(2) len
    by (intro daemon_run_ok) simp_all
  then obtain n where "load_state (dm_files s) = Inr n" by (auto simp: seq_ok_def)
  then obtain s1 fs1 where s1: "ex_start (dm_files s) = (Inr s1, fs1)" using ex_start_ok by blast
  have "ss_seq (dm_session s0) \<le> ss_seq (dm_session s) \<and> ss_seq (dm_session s) \<le> ss_seq (dm_session s1)"
    by (rule numbers_not_reused [OF s0 [unfolded ex_start_def] l io _ _ s_def s1 [unfolded ex_start_def]])
      (simp_all add: len)
  then show ?thesis using s0 s1 s_def by blast
qed


definition ex_stored :: "nat \<Rightarrow> client_event" where
  "ex_stored n = CClip \<lparr>rv_text = [n], rv_ts_ms = 5, rv_retained = True, rv_device_id = [9]\<rparr>"

theorem stored_clip_only_when_asked_witness:
  "\<exists>s0 fs0 ws. ex_start ex_files = (Inr s0, fs0) \<and> asked_for (request_retained s0)
    \<and> dm_writes (fold (on_event toy_prims ex_world (\<lambda>_. [])) [ex_stored 65, ex_stored 66] (request_retained s0)) = ws
    \<and> length ws \<le> 1"
proof -
  obtain s0 fs0 where s0: "ex_start ex_files = (Inr s0, fs0)" "dm_writes s0 = []" "dm_paused s0 = False"
    using ex_start_ok [of ex_files 5000] by (auto simp: load_state_def ex_files_def)
  have evs: "\<forall>ev\<in>set [ex_stored 65, ex_stored 66]. \<exists>c. ev = CClip c \<and> rv_retained c" by (simp add: ex_stored_def)
  have a: "asked_for (request_retained s0)" "dm_writes (request_retained s0) = []"
    using s0 by (simp_all add: asked_for_def request_retained_def)
  show ?thesis
    using stored_clip_only_when_asked [OF evs, of toy_prims ex_world "\<lambda>_. []" "request_retained s0"] a s0 by auto
qed

end
