(* ===== verification/Secrets.thy ===== *)
theory Secrets
  imports Base32 Device Kdf_Identity
begin

text \<open>
  Where the keys of this device are kept, \<open>crates/asli-app/src/secrets.rs\<close>: the account key and the device's own, as one
  entry of the system's keychain, or in a file where there is no keychain. The keychain is an argument: its state
  and what each call on it answers.
\<close>

section \<open>The keychain and the file\<close>

datatype keychain_error = KcNoEntry | KcNoAccess string | KcOther string

text \<open>Whether the service gives an entry to call at all, and the three calls.\<close>

record 'k keychain =
  kc_entry :: "'k \<Rightarrow> bool"
  kc_get :: "'k \<Rightarrow> keychain_error + ustr"
  kc_set :: "ustr \<Rightarrow> 'k \<Rightarrow> (keychain_error + unit) \<times> 'k"
  kc_delete :: "'k \<Rightarrow> (keychain_error + unit) \<times> 'k"

record 'k secrets =
  sc_keychain :: 'k
  sc_file :: "ustr option"
  sc_left_behind :: nat

datatype secret_error =
    SeIo string
  | SeParse string
  | SeSecretStore string
  | SeKeychainLocked string
  | SeCrypto error

datatype secret_store = StKeychain | StFile

definition store_describe :: "secret_store \<Rightarrow> string" where
  "store_describe st =
     (case st of
        StKeychain \<Rightarrow> ''OS keychain''
      | StFile \<Rightarrow> ''file in the config directory, owner only (no keychain in this session, so this is ''
          @ ''less secure: it protects against other users, not against disk imaging)'')"

record secret_keys =
  sk_account :: bytes
  sk_device :: "bytes option"
  sk_store :: secret_store

record account =
  ac_identity :: identity
  ac_device :: device_keys
  ac_store :: secret_store

text \<open>How the file operations end: reading it, overwriting and removing it, writing the new one in place of the old. The
  last step of a write sets the permissions of the file that is already in place.\<close>

datatype write_end = WeDone | WeNotReplaced string | WeTemporary string | WeReplaced string

record secret_io =
  si_read :: "string option"
  si_overwritten :: bool
  si_removed :: "string option"
  si_write :: write_end

section \<open>Operations\<close>

definition shred_secret_file :: "secret_io \<Rightarrow> 'k secrets \<Rightarrow> (secret_error + unit) \<times> 'k secrets" where
  "shred_secret_file io s =
     (case sc_file s of
        None \<Rightarrow> (Inr (), s)
      | Some t \<Rightarrow>
          (case si_removed io of
             None \<Rightarrow> (Inr (), s\<lparr>sc_file := None\<rparr>)
           | Some e \<Rightarrow> (Inl (SeIo e), s\<lparr>sc_file := Some (if si_overwritten io then replicate (str_len t) 0 else t)\<rparr>)))"

definition write_secret_file :: "secret_io \<Rightarrow> ustr \<Rightarrow> 'k secrets \<Rightarrow> (secret_error + unit) \<times> 'k secrets" where
  "write_secret_file io t s =
     (case si_write io of
        WeDone \<Rightarrow> (Inr (), s\<lparr>sc_file := Some t\<rparr>)
      | WeNotReplaced e \<Rightarrow> (Inl (SeSecretStore e), s)
      | WeTemporary e \<Rightarrow> (Inl (SeIo e), s)
      | WeReplaced e \<Rightarrow> (Inl (SeIo e), s\<lparr>sc_file := Some t\<rparr>))"

definition secret_encode :: "bytes \<Rightarrow> bytes \<Rightarrow> ustr" where
  "secret_encode account device = base32_encode (account @ device)"

definition secret_decode :: "ustr \<Rightarrow> secret_error + bytes \<times> bytes option" where
  "secret_decode t =
     (case base32_decode t of
        Inl _ \<Rightarrow> Inl (SeParse ''the stored account key is not valid'')
      | Inr bs \<Rightarrow>
          if length bs = 32 then Inr (bs, None)
          else if length bs = 64 then Inr (take 32 bs, Some (drop 32 bs))
          else Inl (SeParse ''the stored account key is the wrong length''))"

definition secret_store_keys ::
    "'k keychain \<Rightarrow> secret_io \<Rightarrow> bytes \<Rightarrow> bytes \<Rightarrow> 'k secrets \<Rightarrow> (secret_error + secret_store) \<times> 'k secrets" where
  "secret_store_keys K io account device s =
     (let t = secret_encode account device;
          to_file = (\<lambda>s. case write_secret_file io t s of (Inl e, s) \<Rightarrow> (Inl e, s) | (Inr _, s) \<Rightarrow> (Inr StFile, s))
      in if \<not> kc_entry K (sc_keychain s) then to_file s
         else
           let (r, k) = kc_set K t (sc_keychain s); s = s\<lparr>sc_keychain := k\<rparr> in
           case r of
             Inr _ \<Rightarrow>
               (case shred_secret_file io s of
                  (Inr _, s) \<Rightarrow> (Inr StKeychain, s)
                | (Inl _, s) \<Rightarrow> (Inr StKeychain, s\<lparr>sc_left_behind := sc_left_behind s + 1\<rparr>))
           | Inl (KcNoAccess e) \<Rightarrow> (Inl (SeKeychainLocked e), s)
           | Inl _ \<Rightarrow> to_file s)"

definition keys_of :: "secret_store \<Rightarrow> ustr \<Rightarrow> secret_error + secret_keys option" where
  "keys_of st t =
     ebind (secret_decode t) (\<lambda>(account, device). Inr (Some \<lparr>sk_account = account, sk_device = device, sk_store = st\<rparr>))"

definition secret_load :: "'k keychain \<Rightarrow> secret_io \<Rightarrow> 'k secrets \<Rightarrow> secret_error + secret_keys option" where
  "secret_load K io s =
     (let got = (if kc_entry K (sc_keychain s) then kc_get K (sc_keychain s) else Inl KcNoEntry) in
      case got of
        Inr t \<Rightarrow> keys_of StKeychain t
      | Inl e \<Rightarrow>
          (case sc_file s of
             Some t \<Rightarrow>
               (case si_read io of Some err \<Rightarrow> Inl (SeIo err) | None \<Rightarrow> keys_of StFile (trim t))
           | None \<Rightarrow> (case e of KcNoAccess detail \<Rightarrow> Inl (SeKeychainLocked detail) | _ \<Rightarrow> Inr None)))"

definition secret_wipe :: "'k keychain \<Rightarrow> secret_io \<Rightarrow> 'k secrets \<Rightarrow> (secret_error + unit) \<times> 'k secrets" where
  "secret_wipe K io s =
     (if \<not> kc_entry K (sc_keychain s) then shred_secret_file io s
      else
        let (r, k) = kc_delete K (sc_keychain s); s = s\<lparr>sc_keychain := k\<rparr> in
        case r of
          Inl (KcNoAccess e) \<Rightarrow> (Inl (SeKeychainLocked e), s)
        | _ \<Rightarrow> shred_secret_file io s)"

definition available_store :: "'k keychain \<Rightarrow> 'k secrets \<Rightarrow> secret_store" where
  "available_store K s =
     (if kc_entry K (sc_keychain s)
        \<and> (case kc_get K (sc_keychain s) of Inr _ \<Rightarrow> True | Inl e \<Rightarrow> e = KcNoEntry)
      then StKeychain else StFile)"

text \<open>The keys of a device that has an account; one from before device keys is given its own, once.\<close>

definition load_account ::
    "prims \<Rightarrow> 'k keychain \<Rightarrow> secret_io \<Rightarrow> rand \<Rightarrow> 'k secrets \<Rightarrow> (secret_error + account option) \<times> 'k secrets" where
  "load_account P K io r s =
     (case secret_load K io s of
        Inl e \<Rightarrow> (Inl e, s)
      | Inr None \<Rightarrow> (Inr None, s)
      | Inr (Some keys) \<Rightarrow>
          let i = from_secret P (sk_account keys) in
          case sk_device keys of
            Some d \<Rightarrow>
              (Inr (Some \<lparr>ac_identity = i, ac_device = keys_from_secret P d, ac_store = sk_store keys\<rparr>), s)
          | None \<Rightarrow>
              (case keys_generate P r of
                 Inl e \<Rightarrow> (Inl (SeCrypto e), s)
               | Inr d \<Rightarrow>
                   (case secret_store_keys K io (sk_account keys) (dk_secret d) s of
                      (Inl e, s) \<Rightarrow> (Inl e, s)
                    | (Inr st, s) \<Rightarrow> (Inr (Some \<lparr>ac_identity = i, ac_device = d, ac_store = st\<rparr>), s))))"

end
