(* ===== verification/Secrets_Props.thy ===== *)
theory Secrets_Props
  imports Secrets Enroll
begin

text \<open>
  What is stored is what the next start loads, as long as nothing older is in the way, and the key of this device is the
  same at every start.
\<close>

section \<open>The keychain\<close>

text \<open>What the keychain promises: an entry that was set is the one read back, and a call that failed changes nothing.\<close>

definition keychain_ok :: "'k keychain \<Rightarrow> bool" where
  "keychain_ok K \<longleftrightarrow>
     (\<forall>t k k'. kc_set K t k = (Inr (), k') \<longrightarrow> kc_entry K k' \<and> kc_get K k' = Inr t)
     \<and> (\<forall>t k e k'. kc_set K t k = (Inl e, k') \<longrightarrow> kc_entry K k' = kc_entry K k \<and> kc_get K k' = kc_get K k)"

definition readable :: "'k keychain \<Rightarrow> 'k \<Rightarrow> bool" where
  "readable K k \<longleftrightarrow> kc_entry K k \<and> (\<exists>t. kc_get K k = Inr t)"

lemma secret_code: "length a = 32 \<Longrightarrow> length d = 32 \<Longrightarrow> secret_decode (secret_encode a d) = Inr (a, Some d)"
  by (simp add: secret_decode_def secret_encode_def base32_decode_encode)

lemma trim_code: "trim (secret_encode a d) = secret_encode a d"
proof (cases "secret_encode a d = []")
  case True
  then show ?thesis by (simp add: trim_def trim_start_def trim_end_def)
next
  case False
  have "\<not> is_whitespace c" if "c \<in> set (secret_encode a d)" for c
    using base32_plain [of c "a @ d"] whitespace_range [of c] that by (auto simp: secret_encode_def)
  then show ?thesis using False by (intro trim_noop) auto
qed

lemma secret_decode_account: "secret_decode t = Inr (a, dev) \<Longrightarrow> length a = 32"
  by (auto simp: secret_decode_def split: sum.splits if_splits)

lemma shred_same: "shred_secret_file io s = (r, s') \<Longrightarrow> sc_keychain s' = sc_keychain s"
  by (auto simp: shred_secret_file_def split: option.splits)

lemma write_stored: "write_secret_file io t s = (Inr u, s') \<Longrightarrow> s' = s\<lparr>sc_file := Some t\<rparr>"
  by (auto simp: write_secret_file_def split: write_end.splits)

lemma keys_of_code: "length a = 32 \<Longrightarrow> length d = 32 \<Longrightarrow>
    keys_of st (secret_encode a d) = Inr (Some \<lparr>sk_account = a, sk_device = Some d, sk_store = st\<rparr>)"
  by (simp add: keys_of_def secret_code)

lemma store_then_load:
  assumes K: "keychain_ok K" and len: "length a = 32" "length d = 32"
    and st: "secret_store_keys K io a d s = (Inr st, s')"
    and old: "st = StFile \<Longrightarrow> \<not> readable K (sc_keychain s')" and rd: "si_read io' = None"
  shows "secret_load K io' s' = Inr (Some \<lparr>sk_account = a, sk_device = Some d, sk_store = st\<rparr>)"
proof (cases st)
  case StKeychain
  have "kc_entry K (sc_keychain s') \<and> kc_get K (sc_keychain s') = Inr (secret_encode a d)"
    using st StKeychain K
    by (auto simp: secret_store_keys_def keychain_ok_def Let_def dest!: shred_same
        split: if_splits sum.splits prod.splits keychain_error.splits)
  then show ?thesis using keys_of_code [OF len] StKeychain by (simp add: secret_load_def)
next
  case StFile
  have "sc_file s' = Some (secret_encode a d)"
    using st StFile
    by (auto simp: secret_store_keys_def Let_def dest!: write_stored
        split: if_splits sum.splits prod.splits keychain_error.splits)
  moreover have "\<exists>e. (if kc_entry K (sc_keychain s') then kc_get K (sc_keychain s') else Inl KcNoEntry) = Inl e"
    using old [OF StFile] by (cases "kc_get K (sc_keychain s')") (auto simp: readable_def)
  ultimately show ?thesis using keys_of_code [OF len] StFile rd by (auto simp: secret_load_def Let_def trim_code)
qed

lemma load_account_none:
  assumes "secret_load K io s = Inr (Some keys)" "sk_device keys = None" "load_account P K io r s = (Inr (Some a), s')"
  obtains d where "r = Some d" "ac_device a = keys_from_secret P d" "ac_identity a = from_secret P (sk_account keys)"
    "secret_store_keys K io (sk_account keys) d s = (Inr (ac_store a), s')" "length (sk_account keys) = 32"
proof -
  obtain g where g: "keys_generate P r = Inr g" using assms by (auto simp: load_account_def Let_def split: sum.splits prod.splits)
  then obtain d where d: "r = Some d" "g = keys_from_secret P d" by (cases r) (auto simp: keys_generate_def random_bytes_def)
  have "dk_secret g = d" by (simp add: d keys_from_secret_def Let_def)
  moreover have "length (sk_account keys) = 32"
    using assms(1) by (auto simp: secret_load_def keys_of_def ebind_def Let_def split: sum.splits option.splits if_splits prod.splits
        keychain_error.splits dest: secret_decode_account)
  ultimately show thesis
    using that [of d] assms d g by (auto simp: load_account_def Let_def split: sum.splits prod.splits)
qed

lemma secret_load_same:
  "secret_load K io s = Inr (Some keys) \<Longrightarrow> si_read io' = None \<Longrightarrow> secret_load K io' s = Inr (Some keys)"
  by (auto simp: secret_load_def Let_def split: sum.splits option.splits if_splits keychain_error.splits)

text \<open>The account and the device's own key are the same at every start. A start that finds keys without a device key
  makes one; the next start finds that one and makes none, unless it was put in the file while the keychain still
  answers with the older keys.\<close>

theorem device_key_stays:
  assumes "keychain_ok K" and a: "load_account P K io r s = (Inr (Some a), s')"
    and "\<forall>d. r = Some d \<longrightarrow> length d = 32"
    and "ac_store a = StFile \<Longrightarrow> \<not> readable K (sc_keychain s')" and rd: "si_read io' = None"
  shows "\<exists>a'. load_account P K io' r' s' = (Inr (Some a'), s') \<and> ac_identity a' = ac_identity a \<and> ac_device a' = ac_device a"
proof -
  obtain keys where k: "secret_load K io s = Inr (Some keys)"
    using a by (auto simp: load_account_def split: sum.splits option.splits)
  show ?thesis
  proof (cases "sk_device keys")
    case (Some d)
    then show ?thesis
      using a k secret_load_same [OF k rd] by (auto simp: load_account_def Let_def)
  next
    case None
    obtain d where d: "r = Some d" "ac_device a = keys_from_secret P d" "ac_identity a = from_secret P (sk_account keys)"
      "secret_store_keys K io (sk_account keys) d s = (Inr (ac_store a), s')" "length (sk_account keys) = 32"
      by (rule load_account_none [OF k None a])
    have "secret_load K io' s'
        = Inr (Some \<lparr>sk_account = sk_account keys, sk_device = Some d, sk_store = ac_store a\<rparr>)"
      by (rule store_then_load [OF assms(1) d(5) _ d(4)]) (use assms d in auto)
    then show ?thesis using d by (simp add: load_account_def Let_def)
  qed
qed

section \<open>Errors\<close>

text \<open>A keychain that is there but locked is not gone around: nothing is written, and the file stays as it was.\<close>

lemma locked_not_bypassed:
  assumes "kc_entry K (sc_keychain s)" "kc_set K (secret_encode a d) (sc_keychain s) = (Inl (KcNoAccess e), k)"
  shows "secret_store_keys K io a d s = (Inl (SeKeychainLocked e), s\<lparr>sc_keychain := k\<rparr>)"
  using assms by (simp add: secret_store_keys_def Let_def)

section \<open>An example\<close>

text \<open>A keychain whose service may be running or not; where it is not, every call fails as the platform's.\<close>

definition ex_keychain :: "(bool \<times> ustr option) keychain" where
  "ex_keychain =
     \<lparr>kc_entry = (\<lambda>_. True),
      kc_get = (\<lambda>(up, p). if up then case p of None \<Rightarrow> Inl KcNoEntry | Some t \<Rightarrow> Inr t else Inl (KcOther ''no service'')),
      kc_set = (\<lambda>t (up, p). if up then (Inr (), (up, Some t)) else (Inl (KcOther ''no service''), (up, p))),
      kc_delete = (\<lambda>(up, p). if up then (Inr (), (up, None)) else (Inl (KcOther ''no service''), (up, p)))\<rparr>"

lemma ex_keychain_ok: "keychain_ok ex_keychain"
  by (auto simp: keychain_ok_def ex_keychain_def split: if_splits)

definition ex_secret_io :: secret_io where
  "ex_secret_io = \<lparr>si_read = None, si_overwritten = True, si_removed = None, si_write = WeDone\<rparr>"

definition ex_old :: bytes where "ex_old = replicate 32 7"

lemma ex_old_only: "secret_decode (base32_encode ex_old) = Inr (ex_old, None)"
  by (simp add: secret_decode_def base32_decode_encode ex_old_def)

theorem device_key_stays_witness:
  "\<exists>a s'. load_account toy_prims ex_keychain ex_secret_io (Some (replicate 32 9))
        \<lparr>sc_keychain = (True, Some (base32_encode ex_old)), sc_file = None, sc_left_behind = 0\<rparr> = (Inr (Some a), s')
    \<and> ac_device a = keys_from_secret toy_prims (replicate 32 9)
    \<and> (\<exists>a'. load_account toy_prims ex_keychain ex_secret_io (Some (replicate 32 10)) s' = (Inr (Some a'), s')
        \<and> ac_device a' = ac_device a)"
proof -
  let ?s = "\<lparr>sc_keychain = (True, Some (base32_encode ex_old)), sc_file = None, sc_left_behind = 0\<rparr>"
  obtain a s' where a: "load_account toy_prims ex_keychain ex_secret_io (Some (replicate 32 9)) ?s = (Inr (Some a), s')"
    "ac_device a = keys_from_secret toy_prims (replicate 32 9)" "ac_store a = StKeychain"
    by (auto simp: load_account_def secret_load_def ex_keychain_def keys_of_def ex_old_only Let_def keys_generate_def
        random_bytes_def secret_store_keys_def shred_secret_file_def)
  have "\<forall>d. Some (replicate 32 9) = Some d \<longrightarrow> length d = 32" by simp
  from device_key_stays [OF ex_keychain_ok a(1) this _, of ex_secret_io "Some (replicate 32 10)"] a(3)
  obtain a' where "load_account toy_prims ex_keychain ex_secret_io (Some (replicate 32 10)) s' = (Inr (Some a'), s')"
    "ac_device a' = ac_device a"
    by (auto simp: ex_secret_io_def)
  then show ?thesis using a by blast
qed

text \<open>Where the service is not running, new keys go to the file, and the older entry stays: once the service runs again,
  the device is back on the old account.\<close>

lemma old_account_returns:
  "\<exists>s s'. secret_store_keys ex_keychain ex_secret_io (replicate 32 1) (replicate 32 2) s = (Inr StFile, s')
    \<and> secret_load ex_keychain ex_secret_io (s'\<lparr>sc_keychain := (True, snd (sc_keychain s'))\<rparr>)
        = Inr (Some \<lparr>sk_account = ex_old, sk_device = None, sk_store = StKeychain\<rparr>)"
  by (intro exI [of _ "\<lparr>sc_keychain = (False, Some (base32_encode ex_old)), sc_file = None, sc_left_behind = 0\<rparr>"] exI)
    (auto simp: secret_store_keys_def ex_keychain_def write_secret_file_def ex_secret_io_def secret_load_def keys_of_def
      ex_old_only Let_def)

end
