(* ===== verification/Spec2Isabelle.thy ===== *)
theory Spec2Isabelle
  imports Replay Echo Normalize Chunk Announce About Rekey Enroll Direct Auth Conn_State Backoff Session_Props History_Props Client_Props Devices_Props File_Names Direct_Threads Joining_Props Clip_Writer_Props Daemon_Props Secrets_Props
begin

text \<open>
  Asli: a clipboard shared between a person's devices over a relay that is not trusted.
\<close>

end
